(* ===== verification/Js_Prelude.thy ===== *)
theory Js_Prelude
  imports Complex_Main "HOL-Library.List_Lexorder"
begin

section \<open>JavaScript strings, ordered objects and results\<close>

text \<open>
  What the components share. A JavaScript string is the list of its UTF-16 code units, each a
  \<open>nat\<close>: \<open>s[i]\<close>, \<open>s.length\<close> and \<open>s.slice\<close> count code units in the source, and so they do here;
  \<open><\<close> on these lists (List_Lexorder) is the language's string comparison. A literal is written
  \<open>js ''abc''\<close>, a one-character literal \<open>ch CHR ''a''\<close>. An object or a \<open>Map\<close> is the list of its
  entries in insertion order, without repeated keys (the keys the code uses are property names,
  identifiers, never array indices, which JavaScript would order first). A thrown error is the
  \<open>Inl\<close> of a sum, a returned value its \<open>Inr\<close>.
\<close>

named_theorems js_simps \<open>evaluation of string and object operations\<close>
named_theorems result_simps \<open>evaluation of results\<close>

subsection \<open>Code units and literals\<close>

type_synonym code_unit = nat
type_synonym jsstr = "code_unit list"

abbreviation ch :: "char \<Rightarrow> code_unit" where
  "ch c \<equiv> of_char c"

definition js :: "string \<Rightarrow> jsstr" where
  "js s = map of_char s"

lemma js_eq_iff [simp]: "js a = js b \<longleftrightarrow> a = b"
  by (auto simp: js_def inj_def)

lemma js_eq_Nil_iff [simp]: "js a = [] \<longleftrightarrow> a = []" "[] = js a \<longleftrightarrow> a = []"
  by (auto simp: js_def)

lemma length_js [simp]: "length (js a) = length a"
  by (simp add: js_def)

lemma js_Nil [simp]: "js [] = []"
  by (simp add: js_def)

lemma js_Cons: "js (c # cs) = ch c # js cs"
  by (simp add: js_def)

lemma js_append: "js (a @ b) = js a @ js b"
  by (simp add: js_def)

text \<open>The white space that \<open>trim\<close> strips and \<open>\\s\<close> matches (WhiteSpace and LineTerminator).\<close>

definition is_js_space :: "code_unit \<Rightarrow> bool" where
  "is_js_space c \<longleftrightarrow> c \<in> {9, 10, 11, 12, 13, 32, 160, 5760, 8232, 8233, 8239, 8287, 12288, 65279}
     \<or> (8192 \<le> c \<and> c \<le> 8202)"

definition is_digit :: "code_unit \<Rightarrow> bool" where
  "is_digit c \<longleftrightarrow> ch CHR ''0'' \<le> c \<and> c \<le> ch CHR ''9''"

lemma is_digit_iff: "is_digit c \<longleftrightarrow> 48 \<le> c \<and> c \<le> 57"
  by (simp add: is_digit_def)

definition is_hex_digit :: "code_unit \<Rightarrow> bool" where
  "is_hex_digit c \<longleftrightarrow> is_digit c \<or> (ch CHR ''a'' \<le> c \<and> c \<le> ch CHR ''f'') \<or> (ch CHR ''A'' \<le> c \<and> c \<le> ch CHR ''F'')"

definition is_letter :: "code_unit \<Rightarrow> bool" where
  "is_letter c \<longleftrightarrow> (ch CHR ''A'' \<le> c \<and> c \<le> ch CHR ''Z'') \<or> (ch CHR ''a'' \<le> c \<and> c \<le> ch CHR ''z'')"

subsection \<open>String methods\<close>

definition trim_start :: "jsstr \<Rightarrow> jsstr" where
  "trim_start s = dropWhile is_js_space s"

definition trim :: "jsstr \<Rightarrow> jsstr" where
  "trim s = rev (dropWhile is_js_space (rev (trim_start s)))"

definition starts_with :: "jsstr \<Rightarrow> jsstr \<Rightarrow> bool" where
  "starts_with s p \<longleftrightarrow> take (length p) s = p"

definition ends_with :: "jsstr \<Rightarrow> jsstr \<Rightarrow> bool" where
  "ends_with s p \<longleftrightarrow> starts_with (rev s) (rev p)"

text \<open>\<open>s.slice(a, b)\<close> for \<open>0 \<le> a\<close> and \<open>0 \<le> b\<close>.\<close>

definition slice :: "nat \<Rightarrow> nat \<Rightarrow> jsstr \<Rightarrow> jsstr" where
  "slice a b s = take (b - a) (drop a s)"

text \<open>\<open>s[i]\<close>, \<open>None\<close> for the \<open>undefined\<close> past the end.\<close>

definition char_at :: "'a list \<Rightarrow> nat \<Rightarrow> 'a option" where
  "char_at s i = (if i < length s then Some (s ! i) else None)"

fun split_on :: "code_unit \<Rightarrow> jsstr \<Rightarrow> jsstr list" where
  "split_on d [] = [[]]"
| "split_on d (c # cs) =
     (if c = d then [] # split_on d cs
      else (case split_on d cs of [] \<Rightarrow> [[c]] | w # ws \<Rightarrow> (c # w) # ws))"

fun join_with :: "jsstr \<Rightarrow> jsstr list \<Rightarrow> jsstr" where
  "join_with sep [] = []"
| "join_with sep [w] = w"
| "join_with sep (w # ws) = w @ sep @ join_with sep ws"

text \<open>The position of the first element that satisfies \<open>p\<close>: \<open>findIndex\<close>, with \<open>None\<close> for -1.\<close>

fun find_index :: "('a \<Rightarrow> bool) \<Rightarrow> 'a list \<Rightarrow> nat option" where
  "find_index p [] = None"
| "find_index p (x # xs) = (if p x then Some 0 else map_option Suc (find_index p xs))"

text \<open>
  Code points: \<open>[...s]\<close> and \<open>Array.from(s)\<close> pair a high surrogate with a low one;
  \<open>String.fromCodePoint\<close> writes a pair above U+FFFF.
\<close>

definition is_high_surrogate :: "code_unit \<Rightarrow> bool" where
  "is_high_surrogate c \<longleftrightarrow> 0xD800 \<le> c \<and> c < 0xDC00"

definition is_low_surrogate :: "code_unit \<Rightarrow> bool" where
  "is_low_surrogate c \<longleftrightarrow> 0xDC00 \<le> c \<and> c < 0xE000"

fun code_points :: "jsstr \<Rightarrow> nat list" where
  "code_points [] = []"
| "code_points [c] = [c]"
| "code_points (c # d # cs) =
     (if is_high_surrogate c \<and> is_low_surrogate d
      then (0x10000 + (c - 0xD800) * 0x400 + (d - 0xDC00)) # code_points cs
      else c # code_points (d # cs))"

definition from_code_point :: "nat \<Rightarrow> jsstr" where
  "from_code_point n =
     (if n < 0x10000 then [n]
      else [0xD800 + (n - 0x10000) div 0x400, 0xDC00 + (n - 0x10000) mod 0x400])"

lemma code_points_from_code_point:
  assumes "n \<le> 0x10FFFF"
  shows "code_points (from_code_point n) = [n]"
proof (cases "n < 0x10000")
  case True
  then show ?thesis by (simp add: from_code_point_def)
next
  case False
  define m where "m = n - 0x10000"
  have "m div 0x400 < 0x400" using assms False by (simp add: m_def)
  moreover have "m mod 0x400 < 0x400" by simp
  moreover have "0x10000 + (m div 0x400) * 0x400 + m mod 0x400 = n"
    using False by (simp add: m_def)
  ultimately show ?thesis
    using False by (simp add: from_code_point_def m_def [symmetric] is_high_surrogate_def is_low_surrogate_def)
qed

lemma length_code_points_le: "length (code_points s) \<le> length s"
  by (induction s rule: code_points.induct) auto

text \<open>The number an all-digit string denotes in the given base.\<close>

definition hex_value :: "code_unit \<Rightarrow> nat" where
  "hex_value c =
     (if is_digit c then c - 48 else if 97 \<le> c then c - 87 else c - 55)"

definition number_of_digits :: "nat \<Rightarrow> jsstr \<Rightarrow> nat" where
  "number_of_digits base ds = foldl (\<lambda>n c. n * base + hex_value c) 0 ds"

abbreviation decimal_value :: "jsstr \<Rightarrow> nat" where
  "decimal_value ds \<equiv> number_of_digits 10 ds"

subsection \<open>Facts about the string methods\<close>

lemma split_on_not_Nil [simp]: "split_on d s \<noteq> []"
  by (cases s) (auto split: list.splits)

lemma join_split [simp]: "join_with [d] (split_on d s) = s"
proof (induction s)
  case (Cons c s)
  obtain w ws where "split_on d s = w # ws" by (cases "split_on d s") auto
  with Cons show ?case by (cases ws) auto
qed simp

lemma split_on_no_sep: "d \<notin> set s \<Longrightarrow> split_on d s = [s]"
  by (induction s) auto

lemma split_on_append: "d \<notin> set w \<Longrightarrow> split_on d (w @ d # s) = w # split_on d s"
  by (induction w) auto

lemma split_join: "ws \<noteq> [] \<Longrightarrow> \<forall>w \<in> set ws. d \<notin> set w \<Longrightarrow> split_on d (join_with [d] ws) = ws"
  by (induction "[d]" ws rule: join_with.induct) (auto simp: split_on_no_sep split_on_append)

lemma split_on_pieces: "w \<in> set (split_on d s) \<Longrightarrow> d \<notin> set w"
  by (induction s arbitrary: w) (auto split: if_splits list.splits)

lemma join_with_Cons: "ws \<noteq> [] \<Longrightarrow> join_with sep (w # ws) = w @ sep @ join_with sep ws"
  by (cases ws) auto

lemma join_with_snoc: "ws \<noteq> [] \<Longrightarrow> join_with sep (ws @ [w]) = join_with sep ws @ sep @ w"
  by (induction ws rule: induct_list012) (auto simp: join_with_Cons)

lemma starts_with_append [simp]: "starts_with (p @ s) p"
  by (simp add: starts_with_def)

lemma starts_with_iff: "starts_with s p \<longleftrightarrow> (\<exists>r. s = p @ r)"
  by (auto simp: starts_with_def) (metis append_take_drop_id)

lemma starts_with_Nil [simp]: "starts_with s []"
  by (simp add: starts_with_def)

lemma starts_with_Cons [simp]: "starts_with (c # s) (d # p) \<longleftrightarrow> c = d \<and> starts_with s p"
  by (auto simp: starts_with_def)

lemma starts_with_Nil_Cons [simp]: "\<not> starts_with [] (d # p)"
  by (simp add: starts_with_def)

lemma starts_with_refl [simp]: "starts_with s s"
  by (simp add: starts_with_def)

lemma trim_id:
  assumes "s \<noteq> []" "\<not> is_js_space (hd s)" "\<not> is_js_space (last s)"
  shows "trim s = s"
proof -
  have "dropWhile is_js_space s = s" using assms by (cases s) auto
  moreover have "dropWhile is_js_space (rev s) = rev s"
    using assms by (cases s rule: rev_cases) auto
  ultimately show ?thesis by (simp add: trim_def trim_start_def)
qed

lemma find_index_eq_None: "find_index p xs = None \<longleftrightarrow> (\<forall>x \<in> set xs. \<not> p x)"
  by (induction xs) auto

lemma find_index_SomeD: "find_index p xs = Some i \<Longrightarrow> i < length xs \<and> p (xs ! i)"
  by (induction xs arbitrary: i) (auto split: if_splits)

subsection \<open>Ordered stores: objects and maps\<close>

text \<open>
  What the clients of an object or a \<open>Map\<close> rely on: reading after writing, and the order of the
  keys, which is the order of their first insertion. Reading an object sees its own keys only, not the
  names every object inherits (\<open>constructor\<close>, \<open>toString\<close>), and no key is an array index, as no name of a
  property is.
\<close>

locale ordered_store =
  fixes get :: "'s \<Rightarrow> 'k \<Rightarrow> 'v option"
    and put :: "'s \<Rightarrow> 'k \<Rightarrow> 'v \<Rightarrow> 's"
    and keys :: "'s \<Rightarrow> 'k list"
    and empty :: "'s"
  assumes keys_empty: "keys empty = []"
    and get_put: "get (put s k v) k' = (if k' = k then Some v else get s k')"
    and keys_put: "keys (put s k v) = (if k \<in> set (keys s) then keys s else keys s @ [k])"
    and in_keys: "k \<in> set (keys s) \<longleftrightarrow> get s k \<noteq> None"
begin

definition put_all :: "'s \<Rightarrow> ('k \<times> 'v) list \<Rightarrow> 's" where
  "put_all s kvs = foldl (\<lambda>s (k, v). put s k v) s kvs"

lemma put_all_simps [simp]:
  "put_all s [] = s"
  "put_all s ((k, v) # kvs) = put_all (put s k v) kvs"
  by (simp_all add: put_all_def)

lemma get_empty: "get empty k = None"
  using in_keys [of k empty] by (simp add: keys_empty)

lemma distinct_keys_put: "distinct (keys s) \<Longrightarrow> distinct (keys (put s k v))"
  by (auto simp: keys_put)

lemma get_put_all: "get (put_all s kvs) k = (case map_of (rev kvs) k of Some v \<Rightarrow> Some v | None \<Rightarrow> get s k)"
  by (induction kvs arbitrary: s) (auto simp: get_put map_add_def split: option.splits)

lemma set_keys_put: "set (keys (put s k v)) = insert k (set (keys s))"
  by (auto simp: keys_put)

lemma set_keys_put_all: "set (keys (put_all s kvs)) = set (keys s) \<union> fst ` set kvs"
proof (induction kvs arbitrary: s)
  case (Cons kv kvs)
  obtain k v where "kv = (k, v)" by (cases kv)
  with Cons show ?case by (auto simp: set_keys_put)
qed simp

lemma distinct_keys_put_all: "distinct (keys s) \<Longrightarrow> distinct (keys (put_all s kvs))"
  by (induction kvs arbitrary: s) (auto simp: keys_put)

lemma keys_put_all:
  "distinct (map fst kvs) \<Longrightarrow> fst ` set kvs \<inter> set (keys s) = {} \<Longrightarrow>
     keys (put_all s kvs) = keys s @ map fst kvs"
proof (induction kvs arbitrary: s)
  case (Cons kv kvs)
  obtain k v where kv: "kv = (k, v)" by (cases kv)
  from Cons.prems have "keys (put s k v) = keys s @ [k]" by (auto simp: keys_put kv)
  with Cons.prems have "keys (put_all (put s k v) kvs) = keys (put s k v) @ map fst kvs"
    by (intro Cons.IH) (auto simp: kv)
  with \<open>keys (put s k v) = keys s @ [k]\<close> show ?case by (simp add: kv)
qed simp

end

type_synonym ('k, 'v) omap = "('k \<times> 'v) list"
type_synonym 'v obj = "(jsstr, 'v) omap"

definition obj_get :: "('k, 'v) omap \<Rightarrow> 'k \<Rightarrow> 'v option" where
  "obj_get o1 k = map_of o1 k"

fun obj_set :: "('k, 'v) omap \<Rightarrow> 'k \<Rightarrow> 'v \<Rightarrow> ('k, 'v) omap" where
  "obj_set [] k v = [(k, v)]"
| "obj_set ((k', v') # o1) k v = (if k' = k then (k, v) # o1 else (k', v') # obj_set o1 k v)"

definition obj_keys :: "('k, 'v) omap \<Rightarrow> 'k list" where
  "obj_keys o1 = map fst o1"

text \<open>\<open>{...a, ...b}\<close>\<close>

definition obj_spread :: "('k, 'v) omap \<Rightarrow> ('k, 'v) omap \<Rightarrow> ('k, 'v) omap" where
  "obj_spread a b = foldl (\<lambda>o1 (k, v). obj_set o1 k v) a b"

text \<open>An assignment to a field of the entry under \<open>k\<close>, if there is one.\<close>

fun obj_modify :: "('k, 'v) omap \<Rightarrow> 'k \<Rightarrow> ('v \<Rightarrow> 'v) \<Rightarrow> ('k, 'v) omap" where
  "obj_modify [] k f = []"
| "obj_modify ((k', v') # o1) k f = (if k' = k then (k', f v') # o1 else (k', v') # obj_modify o1 k f)"

lemma obj_get_Nil [simp]: "obj_get [] k = None"
  by (simp add: obj_get_def)

lemma obj_get_Cons [simp]: "obj_get ((k', v) # o1) k = (if k = k' then Some v else obj_get o1 k)"
  by (simp add: obj_get_def)

lemma obj_get_set [simp]: "obj_get (obj_set o1 k v) k' = (if k' = k then Some v else obj_get o1 k')"
  by (induction o1 k v rule: obj_set.induct) auto

lemma obj_keys_set: "obj_keys (obj_set o1 k v) = (if k \<in> set (obj_keys o1) then obj_keys o1 else obj_keys o1 @ [k])"
  by (induction o1 k v rule: obj_set.induct) (auto simp: obj_keys_def)

lemma in_obj_keys: "k \<in> set (obj_keys o1) \<longleftrightarrow> obj_get o1 k \<noteq> None"
  by (auto simp: obj_keys_def obj_get_def map_of_eq_None_iff)

interpretation objs: ordered_store obj_get obj_set obj_keys "[]"
  by unfold_locales (simp_all add: obj_keys_set in_obj_keys, simp add: obj_keys_def)

lemma obj_spread_put_all: "obj_spread a b = objs.put_all a b"
  by (simp add: obj_spread_def objs.put_all_def)

lemma obj_get_modify [simp]: "obj_get (obj_modify o1 k f) k' = (if k' = k then map_option f (obj_get o1 k) else obj_get o1 k')"
  by (induction o1 k f rule: obj_modify.induct) auto

lemma obj_keys_modify [simp]: "obj_keys (obj_modify o1 k f) = obj_keys o1"
  by (induction o1 k f rule: obj_modify.induct) (auto simp: obj_keys_def)

lemma obj_keys_append [simp]: "obj_keys (a @ b) = obj_keys a @ obj_keys b"
  by (simp add: obj_keys_def)

lemma obj_keys_Cons [simp]: "obj_keys ((k, v) # a) = k # obj_keys a"
  by (simp add: obj_keys_def)

lemma obj_keys_Nil [simp]: "obj_keys [] = []"
  by (simp add: obj_keys_def)

lemma obj_set_new: "k \<notin> set (obj_keys o1) \<Longrightarrow> obj_set o1 k v = o1 @ [(k, v)]"
  by (induction o1 k v rule: obj_set.induct) auto

lemma obj_spread_fresh:
  "distinct (obj_keys b) \<Longrightarrow> set (obj_keys a) \<inter> set (obj_keys b) = {} \<Longrightarrow> obj_spread a b = a @ b"
proof (induction b arbitrary: a)
  case (Cons kv b)
  obtain k v where kv: "kv = (k, v)" by (cases kv)
  from Cons.prems have "obj_set a k v = a @ [(k, v)]" by (intro obj_set_new) (auto simp: kv)
  moreover from Cons.prems have "obj_spread (a @ [(k, v)]) b = (a @ [(k, v)]) @ b"
    by (intro Cons.IH) (auto simp: kv)
  ultimately show ?case by (simp add: kv obj_spread_def)
qed (simp add: obj_spread_def)

lemma obj_get_append: "obj_get (a @ b) k = (case obj_get a k of None \<Rightarrow> obj_get b k | Some v \<Rightarrow> Some v)"
  by (simp add: obj_get_def map_add_def split: option.splits)

lemma obj_get_SomeD: "obj_get o1 k = Some v \<Longrightarrow> (k, v) \<in> set o1"
  by (simp add: obj_get_def map_of_SomeD)

lemma obj_get_in_set: "distinct (obj_keys o1) \<Longrightarrow> (k, v) \<in> set o1 \<Longrightarrow> obj_get o1 k = Some v"
  by (simp add: obj_get_def obj_keys_def)

declare obj_get_def [js_simps] obj_keys_def [js_simps] slice_def [js_simps] char_at_def [js_simps]

subsection \<open>Results\<close>

fun res_bind :: "'e + 'a \<Rightarrow> ('a \<Rightarrow> 'e + 'b) \<Rightarrow> 'e + 'b" where
  "res_bind (Inl e) f = Inl e"
| "res_bind (Inr x) f = f x"

text \<open>A guard: \<open>if (b) throw e\<close>.\<close>

definition throw_if :: "bool \<Rightarrow> 'e \<Rightarrow> 'e + unit" where
  "throw_if b e = (if b then Inl e else Inr ())"

text \<open>\<open>map\<close> with a body that may throw: the first error stops it.\<close>

fun traverse :: "('a \<Rightarrow> 'e + 'b) \<Rightarrow> 'a list \<Rightarrow> 'e + 'b list" where
  "traverse f [] = Inr []"
| "traverse f (x # xs) = res_bind (f x) (\<lambda>y. res_bind (traverse f xs) (\<lambda>ys. Inr (y # ys)))"

definition is_ok :: "'e + 'a \<Rightarrow> bool" where
  "is_ok r = (case r of Inl _ \<Rightarrow> False | Inr _ \<Rightarrow> True)"

lemma is_ok_simps [simp, result_simps]: "is_ok (Inr x)" "\<not> is_ok (Inl e)"
  by (simp_all add: is_ok_def)

lemma is_ok_iff: "is_ok r \<longleftrightarrow> (\<exists>x. r = Inr x)"
  by (cases r) auto

lemma res_bind_eq_Inr [result_simps]: "res_bind r f = Inr y \<longleftrightarrow> (\<exists>x. r = Inr x \<and> f x = Inr y)"
  by (cases r) auto

lemma res_bind_eq_Inl [result_simps]: "res_bind r f = Inl e \<longleftrightarrow> r = Inl e \<or> (\<exists>x. r = Inr x \<and> f x = Inl e)"
  by (cases r) auto

lemma throw_if_eq [simp, result_simps]:
  "throw_if b e = Inr u \<longleftrightarrow> \<not> b"
  "throw_if b e = Inl e' \<longleftrightarrow> b \<and> e' = e"
  by (auto simp: throw_if_def)

lemma traverse_eq_Inr: "traverse f xs = Inr ys \<longleftrightarrow> list_all2 (\<lambda>x y. f x = Inr y) xs ys"
  by (induction xs arbitrary: ys) (auto simp: res_bind_eq_Inr list_all2_Cons1)

lemma traverse_cong [fundef_cong]:
  "xs = ys \<Longrightarrow> (\<And>x. x \<in> set ys \<Longrightarrow> f x = g x) \<Longrightarrow> traverse f xs = traverse g ys"
  by (induction xs arbitrary: ys) auto

lemma res_bind_cong [fundef_cong]:
  "r = s \<Longrightarrow> (\<And>x. s = Inr x \<Longrightarrow> f x = g x) \<Longrightarrow> res_bind r f = res_bind s g"
  by (cases s) auto

end
