(* ===== verification/Api_Types.thy ===== *)
theory Api_Types
  imports Js_Prelude
begin

section \<open>The types of the HTTP interface\<close>

text \<open>
  The data of \<open>admin/src/lib/api/types\<close> (\<open>types.ts\<close>, \<open>pipeline.ts\<close>, \<open>connection.ts\<close>, \<open>connector.ts\<close>,
  \<open>workspace.ts\<close>): a union of string literals is a datatype, an interface a record, a recursive
  interface a datatype. A field that may be \<open>null\<close> or \<open>undefined\<close> is an option; the two are one
  value here because the code only tests them with \<open>== null\<close>. An optional string that the code
  only tests for truthiness (\<open>prefilled\<close>, \<open>displayName\<close>, \<open>description\<close>) is the empty string when
  absent, and an absent boolean is \<open>False\<close>. \<open>ObjectType.properties\<close> is always present in the
  schemas the server sends, so it is a list. JSON numbers are finite, so they are rationals.
\<close>

subsection \<open>Schema types (types.ts)\<close>

type_synonym js_num = rat

datatype type_kind = KBoolean | KInt | KFloat | KDecimal | KDateTime | KDate | KTime | KYear
  | KUUID | KJSON | KIP | KString | KArray | KObject | KMap

fun kind_string :: "type_kind \<Rightarrow> string" where
  "kind_string KBoolean = ''boolean''"
| "kind_string KInt = ''int''"
| "kind_string KFloat = ''float''"
| "kind_string KDecimal = ''decimal''"
| "kind_string KDateTime = ''datetime''"
| "kind_string KDate = ''date''"
| "kind_string KTime = ''time''"
| "kind_string KYear = ''year''"
| "kind_string KUUID = ''uuid''"
| "kind_string KJSON = ''json''"
| "kind_string KIP = ''ip''"
| "kind_string KString = ''string''"
| "kind_string KArray = ''array''"
| "kind_string KObject = ''object''"
| "kind_string KMap = ''map''"

datatype country_format = Alpha2 | Alpha3

datatype measure_unit = UGram | UKilogram | UMillimetre | UCentimetre | UMetre | UKilometre
  | UMillilitre | ULitre | UByte | UKilobyte | UMegabyte | UGigabyte | UCelsius | UFahrenheit
  | UOunce | UPound | UInch | UFoot | UYard | UMile | UMillisecond | USecond | UMinute | UHour
  | UDay | UWeek | UMonth | UYear

datatype semantics = Email | Phone | Url | Country | Money | Percentage | Measurement | Duration

record string_type =
  st_semantics :: "semantics option"
  st_format :: "country_format option"
  st_maxBytes :: "js_num option"
  st_maxLength :: "js_num option"
  st_pattern :: "jsstr option"
  st_values :: "jsstr list option"

record int_type =
  it_semantics :: "semantics option"
  it_unit :: "measure_unit option"
  it_bitSize :: nat
  it_unsigned :: bool
  it_minimum :: "js_num option"
  it_maximum :: "js_num option"

record float_type =
  ft_semantics :: "semantics option"
  ft_unit :: "measure_unit option"
  ft_bitSize :: nat
  ft_real :: bool
  ft_minimum :: "js_num option"
  ft_maximum :: "js_num option"

record decimal_type =
  dt_semantics :: "semantics option"
  dt_currency :: "jsstr option"
  dt_unit :: "measure_unit option"
  dt_minimum :: "js_num option"
  dt_maximum :: "js_num option"
  dt_precision :: "js_num option"
  dt_scale :: "js_num option"

record array_bounds =
  ab_minElements :: "nat option"
  ab_maxElements :: "nat option"
  ab_uniqueElements :: bool

datatype schema_type =
    StringType string_type
  | BooleanType
  | IntType int_type
  | FloatType float_type
  | DecimalType decimal_type
  | DateTimeType
  | DateType
  | TimeType
  | YearType
  | UUIDType
  | JSONType
  | IPType
  | ArrayType array_bounds schema_type
  | ObjectType "property list"
  | MapType schema_type
and property = Property
  (p_name: jsstr)
  (p_prefilled: jsstr)
  (p_type: schema_type)
  (p_createRequired: bool)
  (p_updateRequired: bool)
  (p_readOptional: bool)
  (p_nullable: bool)
  (p_displayName: jsstr)
  (p_description: jsstr)

text \<open>The discriminant of the union.\<close>

fun kind_of :: "schema_type \<Rightarrow> type_kind" where
  "kind_of (StringType _) = KString"
| "kind_of BooleanType = KBoolean"
| "kind_of (IntType _) = KInt"
| "kind_of (FloatType _) = KFloat"
| "kind_of (DecimalType _) = KDecimal"
| "kind_of DateTimeType = KDateTime"
| "kind_of DateType = KDate"
| "kind_of TimeType = KTime"
| "kind_of YearType = KYear"
| "kind_of UUIDType = KUUID"
| "kind_of JSONType = KJSON"
| "kind_of IPType = KIP"
| "kind_of (ArrayType _ _) = KArray"
| "kind_of (ObjectType _) = KObject"
| "kind_of (MapType _) = KMap"

lemma kind_of_object: "kind_of t = KObject \<longleftrightarrow> (\<exists>ps. t = ObjectType ps)"
  by (cases t) auto

text \<open>\<open>'semantics' in t ? t.semantics : undefined\<close>, and likewise for the options of a semantics.\<close>

fun type_semantics :: "schema_type \<Rightarrow> semantics option" where
  "type_semantics (StringType t) = st_semantics t"
| "type_semantics (IntType t) = it_semantics t"
| "type_semantics (FloatType t) = ft_semantics t"
| "type_semantics (DecimalType t) = dt_semantics t"
| "type_semantics _ = None"

fun type_format :: "schema_type \<Rightarrow> country_format option" where
  "type_format (StringType t) = st_format t"
| "type_format _ = None"

fun type_unit :: "schema_type \<Rightarrow> measure_unit option" where
  "type_unit (IntType t) = it_unit t"
| "type_unit (FloatType t) = ft_unit t"
| "type_unit (DecimalType t) = dt_unit t"
| "type_unit _ = None"

fun type_currency :: "schema_type \<Rightarrow> jsstr option" where
  "type_currency (DecimalType t) = dt_currency t"
| "type_currency _ = None"

definition set_p_type :: "property \<Rightarrow> schema_type \<Rightarrow> property" where
  "set_p_type p t = (case p of Property n pre _ c u r nu dn de \<Rightarrow> Property n pre t c u r nu dn de)"

definition set_p_prefilled :: "property \<Rightarrow> jsstr \<Rightarrow> property" where
  "set_p_prefilled p v = (case p of Property n _ t c u r nu dn de \<Rightarrow> Property n v t c u r nu dn de)"

definition set_p_readOptional :: "property \<Rightarrow> bool \<Rightarrow> property" where
  "set_p_readOptional p b = (case p of Property n pre t c u _ nu dn de \<Rightarrow> Property n pre t c u b nu dn de)"

text \<open>\<open>createRequired = true; updateRequired = false; nullable = false\<close>\<close>

definition set_p_required_key :: "property \<Rightarrow> property" where
  "set_p_required_key p = (case p of Property n pre t _ _ r _ dn de \<Rightarrow> Property n pre t True False r False dn de)"

lemma set_p_type_simps [simp]:
  "p_name (set_p_type p t) = p_name p" "p_type (set_p_type p t) = t"
  "p_prefilled (set_p_type p t) = p_prefilled p"
  "p_createRequired (set_p_type p t) = p_createRequired p"
  "p_updateRequired (set_p_type p t) = p_updateRequired p"
  "p_readOptional (set_p_type p t) = p_readOptional p"
  "p_nullable (set_p_type p t) = p_nullable p"
  "p_displayName (set_p_type p t) = p_displayName p"
  "p_description (set_p_type p t) = p_description p"
  by (cases p; simp add: set_p_type_def)+

lemma set_p_names [simp]:
  "p_name (set_p_prefilled p v) = p_name p"
  "p_name (set_p_readOptional p b) = p_name p"
  "p_name (set_p_required_key p) = p_name p"
  "p_type (set_p_prefilled p v) = p_type p"
  "p_type (set_p_readOptional p b) = p_type p"
  "p_type (set_p_required_key p) = p_type p"
  by (cases p; simp add: set_p_prefilled_def set_p_readOptional_def set_p_required_key_def)+

lemma set_p_type_id [simp]: "set_p_type p (p_type p) = p"
  by (cases p) (simp add: set_p_type_def)

lemma size_property_type [termination_simp]: "p \<in> set ps \<Longrightarrow> size (p_type p) < Suc (size_list size ps)"
proof (induction ps)
  case (Cons q qs)
  then show ?case by (cases q) auto
qed simp

subsection \<open>Pipelines (pipeline.ts)\<close>

datatype pipeline_target = TEvent | TUser | TGroup

datatype schedule_period = Off | M5 | M15 | M30 | H1 | H2 | H3 | H6 | H8 | H12 | H24

datatype export_mode = CreateOnly | UpdateOnly | CreateOrUpdate

text \<open>\<open>exportMode.includes('Create')\<close> and \<open>exportMode.includes('Update')\<close>.\<close>

definition includes_create :: "export_mode \<Rightarrow> bool" where
  "includes_create m \<longleftrightarrow> m = CreateOnly \<or> m = CreateOrUpdate"

definition includes_update :: "export_mode \<Rightarrow> bool" where
  "includes_update m \<longleftrightarrow> m = UpdateOnly \<or> m = CreateOrUpdate"

datatype filter_logical = And | Or

record required_consents =
  rc_operator :: filter_logical
  rc_purposes :: "jsstr list"

type_synonym mapping = "jsstr obj"

record transformation_function =
  tf_source :: jsstr
  tf_language :: jsstr
  tf_preserveJSON :: bool
  tf_inPaths :: "jsstr list"
  tf_outPaths :: "jsstr list"

record transformation =
  tr_mapping :: "mapping option"
  tr_function :: "transformation_function option"

record expression_to_be_extracted =
  ex_value :: jsstr
  ex_type :: schema_type

record matching =
  m_in :: jsstr
  m_out :: jsstr

datatype filter_operator = OpIs | OpIsNot | OpLess | OpLessEqual | OpGreater | OpGreaterEqual
  | OpBetween | OpNotBetween | OpContains | OpNotContains | OpOneOf | OpNotOneOf
  | OpStartsWith | OpEndsWith | OpBefore | OpOnOrBefore | OpAfter | OpOnOrAfter
  | OpIsTrue | OpIsFalse | OpIsEmpty | OpIsNotEmpty | OpIsNull | OpIsNotNull
  | OpExists | OpNotExist

fun operator_string :: "filter_operator \<Rightarrow> string" where
  "operator_string OpIs = ''is''"
| "operator_string OpIsNot = ''is not''"
| "operator_string OpLess = ''is less than''"
| "operator_string OpLessEqual = ''is less than or equal to''"
| "operator_string OpGreater = ''is greater than''"
| "operator_string OpGreaterEqual = ''is greater than or equal to''"
| "operator_string OpBetween = ''is between''"
| "operator_string OpNotBetween = ''is not between''"
| "operator_string OpContains = ''contains''"
| "operator_string OpNotContains = ''does not contain''"
| "operator_string OpOneOf = ''is one of''"
| "operator_string OpNotOneOf = ''is not one of''"
| "operator_string OpStartsWith = ''starts with''"
| "operator_string OpEndsWith = ''ends with''"
| "operator_string OpBefore = ''is before''"
| "operator_string OpOnOrBefore = ''is on or before''"
| "operator_string OpAfter = ''is after''"
| "operator_string OpOnOrAfter = ''is on or after''"
| "operator_string OpIsTrue = ''is true''"
| "operator_string OpIsFalse = ''is false''"
| "operator_string OpIsEmpty = ''is empty''"
| "operator_string OpIsNotEmpty = ''is not empty''"
| "operator_string OpIsNull = ''is null''"
| "operator_string OpIsNotNull = ''is not null''"
| "operator_string OpExists = ''exists''"
| "operator_string OpNotExist = ''does not exist''"

fun logical_string :: "filter_logical \<Rightarrow> string" where
  "logical_string And = ''and''"
| "logical_string Or = ''or''"

text \<open>A condition whose operator is \<open>None\<close> is a draft: its operator is the empty string.\<close>

record filter_condition =
  c_property :: jsstr
  c_operator :: "filter_operator option"
  c_values :: "jsstr list option"

text \<open>
  A rule is a condition or a nested filter, told apart by the presence of \<open>rules\<close>; a filter is
  the pair of its logical operator and its rules.
\<close>

datatype filter_rule = Condition filter_condition | Group filter_logical "filter_rule list"

type_synonym filter_tree = "filter_logical \<times> filter_rule list"

record pipeline_type =
  pt_name :: jsstr
  pt_description :: jsstr
  pt_target :: pipeline_target
  pt_eventType :: "jsstr option"
  pt_orderingGroup :: "jsstr option"
  pt_deliveryEndpoint :: "jsstr option"

datatype compression = NoCompression | Zip | Gzip | Snappy

record pipeline =
  pl_id :: jsstr
  pl_connection :: jsstr
  pl_target :: pipeline_target
  pl_name :: jsstr
  pl_enabled :: bool
  pl_eventType :: "jsstr option"
  pl_orderingGroup :: "jsstr option"
  pl_deliveryEndpoint :: "jsstr option"
  pl_running :: bool
  pl_scheduleStart :: "js_num option"
  pl_schedulePeriod :: "schedule_period option"
  pl_inSchema :: "property list option"
  pl_outSchema :: "property list option"
  pl_filter :: "filter_tree option"
  pl_requiredConsents :: "required_consents option"
  pl_transformation :: "transformation option"
  pl_query :: "jsstr option"
  pl_path :: "jsstr option"
  pl_tableName :: "jsstr option"
  pl_tableKey :: "jsstr option"
  pl_sheet :: "jsstr option"
  pl_userIDColumn :: "jsstr option"
  pl_updatedAtColumn :: "jsstr option"
  pl_updatedAtFormat :: "jsstr option"
  pl_incremental :: "bool option"
  pl_exportMode :: "export_mode option"
  pl_matching :: "matching option"
  pl_updateOnDuplicates :: "bool option"
  pl_compression :: compression
  pl_orderBy :: "jsstr option"
  pl_format :: jsstr

subsection \<open>Connections and connectors (connection.ts, connector.ts), consent purposes (workspace.ts)\<close>

datatype connector_type = CApplication | CDatabase | CFile | CFileStorage | CMessageBroker | CSDK | CWebhook

datatype connection_role = Source | Destination

datatype health = Healthy | NoRecentData | RecentError

datatype sending_mode = Client | Server | ClientAndServer

record source_connector =
  sc_targets :: "pipeline_target list"
  sc_hasSettings :: bool
  sc_sampleQuery :: jsstr
  sc_summary :: jsstr

record destination_connector =
  dc_targets :: "pipeline_target list"
  dc_hasSettings :: bool
  dc_sendingMode :: "sending_mode option"
  dc_summary :: jsstr

record event_consent_location =
  ecl_purposeCode :: jsstr

record profile_consent_location =
  pcl_property :: jsstr
  pcl_jsonKey :: "jsstr option"

record consent_purpose =
  cp_id :: jsstr
  cp_name :: jsstr
  cp_eventConsentLocations :: "event_consent_location list"
  cp_profileConsentLocation :: "profile_consent_location option"

end
