(* ===== verification/Filter_Text.thy ===== *)
theory Filter_Text
  imports Js_Prelude
begin

section \<open>Filter values as text (utils/filters.ts)\<close>

text \<open>
  \<open>formatString\<close> shows a stored filter value in an input field, \<open>parseText\<close> reads the field back.
  A value is quoted only when it starts or ends with white space or a quote. The loop of
  \<open>parseText\<close> over the characters between the quotes is a recursion on them.
\<close>

datatype text_error = EmptyText | InvalidText

definition is_space_or_quote :: "code_unit \<Rightarrow> bool" where
  "is_space_or_quote c \<longleftrightarrow> is_js_space c \<or> c = ch CHR ''\"'' \<or> c = ch CHR 0x27"

fun escape_quoted :: "code_unit \<Rightarrow> jsstr \<Rightarrow> jsstr" where
  "escape_quoted quote [] = []"
| "escape_quoted quote (c # cs) =
     (if c = ch CHR 0x5C \<or> c = quote then ch CHR 0x5C # c # escape_quoted quote cs
      else c # escape_quoted quote cs)"

definition formatString :: "jsstr \<Rightarrow> jsstr" where
  "formatString str =
     (if str = [] \<or> (\<not> is_space_or_quote (hd str) \<and> \<not> is_space_or_quote (last str)) then str
      else let quote = (if ch CHR ''\"'' \<in> set str then ch CHR 0x27 else ch CHR ''\"'')
           in quote # escape_quoted quote str @ [quote])"

fun unescape_quoted :: "code_unit \<Rightarrow> jsstr \<Rightarrow> text_error + jsstr" where
  "unescape_quoted quote [] = Inr []"
| "unescape_quoted quote (c # cs) =
     (if c = ch CHR 0x5C then
        (case cs of [] \<Rightarrow> Inl InvalidText
         | d # ds \<Rightarrow> res_bind (unescape_quoted quote ds) (\<lambda>text. Inr (d # text)))
      else if c = quote then Inl InvalidText
      else res_bind (unescape_quoted quote cs) (\<lambda>text. Inr (c # text)))"

definition parseText :: "jsstr \<Rightarrow> text_error + jsstr" where
  "parseText s0 =
     (let s = trim s0 in
      if s = [] then Inl EmptyText
      else let quote = hd s in
        if quote \<noteq> ch CHR ''\"'' \<and> quote \<noteq> ch CHR 0x27 then Inr s
        else if length s < 3 then Inl EmptyText
        else if last s \<noteq> quote then Inl InvalidText
        else unescape_quoted quote (butlast (tl s)))"

subsection \<open>Escaping and unescaping\<close>

lemma unescape_escape: "quote \<noteq> ch CHR 0x5C \<Longrightarrow> unescape_quoted quote (escape_quoted quote cs) = Inr cs"
  by (induction cs) auto

lemma escape_quoted_Nil [simp]: "escape_quoted quote cs = [] \<longleftrightarrow> cs = []"
  by (cases cs) auto

lemma unescape_quoted_nonempty: "unescape_quoted quote cs = Inr t \<Longrightarrow> cs \<noteq> [] \<Longrightarrow> t \<noteq> []"
  by (cases cs) (auto simp: res_bind_eq_Inr split: if_splits list.splits)

lemma quotes_not_space: "\<not> is_js_space 34" "\<not> is_js_space 39"
  by (simp_all add: is_js_space_def)

lemma parseText_quoted:
  assumes "quote = 34 \<or> quote = 39" and "cs \<noteq> []"
  shows "parseText (quote # escape_quoted quote cs @ [quote]) = Inr cs"
proof -
  let ?s = "quote # escape_quoted quote cs @ [quote]"
  have trim: "trim ?s = ?s"
    using assms(1) quotes_not_space by (intro trim_id) auto
  have "escape_quoted quote cs \<noteq> []" using assms(2) by simp
  then have "\<not> length ?s < 3" by (cases "escape_quoted quote cs") auto
  with trim assms show ?thesis
    by (auto simp: parseText_def Let_def unescape_escape butlast_append)
qed

lemma parseText_format:
  assumes "s \<noteq> []"
  shows "parseText (formatString s) = Inr s"
proof (cases "is_space_or_quote (hd s) \<or> is_space_or_quote (last s)")
  case True
  define quote :: code_unit where "quote = (if 34 \<in> set s then 39 else 34)"
  have "formatString s = quote # escape_quoted quote s @ [quote]"
    using assms True by (auto simp: formatString_def quote_def Let_def)
  then show ?thesis using assms by (simp add: parseText_quoted quote_def)
next
  case False
  then have "\<not> is_js_space (hd s)" "\<not> is_js_space (last s)" "hd s \<noteq> 34" "hd s \<noteq> 39"
    by (auto simp: is_space_or_quote_def)
  with assms False have "trim s = s" by (simp add: trim_id)
  moreover have "formatString s = s" using False by (simp add: formatString_def)
  ultimately show ?thesis using assms \<open>hd s \<noteq> 34\<close> \<open>hd s \<noteq> 39\<close> by (simp add: parseText_def Let_def)
qed

text \<open>
  a filter value shown by formatString in an input field is read back unchanged by parseText,
  whatever quotes, backslashes and white space it holds, unless it is the empty string.
\<close>

theorem parseText_formatString:
  assumes "s \<noteq> []"
  shows "parseText (formatString s) = Inr s"
  using assms by (rule parseText_format)

theorem parseText_formatString_witness:
  "js '' \"it's\" '' \<noteq> [] \<and> parseText (formatString (js '' \"it's\" '')) = Inr (js '' \"it's\" '')"
proof -
  have h: "js '' \"it's\" '' \<noteq> []" by simp
  show ?thesis using h parseText_formatString [OF h] by simp
qed

end
