(* ===== verification/Filter_Tree.thy ===== *)
theory Filter_Tree
  imports Api_Types
begin

section \<open>Filter trees (lib/core/pipeline.ts)\<close>

text \<open>
  The operations on a whole filter: its conditions in traversal order, a transformation of every
  condition, the removal of draft conditions and of the groups they leave empty. Each \<open>for\<close> loop
  over the rules of a group is the recursion on its list of rules. The limits of a filter, its
  depth and its number of rules, are those the parser and the server enforce.
\<close>

definition FILTER_OPERATORS :: "filter_operator list" where
  "FILTER_OPERATORS =
    [OpIs, OpIsNot, OpLess, OpLessEqual, OpGreater, OpGreaterEqual, OpBetween, OpNotBetween,
     OpContains, OpNotContains, OpOneOf, OpNotOneOf, OpStartsWith, OpEndsWith, OpBefore,
     OpOnOrBefore, OpAfter, OpOnOrAfter, OpIsTrue, OpIsFalse, OpIsEmpty, OpIsNotEmpty,
     OpIsNull, OpIsNotNull, OpExists, OpNotExist]"

definition MAX_FILTER_DEPTH :: nat where "MAX_FILTER_DEPTH = 4"
definition MAX_FILTER_RULE_COUNT :: nat where "MAX_FILTER_RULE_COUNT = 100"
definition MAX_FILTER_VALUE_LENGTH :: nat where "MAX_FILTER_VALUE_LENGTH = 80"

definition UNARY_OPERATORS :: "filter_operator set" where
  "UNARY_OPERATORS = {OpIsTrue, OpIsFalse, OpIsEmpty, OpIsNotEmpty, OpIsNull, OpIsNotNull, OpExists, OpNotExist}"

definition isUnaryOperator :: "filter_operator option \<Rightarrow> bool" where
  "isUnaryOperator op = (case op of None \<Rightarrow> False | Some op' \<Rightarrow> op' \<in> UNARY_OPERATORS)"

definition isBetweenOperator :: "filter_operator \<Rightarrow> bool" where
  "isBetweenOperator op \<longleftrightarrow> op = OpBetween \<or> op = OpNotBetween"

definition isOneOfOperator :: "filter_operator \<Rightarrow> bool" where
  "isOneOfOperator op \<longleftrightarrow> op = OpOneOf \<or> op = OpNotOneOf"

definition isFilterGroup :: "filter_rule \<Rightarrow> bool" where
  "isFilterGroup r = (case r of Condition _ \<Rightarrow> False | Group _ _ \<Rightarrow> True)"

lemma operator_string_inj: "operator_string a = operator_string b \<longleftrightarrow> a = b"
  by (cases a; cases b) simp_all

lemma set_FILTER_OPERATORS: "op \<in> set FILTER_OPERATORS"
  by (cases op) (simp_all add: FILTER_OPERATORS_def)

fun getFilterConditions :: "filter_tree \<Rightarrow> filter_condition list" where
  "getFilterConditions (op, []) = []"
| "getFilterConditions (op, Condition c # rules) = c # getFilterConditions (op, rules)"
| "getFilterConditions (op, Group op' rules' # rules) =
     getFilterConditions (op', rules') @ getFilterConditions (op, rules)"

fun map_rules :: "(filter_condition \<Rightarrow> filter_condition) \<Rightarrow> filter_rule list \<Rightarrow> filter_rule list" where
  "map_rules transform [] = []"
| "map_rules transform (Condition c # rules) = Condition (transform c) # map_rules transform rules"
| "map_rules transform (Group op rules' # rules) =
     Group op (map_rules transform rules') # map_rules transform rules"

definition mapFilterConditions :: "filter_tree \<Rightarrow> (filter_condition \<Rightarrow> filter_condition) \<Rightarrow> filter_tree" where
  "mapFilterConditions f transform = (fst f, map_rules transform (snd f))"

text \<open>The same with a transformation that may throw, as \<open>transformInPipelineToSet\<close> uses it.\<close>

fun map_rules_res :: "(filter_condition \<Rightarrow> 's \<Rightarrow> 'e + filter_condition \<times> 's) \<Rightarrow> filter_rule list \<Rightarrow> 's \<Rightarrow> 'e + filter_rule list \<times> 's" where
  "map_rules_res t [] s = Inr ([], s)"
| "map_rules_res t (Condition c # rules) s =
     res_bind (t c s) (\<lambda>(c', s1). res_bind (map_rules_res t rules s1) (\<lambda>(rules1, s2).
       Inr (Condition c' # rules1, s2)))"
| "map_rules_res t (Group op rules' # rules) s =
     res_bind (map_rules_res t rules' s) (\<lambda>(rules1, s1). res_bind (map_rules_res t rules s1) (\<lambda>(rules2, s2).
       Inr (Group op rules1 # rules2, s2)))"

fun omit_empty_rules :: "filter_rule list \<Rightarrow> filter_rule list" where
  "omit_empty_rules [] = []"
| "omit_empty_rules (Condition c # rules) =
     (if c_property c \<noteq> [] then Condition c # omit_empty_rules rules else omit_empty_rules rules)"
| "omit_empty_rules (Group op rules' # rules) =
     (let group_rules = omit_empty_rules rules' in
      if group_rules = [] then omit_empty_rules rules
      else Group op group_rules # omit_empty_rules rules)"

definition omitEmptyFilterRules :: "filter_tree \<Rightarrow> filter_tree option" where
  "omitEmptyFilterRules f =
     (let rules = omit_empty_rules (snd f) in if rules = [] then None else Some (fst f, rules))"

subsection \<open>Shape of a filter\<close>

fun rules_depth :: "filter_rule list \<Rightarrow> nat" where
  "rules_depth [] = 0"
| "rules_depth (Condition c # rules) = rules_depth rules"
| "rules_depth (Group op rules' # rules) = max (Suc (rules_depth rules')) (rules_depth rules)"

text \<open>The number of rules, groups included, as \<open>validateGroupLimits\<close> counts them.\<close>

fun rule_count :: "filter_rule list \<Rightarrow> nat" where
  "rule_count [] = 0"
| "rule_count (Condition c # rules) = Suc (rule_count rules)"
| "rule_count (Group op rules' # rules) = Suc (rule_count rules' + rule_count rules)"

fun groups_nonempty :: "filter_rule list \<Rightarrow> bool" where
  "groups_nonempty [] = True"
| "groups_nonempty (Condition c # rules) = groups_nonempty rules"
| "groups_nonempty (Group op rules' # rules) = (rules' \<noteq> [] \<and> groups_nonempty rules' \<and> groups_nonempty rules)"

fun all_conditions :: "(filter_condition \<Rightarrow> bool) \<Rightarrow> filter_rule list \<Rightarrow> bool" where
  "all_conditions P [] = True"
| "all_conditions P (Condition c # rules) = (P c \<and> all_conditions P rules)"
| "all_conditions P (Group op rules' # rules) = (all_conditions P rules' \<and> all_conditions P rules)"

lemma all_conditions_iff: "all_conditions P rules \<longleftrightarrow> (\<forall>c \<in> set (getFilterConditions (op, rules)). P c)"
  by (induction P rules arbitrary: op rule: all_conditions.induct) auto

lemma getFilterConditions_op: "getFilterConditions (op, rules) = getFilterConditions (op', rules)"
  by (induction rules rule: groups_nonempty.induct) auto

lemma getFilterConditions_Nil: "groups_nonempty rules \<Longrightarrow> getFilterConditions (op, rules) = [] \<longleftrightarrow> rules = []"
  by (induction rules arbitrary: op rule: groups_nonempty.induct) auto

lemma getFilterConditions_map_rules:
  "getFilterConditions (op, map_rules t rules) = map t (getFilterConditions (op, rules))"
  by (induction t rules arbitrary: op rule: map_rules.induct) auto

lemma omit_empty_rules_conditions:
  "getFilterConditions (op, omit_empty_rules rules) =
     [c \<leftarrow> getFilterConditions (op, rules). c_property c \<noteq> []]"
proof (induction rules arbitrary: op rule: omit_empty_rules.induct)
  case (3 op1 rules' rules)
  have nested: "getFilterConditions (op1, omit_empty_rules rules') = [c \<leftarrow> getFilterConditions (op1, rules'). c_property c \<noteq> []]"
    by (rule "3.IH"(1))
  show ?case
  proof (cases "omit_empty_rules rules' = []")
    case True
    with nested have "[c \<leftarrow> getFilterConditions (op1, rules'). c_property c \<noteq> []] = []" by simp
    with True "3.IH"(2) [OF refl] show ?thesis by (simp add: Let_def)
  next
    case False
    with nested "3.IH"(3) [OF refl] show ?thesis by (simp add: Let_def)
  qed
qed auto

lemma omit_empty_rules_nonempty: "groups_nonempty (omit_empty_rules rules)"
  by (induction rules rule: omit_empty_rules.induct) (auto simp: Let_def)

lemma omit_empty_rules_id:
  "groups_nonempty rules \<Longrightarrow> all_conditions (\<lambda>c. c_property c \<noteq> []) rules \<Longrightarrow> omit_empty_rules rules = rules"
  by (induction rules rule: omit_empty_rules.induct) (auto simp: Let_def)

text \<open>
  omitEmptyFilterRules keeps exactly the complete conditions, in their order, leaves no empty
  group, and gives no filter exactly when every condition is a draft.
\<close>

theorem omitEmptyFilterRules_spec:
  "(case omitEmptyFilterRules f of
      None \<Rightarrow> [c \<leftarrow> getFilterConditions f. c_property c \<noteq> []] = []
    | Some g \<Rightarrow> fst g = fst f \<and> snd g \<noteq> [] \<and> groups_nonempty (snd g)
        \<and> getFilterConditions g = [c \<leftarrow> getFilterConditions f. c_property c \<noteq> []]
        \<and> getFilterConditions g \<noteq> [] \<and> omitEmptyFilterRules g = Some g)"
proof -
  obtain op rules where f: "f = (op, rules)" by (cases f)
  let ?r = "omit_empty_rules rules"
  have c: "getFilterConditions (op, ?r) = [c \<leftarrow> getFilterConditions f. c_property c \<noteq> []]"
    by (simp add: f omit_empty_rules_conditions)
  have n: "groups_nonempty ?r" by (rule omit_empty_rules_nonempty)
  have "all_conditions (\<lambda>c. c_property c \<noteq> []) ?r"
    by (simp add: all_conditions_iff [where op = op] c)
  with n have "omit_empty_rules ?r = ?r" by (rule omit_empty_rules_id)
  with n c getFilterConditions_Nil [OF n, of op] show ?thesis
    by (simp add: omitEmptyFilterRules_def f Let_def)
qed

end
