(* ===== verification/Js_Date.thy ===== *)
theory Js_Date
  imports Js_Prelude
begin

section \<open>The calendar of the language's dates\<close>

text \<open>
  The part of \<open>Date\<close> the filters use, by the definitions of the language: days are numbered from
  1 January 1970, \<open>DayFromYear\<close> is the day of 1 January of a year, the year of a day is the largest
  one that starts on it or before. A \<open>civil\<close> date is a year, a month from 1 and a day of the month
  from 1, ordered by time.
\<close>

datatype civil = Civil (civil_year: int) (civil_month: nat) (civil_day: nat)

instantiation civil :: linorder
begin

definition less_eq_civil :: "civil \<Rightarrow> civil \<Rightarrow> bool" where
  "less_eq_civil a b \<longleftrightarrow> civil_year a < civil_year b \<or> (civil_year a = civil_year b \<and>
     (civil_month a < civil_month b \<or> (civil_month a = civil_month b \<and> civil_day a \<le> civil_day b)))"

definition less_civil :: "civil \<Rightarrow> civil \<Rightarrow> bool" where
  "less_civil a b \<longleftrightarrow> a \<le> b \<and> \<not> b \<le> (a :: civil)"

instance
  by standard (auto simp: less_eq_civil_def less_civil_def civil.expand)

end

definition DayFromYear :: "int \<Rightarrow> int" where
  "DayFromYear y = 365 * (y - 1970) + (y - 1969) div 4 - (y - 1901) div 100 + (y - 1601) div 400"

definition is_leap :: "int \<Rightarrow> bool" where
  "is_leap y \<longleftrightarrow> y mod 4 = 0 \<and> (y mod 100 \<noteq> 0 \<or> y mod 400 = 0)"

definition month_lengths :: "bool \<Rightarrow> nat list" where
  "month_lengths leap = [31, if leap then 29 else 28, 31, 30, 31, 30, 31, 31, 30, 31, 30, 31]"

definition days_in_month :: "int \<Rightarrow> nat \<Rightarrow> nat" where
  "days_in_month y m = month_lengths (is_leap y) ! (m - 1)"

definition valid_civil :: "civil \<Rightarrow> bool" where
  "valid_civil c \<longleftrightarrow> 1 \<le> civil_month c \<and> civil_month c \<le> 12 \<and> 1 \<le> civil_day c
     \<and> civil_day c \<le> days_in_month (civil_year c) (civil_month c)"

definition make_day :: "int \<Rightarrow> nat \<Rightarrow> nat \<Rightarrow> int" where
  "make_day y m d = DayFromYear y + int (sum_list (take (m - 1) (month_lengths (is_leap y)))) + int d - 1"

definition year_from_day :: "int \<Rightarrow> int" where
  "year_from_day d =
     (let y = 1970 + (400 * d) div 146097 in
      if DayFromYear (y + 1) \<le> d then y + 1 else if DayFromYear y \<le> d then y else y - 1)"

text \<open>The piece of a partition into lengths that a position falls in, and the position within it.\<close>

fun locate :: "nat list \<Rightarrow> nat \<Rightarrow> nat \<times> nat" where
  "locate [] n = (0, n)"
| "locate (l # ls) n = (if n < l then (0, n) else map_prod Suc id (locate ls (n - l)))"

definition civil_from_day :: "int \<Rightarrow> civil" where
  "civil_from_day n =
     (let y = year_from_day n;
          (k, d) = locate (month_lengths (is_leap y)) (nat (n - DayFromYear y))
      in Civil y (Suc k) (Suc d))"

subsection \<open>Years\<close>

lemma div_succ:
  assumes "0 < n"
  shows "(x :: int) div n = (x - 1) div n + (if x mod n = 0 then 1 else 0)"
proof (cases "x mod n = 0")
  case True
  then have "n * (x div n) = x" using mult_div_mod_eq [of n x] by simp
  then have "x - 1 = n * (x div n - 1) + (n - 1)" by (simp add: right_diff_distrib)
  then have "(x - 1) div n = x div n - 1" using assms
    int_div_pos_eq [of "x - 1" n "x div n - 1" "n - 1"] by simp
  then show ?thesis using True by simp
next
  case False
  have "x - 1 = n * (x div n) + (x mod n - 1)" "0 \<le> x mod n" "x mod n < n" using assms by simp_all
  with False have "(x - 1) div n = x div n" by (intro int_div_pos_eq [of "x - 1" n "x div n" "x mod n - 1"]) linarith+
  then show ?thesis using False by simp
qed

lemma div_bounds:
  assumes "0 < n"
  shows "n * (x div n) \<le> (x :: int)" "x \<le> n * (x div n) + (n - 1)"
proof -
  have "x = n * (x div n) + x mod n" "0 \<le> x mod n" "x mod n < n" using assms by simp_all
  then show "n * (x div n) \<le> x" "x \<le> n * (x div n) + (n - 1)" by linarith+
qed

lemma year_sums: "a' = a + 365 \<Longrightarrow>
    a' + (b + i) - (c + j) + (d + k) = (a + b - c + d) + 365 + i - j + (k :: int)"
  by simp

lemma leap_sums: "(r \<Longrightarrow> q) \<Longrightarrow> (q \<Longrightarrow> p) \<Longrightarrow>
    a + 365 + (if p then 1 else 0) - (if q then 1 else 0) + (if r then 1 else 0) =
      a + (if p \<and> (\<not> q \<or> r) then 366 else (365 :: int))"
  by (cases p; cases q; cases r) simp_all

lemma DayFromYear_Suc: "DayFromYear (y + 1) = DayFromYear y + (if is_leap y then 366 else 365)"
proof -
  have "y - 1968 = y + 4 * (- 492)" "y - 1900 = y + 100 * (- 19)" "y - 1600 = y + 400 * (- 4)" by simp_all
  then have m: "(y - 1968) mod 4 = y mod 4" "(y - 1900) mod 100 = y mod 100" "(y - 1600) mod 400 = y mod 400"
    by (simp_all only: mod_mult_self2)
  have e: "y + 1 - 1969 = y - 1968" "y + 1 - 1901 = y - 1900" "y + 1 - 1601 = y - 1600"
    "y - 1968 - 1 = y - 1969" "y - 1900 - 1 = y - 1901" "y - 1600 - 1 = y - 1601" by simp_all
  have a: "(y + 1 - 1969) div 4 = (y - 1969) div 4 + (if y mod 4 = 0 then 1 else 0)"
    unfolding e(1) using div_succ [of 4 "y - 1968"] unfolding e(4) m by (simp only: zero_less_numeral True_implies_equals)
  have b: "(y + 1 - 1901) div 100 = (y - 1901) div 100 + (if y mod 100 = 0 then 1 else 0)"
    unfolding e(2) using div_succ [of 100 "y - 1900"] unfolding e(5) m by (simp only: zero_less_numeral True_implies_equals)
  have c: "(y + 1 - 1601) div 400 = (y - 1601) div 400 + (if y mod 400 = 0 then 1 else 0)"
    unfolding e(3) using div_succ [of 400 "y - 1600"] unfolding e(6) m by (simp only: zero_less_numeral True_implies_equals)
  have d: "y mod 400 = 0 \<Longrightarrow> y mod 100 = 0" "y mod 100 = 0 \<Longrightarrow> y mod 4 = 0"
    by (simp_all only: mod_eq_0_iff_dvd) (erule dvd_trans [rotated], simp)+
  have "365 * (y + 1 - 1970) = 365 * (y - 1970) + 365" by simp
  then have eq: "DayFromYear (y + 1) = DayFromYear y + 365 + (if y mod 4 = 0 then 1 else 0)
      - (if y mod 100 = 0 then 1 else 0) + (if y mod 400 = 0 then 1 else 0)"
    unfolding DayFromYear_def a b c by (rule year_sums)
  show ?thesis unfolding eq is_leap_def by (rule leap_sums) (rule d, assumption)+
qed

lemma DayFromYear_mono: "y \<le> z \<Longrightarrow> DayFromYear y \<le> DayFromYear z"
proof (induction z rule: int_ge_induct)
  case (step i)
  have "DayFromYear i \<le> DayFromYear (i + 1)" unfolding DayFromYear_Suc by simp
  with step.IH show ?case by (rule order_trans)
qed (rule order_refl)

lemma DayFromYear_less_iff: "DayFromYear y \<le> d \<Longrightarrow> d < DayFromYear z \<Longrightarrow> y < z"
  using DayFromYear_mono [of z y] by linarith

lemma estimate_sums:
  assumes "4 * p \<le> y - (1969 :: int)" "y - 1969 \<le> 4 * p + (4 - 1)" "100 * q \<le> y - 1901" "y - 1901 \<le> 100 * q + (100 - 1)"
    "400 * r \<le> y - 1601" "y - 1601 \<le> 400 * r + (400 - 1)"
  shows "146097 * (y - 1970) - 506 \<le> 400 * (365 * (y - 1970) + p - q + r)"
    "400 * (365 * (y - 1970) + p - q + r) \<le> 146097 * (y - 1970) + 589"
  using assms by (simp_all add: algebra_simps)

lemma DayFromYear_estimate:
  "146097 * (y - 1970) - 506 \<le> 400 * DayFromYear y" "400 * DayFromYear y \<le> 146097 * (y - 1970) + 589"
  unfolding DayFromYear_def by (rule estimate_sums; rule div_bounds; simp)+

lemma year_sandwich:
  assumes "146097 * q \<le> 400 * (d :: int)" "400 * d \<le> 146097 * q + (146097 - 1)"
    "400 * a \<le> 146097 * (1970 + q - 1 - 1970) + 589" "146097 * (1970 + q + 1 + 1 - 1970) - 506 \<le> 400 * b"
  shows "a \<le> d" "d < b"
  using assms by (simp_all add: algebra_simps)

lemma year_from_day_bounds:
  "DayFromYear (year_from_day d) \<le> d \<and> d < DayFromYear (year_from_day d + 1)"
proof -
  define y where "y = 1970 + (400 * d) div 146097"
  have "146097 * ((400 * d) div 146097) \<le> 400 * d" "400 * d \<le> 146097 * ((400 * d) div 146097) + (146097 - 1)"
    by (rule div_bounds; simp)+
  then have "DayFromYear (y - 1) \<le> d" "d < DayFromYear (y + 1 + 1)"
    unfolding y_def using DayFromYear_estimate by - (rule year_sandwich, assumption+)+
  then show ?thesis by (simp add: year_from_day_def y_def [symmetric] Let_def)
qed

lemma year_from_day_unique: "DayFromYear y \<le> d \<Longrightarrow> d < DayFromYear (y + 1) \<Longrightarrow> year_from_day d = y"
  using year_from_day_bounds [of d] DayFromYear_less_iff [of y d "year_from_day d + 1"]
    DayFromYear_less_iff [of "year_from_day d" d "y + 1"] by linarith

lemma year_from_day_le_iff: "y \<le> year_from_day d \<longleftrightarrow> DayFromYear y \<le> d"
  using year_from_day_bounds [of d] DayFromYear_mono [of y "year_from_day d"]
    DayFromYear_less_iff [of y d "year_from_day d + 1"] by linarith

subsection \<open>Months and days\<close>

lemma locate_sum: "k < length ls \<Longrightarrow> d < ls ! k \<Longrightarrow> locate ls (sum_list (take k ls) + d) = (k, d)"
proof (induction ls arbitrary: k)
  case (Cons l ls)
  then show ?case by (cases k) auto
qed simp

lemma locate_bounds: "n < sum_list ls \<Longrightarrow> locate ls n = (k, d) \<Longrightarrow>
    k < length ls \<and> d < ls ! k \<and> n = sum_list (take k ls) + d"
proof (induction ls arbitrary: n k)
  case (Cons l ls)
  show ?case
  proof (cases "n < l")
    case False
    obtain k' where k': "locate ls (n - l) = (k', d)" "k = Suc k'"
      using Cons.prems(2) False by (cases "locate ls (n - l)") auto
    have "n - l < sum_list ls" using Cons.prems(1) False by simp
    from Cons.IH [OF this k'(1)] show ?thesis using False k'(2) by auto
  qed (use Cons.prems in auto)
qed simp

lemma sum_month_lengths: "sum_list (month_lengths leap) = (if leap then 366 else 365)"
  by (simp add: month_lengths_def)

lemma length_month_lengths [simp]: "length (month_lengths leap) = 12"
  by (simp add: month_lengths_def)

lemma sum_take_le: "k < length ls \<Longrightarrow> sum_list (take k ls) + ls ! k \<le> (sum_list ls :: nat)"
proof (induction ls arbitrary: k)
  case (Cons l ls)
  then show ?case by (cases k) auto
qed simp

lemma civil_from_make_day:
  assumes "valid_civil (Civil y m d)"
  shows "civil_from_day (make_day y m d) = Civil y m d"
proof -
  let ?ls = "month_lengths (is_leap y)"
  let ?n = "sum_list (take (m - 1) ?ls) + (d - 1)"
  from assms have m: "m - 1 < length ?ls" "d - 1 < ?ls ! (m - 1)" "1 \<le> m" "1 \<le> d"
    by (auto simp: valid_civil_def days_in_month_def)
  have "?n < sum_list ?ls" using sum_take_le [OF m(1)] m(2) by linarith
  then have n: "int ?n < (if is_leap y then 366 else 365)" by (simp add: sum_month_lengths split: if_splits)
  have day: "make_day y m d = DayFromYear y + int ?n" using m(4) by (simp add: make_day_def)
  have year: "year_from_day (make_day y m d) = y"
    using n by (intro year_from_day_unique) (auto simp: day DayFromYear_Suc)
  have "nat (make_day y m d - DayFromYear y) = ?n" by (simp add: day)
  with locate_sum [OF m(1,2)] show ?thesis using m(3,4) by (simp add: civil_from_day_def year)
qed

lemma valid_civil_from_day: "valid_civil (civil_from_day n)"
proof -
  let ?y = "year_from_day n"
  let ?ls = "month_lengths (is_leap ?y)"
  obtain k d where kd: "locate ?ls (nat (n - DayFromYear ?y)) = (k, d)" by (cases "locate ?ls (nat (n - DayFromYear ?y))")
  have "nat (n - DayFromYear ?y) < sum_list ?ls"
    using year_from_day_bounds [of n] by (auto simp: sum_month_lengths DayFromYear_Suc split: if_splits)
  from locate_bounds [OF this kd] have "k < 12" "d < ?ls ! k" by simp_all
  moreover have "civil_from_day n = Civil ?y (Suc k) (Suc d)" unfolding civil_from_day_def Let_def kd by simp
  ultimately show ?thesis by (simp add: valid_civil_def days_in_month_def)
qed

lemma civil_year_from_day [simp]: "civil_year (civil_from_day n) = year_from_day n"
  by (simp add: civil_from_day_def Let_def split: prod.split)

text \<open>A date that the calendar has is the one its day number names; the others name another date.\<close>

lemma civil_from_make_day_iff: "civil_from_day (make_day y m d) = Civil y m d \<longleftrightarrow> valid_civil (Civil y m d)"
  using civil_from_make_day valid_civil_from_day by metis

lemma days_in_month_le: "1 \<le> m \<Longrightarrow> m \<le> 12 \<Longrightarrow> days_in_month y m \<le> 31"
proof -
  assume "1 \<le> m" "m \<le> 12"
  then have "month_lengths (is_leap y) ! (m - 1) \<in> set (month_lengths (is_leap y))" by (intro nth_mem) simp
  moreover have "\<forall>n \<in> set (month_lengths (is_leap y)). n \<le> 31" by (simp add: month_lengths_def)
  ultimately show ?thesis unfolding days_in_month_def by blast
qed

lemma civil_in_years:
  assumes "valid_civil c"
  shows "Civil a 1 1 \<le> c \<and> c \<le> Civil b 12 31 \<longleftrightarrow> a \<le> civil_year c \<and> civil_year c \<le> b"
proof -
  have "1 \<le> civil_month c" "civil_month c \<le> 12" "1 \<le> civil_day c" "civil_day c \<le> 31"
    using assms days_in_month_le [of "civil_month c" "civil_year c"] by (simp_all add: valid_civil_def)
  then show ?thesis unfolding less_eq_civil_def civil.sel by linarith
qed

end
