(* ===== verification/Js_Number.thy ===== *)
theory Js_Number
  imports Js_Prelude
begin

section \<open>Decimal literals as numbers\<close>

text \<open>
  The part of \<open>Number(s)\<close> and \<open>parseFloat(s)\<close> the filters use: the magnitude of a decimal literal
  \<open>M * 10^E\<close>, compared exactly with the bounds at which rounding to a double (ties to even)
  overflows. A double is infinite from \<open>2^1024 - 2^970\<close> on; a double is at most the largest
  32-bit float \<open>(2^24 - 1) * 2^104\<close> when the number is at most half a unit in the last place
  (\<open>2^74\<close>) above it.
\<close>

definition is_sign :: "code_unit \<Rightarrow> bool" where
  "is_sign c \<longleftrightarrow> c = ch CHR ''+'' \<or> c = ch CHR ''-''"

definition drop_sign :: "jsstr \<Rightarrow> jsstr" where
  "drop_sign s = (case s of [] \<Rightarrow> [] | c # cs \<Rightarrow> if is_sign c then cs else s)"

definition is_exponent_mark :: "code_unit \<Rightarrow> bool" where
  "is_exponent_mark c \<longleftrightarrow> c = ch CHR ''e'' \<or> c = ch CHR ''E''"

text \<open>The coefficient and the decimal exponent of a literal \<open>[sign] digits [. digits] [e [sign] digits]\<close>.\<close>

definition exponent_value :: "jsstr \<Rightarrow> int" where
  "exponent_value s =
     (case s of [] \<Rightarrow> 0
      | e # r \<Rightarrow> (if starts_with r [ch CHR ''-''] then - int (decimal_value (drop_sign r))
                 else int (decimal_value (drop_sign r))))"

definition literal_parts :: "jsstr \<Rightarrow> nat \<times> int" where
  "literal_parts s =
     (let t = drop_sign s; whole = takeWhile is_digit t; r = dropWhile is_digit t in
      if starts_with r [ch CHR ''.'']
      then let fraction = takeWhile is_digit (tl r) in
        (decimal_value (whole @ fraction), exponent_value (dropWhile is_digit (tl r)) - int (length fraction))
      else (decimal_value whole, exponent_value r))"

text \<open>\<open>M * 10^E \<ge> b\<close> and \<open>M * 10^E \<le> b\<close>, on integers.\<close>

definition scaled_ge :: "nat \<times> int \<Rightarrow> nat \<Rightarrow> bool" where
  "scaled_ge me b = (case me of (m, e) \<Rightarrow>
     if 0 \<le> e then b \<le> m * 10 ^ nat e else b * 10 ^ nat (- e) \<le> m)"

definition scaled_le :: "nat \<times> int \<Rightarrow> nat \<Rightarrow> bool" where
  "scaled_le me b = (case me of (m, e) \<Rightarrow>
     if 0 \<le> e then m * 10 ^ nat e \<le> b else m \<le> b * 10 ^ nat (- e))"

definition double_finite :: "nat \<times> int \<Rightarrow> bool" where
  "double_finite me \<longleftrightarrow> \<not> scaled_ge me (2 ^ 1024 - 2 ^ 970)"

definition double_le_max_float32 :: "nat \<times> int \<Rightarrow> bool" where
  "double_le_max_float32 me \<longleftrightarrow> scaled_le me ((2 ^ 24 - 1) * 2 ^ 104 + 2 ^ 74)"

lemma scaled_ge_iff: "scaled_ge (m, e) b \<longleftrightarrow> (of_nat b :: rat) \<le> of_nat m * 10 powi e"
proof (cases "0 \<le> e")
  case True
  then obtain k where "e = int k" by (metis nat_0_le)
  then have "(of_nat m * 10 powi e :: rat) = of_nat (m * 10 ^ nat e)"
    by simp
  with True show ?thesis by (simp add: scaled_ge_def del: of_nat_mult of_nat_power)
next
  case False
  define k where "k = nat (- e)"
  then have e: "e = - int k" using False by simp
  have "(of_nat m * 10 powi e :: rat) = of_nat m / 10 ^ k"
    by (simp add: e power_int_minus field_simps)
  then have "(of_nat b \<le> (of_nat m * 10 powi e :: rat)) \<longleftrightarrow> of_nat b \<le> (of_nat m / 10 ^ k :: rat)"
    by (simp only:)
  also have "\<dots> \<longleftrightarrow> of_nat b * 10 ^ k \<le> (of_nat m :: rat)"
    by (simp add: field_simps)
  also have "\<dots> \<longleftrightarrow> (of_nat (b * 10 ^ k) :: rat) \<le> of_nat m" by simp
  also have "\<dots> \<longleftrightarrow> b * 10 ^ k \<le> m" by (simp only: of_nat_le_iff)
  finally show ?thesis using False by (simp add: scaled_ge_def k_def)
qed

end
