(* ===== verification/Filter_Lexical.thy ===== *)
theory Filter_Lexical
  imports Js_Number
begin

section \<open>The lexical forms of filter values (utils/filters.ts)\<close>

text \<open>
  The recognisers of \<open>filters.ts\<close> for numbers, property paths and identifiers. A regular
  expression is written as the deterministic scan it denotes: each of its repetitions is a
  \<open>takeWhile\<close> over a character class that the next item of the expression cannot start with. The
  predicates on dates, times and addresses are in \<open>Filter_Dates\<close>.
\<close>

subsection \<open>Numbers of the filter syntax\<close>

text \<open>\<open>(?:[eE][+-]?\\d+)?$\<close>\<close>

definition is_exponent_part :: "jsstr \<Rightarrow> bool" where
  "is_exponent_part r =
     (case r of [] \<Rightarrow> True
      | e # ds \<Rightarrow> is_exponent_mark e \<and> drop_sign ds \<noteq> [] \<and> list_all is_digit (drop_sign ds))"

text \<open>\<open>/^[+-]?(?:\\d+(?:\\.\\d*)?|\\.\\d+)(?:[eE][+-]?\\d+)?$/\<close>\<close>

definition is_number_syntax :: "jsstr \<Rightarrow> bool" where
  "is_number_syntax s =
     (let t = drop_sign s; whole = takeWhile is_digit t; r = dropWhile is_digit t in
      if starts_with r [ch CHR ''.'']
      then (whole \<noteq> [] \<or> takeWhile is_digit (tl r) \<noteq> []) \<and> is_exponent_part (dropWhile is_digit (tl r))
      else whole \<noteq> [] \<and> is_exponent_part r)"

definition isFilterNumber :: "jsstr \<Rightarrow> bool" where
  "isFilterNumber value \<longleftrightarrow> is_number_syntax value \<and> double_finite (literal_parts value)"

subsection \<open>Property paths\<close>

definition is_word_char :: "code_unit \<Rightarrow> bool" where
  "is_word_char c \<longleftrightarrow> is_letter c \<or> is_digit c \<or> c = ch CHR ''_''"

definition is_property_name :: "jsstr \<Rightarrow> bool" where
  "is_property_name w =
     (case w of [] \<Rightarrow> False
      | c # cs \<Rightarrow> (is_letter c \<or> c = ch CHR ''_'') \<and> list_all is_word_char cs)"

text \<open>\<open>/^[A-Za-z_]\\w*(?:\\.[A-Za-z_]\\w*)*$/\<close>: the pieces between the periods are names.\<close>

definition isValidPropertyPath :: "jsstr \<Rightarrow> bool" where
  "isValidPropertyPath s = list_all is_property_name (split_on (ch CHR ''.'') s)"

subsection \<open>Integers\<close>

definition MIN_INT :: int where "MIN_INT = -9223372036854775808"
definition MAX_INT :: int where "MAX_INT = 9223372036854775807"
definition MAX_UNSIGNED :: int where "MAX_UNSIGNED = 18446744073709551615"
definition MIN_YEAR :: nat where "MIN_YEAR = 1"
definition MAX_YEAR :: nat where "MAX_YEAR = 9999"
definition MAX_DECIMAL_PRECISION :: int where "MAX_DECIMAL_PRECISION = 76"
definition MAX_DECIMAL_SCALE :: int where "MAX_DECIMAL_SCALE = 37"

text \<open>\<open>BigInt(s)\<close> of an optionally signed string of digits.\<close>

definition big_int :: "jsstr \<Rightarrow> int" where
  "big_int s =
     (if starts_with s [ch CHR ''-''] then - int (decimal_value (drop_sign s))
      else int (decimal_value (drop_sign s)))"

definition isUnsigned :: "jsstr \<Rightarrow> bool" where
  "isUnsigned s =
     (if s = [] then False
      else if s = js ''0'' then True
      else if hd s = ch CHR ''0'' \<or> \<not> list_all is_digit s then False
      else big_int s \<le> MAX_UNSIGNED)"

definition isInt :: "jsstr \<Rightarrow> bool" where
  "isInt s =
     (let t = drop_sign s in
      if \<not> isUnsigned t then False
      else MIN_INT \<le> big_int s \<and> big_int s \<le> MAX_INT)"

definition isYear :: "jsstr \<Rightarrow> bool" where
  "isYear s =
     (if s = [] \<or> length s > 4 then False
      else if \<not> list_all is_digit s then False
      else MIN_YEAR \<le> decimal_value s \<and> decimal_value s \<le> MAX_YEAR)"

subsection \<open>Decimal numbers\<close>

text \<open>
  \<open>/^[+-]?(0|[1-9]\\d*)?(?:\\.(\\d*))?(?:[eE]([+-]?\\d+))?$/\<close> with its three groups: the whole part is
  empty, a single zero, or does not start with zero.
\<close>

definition decimal_groups :: "jsstr \<Rightarrow> (jsstr \<times> jsstr \<times> jsstr) option" where
  "decimal_groups s =
     (let t = drop_sign s;
          whole = (if starts_with t [ch CHR ''0''] then js ''0'' else takeWhile is_digit t);
          r = drop (length whole) t;
          has_point = starts_with r [ch CHR ''.''];
          fraction = (if has_point then takeWhile is_digit (tl r) else []);
          r2 = (if has_point then dropWhile is_digit (tl r) else r)
      in if is_exponent_part r2 then Some (whole, fraction, tl r2) else None)"

definition isDecimal :: "jsstr \<Rightarrow> bool" where
  "isDecimal s =
     (case decimal_groups s of
        None \<Rightarrow> False
      | Some (whole, fraction, exponent) \<Rightarrow>
          if whole = [] \<and> fraction = [] then False
          else let digits = dropWhile (\<lambda>c. c = ch CHR ''0'') (whole @ fraction) in
            if digits = [] then True
            else let significant = rev (dropWhile (\<lambda>c. c = ch CHR ''0'') (rev digits));
                     scale = int (length fraction) - (int (length digits) - int (length significant)) - big_int exponent;
                     precision = max (int (length significant) - scale) 0 + max scale 0
                 in precision \<le> MAX_DECIMAL_PRECISION \<and> scale \<le> MAX_DECIMAL_SCALE)"

subsection \<open>Floating point numbers\<close>

text \<open>\<open>parseDecimalDigits\<close> returns the index of the first character that is not a digit.\<close>

definition parseDecimalDigits :: "jsstr \<Rightarrow> nat" where
  "parseDecimalDigits s = length (takeWhile is_digit s)"

definition float_exponent :: "code_unit \<Rightarrow> jsstr \<Rightarrow> bool" where
  "float_exponent c s =
     (if \<not> is_exponent_mark c \<or> s = [] then False
      else let s1 = drop_sign s in parseDecimalDigits s1 = length s1)"

definition isFloatingPoint :: "jsstr \<Rightarrow> bool" where
  "isFloatingPoint s0 =
     (if s0 = [] then False
      else let s = drop_sign s0; i = parseDecimalDigits s in
        if i = 0 then False
        else if i = length s then True
        else let c = s ! i; s1 = drop (i + 1) s in
          if c = ch CHR ''.'' then
            (let j = parseDecimalDigits s1 in
             if j = 0 then False
             else if j = length s1 then True
             else float_exponent (s1 ! j) (drop (j + 1) s1))
          else float_exponent c s1)"

text \<open>\<open>n = parseFloat(s)\<close> is compared as the double nearest to the literal.\<close>

definition isFloat :: "jsstr \<Rightarrow> nat \<Rightarrow> bool" where
  "isFloat s bitSize =
     (if \<not> isFloatingPoint s then False
      else if bitSize = 32 then double_le_max_float32 (literal_parts s)
      else double_finite (literal_parts s))"

subsection \<open>UUIDs\<close>

text \<open>\<open>/^[0-9a-f]{8}-[0-9a-f]{4}-[1-9][0-9a-f]{3}-[89ab][0-9a-f]{3}-[0-9a-f]{12}$/i\<close>\<close>

definition isUUID :: "jsstr \<Rightarrow> bool" where
  "isUUID s =
     (case split_on (ch CHR ''-'') s of
        [a, b, c, d, e] \<Rightarrow>
          length a = 8 \<and> length b = 4 \<and> length c = 4 \<and> length d = 4 \<and> length e = 12
          \<and> list_all is_hex_digit (a @ b @ c @ d @ e)
          \<and> ch CHR ''1'' \<le> hd c \<and> hd c \<le> ch CHR ''9''
          \<and> hd d \<in> {ch CHR ''8'', ch CHR ''9'', ch CHR ''a'', ch CHR ''b'', ch CHR ''A'', ch CHR ''B''}
      | _ \<Rightarrow> False)"

end
