(* ===== verification/Filter_Dates.thy ===== *)
theory Filter_Dates
  imports Js_Date Filter_Lexical
begin

section \<open>Dates, times and addresses as filter values (utils/filters.ts)\<close>

text \<open>
  \<open>isDate\<close>, \<open>isDateTime\<close>, \<open>isTime\<close> and \<open>isIP\<close>. The regular expressions match at fixed positions, so a
  match is a test of slices. \<open>new Date\<close> of a date in ISO format is the day of \<open>Js_Date\<close>; it is
  invalid (\<open>None\<close>) when a field is out of its range. Whether an engine calls a day past the end of
  its month invalid or counts it into the next month makes no difference to \<open>isDate\<close>, which
  compares the fields; the model counts it on.
\<close>

definition digits_in :: "nat \<Rightarrow> nat \<Rightarrow> jsstr \<Rightarrow> bool" where
  "digits_in a b s \<longleftrightarrow> b \<le> length s \<and> list_all is_digit (slice a b s)"

definition number_in :: "nat \<Rightarrow> nat \<Rightarrow> jsstr \<Rightarrow> nat" where
  "number_in a b s = decimal_value (slice a b s)"

text \<open>The first ten characters match \<open>\\d{4}-\\d{2}-\\d{2}\<close>.\<close>

definition date_shape :: "jsstr \<Rightarrow> bool" where
  "date_shape s \<longleftrightarrow> digits_in 0 4 s \<and> char_at s 4 = Some (ch CHR ''-'') \<and> digits_in 5 7 s
     \<and> char_at s 7 = Some (ch CHR ''-'') \<and> digits_in 8 10 s"

definition new_Date :: "nat \<Rightarrow> nat \<Rightarrow> nat \<Rightarrow> int option" where
  "new_Date year month day =
     (if 1 \<le> month \<and> month \<le> 12 \<and> 1 \<le> day \<and> day \<le> 31 then Some (make_day (int year) month day) else None)"

definition isDate :: "jsstr \<Rightarrow> bool" where
  "isDate s =
     (if \<not> (length s = 10 \<and> date_shape s) then False
      else let year = number_in 0 4 s; month = number_in 5 7 s; day = number_in 8 10 s in
        case new_Date year month day of
          None \<Rightarrow> False
        | Some date \<Rightarrow>
            if int year \<noteq> civil_year (civil_from_day date) \<or> month \<noteq> civil_month (civil_from_day date)
               \<or> day \<noteq> civil_day (civil_from_day date)
            then False
            else MIN_YEAR \<le> year \<and> year \<le> MAX_YEAR)"

subsection \<open>Dates with a time\<close>

text \<open>\<open>(\\d{2}):\\d{2}:\\d{2}\<close> from position \<open>i\<close>.\<close>

definition time_shape :: "nat \<Rightarrow> jsstr \<Rightarrow> bool" where
  "time_shape i s \<longleftrightarrow> digits_in i (i + 2) s \<and> char_at s (i + 2) = Some (ch CHR '':'') \<and> digits_in (i + 3) (i + 5) s
     \<and> char_at s (i + 5) = Some (ch CHR '':'') \<and> digits_in (i + 6) (i + 8) s"

text \<open>\<open>(?:\\.\\d{1,9})?\<close>: the rest after it, \<open>None\<close> when the expression cannot match.\<close>

definition skip_fraction :: "jsstr \<Rightarrow> jsstr option" where
  "skip_fraction s =
     (if starts_with s [ch CHR ''.'']
      then (let ds = takeWhile is_digit (tl s) in
            if 1 \<le> length ds \<and> length ds \<le> 9 then Some (dropWhile is_digit (tl s)) else None)
      else Some s)"

definition is_offset :: "jsstr \<Rightarrow> bool" where
  "is_offset r \<longleftrightarrow> r = js ''Z'' \<or>
     (length r = 6 \<and> is_sign (r ! 0) \<and> digits_in 1 3 r \<and> char_at r 3 = Some (ch CHR '':'') \<and> digits_in 4 6 r)"

text \<open>The offset \<open>m[2]\<close> is the empty list when it is absent.\<close>

definition match_datetime :: "jsstr \<Rightarrow> jsstr option" where
  "match_datetime s =
     (if date_shape s \<and> char_at s 10 = Some (ch CHR ''T'') \<and> time_shape 11 s
      then (case skip_fraction (drop 19 s) of
              None \<Rightarrow> None
            | Some r \<Rightarrow> if r = [] \<or> is_offset r then Some r else None)
      else None)"

text \<open>The offset in seconds; \<open>None\<close> when its hours or minutes are out of range.\<close>

definition offset_seconds :: "jsstr \<Rightarrow> int option" where
  "offset_seconds r =
     (if r = [] \<or> r = js ''Z'' then Some 0
      else let h = number_in 1 3 r; m = number_in 4 6 r; v = int (h * 3600 + m * 60) in
        if h \<le> 23 \<and> m \<le> 59 then Some (if starts_with r [ch CHR ''-''] then - v else v) else None)"

text \<open>
  \<open>new Date(m[2] == null ? s + 'Z' : s)\<close>, in seconds: the fraction does not change the year. The hour 24
  is a time of \<open>Date\<close> when all that follows is zero, to the millisecond: it is the midnight at the end
  of the day.
\<close>

definition is_time_of_date :: "jsstr \<Rightarrow> bool" where
  "is_time_of_date s \<longleftrightarrow>
     (let h = number_in 11 13 s; m = number_in 14 16 s; sec = number_in 17 19 s in
      m \<le> 59 \<and> sec \<le> 59 \<and>
      (h \<le> 23 \<or> (h = 24 \<and> m = 0 \<and> sec = 0 \<and>
         (char_at s 19 = Some (ch CHR ''.'') \<longrightarrow> list_all (\<lambda>c. c = ch CHR ''0'') (takeWhile is_digit (slice 20 23 s))))))"

definition new_DateTime :: "jsstr \<Rightarrow> jsstr \<Rightarrow> int option" where
  "new_DateTime s offset =
     (let h = number_in 11 13 s; m = number_in 14 16 s; sec = number_in 17 19 s in
      case (new_Date (number_in 0 4 s) (number_in 5 7 s) (number_in 8 10 s), offset_seconds offset) of
        (Some day, Some off) \<Rightarrow>
          if is_time_of_date s then Some (day * 86400 + int (h * 3600 + m * 60 + sec) - off) else None
      | _ \<Rightarrow> None)"

definition utc_day :: "int \<Rightarrow> int" where
  "utc_day seconds = seconds div 86400"

definition isDateTime :: "jsstr \<Rightarrow> bool" where
  "isDateTime s =
     (case match_datetime s of
        None \<Rightarrow> False
      | Some offset \<Rightarrow>
          if number_in 11 13 s > 23 \<or> offset = js ''-00:00'' \<or> \<not> isDate (slice 0 10 s) then False
          else (case new_DateTime s offset of
                  None \<Rightarrow> False
                | Some date \<Rightarrow>
                    let year = civil_year (civil_from_day (utc_day date))
                    in int MIN_YEAR \<le> year \<and> year \<le> int MAX_YEAR))"

text \<open>The expression of \<open>isTime\<close> has no \<open>$\<close>: what follows the seconds is free unless it starts with a period.\<close>

definition isTime :: "jsstr \<Rightarrow> bool" where
  "isTime s =
     (if \<not> time_shape 0 s \<or> (char_at s 8 = Some (ch CHR ''.'') \<and> \<not> digits_in 9 10 s) then False
      else number_in 0 2 s \<le> 23 \<and> number_in 3 5 s \<le> 59 \<and> number_in 6 8 s \<le> 59)"

subsection \<open>Addresses\<close>

text \<open>\<open>25[0-5]|2[0-4]\\d|1\\d{2}|\\d{1,2}\<close>\<close>

definition is_octet :: "jsstr \<Rightarrow> bool" where
  "is_octet w =
     (case w of
        [a, b, c] \<Rightarrow>
          (a = ch CHR ''2'' \<and> b = ch CHR ''5'' \<and> ch CHR ''0'' \<le> c \<and> c \<le> ch CHR ''5'')
          \<or> (a = ch CHR ''2'' \<and> ch CHR ''0'' \<le> b \<and> b \<le> ch CHR ''4'' \<and> is_digit c)
          \<or> (a = ch CHR ''1'' \<and> is_digit b \<and> is_digit c)
      | [a, b] \<Rightarrow> is_digit a \<and> is_digit b
      | [a] \<Rightarrow> is_digit a
      | _ \<Rightarrow> False)"

definition isIPv4 :: "jsstr \<Rightarrow> bool" where
  "isIPv4 s = (let ws = split_on (ch CHR ''.'') s in length ws = 4 \<and> list_all is_octet ws)"

definition is_hextet :: "jsstr \<Rightarrow> bool" where
  "is_hextet w \<longleftrightarrow> 1 \<le> length w \<and> length w \<le> 4 \<and> list_all is_hex_digit w"

text \<open>
  \<open>(?:h:){1,n}(?::h){1,m}\<close> with \<open>h\<close> a hextet, on the pieces between the colons: the empty piece
  stands for the double colon.
\<close>

definition around_gap :: "nat \<Rightarrow> nat \<Rightarrow> jsstr list \<Rightarrow> bool" where
  "around_gap n m ws =
     (let firsts = takeWhile (\<lambda>w. w \<noteq> []) ws; rest = dropWhile (\<lambda>w. w \<noteq> []) ws in
      rest \<noteq> [] \<and> list_all is_hextet firsts \<and> list_all is_hextet (tl rest)
      \<and> 1 \<le> length firsts \<and> length firsts \<le> n \<and> 1 \<le> length (tl rest) \<and> length (tl rest) \<le> m)"

text \<open>The alternatives of the expression, in its order.\<close>

definition isIPv6 :: "jsstr \<Rightarrow> bool" where
  "isIPv6 s =
     (let ws = split_on (ch CHR '':'') s; n = length ws in
      (n = 8 \<and> list_all is_hextet ws)
      \<or> (n = 9 \<and> list_all is_hextet (take 7 ws) \<and> drop 7 ws = [[], []])
      \<or> (3 \<le> n \<and> n \<le> 9 \<and> list_all is_hextet (take (n - 2) ws) \<and> drop (n - 2) ws = [[], []])
      \<or> around_gap 6 1 ws \<or> around_gap 5 2 ws \<or> around_gap 4 3 ws \<or> around_gap 3 4 ws \<or> around_gap 2 5 ws
      \<or> (3 \<le> n \<and> n \<le> 8 \<and> (ws ! 0 = [] \<or> (length (ws ! 0) = 1 \<and> list_all is_hex_digit (ws ! 0)))
         \<and> ws ! 1 = [] \<and> list_all is_hextet (drop 2 ws))
      \<or> (3 \<le> n \<and> n \<le> 8 \<and> ws ! 0 = [] \<and> ws ! 1 = [] \<and> list_all is_hextet (drop 2 ws)))"

definition isIP :: "jsstr \<Rightarrow> bool" where
  "isIP s \<longleftrightarrow> isIPv4 s \<or> isIPv6 s"

subsection \<open>Dates are those of the calendar\<close>

lemma isDate_iff:
  "isDate s \<longleftrightarrow> length s = 10 \<and> date_shape s
     \<and> valid_civil (Civil (int (number_in 0 4 s)) (number_in 5 7 s) (number_in 8 10 s))
     \<and> MIN_YEAR \<le> number_in 0 4 s \<and> number_in 0 4 s \<le> MAX_YEAR"
proof -
  let ?y = "int (number_in 0 4 s)" and ?m = "number_in 5 7 s" and ?d = "number_in 8 10 s"
  have range: "1 \<le> ?m \<and> ?m \<le> 12 \<and> 1 \<le> ?d \<and> ?d \<le> 31" if "valid_civil (Civil ?y ?m ?d)"
    using that days_in_month_le [of ?m ?y] by (auto simp: valid_civil_def)
  have same: "?y = civil_year c \<and> ?m = civil_month c \<and> ?d = civil_day c \<longleftrightarrow> c = Civil ?y ?m ?d" for c
    by (cases c) auto
  show ?thesis
  proof (cases "new_Date (number_in 0 4 s) ?m ?d")
    case None
    then show ?thesis using range by (auto simp: isDate_def new_Date_def split: if_splits)
  next
    case (Some date)
    then have "civil_from_day date = Civil ?y ?m ?d \<longleftrightarrow> valid_civil (Civil ?y ?m ?d)"
      by (auto simp: new_Date_def civil_from_make_day_iff split: if_splits)
    then show ?thesis using same [of "civil_from_day date"] by (auto simp: isDate_def Some Let_def)
  qed
qed

text \<open>
  \<open>isDate\<close> accepts exactly the dates of the (proleptic Gregorian) calendar, written
  \<open>yyyy-mm-dd\<close>, of the years 1 to 9999.
\<close>

theorem isDate_calendar:
  "isDate s \<longleftrightarrow> length s = 10 \<and> date_shape s
     \<and> valid_civil (Civil (int (number_in 0 4 s)) (number_in 5 7 s) (number_in 8 10 s))
     \<and> MIN_YEAR \<le> number_in 0 4 s \<and> number_in 0 4 s \<le> MAX_YEAR"
  by (rule isDate_iff)

subsection \<open>The year of a date with a time\<close>

lemma year_range_seconds:
  "(1 \<le> year_from_day (utc_day t) \<and> year_from_day (utc_day t) \<le> 9999) \<longleftrightarrow> - 62135596800 \<le> t \<and> t < 253402300800"
proof -
  have "1 \<le> year_from_day (utc_day t) \<longleftrightarrow> - 719162 \<le> utc_day t"
    unfolding year_from_day_le_iff by (simp add: DayFromYear_def)
  moreover have "year_from_day (utc_day t) \<le> 9999 \<longleftrightarrow> \<not> 10000 \<le> year_from_day (utc_day t)" by auto
  moreover have "10000 \<le> year_from_day (utc_day t) \<longleftrightarrow> 2932897 \<le> utc_day t"
    unfolding year_from_day_le_iff by (simp add: DayFromYear_def)
  moreover have "a \<le> utc_day t \<longleftrightarrow> a * 86400 \<le> t" for a
    using div_bounds [of 86400 t] unfolding utc_day_def by auto
  ultimately show ?thesis by (simp add: not_le)
qed

lemma isDateTime_iff:
  "isDateTime s \<longleftrightarrow> (\<exists>offset t. match_datetime s = Some offset \<and> number_in 11 13 s \<le> 23 \<and> offset \<noteq> js ''-00:00'' \<and>
     isDate (slice 0 10 s) \<and> new_DateTime s offset = Some t \<and> - 62135596800 \<le> t \<and> t < 253402300800)"
  using year_range_seconds
  by (auto simp: isDateTime_def MIN_YEAR_def MAX_YEAR_def not_less split: option.splits)

lemma slice_prefix: "b \<le> 10 \<Longrightarrow> slice a b (slice 0 10 s) = slice a b s"
  by (cases "a \<le> b") (simp_all add: slice_def take_drop min_def)

lemma decimal_value_bound: "list_all is_digit ds \<Longrightarrow> decimal_value ds < 10 ^ length ds"
proof (induction ds rule: rev_induct)
  case (snoc c ds)
  then have "decimal_value ds + 1 \<le> 10 ^ length ds" and "hex_value c \<le> 9"
    by (auto simp: is_digit_def hex_value_def)
  then show ?case by (simp add: number_of_digits_def)
qed (simp add: number_of_digits_def)

text \<open>The seconds from 1970 to the date and time a text shows, before its offset.\<close>

definition local_seconds :: "jsstr \<Rightarrow> int" where
  "local_seconds s = make_day (int (number_in 0 4 s)) (number_in 5 7 s) (number_in 8 10 s) * 86400
     + int (number_in 11 13 s * 3600 + number_in 14 16 s * 60 + number_in 17 19 s)"

lemma isDate_prefix:
  assumes "match_datetime s = Some offset"
  shows "isDate (slice 0 10 s) \<longleftrightarrow>
    valid_civil (Civil (int (number_in 0 4 s)) (number_in 5 7 s) (number_in 8 10 s)) \<and> 1 \<le> number_in 0 4 s"
proof -
  have num: "number_in a b (slice 0 10 s) = number_in a b s" if "b \<le> 10" for a b
    using slice_prefix [OF that, of a s] by (simp add: number_in_def)
  have shape: "date_shape s" and "char_at s 10 \<noteq> None" using assms by (auto simp: match_datetime_def split: if_splits)
  then have len: "10 < length s" by (auto simp: char_at_def split: if_splits)
  then have "digits_in a b (slice 0 10 s) = digits_in a b s" if "b \<le> 10" for a b
    using that slice_prefix [OF that, of a s] by (simp add: digits_in_def) (simp add: slice_def)
  moreover have "char_at (slice 0 10 s) i = char_at s i" if "i < 10" for i
    using that len by (simp add: char_at_def slice_def)
  ultimately have "date_shape (slice 0 10 s)" using shape by (simp add: date_shape_def)
  moreover have "number_in 0 4 s < 10 ^ 4"
    using shape decimal_value_bound [of "slice 0 4 s"] len
    by (simp add: date_shape_def digits_in_def number_in_def slice_def min_def)
  moreover have "length (slice 0 10 s) = 10" using len by (simp add: slice_def)
  ultimately show ?thesis by (auto simp: isDate_iff num MIN_YEAR_def MAX_YEAR_def)
qed

text \<open>
  C37: a date with a time is accepted exactly when it matches the expression, it shows a day of the
  calendar from the year 1 on and a time of the day (the hour 24, which Date accepts, is not one), its
  offset is at most 23:59 to either side and is not \<open>-00:00\<close>, and the instant, the time shown minus
  the offset, lies in the years 1 to 9999 in UTC.
\<close>

theorem isDateTime_instant:
  "isDateTime s \<longleftrightarrow> (\<exists>offset off. match_datetime s = Some offset
     \<and> valid_civil (Civil (int (number_in 0 4 s)) (number_in 5 7 s) (number_in 8 10 s)) \<and> 1 \<le> number_in 0 4 s
     \<and> number_in 11 13 s \<le> 23 \<and> number_in 14 16 s \<le> 59 \<and> number_in 17 19 s \<le> 59
     \<and> offset \<noteq> js ''-00:00'' \<and> offset_seconds offset = Some off
     \<and> - 62135596800 \<le> local_seconds s - off \<and> local_seconds s - off < 253402300800)"
proof -
  have new: "new_DateTime s offset = Some t \<longleftrightarrow>
      number_in 14 16 s \<le> 59 \<and> number_in 17 19 s \<le> 59 \<and> (\<exists>off. offset_seconds offset = Some off \<and> t = local_seconds s - off)"
    if "number_in 11 13 s \<le> 23" "valid_civil (Civil (int (number_in 0 4 s)) (number_in 5 7 s) (number_in 8 10 s))" for offset t
  proof -
    have "new_Date (number_in 0 4 s) (number_in 5 7 s) (number_in 8 10 s) =
        Some (make_day (int (number_in 0 4 s)) (number_in 5 7 s) (number_in 8 10 s))"
      using that(2) days_in_month_le [of "number_in 5 7 s" "int (number_in 0 4 s)"] by (auto simp: new_Date_def valid_civil_def)
    moreover have "is_time_of_date s \<longleftrightarrow> number_in 14 16 s \<le> 59 \<and> number_in 17 19 s \<le> 59"
      using that(1) by (simp add: is_time_of_date_def Let_def)
    ultimately show ?thesis by (cases "offset_seconds offset") (auto simp: new_DateTime_def local_seconds_def Let_def)
  qed
  let ?v = "valid_civil (Civil (int (number_in 0 4 s)) (number_in 5 7 s) (number_in 8 10 s)) \<and> 1 \<le> number_in 0 4 s"
  show ?thesis
  proof (cases "\<exists>offset. match_datetime s = Some offset \<and> ?v \<and> number_in 11 13 s \<le> 23")
    case True
    then obtain offset where o: "match_datetime s = Some offset" "?v" "number_in 11 13 s \<le> 23" by blast
    note n = new [OF o(3) conjunct1 [OF o(2)], of offset]
    have "isDateTime s \<longleftrightarrow> (\<exists>t. offset \<noteq> js ''-00:00'' \<and> new_DateTime s offset = Some t \<and> - 62135596800 \<le> t \<and> t < 253402300800)"
      unfolding isDateTime_iff using isDate_prefix [OF o(1)] o by simp
    also have "\<dots> \<longleftrightarrow> (\<exists>off. number_in 14 16 s \<le> 59 \<and> number_in 17 19 s \<le> 59 \<and> offset \<noteq> js ''-00:00'' \<and>
        offset_seconds offset = Some off \<and> - 62135596800 \<le> local_seconds s - off \<and> local_seconds s - off < 253402300800)"
      unfolding n by blast
    finally show ?thesis using o by simp
  next
    case False
    then show ?thesis unfolding isDateTime_iff using isDate_prefix by blast
  qed
qed

text \<open>The test of the hour is needed: \<open>Date\<close> reads the hour 24.\<close>

lemma hour_24_is_a_date:
  "new_DateTime (js ''2024-01-31T24:00:00Z'') (js ''Z'') = Some 1706745600"
  "new_DateTime (js ''2024-02-01T00:00:00Z'') (js ''Z'') = Some 1706745600"
  by (simp_all add: new_DateTime_def is_time_of_date_def offset_seconds_def new_Date_def make_day_def DayFromYear_def
      is_leap_def month_lengths_def number_in_def slice_def js_Cons number_of_digits_def hex_value_def is_digit_def
      char_at_def Let_def)

lemma hour_24_is_no_datetime: "\<not> isDateTime (js ''2024-01-31T24:00:00Z'')"
proof -
  have "\<not> number_in 11 13 (js ''2024-01-31T24:00:00Z'') \<le> 23" by code_simp
  then show ?thesis unfolding isDateTime_iff by blast
qed

lemma make_day_in_years:
  assumes "valid_civil (Civil y m d)" "1 \<le> y" "y \<le> 9999"
  shows "- 719162 \<le> make_day y m d \<and> make_day y m d < 2932897"
proof -
  have "year_from_day (make_day y m d) = y"
    using civil_from_make_day [OF assms(1)] civil_year_from_day [of "make_day y m d"] by simp
  then have "1 \<le> year_from_day (make_day y m d)" "\<not> 10000 \<le> year_from_day (make_day y m d)"
    using assms(2,3) by simp_all
  then show ?thesis unfolding year_from_day_le_iff by (simp add: DayFromYear_def)
qed

text \<open>
  A date with a time and no offset, read as UTC, is never rejected for its year: it is accepted
  exactly when its date is accepted and its time is a time of the day.
\<close>

theorem isDateTime_without_offset:
  assumes "match_datetime s = Some []"
  shows "isDateTime s \<longleftrightarrow> isDate (slice 0 10 s) \<and> number_in 11 13 s \<le> 23 \<and> number_in 14 16 s \<le> 59 \<and> number_in 17 19 s \<le> 59"
proof (cases "isDate (slice 0 10 s) \<and> number_in 11 13 s \<le> 23 \<and> number_in 14 16 s \<le> 59 \<and> number_in 17 19 s \<le> 59")
  case False
  then show ?thesis
    using assms by (auto simp: isDateTime_iff new_DateTime_def is_time_of_date_def Let_def split: option.splits if_splits)
next
  case True
  let ?y = "int (number_in 0 4 s)" and ?m = "number_in 5 7 s" and ?d = "number_in 8 10 s"
  let ?time = "int (number_in 11 13 s * 3600 + number_in 14 16 s * 60 + number_in 17 19 s)"
  have num: "number_in a b (slice 0 10 s) = number_in a b s" if "b \<le> 10" for a b
    using slice_prefix [OF that, of a s] by (simp add: number_in_def)
  have date: "valid_civil (Civil ?y ?m ?d)" "1 \<le> ?y" "?y \<le> 9999"
    using True by (simp_all add: isDate_iff num MIN_YEAR_def MAX_YEAR_def)
  then have "new_Date (number_in 0 4 s) ?m ?d = Some (make_day ?y ?m ?d)"
    using days_in_month_le [of ?m ?y] by (auto simp: new_Date_def valid_civil_def)
  then have t: "new_DateTime s [] = Some (make_day ?y ?m ?d * 86400 + ?time)"
    using True by (simp add: new_DateTime_def is_time_of_date_def offset_seconds_def Let_def)
  have "0 \<le> ?time" "?time < 86400" using True by simp_all
  moreover note make_day_in_years [OF date]
  ultimately have "- 62135596800 \<le> make_day ?y ?m ?d * 86400 + ?time" "make_day ?y ?m ?d * 86400 + ?time < 253402300800"
    by linarith+
  then have "isDateTime s" unfolding isDateTime_iff using assms t True by fastforce
  with True show ?thesis by blast
qed

theorem isDateTime_without_offset_witness:
  "isDateTime (js ''9999-12-31T23:30:00'')"
proof -
  have m: "match_datetime (js ''9999-12-31T23:30:00'') = Some []" by code_simp
  have "isDate (slice 0 10 (js ''9999-12-31T23:30:00''))" "number_in 11 13 (js ''9999-12-31T23:30:00'') \<le> 23"
    "number_in 14 16 (js ''9999-12-31T23:30:00'') \<le> 59" "number_in 17 19 (js ''9999-12-31T23:30:00'') \<le> 59"
    by code_simp+
  then show ?thesis using isDateTime_without_offset [OF m] by blast
qed

subsection \<open>Times\<close>

lemma char_at_append: "i < length s \<Longrightarrow> char_at (s @ r) i = char_at s i"
  by (simp add: char_at_def nth_append)

lemma slice_append: "b \<le> length s \<Longrightarrow> slice a b (s @ r) = slice a b s"
  by (simp add: slice_def)

lemma digits_in_append: "b \<le> length s \<Longrightarrow> digits_in a b (s @ r) = digits_in a b s"
  by (simp add: digits_in_def slice_append)

text \<open>
  \<open>isTime\<close> does not read what follows the seconds, unless it starts with a period: any text
  after a time is accepted.
\<close>

theorem isTime_ignores_the_rest:
  assumes "length s = 8" and "\<not> starts_with r [ch CHR ''.'']"
  shows "isTime (s @ r) = isTime s"
proof -
  have "char_at (s @ r) 8 \<noteq> Some (ch CHR ''.'')"
    using assms by (cases r) (auto simp: char_at_def nth_append)
  moreover have "char_at s 8 = None" using assms(1) by (simp add: char_at_def)
  ultimately show ?thesis
    using assms(1) by (simp add: isTime_def time_shape_def digits_in_append char_at_append number_in_def slice_append)
qed

theorem isTime_ignores_the_rest_witness:
  "isTime (js ''10:20:30'' @ js '' tomorrow'')"
proof -
  have "length (js ''10:20:30'') = 8" "\<not> starts_with (js '' tomorrow'') [ch CHR ''.'']"
    by (simp_all add: js_Cons)
  moreover have "isTime (js ''10:20:30'')" by code_simp
  ultimately show ?thesis using isTime_ignores_the_rest [of "js ''10:20:30''" "js '' tomorrow''"] by blast
qed

subsection \<open>Addresses\<close>

lemma is_octet_iff:
  "is_octet w \<longleftrightarrow> list_all is_digit w \<and> 1 \<le> length w \<and> length w \<le> 3 \<and> decimal_value w \<le> 255
     \<and> (length w = 3 \<longrightarrow> hd w \<noteq> ch CHR ''0'')"
proof -
  consider "w = []" | a where "w = [a]" | a b where "w = [a, b]" | a b c where "w = [a, b, c]"
    | a b c d r where "w = a # b # c # d # r"
    by (metis list.exhaust)
  then show ?thesis
  proof cases
    case (3 a b)
    then show ?thesis by (auto simp: is_octet_def number_of_digits_def hex_value_def is_digit_iff)
  next
    case (4 a b c)
    have "is_digit a \<and> is_digit b \<and> is_digit c \<Longrightarrow> decimal_value w = 100 * (a - 48) + 10 * (b - 48) + (c - 48)"
      using 4 by (simp add: number_of_digits_def hex_value_def)
    with 4 show ?thesis by (simp add: is_octet_def is_digit_iff) linarith
  qed (auto simp: is_octet_def number_of_digits_def hex_value_def is_digit_iff)
qed

text \<open>
  An IPv4 address is four numbers of at most 255 between periods, each of one to three digits,
  those of three digits without a leading zero.
\<close>

theorem isIPv4_octets:
  "isIPv4 s \<longleftrightarrow> length (split_on (ch CHR ''.'') s) = 4 \<and>
     (\<forall>w \<in> set (split_on (ch CHR ''.'') s). list_all is_digit w \<and> 1 \<le> length w \<and> length w \<le> 3
        \<and> decimal_value w \<le> 255 \<and> (length w = 3 \<longrightarrow> hd w \<noteq> ch CHR ''0''))"
  by (simp add: isIPv4_def list_all_iff is_octet_iff Let_def)

theorem isIPv4_octets_witness:
  "decimal_value (js ''192'') \<le> 255 \<and> decimal_value (js ''168'') \<le> 255"
proof -
  have "isIPv4 (js ''192.168.1.10'')" by code_simp
  moreover have "split_on (ch CHR ''.'') (js ''192.168.1.10'') = [js ''192'', js ''168'', js ''1'', js ''10'']"
    by (simp add: js_Cons)
  ultimately show ?thesis using isIPv4_octets [of "js ''192.168.1.10''"] by simp
qed

text \<open>The text of an address with hextets before and after a double colon.\<close>

definition gap_address :: "jsstr list \<Rightarrow> jsstr list \<Rightarrow> jsstr" where
  "gap_address xs ys = join_with [58] xs @ [58, 58] @ join_with [58] ys"

lemma join_gap: "xs \<noteq> [] \<Longrightarrow> ys \<noteq> [] \<Longrightarrow> join_with [c] (xs @ [] # ys) = join_with [c] xs @ [c, c] @ join_with [c] ys"
  by (induction xs rule: induct_list012) (auto simp: join_with_Cons)

lemma join_gap_end: "xs \<noteq> [] \<Longrightarrow> join_with [c] (xs @ [[], []]) = join_with [c] xs @ [c, c]"
  by (induction xs rule: induct_list012) (auto simp: join_with_Cons)

text \<open>The addresses of RFC 4291 without an embedded IPv4 address: eight hextets, or at most seven around a double colon.\<close>

definition rfc_address :: "jsstr \<Rightarrow> bool" where
  "rfc_address s \<longleftrightarrow>
     (\<exists>xs. list_all is_hextet xs \<and> length xs = 8 \<and> s = join_with [58] xs) \<or>
     (\<exists>xs ys. list_all is_hextet xs \<and> list_all is_hextet ys \<and> length xs + length ys \<le> 7 \<and> s = gap_address xs ys)"

lemma rfc_gap: "list_all is_hextet xs \<Longrightarrow> list_all is_hextet ys \<Longrightarrow> length xs + length ys \<le> 7 \<Longrightarrow>
    s = gap_address xs ys \<Longrightarrow> rfc_address s"
  unfolding rfc_address_def by blast

lemma around_gap_rfc:
  assumes "around_gap n m (split_on 58 s)" "n + m \<le> 7"
  shows "rfc_address s"
proof -
  let ?ws = "split_on 58 s"
  define xs where "xs = takeWhile (\<lambda>w. w \<noteq> []) ?ws"
  define rest where "rest = dropWhile (\<lambda>w. w \<noteq> []) ?ws"
  have r: "rest \<noteq> []" "list_all is_hextet xs" "list_all is_hextet (tl rest)" "1 \<le> length xs" "1 \<le> length (tl rest)"
    "length xs + length (tl rest) \<le> 7"
    using assms by (auto simp: around_gap_def Let_def xs_def rest_def)
  have "hd rest = []" using r(1) hd_dropWhile [of "\<lambda>w. w \<noteq> []" ?ws] by (simp add: rest_def)
  then have "?ws = xs @ [] # tl rest"
    using r(1) takeWhile_dropWhile_id [of "\<lambda>w. w \<noteq> []" ?ws] unfolding xs_def [symmetric] rest_def [symmetric]
    by (metis list.collapse)
  then have "s = join_with [58] (xs @ [] # tl rest)" using join_split [of 58 s] by simp
  also have "\<dots> = gap_address xs (tl rest)"
    unfolding gap_address_def by (rule join_gap) (use r(4,5) in \<open>auto simp del: length_tl\<close>)
  finally show ?thesis using r by (intro rfc_gap)
qed

lemma gap_at_end_rfc:
  assumes "list_all is_hextet (take k ws)" "drop k ws = [[], []]" "1 \<le> k" "k \<le> 7" "ws = split_on 58 s"
  shows "rfc_address s"
proof -
  have len: "length ws = k + 2"
  proof -
    have "length ws - k = 2" using assms(2) length_drop [of k ws] by simp
    then show ?thesis by simp
  qed
  have "ws = take k ws @ [[], []]" using assms(2) append_take_drop_id [of k ws] by simp
  then have "s = join_with [58] (take k ws @ [[], []])" using join_split [of 58 s] assms(5) by simp
  also have "\<dots> = gap_address (take k ws) []"
    unfolding gap_address_def using len assms(3) by (subst join_gap_end) auto
  finally show ?thesis using assms(1,4) len by (intro rfc_gap [of "take k ws" "[]"]) auto
qed

lemma gap_at_start_rfc:
  assumes "w = [] \<or> is_hextet w" "list_all is_hextet ys" "1 \<le> length ys" "length ys \<le> 6" "split_on 58 s = w # [] # ys"
  shows "rfc_address s"
proof -
  have s: "s = join_with [58] (w # [] # ys)" using join_split [of 58 s] assms(5) by simp
  have ys: "ys \<noteq> []" using assms(3) by auto
  show ?thesis
  proof (cases "w = []")
    case True
    have "s = gap_address [] ys" using s True ys by (simp add: gap_address_def join_with_Cons)
    then show ?thesis using assms(2,4) by (intro rfc_gap [of "[]" ys]) auto
  next
    case False
    have "s = gap_address [w] ys" using s ys by (simp add: gap_address_def join_with_Cons)
    then show ?thesis using assms(1,2,4) False by (intro rfc_gap [of "[w]" ys]) auto
  qed
qed

lemma isIPv6_rfc:
  assumes "isIPv6 s"
  shows "rfc_address s"
proof -
  let ?ws = "split_on 58 s"
  let ?n = "length ?ws"
  have split3: "?ws = ?ws ! 0 # [] # drop 2 ?ws" if "3 \<le> ?n" "?ws ! 1 = []"
    using that by (cases ?ws; cases "tl ?ws") auto
  have w0: "length (?ws ! 0) = 1 \<and> list_all is_hex_digit (?ws ! 0) \<Longrightarrow> is_hextet (?ws ! 0)" by (simp add: is_hextet_def)
  have colon: "ch CHR '':'' = 58" by simp
  from assms consider
      (full) "?n = 8" "list_all is_hextet ?ws"
    | (end7) "list_all is_hextet (take 7 ?ws)" "drop 7 ?ws = [[], []]"
    | (at_end) "3 \<le> ?n" "?n \<le> 9" "list_all is_hextet (take (?n - 2) ?ws)" "drop (?n - 2) ?ws = [[], []]"
    | (gap) "around_gap 6 1 ?ws \<or> around_gap 5 2 ?ws \<or> around_gap 4 3 ?ws \<or> around_gap 3 4 ?ws \<or> around_gap 2 5 ?ws"
    | (start) "3 \<le> ?n" "?n \<le> 8" "?ws ! 0 = [] \<or> is_hextet (?ws ! 0)" "?ws ! 1 = []" "list_all is_hextet (drop 2 ?ws)"
    unfolding isIPv6_def Let_def colon using w0 by blast
  then show ?thesis
  proof cases
    case full
    then show ?thesis using join_split [of 58 s] unfolding rfc_address_def by metis
  next
    case end7
    then show ?thesis by (rule gap_at_end_rfc) auto
  next
    case at_end
    then show ?thesis by (intro gap_at_end_rfc [of "?n - 2" ?ws s]) auto
  next
    case gap
    then show ?thesis by (elim disjE) (rule around_gap_rfc, assumption, simp)+
  next
    case start
    then show ?thesis by (intro gap_at_start_rfc [of "?ws ! 0" "drop 2 ?ws" s]) (use split3 in auto)
  qed
qed

text \<open>
  C38: every address \<open>isIP\<close> accepts that is not an IPv4 address is an address of RFC 4291; the converse fails:
  \<open>::\<close> and \<open>fe80::1:2:3:4:5:6\<close> are addresses it rejects, although it accepts \<open>f::1:2:3:4:5:6\<close>.
\<close>

theorem isIP_sound_not_complete:
  "(\<forall>s. isIP s \<longrightarrow> isIPv4 s \<or> rfc_address s)
   \<and> rfc_address (js ''::'') \<and> \<not> isIP (js ''::'')
   \<and> rfc_address (js ''fe80::1:2:3:4:5:6'') \<and> \<not> isIP (js ''fe80::1:2:3:4:5:6'') \<and> isIP (js ''f::1:2:3:4:5:6'')"
proof -
  have "rfc_address (js ''::'')" by (rule rfc_gap [of "[]" "[]"]) (simp_all add: gap_address_def js_Cons)
  moreover have "rfc_address (js ''fe80::1:2:3:4:5:6'')"
    by (rule rfc_gap [of "[js ''fe80'']" "map js [''1'', ''2'', ''3'', ''4'', ''5'', ''6'']"])
      (simp_all add: gap_address_def js_Cons is_hextet_def is_hex_digit_def is_digit_def)
  moreover have "\<not> isIP (js ''::'')" "\<not> isIP (js ''fe80::1:2:3:4:5:6'')" "isIP (js ''f::1:2:3:4:5:6'')"
    by code_simp+
  ultimately show ?thesis using isIPv6_rfc by (auto simp: isIP_def)
qed

theorem isIP_sound_not_complete_witness:
  "rfc_address (js ''f::1:2:3:4:5:6'')"
proof -
  have "\<not> isIPv4 (js ''f::1:2:3:4:5:6'')" by code_simp
  with isIP_sound_not_complete show ?thesis by blast
qed

end
