(* ===== verification/Filter_Syntax.thy ===== *)
theory Filter_Syntax
  imports Filter_Tree Filter_Lexical
begin

section \<open>The filter language: printing and parsing (utils/filters.ts, utils/filters_parser.ts)\<close>

text \<open>
  \<open>serializeFilter\<close> writes a filter as text, on one line or one rule per line, and \<open>parseFilter\<close>
  reads it. The parser of the source keeps the text \<open>s\<close> and an index \<open>i\<close>; here the pair is the
  unread suffix \<open>s.slice(i)\<close>, so \<open>s[i]\<close> is the head of the suffix, \<open>i >= s.length\<close> is its
  emptiness, and a parser returns what it read and the rest. The rule counter that the closures
  of \<open>parseFilter\<close> share is passed along. Every \<open>throw\<close> is an error constructor.
\<close>

subsection \<open>Printing\<close>

definition replace_unit :: "code_unit \<Rightarrow> jsstr \<Rightarrow> jsstr \<Rightarrow> jsstr" where
  "replace_unit c r s = concat (map (\<lambda>x. if x = c then r else [x]) s)"

definition escapeString :: "jsstr \<Rightarrow> jsstr" where
  "escapeString value =
     [ch CHR ''\"''] @
     replace_unit 9 [ch CHR 0x5C, ch CHR ''t'']
       (replace_unit 13 [ch CHR 0x5C, ch CHR ''r'']
         (replace_unit 10 [ch CHR 0x5C, ch CHR ''n'']
           (replace_unit (ch CHR ''\"'') [ch CHR 0x5C, ch CHR ''\"'']
             (replace_unit (ch CHR 0x5C) [ch CHR 0x5C, ch CHR 0x5C] value)))) @
     [ch CHR ''\"'']"

definition is_boolean_text :: "jsstr \<Rightarrow> bool" where
  "is_boolean_text v \<longleftrightarrow> v = js ''true'' \<or> v = js ''false''"

definition uses_value_list :: "filter_operator option \<Rightarrow> bool" where
  "uses_value_list op \<longleftrightarrow> op \<in> {Some OpOneOf, Some OpNotOneOf, Some OpBetween, Some OpNotBetween}"

definition formatValues :: "jsstr list \<Rightarrow> filter_operator option \<Rightarrow> jsstr" where
  "formatValues vs operator =
     (if vs = [] then []
      else if length vs = 1 \<and> \<not> uses_value_list operator then
        (let v = hd vs in
         if (operator \<noteq> Some OpIs \<and> is_boolean_text v) \<or> isFilterNumber v then v else escapeString v)
      else
        [ch CHR ''(''] @
        join_with (js '', '') (map (\<lambda>v. if is_boolean_text v \<or> isFilterNumber v then v else escapeString v) vs) @
        [ch CHR '')''])"

definition operator_text :: "filter_operator option \<Rightarrow> jsstr" where
  "operator_text op = (case op of None \<Rightarrow> [] | Some op' \<Rightarrow> js (operator_string op'))"

definition formatCondition :: "filter_condition \<Rightarrow> jsstr" where
  "formatCondition c =
     (let formattedValues = formatValues (case c_values c of None \<Rightarrow> [] | Some vs \<Rightarrow> vs) (c_operator c) in
      c_property c @ js '' '' @ operator_text (c_operator c)
        @ (if formattedValues = [] then [] else js '' '' @ formattedValues))"

definition indentation :: "nat \<Rightarrow> jsstr" where
  "indentation depth = concat (replicate depth (js ''  ''))"

definition logical_text :: "filter_logical \<Rightarrow> jsstr" where
  "logical_text op = js (logical_string op)"

text \<open>
  \<open>formatRule\<close> and \<open>formatGroup\<close>; the latter maps the rules with their index, of which only
  whether it is 0 matters, and joins them.
\<close>

fun formatRule :: "bool \<Rightarrow> filter_rule \<Rightarrow> nat \<Rightarrow> jsstr"
  and formatRules :: "bool \<Rightarrow> filter_logical \<Rightarrow> filter_rule list \<Rightarrow> nat \<Rightarrow> bool \<Rightarrow> jsstr list" where
  "formatRule formatted (Condition c) depth = formatCondition c"
| "formatRule formatted (Group op rules) depth =
     (if \<not> formatted
      then js ''('' @ join_with (js '' '' @ logical_text op @ js '' '') (formatRules formatted op rules (depth + 1) True) @ js '')''
      else js ''('' @ [10] @ join_with [10] (formatRules formatted op rules (depth + 1) True)
             @ [10] @ indentation depth @ js '')'')"
| "formatRules formatted op [] depth first = []"
| "formatRules formatted op (rule # rules) depth first =
     (if \<not> formatted then formatRule formatted rule depth
      else indentation depth @ (if first then [] else logical_text op @ js '' '') @ formatRule formatted rule depth)
     # formatRules formatted op rules depth False"

definition formatGroup :: "bool \<Rightarrow> filter_tree \<Rightarrow> nat \<Rightarrow> jsstr" where
  "formatGroup formatted g depth =
     join_with (if formatted then [10] else js '' '' @ logical_text (fst g) @ js '' '')
       (formatRules formatted (fst g) (snd g) depth True)"

definition serializeFilter :: "filter_tree \<Rightarrow> bool \<Rightarrow> jsstr" where
  "serializeFilter f formatted = formatGroup formatted f 0"

subsection \<open>Lexical parsers\<close>

datatype filter_error =
    InvalidNumber jsstr
  | InvalidStringDelimiter
  | UnterminatedString
  | InvalidUnicodeEscape
  | InvalidCodePoint jsstr
  | InvalidEscape
  | InvalidValue
  | ParenthesesNotAllowed
  | ExpectedCommaOrParenthesis
  | ParenthesesRequired
  | InvalidPropertyPath
  | BracketNotation
  | UnknownOperator
  | WrongValueCount filter_operator
  | DepthExceeded
  | RuleCountExceeded
  | EmptyGroup
  | UnclosedGroup
  | UnexpectedClosing
  | ExpectedConnector
  | MixedConnectors
  | TrailingConnector
  | UnexpectedContent

definition isWhitespace :: "code_unit \<Rightarrow> bool" where
  "isWhitespace c \<longleftrightarrow> c = ch CHR '' '' \<or> c = 9 \<or> c = 10 \<or> c = 13"

definition isPropStart :: "code_unit \<Rightarrow> bool" where
  "isPropStart c \<longleftrightarrow> (65 \<le> c \<and> c \<le> 90) \<or> (97 \<le> c \<and> c \<le> 122) \<or> c = ch CHR ''_''"

definition isPropChar :: "code_unit \<Rightarrow> bool" where
  "isPropChar c \<longleftrightarrow> isPropStart c \<or> (48 \<le> c \<and> c \<le> 57)"

definition skipSpaces :: "jsstr \<Rightarrow> jsstr" where
  "skipSpaces s = dropWhile isWhitespace s"

definition next_is :: "char \<Rightarrow> jsstr \<Rightarrow> bool" where
  "next_is c s = (case s of [] \<Rightarrow> False | x # _ \<Rightarrow> x = ch c)"

definition is_number_char :: "code_unit \<Rightarrow> bool" where
  "is_number_char c \<longleftrightarrow> is_digit c \<or> is_exponent_mark c \<or> c = ch CHR ''.'' \<or> is_sign c"

definition parseNumber :: "jsstr \<Rightarrow> filter_error + jsstr \<times> jsstr" where
  "parseNumber s =
     (let str = takeWhile is_number_char s in
      if \<not> isFilterNumber str then Inl (InvalidNumber str) else Inr (str, dropWhile is_number_char s))"

text \<open>The simple escapes of a quoted string.\<close>

definition simple_escape :: "code_unit \<Rightarrow> code_unit option" where
  "simple_escape esc =
     (if esc = ch CHR ''n'' then Some 10
      else if esc = ch CHR ''r'' then Some 13
      else if esc = ch CHR ''t'' then Some 9
      else if esc = ch CHR ''b'' then Some 8
      else if esc = ch CHR ''f'' then Some 12
      else if esc = ch CHR 0x5C then Some (ch CHR 0x5C)
      else if esc = ch CHR ''\"'' then Some (ch CHR ''\"'')
      else if esc = ch CHR 0x27 then Some (ch CHR 0x27)
      else None)"

definition invalid_code_point :: "nat \<Rightarrow> bool" where
  "invalid_code_point n \<longleftrightarrow> n = 0 \<or> (0xD800 \<le> n \<and> n < 0xE000) \<or> n > 0x10FFFF"

text \<open>Puts what has been read before the result of the rest of the loop.\<close>

definition prepend :: "'a list \<Rightarrow> 'e + 'a list \<times> 'b \<Rightarrow> 'e + 'a list \<times> 'b" where
  "prepend xs r = res_bind r (\<lambda>(ys, rest). Inr (xs @ ys, rest))"

lemma prepend_simps [simp]: "prepend xs (Inl e) = Inl e" "prepend xs (Inr (ys, r)) = Inr (xs @ ys, r)"
  by (simp_all add: prepend_def)

lemma prepend_eq_Inr: "prepend xs q = Inr (zs, r) \<longleftrightarrow> (\<exists>ys. q = Inr (ys, r) \<and> zs = xs @ ys)"
  by (cases q) (auto simp: prepend_def)

text \<open>The loop of \<open>parseString\<close>, after the opening quote.\<close>

fun string_body :: "code_unit \<Rightarrow> jsstr \<Rightarrow> filter_error + jsstr \<times> jsstr" where
  "string_body quote [] = Inl UnterminatedString"
| "string_body quote (c # cs) =
     (if c = quote then Inr ([], cs)
      else if c = ch CHR 0x5C then
        (case cs of
           [] \<Rightarrow> Inl UnterminatedString
         | esc # ds \<Rightarrow>
             (case simple_escape esc of
                Some c' \<Rightarrow> prepend [c'] (string_body quote ds)
              | None \<Rightarrow>
                  if esc = ch CHR ''u'' \<or> esc = ch CHR ''U'' then
                    (let len = (if esc = ch CHR ''u'' then 4 else 8); hex = take len ds in
                     if length hex < len \<or> \<not> list_all is_hex_digit hex then Inl InvalidUnicodeEscape
                     else let codePoint = number_of_digits 16 hex in
                       if invalid_code_point codePoint then Inl (InvalidCodePoint hex)
                       else prepend (from_code_point codePoint) (string_body quote (drop len ds)))
                  else Inl InvalidEscape))
      else prepend [c] (string_body quote cs))"

definition parseString :: "jsstr \<Rightarrow> filter_error + jsstr \<times> jsstr" where
  "parseString s =
     (case s of
        [] \<Rightarrow> Inl InvalidStringDelimiter
      | quote # cs \<Rightarrow>
          if quote \<noteq> ch CHR ''\"'' \<and> quote \<noteq> ch CHR 0x27 then Inl InvalidStringDelimiter
          else string_body quote cs)"

definition parseValue :: "jsstr \<Rightarrow> filter_error + jsstr \<times> jsstr" where
  "parseValue s0 =
     (let s = skipSpaces s0 in
      if starts_with s (js ''true'') then Inr (js ''true'', drop 4 s)
      else if starts_with s (js ''false'') then Inr (js ''false'', drop 5 s)
      else case s of
        [] \<Rightarrow> Inl InvalidValue
      | c # _ \<Rightarrow>
          if c = ch CHR ''\"'' \<or> c = ch CHR 0x27 then parseString s
          else if is_digit c \<or> is_sign c \<or> c = ch CHR ''.'' then parseNumber s
          else Inl InvalidValue)"

subsection \<open>Every parser consumes its input\<close>

lemma length_dropWhile_le [simp]: "length (dropWhile p s) \<le> length s"
  by (rule length_dropWhile_le)

lemma length_skipSpaces_le [simp]: "length (skipSpaces s) \<le> length s"
  by (simp add: skipSpaces_def)

lemma less_skipSpacesD: "n < length (skipSpaces s) \<Longrightarrow> n < length s"
  using length_skipSpaces_le [of s] by linarith

lemma string_body_shrinks: "string_body quote s = Inr (v, r) \<Longrightarrow> length r < length s"
proof (induction "length s" arbitrary: s v r rule: less_induct)
  case less
  have rest: "string_body quote t = Inr (w, r') \<Longrightarrow> length t < length s \<Longrightarrow> length r' < length s" for t w r'
    using less.hyps by fastforce
  obtain c cs where s: "s = c # cs" using less.prems by (cases s) auto
  show ?case
  proof (cases "c = quote \<or> c \<noteq> ch CHR 0x5C")
    case True
    then show ?thesis using less.prems rest [of cs] by (auto simp: s prepend_eq_Inr split: if_splits)
  next
    case False
    with less.prems obtain esc ds where cs: "cs = esc # ds" by (auto simp: s split: list.splits)
    with False less.prems rest [of ds] rest [of "drop 4 ds"] rest [of "drop 8 ds"] show ?thesis
      by (auto simp: s prepend_eq_Inr Let_def split: if_splits option.splits)
  qed
qed

lemma parseNumber_shrinks: "parseNumber s = Inr (v, r) \<Longrightarrow> length r < length s"
proof -
  assume a: "parseNumber s = Inr (v, r)"
  then have v: "v = takeWhile is_number_char s" and r: "r = dropWhile is_number_char s" and n: "isFilterNumber v"
    by (auto simp: parseNumber_def Let_def split: if_splits)
  from n have "v \<noteq> []" by (auto simp: isFilterNumber_def is_number_syntax_def drop_sign_def)
  moreover have "length v + length r = length s"
    by (simp add: v r flip: length_append)
  ultimately show ?thesis by (cases v) auto
qed

lemma parseValue_shrinks: "parseValue s = Inr (v, r) \<Longrightarrow> length r < length s"
proof -
  assume a: "parseValue s = Inr (v, r)"
  have "length r < length (skipSpaces s)"
    using a by (auto simp: parseValue_def parseString_def Let_def starts_with_iff
        split: if_splits list.splits dest!: string_body_shrinks parseNumber_shrinks)
  then show ?thesis using length_skipSpaces_le [of s] by linarith
qed

subsection \<open>Conditions\<close>

text \<open>The \<open>while (true)\<close> loop of \<open>parseValues\<close> over the values of a parenthesised list.\<close>

function parse_value_list :: "jsstr \<Rightarrow> filter_error + jsstr list \<times> jsstr" where
  "parse_value_list s =
     (case parseValue (skipSpaces s) of
        Inl e \<Rightarrow> Inl e
      | Inr (val, r) \<Rightarrow>
          (let r1 = skipSpaces r in
           if next_is CHR '','' r1 then prepend [val] (parse_value_list (tl r1))
           else if next_is CHR '')'' r1 then Inr ([val], tl r1)
           else Inl ExpectedCommaOrParenthesis))"
  by pat_completeness auto
termination
proof (relation "measure length", goal_cases)
  case (2 s x val r r1)
  then have "length r < length (skipSpaces s)" by (auto dest: parseValue_shrinks)
  moreover have "length r1 \<le> length r" "length (skipSpaces s) \<le> length s" using 2 by simp_all
  ultimately show ?case unfolding in_measure length_tl by linarith
qed simp

declare parse_value_list.simps [simp del]

definition parseValues :: "jsstr \<Rightarrow> bool \<Rightarrow> filter_error + jsstr list \<times> jsstr" where
  "parseValues s0 expectMultiple =
     (let s = skipSpaces s0 in
      if next_is CHR ''('' s then
        (if \<not> expectMultiple then Inl ParenthesesNotAllowed else parse_value_list (tl s))
      else if expectMultiple then Inl ParenthesesRequired
      else res_bind (parseValue s) (\<lambda>(val, r). Inr ([val], r)))"

text \<open>
  The two loops of \<open>parseProperty\<close>, over runs of name characters and over periods, together take
  the longest prefix of such characters.
\<close>

definition parseProperty :: "jsstr \<Rightarrow> filter_error + jsstr \<times> jsstr" where
  "parseProperty s =
     (let prop = takeWhile (\<lambda>c. isPropChar c \<or> c = ch CHR ''.'') s;
          r = dropWhile (\<lambda>c. isPropChar c \<or> c = ch CHR ''.'') s in
      if \<not> isValidPropertyPath prop then Inl InvalidPropertyPath
      else if next_is CHR ''['' r then Inl BracketNotation
      else Inr (prop, r))"

text \<open>\<open>[...FILTER_OPERATORS].sort((a, b) => b.length - a.length)\<close>; the sort is stable.\<close>

definition SORTED_OPERATORS :: "filter_operator list" where
  "SORTED_OPERATORS = sort_key (\<lambda>op. - int (length (operator_string op))) FILTER_OPERATORS"

definition operator_ends :: "jsstr \<Rightarrow> bool" where
  "operator_ends r =
     (case r of [] \<Rightarrow> True
      | c # _ \<Rightarrow> isWhitespace c \<or> c = ch CHR ''('' \<or> c = ch CHR '')'' \<or> c = ch CHR ''\"'' \<or> c = ch CHR 0x27)"

fun first_operator :: "filter_operator list \<Rightarrow> jsstr \<Rightarrow> filter_error + filter_operator \<times> jsstr" where
  "first_operator [] s = Inl UnknownOperator"
| "first_operator (op # ops) s =
     (let t = js (operator_string op) in
      if starts_with s t \<and> operator_ends (drop (length t) s) then Inr (op, drop (length t) s)
      else first_operator ops s)"

definition parseOperator :: "jsstr \<Rightarrow> filter_error + filter_operator \<times> jsstr" where
  "parseOperator s = first_operator SORTED_OPERATORS s"

definition logical_ends :: "jsstr \<Rightarrow> bool" where
  "logical_ends r = (case r of [] \<Rightarrow> True | c # _ \<Rightarrow> isWhitespace c \<or> c = ch CHR ''('')"

definition parseLogical :: "jsstr \<Rightarrow> filter_logical option" where
  "parseLogical s =
     (if starts_with s (logical_text And) \<and> logical_ends (drop 3 s) then Some And
      else if starts_with s (logical_text Or) \<and> logical_ends (drop 2 s) then Some Or
      else None)"

text \<open>The operators that take exactly one value: the \<open>UNARY_OPERATORS\<close> of \<open>filters_parser.ts\<close>.\<close>

definition SINGLE_VALUE_OPERATORS :: "filter_operator list" where
  "SINGLE_VALUE_OPERATORS =
    [OpIs, OpIsNot, OpContains, OpNotContains, OpStartsWith, OpEndsWith, OpBefore, OpAfter,
     OpOnOrBefore, OpOnOrAfter, OpGreater, OpLess, OpGreaterEqual, OpLessEqual]"

definition check_value_count :: "filter_operator \<Rightarrow> jsstr list \<Rightarrow> filter_error + unit" where
  "check_value_count operator vs =
     (if isBetweenOperator operator \<and> length vs \<noteq> 2 then Inl (WrongValueCount operator)
      else if isOneOfOperator operator \<and> length vs < 1 then Inl (WrongValueCount operator)
      else if operator \<in> set SINGLE_VALUE_OPERATORS \<and> length vs \<noteq> 1 then Inl (WrongValueCount operator)
      else Inr ())"

definition parseCondition :: "jsstr \<Rightarrow> filter_error + filter_condition \<times> jsstr" where
  "parseCondition s =
     res_bind (parseProperty s) (\<lambda>(prop, r1).
     res_bind (parseOperator (skipSpaces r1)) (\<lambda>(operator, r2).
       let r = skipSpaces r2 in
       if isUnaryOperator (Some operator)
       then Inr (\<lparr>c_property = prop, c_operator = Some operator, c_values = Some []\<rparr>, r)
       else
         let expectMultiple = isOneOfOperator operator \<or> isBetweenOperator operator in
         res_bind (parseValues r expectMultiple) (\<lambda>(vs, r3).
         res_bind (check_value_count operator vs) (\<lambda>_.
           Inr (\<lparr>c_property = prop, c_operator = Some operator, c_values = Some vs\<rparr>, r3)))))"

lemma parse_value_list_shrinks: "parse_value_list s = Inr (vs, r) \<Longrightarrow> length r < length s"
proof (induction s arbitrary: vs rule: parse_value_list.induct)
  case (1 s)
  from "1.prems" obtain val r' where v: "parseValue (skipSpaces s) = Inr (val, r')"
    by (subst (asm) parse_value_list.simps) (auto split: sum.splits)
  have r': "length r' < length s"
    using parseValue_shrinks [OF v] length_skipSpaces_le [of s] by linarith
  have tl: "length (tl (skipSpaces r')) \<le> length r'"
    using length_skipSpaces_le [of r'] unfolding length_tl by linarith
  from "1.prems" v show ?case
    by (subst (asm) parse_value_list.simps)
      (use "1.IH" [OF v refl refl] r' tl in \<open>auto simp: Let_def prepend_eq_Inr split: if_splits\<close>)
qed

lemma parseValues_shrinks: "parseValues s b = Inr (vs, r) \<Longrightarrow> length r < length s"
proof -
  assume a: "parseValues s b = Inr (vs, r)"
  have "length (tl (skipSpaces s)) \<le> length s" "length (skipSpaces s) \<le> length s"
    using length_skipSpaces_le [of s] unfolding length_tl by linarith+
  with a show ?thesis
    by (auto simp: parseValues_def Let_def res_bind_eq_Inr split: if_splits
        dest!: parse_value_list_shrinks parseValue_shrinks less_skipSpacesD)
qed

lemma parseProperty_shrinks: "parseProperty s = Inr (p, r) \<Longrightarrow> length r < length s"
proof -
  assume a: "parseProperty s = Inr (p, r)"
  let ?P = "\<lambda>c. isPropChar c \<or> c = ch CHR ''.''"
  from a have p: "p = takeWhile ?P s" and r: "r = dropWhile ?P s" and "isValidPropertyPath p"
    by (auto simp: parseProperty_def Let_def split: if_splits)
  then have "p \<noteq> []" by (auto simp: isValidPropertyPath_def is_property_name_def)
  moreover have "length p + length r = length s" unfolding p r by (simp flip: length_append)
  ultimately show ?thesis by (cases p) auto
qed

lemma first_operator_shrinks: "first_operator ops s = Inr (op, r) \<Longrightarrow> length r \<le> length s"
  by (induction ops) (auto simp: Let_def split: if_splits)

lemma parseCondition_shrinks: "parseCondition s = Inr (c, r) \<Longrightarrow> length r < length s"
proof -
  assume a: "parseCondition s = Inr (c, r)"
  then obtain p r1 op r2 where p: "parseProperty s = Inr (p, r1)"
      and op: "parseOperator (skipSpaces r1) = Inr (op, r2)"
      and r: "r = skipSpaces r2 \<or> (\<exists>b vs. parseValues (skipSpaces r2) b = Inr (vs, r))"
    by (fastforce simp: parseCondition_def res_bind_eq_Inr Let_def split: if_splits)
  have "length r2 \<le> length (skipSpaces r1)"
    using op by (simp add: parseOperator_def first_operator_shrinks)
  moreover have "length (skipSpaces r1) \<le> length r1" "length (skipSpaces r2) \<le> length r2" by simp_all
  moreover have "length r \<le> length (skipSpaces r2)" using r by (auto dest: parseValues_shrinks)
  ultimately show ?thesis using parseProperty_shrinks [OF p] by linarith
qed

subsection \<open>Groups\<close>

text \<open>
  The loop of \<open>parseGroup\<close>: \<open>rules\<close> and \<open>oper\<close> are its local variables, \<open>n\<close> the shared rule
  counter. \<open>after_rule\<close> is the part of the body that follows a rule: it throws, returns the group
  or goes on with the next rule. A nested group is the recursive call, behind the depth check
  that \<open>parseGroup\<close> starts with; \<open>parseGroup\<close> itself follows.
\<close>

definition close_group :: "filter_logical option \<Rightarrow> filter_rule list \<Rightarrow> filter_tree" where
  "close_group oper rules = (case oper of None \<Rightarrow> And | Some op \<Rightarrow> op, rules)"

datatype loop_step =
    Throw filter_error
  | Return filter_tree jsstr nat
  | Continue jsstr "filter_rule list" "filter_logical option" nat

definition after_rule :: "bool \<Rightarrow> filter_rule list \<Rightarrow> filter_logical option \<Rightarrow> jsstr \<Rightarrow> nat \<Rightarrow> loop_step" where
  "after_rule nested rules oper r n =
     (let i = skipSpaces r in
      if n > MAX_FILTER_RULE_COUNT + 1 then Throw RuleCountExceeded
      else if nested \<and> next_is CHR '')'' i then Return (close_group oper rules) (tl i) n
      else if i = [] then (if nested then Throw UnclosedGroup else Return (close_group oper rules) i n)
      else if next_is CHR '')'' i then Throw UnexpectedClosing
      else
        (case parseLogical i of
           None \<Rightarrow> Throw ExpectedConnector
         | Some nx \<Rightarrow>
             if oper \<noteq> None \<and> oper \<noteq> Some nx then Throw MixedConnectors
             else let j = skipSpaces (drop (length (logical_text nx)) i) in
               if j = [] \<or> (nested \<and> next_is CHR '')'' j) then Throw TrailingConnector
               else Continue j rules (Some nx) n))"

function parse_rules :: "jsstr \<Rightarrow> nat \<Rightarrow> bool \<Rightarrow> filter_rule list \<Rightarrow> filter_logical option \<Rightarrow> nat \<Rightarrow>
    filter_error + filter_tree \<times> jsstr \<times> nat" where
  "parse_rules s depth nested rules oper n =
     (if nested \<and> next_is CHR '')'' s then
        (if rules = [] then Inl EmptyGroup else Inr (close_group oper rules, tl s, n))
      else if s = [] then
        (if nested then Inl UnclosedGroup
         else if rules = [] then Inl EmptyGroup
         else Inr (close_group oper rules, s, n))
      else
        res_bind
          (if next_is CHR ''('' s then
             (if depth + 1 > MAX_FILTER_DEPTH + 1 then Inl DepthExceeded
              else res_bind (parse_rules (skipSpaces (tl s)) (depth + 1) True [] None n)
                     (\<lambda>(g, r, n1). Inr (Group (fst g) (snd g), r, n1)))
           else res_bind (parseCondition s) (\<lambda>(c, r). Inr (Condition c, r, n)))
          (\<lambda>(rule, r, n1).
             case after_rule nested (rules @ [rule]) oper r (n1 + 1) of
               Throw e \<Rightarrow> Inl e
             | Return g r' n' \<Rightarrow> Inr (g, r', n')
             | Continue j rules' oper' n' \<Rightarrow> parse_rules j depth nested rules' oper' n'))"
  by pat_completeness auto

lemma length_tl_skip_le: "length (tl (skipSpaces r)) \<le> length r"
  using length_skipSpaces_le [of r] unfolding length_tl by linarith

lemma after_rule_shrinks:
  "after_rule nested rules oper r n = Return g r' n' \<Longrightarrow> length r' \<le> length r"
  "after_rule nested rules oper r n = Continue j rules' oper' n' \<Longrightarrow> length j \<le> length r"
proof -
  have "length (skipSpaces (drop k (skipSpaces r))) \<le> length r" for k
    using length_skipSpaces_le [of "drop k (skipSpaces r)"] length_skipSpaces_le [of r]
    unfolding length_drop by linarith
  then show "after_rule nested rules oper r n = Return g r' n' \<Longrightarrow> length r' \<le> length r"
    "after_rule nested rules oper r n = Continue j rules' oper' n' \<Longrightarrow> length j \<le> length r"
    using length_tl_skip_le [of r]
    by (auto simp: after_rule_def Let_def split: if_splits option.splits)
qed

lemma parse_rules_shrinks_dom:
  "parse_rules_dom (s, depth, nested, rules, oper, n) \<Longrightarrow>
     parse_rules s depth nested rules oper n = Inr (g, r, n') \<Longrightarrow> length r \<le> length s"
proof (induction arbitrary: g r n' rule: parse_rules.pinduct)
  case (1 s depth nested rules oper n)
  note eq = "1.prems" [unfolded parse_rules.psimps [OF "1.hyps"]]
  show ?case
  proof (cases "(nested \<and> next_is CHR '')'' s) \<or> s = []")
    case True
    with eq show ?thesis by (auto split: if_splits)
  next
    case False
    then have stop: "\<not> (nested \<and> next_is CHR '')'' s)" "s \<noteq> []" by blast+
    from eq [unfolded if_not_P [OF stop(1)] if_not_P [OF stop(2)] res_bind_eq_Inr]
    obtain rule r1 n1 where
      fst: "(if next_is CHR ''('' s then
             (if depth + 1 > MAX_FILTER_DEPTH + 1 then Inl DepthExceeded
              else res_bind (parse_rules (skipSpaces (tl s)) (depth + 1) True [] None n)
                     (\<lambda>(g, r, n1). Inr (Group (fst g) (snd g), r, n1)))
           else res_bind (parseCondition s) (\<lambda>(c, r). Inr (Condition c, r, n))) = Inr (rule, r1, n1)"
      and snd: "(case after_rule nested (rules @ [rule]) oper r1 (n1 + 1) of
               Throw e \<Rightarrow> Inl e
             | Return g r' n' \<Rightarrow> Inr (g, r', n')
             | Continue j rules' oper' n' \<Rightarrow> parse_rules j depth nested rules' oper' n') = Inr (g, r, n')"
      by auto
    have "length r1 \<le> length s"
    proof (cases "next_is CHR ''('' s")
      case True
      with fst obtain g1 where "parse_rules (skipSpaces (tl s)) (depth + 1) True [] None n = Inr (g1, r1, n1)"
        and "\<not> depth + 1 > MAX_FILTER_DEPTH + 1"
        by (auto simp: res_bind_eq_Inr split: if_splits)
      with "1.IH"(1) [OF stop True] have "length r1 \<le> length (skipSpaces (tl s))" by blast
      then show ?thesis using length_skipSpaces_le [of "tl s"] unfolding length_tl by linarith
    next
      case f: False
      with fst obtain c where "parseCondition s = Inr (c, r1)" by (auto simp: res_bind_eq_Inr)
      then show ?thesis by (auto dest: parseCondition_shrinks)
    qed
    moreover have "length r \<le> length r1"
    proof (cases "after_rule nested (rules @ [rule]) oper r1 (n1 + 1)")
      case (Continue j rules' oper' n2)
      with snd "1.IH"(2) [OF stop fst refl refl Continue] after_rule_shrinks(2) [OF Continue]
      show ?thesis by fastforce
    qed (use snd after_rule_shrinks(1) in auto)
    ultimately show ?thesis by linarith
  qed
qed

termination parse_rules
proof (relation "measure (\<lambda>(s, _). length s)", goal_cases)
  case 1
  show ?case by simp
next
  case (2 s depth nested rules oper n)
  then show ?case using length_skipSpaces_le [of "tl s"] by (cases s) (auto simp: less_Suc_eq_le)
next
  case (3 s depth nested rules oper n x rule y r n1 j rules' oper' n')
  have "length r < length s"
  proof (cases "next_is CHR ''('' s")
    case True
    with 3 obtain g1 where "parse_rules (skipSpaces (tl s)) (depth + 1) True [] None n = Inr (g1, r, n1)"
      and "\<not> depth + 1 > MAX_FILTER_DEPTH + 1"
      by (auto simp: res_bind_eq_Inr split: if_splits)
    with 3 True have "length r \<le> length (skipSpaces (tl s))" by (blast dest: parse_rules_shrinks_dom)
    also have "\<dots> \<le> length (tl s)" by (rule length_skipSpaces_le)
    finally show ?thesis using \<open>s \<noteq> []\<close> by (cases s) auto
  next
    case False
    with 3 obtain c where "parseCondition s = Inr (c, r)" by (auto simp: res_bind_eq_Inr)
    then show ?thesis by (rule parseCondition_shrinks)
  qed
  with 3 after_rule_shrinks(2) show ?case by fastforce
qed

declare parse_rules.simps [simp del]

definition parseGroup :: "jsstr \<Rightarrow> nat \<Rightarrow> bool \<Rightarrow> nat \<Rightarrow> filter_error + filter_tree \<times> jsstr \<times> nat" where
  "parseGroup s depth nested n =
     (if depth > MAX_FILTER_DEPTH + 1 then Inl DepthExceeded
      else parse_rules (skipSpaces s) depth nested [] None n)"

text \<open>\<open>validateGroupLimits\<close>, with its counter \<open>actualRuleCount\<close> as argument and result.\<close>

fun validate_rules :: "filter_rule list \<Rightarrow> nat \<Rightarrow> nat \<Rightarrow> filter_error + nat" where
  "validate_rules [] depth n = Inr n"
| "validate_rules (Condition c # rules) depth n =
     (if n + 1 > MAX_FILTER_RULE_COUNT then Inl RuleCountExceeded
      else validate_rules rules depth (n + 1))"
| "validate_rules (Group op rules' # rules) depth n =
     (if n + 1 > MAX_FILTER_RULE_COUNT then Inl RuleCountExceeded
      else if depth + 1 > MAX_FILTER_DEPTH then Inl DepthExceeded
      else res_bind (validate_rules rules' (depth + 1) (n + 1)) (validate_rules rules depth))"

definition validateGroupLimits :: "filter_tree \<Rightarrow> nat \<Rightarrow> nat \<Rightarrow> filter_error + nat" where
  "validateGroupLimits g depth n =
     (if depth > MAX_FILTER_DEPTH then Inl DepthExceeded else validate_rules (snd g) depth n)"

definition unwrap_root :: "filter_tree \<Rightarrow> filter_tree" where
  "unwrap_root f = (case snd f of [Group op rules] \<Rightarrow> (op, rules) | _ \<Rightarrow> f)"

definition parseFilter :: "jsstr \<Rightarrow> filter_error + filter_tree" where
  "parseFilter s =
     res_bind (parseGroup s 1 False 0) (\<lambda>(f, rest, _).
       if skipSpaces rest \<noteq> [] then Inl UnexpectedContent
       else let result = unwrap_root f in
         res_bind (validateGroupLimits result 1 0) (\<lambda>_. Inr result))"

end
