(* ===== verification/Filter_Roundtrip.thy ===== *)
theory Filter_Roundtrip
  imports Filter_Syntax
begin

section \<open>Printing and parsing a filter are inverse\<close>

text \<open>
  The filters that the parser accepts, and the proof that it reads back what the printer writes,
  in both of its layouts. Every lemma is about a text followed by an arbitrary rest, which is what
  the next parser sees; a \<open>boundary\<close> is what may follow a value or an operator.
\<close>

subsection \<open>Values\<close>

definition boundary :: "jsstr \<Rightarrow> bool" where
  "boundary r = (case r of [] \<Rightarrow> True | c # _ \<Rightarrow> isWhitespace c \<or> c = ch CHR '')'' \<or> c = ch CHR '','')"

definition escape_unit :: "code_unit \<Rightarrow> jsstr" where
  "escape_unit x =
     (if x = 92 then [92, 92] else if x = 34 then [92, 34] else if x = 10 then [92, 110]
      else if x = 13 then [92, 114] else if x = 9 then [92, 116] else [x])"

lemma replace_unit_append: "replace_unit c r (a @ b) = replace_unit c r a @ replace_unit c r b"
  by (simp add: replace_unit_def)

lemma escapeString_units: "escapeString v = 34 # concat (map escape_unit v) @ [34]"
proof -
  have "replace_unit 9 [92, 116] (replace_unit 13 [92, 114] (replace_unit 10 [92, 110]
           (replace_unit 34 [92, 34] (replace_unit 92 [92, 92] v)))) = concat (map escape_unit v)"
  proof (induction v)
    case (Cons x v)
    have "replace_unit 92 [92, 92] (x # v) = replace_unit 92 [92, 92] [x] @ replace_unit 92 [92, 92] v"
      by (simp add: replace_unit_def)
    then show ?case
      by (simp only: replace_unit_append Cons.IH) (simp add: replace_unit_def escape_unit_def)
  qed (simp add: replace_unit_def)
  then show ?thesis by (simp add: escapeString_def)
qed

lemma string_body_escaped: "string_body 34 (concat (map escape_unit v) @ 34 # rest) = Inr (v, rest)"
  by (induction v) (auto simp: escape_unit_def simple_escape_def)

lemma parseValue_escaped: "parseValue (escapeString v @ rest) = Inr (v, rest)"
  by (simp add: parseValue_def escapeString_units skipSpaces_def isWhitespace_def js_Cons
      parseString_def string_body_escaped)

lemma number_chars_exponent: "is_exponent_part r \<Longrightarrow> list_all is_number_char r"
  by (auto simp: is_exponent_part_def drop_sign_def is_number_char_def list_all_iff is_sign_def
      split: list.splits if_splits)

lemma drop_sign_cases: "s = drop_sign s \<or> (\<exists>c. is_sign c \<and> s = c # drop_sign s)"
  by (auto simp: drop_sign_def split: list.splits)

lemma takeWhile_digits: "list_all is_number_char (takeWhile is_digit s)"
  by (auto simp: list_all_iff is_number_char_def dest: set_takeWhileD)

lemma number_syntax_chars:
  assumes "is_number_syntax v"
  shows "list_all is_number_char v" and "v \<noteq> []"
    and "is_digit (hd v) \<or> is_sign (hd v) \<or> hd v = 46"
proof -
  let ?t = "drop_sign v"
  let ?r = "dropWhile is_digit ?t"
  have t: "takeWhile is_digit ?t @ ?r = ?t" by simp
  have r: "list_all is_number_char ?r \<and> (?t = [] \<longrightarrow> False) \<and> (is_digit (hd ?t) \<or> hd ?t = 46)"
  proof (cases "starts_with ?r [46]")
    case True
    then obtain u where u: "?r = 46 # u" by (auto simp: starts_with_iff)
    have "takeWhile is_digit u @ dropWhile is_digit u = u" by simp
    moreover have "is_exponent_part (dropWhile is_digit u)"
      using assms True by (auto simp: is_number_syntax_def Let_def u)
    ultimately have "list_all is_number_char u"
      by (metis list_all_append number_chars_exponent takeWhile_digits)
    moreover have "is_number_char 46" by (simp add: is_number_char_def)
    moreover have "is_digit (hd ?t) \<or> hd ?t = 46" using u by (cases ?t) (auto split: if_splits)
    moreover have "?t \<noteq> []" using u by auto
    ultimately show ?thesis by (simp add: u)
  next
    case False
    with assms have "takeWhile is_digit ?t \<noteq> []" and e: "is_exponent_part ?r"
      by (auto simp: is_number_syntax_def Let_def)
    then have "?t \<noteq> []" "is_digit (hd ?t)" by (cases ?t; auto split: if_splits)+
    with number_chars_exponent [OF e] show ?thesis by simp
  qed
  have "list_all is_number_char ?t"
    using r takeWhile_digits [of ?t] t by (metis list_all_append)
  then show "list_all is_number_char v"
    using drop_sign_cases [of v] by (metis is_number_char_def list.pred_inject(2))
  show "v \<noteq> []" using r drop_sign_cases [of v] by auto
  show "is_digit (hd v) \<or> is_sign (hd v) \<or> hd v = 46"
    using r drop_sign_cases [of v] by (metis list.sel(1))
qed

lemma parseValue_number:
  assumes "isFilterNumber v" and "boundary rest"
  shows "parseValue (v @ rest) = Inr (v, rest)"
proof -
  have n: "is_number_syntax v" using assms(1) by (simp add: isFilterNumber_def)
  note chars = number_syntax_chars [OF n]
  obtain c v' where v: "v = c # v'" using chars(2) by (cases v) auto
  have c: "is_digit c \<or> is_sign c \<or> c = 46" using chars(3) by (simp add: v)
  then have nws: "\<not> isWhitespace c" and "c \<noteq> 34" "c \<noteq> 39" "c \<noteq> 116" "c \<noteq> 102"
    by (auto simp: isWhitespace_def is_digit_iff is_sign_def)
  have stop: "\<not> is_number_char (hd rest) \<or> rest = []"
    using assms(2) by (cases rest) (auto simp: boundary_def isWhitespace_def is_number_char_def
        is_digit_iff is_sign_def is_exponent_mark_def)
  have "takeWhile is_number_char (v @ rest) = v" "dropWhile is_number_char (v @ rest) = rest"
    using chars(1) stop by (cases rest; simp add: list_all_iff takeWhile_append dropWhile_append)+
  then have "parseNumber (v @ rest) = Inr (v, rest)"
    using assms(1) by (simp add: parseNumber_def)
  moreover have "skipSpaces (v @ rest) = v @ rest" using nws by (simp add: skipSpaces_def v)
  ultimately show ?thesis
    using c \<open>c \<noteq> 34\<close> \<open>c \<noteq> 39\<close> \<open>c \<noteq> 116\<close> \<open>c \<noteq> 102\<close> by (auto simp: parseValue_def v js_Cons)
qed

lemma parseValue_boolean: "is_boolean_text v \<Longrightarrow> parseValue (v @ rest) = Inr (v, rest)"
  by (auto simp: is_boolean_text_def parseValue_def skipSpaces_def js_Cons isWhitespace_def)

definition plain_value :: "jsstr \<Rightarrow> jsstr" where
  "plain_value v = (if is_boolean_text v \<or> isFilterNumber v then v else escapeString v)"

lemma parseValue_plain: "boundary rest \<Longrightarrow> parseValue (plain_value v @ rest) = Inr (v, rest)"
  by (simp add: plain_value_def parseValue_escaped parseValue_number parseValue_boolean)


lemma plain_value_nonempty: "plain_value v \<noteq> []"
  using number_syntax_chars(2) [of v]
  by (auto simp: plain_value_def escapeString_units is_boolean_text_def isFilterNumber_def)

lemma skipSpaces_space [simp]: "skipSpaces (32 # s) = skipSpaces s"
  by (simp add: skipSpaces_def isWhitespace_def)

lemma skipSpaces_idem [simp]: "skipSpaces (skipSpaces s) = skipSpaces s"
  by (simp add: skipSpaces_def)

lemma parseValue_skip [simp]: "parseValue (skipSpaces s) = parseValue s"
  by (simp add: parseValue_def)

lemma parse_value_list_plain:
  "vs \<noteq> [] \<Longrightarrow> parse_value_list (join_with (js '', '') (map plain_value vs) @ 41 # rest) = Inr (vs, rest)"
proof (induction vs)
  case (Cons v vs)
  have skip: "skipSpaces (44 # s) = 44 # s" "skipSpaces (41 # s) = 41 # s" for s
    by (simp_all add: skipSpaces_def isWhitespace_def)
  show ?case
  proof (cases "vs = []")
    case True
    have "parseValue (plain_value v @ 41 # rest) = Inr (v, 41 # rest)"
      by (rule parseValue_plain) (simp add: boundary_def)
    with True show ?thesis
      by (subst parse_value_list.simps) (simp add: skip next_is_def)
  next
    case False
    let ?tail = "join_with (js '', '') (map plain_value vs) @ 41 # rest"
    have "parseValue (plain_value v @ 44 # 32 # ?tail) = Inr (v, 44 # 32 # ?tail)"
      by (rule parseValue_plain) (simp add: boundary_def)
    moreover have "parse_value_list (32 # ?tail) = parse_value_list ?tail"
      by (subst (1 2) parse_value_list.simps) simp
    ultimately show ?thesis using False Cons.IH
      by (subst parse_value_list.simps) (simp add: skip next_is_def join_with_Cons js_Cons)
  qed
qed simp

subsection \<open>Conditions\<close>

text \<open>A condition that the parser can return: a complete one, with the values its operator takes.\<close>

definition arity_ok :: "filter_operator \<Rightarrow> nat \<Rightarrow> bool" where
  "arity_ok op n =
     (if op \<in> UNARY_OPERATORS then n = 0
      else if isBetweenOperator op then n = 2
      else if isOneOfOperator op then 1 \<le> n
      else n = 1)"

definition wf_condition :: "filter_condition \<Rightarrow> bool" where
  "wf_condition c \<longleftrightarrow> isValidPropertyPath (c_property c)
     \<and> (case (c_operator c, c_values c) of (Some op, Some vs) \<Rightarrow> arity_ok op (length vs) | _ \<Rightarrow> False)"

lemma SORTED_OPERATORS_eq: "SORTED_OPERATORS =
  [OpGreaterEqual, OpLessEqual, OpNotContains, OpGreater, OpOnOrBefore, OpNotBetween,
   OpOnOrAfter, OpNotExist, OpNotOneOf, OpLess, OpIsNotEmpty, OpStartsWith, OpIsNotNull,
   OpBetween, OpOneOf, OpEndsWith, OpBefore, OpContains, OpAfter, OpIsFalse, OpIsEmpty,
   OpIsTrue, OpIsNull, OpIsNot, OpExists, OpIs]"
  by (simp add: SORTED_OPERATORS_def FILTER_OPERATORS_def)

definition value_start :: "filter_operator \<Rightarrow> code_unit \<Rightarrow> bool" where
  "value_start op c \<longleftrightarrow> \<not> is_letter c \<or> (op \<noteq> OpIs \<and> (c = 116 \<or> c = 102))"

lemma value_start_not:
  "value_start op c \<Longrightarrow> c \<notin> {97, 98, 101, 103, 108, 110, 111}"
  "value_start OpIs c \<Longrightarrow> c \<notin> {116, 102}"
  by (auto simp: value_start_def is_letter_def)


lemma parseOperator_unary:
  "op \<in> UNARY_OPERATORS \<Longrightarrow> operator_ends rest \<Longrightarrow> parseOperator (js (operator_string op) @ rest) = Inr (op, rest)"
  by (cases op) (simp_all add: parseOperator_def SORTED_OPERATORS_eq js_Cons UNARY_OPERATORS_def)

lemma parseOperator_value:
  assumes "value_start op c" "op \<notin> UNARY_OPERATORS"
  shows "parseOperator (js (operator_string op) @ 32 # c # rest) = Inr (op, 32 # c # rest)"
  using assms value_start_not(1) [of op c] value_start_not(2) [of c]
  by (cases op) (simp_all add: parseOperator_def SORTED_OPERATORS_eq js_Cons UNARY_OPERATORS_def
      operator_ends_def isWhitespace_def)

lemma parseOperator_list:
  assumes "isBetweenOperator op \<or> isOneOfOperator op"
  shows "parseOperator (js (operator_string op) @ 32 # 40 # rest) = Inr (op, 32 # 40 # rest)"
  using assms parseOperator_value [of op 40 rest]
  by (auto simp: value_start_def is_letter_def UNARY_OPERATORS_def isBetweenOperator_def isOneOfOperator_def)

lemma in_split_pieces: "c \<in> set s \<Longrightarrow> c = d \<or> (\<exists>w \<in> set (split_on d s). c \<in> set w)"
  by (induction s) (auto split: list.splits)

lemma property_name_chars: "is_property_name w \<Longrightarrow> c \<in> set w \<Longrightarrow> isPropChar c"
  by (cases w) (auto simp: is_property_name_def list_all_iff isPropChar_def isPropStart_def is_letter_def
      is_word_char_def is_digit_iff)

lemma property_path_chars:
  assumes "isValidPropertyPath p"
  shows "c \<in> set p \<Longrightarrow> isPropChar c \<or> c = 46" and "p \<noteq> []" and "isPropStart (hd p)"
proof -
  have n: "is_property_name w" if "w \<in> set (split_on 46 p)" for w
    using assms that by (auto simp: isValidPropertyPath_def list_all_iff)
  show "c \<in> set p \<Longrightarrow> isPropChar c \<or> c = 46"
    using in_split_pieces [of c p 46] n property_name_chars by blast
  show ne: "p \<noteq> []" using assms by (auto simp: isValidPropertyPath_def is_property_name_def)
  then obtain x xs where p: "p = x # xs" by (cases p) auto
  have h: "is_property_name (hd (split_on 46 p))" by (rule n) simp
  show "isPropStart (hd p)"
    using h by (auto simp: p is_property_name_def isPropStart_def is_letter_def split: if_splits list.splits)
qed

lemma parseProperty_path:
  assumes "isValidPropertyPath p"
  shows "parseProperty (p @ 32 # rest) = Inr (p, 32 # rest)"
proof -
  let ?P = "\<lambda>c. isPropChar c \<or> c = 46"
  have "\<not> ?P 32" by (simp add: isPropChar_def isPropStart_def)
  with property_path_chars(1) [OF assms]
  have "takeWhile ?P (p @ 32 # rest) = p" "dropWhile ?P (p @ 32 # rest) = 32 # rest"
    by (simp_all add: takeWhile_append dropWhile_append)
  with assms show ?thesis by (simp add: parseProperty_def next_is_def)
qed

definition rule_boundary :: "jsstr \<Rightarrow> bool" where
  "rule_boundary r = (case r of [] \<Rightarrow> True | c # _ \<Rightarrow> isWhitespace c \<or> c = ch CHR '')'')"

lemma rule_boundaryD: "rule_boundary r \<Longrightarrow> boundary r" "rule_boundary r \<Longrightarrow> operator_ends r"
  by (cases r; simp add: rule_boundary_def boundary_def operator_ends_def; blast)+

text \<open>A single value never starts like the rest of a longer operator.\<close>

definition single_value :: "filter_operator \<Rightarrow> jsstr \<Rightarrow> jsstr" where
  "single_value op v = (if (op \<noteq> OpIs \<and> is_boolean_text v) \<or> isFilterNumber v then v else escapeString v)"

lemma single_value_start: "\<exists>c s. single_value op v = c # s \<and> value_start op c \<and> c \<noteq> 40 \<and> \<not> isWhitespace c"
proof -
  consider "op \<noteq> OpIs \<and> is_boolean_text v" | "isFilterNumber v" | "single_value op v = escapeString v"
    unfolding single_value_def by (cases "(op \<noteq> OpIs \<and> is_boolean_text v) \<or> isFilterNumber v") auto
  then show ?thesis
  proof cases
    case 2
    then have n: "is_number_syntax v" by (simp add: isFilterNumber_def)
    with number_syntax_chars(2,3) [OF n] 2 show ?thesis
      by (cases v) (auto simp: single_value_def value_start_def is_letter_def is_digit_iff is_sign_def isWhitespace_def)
  qed (auto simp: single_value_def is_boolean_text_def js_Cons value_start_def escapeString_units is_letter_def isWhitespace_def)
qed

lemma parseValue_single: "boundary rest \<Longrightarrow> parseValue (single_value op v @ rest) = Inr (v, rest)"
  by (simp add: single_value_def parseValue_escaped parseValue_number parseValue_boolean)

lemma check_value_count_ok:
  "arity_ok op n \<Longrightarrow> op \<notin> UNARY_OPERATORS \<Longrightarrow> n = length vs \<Longrightarrow> check_value_count op vs = Inr ()"
  by (cases op) (auto simp: check_value_count_def arity_ok_def isBetweenOperator_def isOneOfOperator_def
      SINGLE_VALUE_OPERATORS_def UNARY_OPERATORS_def)

lemma uses_value_list_iff: "uses_value_list (Some op) \<longleftrightarrow> isBetweenOperator op \<or> isOneOfOperator op"
  by (auto simp: uses_value_list_def isBetweenOperator_def isOneOfOperator_def)

lemma formatValues_list:
  "vs \<noteq> [] \<Longrightarrow> uses_value_list op \<Longrightarrow>
     formatValues vs op = 40 # join_with (js '', '') (map plain_value vs) @ [41]"
  by (simp add: formatValues_def flip: plain_value_def)

lemma formatValues_single:
  "\<not> uses_value_list (Some op) \<Longrightarrow> formatValues [v] (Some op) = single_value op v"
  by (simp add: formatValues_def single_value_def)

lemma parseCondition_print:
  assumes "wf_condition c" and "rule_boundary rest"
  shows "\<exists>r. parseCondition (formatCondition c @ rest) = Inr (c, r) \<and> skipSpaces r = skipSpaces rest"
proof -
  obtain p op vs where c: "c = \<lparr>c_property = p, c_operator = Some op, c_values = Some vs\<rparr>"
      and p: "isValidPropertyPath p" and ar: "arity_ok op (length vs)"
    using assms(1) by (cases c) (auto simp: wf_condition_def split: option.splits)
  have opstart: "skipSpaces (js (operator_string op) @ s) = js (operator_string op) @ s" for s
    by (cases op) (simp_all add: js_Cons skipSpaces_def isWhitespace_def)
  consider (unary) "op \<in> UNARY_OPERATORS" | (list) "isBetweenOperator op \<or> isOneOfOperator op"
    | (single) "op \<notin> UNARY_OPERATORS" "\<not> isBetweenOperator op" "\<not> isOneOfOperator op" by blast
  then show ?thesis
  proof cases
    case unary
    with ar have vs: "vs = []" by (simp add: arity_ok_def)
    have t: "formatCondition c @ rest = p @ 32 # js (operator_string op) @ rest"
      by (simp add: formatCondition_def c vs formatValues_def operator_text_def js_Cons)
    show ?thesis
      using unary parseProperty_path [OF p] parseOperator_unary [OF unary rule_boundaryD(2) [OF assms(2)]]
      unfolding t parseCondition_def by (simp add: opstart isUnaryOperator_def c vs)
  next
    case list
    then have nu: "op \<notin> UNARY_OPERATORS" and vs: "vs \<noteq> []"
      using ar by (auto simp: arity_ok_def UNARY_OPERATORS_def isBetweenOperator_def isOneOfOperator_def split: if_splits)
    have t: "formatCondition c @ rest =
        p @ 32 # js (operator_string op) @ 32 # 40 # join_with (js '', '') (map plain_value vs) @ 41 # rest"
      using vs list by (simp add: formatCondition_def c formatValues_list uses_value_list_iff operator_text_def js_Cons)
    have "skipSpaces (40 # s) = 40 # s" for s by (simp add: skipSpaces_def isWhitespace_def)
    with list vs nu parseProperty_path [OF p] parseOperator_list [OF list] check_value_count_ok [OF ar nu refl] parse_value_list_plain [OF vs]
    show ?thesis
      unfolding t parseCondition_def by (auto simp: opstart isUnaryOperator_def c parseValues_def next_is_def)
  next
    case single
    with ar obtain v where vs: "vs = [v]" by (auto simp: arity_ok_def length_Suc_conv)
    obtain x s where x: "single_value op v = x # s" "value_start op x" "x \<noteq> 40" "\<not> isWhitespace x"
      using single_value_start by blast
    have t: "formatCondition c @ rest = p @ 32 # js (operator_string op) @ 32 # x # s @ rest"
      using single x(1) by (simp add: formatCondition_def c vs formatValues_single uses_value_list_iff operator_text_def js_Cons)
    have "parseValue (x # s @ rest) = Inr (v, rest)"
      using parseValue_single [OF rule_boundaryD(1) [OF assms(2)], of op v] by (simp add: x)
    moreover have "skipSpaces (x # s') = x # s'" for s' using x by (simp add: skipSpaces_def)
    ultimately show ?thesis
      using single parseProperty_path [OF p] parseOperator_value [OF x(2) single(1)] check_value_count_ok [OF ar single(1) refl] x(3)
      unfolding t parseCondition_def by (simp add: opstart isUnaryOperator_def c vs parseValues_def next_is_def)
  qed
qed


subsection \<open>Groups\<close>

text \<open>The rules of a group as the parser meets them: the first, then each one behind its separator.\<close>

definition separator :: "bool \<Rightarrow> filter_logical \<Rightarrow> nat \<Rightarrow> jsstr" where
  "separator formatted op depth =
     (if formatted then 10 # indentation depth else [32]) @ logical_text op @ [32]"

definition tail_text :: "bool \<Rightarrow> filter_logical \<Rightarrow> nat \<Rightarrow> filter_rule list \<Rightarrow> jsstr" where
  "tail_text formatted op depth rules =
     concat (map (\<lambda>r. separator formatted op depth @ formatRule formatted r depth) rules)"

definition rules_text :: "bool \<Rightarrow> filter_logical \<Rightarrow> nat \<Rightarrow> filter_rule list \<Rightarrow> jsstr" where
  "rules_text formatted op depth rules =
     formatRule formatted (hd rules) depth @ tail_text formatted op depth (tl rules)"

lemma tail_text_Nil [simp]: "tail_text formatted op depth [] = []"
  by (simp add: tail_text_def)

lemma tail_text_rules:
  "rules \<noteq> [] \<Longrightarrow> tail_text formatted op depth rules = separator formatted op depth @ rules_text formatted op depth rules"
  by (cases rules) (simp_all add: tail_text_def rules_text_def)

lemma formatRules_Nil_iff [simp]: "formatRules formatted op rules depth first = [] \<longleftrightarrow> rules = []"
  by (cases rules) simp_all

lemma formatRules_unformatted:
  "rules \<noteq> [] \<Longrightarrow> join_with (32 # logical_text op @ [32]) (formatRules False op rules depth first) = rules_text False op depth rules"
proof (induction rules arbitrary: first)
  case (Cons r rules)
  then show ?case
    by (cases "rules = []") (simp_all add: rules_text_def tail_text_rules separator_def join_with_Cons)
qed simp

lemma formatRules_formatted:
  "rules \<noteq> [] \<Longrightarrow> join_with [10] (formatRules True op rules depth first) =
     indentation depth @ (if first then [] else logical_text op @ [32]) @ rules_text True op depth rules"
proof (induction rules arbitrary: first)
  case (Cons r rules)
  then show ?case
    by (cases "rules = []") (simp_all add: rules_text_def tail_text_rules separator_def join_with_Cons js_Cons)
qed simp

lemma skip_indentation [simp]: "skipSpaces (indentation depth @ s) = skipSpaces s"
  by (induction depth) (simp_all add: indentation_def js_Cons)

lemma skip_newline [simp]: "skipSpaces (10 # s) = skipSpaces s"
  by (simp add: skipSpaces_def isWhitespace_def)

lemma skip_logical [simp]: "skipSpaces (logical_text op @ s) = logical_text op @ s"
  by (cases op) (simp_all add: logical_text_def js_Cons skipSpaces_def isWhitespace_def)

lemma skip_separator: "skipSpaces (separator formatted op depth @ s) = logical_text op @ 32 # s"
  by (simp add: separator_def)

text \<open>The filters that the parser accepts.\<close>

fun printable_rules :: "filter_rule list \<Rightarrow> bool" where
  "printable_rules [] = True"
| "printable_rules (Condition c # rules) = (wf_condition c \<and> printable_rules rules)"
| "printable_rules (Group op rules' # rules) =
     (rules' \<noteq> [] \<and> (length rules' = 1 \<longrightarrow> op = And) \<and> printable_rules rules' \<and> printable_rules rules)"

definition wf_filter :: "filter_tree \<Rightarrow> bool" where
  "wf_filter f \<longleftrightarrow> snd f \<noteq> [] \<and> (length (snd f) = 1 \<longrightarrow> fst f = And) \<and> printable_rules (snd f)
     \<and> Suc (rules_depth (snd f)) \<le> MAX_FILTER_DEPTH \<and> rule_count (snd f) \<le> MAX_FILTER_RULE_COUNT"

text \<open>A root with a group as its only rule; the parser removes one such level of parentheses.\<close>

definition single_group :: "filter_tree \<Rightarrow> bool" where
  "single_group f = (case snd f of [Group _ _] \<Rightarrow> True | _ \<Rightarrow> False)"

definition parse_rule :: "jsstr \<Rightarrow> nat \<Rightarrow> nat \<Rightarrow> filter_error + filter_rule \<times> jsstr \<times> nat" where
  "parse_rule s depth n =
     (if next_is CHR ''('' s then
        (if depth + 1 > MAX_FILTER_DEPTH + 1 then Inl DepthExceeded
         else res_bind (parse_rules (skipSpaces (tl s)) (depth + 1) True [] None n)
                (\<lambda>(g, r, n1). Inr (Group (fst g) (snd g), r, n1)))
      else res_bind (parseCondition s) (\<lambda>(c, r). Inr (Condition c, r, n)))"

lemma parse_rules_unfold:
  "s \<noteq> [] \<Longrightarrow> \<not> (nested \<and> next_is CHR '')'' s) \<Longrightarrow>
     parse_rules s depth nested rules oper n =
       res_bind (parse_rule s depth n) (\<lambda>(rule, r, n1).
         case after_rule nested (rules @ [rule]) oper r (n1 + 1) of
           Throw e \<Rightarrow> Inl e
         | Return g r' n' \<Rightarrow> Inr (g, r', n')
         | Continue j rules' oper' n' \<Rightarrow> parse_rules j depth nested rules' oper' n')"
  by (subst parse_rules.simps) (simp only: parse_rule_def if_False if_not_P)

definition ends_group :: "bool \<Rightarrow> jsstr \<Rightarrow> bool" where
  "ends_group nested r = (if nested then next_is CHR '')'' (skipSpaces r) else skipSpaces r = [])"

lemma after_rule_last:
  "ends_group nested r \<Longrightarrow> n \<le> MAX_FILTER_RULE_COUNT + 1 \<Longrightarrow>
     after_rule nested rules oper r n = Return (close_group oper rules) (tl (skipSpaces r)) n"
  by (auto simp: after_rule_def ends_group_def Let_def split: if_splits)

lemma parseLogical_text: "parseLogical (logical_text op @ 32 # s) = Some op"
  by (cases op) (simp_all add: parseLogical_def logical_text_def js_Cons logical_ends_def isWhitespace_def)

lemma after_rule_next:
  assumes "skipSpaces r = logical_text op @ 32 # c # s" "\<not> isWhitespace c" "c \<noteq> 41"
    and "n \<le> MAX_FILTER_RULE_COUNT + 1" "oper = None \<or> oper = Some op"
  shows "after_rule nested rules oper r n = Continue (c # s) rules (Some op) n"
proof -
  have "\<not> next_is CHR '')'' (logical_text op @ s')" for s'
    by (cases op) (simp_all add: logical_text_def js_Cons next_is_def)
  moreover have "logical_text op \<noteq> []" by (cases op) (simp_all add: logical_text_def)
  moreover have "skipSpaces (c # s) = c # s" using assms(2) by (simp add: skipSpaces_def)
  ultimately show ?thesis
    using assms(3-5) by (auto simp: after_rule_def assms(1) Let_def parseLogical_text next_is_def)
qed

lemma rule_start:
  assumes "printable_rules (r # rules)"
  shows "\<exists>c s. formatRule formatted r depth = c # s \<and> \<not> isWhitespace c \<and> c \<noteq> 41 \<and> (c = 40 \<longleftrightarrow> isFilterGroup r)"
proof (cases r)
  case (Condition c)
  with assms have "isValidPropertyPath (c_property c)" by (simp add: wf_condition_def)
  from property_path_chars(2,3) [OF this] show ?thesis
    by (cases "c_property c") (auto simp: Condition formatCondition_def Let_def isPropStart_def isWhitespace_def isFilterGroup_def)
qed (simp add: js_Cons isWhitespace_def isFilterGroup_def)

lemma rules_text_start:
  assumes "printable_rules rules" "rules \<noteq> []"
  shows "\<exists>c s. rules_text formatted op depth rules = c # s \<and> \<not> isWhitespace c \<and> c \<noteq> 41 \<and> (c = 40 \<longleftrightarrow> isFilterGroup (hd rules))"
  using assms rule_start [of "hd rules" "tl rules" formatted depth] by (cases rules) (auto simp: rules_text_def)


text \<open>One turn of the parser's loop, on the last rule of a group and on any other.\<close>

lemma parse_rules_turn:
  assumes start: "formatRule formatted r depth = c # s" "\<not> isWhitespace c" "c \<noteq> 41"
    and rule: "parse_rule (formatRule formatted r depth @ t) d n = Inr (r, r1, n1)" "skipSpaces r1 = skipSpaces t"
    and n1: "n1 < MAX_FILTER_RULE_COUNT + 1"
  shows "ends_group nested t \<Longrightarrow>
      parse_rules (formatRule formatted r depth @ t) d nested acc oper n =
        Inr (close_group oper (acc @ [r]), tl (skipSpaces t), Suc n1)"
    and "t = tail_text formatted op depth rules @ rest \<Longrightarrow> rules \<noteq> [] \<Longrightarrow> printable_rules rules \<Longrightarrow>
      oper = None \<or> oper = Some op \<Longrightarrow>
      parse_rules (formatRule formatted r depth @ t) d nested acc oper n =
        parse_rules (rules_text formatted op depth rules @ rest) d nested (acc @ [r]) (Some op) (Suc n1)"
proof -
  have "formatRule formatted r depth @ t \<noteq> []" "\<not> (nested \<and> next_is CHR '')'' (formatRule formatted r depth @ t))"
    using start by (simp_all add: next_is_def)
  note unfold = parse_rules_unfold [OF this, of d acc oper n, unfolded rule res_bind.simps prod.case]
  show "parse_rules (formatRule formatted r depth @ t) d nested acc oper n =
      Inr (close_group oper (acc @ [r]), tl (skipSpaces t), Suc n1)" if "ends_group nested t"
  proof -
    have "ends_group nested r1" using that by (simp add: ends_group_def rule(2))
    with after_rule_last [OF this, of "n1 + 1"] n1 show ?thesis by (simp add: unfold rule(2))
  qed
  show "parse_rules (formatRule formatted r depth @ t) d nested acc oper n =
      parse_rules (rules_text formatted op depth rules @ rest) d nested (acc @ [r]) (Some op) (Suc n1)"
    if t: "t = tail_text formatted op depth rules @ rest" "rules \<noteq> []" "printable_rules rules"
      and op: "oper = None \<or> oper = Some op"
  proof -
    obtain x y where x: "rules_text formatted op depth rules = x # y" "\<not> isWhitespace x" "x \<noteq> 41"
      using rules_text_start [OF t(3,2)] by metis
    have "skipSpaces r1 = logical_text op @ 32 # x # y @ rest"
      using t(2) by (simp add: rule(2) t(1) tail_text_rules skip_separator x(1))
    from after_rule_next [OF this x(2,3) _ op] n1 show ?thesis by (simp add: unfold x(1))
  qed
qed

lemma rule_boundary_tail:
  "rule_boundary rest \<Longrightarrow> rule_boundary (tail_text formatted op depth rules @ rest)"
  by (cases rules) (auto simp: tail_text_def separator_def rule_boundary_def isWhitespace_def)

lemma parse_rule_condition:
  assumes "wf_condition c" "rule_boundary t"
  shows "\<exists>r1. parse_rule (formatRule formatted (Condition c) depth @ t) d n = Inr (Condition c, r1, n) \<and> skipSpaces r1 = skipSpaces t"
proof -
  have "printable_rules [Condition c]" using assms(1) by simp
  from rule_start [OF this, of formatted depth]
  have "\<not> next_is CHR ''('' (formatRule formatted (Condition c) depth @ t)"
    by (auto simp: isFilterGroup_def next_is_def)
  then show ?thesis using parseCondition_print [OF assms] by (auto simp: parse_rule_def)
qed

lemma parse_rule_group:
  assumes "\<And>rest. ends_group True rest \<Longrightarrow> rule_boundary rest \<Longrightarrow>
      parse_rules (rules_text formatted op (Suc depth) rules @ rest) (Suc d) True [] None n =
        Inr ((op, rules), tl (skipSpaces rest), m)"
    and "rules \<noteq> []" "printable_rules rules" "d < MAX_FILTER_DEPTH + 1"
  shows "parse_rule (formatRule formatted (Group op rules) depth @ t) d n = Inr (Group op rules, t, m)"
proof -
  let ?close = "if formatted then 10 # indentation depth else []"
  let ?rest = "?close @ 41 # t"
  have sk: "skipSpaces (41 # t) = 41 # t" by (simp add: skipSpaces_def isWhitespace_def)
  then have skip: "skipSpaces ?rest = 41 # t" by simp
  have "rule_boundary ?rest" by (simp add: rule_boundary_def isWhitespace_def)
  moreover have "ends_group True ?rest" unfolding ends_group_def skip by (simp add: next_is_def)
  ultimately have p: "parse_rules (rules_text formatted op (Suc depth) rules @ ?rest) (Suc d) True [] None n =
      Inr ((op, rules), t, m)" using assms(1) [of ?rest] unfolding skip by simp
  obtain x y where x: "rules_text formatted op (Suc depth) rules = x # y" "\<not> isWhitespace x"
    using rules_text_start [OF assms(3,2)] by metis
  have sx: "skipSpaces (x # z) = x # z" for z using x(2) by (simp add: skipSpaces_def)
  have "\<exists>u. formatRule formatted (Group op rules) depth @ t = 40 # u
      \<and> skipSpaces u = rules_text formatted op (Suc depth) rules @ ?rest"
    using assms(2) x(1) by (cases formatted)
      (simp_all add: js_Cons formatRules_unformatted formatRules_formatted sx)
  then obtain u where u: "formatRule formatted (Group op rules) depth @ t = 40 # u"
      "skipSpaces u = rules_text formatted op (Suc depth) rules @ ?rest" by blast
  then show ?thesis using assms(4) p unfolding u(1) by (simp add: parse_rule_def next_is_def)
qed


lemma parse_rules_text:
  "rules \<noteq> [] \<Longrightarrow> printable_rules rules \<Longrightarrow> d + rules_depth rules \<le> MAX_FILTER_DEPTH + 1 \<Longrightarrow>
   n + rule_count rules \<le> MAX_FILTER_RULE_COUNT + 1 \<Longrightarrow>
   oper = (if acc = [] then None else Some op) \<Longrightarrow> (length (acc @ rules) = 1 \<longrightarrow> op = And) \<Longrightarrow>
   ends_group nested rest \<Longrightarrow> rule_boundary rest \<Longrightarrow>
   parse_rules (rules_text formatted op depth rules @ rest) d nested acc oper n =
     Inr ((op, acc @ rules), tl (skipSpaces rest), n + rule_count rules)"
proof (induction rules arbitrary: acc oper op d n depth nested rest rule: rule_count.induct)
  case 1
  then show ?case by simp
next
  case (2 c rules)
  let ?t = "tail_text formatted op depth rules @ rest"
  obtain x y where x: "formatRule formatted (Condition c) depth = x # y" "\<not> isWhitespace x" "x \<noteq> 41"
    using rule_start [OF "2.prems"(2)] by metis
  have wf: "wf_condition c" using "2.prems"(2) by simp
  obtain r1 where r1: "parse_rule (formatRule formatted (Condition c) depth @ ?t) d n = Inr (Condition c, r1, n)"
      "skipSpaces r1 = skipSpaces ?t"
    using parse_rule_condition [OF wf rule_boundary_tail [OF "2.prems"(8)]] by blast
  note turn = parse_rules_turn [OF x r1]
  show ?case
  proof (cases "rules = []")
    case True
    with turn(1) [of nested acc oper] "2.prems" show ?thesis
      by (auto simp: rules_text_def close_group_def split: if_splits)
  next
    case False
    have "parse_rules (rules_text formatted op depth rules @ rest) d nested (acc @ [Condition c]) (Some op) (Suc n) =
        Inr ((op, (acc @ [Condition c]) @ rules), tl (skipSpaces rest), Suc n + rule_count rules)"
      using False "2.prems" by (intro "2.IH") auto
    with turn(2) [OF _ refl False] False "2.prems" show ?thesis
      by (simp add: rules_text_def)
  qed
next
  case (3 op' rules' rules)
  let ?t = "tail_text formatted op depth rules @ rest"
  obtain x y where x: "formatRule formatted (Group op' rules') depth = x # y" "\<not> isWhitespace x" "x \<noteq> 41"
    using rule_start [OF "3.prems"(2)] by metis
  have "parse_rules (rules_text formatted op' (Suc depth) rules' @ rest) (Suc d) True [] None n =
      Inr ((op', [] @ rules'), tl (skipSpaces rest), n + rule_count rules')"
    if "ends_group True rest" "rule_boundary rest" for rest
    using that "3.prems" by (intro "3.IH"(1)) auto
  then have r1: "parse_rule (formatRule formatted (Group op' rules') depth @ ?t) d n =
      Inr (Group op' rules', ?t, n + rule_count rules')"
    using "3.prems" by (intro parse_rule_group) auto
  note turn = parse_rules_turn [OF x r1 refl]
  show ?case
  proof (cases "rules = []")
    case True
    with turn(1) [of nested acc oper] "3.prems" show ?thesis
      by (auto simp: rules_text_def close_group_def split: if_splits)
  next
    case False
    have "parse_rules (rules_text formatted op depth rules @ rest) d nested (acc @ [Group op' rules']) (Some op)
          (Suc (n + rule_count rules')) =
        Inr ((op, (acc @ [Group op' rules']) @ rules), tl (skipSpaces rest), Suc (n + rule_count rules') + rule_count rules)"
      using False "3.prems" by (intro "3.IH"(2)) auto
    with turn(2) [OF _ refl False] False "3.prems" show ?thesis
      by (simp add: rules_text_def)
  qed
qed

lemma validate_rules_ok:
  "depth + rules_depth rules \<le> MAX_FILTER_DEPTH \<Longrightarrow> n + rule_count rules \<le> MAX_FILTER_RULE_COUNT \<Longrightarrow>
     validate_rules rules depth n = Inr (n + rule_count rules)"
  by (induction rules depth n rule: validate_rules.induct) auto

lemma parse_serialized:
  assumes "wf_filter f"
  shows "parseGroup (serializeFilter f formatted) 1 False 0 = Inr (f, [], rule_count (snd f))"
proof -
  obtain op rules where f: "f = (op, rules)" by (cases f)
  have wf: "rules \<noteq> []" "printable_rules rules" "Suc (rules_depth rules) \<le> MAX_FILTER_DEPTH"
      "rule_count rules \<le> MAX_FILTER_RULE_COUNT" "length rules = 1 \<longrightarrow> op = And"
    using assms by (auto simp: wf_filter_def f)
  obtain x y where x: "rules_text formatted op 0 rules = x # y" "\<not> isWhitespace x"
    using rules_text_start [OF wf(2,1)] by metis
  have sx: "skipSpaces (x # y) = x # y" using x(2) by (simp add: skipSpaces_def)
  have "skipSpaces (serializeFilter f formatted) = rules_text formatted op 0 rules"
    using wf(1) sx x(1) by (cases formatted) (simp_all add: serializeFilter_def formatGroup_def f js_Cons
        formatRules_unformatted formatRules_formatted)
  moreover have "parse_rules (rules_text formatted op 0 rules @ []) 1 False [] None 0 =
      Inr ((op, [] @ rules), tl (skipSpaces []), 0 + rule_count rules)"
    using wf by (intro parse_rules_text) (auto simp: ends_group_def skipSpaces_def rule_boundary_def)
  ultimately show ?thesis by (simp add: parseGroup_def f skipSpaces_def MAX_FILTER_DEPTH_def)
qed


subsection \<open>What the parser accepts\<close>

lemma check_value_count_arity:
  "check_value_count op vs = Inr u \<Longrightarrow> op \<notin> UNARY_OPERATORS \<Longrightarrow> arity_ok op (length vs)"
  by (cases op) (auto simp: check_value_count_def arity_ok_def isBetweenOperator_def isOneOfOperator_def
      SINGLE_VALUE_OPERATORS_def UNARY_OPERATORS_def Suc_le_eq split: if_splits)

lemma parseCondition_wf:
  assumes "parseCondition s = Inr (c, r)"
  shows "wf_condition c"
proof -
  from assms obtain p r1 op r2 vs where p: "parseProperty s = Inr (p, r1)"
      and c: "c = \<lparr>c_property = p, c_operator = Some op, c_values = Some vs\<rparr>"
      and vs: "if op \<in> UNARY_OPERATORS then vs = [] else check_value_count op vs = Inr ()"
    by (fastforce simp: parseCondition_def res_bind_eq_Inr Let_def isUnaryOperator_def split: if_splits)
  have "isValidPropertyPath p" using p by (auto simp: parseProperty_def Let_def split: if_splits)
  moreover have "arity_ok op (length vs)"
    using vs check_value_count_arity [of op vs] by (cases "op \<in> UNARY_OPERATORS") (auto simp: arity_ok_def)
  ultimately show ?thesis by (simp add: wf_condition_def c)
qed

text \<open>
  At the head of the loop a connector has been read exactly when a rule has, and then the text
  goes on with another rule.
\<close>

definition loop_inv :: "bool \<Rightarrow> jsstr \<Rightarrow> filter_rule list \<Rightarrow> filter_logical option \<Rightarrow> bool" where
  "loop_inv nested s rules oper \<longleftrightarrow> printable_rules rules \<and> (oper = None \<longleftrightarrow> rules = [])
     \<and> (rules = [] \<or> (s \<noteq> [] \<and> \<not> (nested \<and> next_is CHR '')'' s)))"

definition parsed_group :: "filter_tree \<Rightarrow> bool" where
  "parsed_group g \<longleftrightarrow> snd g \<noteq> [] \<and> (length (snd g) = 1 \<longrightarrow> fst g = And) \<and> printable_rules (snd g)"

lemma printable_rules_append [simp]: "printable_rules (a @ b) \<longleftrightarrow> printable_rules a \<and> printable_rules b"
  by (induction a rule: printable_rules.induct) auto

lemma after_rule_inv:
  assumes "loop_inv nested s rules oper" "printable_rules [rule]"
  shows "after_rule nested (rules @ [rule]) oper r n = Return g r' n' \<Longrightarrow> parsed_group g"
    and "after_rule nested (rules @ [rule]) oper r n = Continue j rules' oper' n' \<Longrightarrow> loop_inv nested j rules' oper'"
proof -
  have "parsed_group (close_group oper (rules @ [rule]))"
    using assms by (cases oper) (auto simp: loop_inv_def parsed_group_def close_group_def)
  then show "after_rule nested (rules @ [rule]) oper r n = Return g r' n' \<Longrightarrow> parsed_group g"
    by (auto simp: after_rule_def Let_def split: if_splits option.splits)
  show "after_rule nested (rules @ [rule]) oper r n = Continue j rules' oper' n' \<Longrightarrow> loop_inv nested j rules' oper'"
    using assms by (fastforce simp: after_rule_def Let_def loop_inv_def split: if_splits option.splits)
qed

lemma parse_rules_parsed:
  "parse_rules s depth nested rules oper n = Inr (g, r, n') \<Longrightarrow> loop_inv nested s rules oper \<Longrightarrow> parsed_group g"
proof (induction s depth nested rules oper n arbitrary: g r n' rule: parse_rules.induct)
  case (1 s depth nested rules oper n)
  have stop: "s \<noteq> []" "\<not> (nested \<and> next_is CHR '')'' s)"
    using "1.prems" by (auto simp: loop_inv_def parse_rules.simps [of s] split: if_splits)
  note IH = "1.IH" [OF stop(2,1)]
  from "1.prems"(1) obtain rule r1 n1 where rule: "parse_rule s depth n = Inr (rule, r1, n1)"
    and snd: "(case after_rule nested (rules @ [rule]) oper r1 (n1 + 1) of
               Throw e \<Rightarrow> Inl e
             | Return g r' n' \<Rightarrow> Inr (g, r', n')
             | Continue j rules' oper' n' \<Rightarrow> parse_rules j depth nested rules' oper' n') = Inr (g, r, n')"
    by (auto simp: parse_rules_unfold [OF stop] res_bind_eq_Inr)
  have "printable_rules [rule]"
  proof (cases "next_is CHR ''('' s")
    case True
    with rule obtain g1 where g1: "parse_rules (skipSpaces (tl s)) (depth + 1) True [] None n = Inr (g1, r1, n1)"
      and d: "\<not> depth + 1 > MAX_FILTER_DEPTH + 1" and r: "rule = Group (fst g1) (snd g1)"
      by (auto simp: parse_rule_def res_bind_eq_Inr split: if_splits)
    have "parsed_group g1" by (rule IH(1) [OF True d g1]) (simp add: loop_inv_def)
    then show ?thesis by (simp add: r parsed_group_def)
  next
    case False
    with rule show ?thesis by (auto simp: parse_rule_def res_bind_eq_Inr dest: parseCondition_wf)
  qed
  note inv = after_rule_inv [OF "1.prems"(2) this, of r1 "n1 + 1"]
  show ?case
  proof (cases "after_rule nested (rules @ [rule]) oper r1 (n1 + 1)")
    case (Continue j rules' oper' n2)
    with IH(2) [OF rule [unfolded parse_rule_def] refl refl Continue] snd inv(2) [OF Continue] show ?thesis by simp
  qed (use snd inv(1) in auto)
qed

lemma validate_rules_limits:
  "validate_rules rules depth n = Inr m \<Longrightarrow> depth \<le> MAX_FILTER_DEPTH \<Longrightarrow> n \<le> MAX_FILTER_RULE_COUNT \<Longrightarrow>
     m = n + rule_count rules \<and> m \<le> MAX_FILTER_RULE_COUNT \<and> depth + rules_depth rules \<le> MAX_FILTER_DEPTH"
proof (induction rules arbitrary: depth n m rule: rule_count.induct)
  case (2 c rules)
  from "2.prems" "2.IH" [of depth "n + 1" m] show ?case by (auto split: if_splits)
next
  case (3 op rules' rules)
  from "3.prems" obtain m1 where "validate_rules rules' (depth + 1) (n + 1) = Inr m1" "validate_rules rules depth m1 = Inr m"
      "n + 1 \<le> MAX_FILTER_RULE_COUNT" "depth + 1 \<le> MAX_FILTER_DEPTH"
    by (auto simp: res_bind_eq_Inr split: if_splits)
  with "3.IH"(1) [of "depth + 1" "n + 1" m1] "3.IH"(2) [of depth m1 m] "3.prems" show ?case by auto
qed auto

lemma unwrap_root_parsed: "parsed_group g \<Longrightarrow> parsed_group (unwrap_root g)"
  by (auto simp: parsed_group_def unwrap_root_def split: list.splits filter_rule.splits)

subsection \<open>The properties\<close>

lemma unwrap_root_limits:
  assumes "wf_filter f"
  shows "validateGroupLimits (unwrap_root f) 1 0 = Inr (rule_count (snd (unwrap_root f)))"
proof -
  have "Suc (rules_depth (snd (unwrap_root f))) \<le> MAX_FILTER_DEPTH" "rule_count (snd (unwrap_root f)) \<le> MAX_FILTER_RULE_COUNT"
    using assms by (auto simp: wf_filter_def unwrap_root_def split: list.splits filter_rule.splits)
  then show ?thesis by (simp add: validateGroupLimits_def validate_rules_ok MAX_FILTER_DEPTH_def)
qed

text \<open>
  C1: printing a well-formed filter, on one line or one rule per line, and parsing the text gives the
  filter back when its root is not a single group; texts, numbers, booleans and value lists, quotes,
  control characters and nested groups included. Of a root whose only rule is a group the parser
  returns that group, which has the same conditions.
\<close>

theorem parseFilter_serializeFilter:
  assumes "wf_filter f"
  shows "parseFilter (serializeFilter f formatted) = Inr (unwrap_root f)
    \<and> (\<not> single_group f \<longrightarrow> unwrap_root f = f) \<and> getFilterConditions (unwrap_root f) = getFilterConditions f"
proof -
  have "\<not> single_group f \<longrightarrow> unwrap_root f = f"
    by (auto simp: single_group_def unwrap_root_def split: list.splits filter_rule.splits)
  moreover have "getFilterConditions (unwrap_root f) = getFilterConditions f"
    by (cases f) (auto simp: unwrap_root_def split: list.splits filter_rule.splits)
  ultimately show ?thesis
    unfolding parseFilter_def parse_serialized [OF assms] res_bind.simps
    by (simp add: skipSpaces_def unwrap_root_limits [OF assms, simplified] Let_def)
qed

text \<open>A filter with a quoted text, a value list and a nested group.\<close>

definition example_filter :: filter_tree where
  "example_filter =
    (Or, [Condition \<lparr>c_property = js ''user.name'', c_operator = Some OpIs, c_values = Some [js ''O\"Neil'']\<rparr>,
          Group And
            [Condition \<lparr>c_property = js ''plan'', c_operator = Some OpOneOf, c_values = Some [js ''true'', js ''a,b'', []]\<rparr>,
             Condition \<lparr>c_property = js ''active'', c_operator = Some OpIsTrue, c_values = Some []\<rparr>]])"

lemma example_filter_wf: "wf_filter example_filter" "\<not> single_group example_filter"
  by (simp_all add: example_filter_def wf_filter_def single_group_def wf_condition_def isValidPropertyPath_def
      js_Cons is_property_name_def is_word_char_def is_letter_def is_digit_def MAX_FILTER_DEPTH_def
      MAX_FILTER_RULE_COUNT_def arity_ok_def UNARY_OPERATORS_def isBetweenOperator_def isOneOfOperator_def)

theorem parseFilter_serializeFilter_witness:
  "parseFilter (serializeFilter example_filter True) = Inr example_filter"
  using parseFilter_serializeFilter [OF example_filter_wf(1), of True] example_filter_wf(2) by simp

text \<open>
  The parser itself returns such a root: of \<open>((a is null))\<close> it returns a group in a group, and of the
  text printed for it the inner group.
\<close>

definition bracketed_filter :: filter_tree where
  "bracketed_filter = (And, [Group And [Condition \<lparr>c_property = js ''a'', c_operator = Some OpIsNull, c_values = Some []\<rparr>]])"

lemma brackets_not_read_back:
  "parseFilter (js ''((a is null))'') = Inr bracketed_filter"
  "serializeFilter bracketed_filter False = js ''(a is null)''"
  "parseFilter (js ''(a is null)'') = Inr (unwrap_root bracketed_filter)"
  by code_simp+

text \<open>
  C24: every filter that \<open>parseFilter\<close> returns is well formed: at most 4 levels and 100 rules, no
  empty group, valid property paths, complete conditions with the number of values their operator
  takes, and \<open>and\<close> on every group of one rule.
\<close>

theorem parseFilter_wf: "parseFilter s = Inr f \<Longrightarrow> wf_filter f"
proof -
  assume p: "parseFilter s = Inr f"
  then obtain g r n m where g: "parseGroup s 1 False 0 = Inr (g, r, n)" and f: "f = unwrap_root g"
      and v: "validateGroupLimits f 1 0 = Inr m"
    by (auto simp: parseFilter_def res_bind_eq_Inr Let_def split: if_splits)
  from g have "parse_rules (skipSpaces s) 1 False [] None 0 = Inr (g, r, n)"
    by (simp add: parseGroup_def split: if_splits)
  then have "parsed_group f"
    unfolding f by (intro unwrap_root_parsed parse_rules_parsed) (auto simp: loop_inv_def)
  moreover have "Suc (rules_depth (snd f)) \<le> MAX_FILTER_DEPTH \<and> rule_count (snd f) \<le> MAX_FILTER_RULE_COUNT"
    using v validate_rules_limits [of "snd f" 1 0 m]
    by (auto simp: validateGroupLimits_def MAX_FILTER_RULE_COUNT_def split: if_splits)
  ultimately show ?thesis by (simp add: wf_filter_def parsed_group_def)
qed

theorem parseFilter_wf_witness:
  "wf_filter (Or, [Condition \<lparr>c_property = js ''a'', c_operator = Some OpIs, c_values = Some [js ''x'']\<rparr>,
     Group And [Condition \<lparr>c_property = js ''b'', c_operator = Some OpIsNull, c_values = Some []\<rparr>]])"
  by (rule parseFilter_wf [of "js ''a is \"x\" or (b is null)''"]) code_simp

end
