(* ===== verification/Schema_Flatten.thy ===== *)
theory Schema_Flatten
  imports Api_Types
begin

section \<open>Flattened schemas (lib/core/pipeline.ts, SchemaEdit/SchemaEdit.helpers.ts)\<close>

text \<open>
  A schema is a tree of properties; the pages of the admin work on the flat map from the dotted
  path of every property to its entry. \<open>flattenSchema\<close> (for pipelines) and \<open>transformSchema\<close> (for the
  schema editor) are the same walk with different entries, so the walk is written once, over the
  function that makes an entry from a property, its indentation and its root. \<open>structuredClone\<close> and
  the spreads copy immutable values here. The code unit of the period is 46.
\<close>

subsection \<open>The walk\<close>

definition sub_properties :: "property \<Rightarrow> property list" where
  "sub_properties p = (case p_type p of ObjectType ps \<Rightarrow> ps | _ \<Rightarrow> [])"

lemma sub_properties_not_object: "kind_of (p_type p) \<noteq> KObject \<Longrightarrow> sub_properties p = []"
  by (auto simp: sub_properties_def split: schema_type.splits)

lemma sub_properties_object: "kind_of (p_type p) = KObject \<longleftrightarrow> p_type p = ObjectType (sub_properties p)"
  by (auto simp: sub_properties_def kind_of_object)

lemma size_sub_properties [termination_simp]: "size_list size (sub_properties p) < Suc (size p + n)"
  by (cases p; cases "p_type p") (simp_all add: sub_properties_def)

lemma size_sub_properties_le [simp]: "size_list size (sub_properties p) \<le> size p + n"
  by (cases p; cases "p_type p") (simp_all add: sub_properties_def)

lemma size_sub_properties_less [simp]: "size_list size (sub_properties p) < size p"
  by (cases p; cases "p_type p") (simp_all add: sub_properties_def)

text \<open>\<open>name.substring(0, name.indexOf('.'))\<close>\<close>

definition root_of :: "jsstr \<Rightarrow> jsstr" where
  "root_of name = takeWhile (\<lambda>c. c \<noteq> 46) name"

function flattenSubProperties :: "(property \<Rightarrow> nat \<Rightarrow> jsstr \<Rightarrow> 'v) \<Rightarrow> jsstr \<Rightarrow> nat \<Rightarrow> property list \<Rightarrow> 'v obj \<Rightarrow> 'v obj" where
  "flattenSubProperties entry parentName parentIndentation [] flattened = flattened"
| "flattenSubProperties entry parentName parentIndentation (p # ps) flattened =
     (let indentation = parentIndentation + 1;
          name = parentName @ js ''.'' @ p_name p;
          flattened1 = obj_set flattened name (entry p indentation (root_of name));
          flattened2 =
            (if kind_of (p_type p) = KObject
             then obj_spread flattened1 (flattenSubProperties entry name indentation (sub_properties p) [])
             else flattened1)
      in flattenSubProperties entry parentName parentIndentation ps flattened2)"
  by pat_completeness auto
termination
  by (relation "measure (\<lambda>(_, _, _, ps, _). size_list size ps)") (auto simp: less_Suc_eq_le)

fun flatten_top :: "(property \<Rightarrow> nat \<Rightarrow> jsstr \<Rightarrow> 'v) \<Rightarrow> property list \<Rightarrow> 'v obj \<Rightarrow> 'v obj" where
  "flatten_top entry [] flattened = flattened"
| "flatten_top entry (p # ps) flattened =
     (let flattened1 = obj_set flattened (p_name p) (entry p 0 (p_name p));
          flattened2 =
            (if kind_of (p_type p) = KObject
             then obj_spread flattened1 (flattenSubProperties entry (p_name p) 0 (sub_properties p) [])
             else flattened1)
      in flatten_top entry ps flattened2)"

subsection \<open>What the walk computes\<close>

text \<open>
  The property at a path, a list of names; and the well-formed schemas: the names of sibling
  properties differ and contain no period.
\<close>

fun lookup_path :: "property list \<Rightarrow> jsstr list \<Rightarrow> property option" where
  "lookup_path ps [] = None"
| "lookup_path [] (n # ns) = None"
| "lookup_path (p # ps) (n # ns) =
     (if p_name p = n then (if ns = [] then Some p else lookup_path (sub_properties p) ns)
      else lookup_path ps (n # ns))"

function wf_properties :: "property list \<Rightarrow> bool" where
  "wf_properties [] = True"
| "wf_properties (p # ps) =
     (46 \<notin> set (p_name p) \<and> p_name p \<notin> p_name ` set ps
      \<and> wf_properties (sub_properties p) \<and> wf_properties ps)"
  by pat_completeness auto
termination
  by (relation "measure (size_list size)") (auto simp: less_Suc_eq_le)

text \<open>The entries in the order of the walk: a property, then its sub-properties, then its next sibling.\<close>

function flat_entries :: "(property \<Rightarrow> nat \<Rightarrow> jsstr \<Rightarrow> 'v) \<Rightarrow> jsstr list \<Rightarrow> property list \<Rightarrow> 'v obj" where
  "flat_entries entry segs [] = []"
| "flat_entries entry segs (p # ps) =
     (join_with [46] (segs @ [p_name p]), entry p (length segs) (hd (segs @ [p_name p])))
       # flat_entries entry (segs @ [p_name p]) (sub_properties p) @ flat_entries entry segs ps"
  by pat_completeness auto
termination
  by (relation "measure (\<lambda>(_, _, ps). size_list size ps)") (auto simp: less_Suc_eq_le)

definition no_dots :: "jsstr list \<Rightarrow> bool" where
  "no_dots segs \<longleftrightarrow> (\<forall>w \<in> set segs. 46 \<notin> set w)"

abbreviation path_of :: "jsstr list \<Rightarrow> jsstr" where
  "path_of segs \<equiv> join_with [46] segs"

abbreviation segments :: "jsstr \<Rightarrow> jsstr list" where
  "segments path \<equiv> split_on (46) path"

lemma no_dots_simps [simp]:
  "no_dots []" "no_dots (w # ws) \<longleftrightarrow> 46 \<notin> set w \<and> no_dots ws"
  "no_dots (a @ b) \<longleftrightarrow> no_dots a \<and> no_dots b"
  by (auto simp: no_dots_def)

lemma segments_path_of: "no_dots segs \<Longrightarrow> segs \<noteq> [] \<Longrightarrow> segments (path_of segs) = segs"
  by (simp add: no_dots_def split_join)

lemma path_of_inj: "no_dots a \<Longrightarrow> no_dots b \<Longrightarrow> a \<noteq> [] \<Longrightarrow> b \<noteq> [] \<Longrightarrow> path_of a = path_of b \<longleftrightarrow> a = b"
  by (metis segments_path_of)

lemma no_dots_segments [simp]: "no_dots (segments path)"
  by (auto simp: no_dots_def dest: split_on_pieces)

lemma path_of_snoc: "segs \<noteq> [] \<Longrightarrow> path_of (segs @ [w]) = path_of segs @ 46 # w"
  by (simp add: join_with_snoc)

lemma root_of_path:
  assumes "no_dots segs" "segs \<noteq> []"
  shows "root_of (path_of segs) = hd segs"
proof (cases segs)
  case (Cons w ws)
  with assms have "takeWhile (\<lambda>c. c \<noteq> 46) w = w" "\<forall>c \<in> set w. c \<noteq> 46"
    by (auto simp: takeWhile_eq_all_conv)
  with Cons show ?thesis
    by (cases "ws = []") (simp_all add: root_of_def join_with_Cons takeWhile_append)
qed (use assms in simp)

lemma lookup_path_names: "lookup_path ps ns = Some p \<Longrightarrow> wf_properties ps \<Longrightarrow> no_dots ns \<and> ns \<noteq> []"
  by (induction ps ns rule: lookup_path.induct) (auto split: if_splits)

lemma lookup_path_hd: "lookup_path ps ns \<noteq> None \<Longrightarrow> hd ns \<in> p_name ` set ps"
  by (induction ps ns rule: lookup_path.induct) (auto split: if_splits)

lemma lookup_path_Cons_cases:
  assumes "wf_properties (p # ps)"
  shows "lookup_path (p # ps) ns \<noteq> None \<longleftrightarrow>
      ns = [p_name p] \<or> (\<exists>ms. ns = p_name p # ms \<and> lookup_path (sub_properties p) ms \<noteq> None) \<or> lookup_path ps ns \<noteq> None"
proof (cases ns)
  case (Cons m ms)
  have "lookup_path ps (p_name p # ms') = None" for ms'
    using lookup_path_hd [of ps "p_name p # ms'"] assms by auto
  with Cons show ?thesis by (cases "ms = []") auto
qed simp

lemma image_three_cases:
  assumes "\<And>x. P x \<longleftrightarrow> x = a \<or> (\<exists>y. x = g y \<and> Q y) \<or> R x"
  shows "{f x | x. P x} = {f a} \<union> {f (g y) | y. Q y} \<union> {f x | x. R x}"
  using assms by auto

text \<open>The keys of the entries are the paths of the properties.\<close>

lemma flat_entries_keys:
  "wf_properties ps \<Longrightarrow> set (obj_keys (flat_entries entry segs ps)) =
     {path_of (segs @ ns) | ns. lookup_path ps ns \<noteq> None}"
proof (induction entry segs ps rule: flat_entries.induct)
  case (1 entry segs)
  have "lookup_path [] ns = None" for ns by (cases ns) simp_all
  then show ?case by simp
next
  case (2 entry segs p ps)
  have eq: "{path_of (segs @ ns) | ns. lookup_path (p # ps) ns \<noteq> None} =
      {path_of (segs @ [p_name p])}
      \<union> {path_of ((segs @ [p_name p]) @ ms) | ms. lookup_path (sub_properties p) ms \<noteq> None}
      \<union> {path_of (segs @ ns) | ns. lookup_path ps ns \<noteq> None}"
    using image_three_cases [OF lookup_path_Cons_cases [OF "2.prems"], of "\<lambda>ns. path_of (segs @ ns)"]
    by (simp only: append.simps append_assoc)
  have wf: "wf_properties (sub_properties p)" "wf_properties ps" using "2.prems" by simp_all
  have "set (obj_keys (flat_entries entry segs (p # ps))) =
      {path_of (segs @ [p_name p])}
      \<union> set (obj_keys (flat_entries entry (segs @ [p_name p]) (sub_properties p)))
      \<union> set (obj_keys (flat_entries entry segs ps))"
    by simp
  then show ?case unfolding eq "2.IH"(1) [OF wf(1)] "2.IH"(2) [OF wf(2)] .
qed

lemma flat_entries_keysD:
  assumes "k \<in> set (obj_keys (flat_entries entry segs ps))" "wf_properties ps"
  shows "\<exists>ns. k = path_of (segs @ ns) \<and> lookup_path ps ns \<noteq> None \<and> no_dots ns \<and> ns \<noteq> [] \<and> hd ns \<in> p_name ` set ps"
proof -
  from assms(1) obtain ns where ns: "k = path_of (segs @ ns)" "lookup_path ps ns \<noteq> None"
    by (auto simp: flat_entries_keys [OF assms(2)])
  moreover obtain p where "lookup_path ps ns = Some p" using ns(2) by blast
  ultimately show ?thesis using lookup_path_names [OF _ assms(2)] lookup_path_hd by blast
qed


lemma flat_entries_keys_form:
  assumes "no_dots segs" "wf_properties ps" "no_dots ms" "ms \<noteq> []"
  shows "path_of (segs @ ms) \<in> set (obj_keys (flat_entries entry segs ps)) \<longleftrightarrow> lookup_path ps ms \<noteq> None"
proof
  assume "path_of (segs @ ms) \<in> set (obj_keys (flat_entries entry segs ps))"
  with flat_entries_keysD [OF this assms(2)] obtain ns where
    "path_of (segs @ ms) = path_of (segs @ ns)" "lookup_path ps ns \<noteq> None" "no_dots ns" "ns \<noteq> []" by blast
  then show "lookup_path ps ms \<noteq> None"
    using path_of_inj [of "segs @ ms" "segs @ ns"] assms by simp
next
  assume "lookup_path ps ms \<noteq> None"
  then show "path_of (segs @ ms) \<in> set (obj_keys (flat_entries entry segs ps))"
    by (auto simp: flat_entries_keys [OF assms(2)])
qed

text \<open>Reading the entries at a path is looking the path up in the tree.\<close>

definition path_entry :: "(property \<Rightarrow> nat \<Rightarrow> jsstr \<Rightarrow> 'v) \<Rightarrow> jsstr list \<Rightarrow> jsstr list \<Rightarrow> property \<Rightarrow> 'v" where
  "path_entry entry segs ns p = entry p (length segs + length ns - 1) (hd (segs @ ns))"

lemma obj_get_flat_entries:
  "wf_properties ps \<Longrightarrow> no_dots segs \<Longrightarrow> no_dots ns \<Longrightarrow> ns \<noteq> [] \<Longrightarrow>
     obj_get (flat_entries entry segs ps) (path_of (segs @ ns)) =
       map_option (path_entry entry segs ns) (lookup_path ps ns)"
proof (induction entry segs ps arbitrary: ns rule: flat_entries.induct)
  case (1 entry segs)
  then show ?case by (cases ns) simp_all
next
  case (2 entry segs p ps)
  obtain n ms where ns: "ns = n # ms" using "2.prems" by (cases ns) auto
  have wf: "wf_properties (sub_properties p)" "wf_properties ps" "46 \<notin> set (p_name p)"
    using "2.prems" by simp_all
  have eq: "path_of (segs @ ns) = path_of (segs @ [p_name p]) \<longleftrightarrow> ns = [p_name p]"
    using "2.prems" by (subst path_of_inj) auto
  let ?sub = "flat_entries entry (segs @ [p_name p]) (sub_properties p)"
  have sub: "obj_get ?sub (path_of (segs @ ns)) =
      (if n = p_name p \<and> ms \<noteq> [] then map_option (path_entry entry (segs @ [p_name p]) ms) (lookup_path (sub_properties p) ms) else None)"
  proof (cases "n = p_name p \<and> ms \<noteq> []")
    case True
    with "2.IH"(1) [OF wf(1), of ms] "2.prems" show ?thesis by (simp add: ns)
  next
    case False
    have "path_of (segs @ ns) \<notin> set (obj_keys ?sub)"
    proof
      assume "path_of (segs @ ns) \<in> set (obj_keys ?sub)"
      from flat_entries_keysD [OF this wf(1)] obtain ks where
        ks: "path_of (segs @ ns) = path_of ((segs @ [p_name p]) @ ks)" "no_dots ks" "ks \<noteq> []" by blast
      then have "segs @ ns = (segs @ [p_name p]) @ ks"
        using "2.prems" by (subst (asm) path_of_inj) auto
      with False ks(3) show False by (simp add: ns)
    qed
    with False show ?thesis by (simp add: in_obj_keys)
  qed
  have rest: "obj_get (flat_entries entry segs ps) (path_of (segs @ ns)) = map_option (path_entry entry segs ns) (lookup_path ps ns)"
    using "2.IH"(2) [OF wf(2)] "2.prems" by simp
  have none: "lookup_path ps ns = None" if "n = p_name p"
    using lookup_path_hd [of ps ns] "2.prems" that by (auto simp: ns)
  show ?case
    using eq sub rest none
    by (auto simp: obj_get_append ns path_entry_def [abs_def] split: option.splits)
qed


lemma flat_entries_disjoint:
  fixes entry :: "property \<Rightarrow> nat \<Rightarrow> jsstr \<Rightarrow> 'v"
  assumes "wf_properties (p # ps)" "no_dots segs"
  defines "sub \<equiv> set (obj_keys (flat_entries entry (segs @ [p_name p]) (sub_properties p)))"
    and "rest \<equiv> set (obj_keys (flat_entries entry segs ps))"
  shows "path_of (segs @ [p_name p]) \<notin> sub" and "path_of (segs @ [p_name p]) \<notin> rest" and "sub \<inter> rest = {}"
proof -
  have wf: "wf_properties (sub_properties p)" "wf_properties ps" "46 \<notin> set (p_name p)" "p_name p \<notin> p_name ` set ps"
    using assms(1) by simp_all
  have sub: "\<exists>ms. k = path_of (segs @ p_name p # ms) \<and> no_dots ms \<and> ms \<noteq> []" if "k \<in> sub" for k
    using flat_entries_keysD [OF that [unfolded sub_def] wf(1)] by force
  have rest: "\<exists>n ms. k = path_of (segs @ n # ms) \<and> no_dots (n # ms) \<and> n \<noteq> p_name p" if "k \<in> rest" for k
  proof -
    from flat_entries_keysD [OF that [unfolded rest_def] wf(2)] obtain ns where
      "k = path_of (segs @ ns)" "no_dots ns" "ns \<noteq> []" "hd ns \<in> p_name ` set ps" by blast
    moreover from \<open>ns \<noteq> []\<close> obtain n ms where "ns = n # ms" by (cases ns) auto
    ultimately show ?thesis using wf(4) by (intro exI [of _ n] exI [of _ ms]) (metis list.sel(1))
  qed
  have inj: "path_of (segs @ a) = path_of (segs @ b) \<longleftrightarrow> a = b" if "no_dots a" "no_dots b" "a \<noteq> []" "b \<noteq> []" for a b
    using that assms(2) by (subst path_of_inj) auto
  show "path_of (segs @ [p_name p]) \<notin> sub" using sub inj wf(3) by fastforce
  show "path_of (segs @ [p_name p]) \<notin> rest" using rest inj wf(3) by fastforce
  show "sub \<inter> rest = {}"
  proof (rule ccontr)
    assume "sub \<inter> rest \<noteq> {}"
    then obtain k where "k \<in> sub" "k \<in> rest" by blast
    with sub rest obtain a n b where "path_of (segs @ p_name p # a) = path_of (segs @ n # b)"
      "no_dots a" "no_dots (n # b)" "n \<noteq> p_name p" by metis
    with inj [of "p_name p # a" "n # b"] wf(3) show False by simp
  qed
qed

lemma distinct_flat_entries:
  "wf_properties ps \<Longrightarrow> no_dots segs \<Longrightarrow> distinct (obj_keys (flat_entries entry segs ps))"
proof (induction entry segs ps rule: flat_entries.induct)
  case (2 entry segs p ps)
  with flat_entries_disjoint [OF "2.prems", of entry] show ?case by simp
qed simp

lemma flattenSubProperties_entries:
  "wf_properties ps \<Longrightarrow> no_dots segs \<Longrightarrow> segs \<noteq> [] \<Longrightarrow>
   set (obj_keys flattened) \<inter> set (obj_keys (flat_entries entry segs ps)) = {} \<Longrightarrow>
   flattenSubProperties entry (path_of segs) (length segs - 1) ps flattened = flattened @ flat_entries entry segs ps"
proof (induction entry segs ps arbitrary: flattened rule: flat_entries.induct)
  case (2 entry segs p ps)
  let ?segs = "segs @ [p_name p]"
  let ?name = "path_of segs @ js ''.'' @ p_name p"
  let ?sub = "flat_entries entry ?segs (sub_properties p)"
  let ?f1 = "flattened @ [(?name, entry p (length segs) (hd ?segs))]"
  have wf: "wf_properties (sub_properties p)" "wf_properties ps" "no_dots ?segs" using "2.prems" by simp_all
  have name: "?name = path_of ?segs" using path_of_snoc [OF "2.prems"(3), of "p_name p"] by (simp add: js_Cons)
  have root: "root_of ?name = hd ?segs" unfolding name using wf by (intro root_of_path) simp_all
  have ind: "length segs - 1 + 1 = length segs" using "2.prems"(3) by (cases segs) simp_all
  note dis = flat_entries_disjoint [OF "2.prems"(1,2), of entry]
  have set: "obj_set flattened ?name (entry p (length segs - 1 + 1) (root_of ?name)) = ?f1"
    using "2.prems"(4) unfolding root ind unfolding name by (intro obj_set_new) simp
  have sub: "flattenSubProperties entry ?name (length segs) (sub_properties p) [] = ?sub"
    unfolding name using "2.IH"(1) [OF wf(1,3), of "[]"] by simp
  have spread: "obj_spread ?f1 ?sub = ?f1 @ ?sub"
    unfolding name using "2.prems"(4) dis(1) by (intro obj_spread_fresh distinct_flat_entries wf) auto
  have rest: "flattenSubProperties entry (path_of segs) (length segs - 1) ps (?f1 @ ?sub) =
      (?f1 @ ?sub) @ flat_entries entry segs ps"
    unfolding name using "2.prems"(2-4) dis(2,3) wf(2) by (intro "2.IH"(2)) auto
  show ?case
  proof (cases "kind_of (p_type p) = KObject")
    case True
    with rest show ?thesis
      unfolding flattenSubProperties.simps Let_def set unfolding ind sub spread by (simp add: name [simplified])
  next
    case False
    then have "?sub = []" using sub_properties_not_object [OF False] by simp
    with False rest show ?thesis unfolding flattenSubProperties.simps Let_def set by (simp add: name [simplified])
  qed
qed simp

lemma flatten_top_entries:
  "wf_properties ps \<Longrightarrow> set (obj_keys flattened) \<inter> set (obj_keys (flat_entries entry [] ps)) = {} \<Longrightarrow>
     flatten_top entry ps flattened = flattened @ flat_entries entry [] ps"
proof (induction ps arbitrary: flattened)
  case (Cons p ps)
  let ?sub = "flat_entries entry [p_name p] (sub_properties p)"
  let ?f1 = "flattened @ [(p_name p, entry p 0 (p_name p))]"
  have wf: "wf_properties (sub_properties p)" "wf_properties ps" "no_dots [p_name p]" using Cons.prems by simp_all
  note dis = flat_entries_disjoint [OF Cons.prems(1), of "[]" entry, simplified]
  have set: "obj_set flattened (p_name p) (entry p 0 (p_name p)) = ?f1"
    using Cons.prems(2) by (intro obj_set_new) simp
  have sub: "flattenSubProperties entry (p_name p) 0 (sub_properties p) [] = ?sub"
    using flattenSubProperties_entries [OF wf(1,3), of "[]" entry] by simp
  have spread: "obj_spread ?f1 ?sub = ?f1 @ ?sub"
    using Cons.prems(2) dis(1) by (intro obj_spread_fresh distinct_flat_entries wf) auto
  have rest: "flatten_top entry ps (?f1 @ ?sub) = (?f1 @ ?sub) @ flat_entries entry [] ps"
    using Cons.prems dis(2,3) wf(2) by (intro Cons.IH) auto
  have "?sub = []" if "kind_of (p_type p) \<noteq> KObject" using sub_properties_not_object [OF that] by simp
  with set sub spread rest show ?case
    by (cases "kind_of (p_type p) = KObject") (simp_all add: Let_def)
qed simp


subsection \<open>flattenSchema\<close>

record transformed_property =
  tp_value :: jsstr
  tp_createRequired :: bool
  tp_updateRequired :: bool
  tp_readOptional :: bool
  tp_type :: type_kind
  tp_size :: "nat option"
  tp_full :: property
  tp_indentation :: nat
  tp_root :: jsstr
  tp_error :: jsstr
  tp_disabled :: bool

type_synonym flat_schema = "transformed_property obj"

definition isRecursiveType :: "schema_type \<Rightarrow> bool" where
  "isRecursiveType t =
     (case t of
        ObjectType _ \<Rightarrow> True
      | ArrayType _ e \<Rightarrow> kind_of e = KObject
      | MapType e \<Rightarrow> kind_of e = KObject
      | _ \<Rightarrow> False)"

text \<open>\<open>flattenProperty\<close>, with the \<open>indentation\<close> and the \<open>root\<close> its callers assign to its result.\<close>

definition flattenProperty :: "bool \<Rightarrow> property \<Rightarrow> nat \<Rightarrow> jsstr \<Rightarrow> transformed_property" where
  "flattenProperty insertPrefilled p indentation r =
     \<lparr>tp_value = (if insertPrefilled \<and> p_prefilled p \<noteq> [] then p_prefilled p else []),
      tp_createRequired = p_createRequired p,
      tp_updateRequired = p_updateRequired p,
      tp_readOptional = p_readOptional p,
      tp_type = kind_of (p_type p),
      tp_size = (case p_type p of IntType t \<Rightarrow> Some (it_bitSize t) | FloatType t \<Rightarrow> Some (ft_bitSize t) | _ \<Rightarrow> None),
      tp_full = p,
      tp_indentation = indentation,
      tp_root = r,
      tp_error = [],
      tp_disabled = False\<rparr>"

definition schema_properties :: "schema_type \<Rightarrow> property list" where
  "schema_properties t =
     (case t of
        ObjectType ps \<Rightarrow> ps
      | ArrayType _ (ObjectType ps) \<Rightarrow> ps
      | MapType (ObjectType ps) \<Rightarrow> ps
      | _ \<Rightarrow> [])"

definition flattenSchema :: "schema_type option \<Rightarrow> bool \<Rightarrow> flat_schema option" where
  "flattenSchema typ insertPrefilled =
     (case typ of
        None \<Rightarrow> None
      | Some t \<Rightarrow>
          if \<not> isRecursiveType t then None
          else Some (flatten_top (flattenProperty insertPrefilled) (schema_properties t) []))"

definition flatten_object :: "property list \<Rightarrow> flat_schema" where
  "flatten_object ps = flatten_top (flattenProperty False) ps []"

lemma flattenSchema_object: "flattenSchema (Some (ObjectType ps)) False = Some (flatten_object ps)"
  by (simp add: flattenSchema_def isRecursiveType_def schema_properties_def flatten_object_def)

lemma flattenSchema_entries:
  "wf_properties ps \<Longrightarrow> flattenSchema (Some (ObjectType ps)) b = Some (flat_entries (flattenProperty b) [] ps)"
  by (simp add: flattenSchema_def isRecursiveType_def schema_properties_def flatten_top_entries)

lemma flatten_object_entries: "wf_properties ps \<Longrightarrow> flatten_object ps = flat_entries (flattenProperty False) [] ps"
  by (simp add: flatten_object_def flatten_top_entries)

lemma lookup_segments_not_key:
  assumes "wf_properties ps" "lookup_path ps (segments path) = None"
  shows "path \<notin> set (obj_keys (flat_entries entry [] ps))"
proof
  assume "path \<in> set (obj_keys (flat_entries entry [] ps))"
  from flat_entries_keysD [OF this assms(1)] obtain ns where
    "path = path_of ns" "lookup_path ps ns \<noteq> None" "no_dots ns" "ns \<noteq> []" by auto
  with assms(2) show False by (simp add: segments_path_of)
qed

text \<open>
  C29: reading a flattened schema at a dotted path is looking the path up in the schema, name by
  name; the entry holds the property, its depth and its first-level ancestor. No two properties
  share a key.
\<close>

theorem flattenSchema_lookup:
  assumes "wf_properties ps" and "flattenSchema (Some (ObjectType ps)) b = Some flat"
  shows "distinct (obj_keys flat) \<and>
    obj_get flat path =
      map_option (\<lambda>p. flattenProperty b p (length (segments path) - 1) (hd (segments path)))
        (lookup_path ps (segments path))"
proof -
  have flat: "flat = flat_entries (flattenProperty b) [] ps"
    using assms flattenSchema_entries by simp
  have "distinct (obj_keys flat)" unfolding flat by (rule distinct_flat_entries) (use assms in simp_all)
  moreover have "obj_get flat (path_of ([] @ segments path)) = map_option (path_entry (flattenProperty b) [] (segments path)) (lookup_path ps (segments path))"
    unfolding flat by (rule obj_get_flat_entries) (use assms in simp_all)
  ultimately show ?thesis by (simp add: path_entry_def [abs_def])
qed


definition plain_property :: "jsstr \<Rightarrow> schema_type \<Rightarrow> property" where
  "plain_property n t = Property n [] t False False False False [] []"

definition string_kind :: schema_type where
  "string_kind = StringType \<lparr>st_semantics = None, st_format = None, st_maxBytes = None, st_maxLength = None,
     st_pattern = None, st_values = None\<rparr>"

definition example_schema :: "property list" where
  "example_schema =
    [plain_property (js ''email'') string_kind,
     plain_property (js ''address'') (ObjectType
       [plain_property (js ''street'') string_kind,
        plain_property (js ''geo'') (ObjectType [plain_property (js ''lat'') DateType])]),
     plain_property (js ''extra'') JSONType]"

lemmas example_schema_simps = example_schema_def plain_property_def string_kind_def sub_properties_def js_Cons

lemma example_schema_wf: "wf_properties example_schema"
  by (simp add: example_schema_simps)

lemma example_schema_flat:
  "flattenSchema (Some (ObjectType example_schema)) False = Some (flatten_object example_schema)"
  by (rule flattenSchema_object)

theorem flattenSchema_lookup_witness:
  "map_option tp_full (obj_get (flatten_object example_schema) (js ''address.geo.lat'')) =
     Some (plain_property (js ''lat'') DateType)"
  using flattenSchema_lookup [OF example_schema_wf example_schema_flat, of "js ''address.geo.lat''"]
  by (simp add: example_schema_simps flattenProperty_def)

subsection \<open>Ancestors, descendants and siblings\<close>

text \<open>\<open>None\<close> where the source throws a \<open>TypeError\<close>: the path is not in the schema.\<close>

definition getHierarchicalPaths :: "jsstr \<Rightarrow> flat_schema \<Rightarrow> (jsstr list \<times> jsstr list) option" where
  "getHierarchicalPaths path schema =
     map_option (\<lambda>tp.
       let indentation = tp_indentation tp;
           ancestor = (\<lambda>(p, q). tp_indentation q < indentation \<and> starts_with path (p @ js ''.''));
           descendant = (\<lambda>(p, q). tp_indentation q > indentation \<and> starts_with p (path @ js ''.''))
       in (map fst (filter ancestor schema),
           map fst (filter (\<lambda>e. \<not> ancestor e \<and> descendant e) schema)))
       (obj_get schema path)"

definition getSiblingPaths :: "jsstr \<Rightarrow> flat_schema \<Rightarrow> jsstr list option" where
  "getSiblingPaths path schema =
     map_option (\<lambda>tp.
       map fst (filter (\<lambda>(p, q). p \<noteq> path \<and> tp_root q = tp_root tp \<and> tp_indentation q = tp_indentation tp) schema))
       (obj_get schema path)"

lemma segments_path_append:
  "no_dots a \<Longrightarrow> a \<noteq> [] \<Longrightarrow> segments (path_of a @ 46 # r) = a @ segments r"
  by (induction a rule: induct_list012) (auto simp: split_on_append join_with_Cons)

text \<open>A path extends another exactly when the names of the other begin its names.\<close>

lemma path_prefix:
  assumes "no_dots a" "no_dots b" "b \<noteq> []" "a \<noteq> []"
  shows "starts_with (path_of a) (path_of b @ [46]) \<longleftrightarrow> (\<exists>c. c \<noteq> [] \<and> a = b @ c)"
proof
  assume "starts_with (path_of a) (path_of b @ [46])"
  then obtain r where "path_of a = path_of b @ 46 # r" by (auto simp: starts_with_iff)
  then have "a = b @ segments r"
    using segments_path_of [of a] segments_path_append [of b r] assms by simp
  then show "\<exists>c. c \<noteq> [] \<and> a = b @ c" using split_on_not_Nil by blast
next
  assume "\<exists>c. c \<noteq> [] \<and> a = b @ c"
  then obtain c where c: "c \<noteq> []" "a = b @ c" by blast
  have "path_of (b @ c) = path_of b @ 46 # path_of c" using assms(3) c(1)
    by (induction b rule: induct_list012) (auto simp: join_with_Cons)
  then show "starts_with (path_of a) (path_of b @ [46])" by (simp add: c starts_with_iff)
qed

text \<open>The paths of a tree of properties, in the order of the walk.\<close>

definition tree_paths :: "jsstr list \<Rightarrow> property list \<Rightarrow> jsstr list" where
  "tree_paths segs ps = obj_keys (flat_entries (\<lambda>_ _ _. ()) segs ps)"

lemma keys_flat_entries: "obj_keys (flat_entries entry segs ps) = tree_paths segs ps"
  unfolding tree_paths_def by (induction entry segs ps rule: flat_entries.induct) simp_all

lemma tree_paths_simps [simp]:
  "tree_paths segs [] = []"
  "tree_paths segs (p # ps) = path_of (segs @ [p_name p]) # tree_paths (segs @ [p_name p]) (sub_properties p) @ tree_paths segs ps"
  by (simp_all add: tree_paths_def)

lemma tree_pathsD:
  "k \<in> set (tree_paths segs ps) \<Longrightarrow> wf_properties ps \<Longrightarrow>
     \<exists>ns. k = path_of (segs @ ns) \<and> lookup_path ps ns \<noteq> None \<and> no_dots ns \<and> ns \<noteq> [] \<and> hd ns \<in> p_name ` set ps"
  unfolding tree_paths_def by (rule flat_entries_keysD)

text \<open>The paths of the tree that lead to a property of it, and those that start from it.\<close>

lemma ancestors_of_path:
  "wf_properties ps \<Longrightarrow> no_dots segs \<Longrightarrow> no_dots ns \<Longrightarrow> lookup_path ps ns \<noteq> None \<Longrightarrow>
     filter (\<lambda>k. starts_with (path_of (segs @ ns)) (k @ [46])) (tree_paths segs ps) =
       map (\<lambda>i. path_of (segs @ take i ns)) [1..<length ns]"
proof (induction ps ns arbitrary: segs rule: lookup_path.induct)
  case (3 p ps n ns)
  let ?up = "\<lambda>k. starts_with (path_of (segs @ n # ns)) (k @ [46])"
  have wf: "wf_properties (sub_properties p)" "wf_properties ps" "46 \<notin> set (p_name p)" using "3.prems" by simp_all
  have no: "filter ?up (tree_paths (segs @ [p_name p]) (sub_properties p)) = []" if "\<not> (n = p_name p \<and> ns \<noteq> [])"
  proof -
    have "\<not> ?up k" if k: "k \<in> set (tree_paths (segs @ [p_name p]) (sub_properties p))" for k
    proof -
      from tree_pathsD [OF k wf(1)] obtain ms where ms: "k = path_of ((segs @ [p_name p]) @ ms)" "no_dots ms" "ms \<noteq> []" by blast
      show ?thesis unfolding ms(1) by (subst path_prefix)
        (use "3.prems" ms wf \<open>\<not> (n = p_name p \<and> ns \<noteq> [])\<close> in auto)
    qed
    then show ?thesis by simp
  qed
  have hdno: "filter ?up (tree_paths segs ps) = []" if "n \<notin> p_name ` set ps"
  proof -
    have "\<not> ?up k" if k: "k \<in> set (tree_paths segs ps)" for k
    proof -
      from tree_pathsD [OF k wf(2)] obtain ms where ms: "k = path_of (segs @ ms)" "no_dots ms" "ms \<noteq> []" "hd ms \<in> p_name ` set ps" by blast
      then have "hd ms \<noteq> n" using \<open>n \<notin> p_name ` set ps\<close> by metis
      then show ?thesis unfolding ms(1) by (subst path_prefix)
        (use "3.prems" ms in \<open>auto simp: Cons_eq_append_conv\<close>)
    qed
    then show ?thesis by simp
  qed
  have first: "?up (path_of (segs @ [p_name p])) \<longleftrightarrow> n = p_name p \<and> ns \<noteq> []"
    by (subst path_prefix) (use "3.prems" wf in auto)
  show ?case
  proof (cases "p_name p = n")
    case True
    with "3.prems" have rest: "filter ?up (tree_paths segs ps) = []" by (intro hdno) auto
    show ?thesis
    proof (cases "ns = []")
      case True
      with no rest first show ?thesis by simp
    next
      case False
      then have sub: "lookup_path (sub_properties p) ns \<noteq> None" using True "3.prems" by simp
      have "filter ?up (tree_paths (segs @ [p_name p]) (sub_properties p)) =
          map (\<lambda>i. path_of ((segs @ [p_name p]) @ take i ns)) [1..<length ns]"
        using "3.IH"(1) [OF True False wf(1) _ _ sub, of "segs @ [p_name p]"] "3.prems" wf True by simp
      moreover have "[1..<Suc (length ns)] = 1 # map Suc [1..<length ns]"
        using False by (cases ns) (simp_all add: upt_conv_Cons map_Suc_upt del: upt_Suc)
      ultimately show ?thesis using True False rest first by (simp add: o_def)
    qed
  next
    case False
    with "3.IH"(2) [OF False wf(2), of segs] "3.prems" no first show ?thesis by simp
  qed
qed simp_all

lemma descendants_of_path:
  "wf_properties ps \<Longrightarrow> no_dots segs \<Longrightarrow> no_dots ns \<Longrightarrow> lookup_path ps ns = Some q \<Longrightarrow>
     filter (\<lambda>k. starts_with k (path_of (segs @ ns) @ [46])) (tree_paths segs ps) =
       tree_paths (segs @ ns) (sub_properties q)"
proof (induction ps ns arbitrary: segs rule: lookup_path.induct)
  case (3 p ps n ns)
  let ?down = "\<lambda>k. starts_with k (path_of (segs @ n # ns) @ [46])"
  have wf: "wf_properties (sub_properties p)" "wf_properties ps" "46 \<notin> set (p_name p)" using "3.prems" by simp_all
  have no: "filter ?down (tree_paths (segs @ [p_name p]) (sub_properties p)) = []" if "n \<noteq> p_name p"
  proof -
    have "\<not> ?down k" if k: "k \<in> set (tree_paths (segs @ [p_name p]) (sub_properties p))" for k
    proof -
      from tree_pathsD [OF k wf(1)] obtain ms where ms: "k = path_of ((segs @ [p_name p]) @ ms)" "no_dots ms" "ms \<noteq> []" by blast
      show ?thesis unfolding ms(1) by (subst path_prefix) (use "3.prems" ms wf \<open>n \<noteq> p_name p\<close> in auto)
    qed
    then show ?thesis by simp
  qed
  have all: "filter ?down (tree_paths (segs @ [p_name p]) (sub_properties p)) = tree_paths (segs @ [p_name p]) (sub_properties p)"
    if "n = p_name p" "ns = []"
  proof -
    have "?down k" if k: "k \<in> set (tree_paths (segs @ [p_name p]) (sub_properties p))" for k
    proof -
      from tree_pathsD [OF k wf(1)] obtain ms where ms: "k = path_of ((segs @ [p_name p]) @ ms)" "no_dots ms" "ms \<noteq> []" by blast
      show ?thesis unfolding ms(1) by (subst path_prefix) (use "3.prems" ms wf \<open>n = p_name p\<close> \<open>ns = []\<close> in auto)
    qed
    then show ?thesis by simp
  qed
  have hdno: "filter ?down (tree_paths segs ps) = []" if "n \<notin> p_name ` set ps"
  proof -
    have "\<not> ?down k" if k: "k \<in> set (tree_paths segs ps)" for k
    proof -
      from tree_pathsD [OF k wf(2)] obtain ms where ms: "k = path_of (segs @ ms)" "no_dots ms" "ms \<noteq> []" "hd ms \<in> p_name ` set ps" by blast
      then have "hd ms \<noteq> n" using \<open>n \<notin> p_name ` set ps\<close> by metis
      then show ?thesis unfolding ms(1) by (subst path_prefix) (use "3.prems" ms in auto)
    qed
    then show ?thesis by simp
  qed
  have first: "\<not> ?down (path_of (segs @ [p_name p]))"
    by (subst path_prefix) (use "3.prems" wf in auto)
  show ?case
  proof (cases "p_name p = n")
    case True
    with "3.prems" have rest: "filter ?down (tree_paths segs ps) = []" by (intro hdno) auto
    show ?thesis
    proof (cases "ns = []")
      case True
      with \<open>p_name p = n\<close> all rest first "3.prems" show ?thesis by simp
    next
      case False
      then have sub: "lookup_path (sub_properties p) ns = Some q" using True "3.prems" by simp
      show ?thesis
        using "3.IH"(1) [OF True False wf(1) _ _ sub, of "segs @ [p_name p]"] "3.prems" wf True rest first by simp
    qed
  next
    case False
    with "3.IH"(2) [OF False wf(2), of segs] "3.prems" no first show ?thesis by simp
  qed
qed simp_all


lemma tree_pathD:
  assumes "(k, q) \<in> set (flat_entries entry [] ps)" "wf_properties ps"
  shows "\<exists>ns p. k = path_of ns \<and> no_dots ns \<and> ns \<noteq> [] \<and> lookup_path ps ns = Some p \<and> q = entry p (length ns - 1) (hd ns)"
proof -
  have "k \<in> set (obj_keys (flat_entries entry [] ps))" using assms(1) by (force simp: obj_keys_def)
  from flat_entries_keysD [OF this assms(2)] obtain ns where
    ns: "k = path_of ns" "no_dots ns" "ns \<noteq> []" "lookup_path ps ns \<noteq> None" by auto
  moreover have "obj_get (flat_entries entry [] ps) k = Some q"
    using assms distinct_flat_entries [OF assms(2), of "[]" entry] by (intro obj_get_in_set) simp_all
  ultimately show ?thesis
    using obj_get_flat_entries [OF assms(2), of "[]" ns entry] by (auto simp: path_entry_def)
qed

lemma filter_keys: "map fst (filter (\<lambda>(k, v). P k) xs) = filter P (obj_keys xs)"
  by (induction xs) (auto simp: obj_keys_def)

lemma hierarchical_paths_tree:
  assumes wf: "wf_properties ps" and path: "lookup_path ps (segments path) = Some p"
  shows "getHierarchicalPaths path (flatten_object ps) =
    Some (map (\<lambda>i. path_of (take i (segments path))) [1..<length (segments path)],
          tree_paths (segments path) (sub_properties p))"
proof -
  let ?ns = "segments path"
  let ?flat = "flat_entries (flattenProperty False) [] ps"
  have get: "obj_get ?flat path = Some (flattenProperty False p (length ?ns - 1) (hd ?ns))"
    using obj_get_flat_entries [OF wf, of "[]" ?ns "flattenProperty False"] path by (simp add: path_entry_def)
  have len: "starts_with (path_of a) (path_of b @ [46]) \<Longrightarrow> length b < length a"
    if "no_dots a" "no_dots b" "a \<noteq> []" "b \<noteq> []" for a b
    using path_prefix [of a b] that by auto
  let ?i = "length ?ns - 1"
  obtain m where pos: "length ?ns = Suc m" by (cases ?ns) auto
  have up: "(case e of (k, q) \<Rightarrow> tp_indentation q < ?i \<and> starts_with path (k @ js ''.'')) \<longleftrightarrow>
      (case e of (k, q) \<Rightarrow> starts_with path (k @ [46]))" if e: "e \<in> set ?flat" for e
  proof -
    obtain k q where kq: "e = (k, q)" by (cases e)
    from tree_pathD [OF e [unfolded kq] wf] obtain ms where
      "k = path_of ms" "no_dots ms" "ms \<noteq> []" "tp_indentation q = length ms - 1" by (auto simp: flattenProperty_def)
    with len [of ?ns ms] show ?thesis by (cases ms) (auto simp: kq js_Cons)
  qed
  have down: "(\<not> (case e of (k, q) \<Rightarrow> tp_indentation q < ?i \<and> starts_with path (k @ js ''.'')) \<and>
       (case e of (k, q) \<Rightarrow> tp_indentation q > ?i \<and> starts_with k (path @ js ''.''))) \<longleftrightarrow>
      (case e of (k, q) \<Rightarrow> starts_with k (path @ [46]))" if e: "e \<in> set ?flat" for e
  proof -
    obtain k q where kq: "e = (k, q)" by (cases e)
    from tree_pathD [OF e [unfolded kq] wf] obtain ms where
      "k = path_of ms" "no_dots ms" "ms \<noteq> []" "tp_indentation q = length ms - 1" by (auto simp: flattenProperty_def)
    with len [of ms ?ns] pos show ?thesis by (cases ms) (auto simp: kq js_Cons)
  qed
  have anc: "filter (\<lambda>k. starts_with path (k @ [46])) (obj_keys ?flat) =
      map (\<lambda>i. path_of (take i ?ns)) [1..<length ?ns]"
    using ancestors_of_path [OF wf, of "[]" ?ns] path by (simp add: keys_flat_entries)
  have des: "filter (\<lambda>k. starts_with k (path @ [46])) (obj_keys ?flat) = tree_paths ?ns (sub_properties p)"
    using descendants_of_path [OF wf, of "[]" ?ns p] path by (simp add: keys_flat_entries)
  have "filter (\<lambda>(k, q). tp_indentation q < ?i \<and> starts_with path (k @ js ''.'')) ?flat =
      filter (\<lambda>(k, q). starts_with path (k @ [46])) ?flat"
    by (rule filter_cong [OF refl up])
  note A = this [THEN arg_cong [of _ _ "map fst"], unfolded filter_keys anc]
  have "filter (\<lambda>e. \<not> (case e of (k, q) \<Rightarrow> tp_indentation q < ?i \<and> starts_with path (k @ js ''.'')) \<and>
        (case e of (k, q) \<Rightarrow> tp_indentation q > ?i \<and> starts_with k (path @ js ''.''))) ?flat =
      filter (\<lambda>(k, q). starts_with k (path @ [46])) ?flat"
    by (rule filter_cong [OF refl down])
  note B = this [THEN arg_cong [of _ _ "map fst"], unfolded filter_keys des]
  have "tp_indentation (flattenProperty False p ?i (hd ?ns)) = ?i" by (simp add: flattenProperty_def)
  then show ?thesis
    unfolding getHierarchicalPaths_def flatten_object_entries [OF wf] get option.map Let_def
    by (simp only: A B)
qed

text \<open>
  \<open>getHierarchicalPaths\<close> of a property returns its ancestors, from the first level down, and
  all the properties of its subtree, in the order of the schema.
\<close>

theorem getHierarchicalPaths_tree:
  assumes "wf_properties ps" and "lookup_path ps (segments path) = Some p"
  shows "getHierarchicalPaths path (flatten_object ps) =
    Some (map (\<lambda>i. path_of (take i (segments path))) [1..<length (segments path)],
          tree_paths (segments path) (sub_properties p))"
  by (rule hierarchical_paths_tree [OF assms])

theorem getHierarchicalPaths_tree_witness:
  "getHierarchicalPaths (js ''address.geo'') (flatten_object example_schema) =
     Some ([js ''address''], [js ''address.geo.lat''])"
  using getHierarchicalPaths_tree [OF example_schema_wf, of "js ''address.geo''"]
  by (simp add: example_schema_simps)

subsection \<open>A property and a path inside it\<close>

text \<open>\<open>s.replace(pat, '')\<close>: the first occurrence is removed.\<close>

fun remove_first :: "jsstr \<Rightarrow> jsstr \<Rightarrow> jsstr" where
  "remove_first pat [] = []"
| "remove_first pat (c # cs) =
     (if starts_with (c # cs) pat then drop (length pat) (c # cs) else c # remove_first pat cs)"

text \<open>The loop over the names, with its \<open>break\<close>; a \<open>null\<close> schema has no property.\<close>

fun longest_base :: "flat_schema option \<Rightarrow> jsstr \<Rightarrow> jsstr list \<Rightarrow> jsstr" where
  "longest_base flatSchema base [] = base"
| "longest_base flatSchema base (s # split) =
     (let b = (if base = [] then s else base @ js ''.'' @ s) in
      if (case flatSchema of None \<Rightarrow> False | Some f \<Rightarrow> obj_get f b \<noteq> None)
      then longest_base flatSchema b split else base)"

definition splitPropertyAndPath :: "jsstr \<Rightarrow> flat_schema option \<Rightarrow> jsstr \<times> jsstr" where
  "splitPropertyAndPath propertyName flatSchema =
     (let name = trim propertyName;
          base = longest_base flatSchema [] (segments name);
          path = (if base \<noteq> [] then
                    (let r = remove_first base name in if r \<noteq> [] \<and> starts_with r (js ''.'') then tl r else r)
                  else []);
          isJSON = (case flatSchema of None \<Rightarrow> False
                    | Some f \<Rightarrow> (case obj_get f base of None \<Rightarrow> False | Some p \<Rightarrow> tp_type p = KJSON))
      in if \<not> isJSON \<and> path \<noteq> [] then ([], []) else (base, path))"

lemma remove_first_prefix: "p \<noteq> [] \<Longrightarrow> remove_first p (p @ s) = s"
  by (cases p) simp_all

text \<open>The schema names are not empty, as the server requires.\<close>

function names_nonempty :: "property list \<Rightarrow> bool" where
  "names_nonempty [] = True"
| "names_nonempty (p # ps) = (p_name p \<noteq> [] \<and> names_nonempty (sub_properties p) \<and> names_nonempty ps)"
  by pat_completeness auto
termination
  by (relation "measure (size_list size)") (auto simp: less_Suc_eq_le)

lemma lookup_path_nonempty: "lookup_path ps ns \<noteq> None \<Longrightarrow> names_nonempty ps \<Longrightarrow> [] \<notin> set ns"
  by (induction ps ns rule: lookup_path.induct) (auto split: if_splits)

lemma lookup_path_prefix:
  "lookup_path ps (a @ b) \<noteq> None \<Longrightarrow> a \<noteq> [] \<Longrightarrow> wf_properties ps \<Longrightarrow> lookup_path ps a \<noteq> None"
proof (induction ps a rule: lookup_path.induct)
  case (3 p ps n ns)
  then show ?case by (cases "ns = []"; cases "p_name p = n") (auto split: if_splits)
qed simp_all

lemma lookup_path_below:
  "lookup_path ps a = Some p \<Longrightarrow> b \<noteq> [] \<Longrightarrow> wf_properties ps \<Longrightarrow> lookup_path ps (a @ b) = lookup_path (sub_properties p) b"
  by (induction ps a rule: lookup_path.induct) (auto split: if_splits)


lemma obj_get_flatten_object:
  "wf_properties ps \<Longrightarrow> no_dots ns \<Longrightarrow> ns \<noteq> [] \<Longrightarrow>
     obj_get (flatten_object ps) (path_of ns) =
       map_option (\<lambda>p. flattenProperty False p (length ns - 1) (hd ns)) (lookup_path ps ns)"
  using obj_get_flat_entries [of ps "[]" ns "flattenProperty False"]
  by (simp add: flatten_object_entries path_entry_def [abs_def])

lemma path_of_Nil_iff: "no_dots ns \<Longrightarrow> path_of ns = [] \<longleftrightarrow> ns = [] \<or> ns = [[]]"
  by (induction ns rule: induct_list012) (auto simp: join_with_Cons)

lemma path_of_append: "a \<noteq> [] \<Longrightarrow> b \<noteq> [] \<Longrightarrow> path_of (a @ b) = path_of a @ 46 # path_of b"
  by (induction a rule: induct_list012) (auto simp: join_with_Cons)

lemma longest_base_path:
  assumes wf: "wf_properties ps" "names_nonempty ps"
  shows "lookup_path ps (segs @ ns) \<noteq> None \<or> segs @ ns = [] \<Longrightarrow> no_dots (segs @ ns @ rest) \<Longrightarrow>
     rest = [] \<or> lookup_path ps (segs @ ns @ [hd rest]) = None \<Longrightarrow>
     longest_base (Some (flatten_object ps)) (path_of segs) (ns @ rest) = path_of (segs @ ns)"
proof (induction ns arbitrary: segs)
  case Nil
  show ?case
  proof (cases rest)
    case (Cons r rs)
    have "path_of segs = [] \<longleftrightarrow> segs = []"
      using path_of_Nil_iff [of segs] Nil lookup_path_nonempty [OF _ wf(2), of segs] by auto
    then have "(if path_of segs = [] then r else path_of segs @ js ''.'' @ r) = path_of (segs @ [r])"
      using path_of_snoc [of segs r] by (auto simp: js_Cons)
    moreover have "obj_get (flatten_object ps) (path_of (segs @ [r])) = None"
      using Nil Cons by (subst obj_get_flatten_object [OF wf(1)]) auto
    ultimately show ?thesis using Cons by (simp add: Let_def)
  qed simp
next
  case (Cons n ns)
  have "path_of segs = [] \<longleftrightarrow> segs = []"
    using path_of_Nil_iff [of segs] Cons.prems lookup_path_nonempty [OF _ wf(2), of "segs @ n # ns"] by auto
  then have b: "(if path_of segs = [] then n else path_of segs @ js ''.'' @ n) = path_of (segs @ [n])"
    using path_of_snoc [of segs n] by (auto simp: js_Cons)
  have "lookup_path ps (segs @ [n]) \<noteq> None"
    using lookup_path_prefix [of ps "segs @ [n]" ns] Cons.prems wf by auto
  then have "obj_get (flatten_object ps) (path_of (segs @ [n])) \<noteq> None"
    using Cons.prems by (subst obj_get_flatten_object [OF wf(1)]) auto
  moreover have "longest_base (Some (flatten_object ps)) (path_of (segs @ [n])) (ns @ rest) = path_of ((segs @ [n]) @ ns)"
    using Cons.prems by (intro Cons.IH) auto
  ultimately show ?case by (simp add: b Let_def)
qed

text \<open>
  a name typed in a filter is split after its longest prefix that is a property of the schema;
  the rest is a path inside the property, which only a json property can have. Any other name
  splits into two empty strings.
\<close>

theorem splitPropertyAndPath_longest:
  assumes "wf_properties ps" "names_nonempty ps"
    and "segments (trim name) = ns @ rest"
    and "ns \<noteq> [] \<longrightarrow> lookup_path ps ns = Some p"
    and "rest = [] \<or> lookup_path ps (ns @ [hd rest]) = None"
  shows "splitPropertyAndPath name (Some (flatten_object ps)) =
    (if ns \<noteq> [] \<and> (path_of rest = [] \<or> kind_of (p_type p) = KJSON) then (path_of ns, path_of rest) else ([], []))"
proof -
  let ?f = "flatten_object ps"
  have nd: "no_dots (ns @ rest)" using no_dots_segments [of "trim name"] by (simp add: assms(3))
  have lb: "longest_base (Some ?f) [] (segments (trim name)) = path_of ns"
    using longest_base_path [OF assms(1,2), of "[]" ns rest] assms(4,5) nd by (auto simp: assms(3))
  have name: "trim name = path_of (ns @ rest)" by (simp flip: assms(3))
  show ?thesis
  proof (cases "ns = []")
    case True
    with lb show ?thesis by (simp add: splitPropertyAndPath_def)
  next
    case False
    with assms(4) have p: "lookup_path ps ns = Some p" by simp
    have ne: "path_of ns \<noteq> []"
      using path_of_Nil_iff [of ns] False nd lookup_path_nonempty [OF _ assms(2), of ns] p by auto
    have "obj_get ?f (path_of ns) = Some (flattenProperty False p (length ns - 1) (hd ns))"
      using obj_get_flatten_object [OF assms(1), of ns] nd False p by simp
    moreover have "remove_first (path_of ns) (trim name) = (if rest = [] then [] else 46 # path_of rest)"
      using remove_first_prefix [OF ne] remove_first_prefix [OF ne, of "[]"] False
      by (auto simp: name path_of_append)
    ultimately show ?thesis
      using lb ne False by (auto simp: splitPropertyAndPath_def Let_def js_Cons flattenProperty_def)
  qed
qed

lemma example_schema_names: "names_nonempty example_schema"
  by (simp add: example_schema_simps)

theorem splitPropertyAndPath_longest_witness:
  "splitPropertyAndPath (js '' extra.a.b '') (Some (flatten_object example_schema)) = (js ''extra'', js ''a.b'')"
proof -
  have t: "trim (js '' extra.a.b '') = js ''extra.a.b''"
    by (simp add: trim_def trim_start_def js_Cons is_js_space_def)
  show ?thesis
    using splitPropertyAndPath_longest [OF example_schema_wf example_schema_names,
        of "js '' extra.a.b ''" "[js ''extra'']" "[js ''a'', js ''b'']" "plain_property (js ''extra'') JSONType"]
    unfolding t by (simp add: example_schema_simps)
qed

end
