(* ===== verification/Filter_Conditions.thy ===== *)
theory Filter_Conditions
  imports Filter_Text Filter_Tree Filter_Dates Schema_Flatten
begin

section \<open>The conditions of a filter (lib/core/pipeline.ts)\<close>

text \<open>
  Which operators a property supports, and the validation of a condition against the type of its
  property, which also parses the values the user typed. \<open>typesByFilterOperator\<close> is indexed as
  \<open>FILTER_OPERATORS\<close> is. A \<open>TransformedProperty\<close> keeps the kind of its property apart from the
  property itself (\<open>tp_type\<close>, \<open>tp_full\<close>), as in the source.
\<close>

subsection \<open>Compatible operators\<close>

definition every_kind :: "type_kind list" where
  "every_kind = [KBoolean, KInt, KFloat, KDecimal, KDateTime, KDate, KYear, KTime, KUUID, KJSON, KIP, KString, KArray, KObject, KMap]"

definition typesByFilterOperator :: "type_kind list list" where
  "typesByFilterOperator =
    [[KInt, KFloat, KDecimal, KDateTime, KDate, KTime, KYear, KUUID, KJSON, KIP, KString],
     [KInt, KFloat, KDecimal, KDateTime, KDate, KTime, KYear, KUUID, KJSON, KIP, KString],
     [KInt, KFloat, KDecimal, KJSON, KString],
     [KInt, KFloat, KDecimal, KJSON, KString],
     [KInt, KFloat, KDecimal, KJSON, KString],
     [KInt, KFloat, KDecimal, KJSON, KString],
     [KInt, KFloat, KDecimal, KYear, KDateTime, KDate, KTime, KJSON, KString],
     [KInt, KFloat, KDecimal, KYear, KDateTime, KDate, KTime, KJSON, KString],
     [KJSON, KString, KArray],
     [KJSON, KString, KArray],
     [KInt, KFloat, KDecimal, KYear, KDateTime, KDate, KTime, KJSON, KString],
     [KInt, KFloat, KDecimal, KYear, KDateTime, KDate, KTime, KJSON, KString],
     [KJSON, KString],
     [KJSON, KString],
     [KDateTime, KDate, KTime, KYear],
     [KDateTime, KDate, KTime, KYear],
     [KDateTime, KDate, KTime, KYear],
     [KDateTime, KDate, KTime, KYear],
     [KBoolean, KJSON],
     [KBoolean, KJSON],
     [KJSON, KString, KArray, KMap],
     [KJSON, KString, KArray, KMap],
     every_kind,
     every_kind,
     every_kind,
     every_kind]"

definition string_values :: "schema_type \<Rightarrow> jsstr list option" where
  "string_values t = (case t of StringType st \<Rightarrow> st_values st | _ \<Rightarrow> None)"

text \<open>The body of the loop: whether the operator of index \<open>i\<close> is pushed.\<close>

definition operator_fits :: "transformed_property \<Rightarrow> bool \<Rightarrow> nat \<Rightarrow> bool" where
  "operator_fits p hasPath i =
     (let op = FILTER_OPERATORS ! i in
      if (op = OpIsNull \<or> op = OpIsNotNull) \<and> \<not> p_nullable (tp_full p) \<and> tp_type p \<noteq> KJSON then False
      else if (op = OpContains \<or> op = OpNotContains)
        \<and> (case p_type (tp_full p) of ArrayType _ e \<Rightarrow> tp_type p = KArray \<and> kind_of e \<notin> set (typesByFilterOperator ! 0) | _ \<Rightarrow> False)
      then False
      else if tp_type p = KString \<and> string_values (p_type (tp_full p)) \<noteq> None
        \<and> op \<noteq> OpIs \<and> op \<noteq> OpIsNot \<and> op \<noteq> OpOneOf \<and> op \<noteq> OpNotOneOf
      then False
      else if (op = OpExists \<or> op = OpNotExist) \<and> \<not> (tp_readOptional p \<or> (tp_type p = KJSON \<and> hasPath)) then False
      else tp_type p \<in> set (typesByFilterOperator ! i))"

definition getCompatibleFilterOperators :: "transformed_property option \<Rightarrow> bool \<Rightarrow> nat list" where
  "getCompatibleFilterOperators property hasPath =
     (case property of
        None \<Rightarrow> []
      | Some p \<Rightarrow> filter (operator_fits p hasPath) [0..<length FILTER_OPERATORS])"

subsection \<open>Values\<close>

datatype condition_error =
    NoSuchProperty jsstr
  | BadPropertyPath jsstr
  | OperatorRequired
  | EmptyValue jsstr
  | BadText jsstr text_error
  | ValueTooLong jsstr
  | NulCharacter jsstr
  | BadValue jsstr type_kind bool

text \<open>\<open>throwIfInvalid(v)\<close> of one value; the values of an array are those of its elements.\<close>

fun value_error :: "schema_type \<Rightarrow> jsstr \<Rightarrow> (type_kind \<times> bool) option" where
  "value_error (IntType t) v =
     (if it_unsigned t then (if isUnsigned v then None else Some (KInt, True))
      else (if isInt v then None else Some (KInt, False)))"
| "value_error (FloatType t) v = (if isFloat v (ft_bitSize t) then None else Some (KFloat, False))"
| "value_error (DecimalType t) v = (if isDecimal v then None else Some (KDecimal, False))"
| "value_error DateTimeType v = (if isDateTime v then None else Some (KDateTime, False))"
| "value_error DateType v = (if isDate v then None else Some (KDate, False))"
| "value_error TimeType v = (if isTime v then None else Some (KTime, False))"
| "value_error YearType v = (if isYear v then None else Some (KYear, False))"
| "value_error UUIDType v = (if isUUID v then None else Some (KUUID, False))"
| "value_error IPType v = (if isIP v then None else Some (KIP, False))"
| "value_error (ArrayType _ e) v = (if kind_of e \<noteq> KJSON \<and> kind_of e \<noteq> KString then value_error e v else None)"
| "value_error _ v = None"

definition validateFilterConditionValues :: "schema_type \<Rightarrow> jsstr list \<Rightarrow> jsstr \<Rightarrow> condition_error + unit" where
  "validateFilterConditionValues t values propertyName =
     res_bind (traverse (\<lambda>v. case value_error t v of
         None \<Rightarrow> Inr () | Some (k, u) \<Rightarrow> Inl (BadValue propertyName k u)) values) (\<lambda>_. Inr ())"

text \<open>The loop over \<open>conditionValues.entries()\<close> from the index \<open>i\<close> on.\<close>

fun parse_texts :: "jsstr \<Rightarrow> bool \<Rightarrow> bool \<Rightarrow> nat \<Rightarrow> jsstr list \<Rightarrow> condition_error + jsstr list" where
  "parse_texts name between allowsEmpty i [] = Inr []"
| "parse_texts name between allowsEmpty i (v # vs) =
     (if (i = 0 \<and> v = [] \<or> i = 1 \<and> v = [] \<and> between) \<and> \<not> allowsEmpty then Inl (EmptyValue name)
      else if v = [] then
        (if allowsEmpty then res_bind (parse_texts name between allowsEmpty (i + 1) vs) (\<lambda>ws. Inr ([] # ws))
         else parse_texts name between allowsEmpty (i + 1) vs)
      else (case parseText v of
              Inl e \<Rightarrow> Inl (BadText v e)
            | Inr w \<Rightarrow> res_bind (parse_texts name between allowsEmpty (i + 1) vs) (\<lambda>ws. Inr (w # ws))))"

definition check_lengths :: "jsstr \<Rightarrow> jsstr list \<Rightarrow> condition_error + unit" where
  "check_lengths name values =
     res_bind (traverse (\<lambda>v.
         if length (code_points v) > MAX_FILTER_VALUE_LENGTH then Inl (ValueTooLong name)
         else if 0 \<in> set v then Inl (NulCharacter name) else Inr ()) values) (\<lambda>_. Inr ())"

definition is_json_or_text :: "transformed_property \<Rightarrow> bool" where
  "is_json_or_text p \<longleftrightarrow> tp_type p = KJSON \<or> tp_type p = KString
     \<or> (tp_type p = KArray \<and> (case p_type (tp_full p) of ArrayType _ e \<Rightarrow> kind_of e = KJSON \<or> kind_of e = KString | _ \<Rightarrow> False))"

definition validateAndNormalizeFilterCondition ::
  "filter_condition \<Rightarrow> transformed_property option \<Rightarrow> jsstr \<Rightarrow> jsstr \<Rightarrow> jsstr list \<Rightarrow> condition_error + filter_condition" where
  "validateAndNormalizeFilterCondition condition property propertyPath propertyName propertiesToHide =
     (case property of
        None \<Rightarrow> Inl (NoSuchProperty propertyName)
      | Some p \<Rightarrow>
          if propertyName \<in> set propertiesToHide then Inl (NoSuchProperty propertyName)
          else if tp_type p = KJSON \<and> trim propertyPath \<noteq> [] \<and> \<not> isValidPropertyPath propertyPath
            then Inl (BadPropertyPath propertyPath)
          else case c_operator condition of
            None \<Rightarrow> Inl OperatorRequired
          | Some op \<Rightarrow>
              let conditionValues = (case c_values condition of None \<Rightarrow> [] | Some vs \<Rightarrow> vs);
                  allowed = (if tp_type p = KString then string_values (p_type (tp_full p)) else None);
                  allowsEmpty = (case allowed of None \<Rightarrow> False | Some vs \<Rightarrow> [] \<in> set vs)
              in res_bind
                   (if is_json_or_text p then parse_texts propertyName (isBetweenOperator op) allowsEmpty 0 conditionValues
                    else Inr conditionValues) (\<lambda>values.
                 res_bind (if allowed = None then check_lengths propertyName values else Inr ()) (\<lambda>_.
                 res_bind (validateFilterConditionValues (p_type (tp_full p)) conditionValues propertyName) (\<lambda>_.
                 Inr \<lparr>c_property = c_property condition, c_operator = Some op,
                   c_values = (if isUnaryOperator (Some op) then None else Some values)\<rparr>))))"

subsection \<open>Compatible operators, by what they mean\<close>

definition ordered_kinds :: "type_kind set" where
  "ordered_kinds = {KInt, KFloat, KDecimal, KJSON, KString}"

definition time_kinds :: "type_kind set" where
  "time_kinds = {KDateTime, KDate, KTime, KYear}"

fun kinds_of_operator :: "filter_operator \<Rightarrow> type_kind set" where
  "kinds_of_operator op =
     (if op \<in> {OpIs, OpIsNot} then ordered_kinds \<union> time_kinds \<union> {KUUID, KIP}
      else if op \<in> {OpLess, OpLessEqual, OpGreater, OpGreaterEqual} then ordered_kinds
      else if op \<in> {OpBetween, OpNotBetween, OpOneOf, OpNotOneOf} then ordered_kinds \<union> time_kinds
      else if op \<in> {OpContains, OpNotContains} then {KJSON, KString, KArray}
      else if op \<in> {OpStartsWith, OpEndsWith} then {KJSON, KString}
      else if op \<in> {OpBefore, OpOnOrBefore, OpAfter, OpOnOrAfter} then time_kinds
      else if op \<in> {OpIsTrue, OpIsFalse} then {KBoolean, KJSON}
      else if op \<in> {OpIsEmpty, OpIsNotEmpty} then {KJSON, KString, KArray, KMap}
      else UNIV)"

lemma kinds_of_operator_UNIV: "k \<in> set every_kind"
  by (cases k) (simp_all add: every_kind_def)

definition comparable_elements :: "schema_type \<Rightarrow> bool" where
  "comparable_elements t = (case t of ArrayType _ e \<Rightarrow> kind_of e \<in> kinds_of_operator OpIs | _ \<Rightarrow> True)"

lemma operator_lengths: "length FILTER_OPERATORS = 26" "length typesByFilterOperator = 26"
  by (simp_all add: FILTER_OPERATORS_def typesByFilterOperator_def)

lemma types_of_operator:
  assumes "i < length FILTER_OPERATORS"
  shows "set (typesByFilterOperator ! i) = kinds_of_operator (FILTER_OPERATORS ! i)"
proof -
  have "map set typesByFilterOperator = map kinds_of_operator FILTER_OPERATORS"
    using kinds_of_operator_UNIV
    by (auto simp: typesByFilterOperator_def FILTER_OPERATORS_def ordered_kinds_def time_kinds_def)
  then have "map set typesByFilterOperator ! i = map kinds_of_operator FILTER_OPERATORS ! i" by simp
  with assms show ?thesis using operator_lengths by (simp del: kinds_of_operator.simps)
qed

text \<open>
  the operators offered for a property are those that have a meaning on its kind, in the order of
  \<open>FILTER_OPERATORS\<close>: the null ones only when it can be null, the existence ones only when it can be
  absent, those on the elements of an array only when the elements can be compared, and on a
  text with a fixed list of values only those that compare with a value of the list.
\<close>

theorem getCompatibleFilterOperators_meaning:
  "getCompatibleFilterOperators (Some p) hasPath =
     filter (\<lambda>i. let op = FILTER_OPERATORS ! i in
       tp_type p \<in> kinds_of_operator op
       \<and> (op \<in> {OpIsNull, OpIsNotNull} \<longrightarrow> p_nullable (tp_full p) \<or> tp_type p = KJSON)
       \<and> (op \<in> {OpExists, OpNotExist} \<longrightarrow> tp_readOptional p \<or> (tp_type p = KJSON \<and> hasPath))
       \<and> (op \<in> {OpContains, OpNotContains} \<and> tp_type p = KArray \<longrightarrow> comparable_elements (p_type (tp_full p)))
       \<and> (tp_type p = KString \<and> string_values (p_type (tp_full p)) \<noteq> None \<longrightarrow> op \<in> {OpIs, OpIsNot, OpOneOf, OpNotOneOf}))
     [0..<26]"
proof -
  have is0: "set (typesByFilterOperator ! 0) = kinds_of_operator OpIs"
    using types_of_operator [of 0] by (simp add: FILTER_OPERATORS_def)
  show ?thesis
    unfolding getCompatibleFilterOperators_def option.case operator_lengths
  proof (rule filter_cong [OF refl])
    fix i :: nat assume "i \<in> set [0..<26]"
    then have "set (typesByFilterOperator ! i) = kinds_of_operator (FILTER_OPERATORS ! i)"
      using types_of_operator operator_lengths by simp
    then show "operator_fits p hasPath i \<longleftrightarrow> (let op = FILTER_OPERATORS ! i in
       tp_type p \<in> kinds_of_operator op
       \<and> (op \<in> {OpIsNull, OpIsNotNull} \<longrightarrow> p_nullable (tp_full p) \<or> tp_type p = KJSON)
       \<and> (op \<in> {OpExists, OpNotExist} \<longrightarrow> tp_readOptional p \<or> (tp_type p = KJSON \<and> hasPath))
       \<and> (op \<in> {OpContains, OpNotContains} \<and> tp_type p = KArray \<longrightarrow> comparable_elements (p_type (tp_full p)))
       \<and> (tp_type p = KString \<and> string_values (p_type (tp_full p)) \<noteq> None \<longrightarrow> op \<in> {OpIs, OpIsNot, OpOneOf, OpNotOneOf}))"
      unfolding operator_fits_def Let_def is0 comparable_elements_def
      by (cases "p_type (tp_full p)") (auto simp del: kinds_of_operator.simps)
  qed
qed

definition example_text_property :: "jsstr list option \<Rightarrow> transformed_property" where
  "example_text_property vs = flattenProperty False (plain_property (js ''plan'') (StringType \<lparr>st_semantics = None,
     st_format = None, st_maxBytes = None, st_maxLength = None, st_pattern = None, st_values = vs\<rparr>)) 0 (js ''plan'')"

theorem getCompatibleFilterOperators_meaning_witness:
  "map ((!) FILTER_OPERATORS) (getCompatibleFilterOperators (Some (example_text_property (Some [js ''a'']))) False) =
     [OpIs, OpIsNot, OpOneOf, OpNotOneOf]"
  unfolding getCompatibleFilterOperators_meaning by code_simp

subsection \<open>What a validated condition satisfies\<close>

definition allowed_values :: "transformed_property \<Rightarrow> jsstr list option" where
  "allowed_values p = (if tp_type p = KString then string_values (p_type (tp_full p)) else None)"

lemma traverse_unit_Inr:
  "res_bind (traverse f xs) (\<lambda>_. Inr ()) = Inr () \<longleftrightarrow> (\<forall>x \<in> set xs. is_ok (f x))" for f :: "'a \<Rightarrow> 'e + unit"
proof (induction xs)
  case (Cons x xs)
  then show ?case by (cases "f x"; cases "traverse f xs") auto
qed simp

lemma check_lengths_ok:
  "check_lengths name values = Inr () \<longleftrightarrow> (\<forall>v \<in> set values. length (code_points v) \<le> MAX_FILTER_VALUE_LENGTH \<and> 0 \<notin> set v)"
  unfolding check_lengths_def traverse_unit_Inr by auto

lemma validate_values_ok:
  "validateFilterConditionValues t values name = Inr () \<longleftrightarrow> (\<forall>v \<in> set values. value_error t v = None)"
proof -
  have "is_ok (case value_error t v of None \<Rightarrow> Inr () | Some (k, u) \<Rightarrow> Inl (BadValue name k u)) \<longleftrightarrow> value_error t v = None" for v
    by (cases "value_error t v") auto
  then show ?thesis unfolding validateFilterConditionValues_def traverse_unit_Inr by simp
qed

lemma parseText_nonempty: "parseText v = Inr w \<Longrightarrow> w \<noteq> []"
proof -
  assume p: "parseText v = Inr w"
  let ?s = "trim v"
  show ?thesis
  proof (cases "?s = [] \<or> (hd ?s \<noteq> 34 \<and> hd ?s \<noteq> 39)")
    case True
    then show ?thesis using p by (auto simp: parseText_def Let_def split: if_splits)
  next
    case False
    then have "3 \<le> length ?s" and u: "unescape_quoted (hd ?s) (butlast (tl ?s)) = Inr w"
      using p by (auto simp: parseText_def Let_def split: if_splits)
    then have "length (butlast (tl ?s)) \<noteq> 0" by simp
    then have "butlast (tl ?s) \<noteq> []" by (simp only: length_0_conv) simp
    with u show ?thesis by (rule unescape_quoted_nonempty)
  qed
qed

lemma parse_texts_nonempty:
  "parse_texts name between False i vs = Inr ws \<Longrightarrow> [] \<notin> set ws"
  by (induction name between False i vs arbitrary: ws rule: parse_texts.induct)
    (auto simp: res_bind_eq_Inr dest: parseText_nonempty split: if_splits sum.splits)

lemma validate_Inr:
  assumes "validateAndNormalizeFilterCondition c (Some p) path name hide = Inr c'"
  obtains op ws where "c_operator c = Some op" "name \<notin> set hide"
    "(if is_json_or_text p
      then parse_texts name (isBetweenOperator op) (case allowed_values p of None \<Rightarrow> False | Some vs \<Rightarrow> [] \<in> set vs) 0
             (case c_values c of None \<Rightarrow> [] | Some vs \<Rightarrow> vs)
      else Inr (case c_values c of None \<Rightarrow> [] | Some vs \<Rightarrow> vs)) = Inr ws"
    "allowed_values p = None \<longrightarrow> check_lengths name ws = Inr ()"
    "validateFilterConditionValues (p_type (tp_full p)) (case c_values c of None \<Rightarrow> [] | Some vs \<Rightarrow> vs) name = Inr ()"
    "c' = \<lparr>c_property = c_property c, c_operator = Some op, c_values = (if isUnaryOperator (Some op) then None else Some ws)\<rparr>"
  using assms
  by (auto simp: validateAndNormalizeFilterCondition_def Let_def res_bind_eq_Inr allowed_values_def
      split: if_splits option.splits)

text \<open>
  C39: a condition that passes the validation has the property and the operator it was given; its values
  are absent exactly for the unary operators; they are at most eighty characters long and without
  NUL, unless the property has a fixed list of values; for texts and JSON no value is empty, unless
  the list allows it, and for the other types every value is a value of the type.
\<close>

theorem validateAndNormalizeFilterCondition_sound:
  assumes "validateAndNormalizeFilterCondition c (Some p) path name hide = Inr c'"
  shows "c_property c' = c_property c \<and> c_operator c' = c_operator c \<and> c_operator c \<noteq> None \<and> name \<notin> set hide
    \<and> (c_values c' = None \<longleftrightarrow> isUnaryOperator (c_operator c))
    \<and> (\<forall>vs. c_values c' = Some vs \<longrightarrow>
         (allowed_values p = None \<longrightarrow> (\<forall>v \<in> set vs. length (code_points v) \<le> 80 \<and> 0 \<notin> set v))
         \<and> (is_json_or_text p \<and> (\<forall>as. allowed_values p = Some as \<longrightarrow> [] \<notin> set as) \<longrightarrow> [] \<notin> set vs)
         \<and> (\<not> is_json_or_text p \<longrightarrow> (\<forall>v \<in> set vs. value_error (p_type (tp_full p)) v = None)))"
proof -
  obtain op ws where *: "c_operator c = Some op" "name \<notin> set hide"
    "(if is_json_or_text p
      then parse_texts name (isBetweenOperator op) (case allowed_values p of None \<Rightarrow> False | Some vs \<Rightarrow> [] \<in> set vs) 0
             (case c_values c of None \<Rightarrow> [] | Some vs \<Rightarrow> vs)
      else Inr (case c_values c of None \<Rightarrow> [] | Some vs \<Rightarrow> vs)) = Inr ws"
    "allowed_values p = None \<longrightarrow> check_lengths name ws = Inr ()"
    "validateFilterConditionValues (p_type (tp_full p)) (case c_values c of None \<Rightarrow> [] | Some vs \<Rightarrow> vs) name = Inr ()"
    "c' = \<lparr>c_property = c_property c, c_operator = Some op, c_values = (if isUnaryOperator (Some op) then None else Some ws)\<rparr>"
    using assms by (rule validate_Inr)
  have "[] \<notin> set ws" if "is_json_or_text p" "\<forall>as. allowed_values p = Some as \<longrightarrow> [] \<notin> set as"
  proof -
    have "(case allowed_values p of None \<Rightarrow> False | Some vs \<Rightarrow> [] \<in> set vs) = False"
      using that(2) by (auto split: option.splits)
    then show ?thesis using *(3) that(1) parse_texts_nonempty by auto
  qed
  moreover have "value_error (p_type (tp_full p)) v = None" if "\<not> is_json_or_text p" "v \<in> set ws" for v
    using *(3,5) that by (auto simp: validate_values_ok)
  ultimately show ?thesis
    using *(1,2,4,6) by (auto simp: check_lengths_ok MAX_FILTER_VALUE_LENGTH_def split: if_splits)
qed

definition example_condition :: "jsstr list \<Rightarrow> filter_condition" where
  "example_condition vs = \<lparr>c_property = js ''plan'', c_operator = Some OpIs, c_values = Some vs\<rparr>"

theorem validateAndNormalizeFilterCondition_sound_witness:
  "isUnaryOperator (Some OpIs) \<longleftrightarrow> c_values (example_condition [js ''a b'']) = None"
proof -
  have "parseText (js '' a b'') = Inr (js ''a b'')"
    by (simp add: parseText_def js_Cons trim_def trim_start_def is_js_space_def)
  then have "validateAndNormalizeFilterCondition (example_condition [js '' a b'']) (Some (example_text_property None)) [] (js ''plan'') [] =
      Inr (example_condition [js ''a b''])"
    by (simp add: validateAndNormalizeFilterCondition_def example_condition_def example_text_property_def flattenProperty_def
        plain_property_def is_json_or_text_def string_values_def check_lengths_def validateFilterConditionValues_def
        isUnaryOperator_def UNARY_OPERATORS_def MAX_FILTER_VALUE_LENGTH_def is_high_surrogate_def js_Cons)
  from validateAndNormalizeFilterCondition_sound [OF this] show ?thesis
    by (simp add: example_condition_def)
qed

subsection \<open>Loading and saving a condition\<close>

lemma parse_texts_format:
  assumes "\<forall>v \<in> set vs. v \<noteq> [] \<or> allowsEmpty"
  shows "parse_texts name between allowsEmpty i (map formatString vs) = Inr vs"
  using assms
proof (induction vs arbitrary: i)
  case (Cons v vs)
  show ?case
  proof (cases "v = []")
    case True
    then have "formatString v = []" by (simp add: formatString_def)
    with True Cons show ?thesis by simp
  next
    case False
    then have "parseText (formatString v) = Inr v" by (rule parseText_format)
    moreover have "formatString v \<noteq> []" using False by (auto simp: formatString_def Let_def)
    ultimately show ?thesis using Cons by simp
  qed
qed simp

lemma value_error_text: "is_json_or_text p \<Longrightarrow> tp_type p = kind_of (p_type (tp_full p)) \<Longrightarrow> value_error (p_type (tp_full p)) v = None"
  by (cases "p_type (tp_full p)") (auto simp: is_json_or_text_def)

lemma validate_eq:
  assumes "c_operator c = Some op" "name \<notin> set hide" "c_values c = Some cvs"
    and "tp_type p = KJSON \<and> trim path \<noteq> [] \<longrightarrow> isValidPropertyPath path"
    and "(if is_json_or_text p
      then parse_texts name (isBetweenOperator op) (case allowed_values p of None \<Rightarrow> False | Some vs \<Rightarrow> [] \<in> set vs) 0 cvs
      else Inr cvs) = Inr ws"
    and "check_lengths name ws = Inr ()" "validateFilterConditionValues (p_type (tp_full p)) cvs name = Inr ()"
  shows "validateAndNormalizeFilterCondition c (Some p) path name hide =
    Inr \<lparr>c_property = c_property c, c_operator = Some op, c_values = (if isUnaryOperator (Some op) then None else Some ws)\<rparr>"
proof -
  have "\<not> (tp_type p = KJSON \<and> trim path \<noteq> [] \<and> \<not> isValidPropertyPath path)" using assms(4) by blast
  then show ?thesis
    unfolding validateAndNormalizeFilterCondition_def option.case assms(1,3) Let_def allowed_values_def [symmetric]
      assms(5) res_bind.simps assms(6,7)
    using assms(2) by simp
qed

text \<open>
  a condition of a saved filter, shown in the editor with \<open>formatString\<close> and saved again untouched,
  is the same condition, provided its values satisfy the limits and, when the property is
  neither text nor JSON, are values of its type that need no quoting.
\<close>

theorem condition_load_save:
  assumes "tp_type p = kind_of (p_type (tp_full p))" and "name \<notin> set hide" and "c_operator c \<noteq> None"
    and "tp_type p = KJSON \<and> trim path \<noteq> [] \<longrightarrow> isValidPropertyPath path"
    and "c_values c = (if isUnaryOperator (c_operator c) then None else Some vs)"
    and "isUnaryOperator (c_operator c) \<longrightarrow> vs = []"
    and "\<forall>v \<in> set vs. v \<noteq> [] \<and> length (code_points v) \<le> 80 \<and> 0 \<notin> set v"
    and "\<not> is_json_or_text p \<longrightarrow> (\<forall>v \<in> set vs. value_error (p_type (tp_full p)) v = None \<and> formatString v = v)"
  shows "validateAndNormalizeFilterCondition (c\<lparr>c_values := Some (map formatString vs)\<rparr>) (Some p) path name hide = Inr c"
proof -
  obtain op where op: "c_operator c = Some op" using assms(3) by auto
  let ?allows = "case allowed_values p of None \<Rightarrow> False | Some vs \<Rightarrow> [] \<in> set vs"
  have parsed: "(if is_json_or_text p then parse_texts name (isBetweenOperator op) ?allows 0 (map formatString vs)
      else Inr (map formatString vs)) = Inr vs"
    using assms(7,8) by (auto simp: parse_texts_format map_idI)
  have "check_lengths name vs = Inr ()"
    using assms(7) by (simp add: check_lengths_ok MAX_FILTER_VALUE_LENGTH_def)
  moreover have "validateFilterConditionValues (p_type (tp_full p)) (map formatString vs) name = Inr ()"
    using assms(1,8) value_error_text [of p] by (cases "is_json_or_text p") (auto simp: validate_values_ok)
  moreover have "c = \<lparr>c_property = c_property c, c_operator = Some op, c_values = (if isUnaryOperator (Some op) then None else Some vs)\<rparr>"
    using assms(5,6) op by (cases c) auto
  ultimately show ?thesis
    using validate_eq [of "c\<lparr>c_values := Some (map formatString vs)\<rparr>" op name hide "map formatString vs" p path vs]
      parsed assms(2,4) op by simp
qed

theorem condition_load_save_witness:
  "validateAndNormalizeFilterCondition ((example_condition [js ''\"x\"''])\<lparr>c_values := Some (map formatString [js ''\"x\"''])\<rparr>)
     (Some (example_text_property None)) [] (js ''plan'') [] = Inr (example_condition [js ''\"x\"''])"
  by (rule condition_load_save)
    (simp_all add: example_condition_def example_text_property_def flattenProperty_def plain_property_def isUnaryOperator_def
      UNARY_OPERATORS_def is_json_or_text_def js_Cons)

end
