(* ===== verification/Schema_Tree.thy ===== *)
theory Schema_Tree
  imports Schema_Flatten
begin

section \<open>Pushing a property inside a schema\<close>

text \<open>
  Two operations grow a schema by pushing a property in the list of sub-properties at a path: the
  editor's \<open>normalizeSchema\<close> and \<open>addPropertyToSchema\<close> of the pipelines. The mutation is
  \<open>push_at\<close>, and this theory says what reading the schema gives afterwards.
\<close>

text \<open>Pushes properties in the list that the walk down a list of names ends in.\<close>

fun push_at :: "property list \<Rightarrow> jsstr list \<Rightarrow> property list \<Rightarrow> property list option" where
  "push_at ps [] qs = Some (ps @ qs)"
| "push_at [] (n # ns) qs = None"
| "push_at (p # ps) (n # ns) qs =
     (if p_name p = n then
        (case p_type p of
           ObjectType subs \<Rightarrow> map_option (\<lambda>subs'. set_p_type p (ObjectType subs') # ps) (push_at subs ns qs)
         | _ \<Rightarrow> None)
      else map_option (Cons p) (push_at ps (n # ns) qs))"

fun list_at :: "property list \<Rightarrow> jsstr list \<Rightarrow> property list option" where
  "list_at ps [] = Some ps"
| "list_at [] (n # ns) = None"
| "list_at (p # ps) (n # ns) =
     (if p_name p = n then (case p_type p of ObjectType subs \<Rightarrow> list_at subs ns | _ \<Rightarrow> None)
      else list_at ps (n # ns))"

lemma set_p_type_twice [simp]: "set_p_type (set_p_type p t) u = set_p_type p u"
  by (cases p) (simp add: set_p_type_def)

lemma set_p_type_same: "p_type p = t \<Longrightarrow> set_p_type p t = p"
  using set_p_type_id [of p] by simp

lemma push_at_Nil: "list_at ps ns = Some cur \<Longrightarrow> push_at ps ns [] = Some ps"
proof (induction ps ns rule: list_at.induct)
  case (3 p ps n ns)
  then show ?case by (cases "p_type p") (auto simp: set_p_type_same split: if_splits)
qed simp_all

lemma push_at_append:
  "push_at ps ns (a @ b) = Option.bind (push_at ps ns a) (\<lambda>ps'. push_at ps' ns b)"
proof (induction ps ns a rule: push_at.induct)
  case (3 p ps n ns a)
  show ?case
  proof (cases "p_name p = n")
    case True
    show ?thesis
    proof (cases "p_type p")
      case (ObjectType subs)
      with True "3.IH"(1) [OF True ObjectType] show ?thesis
        by (cases "push_at subs ns a") auto
    qed (use True in simp_all)
  next
    case False
    with "3.IH"(2) [OF False] show ?thesis by (cases "push_at ps (n # ns) a") auto
  qed
qed simp_all

lemma list_at_push_at:
  "list_at ps ns = Some cur \<Longrightarrow> push_at ps ns qs = Some ps' \<Longrightarrow> list_at ps' ns = Some (cur @ qs)"
proof (induction ps ns qs arbitrary: ps' rule: push_at.induct)
  case (3 p ps n ns qs)
  then show ?case by (cases "p_type p") (auto split: if_splits)
qed simp_all

lemma push_at_Some: "list_at ps ns = Some cur \<Longrightarrow> \<exists>ps'. push_at ps ns qs = Some ps'"
proof (induction ps ns qs rule: push_at.induct)
  case (3 p ps n ns qs)
  then show ?case by (cases "p_type p") (auto split: if_splits)
qed simp_all

text \<open>Pushing an object with its sub-properties is pushing it empty and then pushing them in it.\<close>

lemma push_at_object:
  "list_at ps ns = Some cur \<Longrightarrow> p_name q \<notin> p_name ` set cur \<Longrightarrow> p_type q = ObjectType subs \<Longrightarrow>
   push_at ps ns [set_p_type q (ObjectType [])] = Some ps' \<Longrightarrow>
   list_at ps' (ns @ [p_name q]) = Some [] \<and> push_at ps' (ns @ [p_name q]) subs = push_at ps ns [q]"
proof (induction ps ns "[set_p_type q (ObjectType [])]" arbitrary: ps' rule: push_at.induct)
  case (1 ps)
  have "list_at (ps @ [set_p_type q (ObjectType [])]) [p_name q] = Some []
      \<and> push_at (ps @ [set_p_type q (ObjectType [])]) [p_name q] subs = Some (ps @ [q])"
    if "p_name q \<notin> p_name ` set ps" for ps
    using that
  proof (induction ps)
    case Nil
    show ?case using \<open>p_type q = ObjectType subs\<close> by (simp add: set_p_type_same)
  qed auto
  from this [of cur] 1 show ?case by auto
next
  case (3 p ps n ns)
  show ?case
  proof (cases "p_name p = n")
    case True
    with "3.prems" obtain ms where t: "p_type p = ObjectType ms" "list_at ms ns = Some cur"
      by (auto split: schema_type.splits)
    with True "3.prems" obtain ms' where ms': "push_at ms ns [set_p_type q (ObjectType [])] = Some ms'"
      "ps' = set_p_type p (ObjectType ms') # ps" by auto
    with "3.hyps"(1) [OF True t "3.prems"(2,3) ms'(1)] True t ms' show ?thesis
      by (auto simp: o_def)
  next
    case False
    with "3.hyps"(2) [OF False] "3.prems" show ?thesis by auto
  qed
qed simp_all


lemma lookup_path_name: "lookup_path ps ns = Some p \<Longrightarrow> p_name p = last ns"
  by (induction ps ns rule: lookup_path.induct) (auto split: if_splits)


lemma lookup_path_append_Some:
  "lookup_path ps (a @ b) \<noteq> None \<Longrightarrow> a \<noteq> [] \<Longrightarrow> b \<noteq> [] \<Longrightarrow> wf_properties ps \<Longrightarrow>
     \<exists>p. lookup_path ps a = Some p \<and> kind_of (p_type p) = KObject"
proof -
  assume a: "lookup_path ps (a @ b) \<noteq> None" "a \<noteq> []" "b \<noteq> []" and wf: "wf_properties ps"
  obtain p where p: "lookup_path ps a = Some p" using lookup_path_prefix [OF a(1,2) wf] by blast
  have "lookup_path (sub_properties p) b \<noteq> None" using a lookup_path_below [OF p a(3) wf] by simp
  then have "sub_properties p \<noteq> []" by (cases b) auto
  then show ?thesis using p sub_properties_not_object by blast
qed

lemma list_at_lookup:
  "lookup_path ps ns = Some p \<Longrightarrow> kind_of (p_type p) = KObject \<Longrightarrow> wf_properties ps \<Longrightarrow>
     list_at ps ns = Some (sub_properties p)"
proof (induction ps ns rule: lookup_path.induct)
  case (3 q ps n ns)
  show ?case
  proof (cases "p_name q = n")
    case True
    show ?thesis
    proof (cases "ns = []")
      case False
      with True "3.prems" have "lookup_path (sub_properties q) ns = Some p" by simp
      moreover from this have "sub_properties q \<noteq> []" using False by (cases ns) auto
      then have "p_type q = ObjectType (sub_properties q)" using sub_properties_not_object sub_properties_object by blast
      ultimately show ?thesis using True False "3.IH"(1) "3.prems" by simp
    qed (use True "3.prems" in \<open>simp add: sub_properties_object\<close>)
  qed (use "3.IH"(2) "3.prems" in simp)
qed simp_all

text \<open>Replaces the sub-properties at a path.\<close>

fun set_sub :: "property list \<Rightarrow> jsstr list \<Rightarrow> property list \<Rightarrow> property list" where
  "set_sub ps [] qs = qs"
| "set_sub [] (n # ns) qs = []"
| "set_sub (p # ps) (n # ns) qs =
     (if p_name p = n then set_p_type p (ObjectType (set_sub (sub_properties p) ns qs)) # ps
      else p # set_sub ps (n # ns) qs)"

lemma sub_properties_set [simp]: "sub_properties (set_p_type p (ObjectType qs)) = qs"
  by (simp add: sub_properties_def)

lemma set_sub_append:
  "lookup_path ps a = Some p \<Longrightarrow> wf_properties ps \<Longrightarrow> set_sub ps a (set_sub (sub_properties p) b qs) = set_sub ps (a @ b) qs"
  by (induction ps a rule: lookup_path.induct) (auto split: if_splits)

lemma push_at_set_sub:
  "list_at ps ns = Some cur \<Longrightarrow> push_at ps ns qs = Some (set_sub ps ns (cur @ qs))"
proof (induction ps ns rule: list_at.induct)
  case (3 p ps n ns)
  then show ?case
    by (cases "p_type p") (auto simp: sub_properties_def split: if_splits)
qed simp_all

lemma p_names_set_sub: "ns \<noteq> [] \<Longrightarrow> p_name ` set (set_sub ps ns qs) = p_name ` set ps"
  by (induction ps ns qs rule: set_sub.induct) auto

lemma wf_set_sub: "wf_properties ps \<Longrightarrow> wf_properties qs \<Longrightarrow> wf_properties (set_sub ps ns qs)"
  by (induction ps ns qs rule: set_sub.induct) (auto simp: p_names_set_sub)

lemma wf_properties_snoc:
  "wf_properties (ps @ [q]) \<longleftrightarrow>
     wf_properties ps \<and> p_name q \<notin> p_name ` set ps \<and> 46 \<notin> set (p_name q) \<and> wf_properties (sub_properties q)"
  by (induction ps) auto

lemma wf_lookup: "lookup_path ps ns = Some p \<Longrightarrow> wf_properties ps \<Longrightarrow> wf_properties (sub_properties p)"
  by (induction ps ns rule: lookup_path.induct) (auto split: if_splits)

lemma lookup_path_snoc:
  "ns \<noteq> [] \<Longrightarrow> lookup_path (ps @ [q]) ns =
     (if hd ns \<in> p_name ` set ps then lookup_path ps ns else lookup_path [q] ns)"
  by (induction ps ns rule: lookup_path.induct) auto

lemma lookup_path_none: "ns \<noteq> [] \<Longrightarrow> hd ns \<notin> p_name ` set ps \<Longrightarrow> lookup_path ps ns = None"
  using lookup_path_hd by blast

text \<open>What is found after replacing the sub-properties at a path: the new ones below it.\<close>

lemma lookup_set_sub_below:
  "lookup_path ps ns = Some p \<Longrightarrow> ms \<noteq> [] \<Longrightarrow> lookup_path (set_sub ps ns qs) (ns @ ms) = lookup_path qs ms"
  by (induction ps ns rule: lookup_path.induct) (auto split: if_splits)

lemma lookup_set_sub_iff:
  "lookup_path ps ns = Some p \<Longrightarrow> (\<And>r. r \<noteq> [] \<Longrightarrow> ms \<noteq> ns @ r) \<Longrightarrow>
     lookup_path (set_sub ps ns qs) ms = None \<longleftrightarrow> lookup_path ps ms = None"
proof (induction ps ns arbitrary: ms rule: lookup_path.induct)
  case (3 q ps n ns)
  show ?case
  proof (cases ms)
    case (Cons m ms')
    show ?thesis
    proof (cases "p_name q = n")
      case True
      show ?thesis
      proof (cases "ns = []")
        case True
        with \<open>p_name q = n\<close> "3.prems"(2) [of ms'] Cons show ?thesis by (auto split: if_splits)
      next
        case False
        with True "3.prems" have p: "lookup_path (sub_properties q) ns = Some p" by simp
        have "lookup_path (set_sub (sub_properties q) ns qs) ms' = None \<longleftrightarrow> lookup_path (sub_properties q) ms' = None"
          if "m = n" using "3.IH"(1) [OF True False p, of ms'] "3.prems"(2) Cons that by auto
        with True False Cons show ?thesis by auto
      qed
    next
      case False
      with "3.IH"(2) [OF False, of ms] "3.prems" Cons show ?thesis by auto
    qed
  qed simp
qed simp_all

end
