(* ===== verification/Schema_Edit.thy ===== *)
theory Schema_Edit
  imports Schema_Tree
begin

section \<open>The schema editor's copy of a schema (SchemaEdit/SchemaEdit.helpers.ts)\<close>

text \<open>
  The editor works on a flat map of editable properties: \<open>transformSchema\<close> makes it from the
  profile schema, \<open>normalizeSchema\<close> turns the edited map back into a schema. The mutable tree that
  \<open>normalizeSchema\<close> grows is a list of properties; a lookup that would throw a \<open>TypeError\<close> in the
  source is \<open>None\<close>.
\<close>

record editable_property =
  ep_indentation :: nat
  ep_root :: jsstr
  ep_name :: jsstr
  ep_prefilled :: jsstr
  ep_type :: schema_type
  ep_readOptional :: bool
  ep_createRequired :: bool
  ep_updateRequired :: bool
  ep_nullable :: bool
  ep_displayName :: jsstr
  ep_description :: jsstr
  ep_isEditable :: bool

type_synonym editable_schema = "editable_property obj"

text \<open>\<open>{ ...property, description: property.description ?? '', indentation, root }\<close>\<close>

definition editableProperty :: "property \<Rightarrow> nat \<Rightarrow> jsstr \<Rightarrow> editable_property" where
  "editableProperty p indentation r =
     \<lparr>ep_indentation = indentation,
      ep_root = r,
      ep_name = p_name p,
      ep_prefilled = p_prefilled p,
      ep_type = p_type p,
      ep_readOptional = p_readOptional p,
      ep_createRequired = p_createRequired p,
      ep_updateRequired = p_updateRequired p,
      ep_nullable = p_nullable p,
      ep_displayName = p_displayName p,
      ep_description = p_description p,
      ep_isEditable = False\<rparr>"

definition transformSchema :: "schema_type option \<Rightarrow> editable_schema option" where
  "transformSchema schema =
     (case schema of
        Some (ObjectType ps) \<Rightarrow> Some (flatten_top editableProperty ps [])
      | _ \<Rightarrow> None)"

subsection \<open>normalizeSchema\<close>

definition normalized_property :: "editable_property \<Rightarrow> property" where
  "normalized_property p =
     (let typ = (case ep_type p of ObjectType _ \<Rightarrow> ObjectType [] | t \<Rightarrow> t) in
      Property (ep_name p)
        (if ep_isEditable p then [] else ep_prefilled p)
        typ
        (\<not> ep_isEditable p \<and> ep_createRequired p)
        (\<not> ep_isEditable p \<and> ep_updateRequired p)
        (ep_readOptional p)
        (ep_nullable p)
        (ep_displayName p)
        (ep_description p))"

text \<open>The names of the ancestors: \<open>schema[parents.slice(0, i + 1).join('.')].name\<close> for each \<open>i\<close>.\<close>

fun ancestor_names :: "editable_schema \<Rightarrow> jsstr list \<Rightarrow> jsstr list \<Rightarrow> jsstr list option" where
  "ancestor_names schema done [] = Some []"
| "ancestor_names schema done (w # ws) =
     (case obj_get schema (path_of (done @ [w])) of
        None \<Rightarrow> None
      | Some p \<Rightarrow> map_option (Cons (ep_name p)) (ancestor_names schema (done @ [w]) ws))"

fun normalize_entries :: "editable_schema \<Rightarrow> editable_schema \<Rightarrow> property list \<Rightarrow> property list option" where
  "normalize_entries schema [] normalized = Some normalized"
| "normalize_entries schema ((k, property) # es) normalized =
     (if ep_indentation property = 0
      then normalize_entries schema es (normalized @ [normalized_property property])
      else Option.bind (ancestor_names schema [] (butlast (segments k))) (\<lambda>names.
           Option.bind (push_at normalized names [normalized_property property]) (\<lambda>normalized'.
             normalize_entries schema es normalized')))"

definition normalizeSchema :: "editable_schema \<Rightarrow> property list option" where
  "normalizeSchema schema = normalize_entries schema schema []"

subsection \<open>Keys\<close>

text \<open>\<open>lastIndexOf('.')\<close> and \<open>slice\<close>.\<close>

definition getParentPropertyKey :: "jsstr \<Rightarrow> jsstr" where
  "getParentPropertyKey propertyKey =
     (if 46 \<notin> set propertyKey then []
      else butlast (rev (dropWhile (\<lambda>c. c \<noteq> 46) (rev propertyKey))))"

definition getPropertyInsertionAnchor :: "editable_schema \<Rightarrow> jsstr \<Rightarrow> jsstr option \<Rightarrow> jsstr option" where
  "getPropertyInsertionAnchor schema parentKey selected =
     (case selected of
        None \<Rightarrow> None
      | Some selectedKey \<Rightarrow>
          if selectedKey = parentKey then None
          else let parentPrefix = (if parentKey = [] then [] else parentKey @ js ''.'') in
            if \<not> starts_with selectedKey parentPrefix then None
            else let directChildKey = parentPrefix @ hd (segments (drop (length parentPrefix) selectedKey)) in
              if obj_get schema directChildKey = None then None
              else Some (last (directChildKey # filter (\<lambda>k. starts_with k (directChildKey @ js ''.'')) (obj_keys schema))))"

record property_to_edit =
  pe_parentKey :: jsstr
  pe_indentation :: nat
  pe_root :: jsstr
  pe_name :: jsstr
  pe_nullable :: bool
  pe_type :: "schema_type option"
  pe_displayName :: jsstr
  pe_description :: jsstr
  pe_isEditable :: bool

definition newPropertyToEdit :: "jsstr \<Rightarrow> nat \<Rightarrow> jsstr \<Rightarrow> property_to_edit" where
  "newPropertyToEdit parentKey indentation r =
     \<lparr>pe_parentKey = parentKey, pe_indentation = indentation, pe_root = r, pe_name = [],
      pe_nullable = False, pe_type = None, pe_displayName = [], pe_description = [], pe_isEditable = True\<rparr>"

subsection \<open>The round trip\<close>

lemma editableProperty_simps [simp]:
  "ep_name (editableProperty p i r) = p_name p" "ep_indentation (editableProperty p i r) = i"
  by (simp_all add: editableProperty_def)

lemma ancestor_names_path:
  assumes wf: "wf_properties ps"
  shows "ws = [] \<or> lookup_path ps (done @ ws) \<noteq> None \<Longrightarrow>
    ancestor_names (flat_entries editableProperty [] ps) done ws = Some ws"
proof (induction ws arbitrary: "done")
  case (Cons w ws)
  then have "lookup_path ps (done @ [w]) \<noteq> None"
    using lookup_path_prefix [of ps "done @ [w]" ws] wf by simp
  then obtain p where p: "lookup_path ps (done @ [w]) = Some p" by blast
  have "no_dots (done @ [w])" using lookup_path_names [OF p wf] by simp
  with p have "obj_get (flat_entries editableProperty [] ps) (path_of (done @ [w])) =
      Some (editableProperty p (length done) (hd (done @ [w])))"
    using obj_get_flat_entries [OF wf, of "[]" "done @ [w]" editableProperty] by (simp add: path_entry_def)
  moreover have "p_name p = w" using lookup_path_name [OF p] by simp
  ultimately show ?case using Cons.IH [of "done @ [w]"] Cons.prems by simp
qed simp

lemma normalized_editable:
  "normalized_property (editableProperty p i r) =
     (if kind_of (p_type p) = KObject then set_p_type p (ObjectType []) else p)"
  by (cases p; cases "p_type p") (simp_all add: normalized_property_def editableProperty_def set_p_type_def)

lemma normalize_entries_tree:
  assumes wf: "wf_properties ps"
  shows "entry = editableProperty \<Longrightarrow> wf_properties qs \<Longrightarrow> no_dots segs \<Longrightarrow>
    segs = [] \<or> lookup_path ps segs \<noteq> None \<Longrightarrow>
    (\<forall>ms. lookup_path qs ms \<noteq> None \<longrightarrow> lookup_path ps (segs @ ms) \<noteq> None) \<Longrightarrow>
    list_at t segs = Some cur \<Longrightarrow> p_name ` set cur \<inter> p_name ` set qs = {} \<Longrightarrow>
    push_at t segs qs = Some t' \<Longrightarrow>
    normalize_entries (flat_entries editableProperty [] ps) (flat_entries entry segs qs @ es0) t =
      normalize_entries (flat_entries editableProperty [] ps) es0 t'"
proof (induction entry segs qs arbitrary: t t' cur es0 rule: flat_entries.induct)
  case (1 entry segs)
  then show ?case by (simp add: push_at_Nil)
next
  case (2 entry segs q qs)
  let ?n = "normalize_entries (flat_entries editableProperty [] ps)"
  let ?segs = "segs @ [p_name q]"
  let ?q0 = "if kind_of (p_type q) = KObject then set_p_type q (ObjectType []) else q"
  have wfq: "wf_properties (sub_properties q)" "wf_properties qs" "no_dots ?segs" "p_name q \<notin> p_name ` set qs"
    using "2.prems" by simp_all
  have "lookup_path (q # qs) [p_name q] \<noteq> None" by simp
  with "2.prems"(5) have here: "lookup_path ps ?segs \<noteq> None" by blast
  obtain t1 where t1: "push_at t segs [?q0] = Some t1"
    using push_at_Some [OF "2.prems"(6)] by blast
  have step: "?n ((path_of ?segs, entry q (length segs) (hd ?segs)) # es) t = ?n es t1" for es
  proof (cases "segs = []")
    case True
    then show ?thesis using t1 by (simp add: "2.prems"(1) normalized_editable)
  next
    case False
    have "butlast (segments (path_of ?segs)) = segs" using segments_path_of [OF wfq(3)] by simp
    moreover have "ancestor_names (flat_entries editableProperty [] ps) [] segs = Some segs"
      using ancestor_names_path [OF wf, of segs "[]"] "2.prems"(4) by simp
    moreover have "ep_indentation (editableProperty q (length segs) (hd ?segs)) \<noteq> 0"
      using False by simp
    ultimately show ?thesis using t1 by (simp add: "2.prems"(1) normalized_editable)
  qed
  obtain t2 where t2: "push_at t segs [q] = Some t2" using push_at_Some [OF "2.prems"(6)] by blast
  have q_new: "p_name q \<notin> p_name ` set cur" using "2.prems"(7) by auto
  have sub: "?n (flat_entries entry ?segs (sub_properties q) @ es) t1 = ?n es t2" for es
  proof (cases "kind_of (p_type q) = KObject")
    case True
    then have "p_type q = ObjectType (sub_properties q)" by (simp add: sub_properties_object)
    with push_at_object [OF "2.prems"(6) q_new this, of t1] t1 t2 True
    have "list_at t1 ?segs = Some []" "push_at t1 ?segs (sub_properties q) = Some t2" by simp_all
    moreover have "\<forall>ms. lookup_path (sub_properties q) ms \<noteq> None \<longrightarrow> lookup_path ps (?segs @ ms) \<noteq> None"
    proof (intro allI impI)
      fix ms assume "lookup_path (sub_properties q) ms \<noteq> None"
      then have "lookup_path (q # qs) (p_name q # ms) \<noteq> None" by (cases "ms = []") simp_all
      with "2.prems"(5) show "lookup_path ps (?segs @ ms) \<noteq> None" by fastforce
    qed
    ultimately show ?thesis using "2.IH"(1) [OF "2.prems"(1) wfq(1,3)] here by simp
  next
    case False
    then show ?thesis using t1 t2 by (simp add: sub_properties_not_object)
  qed
  have "push_at t2 segs qs = Some t'"
    using push_at_append [of t segs "[q]" qs] "2.prems"(8) t2 by simp
  moreover have "list_at t2 segs = Some (cur @ [q])" by (rule list_at_push_at [OF "2.prems"(6) t2])
  moreover have "\<forall>ms. lookup_path qs ms \<noteq> None \<longrightarrow> lookup_path ps (segs @ ms) \<noteq> None"
    using "2.prems"(5) lookup_path_Cons_cases [OF "2.prems"(2)] by blast
  ultimately have "?n (flat_entries entry segs qs @ es0) t2 = ?n es0 t'"
    using "2.IH"(2) [OF "2.prems"(1) wfq(2) "2.prems"(3,4)] "2.prems"(7) wfq(4) by fastforce
  then show ?case using step sub by simp
qed

text \<open>
  C30: \<open>normalizeSchema\<close> is the inverse of \<open>transformSchema\<close> on every well-formed schema: opening a
  schema in the editor and saving it unchanged gives the same schema, nested properties included.
\<close>

theorem normalizeSchema_transformSchema:
  assumes "wf_properties ps"
  shows "Option.bind (transformSchema (Some (ObjectType ps))) normalizeSchema = Some ps"
proof -
  have t: "transformSchema (Some (ObjectType ps)) = Some (flat_entries editableProperty [] ps)"
    by (simp add: transformSchema_def flatten_top_entries [OF assms])
  have "normalize_entries (flat_entries editableProperty [] ps) (flat_entries editableProperty [] ps @ []) [] =
      normalize_entries (flat_entries editableProperty [] ps) [] ps"
    by (rule normalize_entries_tree [OF assms refl assms, where cur = "[]"]) simp_all
  then show ?thesis by (simp add: t normalizeSchema_def)
qed

theorem normalizeSchema_transformSchema_witness:
  "Option.bind (transformSchema (Some (ObjectType example_schema))) normalizeSchema = Some example_schema"
  by (rule normalizeSchema_transformSchema [OF example_schema_wf])

subsection \<open>Parents\<close>

lemma getParentPropertyKey_path:
  assumes "no_dots ns" "ns \<noteq> []"
  shows "getParentPropertyKey (path_of ns) = path_of (butlast ns)"
proof (cases ns rule: rev_cases)
  case (snoc ms w)
  have w: "46 \<notin> set w" "no_dots ms" using assms snoc by simp_all
  show ?thesis
  proof (cases "ms = []")
    case True
    with w show ?thesis by (simp add: snoc getParentPropertyKey_def)
  next
    case False
    have "dropWhile (\<lambda>c. c \<noteq> 46) (rev w @ 46 # rev (path_of ms)) = 46 # rev (path_of ms)"
      using w(1) by (subst dropWhile_append2) auto
    with False show ?thesis by (simp add: snoc path_of_snoc getParentPropertyKey_def)
  qed
qed (use assms in simp)

end
