(* ===== verification/Schema_Build.thy ===== *)
theory Schema_Build
  imports Schema_Tree "HOL-Library.Multiset"
begin

section \<open>Building the schema of a pipeline (lib/core/pipeline.ts)\<close>

text \<open>
  A pipeline is saved with the part of a schema it uses: \<open>addPropertyToSchema\<close> adds a property and
  the ancestors it lacks, \<open>sortPropertiesByOriginalSchema\<close> restores the order of the full schema.
  \<open>None\<close> is a \<open>TypeError\<close> of the source. The source mutates property objects in place; the
  model returns the updated values, which is the same because \<open>flattenSchema\<close> clones its argument,
  an object reached both from an entry and from the entry of its ancestor is mutated through the
  type they share, and a type of the full schema is emptied only when its path is being inserted.
\<close>

subsection \<open>buildHierarchy\<close>

text \<open>The loop over the reversed paths, after its first turn.\<close>

fun build_up :: "flat_schema \<Rightarrow> property \<Rightarrow> jsstr list \<Rightarrow> property option" where
  "build_up schema hierarchy [] = Some hierarchy"
| "build_up schema hierarchy (p # ps) =
     (case obj_get schema p of
        None \<Rightarrow> None
      | Some tp \<Rightarrow>
          build_up schema
            (if kind_of (p_type (tp_full tp)) = KObject
             then set_p_type (tp_full tp) (ObjectType [hierarchy])
             else tp_full tp) ps)"

definition buildHierarchy :: "jsstr list \<Rightarrow> flat_schema \<Rightarrow> property \<Rightarrow> property option" where
  "buildHierarchy paths schema property =
     (case rev paths of
        [] \<Rightarrow> None
      | p # ps \<Rightarrow> if obj_get schema p = None then None else build_up schema property ps)"

subsection \<open>addPropertyToSchema\<close>

text \<open>The loop that finds the closest ancestor the schema has: (inserted, closest, missing).\<close>

definition closest_step :: "flat_schema \<Rightarrow> jsstr list \<times> jsstr option \<times> jsstr list \<Rightarrow> jsstr \<Rightarrow> jsstr list \<times> jsstr option \<times> jsstr list" where
  "closest_step flat st a =
     (case st of (inserted, closest, missing) \<Rightarrow>
        if obj_get flat a \<noteq> None \<and> closest = None then (inserted, Some a, missing)
        else if closest \<noteq> None then (a # inserted, closest, missing)
        else (inserted, closest, a # missing))"

definition closest_ancestor :: "flat_schema \<Rightarrow> jsstr list \<Rightarrow> jsstr list \<times> jsstr option \<times> jsstr list" where
  "closest_ancestor flat ancestors = foldl (closest_step flat) ([], None, []) (rev ancestors)"

text \<open>\<open>const i = ps.findIndex((p) => p.name === h.name); ps.splice(i, 1, h)\<close>; \<open>splice(-1, 1, h)\<close> replaces the last element.\<close>

definition replace_by_name :: "property list \<Rightarrow> property \<Rightarrow> property list" where
  "replace_by_name ps h =
     (case find_index (\<lambda>p. p_name p = p_name h) ps of
        Some i \<Rightarrow> ps[i := h]
      | None \<Rightarrow> butlast ps @ [h])"

definition object_entry :: "flat_schema \<Rightarrow> jsstr \<Rightarrow> (property \<times> property list) option" where
  "object_entry flat a =
     (case obj_get flat a of
        None \<Rightarrow> None
      | Some tp \<Rightarrow> (case p_type (tp_full tp) of ObjectType qs \<Rightarrow> Some (tp_full tp, qs) | _ \<Rightarrow> None))"

text \<open>The loop over the inserted ancestors above the closest one.\<close>

fun replace_up :: "flat_schema \<Rightarrow> property \<Rightarrow> jsstr list \<Rightarrow> property option" where
  "replace_up flat hierarchy [] = Some hierarchy"
| "replace_up flat hierarchy (a # as) =
     (case object_entry flat a of
        None \<Rightarrow> None
      | Some (p, qs) \<Rightarrow> replace_up flat (set_p_type p (ObjectType (replace_by_name qs hierarchy))) as)"

definition addPropertyToSchema :: "jsstr \<Rightarrow> property \<Rightarrow> property list \<Rightarrow> flat_schema \<Rightarrow> bool \<Rightarrow> property list option" where
  "addPropertyToSchema path property schema fullSchema isFirstLevel =
     (if isFirstLevel then
        Some (if \<exists>p \<in> set schema. p_name p = p_name property then schema else schema @ [property])
      else
        let flat = flatten_object schema in
        if obj_get flat path \<noteq> None then Some schema
        else
          (case getHierarchicalPaths path fullSchema of
             None \<Rightarrow> None
           | Some (ancestors, _) \<Rightarrow>
               (case closest_ancestor flat ancestors of
                  (inserted, Some closest, missing) \<Rightarrow>
                    Option.bind (buildHierarchy (missing @ [path]) fullSchema property) (\<lambda>hierarchy.
                    Option.bind (object_entry flat closest) (\<lambda>(p, qs).
                    Option.bind (replace_up flat (set_p_type p (ObjectType (qs @ [hierarchy]))) (rev inserted)) (\<lambda>top.
                      Some (replace_by_name schema top))))
                | (_, None, _) \<Rightarrow>
                    Option.bind (buildHierarchy (ancestors @ [path]) fullSchema property) (\<lambda>hierarchy.
                      Some (schema @ [hierarchy])))))"

subsection \<open>sortPropertiesByOriginalSchema\<close>

text \<open>
  The stable sort by the index in the original schema. \<open>None\<close> stands for a name that the original
  lacks: the comparison is then \<open>NaN\<close>, and an object throws a \<open>TypeError\<close>.
\<close>

definition original_index :: "property list \<Rightarrow> property \<Rightarrow> nat" where
  "original_index original p =
     (case find_index (\<lambda>op. p_name op = p_name p) original of Some i \<Rightarrow> i | None \<Rightarrow> length original)"

lemma find_index_cong [fundef_cong]:
  "xs = ys \<Longrightarrow> (\<And>x. x \<in> set ys \<Longrightarrow> p x = q x) \<Longrightarrow> find_index p xs = find_index q ys"
  by (induction xs arbitrary: ys) auto

function sortPropertiesByOriginalSchema :: "property list \<Rightarrow> property list \<Rightarrow> property list option" where
  "sortPropertiesByOriginalSchema schema original =
     those (map (\<lambda>p.
       case find (\<lambda>op. p_name op = p_name p) original of
         None \<Rightarrow> None
       | Some prop \<Rightarrow>
           if kind_of (p_type p) = KObject
           then map_option (\<lambda>qs. set_p_type p (ObjectType qs))
                  (sortPropertiesByOriginalSchema (sub_properties p) (sub_properties prop))
           else Some p)
     (sort_key (original_index original) schema))"
  by pat_completeness auto

lemma size_sub_member: "p \<in> set ps \<Longrightarrow> size_list size (sub_properties p) < size_list size ps"
  by (induction ps) (auto simp: less_Suc_eq_le trans_le_add2 order.strict_implies_order)

termination sortPropertiesByOriginalSchema
  by (relation "measure (\<lambda>(s, _). size_list size s)") (auto intro: size_sub_member)

declare sortPropertiesByOriginalSchema.simps [simp del]

subsection \<open>The loops of addPropertyToSchema\<close>

lemma closest_ancestor_none:
  "(\<forall>a \<in> set as. obj_get flat a = None) \<Longrightarrow> closest_ancestor flat as = ([], None, as)"
proof -
  have "(\<forall>a \<in> set bs. obj_get flat a = None) \<Longrightarrow>
      foldl (closest_step flat) ([], None, ms) bs = ([], None, rev bs @ ms)" for bs ms
    by (induction bs arbitrary: ms) (auto simp: closest_step_def)
  from this [of "rev as" "[]"] show "(\<forall>a \<in> set as. obj_get flat a = None) \<Longrightarrow> closest_ancestor flat as = ([], None, as)"
    by (simp add: closest_ancestor_def)
qed

lemma closest_ancestor_split:
  assumes "obj_get flat c \<noteq> None" "\<forall>a \<in> set ys. obj_get flat a = None"
  shows "closest_ancestor flat (xs @ c # ys) = (xs, Some c, ys)"
proof -
  have "foldl (closest_step flat) (ins, Some c, ms) bs = (rev bs @ ins, Some c, ms)" for bs ins ms
    by (induction bs arbitrary: ins) (auto simp: closest_step_def)
  moreover have "foldl (closest_step flat) ([], None, ms) bs = ([], None, rev bs @ ms)"
    if "\<forall>a \<in> set bs. obj_get flat a = None" for bs ms
    using that by (induction bs arbitrary: ms) (auto simp: closest_step_def)
  ultimately show ?thesis
    using assms by (simp add: closest_ancestor_def foldl_append) (simp add: closest_step_def)
qed

text \<open>Replacing by name is replacing the sub-properties at a path of one name.\<close>

lemma replace_by_name_set_sub:
  "lookup_path ps [n] = Some p \<Longrightarrow> replace_by_name ps (set_p_type p (ObjectType qs)) = set_sub ps [n] qs"
proof (induction ps)
  case (Cons q ps)
  show ?case
  proof (cases "p_name q = n")
    case True
    with Cons.prems show ?thesis by (simp add: replace_by_name_def)
  next
    case False
    with Cons.prems have p: "lookup_path ps [n] = Some p" by simp
    then have "p_name p = n" using lookup_path_name [OF p] by simp
    moreover have "find_index (\<lambda>p'. p_name p' = n) ps \<noteq> None"
      using p lookup_path_hd [of ps "[n]"] by (auto simp: find_index_eq_None)
    ultimately show ?thesis using Cons.IH [OF p] False by (auto simp: replace_by_name_def)
  qed
qed simp

definition prefixes_down :: "jsstr list \<Rightarrow> jsstr list" where
  "prefixes_down ns = rev (map (\<lambda>i. path_of (take i ns)) [1..<length ns])"

lemma prefixes_down_snoc: "ms \<noteq> [] \<Longrightarrow> prefixes_down (ms @ [n]) = path_of ms # prefixes_down ms"
proof -
  assume "ms \<noteq> []"
  then have "[1..<length (ms @ [n])] = [1..<length ms] @ [length ms]" by (cases ms) simp_all
  moreover have "map (\<lambda>i. path_of (take i (ms @ [n]))) [1..<length ms] = map (\<lambda>i. path_of (take i ms)) [1..<length ms]"
    by (rule map_cong) auto
  ultimately show ?thesis by (simp only: prefixes_down_def map_append rev_append) simp
qed

lemma prefixes_down_single [simp]: "prefixes_down [n] = []"
  by (simp add: prefixes_down_def)

lemma replace_up_set_sub:
  assumes wf: "wf_properties schema"
  shows "lookup_path schema ns = Some p \<Longrightarrow>
    \<exists>top. replace_up (flatten_object schema) (set_p_type p (ObjectType qs)) (prefixes_down ns) = Some top
      \<and> replace_by_name schema top = set_sub schema ns qs"
proof (induction "length ns" arbitrary: ns p qs)
  case 0
  then show ?case by simp
next
  case (Suc k)
  then obtain ms n where ns: "ns = ms @ [n]" by (cases ns rule: rev_cases) auto
  show ?case
  proof (cases "ms = []")
    case True
    with Suc.prems show ?thesis using replace_by_name_set_sub by (simp add: ns)
  next
    case False
    obtain q where q: "lookup_path schema ms = Some q" "kind_of (p_type q) = KObject"
      using lookup_path_append_Some [of schema ms "[n]"] Suc.prems False wf by (auto simp: ns)
    have p: "lookup_path (sub_properties q) [n] = Some p"
      using lookup_path_below [OF q(1), of "[n]"] Suc.prems wf by (simp add: ns)
    have nd: "no_dots ms" using lookup_path_names [OF q(1) wf] by simp
    have "object_entry (flatten_object schema) (path_of ms) = Some (q, sub_properties q)"
      using obj_get_flatten_object [OF wf nd False] q by (simp add: object_entry_def flattenProperty_def sub_properties_object)
    moreover have "set_sub (sub_properties q) [n] qs = replace_by_name (sub_properties q) (set_p_type p (ObjectType qs))"
      using replace_by_name_set_sub [OF p] by simp
    moreover have "set_sub schema ms (set_sub (sub_properties q) [n] qs) = set_sub schema ns qs"
      using set_sub_append [OF q(1) wf] by (simp add: ns)
    ultimately show ?thesis
      using Suc.hyps(1) [of ms q "set_sub (sub_properties q) [n] qs"] Suc.hyps(2) q(1) False
      by (auto simp: ns prefixes_down_snoc)
  qed
qed


text \<open>
  The flattened schema, with its properties changed by \<open>g\<close> in what is neither their name nor their
  type: saving a pipeline removes the prefilled values first.
\<close>

definition flat_view :: "(property \<Rightarrow> property) \<Rightarrow> property list \<Rightarrow> flat_schema" where
  "flat_view g full = map (\<lambda>(k, tp). (k, tp\<lparr>tp_full := g (tp_full tp)\<rparr>)) (flatten_object full)"

definition keeps_shape :: "(property \<Rightarrow> property) \<Rightarrow> bool" where
  "keeps_shape g \<longleftrightarrow> (\<forall>p. p_name (g p) = p_name p \<and> p_type (g p) = p_type p)"

lemma keeps_shape_id [simp]: "keeps_shape id"
  by (simp add: keeps_shape_def)

lemma keeps_shapeD: "keeps_shape g \<Longrightarrow> p_name (g p) = p_name p" "keeps_shape g \<Longrightarrow> p_type (g p) = p_type p"
  by (simp_all add: keeps_shape_def)

lemma obj_get_flat_view: "obj_get (flat_view g full) k = map_option (\<lambda>tp. tp\<lparr>tp_full := g (tp_full tp)\<rparr>) (obj_get (flatten_object full) k)"
proof -
  have "obj_get (map (\<lambda>(k, tp). (k, tp\<lparr>tp_full := g (tp_full tp)\<rparr>)) flat) k =
      map_option (\<lambda>tp. tp\<lparr>tp_full := g (tp_full tp)\<rparr>) (obj_get flat k)" for flat :: flat_schema
    by (induction flat) auto
  then show ?thesis by (simp add: flat_view_def)
qed

lemma obj_keys_flat_view [simp]: "obj_keys (flat_view g full) = obj_keys (flatten_object full)"
  by (simp add: flat_view_def obj_keys_def case_prod_unfold comp_def)

lemma flat_view_id [simp]: "flat_view id full = flatten_object full"
  by (simp add: flat_view_def)

lemma hierarchical_flat_view: "getHierarchicalPaths path (flat_view g full) = getHierarchicalPaths path (flatten_object full)"
proof -
  have "map fst (filter (\<lambda>e. P (fst e) (tp_indentation (snd e))) (map (\<lambda>(k, tp). (k, tp\<lparr>tp_full := g (tp_full tp)\<rparr>)) flat)) =
      map fst (filter (\<lambda>e. P (fst e) (tp_indentation (snd e))) flat)" for P and flat :: flat_schema
    by (induction flat) auto
  note this [where P = "\<lambda>p i. i < j \<and> starts_with path (p @ js ''.'')" and flat = "flatten_object full" for j]
    this [where P = "\<lambda>p i. \<not> (i < j \<and> starts_with path (p @ js ''.'')) \<and> j < i \<and> starts_with p (path @ js ''.'')" and flat = "flatten_object full" for j]
  then show ?thesis
    by (simp add: getHierarchicalPaths_def obj_get_flat_view option.map_comp comp_def case_prod_unfold flat_view_def [symmetric])
      (simp add: flat_view_def case_prod_unfold)
qed

text \<open>The chain of ancestors that \<open>buildHierarchy\<close> makes, each with the next as its only sub-property.\<close>

fun chain :: "(property \<Rightarrow> property) \<Rightarrow> property list \<Rightarrow> jsstr list \<Rightarrow> jsstr list \<Rightarrow> property \<Rightarrow> property" where
  "chain g full segs [] q = q"
| "chain g full segs (n # ns) q =
     set_p_type (g (the (lookup_path full (segs @ [n])))) (ObjectType [chain g full (segs @ [n]) ns q])"

lemma chain_snoc:
  "chain g full segs (ns @ [n]) q = chain g full segs ns (set_p_type (g (the (lookup_path full (segs @ ns @ [n])))) (ObjectType [q]))"
  by (induction ns arbitrary: segs) simp_all

lemma build_up_chain:
  assumes wf: "wf_properties full" and g: "keeps_shape g"
  shows "lookup_path full (segs @ ns @ [w]) \<noteq> None \<Longrightarrow>
    build_up (flat_view g full) q (rev (map (\<lambda>i. path_of (segs @ take i ns)) [1..<Suc (length ns)])) = Some (chain g full segs ns q)"
proof (induction "length ns" arbitrary: ns q w)
  case (Suc k)
  then obtain ms n where ns: "ns = ms @ [n]" by (cases ns rule: rev_cases) auto
  obtain p where p: "lookup_path full (segs @ ns) = Some p" "kind_of (p_type p) = KObject"
    using lookup_path_append_Some [of full "segs @ ns" "[w]"] Suc.prems wf by (auto simp: ns)
  have nd: "no_dots (segs @ ns)" using lookup_path_names [OF p(1) wf] by simp
  have get: "obj_get (flatten_object full) (path_of (segs @ ns)) = Some (flattenProperty False p (length (segs @ ns) - 1) (hd (segs @ ns)))"
    using obj_get_flatten_object [OF wf nd] p(1) by (simp add: ns)
  have "map (\<lambda>i. path_of (segs @ take i ns)) [1..<Suc (length ms)] = map (\<lambda>i. path_of (segs @ take i ms)) [1..<Suc (length ms)]"
    by (rule map_cong) (auto simp: ns)
  then have paths: "rev (map (\<lambda>i. path_of (segs @ take i ns)) [1..<Suc (length ns)]) =
      path_of (segs @ ns) # rev (map (\<lambda>i. path_of (segs @ take i ms)) [1..<Suc (length ms)])"
    by (simp add: ns)
  have "lookup_path full (segs @ ms @ [n]) \<noteq> None" using p(1) by (simp add: ns)
  then have "build_up (flat_view g full) (set_p_type (g p) (ObjectType [q])) (rev (map (\<lambda>i. path_of (segs @ take i ms)) [1..<Suc (length ms)])) =
      Some (chain g full segs ms (set_p_type (g p) (ObjectType [q])))"
    using Suc.hyps ns by (intro Suc.hyps(1)) simp_all
  then show ?case unfolding paths using get p g by (simp add: flattenProperty_def ns chain_snoc obj_get_flat_view keeps_shape_def)
qed simp

lemma buildHierarchy_chain:
  assumes "wf_properties full" "keeps_shape g" "lookup_path full (segs @ ns @ [n]) \<noteq> None"
  shows "buildHierarchy (map (\<lambda>i. path_of (segs @ take i ns)) [1..<Suc (length ns)] @ [path_of (segs @ ns @ [n])]) (flat_view g full) q
    = Some (chain g full segs ns q)"
proof -
  obtain p where p: "lookup_path full (segs @ ns @ [n]) = Some p" using assms(3) by blast
  have "no_dots (segs @ ns @ [n])" using lookup_path_names [OF p assms(1)] by simp
  then have "obj_get (flatten_object full) (path_of (segs @ ns @ [n])) \<noteq> None"
    using obj_get_flatten_object [OF assms(1), of "segs @ ns @ [n]"] p by simp
  then show ?thesis using build_up_chain [OF assms] by (simp add: buildHierarchy_def obj_get_flat_view del: upt_Suc)
qed

lemma lookup_path_Nil_list [simp]: "lookup_path [] ns = None"
  by (cases ns) simp_all

text \<open>\<open>ms\<close> leads to \<open>q\<close> at \<open>ns\<close>, or goes on from it to one of its sub-properties.\<close>

definition on_path :: "jsstr list \<Rightarrow> property \<Rightarrow> jsstr list \<Rightarrow> bool" where
  "on_path ns q ms \<longleftrightarrow> ms \<noteq> [] \<and> ((\<exists>r. ns = ms @ r) \<or> (\<exists>r. ms = ns @ r \<and> lookup_path (sub_properties q) r \<noteq> None))"

lemma on_path_single: "on_path [n] q ms \<longleftrightarrow> ms = [n] \<or> (\<exists>r. ms = n # r \<and> lookup_path (sub_properties q) r \<noteq> None)"
  by (auto simp: on_path_def Cons_eq_append_conv)

lemma on_path_Cons: "ns \<noteq> [] \<Longrightarrow> on_path (n # ns) q ms \<longleftrightarrow> ms = [n] \<or> (\<exists>ms'. ms = n # ms' \<and> on_path ns q ms')"
  by (cases ms) (auto simp: on_path_def)

lemma lookup_single: "lookup_path [p] ms \<noteq> None \<longleftrightarrow>
    ms = [p_name p] \<or> (\<exists>r. ms = p_name p # r \<and> lookup_path (sub_properties p) r \<noteq> None)"
  by (cases ms) (auto split: if_splits)

lemma chain_facts:
  assumes wf: "wf_properties full" and g: "keeps_shape g" and q: "p_name q = w" "46 \<notin> set w" "wf_properties (sub_properties q)"
  shows "lookup_path full (segs @ ns @ [w]) \<noteq> None \<Longrightarrow>
    p_name (chain g full segs ns q) = hd (ns @ [w]) \<and> wf_properties [chain g full segs ns q]
    \<and> lookup_path [chain g full segs ns q] (ns @ [w]) = Some q
    \<and> (\<forall>ms. lookup_path [chain g full segs ns q] ms \<noteq> None \<longleftrightarrow> on_path (ns @ [w]) q ms)"
proof (induction ns arbitrary: segs)
  case Nil
  with q show ?case by (auto simp: on_path_single lookup_single [simplified])
next
  case (Cons n ns)
  let ?c = "chain g full (segs @ [n]) ns q"
  have "p_name ?c = hd (ns @ [w]) \<and> wf_properties [?c] \<and> lookup_path [?c] (ns @ [w]) = Some q
      \<and> (\<forall>ms. lookup_path [?c] ms \<noteq> None \<longleftrightarrow> on_path (ns @ [w]) q ms)"
    by (rule Cons.IH) (use Cons.prems in simp)
  then have IH: "p_name ?c = hd (ns @ [w])" "wf_properties [?c]" "lookup_path [?c] (ns @ [w]) = Some q"
    "lookup_path [?c] ms \<noteq> None \<longleftrightarrow> on_path (ns @ [w]) q ms" for ms
    by blast+
  have "lookup_path full (segs @ [n]) \<noteq> None"
    using lookup_path_prefix [of full "segs @ [n]" "ns @ [w]"] Cons.prems wf by simp
  then obtain p where p: "lookup_path full (segs @ [n]) = Some p" by blast
  have n: "p_name (g p) = n" "46 \<notin> set n" using lookup_path_name [OF p] lookup_path_names [OF p wf] g by (simp_all add: keeps_shape_def)
  have c: "chain g full segs (n # ns) q = set_p_type (g p) (ObjectType [?c])" using p by simp
  have "lookup_path [chain g full segs (n # ns) q] ms \<noteq> None \<longleftrightarrow> on_path ((n # ns) @ [w]) q ms" for ms
    unfolding lookup_single c by (simp add: n(1) on_path_Cons IH(4) [symmetric] del: lookup_path.simps)
  then show ?case using IH(1-3) n p by (simp add: c)
qed


subsection \<open>What addPropertyToSchema adds\<close>

lemma lookup_single_name: "lookup_path ps [n] = None \<longleftrightarrow> n \<notin> p_name ` set ps"
  by (induction ps) auto

lemma closest_split:
  "ns \<noteq> [] \<Longrightarrow> lookup_path ps ns = None \<Longrightarrow>
     \<exists>segs n ms. ns = segs @ n # ms \<and> (segs = [] \<or> lookup_path ps segs \<noteq> None) \<and> lookup_path ps (segs @ [n]) = None"
proof (induction ns rule: rev_induct)
  case (snoc n ns)
  show ?case
  proof (cases "ns = [] \<or> lookup_path ps ns \<noteq> None")
    case True
    with snoc.prems show ?thesis by (intro exI [of _ ns] exI [of _ n] exI [of _ "[]"]) auto
  next
    case False
    with snoc.IH obtain segs m ms where "ns = segs @ m # ms" "segs = [] \<or> lookup_path ps segs \<noteq> None"
      "lookup_path ps (segs @ [m]) = None" by blast
    then show ?thesis by (intro exI [of _ segs] exI [of _ m] exI [of _ "ms @ [n]"]) auto
  qed
qed simp

lemma on_path_append: "r \<noteq> [] \<Longrightarrow> on_path (segs @ ns) q (segs @ r) \<longleftrightarrow> on_path ns q r"
  by (auto simp: on_path_def)

lemma on_path_above:
  assumes "on_path (segs @ ns) q ms" "\<And>r. r \<noteq> [] \<Longrightarrow> ms \<noteq> segs @ r"
  shows "\<exists>r. segs = ms @ r"
proof -
  consider r where "segs @ ns = ms @ r" | r where "ms = segs @ ns @ r" "lookup_path (sub_properties q) r \<noteq> None"
    using assms(1) by (auto simp: on_path_def)
  then show ?thesis
  proof cases
    case 1
    then show ?thesis using assms(2) by (fastforce simp: append_eq_append_conv2)
  next
    case 2
    with assms(2) [of "ns @ r"] show ?thesis by auto
  qed
qed

text \<open>Pushing the missing chain in the list of the closest ancestor.\<close>

lemma push_chain:
  assumes wf: "wf_properties schema" "wf_properties [c]"
    and closest: "segs = [] \<and> cur = schema \<or> (\<exists>p. lookup_path schema segs = Some p \<and> cur = sub_properties p)"
    and new: "lookup_path schema (segs @ [p_name c]) = None"
    and c: "lookup_path [c] ns = Some q" "\<And>ms. lookup_path [c] ms \<noteq> None \<longleftrightarrow> on_path ns q ms"
  defines "schema' \<equiv> set_sub schema segs (cur @ [c])"
  shows "wf_properties schema'" and "lookup_path schema' (segs @ ns) = Some q"
    and "lookup_path schema' ms \<noteq> None \<longleftrightarrow> lookup_path schema ms \<noteq> None \<or> on_path (segs @ ns) q ms"
proof -
  have fresh: "p_name c \<notin> p_name ` set cur" and wf_cur: "wf_properties cur"
    using closest new wf lookup_path_below [of schema segs _ "[p_name c]"] wf_lookup [of schema segs]
    by (auto simp: lookup_single_name [symmetric])
  have wf1: "wf_properties (cur @ [c])" using wf_cur fresh wf(2) by (simp add: wf_properties_snoc)
  then show "wf_properties schema'" unfolding schema'_def by (intro wf_set_sub wf)
  have ns: "ns \<noteq> []" "hd ns = p_name c" using c(1) lookup_path_hd [of "[c]" ns] by (cases ns; auto)+
  have snoc: "lookup_path (cur @ [c]) r \<noteq> None \<longleftrightarrow> lookup_path cur r \<noteq> None \<or> on_path ns q r" if "r \<noteq> []" for r
  proof (cases "hd r \<in> p_name ` set cur")
    case True
    with fresh have "hd r \<noteq> p_name c" by metis
    then have "lookup_path [c] r = None" using that by (cases r) auto
    with True c(2) [of r] that show ?thesis by (simp add: lookup_path_snoc)
  next
    case False
    with lookup_path_none [OF that False] c(2) [of r] that show ?thesis by (simp add: lookup_path_snoc)
  qed
  have at: "lookup_path schema' (segs @ r) = lookup_path (cur @ [c]) r"
    and at0: "lookup_path schema (segs @ r) = lookup_path cur r" if "r \<noteq> []" for r
    using closest that lookup_set_sub_below lookup_path_below [OF _ that wf(1)] by (auto simp: schema'_def)
  show "lookup_path schema' (segs @ ns) = Some q"
    using at [OF ns(1)] c(1) fresh ns by (simp add: lookup_path_snoc)
  show "lookup_path schema' ms \<noteq> None \<longleftrightarrow> lookup_path schema ms \<noteq> None \<or> on_path (segs @ ns) q ms"
  proof (cases "\<exists>r. r \<noteq> [] \<and> ms = segs @ r")
    case True
    then obtain r where r: "r \<noteq> []" "ms = segs @ r" by blast
    with snoc [OF r(1)] at at0 show ?thesis by (simp add: on_path_append)
  next
    case False
    have up: "lookup_path schema ms \<noteq> None" if "on_path (segs @ ns) q ms"
    proof -
      from on_path_above [OF that] False obtain r where r: "segs = ms @ r" by blast
      have "ms \<noteq> []" using that by (simp add: on_path_def)
      with closest r show ?thesis using lookup_path_prefix [of schema ms r] wf(1) by auto
    qed
    show ?thesis
    proof (cases "segs = []")
      case True
      with False have "ms = []" by auto
      then show ?thesis by (simp add: on_path_def schema'_def)
    next
      case segs: False
      then obtain p where "lookup_path schema segs = Some p" using closest by blast
      from lookup_set_sub_iff [OF this, of ms "cur @ [c]"] False
      have "lookup_path schema' ms = None \<longleftrightarrow> lookup_path schema ms = None" by (metis schema'_def)
      with up show ?thesis by auto
    qed
  qed
qed


text \<open>The schema is a part of the full one: its paths exist there, with the same kinds.\<close>

definition sub_schema :: "property list \<Rightarrow> property list \<Rightarrow> bool" where
  "sub_schema schema full \<longleftrightarrow>
     (\<forall>ms p. lookup_path schema ms = Some p \<longrightarrow>
        (\<exists>f. lookup_path full ms = Some f \<and> kind_of (p_type f) = kind_of (p_type p)))"

lemma ancestors_in_full:
  assumes "wf_properties full" "lookup_path full ns \<noteq> None"
  shows "\<exists>ds. getHierarchicalPaths (path_of ns) (flatten_object full) = Some (map (\<lambda>i. path_of (take i ns)) [1..<length ns], ds)"
proof -
  obtain f where f: "lookup_path full ns = Some f" using assms(2) by blast
  then have "segments (path_of ns) = ns" using lookup_path_names [OF f assms(1)] by (simp add: segments_path_of)
  with hierarchical_paths_tree [OF assms(1), of "path_of ns"] f show ?thesis by auto
qed

lemma addPropertyToSchema_push:
  assumes wf: "wf_properties schema" "wf_properties full"
    and full: "lookup_path full (segs @ ns @ [w]) \<noteq> None"
    and closest: "segs = [] \<or> lookup_path schema segs \<noteq> None"
    and new: "lookup_path schema (segs @ [hd (ns @ [w])]) = None"
    and sub: "sub_schema schema full" and q: "p_name q = w"
    and g: "keeps_shape g" and deep: "segs \<noteq> [] \<or> ns \<noteq> []"
  shows "\<exists>cur. (segs = [] \<and> cur = schema \<or> (\<exists>p. lookup_path schema segs = Some p \<and> cur = sub_properties p))
    \<and> addPropertyToSchema (path_of (segs @ ns @ [w])) q schema (flat_view g full) False =
        Some (set_sub schema segs (cur @ [chain g full segs ns q]))"
proof -
  let ?ns = "segs @ ns @ [w]"
  let ?flat = "flatten_object schema"
  let ?p = "\<lambda>i. path_of (take i ?ns)"
  have names: "no_dots ?ns" using full lookup_path_names [OF _ wf(2)] by blast
  have get: "obj_get ?flat (path_of ms) = None \<longleftrightarrow> lookup_path schema ms = None" if "no_dots ms" "ms \<noteq> []" for ms
    using obj_get_flatten_object [OF wf(1) that] by simp
  have nd_take: "no_dots (take i ?ns)" for i using names by (auto simp: no_dots_def dest: in_set_takeD)
  have none: "lookup_path schema (segs @ take (Suc i) (ns @ [w])) = None" for i
  proof (rule ccontr)
    assume "lookup_path schema (segs @ take (Suc i) (ns @ [w])) \<noteq> None"
    then have "lookup_path schema ((segs @ [hd (ns @ [w])]) @ take i (tl (ns @ [w]))) \<noteq> None"
      by (cases ns) simp_all
    then show False using lookup_path_prefix [OF _ _ wf(1)] new by blast
  qed
  have "lookup_path schema ?ns = None" using none [of "length ns"] by simp
  then have absent: "obj_get ?flat (path_of ?ns) = None" using get [OF names] by simp
  obtain ds where anc: "getHierarchicalPaths (path_of ?ns) (flat_view g full) = Some (map ?p [1..<length ?ns], ds)"
    using ancestors_in_full [OF wf(2) full] unfolding hierarchical_flat_view by blast
  have missing: "map ?p [Suc (length segs)..<length ?ns] = map (\<lambda>i. path_of (segs @ take i ns)) [1..<Suc (length ns)]"
    by (rule nth_equalityI) (simp_all del: upt_Suc)
  have build: "buildHierarchy (map ?p [Suc (length segs)..<length ?ns] @ [path_of ?ns]) (flat_view g full) q = Some (chain g full segs ns q)"
    unfolding missing by (rule buildHierarchy_chain [OF wf(2) g full])
  have miss_none: "\<forall>a \<in> set (map ?p [Suc (length segs)..<length ?ns]). obj_get ?flat a = None"
  proof
    fix a assume "a \<in> set (map ?p [Suc (length segs)..<length ?ns])"
    then obtain j where "Suc (length segs) \<le> j" "a = ?p j" by (auto simp del: upt_Suc)
    then have "a = ?p (Suc (length segs + (j - Suc (length segs))))" by simp
    then obtain i where i: "a = ?p (Suc (length segs + i))" by blast
    have "take (Suc (length segs + i)) ?ns = segs @ take (Suc i) (ns @ [w])" by simp
    then show "obj_get ?flat a = None" using get [OF nd_take, of "Suc (length segs + i)"] none [of i] by (simp add: i)
  qed
  show ?thesis
  proof (cases "segs = []")
    case True
    with anc build closest_ancestor_none [OF miss_none] absent show ?thesis
      by (simp add: addPropertyToSchema_def)
  next
    case False
    then obtain p where p: "lookup_path schema segs = Some p" using closest by blast
    obtain f where f: "lookup_path full segs = Some f" "kind_of (p_type f) = kind_of (p_type p)"
      using sub p by (auto simp: sub_schema_def)
    have "kind_of (p_type p) = KObject"
      using lookup_path_append_Some [of full segs "ns @ [w]"] full False wf(2) f by auto
    then have obj: "p_type p = ObjectType (sub_properties p)" by (rule sub_properties_object [THEN iffD1])
    have nd: "no_dots segs" using names by simp
    have range: "map ?p [1..<length ?ns] = map ?p [1..<length segs] @ path_of segs # map ?p [Suc (length segs)..<length ?ns]"
    proof -
      have "[1..<length ?ns] = [1..<length segs] @ length segs # [Suc (length segs)..<length ?ns]"
        using False upt_add_eq_append [of 1 "length segs" "Suc (length ns)"] by (simp add: upt_conv_Cons Suc_le_eq del: upt_Suc)
      then show ?thesis by simp
    qed
    have "closest_ancestor ?flat (map ?p [1..<length ?ns]) =
        (map ?p [1..<length segs], Some (path_of segs), map ?p [Suc (length segs)..<length ?ns])"
      unfolding range by (rule closest_ancestor_split) (use get [OF nd False] p miss_none in simp_all)
    moreover have "object_entry ?flat (path_of segs) = Some (p, sub_properties p)"
      using obj_get_flatten_object [OF wf(1) nd False] p obj by (simp add: object_entry_def flattenProperty_def)
    moreover have "rev (map ?p [1..<length segs]) = prefixes_down segs"
      unfolding prefixes_down_def by (rule arg_cong [of _ _ rev], rule map_cong) auto
    moreover obtain top where
      "replace_up ?flat (set_p_type p (ObjectType (sub_properties p @ [chain g full segs ns q]))) (prefixes_down segs) = Some top"
      "replace_by_name schema top = set_sub schema segs (sub_properties p @ [chain g full segs ns q])"
      using replace_up_set_sub [OF wf(1) p] by blast
    ultimately show ?thesis using anc build absent p
      by (intro exI [of _ "sub_properties p"]) (simp add: addPropertyToSchema_def del: upt_Suc)
  qed
qed


text \<open>What adding a property to a part of the full schema does: it pushes a chain under the closest ancestor.\<close>

lemma addPropertyToSchema_form:
  assumes "wf_properties schema" "wf_properties full" "sub_schema schema full"
    and "lookup_path full ns \<noteq> None" "lookup_path schema ns = None"
    and "p_name q = last ns" and g: "keeps_shape g"
  shows "\<exists>segs ks w cur. ns = segs @ ks @ [w] \<and> p_name q = w \<and> 46 \<notin> set w
    \<and> (segs = [] \<and> cur = schema \<or> (\<exists>p. lookup_path schema segs = Some p \<and> cur = sub_properties p))
    \<and> lookup_path schema (segs @ [hd (ks @ [w])]) = None
    \<and> addPropertyToSchema (path_of ns) q schema (flat_view g full) (length ns = 1) =
        Some (set_sub schema segs (cur @ [chain g full segs ks q]))"
proof -
  obtain f where f: "lookup_path full ns = Some f" using assms(4) by blast
  have nd: "no_dots ns" "ns \<noteq> []" using lookup_path_names [OF f assms(2)] by simp_all
  obtain segs n ms where split: "ns = segs @ n # ms" "segs = [] \<or> lookup_path schema segs \<noteq> None"
    "lookup_path schema (segs @ [n]) = None" using closest_split [OF nd(2) assms(5)] by blast
  obtain ks w where ks: "n # ms = ks @ [w]" by (cases "n # ms" rule: rev_cases) auto
  then have hd: "hd (ks @ [w]) = n" by (metis list.sel(1))
  have ns: "ns = segs @ ks @ [w]" using split(1) ks by simp
  have w: "p_name q = w" "46 \<notin> set w" using assms(6) nd by (simp_all add: ns)
  have path: "lookup_path full (segs @ ks @ [w]) \<noteq> None" using f by (simp add: ns)
  show ?thesis
  proof (cases "segs = [] \<and> ks = []")
    case True
    then have "p_name q \<notin> p_name ` set schema" using split(3) hd w by (simp add: lookup_single_name)
    then have "\<not> (\<exists>p \<in> set schema. p_name p = p_name q)" by (metis image_eqI)
    with True split(3) w hd show ?thesis
      unfolding ns
      by (intro exI [of _ "[]"] exI [of _ "[]::jsstr list"] exI [of _ w] exI [of _ schema]) (simp add: addPropertyToSchema_def)
  next
    case False
    obtain cur where cur: "segs = [] \<and> cur = schema \<or> (\<exists>p. lookup_path schema segs = Some p \<and> cur = sub_properties p)"
      "addPropertyToSchema (path_of ns) q schema (flat_view g full) False = Some (set_sub schema segs (cur @ [chain g full segs ks q]))"
      using addPropertyToSchema_push [OF assms(1,2) path split(2) _ assms(3) w(1) g, unfolded hd, OF split(3)] False
      unfolding ns by blast
    have len: "(length ns = 1) = False" using False by (auto simp: ns)
    show ?thesis
      unfolding len
      by (rule exI [of _ segs], rule exI [of _ ks], rule exI [of _ w], rule exI [of _ cur], intro conjI)
        (use cur w split(3) hd ns in simp_all)
  qed
qed

lemma addPropertyToSchema_spec:
  assumes "wf_properties schema" "wf_properties full" "sub_schema schema full"
    and "lookup_path full ns \<noteq> None" "lookup_path schema ns = None"
    and "p_name q = last ns" "wf_properties (sub_properties q)" and g: "keeps_shape g"
  shows "\<exists>schema'. addPropertyToSchema (path_of ns) q schema (flat_view g full) (length ns = 1) = Some schema'
    \<and> wf_properties schema' \<and> lookup_path schema' ns = Some q
    \<and> (\<forall>ms. lookup_path schema' ms \<noteq> None \<longleftrightarrow> lookup_path schema ms \<noteq> None \<or> on_path ns q ms)"
proof -
  obtain segs ks w cur where ns: "ns = segs @ ks @ [w]" and w: "p_name q = w" "46 \<notin> set w"
    and cur: "segs = [] \<and> cur = schema \<or> (\<exists>p. lookup_path schema segs = Some p \<and> cur = sub_properties p)"
    and new: "lookup_path schema (segs @ [hd (ks @ [w])]) = None"
    and eq: "addPropertyToSchema (path_of ns) q schema (flat_view g full) (length ns = 1) =
        Some (set_sub schema segs (cur @ [chain g full segs ks q]))"
    using addPropertyToSchema_form [OF assms(1-6) g] by blast
  let ?c = "chain g full segs ks q"
  have "lookup_path full (segs @ ks @ [w]) \<noteq> None" using assms(4) by (simp add: ns)
  note chain = chain_facts [OF assms(2) g w assms(7) this]
  then have c: "wf_properties [?c]" "lookup_path [?c] (ks @ [w]) = Some q"
    "\<And>ms. lookup_path [?c] ms \<noteq> None \<longleftrightarrow> on_path (ks @ [w]) q ms" and "p_name ?c = hd (ks @ [w])" by blast+
  with new have "lookup_path schema (segs @ [p_name ?c]) = None" by simp
  from push_chain [OF assms(1) c(1) cur this c(2,3)] eq show ?thesis unfolding ns by blast
qed

text \<open>The schema stays a part of the full one when the property is the one of the full schema, or a part of it.\<close>

lemma lookup_set_sub_kind:
  "lookup_path ps ns = Some p \<Longrightarrow> kind_of (p_type p) = KObject \<Longrightarrow> (\<And>r. r \<noteq> [] \<Longrightarrow> ms \<noteq> ns @ r) \<Longrightarrow>
     lookup_path (set_sub ps ns qs) ms = Some p' \<Longrightarrow> \<exists>p0. lookup_path ps ms = Some p0 \<and> kind_of (p_type p0) = kind_of (p_type p')"
proof (induction ps ns arbitrary: ms rule: lookup_path.induct)
  case (3 q ps n ns)
  from "3.prems"(4) obtain m ms' where ms: "ms = m # ms'" by (cases ms) auto
  show ?case
  proof (cases "p_name q = n")
    case True
    show ?thesis
    proof (cases "ns = []")
      case nil: True
      with True "3.prems"(3) [of ms'] have "ms' = [] \<or> m \<noteq> n" by (auto simp: ms)
      with nil True "3.prems" show ?thesis by (auto simp: ms split: if_splits)
    next
      case False
      with True "3.prems" have p: "lookup_path (sub_properties q) ns = Some p" by simp
      then have "sub_properties q \<noteq> []" using False by (cases ns) auto
      then have obj: "kind_of (p_type q) = KObject" using sub_properties_not_object by blast
      show ?thesis
      proof (cases "m = n \<and> ms' \<noteq> []")
        case m: True
        have "\<exists>p0. lookup_path (sub_properties q) ms' = Some p0 \<and> kind_of (p_type p0) = kind_of (p_type p')"
          by (rule "3.IH"(1) [OF True False p "3.prems"(2), of ms']) (use "3.prems"(3,4) True False m in \<open>auto simp: ms\<close>)
        with m True show ?thesis by (simp add: ms)
      qed (use True False obj "3.prems"(4) in \<open>auto simp: ms split: if_splits\<close>)
    qed
  next
    case False
    show ?thesis
    proof (cases "p_name q = m")
      case True
      with False "3.prems"(4) show ?thesis by (auto simp: ms)
    next
      case m: False
      have "lookup_path ps (n # ns) = Some p" using False "3.prems"(1) by simp
      from "3.IH"(2) [OF False this "3.prems"(2), of ms] "3.prems"(3,4) False m show ?thesis by (auto simp: ms)
    qed
  qed
qed simp_all

lemma chain_kinds:
  assumes wf: "wf_properties full"
    and q: "p_name q = w" "kind_of (p_type q) = kind_of (p_type f)" "sub_schema (sub_properties q) (sub_properties f)"
  shows "lookup_path full (segs @ ns @ [w]) = Some f \<Longrightarrow> keeps_shape g \<Longrightarrow> lookup_path [chain g full segs ns q] ms = Some p \<Longrightarrow>
    \<exists>f'. lookup_path full (segs @ ms) = Some f' \<and> kind_of (p_type f') = kind_of (p_type p)"
proof (induction ns arbitrary: segs ms)
  case Nil
  then obtain r where r: "ms = w # r" "r = [] \<and> p = q \<or> r \<noteq> [] \<and> lookup_path (sub_properties q) r = Some p"
    using q(1) by (cases ms) (auto split: if_splits)
  show ?case
  proof (cases "r = []")
    case False
    with r q(3) obtain f' where "lookup_path (sub_properties f) r = Some f'" "kind_of (p_type f') = kind_of (p_type p)"
      by (auto simp: sub_schema_def)
    with lookup_path_below [of full "segs @ [w]" f r] Nil False wf r show ?thesis by simp
  qed (use Nil r q in auto)
next
  case (Cons n ns)
  obtain e where e: "lookup_path full (segs @ [n]) = Some e" "kind_of (p_type e) = KObject"
    using lookup_path_append_Some [of full "segs @ [n]" "ns @ [w]"] Cons.prems(1) wf by auto
  have n: "p_name (g e) = n" using lookup_path_name [OF e(1)] keeps_shapeD [OF Cons.prems(2)] by simp
  obtain r where r: "ms = n # r" "r = [] \<and> kind_of (p_type p) = KObject \<or> r \<noteq> [] \<and> lookup_path [chain g full (segs @ [n]) ns q] r = Some p"
    using Cons.prems(3) n e by (cases ms) (auto split: if_splits)
  show ?case
  proof (cases "r = []")
    case False
    with r Cons.IH [of "segs @ [n]" r] Cons.prems show ?thesis by simp
  qed (use e r in simp)
qed

lemma addPropertyToSchema_sub:
  assumes "wf_properties schema" "wf_properties full" and sub: "sub_schema schema full"
    and f: "lookup_path full ns = Some f" and "lookup_path schema ns = None"
    and q: "p_name q = last ns" "kind_of (p_type q) = kind_of (p_type f)" "sub_schema (sub_properties q) (sub_properties f)"
    and g: "keeps_shape g"
    and add: "addPropertyToSchema (path_of ns) q schema (flat_view g full) (length ns = 1) = Some schema'"
  shows "sub_schema schema' full"
proof -
  have "lookup_path full ns \<noteq> None" using f by simp
  then obtain segs ks w cur where ns: "ns = segs @ ks @ [w]" and w: "p_name q = w"
    and cur: "segs = [] \<and> cur = schema \<or> (\<exists>p. lookup_path schema segs = Some p \<and> cur = sub_properties p)"
    and schema': "schema' = set_sub schema segs (cur @ [chain g full segs ks q])"
    using addPropertyToSchema_form [OF assms(1,2,3) _ assms(5) q(1) g] unfolding add option.inject by blast
  let ?c = "chain g full segs ks q"
  have c: "\<exists>f'. lookup_path full (segs @ r) = Some f' \<and> kind_of (p_type f') = kind_of (p_type p)"
    if "lookup_path [?c] r = Some p" for r p
    using chain_kinds [OF assms(2) w q(2,3) _ g that] f by (simp add: ns)
  have cur_sub: "\<exists>f'. lookup_path full (segs @ r) = Some f' \<and> kind_of (p_type f') = kind_of (p_type p)"
    if "lookup_path cur r = Some p" for r p
  proof -
    from that have "r \<noteq> []" by auto
    then have "lookup_path schema (segs @ r) = Some p"
      using cur that lookup_path_below [of schema segs _ r] assms(1) by auto
    with sub show ?thesis by (simp add: sub_schema_def)
  qed
  have below: "\<exists>f'. lookup_path full (segs @ r) = Some f' \<and> kind_of (p_type f') = kind_of (p_type p)"
    if "lookup_path (cur @ [?c]) r = Some p" for r p
  proof -
    from that have "r \<noteq> []" by auto
    with that c cur_sub show ?thesis by (auto simp: lookup_path_snoc split: if_splits)
  qed
  show ?thesis
    unfolding sub_schema_def
  proof (intro allI impI)
    fix ms p assume p: "lookup_path schema' ms = Some p"
    show "\<exists>f. lookup_path full ms = Some f \<and> kind_of (p_type f) = kind_of (p_type p)"
    proof (cases "\<exists>r. r \<noteq> [] \<and> ms = segs @ r")
      case True
      then obtain r where r: "r \<noteq> []" "ms = segs @ r" by blast
      have "lookup_path schema' ms = lookup_path (cur @ [?c]) r"
        using cur lookup_set_sub_below [of schema segs _ r] r by (auto simp: schema')
      with below [of r p] p r show ?thesis by simp
    next
      case False
      then have segs: "segs \<noteq> []" using p by (cases ms) auto
      then obtain e where e: "lookup_path schema segs = Some e" using cur by blast
      moreover have "kind_of (p_type e) = KObject"
      proof -
        obtain e' where e': "lookup_path full segs = Some e'" "kind_of (p_type e') = KObject"
          using lookup_path_append_Some [of full segs "ks @ [w]"] f segs assms(2) by (auto simp: ns)
        have "\<exists>f. lookup_path full segs = Some f \<and> kind_of (p_type f) = kind_of (p_type e)"
          using sub e unfolding sub_schema_def by blast
        with e' show ?thesis by simp
      qed
      ultimately obtain p0 where p0: "lookup_path schema ms = Some p0" "kind_of (p_type p0) = kind_of (p_type p)"
        using lookup_set_sub_kind [of schema segs e ms "cur @ [chain g full segs ks q]" p] False p [unfolded schema'] by blast
      have "\<exists>f. lookup_path full ms = Some f \<and> kind_of (p_type f) = kind_of (p_type p0)"
        using sub p0(1) unfolding sub_schema_def by blast
      with p0(2) show ?thesis by simp
    qed
  qed
qed

text \<open>
  C15: adding a property of the full schema that the schema lacks never fails; the result is well
  formed, has the property at its path, and its paths are those the schema had, the path and its
  ancestors, and the sub-properties of the property. Nothing else is added or lost.
\<close>

theorem addPropertyToSchema_paths:
  assumes "wf_properties schema" "wf_properties full" "sub_schema schema full"
    and "lookup_path full ns \<noteq> None" "lookup_path schema ns = None"
    and "p_name q = last ns" "wf_properties (sub_properties q)"
  shows "\<exists>schema'. addPropertyToSchema (path_of ns) q schema (flatten_object full) (length ns = 1) = Some schema'
    \<and> wf_properties schema' \<and> lookup_path schema' ns = Some q
    \<and> (\<forall>ms. lookup_path schema' ms \<noteq> None \<longleftrightarrow> lookup_path schema ms \<noteq> None \<or> on_path ns q ms)"
  using addPropertyToSchema_spec [OF assms keeps_shape_id] by simp

theorem addPropertyToSchema_paths_witness:
  "\<exists>schema'. addPropertyToSchema (path_of [js ''address'', js ''geo'', js ''lat'']) (plain_property (js ''lat'') DateType)
      [] (flatten_object example_schema) False = Some schema'
    \<and> lookup_path schema' [js ''address'', js ''geo'', js ''lat''] = Some (plain_property (js ''lat'') DateType)
    \<and> lookup_path schema' [js ''address'', js ''street''] = None"
proof -
  let ?ns = "[js ''address'', js ''geo'', js ''lat'']"
  let ?q = "plain_property (js ''lat'') DateType"
  have "lookup_path example_schema ?ns \<noteq> None" by (simp add: example_schema_simps)
  moreover have "p_name ?q = last ?ns" "wf_properties (sub_properties ?q)" by (simp_all add: example_schema_simps)
  ultimately obtain schema' where s:
    "addPropertyToSchema (path_of ?ns) ?q [] (flatten_object example_schema) False = Some schema'"
    "lookup_path schema' ?ns = Some ?q"
    "\<forall>ms. lookup_path schema' ms \<noteq> None \<longleftrightarrow> lookup_path [] ms \<noteq> None \<or> on_path ?ns ?q ms"
    using addPropertyToSchema_paths [of "[]" example_schema ?ns ?q] example_schema_wf
    by (auto simp: sub_schema_def)
  have "\<not> on_path ?ns ?q [js ''address'', js ''street'']" by (simp add: on_path_def)
  with s show ?thesis by auto
qed

text \<open>A property the schema already has, first-level or nested, leaves it as it is.\<close>

lemma addPropertyToSchema_present:
  assumes "wf_properties schema" "lookup_path schema ns \<noteq> None" "p_name q = last ns"
  shows "addPropertyToSchema (path_of ns) q schema fullSchema (length ns = 1) = Some schema"
proof -
  obtain p where p: "lookup_path schema ns = Some p" using assms(2) by blast
  have nd: "no_dots ns" "ns \<noteq> []" using lookup_path_names [OF p assms(1)] by simp_all
  have "\<exists>p \<in> set schema. p_name p = p_name q" if "length ns = 1"
    using that assms(2,3) by (cases ns) (auto simp: lookup_single_name [simplified])
  moreover have "obj_get (flatten_object schema) (path_of ns) \<noteq> None"
    using obj_get_flatten_object [OF assms(1) nd] p by simp
  ultimately show ?thesis by (auto simp: addPropertyToSchema_def Let_def)
qed

subsection \<open>What sortPropertiesByOriginalSchema keeps\<close>

text \<open>The properties of the schema in the order of the original.\<close>

fun in_order :: "property list \<Rightarrow> property list \<Rightarrow> property list" where
  "in_order schema [] = []"
| "in_order schema (op # ops) =
     (case find (\<lambda>p. p_name p = p_name op) schema of
        None \<Rightarrow> in_order schema ops
      | Some p \<Rightarrow> p # in_order schema ops)"

lemma find_name_None: "find (\<lambda>p. p_name p = n) ps = None \<longleftrightarrow> n \<notin> p_name ` set ps"
  by (auto simp: find_None_iff)

lemma find_name_Some: "find (\<lambda>p. p_name p = n) ps = Some p \<Longrightarrow> p \<in> set ps \<and> p_name p = n"
  by (metis (mono_tags, lifting) find_Some_iff nth_mem)

lemma wf_names: "wf_properties ps \<Longrightarrow> distinct (map p_name ps)"
  by (induction ps) auto

lemma find_name_member: "distinct (map p_name ps) \<Longrightarrow> p \<in> set ps \<Longrightarrow> find (\<lambda>q. p_name q = p_name p) ps = Some p"
  by (induction ps) auto

lemma in_order_set: "set (in_order schema ops) \<subseteq> set schema" "p_name ` set (in_order schema ops) \<subseteq> p_name ` set ops"
  by (induction ops) (auto split: option.splits dest!: find_name_Some)

lemma in_order_distinct: "distinct (map p_name ops) \<Longrightarrow> distinct (map p_name (in_order schema ops))"
proof (induction ops)
  case (Cons op ops)
  then have "p_name op \<notin> p_name ` set (in_order schema ops)" using in_order_set(2) [of schema ops] by auto
  with Cons show ?case
  proof (cases "find (\<lambda>p. p_name p = p_name op) schema")
    case (Some p)
    then have "p_name p = p_name op" using find_name_Some by blast
    with Cons Some \<open>p_name op \<notin> p_name ` set (in_order schema ops)\<close> show ?thesis by simp
  qed (use Cons in simp)
qed simp

lemma in_order_all:
  "distinct (map p_name schema) \<Longrightarrow> p \<in> set schema \<Longrightarrow> p_name p \<in> p_name ` set ops \<Longrightarrow> p \<in> set (in_order schema ops)"
proof (induction ops)
  case (Cons op ops)
  show ?case
  proof (cases "p_name op = p_name p")
    case True
    with find_name_member [OF Cons.prems(1,2)] show ?thesis by simp
  next
    case False
    with Cons show ?thesis by (auto split: option.splits)
  qed
qed simp

lemma original_index_inj:
  "p_name p \<in> p_name ` set original \<Longrightarrow> original_index original p = original_index original q \<Longrightarrow> p_name p = p_name q"
proof -
  assume "p_name p \<in> p_name ` set original" and eq: "original_index original p = original_index original q"
  then obtain i where i: "find_index (\<lambda>op. p_name op = p_name p) original = Some i"
    by (cases "find_index (\<lambda>op. p_name op = p_name p) original") (auto simp: find_index_eq_None)
  with eq have j: "find_index (\<lambda>op. p_name op = p_name q) original = Some i"
    using find_index_SomeD [OF i] by (auto simp: original_index_def split: option.splits)
  show ?thesis using find_index_SomeD [OF i] find_index_SomeD [OF j] by simp
qed

lemma original_index_Cons:
  "original_index (op # ops) p = (if p_name op = p_name p then 0 else Suc (original_index ops p))"
  by (auto simp: original_index_def split: option.splits)

lemma in_order_sorted:
  "distinct (map p_name ops) \<Longrightarrow> sorted (map (original_index ops) (in_order schema ops))"
proof (induction ops)
  case (Cons op ops)
  have "p_name op \<notin> p_name ` set (in_order schema ops)"
    using in_order_set(2) [of schema ops] Cons.prems by auto
  then have other: "p_name op \<noteq> p_name p" if "p \<in> set (in_order schema ops)" for p
    using that by (metis image_eqI)
  have "map (original_index (op # ops)) (in_order schema ops) = map (\<lambda>p. Suc (original_index ops p)) (in_order schema ops)"
    by (rule map_cong) (use other in \<open>simp_all add: original_index_Cons\<close>)
  moreover have "sorted (map (\<lambda>p. Suc (original_index ops p)) (in_order schema ops))"
    using Cons by (simp add: sorted_map)
  ultimately have rest: "sorted (map (original_index (op # ops)) (in_order schema ops))" by (simp only:)
  show ?case
  proof (cases "find (\<lambda>p. p_name p = p_name op) schema")
    case (Some p)
    then have "p_name p = p_name op" using find_name_Some by blast
    with rest Some show ?thesis by (simp add: original_index_Cons [of op ops p])
  qed (use rest in simp)
qed simp

lemma sort_in_order:
  assumes "distinct (map p_name schema)" "distinct (map p_name original)" "p_name ` set schema \<subseteq> p_name ` set original"
  shows "sort_key (original_index original) schema = in_order schema original"
proof (rule sort_key_inj_key_eq)
  have "set (in_order schema original) = set schema"
    using in_order_set(1) [of schema original] in_order_all [OF assms(1)] assms(3) by blast
  then show "mset schema = mset (in_order schema original)"
    using in_order_distinct [OF assms(2), of schema] assms(1)
    by (metis distinct_map set_eq_iff_mset_eq_distinct)
  show "inj_on (original_index original) (set schema)"
  proof (rule inj_onI)
    fix p q assume "p \<in> set schema" "q \<in> set schema" "original_index original p = original_index original q"
    with original_index_inj [of p original q] assms(1,3) show "p = q"
      by (auto simp: distinct_map inj_on_def)
  qed
  show "sorted (map (original_index original) (in_order schema original))"
    by (rule in_order_sorted [OF assms(2)])
qed


lemma sub_schema_below:
  assumes "sub_schema schema original" "wf_properties schema" "wf_properties original"
    and "lookup_path schema [n] = Some p" "lookup_path original [n] = Some f"
  shows "sub_schema (sub_properties p) (sub_properties f)"
  unfolding sub_schema_def
proof (intro allI impI)
  fix ms q assume q: "lookup_path (sub_properties p) ms = Some q"
  then have "ms \<noteq> []" by (cases ms) auto
  with q have "lookup_path schema ([n] @ ms) = Some q" using lookup_path_below [OF assms(4) _ assms(2)] by simp
  then obtain f' where "lookup_path original ([n] @ ms) = Some f'" "kind_of (p_type f') = kind_of (p_type q)"
    using assms(1) by (auto simp: sub_schema_def)
  with lookup_path_below [OF assms(5) \<open>ms \<noteq> []\<close> assms(3)]
  show "\<exists>f'. lookup_path (sub_properties f) ms = Some f' \<and> kind_of (p_type f') = kind_of (p_type q)" by auto
qed

lemma lookup_member: "wf_properties ps \<Longrightarrow> p \<in> set ps \<Longrightarrow> lookup_path ps [p_name p] = Some p"
  by (induction ps) auto

lemma lookup_find: "lookup_path ps [n] = find (\<lambda>p. p_name p = n) ps"
  by (induction ps) auto

lemma those_map_Some: "(\<And>x. x \<in> set xs \<Longrightarrow> f x = Some (g x)) \<Longrightarrow> those (map f xs) = Some (map g xs)"
  by (induction xs) auto

lemma tree_paths_iff:
  assumes "no_dots segs" "wf_properties ps" "no_dots ms" "ms \<noteq> []"
  shows "path_of (segs @ ms) \<in> set (tree_paths segs ps) \<longleftrightarrow> lookup_path ps ms \<noteq> None"
  unfolding tree_paths_def by (rule flat_entries_keys_form [OF assms])

lemma tree_paths_below_iff:
  assumes "no_dots segs" "wf_properties ps" "46 \<notin> set n" "wf_properties qs"
    and "k \<in> set (tree_paths (segs @ [n]) qs)"
  shows "k \<in> set (tree_paths segs ps) \<longleftrightarrow>
    (case find (\<lambda>p. p_name p = n) ps of
       None \<Rightarrow> False
     | Some p \<Rightarrow> k \<in> set (tree_paths (segs @ [n]) (sub_properties p)))"
proof -
  from tree_pathsD [OF assms(5,4)] obtain ms where ms: "k = path_of ((segs @ [n]) @ ms)" "no_dots ms" "ms \<noteq> []" by blast
  have k: "k \<in> set (tree_paths segs ps) \<longleftrightarrow> lookup_path ps (n # ms) \<noteq> None"
    using tree_paths_iff [OF assms(1,2), of "n # ms"] assms(3) ms by simp
  show ?thesis
  proof (cases "find (\<lambda>p. p_name p = n) ps")
    case None
    then have "n \<notin> p_name ` set ps" by (simp add: find_name_None)
    then have "lookup_path ps (n # ms) = None" using lookup_path_none [of "n # ms" ps] by simp
    with k None show ?thesis by simp
  next
    case (Some p)
    then have p: "lookup_path ps [n] = Some p" by (simp add: lookup_find)
    have "lookup_path ps (n # ms) = lookup_path (sub_properties p) ms"
      using lookup_path_below [OF p ms(3) assms(2)] by simp
    moreover have "k \<in> set (tree_paths (segs @ [n]) (sub_properties p)) \<longleftrightarrow> lookup_path (sub_properties p) ms \<noteq> None"
      unfolding ms(1) by (rule tree_paths_iff) (use assms ms wf_lookup [OF p assms(2)] in simp_all)
    ultimately show ?thesis using k Some by simp
  qed
qed

lemma tree_paths_in_order:
  assumes segs: "no_dots segs" and wf: "wf_properties schema"
    and g: "\<And>p op. p \<in> set schema \<Longrightarrow> op \<in> set ops \<Longrightarrow> p_name op = p_name p \<Longrightarrow> p_name (g p) = p_name p \<and>
      tree_paths (segs @ [p_name p]) (sub_properties (g p)) =
        filter (\<lambda>k. k \<in> set (tree_paths (segs @ [p_name p]) (sub_properties p)))
          (tree_paths (segs @ [p_name p]) (sub_properties op))"
  shows "wf_properties ops \<Longrightarrow> tree_paths segs (map g (in_order schema ops)) =
    filter (\<lambda>k. k \<in> set (tree_paths segs schema)) (tree_paths segs ops)"
  using g
proof (induction ops)
  case (Cons op ops)
  let ?n = "p_name op"
  let ?in = "\<lambda>k. k \<in> set (tree_paths segs schema)"
  have n: "46 \<notin> set ?n" "wf_properties (sub_properties op)" using Cons.prems(1) by simp_all
  have IH: "tree_paths segs (map g (in_order schema ops)) = filter ?in (tree_paths segs ops)"
    by (rule Cons.IH) (use Cons.prems(1) in simp, use Cons.prems(2) in \<open>meson list.set_intros(2)\<close>)
  have here: "?in (path_of (segs @ [?n])) \<longleftrightarrow> find (\<lambda>p. p_name p = ?n) schema \<noteq> None"
    using tree_paths_iff [OF segs wf, of "[?n]"] n(1) by (simp add: lookup_find)
  note below = tree_paths_below_iff [OF segs wf n]
  show ?case
  proof (cases "find (\<lambda>p. p_name p = ?n) schema")
    case None
    have "filter ?in (tree_paths (segs @ [?n]) (sub_properties op)) = []"
      using below None by (simp add: filter_empty_conv)
    with IH here None show ?thesis by simp
  next
    case (Some p)
    then have p: "p \<in> set schema" "p_name p = ?n" using find_name_Some by blast+
    have "filter ?in (tree_paths (segs @ [?n]) (sub_properties op)) =
        filter (\<lambda>k. k \<in> set (tree_paths (segs @ [?n]) (sub_properties p))) (tree_paths (segs @ [?n]) (sub_properties op))"
      by (rule filter_cong [OF refl]) (use below Some in simp)
    also have "\<dots> = tree_paths (segs @ [?n]) (sub_properties (g p))"
      using Cons.prems(2) [OF p(1), of op] p by simp
    finally show ?thesis using IH here Some Cons.prems(2) [OF p(1), of op] p by simp
  qed
qed simp

lemma sort_tree_paths:
  "wf_properties schema \<Longrightarrow> wf_properties original \<Longrightarrow> sub_schema schema original \<Longrightarrow>
     \<exists>r. sortPropertiesByOriginalSchema schema original = Some r \<and>
       (\<forall>segs. no_dots segs \<longrightarrow> tree_paths segs r = filter (\<lambda>k. k \<in> set (tree_paths segs schema)) (tree_paths segs original))"
proof (induction schema original rule: sortPropertiesByOriginalSchema.induct)
  case (1 schema original)
  have names: "p_name ` set schema \<subseteq> p_name ` set original"
  proof
    fix n assume "n \<in> p_name ` set schema"
    then obtain p where "lookup_path schema [n] = Some p"
      using lookup_single_name [of schema n] by blast
    with "1.prems"(3) have "lookup_path original [n] \<noteq> None" unfolding sub_schema_def by blast
    then show "n \<in> p_name ` set original" by (simp add: lookup_single_name)
  qed
  have sorted: "sort_key (original_index original) schema = in_order schema original"
    using "1.prems" names by (intro sort_in_order wf_names) auto
  let ?f = "\<lambda>p. case find (\<lambda>op. p_name op = p_name p) original of
         None \<Rightarrow> None
       | Some prop \<Rightarrow>
           if kind_of (p_type p) = KObject
           then map_option (\<lambda>qs. set_p_type p (ObjectType qs))
                  (sortPropertiesByOriginalSchema (sub_properties p) (sub_properties prop))
           else Some p"
  have each: "\<exists>p'. ?f p = Some p' \<and> p_name p' = p_name p \<and>
      (\<forall>segs. no_dots segs \<longrightarrow> tree_paths (segs @ [p_name p]) (sub_properties p') =
        filter (\<lambda>k. k \<in> set (tree_paths (segs @ [p_name p]) (sub_properties p)))
          (tree_paths (segs @ [p_name p]) (sub_properties op)))"
    if p: "p \<in> set schema" and op: "op \<in> set original" "p_name op = p_name p" for p op
  proof -
    have find: "find (\<lambda>op. p_name op = p_name p) original = Some op"
      using find_name_member [OF wf_names [OF "1.prems"(2)] op(1)] op(2) by simp
    have lp: "lookup_path schema [p_name p] = Some p" using lookup_member [OF "1.prems"(1) p] .
    have lo: "lookup_path original [p_name p] = Some op" using find by (simp add: lookup_find)
    have dot: "46 \<notin> set (p_name p)" using lookup_path_names [OF lp "1.prems"(1)] by simp
    show ?thesis
    proof (cases "kind_of (p_type p) = KObject")
      case True
      have "p \<in> set (sort_key (original_index original) schema)" using p by simp
      from "1.IH" [OF this find True wf_lookup [OF lp "1.prems"(1)] wf_lookup [OF lo "1.prems"(2)]
          sub_schema_below [OF "1.prems"(3,1,2) lp lo]]
      show ?thesis using find True dot by auto
    next
      case False
      then have "sub_properties p = []" by (rule sub_properties_not_object)
      with find False show ?thesis by simp
    qed
  qed
  define g where "g p = the (?f p)" for p
  have some: "?f p = Some (g p)" if p: "p \<in> set schema" for p
  proof -
    from names p have "p_name p \<in> p_name ` set original" by blast
    then obtain op where op: "op \<in> set original" "p_name op = p_name p" by (metis imageE)
    obtain p' where "?f p = Some p'" using each [OF p op] by blast
    then show ?thesis by (simp only: g_def option.sel)
  qed
  have g: "p_name (g p) = p_name p \<and>
      tree_paths (segs @ [p_name p]) (sub_properties (g p)) =
        filter (\<lambda>k. k \<in> set (tree_paths (segs @ [p_name p]) (sub_properties p)))
          (tree_paths (segs @ [p_name p]) (sub_properties op))"
    if nd: "no_dots segs" and p: "p \<in> set schema" "op \<in> set original" "p_name op = p_name p" for segs p op
  proof -
    obtain p' where "?f p = Some p'" "p_name p' = p_name p"
      "tree_paths (segs @ [p_name p]) (sub_properties p') =
        filter (\<lambda>k. k \<in> set (tree_paths (segs @ [p_name p]) (sub_properties p)))
          (tree_paths (segs @ [p_name p]) (sub_properties op))"
      using each [OF p] nd by blast
    moreover from this(1) have "g p = p'" by (simp only: g_def option.sel)
    ultimately show ?thesis by simp
  qed
  have "sortPropertiesByOriginalSchema schema original = Some (map g (in_order schema original))"
    unfolding sortPropertiesByOriginalSchema.simps [of schema original] sorted
    by (rule those_map_Some) (use some in_order_set(1) in blast)
  moreover have "tree_paths segs (map g (in_order schema original)) =
      filter (\<lambda>k. k \<in> set (tree_paths segs schema)) (tree_paths segs original)" if "no_dots segs" for segs
    by (rule tree_paths_in_order [OF that "1.prems"(1) g "1.prems"(2)]) (rule that)
  ultimately show ?case by blast
qed

text \<open>
  sorting a part of a schema by the schema succeeds, keeps every path, and lists the paths in
  the order the schema has them, at every level.
\<close>

theorem sortPropertiesByOriginalSchema_order:
  assumes "wf_properties schema" "wf_properties original" "sub_schema schema original"
  shows "\<exists>r. sortPropertiesByOriginalSchema schema original = Some r \<and>
    tree_paths [] r = filter (\<lambda>k. k \<in> set (tree_paths [] schema)) (tree_paths [] original)"
  using sort_tree_paths [OF assms] by (metis no_dots_simps(1))

definition reversed_example :: "property list" where
  "reversed_example =
    [plain_property (js ''address'') (ObjectType
       [plain_property (js ''geo'') (ObjectType [plain_property (js ''lat'') DateType]),
        plain_property (js ''street'') string_kind]),
     plain_property (js ''email'') string_kind]"

lemma reversed_example_sub: "wf_properties reversed_example" "sub_schema reversed_example example_schema"
proof -
  show "wf_properties reversed_example" by (simp add: reversed_example_def example_schema_simps)
  show "sub_schema reversed_example example_schema"
    unfolding sub_schema_def
  proof (intro allI impI)
    fix ms p assume "lookup_path reversed_example ms = Some p"
    then show "\<exists>f. lookup_path example_schema ms = Some f \<and> kind_of (p_type f) = kind_of (p_type p)"
      by (cases "(reversed_example, ms)" rule: lookup_path.cases)
        (auto simp: reversed_example_def example_schema_simps neq_Nil_conv split: if_splits)
  qed
qed

theorem sortPropertiesByOriginalSchema_order_witness:
  "\<exists>r. sortPropertiesByOriginalSchema reversed_example example_schema = Some r \<and>
    tree_paths [] r = [js ''email'', js ''address'', js ''address.street'', js ''address.geo'', js ''address.geo.lat'']"
  using sortPropertiesByOriginalSchema_order [OF reversed_example_sub(1) example_schema_wf reversed_example_sub(2)]
  by (simp add: reversed_example_def example_schema_simps)

end
