(* ===== verification/Connections.thy ===== *)
theory Connections
  imports Api_Types
begin

section \<open>Connectors and connections (lib/core/connector.ts, lib/core/connection.ts)\<close>

text \<open>
  The two classes the admin wraps the server's connectors and connections in. Their fields are
  records, their getters and methods functions of the record, their constructors functions with
  the defaults the source assigns.
\<close>

datatype strategy = Conversion | Fusion | Isolation | Preservation

datatype variant = NoVariant | Success | Danger

record connector_oauth =
  co_configured :: bool
  co_disallow127_0_0_1 :: bool
  co_disallowLocalhost :: bool

record connector_terms =
  ct_user :: jsstr
  ct_users :: jsstr
  ct_userID :: jsstr

subsection \<open>Connectors\<close>

record transformed_connector =
  tc_code :: jsstr
  tc_label :: jsstr
  tc_type :: connector_type
  tc_categories :: "jsstr list"
  tc_asSource :: "source_connector option"
  tc_asDestination :: "destination_connector option"
  tc_hasSheets :: bool
  tc_fileExtension :: jsstr
  tc_oauth :: connector_oauth
  tc_terms :: connector_terms
  tc_strategies :: bool

definition connector_hasSnippet :: "transformed_connector \<Rightarrow> bool" where
  "connector_hasSnippet c \<longleftrightarrow> tc_type c = CSDK"

definition connector_is :: "connector_type \<Rightarrow> transformed_connector \<Rightarrow> bool" where
  "connector_is t c \<longleftrightarrow> tc_type c = t"

definition supportedSendingModes :: "transformed_connector \<Rightarrow> sending_mode list" where
  "supportedSendingModes c =
     (case tc_asDestination c of
        None \<Rightarrow> []
      | Some d \<Rightarrow>
          (case dc_sendingMode d of
             None \<Rightarrow> []
           | Some ClientAndServer \<Rightarrow> [Client, Server, ClientAndServer]
           | Some m \<Rightarrow> [m]))"

text \<open>\<open>None\<close> is the \<open>TypeError\<close> of reading \<open>hasSettings\<close> of a role the connector does not have.\<close>

definition connector_hasSettings :: "transformed_connector \<Rightarrow> connection_role \<Rightarrow> bool option" where
  "connector_hasSettings c r =
     (case r of
        Source \<Rightarrow> map_option sc_hasSettings (tc_asSource c)
      | Destination \<Rightarrow> map_option dc_hasSettings (tc_asDestination c))"

subsection \<open>Connections\<close>

record connection_status =
  cs_text :: jsstr
  cs_variant :: variant

record transformed_event_type =
  et_id :: jsstr
  et_name :: jsstr
  et_description :: jsstr
  et_defaultFilter :: "filter_tree option"

text \<open>\<open>linkedFiles\<close> is never read.\<close>

record transformed_connection =
  cn_id :: jsstr
  cn_name :: jsstr
  cn_connector :: transformed_connector
  cn_role :: connection_role
  cn_health :: health
  cn_storage :: jsstr
  cn_compression :: compression
  cn_strategy :: "strategy option"
  cn_sendingMode :: "sending_mode option"
  cn_status :: connection_status
  cn_description :: jsstr
  cn_pipelineTypes :: "pipeline_type list"
  cn_pipelines :: "pipeline list"
  cn_eventTypes :: "transformed_event_type list"
  cn_linkedConnections :: "jsstr list option"

definition null_default :: "'a \<Rightarrow> 'a option \<Rightarrow> 'a" where
  "null_default d v = (case v of None \<Rightarrow> d | Some x \<Rightarrow> x)"

definition newTransformedConnection ::
  "jsstr \<Rightarrow> jsstr \<Rightarrow> transformed_connector \<Rightarrow> connection_role \<Rightarrow> health \<Rightarrow> jsstr option \<Rightarrow> compression \<Rightarrow>
   strategy option \<Rightarrow> sending_mode option \<Rightarrow> connection_status \<Rightarrow> jsstr \<Rightarrow> pipeline_type list option \<Rightarrow>
   pipeline list option \<Rightarrow> transformed_event_type list option \<Rightarrow> jsstr list option \<Rightarrow> transformed_connection" where
  "newTransformedConnection i name connector role h storage compr strat mode status description
       pipelineTypes pipelines eventTypes linkedConnections =
     \<lparr>cn_id = i, cn_name = name, cn_connector = connector, cn_role = role, cn_health = h,
      cn_storage = null_default [] storage, cn_compression = compr, cn_strategy = strat,
      cn_sendingMode = mode, cn_status = status, cn_description = description,
      cn_pipelineTypes = null_default [] pipelineTypes,
      cn_pipelines = null_default [] pipelines,
      cn_eventTypes = null_default [] eventTypes,
      cn_linkedConnections = linkedConnections\<rparr>"

definition cn_type :: "transformed_connection \<Rightarrow> connector_type" where
  "cn_type c = tc_type (cn_connector c)"

definition isApplication :: "transformed_connection \<Rightarrow> bool" where
  "isApplication c \<longleftrightarrow> cn_type c = CApplication"

definition isDatabase :: "transformed_connection \<Rightarrow> bool" where
  "isDatabase c \<longleftrightarrow> cn_type c = CDatabase"

definition isFile :: "transformed_connection \<Rightarrow> bool" where
  "isFile c \<longleftrightarrow> cn_type c = CFile \<and> cn_storage c \<noteq> []"

definition isFileStorage :: "transformed_connection \<Rightarrow> bool" where
  "isFileStorage c \<longleftrightarrow> cn_type c = CFileStorage"

definition isMessageBroker :: "transformed_connection \<Rightarrow> bool" where
  "isMessageBroker c \<longleftrightarrow> cn_type c = CMessageBroker"

definition isSDK :: "transformed_connection \<Rightarrow> bool" where
  "isSDK c \<longleftrightarrow> cn_type c = CSDK"

definition isWebhook :: "transformed_connection \<Rightarrow> bool" where
  "isWebhook c \<longleftrightarrow> cn_type c = CWebhook"

definition isSource :: "transformed_connection \<Rightarrow> bool" where
  "isSource c \<longleftrightarrow> cn_role c = Source"

definition isDestination :: "transformed_connection \<Rightarrow> bool" where
  "isDestination c \<longleftrightarrow> cn_role c = Destination"

definition isEventBased :: "transformed_connection \<Rightarrow> bool" where
  "isEventBased c \<longleftrightarrow> cn_type c = CSDK \<or> cn_type c = CWebhook"

definition supportsEventTarget :: "transformed_connection \<Rightarrow> bool" where
  "supportsEventTarget c =
     (if isSource c then isSDK c \<or> isWebhook c
      else isDestination c \<and> isApplication c
        \<and> TEvent \<in> set (case tc_asDestination (cn_connector c) of None \<Rightarrow> [] | Some d \<Rightarrow> dc_targets d))"

definition hasIdentities :: "transformed_connection \<Rightarrow> bool" where
  "hasIdentities c \<longleftrightarrow> cn_role c = Source \<and> cn_type c \<noteq> CMessageBroker"

definition hasAnonymousIdentifiers :: "transformed_connection \<Rightarrow> bool" where
  "hasAnonymousIdentifiers c \<longleftrightarrow> cn_type c = CSDK \<or> cn_type c = CWebhook"

definition connection_hasSettings :: "transformed_connection \<Rightarrow> bool option" where
  "connection_hasSettings c = connector_hasSettings (cn_connector c) (cn_role c)"

lemmas connection_kind_defs = isApplication_def isDatabase_def isFile_def isFileStorage_def isMessageBroker_def
  isSDK_def isWebhook_def isSource_def isDestination_def isEventBased_def

subsection \<open>The graph of the connections\<close>

definition dispatches_events :: "transformed_connection \<Rightarrow> bool" where
  "dispatches_events c \<longleftrightarrow> (\<exists>p \<in> set (cn_pipelines c). pl_target p = TEvent \<and> pl_enabled p)"

text \<open>The nodes a connection is linked to; the two warehouse nodes are strings in the source.\<close>

definition relations :: "transformed_connection \<Rightarrow> transformed_connection list \<Rightarrow> jsstr list" where
  "relations c connections =
     (let hasUsersPipelines =
            (\<exists>p \<in> set (cn_pipelines c).
               if isSDK c \<or> isWebhook c then pl_target p = TUser \<and> pl_enabled p
               else pl_target p = TUser \<and> pl_enabled p \<and> pl_schedulePeriod p \<noteq> None);
          hasEventPipelines = dispatches_events c;
          linked = (case cn_linkedConnections c of None \<Rightarrow> [] | Some ids \<Rightarrow> ids)
      in (if hasUsersPipelines then [js ''dwh-user''] else [])
         @ (if isSource c \<and> hasEventPipelines then [js ''dwh-event''] else [])
         @ (if linked = [] then []
            else if isSource c
            then filter (\<lambda>i. case find (\<lambda>conn. cn_id conn = i) connections of
                               None \<Rightarrow> False
                             | Some conn \<Rightarrow> dispatches_events conn) linked
            else if dispatches_events c then linked else []))"

definition getPipelineTypeFromConnection ::
  "transformed_connection \<Rightarrow> pipeline_target \<Rightarrow> jsstr option \<Rightarrow> pipeline_type option" where
  "getPipelineTypeFromConnection c target eventType =
     (if target = TEvent then
        (case eventType of
           None \<Rightarrow> find (\<lambda>t. pt_target t = TEvent \<and> pt_eventType t = None) (cn_pipelineTypes c)
         | Some e \<Rightarrow> find (\<lambda>t. pt_eventType t = Some e) (cn_pipelineTypes c))
      else find (\<lambda>t. pt_target t = target) (cn_pipelineTypes c))"

definition getConnectionDescription :: "connection_role \<Rightarrow> transformed_connector \<Rightarrow> jsstr option" where
  "getConnectionDescription r connector =
     (if r = Source then map_option sc_summary (tc_asSource connector)
      else map_option dc_summary (tc_asDestination connector))"

definition getConnectionFullConnector :: "jsstr \<Rightarrow> transformed_connector list \<Rightarrow> transformed_connector option" where
  "getConnectionFullConnector connectorCode connectors = find (\<lambda>c. tc_code c = connectorCode) connectors"

definition getConnectionStatus :: "health \<Rightarrow> connection_status" where
  "getConnectionStatus h =
     (case h of
        Healthy \<Rightarrow> \<lparr>cs_text = js ''Working properly'', cs_variant = Success\<rparr>
      | NoRecentData \<Rightarrow> \<lparr>cs_text = js ''No recent Data'', cs_variant = Danger\<rparr>
      | RecentError \<Rightarrow> \<lparr>cs_text = js ''Recent error'', cs_variant = Danger\<rparr>)"

definition getFileStorageConnections :: "jsstr \<Rightarrow> transformed_connection list \<Rightarrow> transformed_connection list" where
  "getFileStorageConnections storageID connections = filter (\<lambda>c. cn_storage c = storageID) connections"

text \<open>
  In the graph an edge between two connections is drawn from both ends: a source lists the
  destinations it is linked to that dispatch events, a destination that dispatches events lists
  its sources. On consistent data (distinct identifiers, symmetric links between sources and
  destinations) the two agree.
\<close>

definition linked_to :: "transformed_connection \<Rightarrow> jsstr \<Rightarrow> bool" where
  "linked_to c i \<longleftrightarrow> (case cn_linkedConnections c of None \<Rightarrow> False | Some ids \<Rightarrow> i \<in> set ids)"

definition warehouse_nodes :: "jsstr set" where
  "warehouse_nodes = {js ''dwh-user'', js ''dwh-event''}"

lemma find_by_id:
  assumes "distinct (map f xs)" "x \<in> set xs"
  shows "find (\<lambda>y. f y = f x) xs = Some x"
  using assms by (induction xs) auto

lemma in_optional_nodes:
  "i \<notin> {a, b} \<Longrightarrow> i \<in> set ((if P then [a] else []) @ (if Q then [b] else []) @ xs) \<longleftrightarrow> i \<in> set xs"
  by auto

lemma in_relations:
  assumes "i \<notin> warehouse_nodes"
  shows "i \<in> set (relations c connections) \<longleftrightarrow> linked_to c i \<and>
    (if isSource c then (case find (\<lambda>conn. cn_id conn = i) connections of None \<Rightarrow> False | Some conn \<Rightarrow> dispatches_events conn)
     else dispatches_events c)"
  unfolding relations_def Let_def in_optional_nodes [OF assms [unfolded warehouse_nodes_def]]
  by (cases "cn_linkedConnections c"; cases "isSource c"; cases "dispatches_events c")
    (auto simp: linked_to_def)

text \<open>
  the edges of the connections graph are symmetric: a source lists a destination exactly when
  the destination lists the source.
\<close>

theorem relations_symmetric:
  assumes ids: "distinct (map cn_id connections)"
    and s: "s \<in> set connections" "isSource s" and d: "d \<in> set connections" "isDestination d"
    and sym: "linked_to s (cn_id d) \<longleftrightarrow> linked_to d (cn_id s)"
    and nodes: "cn_id s \<notin> warehouse_nodes" "cn_id d \<notin> warehouse_nodes"
  shows "cn_id d \<in> set (relations s connections) \<longleftrightarrow> cn_id s \<in> set (relations d connections)"
proof -
  have "find (\<lambda>conn. cn_id conn = cn_id d) connections = Some d" by (rule find_by_id [OF ids d(1)])
  moreover have "\<not> isSource d" using d(2) by (simp add: isSource_def isDestination_def)
  ultimately show ?thesis using s(2) sym by (simp add: in_relations [OF nodes(1)] in_relations [OF nodes(2)])
qed

subsection \<open>An example workspace\<close>

definition example_connector :: "connector_type \<Rightarrow> transformed_connector" where
  "example_connector t =
     \<lparr>tc_code = js ''x'', tc_label = js ''X'', tc_type = t, tc_categories = [], tc_asSource = None,
      tc_asDestination = None, tc_hasSheets = False, tc_fileExtension = [],
      tc_oauth = \<lparr>co_configured = False, co_disallow127_0_0_1 = False, co_disallowLocalhost = False\<rparr>,
      tc_terms = \<lparr>ct_user = [], ct_users = [], ct_userID = []\<rparr>, tc_strategies = False\<rparr>"

definition example_connection :: "string \<Rightarrow> connector_type \<Rightarrow> connection_role \<Rightarrow> pipeline list \<Rightarrow> string list \<Rightarrow> transformed_connection" where
  "example_connection i t r ps links =
     newTransformedConnection (js i) (js i) (example_connector t) r Healthy None NoCompression None None
       (getConnectionStatus Healthy) [] None (Some ps) None (Some (map js links))"

definition example_event_pipeline :: pipeline where
  "example_event_pipeline =
     \<lparr>pl_id = js ''p'', pl_connection = js ''d'', pl_target = TEvent, pl_name = js ''p'', pl_enabled = True,
      pl_eventType = None, pl_orderingGroup = None, pl_deliveryEndpoint = None, pl_running = False,
      pl_scheduleStart = None, pl_schedulePeriod = None, pl_inSchema = None, pl_outSchema = None,
      pl_filter = None, pl_requiredConsents = None, pl_transformation = None, pl_query = None,
      pl_path = None, pl_tableName = None, pl_tableKey = None, pl_sheet = None, pl_userIDColumn = None,
      pl_updatedAtColumn = None, pl_updatedAtFormat = None, pl_incremental = None, pl_exportMode = None,
      pl_matching = None, pl_updateOnDuplicates = None, pl_compression = NoCompression,
      pl_orderBy = None, pl_format = []\<rparr>"

lemmas example_connection_simps = example_connection_def newTransformedConnection_def example_connector_def null_default_def

theorem relations_symmetric_witness:
  "js ''d'' \<in> set (relations (example_connection ''s'' CSDK Source [] [''d''])
       [example_connection ''s'' CSDK Source [] [''d''], example_connection ''d'' CApplication Destination [example_event_pipeline] [''s'']])
   \<and> (js ''s'' \<in> set (relations (example_connection ''d'' CApplication Destination [example_event_pipeline] [''s''])
       [example_connection ''s'' CSDK Source [] [''d''], example_connection ''d'' CApplication Destination [example_event_pipeline] [''s'']]))"
proof -
  let ?s = "example_connection ''s'' CSDK Source [] [''d'']"
  let ?d = "example_connection ''d'' CApplication Destination [example_event_pipeline] [''s'']"
  have "cn_id ?d \<in> set (relations ?s [?s, ?d]) \<longleftrightarrow> cn_id ?s \<in> set (relations ?d [?s, ?d])"
    by (rule relations_symmetric)
      (simp_all add: example_connection_simps isSource_def isDestination_def linked_to_def warehouse_nodes_def)
  moreover have "js ''d'' \<in> set (relations ?s [?s, ?d])"
    by (simp add: relations_def dispatches_events_def example_event_pipeline_def example_connection_simps connection_kind_defs cn_type_def)
  ultimately show ?thesis by (simp add: example_connection_simps)
qed

end
