(* ===== verification/Pipeline_Types.thy ===== *)
theory Pipeline_Types
  imports Schema_Flatten Connections
begin

section \<open>The pipeline the admin edits, and its steps (lib/core/pipeline.ts)\<close>

text \<open>
  The records of the pipeline pages, the table of what a pipeline of a given connection and target
  does (which steps it has, which fields its page shows), and the check that a pipeline has a
  transformation when it needs one. An \<open>ObjectType\<close> is the list of its properties, a schema that
  may be \<open>null\<close> an option of it.
\<close>

definition SCHEDULE_PERIODS :: "schedule_period list" where
  "SCHEDULE_PERIODS = [Off, M5, M15, M30, H1, H2, H3, H6, H8, H12, H24]"

definition SHOW_EXPORT_PROFILE_CONSENT_METRICS :: bool where
  "SHOW_EXPORT_PROFILE_CONSENT_METRICS = False"

text \<open>\<open>EXPORT_MODE_OPTIONS\<close>, in the order of its keys.\<close>

definition EXPORT_MODE_OPTIONS :: "(export_mode, jsstr) omap" where
  "EXPORT_MODE_OPTIONS =
    [(CreateOrUpdate, js ''Create and update''), (CreateOnly, js ''Create only''), (UpdateOnly, js ''Update only'')]"

record transformed_transformation =
  tt_mapping :: "flat_schema option"
  tt_function :: "transformation_function option"

datatype pipeline_type_field = FFilter | FConsents | FTransformation | FMatching | FUpdateOnDuplicates
  | FExportMode | FQuery | FFile | FOrderBy | FTableName | FIncremental

record transformed_pipeline_type =
  tpt_name :: jsstr
  tpt_description :: jsstr
  tpt_target :: pipeline_target
  tpt_eventType :: "jsstr option"
  tpt_inputSchema :: "property list option"
  tpt_outputSchema :: "property list option"
  tpt_inputMatchingSchema :: "property list option"
  tpt_outputMatchingSchema :: "property list option"
  tpt_fields :: "pipeline_type_field list"

record transformed_pipeline =
  pi_id :: "jsstr option"
  pi_connection :: "jsstr option"
  pi_target :: pipeline_target
  pi_name :: jsstr
  pi_enabled :: bool
  pi_eventType :: "jsstr option"
  pi_running :: "bool option"
  pi_scheduleStart :: "js_num option"
  pi_schedulePeriod :: "schedule_period option"
  pi_inSchema :: "property list option"
  pi_outSchema :: "property list option"
  pi_filter :: "filter_tree option"
  pi_requiredConsents :: "required_consents option"
  pi_transformation :: "transformed_transformation option"
  pi_query :: "jsstr option"
  pi_path :: "jsstr option"
  pi_tableName :: "jsstr option"
  pi_tableKey :: "jsstr option"
  pi_sheet :: "jsstr option"
  pi_userIDColumn :: "jsstr option"
  pi_updatedAtColumn :: "jsstr option"
  pi_updatedAtFormat :: "jsstr option"
  pi_incremental :: "bool option"
  pi_orderBy :: "jsstr option"
  pi_exportMode :: "export_mode option"
  pi_matching :: "matching option"
  pi_updateOnDuplicates :: "bool option"
  pi_compression :: "compression option"
  pi_format :: "jsstr option"

record 'settings pipeline_to_set =
  ps_name :: jsstr
  ps_enabled :: bool
  ps_filter :: "filter_tree option"
  ps_requiredConsents :: "required_consents option"
  ps_inSchema :: "property list option"
  ps_outSchema :: "property list option"
  ps_transformation :: "transformation option"
  ps_query :: "jsstr option"
  ps_path :: "jsstr option"
  ps_tableName :: "jsstr option"
  ps_tableKey :: "jsstr option"
  ps_sheet :: "jsstr option"
  ps_userIDColumn :: "jsstr option"
  ps_updatedAtColumn :: "jsstr option"
  ps_updatedAtFormat :: "jsstr option"
  ps_incremental :: "bool option"
  ps_compression :: "compression option"
  ps_orderBy :: "jsstr option"
  ps_format :: "jsstr option"
  ps_formatSettings :: "'settings option"
  ps_matching :: "matching option"
  ps_updateOnDuplicates :: "bool option"
  ps_exportMode :: "export_mode option"

definition transformPipelineType ::
  "pipeline_type \<Rightarrow> pipeline_type_field list \<Rightarrow> property list option \<Rightarrow> property list option \<Rightarrow>
   property list option \<Rightarrow> property list option \<Rightarrow> transformed_pipeline_type" where
  "transformPipelineType pipelineType typeFields inputSchema outputSchema inputMatchingSchema outputMatchingSchema =
     \<lparr>tpt_name = pt_name pipelineType,
      tpt_description = pt_description pipelineType,
      tpt_target = pt_target pipelineType,
      tpt_eventType = pt_eventType pipelineType,
      tpt_inputSchema = inputSchema,
      tpt_outputSchema = outputSchema,
      tpt_inputMatchingSchema = inputMatchingSchema,
      tpt_outputMatchingSchema = outputMatchingSchema,
      tpt_fields = typeFields\<rparr>"

subsection \<open>Steps\<close>

definition hasFilters :: "transformed_connection \<Rightarrow> pipeline_target \<Rightarrow> bool" where
  "hasFilters c target \<longleftrightarrow> \<not> (cn_role c = Source \<and> cn_type c = CDatabase \<and> target = TUser)"

definition isEventDriven :: "transformed_connection \<Rightarrow> pipeline_target \<Rightarrow> bool" where
  "isEventDriven c target =
     (if cn_role c = Destination then cn_type c = CApplication \<and> target = TEvent
      else isEventBased c \<and> (target = TEvent \<or> target = TUser))"

definition hasInputValidationStep :: "transformed_connection \<Rightarrow> pipeline_target \<Rightarrow> bool" where
  "hasInputValidationStep c target \<longleftrightarrow> \<not> isEventDriven c target"

definition hasFilterStep :: "transformed_connection \<Rightarrow> pipeline_target \<Rightarrow> bool" where
  "hasFilterStep c target \<longleftrightarrow> isEventDriven c target \<or> (cn_role c = Source \<and> cn_type c \<noteq> CDatabase)"

definition isBatchProfileImport :: "transformed_connection \<Rightarrow> pipeline_target \<Rightarrow> bool" where
  "isBatchProfileImport c target \<longleftrightarrow> cn_role c = Source \<and> \<not> isEventBased c \<and> target = TUser"

definition isProfileExport :: "transformed_connection \<Rightarrow> pipeline_target \<Rightarrow> bool" where
  "isProfileExport c target \<longleftrightarrow> cn_role c = Destination \<and> target = TUser"

definition hasEventConsentStep :: "transformed_connection \<Rightarrow> pipeline_target \<Rightarrow> bool" where
  "hasEventConsentStep c target \<longleftrightarrow> isEventDriven c target \<and> target = TEvent"

definition hasImportProfileConsentStep :: "transformed_connection \<Rightarrow> pipeline_target \<Rightarrow> bool" where
  "hasImportProfileConsentStep c target \<longleftrightarrow> (isEventDriven c target \<and> target = TUser) \<or> isBatchProfileImport c target"

definition hasExportProfileConsentStep :: "transformed_connection \<Rightarrow> pipeline_target \<Rightarrow> bool" where
  "hasExportProfileConsentStep c target = isProfileExport c target"

definition hasRequiredConsents :: "transformed_connection \<Rightarrow> pipeline_target \<Rightarrow> bool" where
  "hasRequiredConsents c target \<longleftrightarrow>
     hasEventConsentStep c target \<or> hasImportProfileConsentStep c target \<or> hasExportProfileConsentStep c target"

definition hasTransformations :: "transformed_connection \<Rightarrow> pipeline_target \<Rightarrow> bool" where
  "hasTransformations c target =
     (let t = cn_type c in
      if t = CApplication \<or> t = CDatabase then True
      else if t = CFileStorage then cn_role c = Source
      else if t = CSDK \<or> t = CWebhook then cn_role c = Source \<and> (target = TUser \<or> target = TGroup)
      else False)"

text \<open>Of the pipeline type only the target is read.\<close>

definition computePipelineTypeFields :: "transformed_connection \<Rightarrow> pipeline_target \<Rightarrow> pipeline_type_field list" where
  "computePipelineTypeFields c target =
     (let t = cn_type c in
      (if hasFilters c target then [FFilter] else [])
      @ (if hasRequiredConsents c target then [FConsents] else [])
      @ (if hasTransformations c target then [FTransformation] else [])
      @ (if t = CApplication \<and> cn_role c = Destination \<and> (target = TUser \<or> target = TGroup)
         then [FMatching, FUpdateOnDuplicates, FExportMode] else [])
      @ (if t = CDatabase \<and> cn_role c = Source then [FQuery] else [])
      @ (if t = CFileStorage
         then (if cn_role c = Destination \<and> target = TUser then [FOrderBy] else []) @ [FFile] else [])
      @ (if t = CDatabase \<and> cn_role c = Destination then [FTableName] else [])
      @ (if (t = CApplication \<or> t = CDatabase \<or> t = CFileStorage) \<and> cn_role c = Source
            \<and> (target = TUser \<or> target = TGroup)
         then [FIncremental] else []))"

lemmas step_defs = hasEventConsentStep_def hasImportProfileConsentStep_def hasExportProfileConsentStep_def
  isProfileExport_def isBatchProfileImport_def isEventDriven_def hasRequiredConsents_def

text \<open>
  The consents of a record are checked in at most one place: no pipeline counts the consents both
  on events and on profiles, or both before and after its transformation. Pipelines without
  any of the three steps are those of groups, and those whose events are not dispatched to an
  application or imported from an event source.
\<close>

theorem consent_steps_exclusive:
  "length (filter id [hasEventConsentStep c target, hasImportProfileConsentStep c target, hasExportProfileConsentStep c target]) =
     (if hasRequiredConsents c target then 1 else 0)
   \<and> (hasRequiredConsents c target \<longleftrightarrow> target = TUser \<or> (target = TEvent \<and> isEventDriven c TEvent))"
  by (cases target; cases "cn_role c"; cases "cn_type c") (simp_all add: step_defs isEventBased_def)

subsection \<open>validateTransformation\<close>

datatype transformation_error = InvalidTransformation | TransformationNotSupported

definition hasValidTransformation :: "'s pipeline_to_set \<Rightarrow> bool" where
  "hasValidTransformation p =
     (case ps_transformation p of None \<Rightarrow> False | Some t \<Rightarrow> tr_function t \<noteq> None \<or> tr_mapping t \<noteq> None)"

definition validateTransformation ::
  "transformed_connection \<Rightarrow> transformed_pipeline_type \<Rightarrow> 's pipeline_to_set \<Rightarrow> transformation_error + unit" where
  "validateTransformation c pipelineType pipeline =
     (let target = tpt_target pipelineType;
          on_users = (target = TUser \<or> target = TGroup);
          must = throw_if (on_users \<and> \<not> hasValidTransformation pipeline) InvalidTransformation
      in
      if isSource c then
        (if isApplication c then must
         else if isDatabase c then must
         else if isFileStorage c then must
         else if isSDK c \<or> isWebhook c
           then throw_if (target = TEvent \<and> hasValidTransformation pipeline) TransformationNotSupported
         else Inr ())
      else
        (if isApplication c then
           res_bind must (\<lambda>_.
             throw_if (target = TEvent \<and> tpt_outputSchema pipelineType = None \<and> hasValidTransformation pipeline)
               TransformationNotSupported)
         else if isDatabase c then must
         else if isFileStorage c
           then throw_if (on_users \<and> hasValidTransformation pipeline) TransformationNotSupported
         else Inr ()))"

text \<open>
  the page and the check agree: when a pipeline without a transformation cannot be saved, its
  page has the transformation field; when one with a transformation cannot be saved, the page does
  not have it, unless the pipeline dispatches events of a type without an output schema. No
  pipeline is rejected both with and without a transformation.
\<close>

theorem validateTransformation_fields:
  assumes "\<not> hasValidTransformation without" and "hasValidTransformation with_one"
  shows "(validateTransformation c pipelineType without \<noteq> Inr () \<longrightarrow>
            FTransformation \<in> set (computePipelineTypeFields c (tpt_target pipelineType)))
    \<and> (validateTransformation c pipelineType with_one \<noteq> Inr () \<longrightarrow>
         FTransformation \<notin> set (computePipelineTypeFields c (tpt_target pipelineType))
         \<or> (isDestination c \<and> isApplication c \<and> tpt_target pipelineType = TEvent \<and> tpt_outputSchema pipelineType = None))
    \<and> (is_ok (validateTransformation c pipelineType without) \<or> is_ok (validateTransformation c pipelineType with_one))"
proof -
  have in_fields: "FTransformation \<in> set (computePipelineTypeFields c target) \<longleftrightarrow> hasTransformations c target" for target
    by (simp add: computePipelineTypeFields_def Let_def)
  show ?thesis
    unfolding in_fields using assms
    by (cases "tpt_target pipelineType"; cases "cn_role c"; cases "cn_type c")
      (simp_all add: validateTransformation_def hasTransformations_def connection_kind_defs throw_if_def)
qed

definition example_to_set :: "transformation option \<Rightarrow> unit pipeline_to_set" where
  "example_to_set t =
     \<lparr>ps_name = js ''p'', ps_enabled = True, ps_filter = None, ps_requiredConsents = None, ps_inSchema = None,
      ps_outSchema = None, ps_transformation = t, ps_query = None, ps_path = None, ps_tableName = None,
      ps_tableKey = None, ps_sheet = None, ps_userIDColumn = None, ps_updatedAtColumn = None,
      ps_updatedAtFormat = None, ps_incremental = None, ps_compression = None, ps_orderBy = None,
      ps_format = None, ps_formatSettings = None, ps_matching = None, ps_updateOnDuplicates = None,
      ps_exportMode = None\<rparr>"

theorem validateTransformation_fields_witness:
  "FTransformation \<in> set (computePipelineTypeFields (example_connection ''d'' CDatabase Source [] []) TUser)"
proof -
  let ?t = "transformPipelineType \<lparr>pt_name = [], pt_description = [], pt_target = TUser, pt_eventType = None,
    pt_orderingGroup = None, pt_deliveryEndpoint = None\<rparr> [] None None None None"
  let ?c = "example_connection ''d'' CDatabase Source [] []"
  have "validateTransformation ?c ?t (example_to_set None) \<noteq> Inr ()"
    by (simp add: validateTransformation_def transformPipelineType_def example_connection_simps connection_kind_defs
        cn_type_def hasValidTransformation_def example_to_set_def throw_if_def)
  moreover have "\<not> hasValidTransformation (example_to_set None)"
    "hasValidTransformation (example_to_set (Some \<lparr>tr_mapping = Some [], tr_function = None\<rparr>))"
    by (simp_all add: hasValidTransformation_def example_to_set_def)
  ultimately show ?thesis
    using validateTransformation_fields [of "example_to_set None" "example_to_set (Some \<lparr>tr_mapping = Some [], tr_function = None\<rparr>)" ?c ?t]
    by (simp add: transformPipelineType_def)
qed

end
