(* ===== verification/Required_Paths.thy ===== *)
theory Required_Paths
  imports Pipeline_Types
begin

section \<open>Required properties of a transformation (lib/core/pipeline.ts)\<close>

text \<open>
  \<open>checkMapping\<close> and \<open>checkFunctionPath\<close> tell, for a property of the output schema, whether the user
  must give it a value and whether it has one, with a mapping and with a transformation function.
  The two functions of the source are the same algorithm over two notions of a selected path,
  written twice; here the common part takes the notion as an argument.
\<close>

record transformation_property_info =
  ti_isRequired :: bool
  ti_isSelected :: bool

definition not_required :: transformation_property_info where
  "not_required = \<lparr>ti_isRequired = False, ti_isSelected = False\<rparr>"

text \<open>The condition \<open>hasRequired\<close>, on the two flags of a property.\<close>

definition required_for :: "pipeline_target \<Rightarrow> export_mode option \<Rightarrow> bool \<Rightarrow> bool \<Rightarrow> bool" where
  "required_for target exportMode create update \<longleftrightarrow>
     (target = TEvent \<and> (create \<or> update))
     \<or> (case exportMode of
          None \<Rightarrow> False
        | Some m \<Rightarrow> (create \<and> includes_create m) \<or> (update \<and> includes_update m))"

definition parent_paths :: "jsstr \<Rightarrow> jsstr list \<Rightarrow> jsstr list" where
  "parent_paths path paths = filter (\<lambda>p. starts_with path (p @ js ''.'')) paths"

definition child_paths :: "jsstr \<Rightarrow> jsstr list \<Rightarrow> jsstr list" where
  "child_paths path paths = filter (\<lambda>p. starts_with p (path @ js ''.'')) paths"

text \<open>A path is selected explicitly, or implicitly when one of its descendants is.\<close>

definition selected_through :: "(jsstr \<Rightarrow> bool) \<Rightarrow> jsstr list \<Rightarrow> jsstr \<Rightarrow> bool" where
  "selected_through selected paths parent \<longleftrightarrow> selected parent \<or> (\<exists>c \<in> set (child_paths parent paths). selected c)"

text \<open>
  The loop over the reversed parents: the closest selected one, then the parents before it; every
  one of those must be required.
\<close>

definition intermediate_required :: "(jsstr \<Rightarrow> bool) \<Rightarrow> (jsstr \<Rightarrow> bool) \<Rightarrow> jsstr list \<Rightarrow> jsstr list \<Rightarrow> bool" where
  "intermediate_required selected required paths reversedParents =
     (case find (selected_through selected paths) reversedParents of
        None \<Rightarrow> False
      | Some closest \<Rightarrow>
          (case find_index (\<lambda>parent. parent = closest) reversedParents of
             None \<Rightarrow> False
           | Some i \<Rightarrow> list_all required (take i reversedParents)))"

definition is_table_key :: "transformed_pipeline \<Rightarrow> jsstr \<Rightarrow> bool" where
  "is_table_key pipeline path \<longleftrightarrow>
     (case pi_tableKey pipeline of None \<Rightarrow> False | Some k \<Rightarrow> k \<noteq> [] \<and> k = path)"

definition is_matching_out :: "transformed_pipeline \<Rightarrow> jsstr \<Rightarrow> bool" where
  "is_matching_out pipeline path \<longleftrightarrow>
     (case pi_matching pipeline of None \<Rightarrow> False | Some m \<Rightarrow> m_out m = path)"

definition check_required ::
  "transformed_pipeline \<Rightarrow> transformed_pipeline_type \<Rightarrow> flat_schema \<Rightarrow> (jsstr \<Rightarrow> bool) \<Rightarrow> jsstr \<Rightarrow> transformed_property \<Rightarrow> bool" where
  "check_required pipeline pipelineType schema selected path property =
     (let req = (\<lambda>create update. required_for (tpt_target pipelineType) (pi_exportMode pipeline) create update);
          paths = obj_keys schema;
          required = (\<lambda>p. case obj_get schema p of
                        None \<Rightarrow> False
                      | Some tp \<Rightarrow> req (p_createRequired (tp_full tp)) (p_updateRequired (tp_full tp)))
      in if \<not> req (tp_createRequired property) (tp_updateRequired property)
         then is_table_key pipeline path
         else tp_indentation property = 0
              \<or> intermediate_required selected required paths (rev (parent_paths path paths)))"

definition is_mapped :: "flat_schema \<Rightarrow> jsstr \<Rightarrow> bool" where
  "is_mapped mapping p \<longleftrightarrow> (case obj_get mapping p of None \<Rightarrow> False | Some tp \<Rightarrow> tp_value tp \<noteq> [])"

definition pipeline_mapping :: "transformed_pipeline \<Rightarrow> flat_schema option" where
  "pipeline_mapping pipeline = Option.bind (pi_transformation pipeline) tt_mapping"

definition checkMapping :: "jsstr \<Rightarrow> transformed_pipeline \<Rightarrow> transformed_pipeline_type \<Rightarrow> transformation_property_info" where
  "checkMapping path pipeline pipelineType =
     (case pipeline_mapping pipeline of
        None \<Rightarrow> not_required
      | Some mapping \<Rightarrow>
          (case obj_get mapping path of
             None \<Rightarrow> not_required
           | Some property \<Rightarrow>
               let paths = obj_keys mapping in
               \<lparr>ti_isRequired = check_required pipeline pipelineType mapping (is_mapped mapping) path property,
                ti_isSelected =
                  is_mapped mapping path
                  \<or> is_matching_out pipeline path
                  \<or> (\<exists>p \<in> set (child_paths path paths). is_mapped mapping p)
                  \<or> (\<exists>p \<in> set (parent_paths path paths). is_mapped mapping p)\<rparr>))"

datatype path_role = InputRole | OutputRole

text \<open>\<open>None\<close> is the \<open>TypeError\<close> on a pipeline type without the schema of the role.\<close>

definition checkFunctionPath ::
  "jsstr \<Rightarrow> transformed_pipeline \<Rightarrow> transformed_pipeline_type \<Rightarrow> path_role \<Rightarrow> jsstr list \<Rightarrow> transformation_property_info option" where
  "checkFunctionPath path pipeline pipelineType role selectedPaths =
     map_option (\<lambda>flatSchema.
       case obj_get flatSchema path of
         None \<Rightarrow> not_required
       | Some property \<Rightarrow>
           let paths = obj_keys flatSchema; flagged = (\<lambda>p. p \<in> set selectedPaths) in
           \<lparr>ti_isRequired = check_required pipeline pipelineType flatSchema flagged path property,
            ti_isSelected =
              flagged path
              \<or> is_matching_out pipeline path
              \<or> (\<exists>p \<in> set (child_paths path paths). flagged p)
              \<or> (\<exists>p \<in> set selectedPaths. starts_with path (p @ js ''.''))\<rparr>)
       (flattenSchema
          (map_option ObjectType
            (case role of InputRole \<Rightarrow> tpt_inputSchema pipelineType | OutputRole \<Rightarrow> tpt_outputSchema pipelineType))
          False)"

subsection \<open>The rule the comments of the source state\<close>

lemma find_split: "find P xs = Some x \<longleftrightarrow> (\<exists>as bs. xs = as @ x # bs \<and> P x \<and> (\<forall>a \<in> set as. \<not> P a))"
proof (induction xs)
  case (Cons y ys)
  show ?case
  proof (cases "P y")
    case True
    then show ?thesis by (auto simp: Cons_eq_append_conv)
  next
    case False
    with Cons show ?thesis by (auto simp: Cons_eq_append_conv) (metis append_Cons set_ConsD)
  qed
qed simp

lemma find_index_append: "\<forall>a \<in> set as. \<not> P a \<Longrightarrow> P x \<Longrightarrow> find_index P (as @ x # bs) = Some (length as)"
  by (induction as) auto

text \<open>Some ancestor is selected and every property between it and the property is required.\<close>

definition reaches_selected :: "(jsstr \<Rightarrow> bool) \<Rightarrow> (jsstr \<Rightarrow> bool) \<Rightarrow> jsstr list \<Rightarrow> jsstr list \<Rightarrow> bool" where
  "reaches_selected selected required paths parents \<longleftrightarrow>
     (\<exists>above a between. parents = above @ a # between \<and> selected_through selected paths a \<and> list_all required between)"

lemma intermediate_required_iff:
  "intermediate_required selected required paths (rev parents) \<longleftrightarrow> reaches_selected selected required paths parents"
proof
  assume "intermediate_required selected required paths (rev parents)"
  then obtain a i where a: "find (selected_through selected paths) (rev parents) = Some a"
    and i: "find_index (\<lambda>p. p = a) (rev parents) = Some i" "list_all required (take i (rev parents))"
    by (auto simp: intermediate_required_def split: option.splits)
  then obtain as bs where s: "rev parents = as @ a # bs" "selected_through selected paths a"
    "\<forall>p \<in> set as. \<not> selected_through selected paths p" by (auto simp: find_split)
  have "find_index (\<lambda>p. p = a) (rev parents) = Some (length as)"
    unfolding s(1) by (rule find_index_append) (use s in auto)
  with i s(1) have "list_all required as" by simp
  moreover have "parents = rev bs @ a # rev as" using s(1) by (metis append.assoc append_Cons append_Nil rev.simps(2) rev_append rev_rev_ident)
  ultimately show "reaches_selected selected required paths parents"
    using s(2) unfolding reaches_selected_def
    by (intro exI [of _ "rev bs"] exI [of _ a] exI [of _ "rev as"]) (simp add: list_all_iff)
next
  assume "reaches_selected selected required paths parents"
  then obtain above a between where r: "parents = above @ a # between" "selected_through selected paths a" "list_all required between"
    by (auto simp: reaches_selected_def)
  then have "find (selected_through selected paths) (rev parents) \<noteq> None" by (auto simp: find_None_iff)
  then obtain c where c: "find (selected_through selected paths) (rev parents) = Some c" by blast
  then obtain as bs where s: "rev parents = as @ c # bs" "selected_through selected paths c"
    "\<forall>p \<in> set as. \<not> selected_through selected paths p" by (auto simp: find_split)
  have "set as \<subseteq> set between"
  proof -
    have eq: "as @ c # bs = rev between @ a # rev above" using s(1) r(1) by simp
    show ?thesis
    proof (cases "length as \<le> length between")
      case True
      with eq have "as = take (length as) (rev between)"
        by (metis (no_types, lifting) append_eq_append_conv_if append_eq_conv_conj length_rev)
      then show ?thesis by (metis set_rev set_take_subset)
    next
      case False
      then have "a = as ! length between"
        using arg_cong [OF eq, of "\<lambda>xs. xs ! length between"] by (simp add: nth_append)
      then have "a \<in> set as" using False by simp
      with r(2) s(3) show ?thesis by blast
    qed
  qed
  with r(3) have "list_all required as" by (auto simp: list_all_iff)
  moreover have "find_index (\<lambda>p. p = c) (rev parents) = Some (length as)"
    unfolding s(1) by (rule find_index_append) (use s in auto)
  ultimately show "intermediate_required selected required paths (rev parents)"
    using c s(1) by (simp add: intermediate_required_def)
qed


text \<open>
  C36: a property of the mapping that the schema requires, for the export mode, to create or to update
  must be mapped exactly when it is a first-level property, or some ancestor is selected (it or one of
  its descendants is mapped) and every property between that ancestor and this one is required too. A
  property that the schema does not require must be mapped exactly when it is the table key; a nested
  table key that the schema requires follows the first rule.
\<close>

theorem checkMapping_rule:
  assumes "pipeline_mapping pipeline = Some mapping" and "obj_get mapping path = Some tp"
  shows "let req = required_for (tpt_target pipelineType) (pi_exportMode pipeline) in
    ti_isRequired (checkMapping path pipeline pipelineType) \<longleftrightarrow>
    (if req (tp_createRequired tp) (tp_updateRequired tp)
     then tp_indentation tp = 0
       \<or> reaches_selected (is_mapped mapping)
           (\<lambda>p. case obj_get mapping p of None \<Rightarrow> False
                | Some q \<Rightarrow> req (p_createRequired (tp_full q)) (p_updateRequired (tp_full q)))
           (obj_keys mapping) (parent_paths path (obj_keys mapping))
     else is_table_key pipeline path)"
  using assms(1,2)
  by (simp add: checkMapping_def check_required_def intermediate_required_iff Let_def)

definition example_pipeline :: "flat_schema option \<Rightarrow> jsstr option \<Rightarrow> transformed_pipeline" where
  "example_pipeline mapping tableKey =
     \<lparr>pi_id = None, pi_connection = None, pi_target = TUser, pi_name = js ''p'', pi_enabled = True, pi_eventType = None,
      pi_running = None, pi_scheduleStart = None, pi_schedulePeriod = None, pi_inSchema = None, pi_outSchema = None,
      pi_filter = None, pi_requiredConsents = None,
      pi_transformation = Some \<lparr>tt_mapping = mapping, tt_function = None\<rparr>,
      pi_query = None, pi_path = None, pi_tableName = None, pi_tableKey = tableKey, pi_sheet = None,
      pi_userIDColumn = None, pi_updatedAtColumn = None, pi_updatedAtFormat = None, pi_incremental = None,
      pi_orderBy = None, pi_exportMode = Some CreateOnly, pi_matching = None, pi_updateOnDuplicates = None,
      pi_compression = None, pi_format = None\<rparr>"

definition example_pipeline_type :: "property list \<Rightarrow> transformed_pipeline_type" where
  "example_pipeline_type schema =
     \<lparr>tpt_name = [], tpt_description = [], tpt_target = TUser, tpt_eventType = None, tpt_inputSchema = None,
      tpt_outputSchema = Some schema, tpt_inputMatchingSchema = None, tpt_outputMatchingSchema = None, tpt_fields = []\<rparr>"

definition required_schema :: "property list" where
  "required_schema =
    [Property (js ''a'') [] (ObjectType
       [Property (js ''b'') [] DateType True False False False [] [],
        Property (js ''c'') [] DateType False False False False [] []]) False False False False [] []]"

definition required_mapping :: "jsstr \<Rightarrow> flat_schema" where
  "required_mapping value =
     map (\<lambda>(k, tp). (k, if k = js ''a.c'' then tp\<lparr>tp_value := value\<rparr> else tp)) (flatten_object required_schema)"

lemma required_mapping_eq: "required_mapping v =
  [(js ''a'', flattenProperty False (hd required_schema) 0 (js ''a'')),
   (js ''a.b'', flattenProperty False (sub_properties (hd required_schema) ! 0) 1 (js ''a'')),
   (js ''a.c'', (flattenProperty False (sub_properties (hd required_schema) ! 1) 1 (js ''a''))\<lparr>tp_value := v\<rparr>)]"
proof -
  have "wf_properties required_schema" by (simp add: required_schema_def sub_properties_def js_Cons)
  then show ?thesis
    by (simp add: required_mapping_def flatten_object_entries) (simp add: required_schema_def sub_properties_def js_Cons)
qed

lemmas required_example_simps = required_mapping_eq pipeline_mapping_def example_pipeline_def example_pipeline_type_def
  required_schema_def sub_properties_def flattenProperty_def

theorem checkMapping_rule_witness:
  "ti_isRequired (checkMapping (js ''a.b'') (example_pipeline (Some (required_mapping (js ''x''))) None) (example_pipeline_type required_schema))"
proof -
  let ?m = "required_mapping (js ''x'')"
  have "reaches_selected (is_mapped ?m) required (obj_keys ?m) (parent_paths (js ''a.b'') (obj_keys ?m))" for required
    unfolding reaches_selected_def
    by (intro exI [of _ "[]"] exI [of _ "js ''a''"])
      (simp add: required_mapping_eq parent_paths_def child_paths_def selected_through_def is_mapped_def js_Cons)
  moreover have map: "pipeline_mapping (example_pipeline (Some ?m) None) = Some ?m"
    by (simp add: pipeline_mapping_def example_pipeline_def)
  moreover have get: "obj_get ?m (js ''a.b'') = Some (flattenProperty False (sub_properties (hd required_schema) ! 0) 1 (js ''a''))"
    by (simp add: required_mapping_eq)
  moreover have "required_for (tpt_target (example_pipeline_type required_schema)) (pi_exportMode (example_pipeline (Some ?m) None))
      (tp_createRequired (flattenProperty False (sub_properties (hd required_schema) ! 0) 1 (js ''a'')))
      (tp_updateRequired (flattenProperty False (sub_properties (hd required_schema) ! 0) 1 (js ''a'')))"
    by (simp add: required_example_simps required_for_def includes_create_def)
  ultimately show ?thesis
    using checkMapping_rule [OF map get, of "example_pipeline_type required_schema"] unfolding Let_def by simp
qed

subsection \<open>The two checks agree\<close>

text \<open>A mapping made from the flattened output schema by giving values to some of its paths.\<close>

definition with_values :: "(jsstr \<Rightarrow> jsstr) \<Rightarrow> flat_schema \<Rightarrow> flat_schema" where
  "with_values v flat = map (\<lambda>(k, tp). (k, tp\<lparr>tp_value := v k\<rparr>)) flat"

lemma obj_get_with_values: "obj_get (with_values v flat) k = map_option (\<lambda>tp. tp\<lparr>tp_value := v k\<rparr>) (obj_get flat k)"
  by (induction flat) (auto simp: with_values_def)

lemma obj_keys_with_values [simp]: "obj_keys (with_values v flat) = obj_keys flat"
  by (induction flat) (auto simp: with_values_def)

lemma is_mapped_with_values: "is_mapped (with_values v flat) k \<longleftrightarrow> k \<in> set (filter (\<lambda>k. v k \<noteq> []) (obj_keys flat))"
  by (auto simp: is_mapped_def obj_get_with_values in_obj_keys split: option.splits)

lemma check_required_cong:
  assumes "\<And>k. map_option tp_full (obj_get a k) = map_option tp_full (obj_get b k)" "obj_keys a = obj_keys b"
    and "\<And>k. selected k \<longleftrightarrow> selected' k"
    and "tp_createRequired t = tp_createRequired t'" "tp_updateRequired t = tp_updateRequired t'" "tp_indentation t = tp_indentation t'"
  shows "check_required pipeline pipelineType a selected path t = check_required pipeline pipelineType b selected' path t'"
proof -
  have sel: "selected = selected'" using assms(3) by blast
  have req: "(case obj_get a p of None \<Rightarrow> False | Some tp \<Rightarrow> f (tp_full tp)) =
      (case obj_get b p of None \<Rightarrow> False | Some tp \<Rightarrow> f (tp_full tp))" for p and f :: "property \<Rightarrow> bool"
    using assms(1) [of p] by (cases "obj_get a p"; cases "obj_get b p") auto
  show ?thesis
    using req [where f = "\<lambda>q. required_for (tpt_target pipelineType) (pi_exportMode pipeline) (p_createRequired q) (p_updateRequired q)"]
    by (simp add: check_required_def sel assms(2,4,5,6))
qed

text \<open>
  \<open>checkMapping\<close> on a mapping and \<open>checkFunctionPath\<close> on the paths the mapping gives a value to
  always agree, on what is required and on what is selected.
\<close>

theorem checkFunctionPath_agrees_with_checkMapping:
  assumes "flattenSchema (map_option ObjectType (tpt_outputSchema pipelineType)) False = Some flat"
    and "pipeline_mapping pipeline = Some (with_values v flat)"
  shows "checkFunctionPath path pipeline pipelineType OutputRole (filter (\<lambda>k. v k \<noteq> []) (obj_keys flat)) =
    Some (checkMapping path pipeline pipelineType)"
proof (cases "obj_get flat path")
  case None
  with assms show ?thesis by (simp add: checkFunctionPath_def checkMapping_def obj_get_with_values)
next
  case (Some tp)
  let ?flagged = "\<lambda>k. k \<in> set (filter (\<lambda>k. v k \<noteq> []) (obj_keys flat))"
  have "check_required pipeline pipelineType flat ?flagged path tp =
      check_required pipeline pipelineType (with_values v flat) (is_mapped (with_values v flat)) path (tp\<lparr>tp_value := v path\<rparr>)"
    by (rule check_required_cong)
      (simp_all add: obj_get_with_values is_mapped_with_values option.map_comp o_def)
  moreover have "(\<exists>p \<in> set (parent_paths path (obj_keys flat)). is_mapped (with_values v flat) p) \<longleftrightarrow>
      (\<exists>p \<in> set (filter (\<lambda>k. v k \<noteq> []) (obj_keys flat)). starts_with path (p @ js ''.''))"
    by (auto simp: is_mapped_with_values parent_paths_def)
  ultimately show ?thesis using assms Some
    by (simp add: checkFunctionPath_def checkMapping_def obj_get_with_values is_mapped_with_values Let_def)
qed

theorem checkFunctionPath_agrees_with_checkMapping_witness:
  "checkFunctionPath (js ''a.b'') (example_pipeline (Some (with_values (\<lambda>k. if k = js ''a.c'' then js ''x'' else []) (flatten_object required_schema))) None)
     (example_pipeline_type required_schema) OutputRole (filter (\<lambda>k. (if k = js ''a.c'' then js ''x'' else []) \<noteq> []) (obj_keys (flatten_object required_schema))) =
   Some (checkMapping (js ''a.b'') (example_pipeline (Some (with_values (\<lambda>k. if k = js ''a.c'' then js ''x'' else []) (flatten_object required_schema))) None)
     (example_pipeline_type required_schema))"
  by (rule checkFunctionPath_agrees_with_checkMapping)
    (simp_all add: example_pipeline_type_def flattenSchema_object pipeline_mapping_def example_pipeline_def)

text \<open>
  a nested table key that is required for creating is not reported as required when none of
  its ancestors has a value, although the comment of the source says that a table key always is.
\<close>

theorem checkMapping_nested_table_key:
  "checkMapping (js ''a.b'') (example_pipeline (Some (required_mapping [])) (Some (js ''a.b''))) (example_pipeline_type required_schema) =
     \<lparr>ti_isRequired = False, ti_isSelected = False\<rparr>"
  by (simp add: checkMapping_def check_required_def required_example_simps required_for_def includes_create_def includes_update_def
      intermediate_required_def parent_paths_def child_paths_def selected_through_def is_mapped_def is_matching_out_def js_Cons)

end
