(* ===== verification/Matching.thy ===== *)
theory Matching
  imports Pipeline_Types
begin

section \<open>Matching properties and update times (lib/core/pipeline.ts)\<close>

text \<open>
  Which pairs of properties an export can match users on, and when two properties have the same type
  or the same semantics. An absent option of a semantics is \<open>undefined\<close> on both sides, so \<open>===\<close> is
  equality of the options; \<open>JSON.stringify\<close> separates lists of strings, so comparing its results
  is comparing the lists. Also the checks on the column that holds the update time.
\<close>

definition typeSemanticsAreEqual :: "schema_type \<Rightarrow> schema_type \<Rightarrow> bool" where
  "typeSemanticsAreEqual aType bType =
     (if type_semantics aType \<noteq> type_semantics bType then False
      else case type_semantics aType of
        Some Country \<Rightarrow> type_format aType = type_format bType
      | Some Duration \<Rightarrow> type_unit aType = type_unit bType
      | Some Measurement \<Rightarrow> type_unit aType = type_unit bType
      | Some Money \<Rightarrow> type_currency aType = type_currency bType
      | _ \<Rightarrow> True)"

definition matchingSemanticsAreCompatibleWithDestination ::
  "schema_type \<Rightarrow> property option \<Rightarrow> export_mode option \<Rightarrow> bool" where
  "matchingSemanticsAreCompatibleWithDestination sourceType destination exportMode =
     (case destination of
        None \<Rightarrow> True
      | Some d \<Rightarrow> (exportMode = Some UpdateOnly \<and> \<not> p_updateRequired d) \<or> typeSemanticsAreEqual sourceType (p_type d))"

definition propertyTypesAreEqual :: "schema_type \<Rightarrow> schema_type \<Rightarrow> bool" where
  "propertyTypesAreEqual aType bType =
     (if kind_of aType \<noteq> kind_of bType \<or> \<not> typeSemanticsAreEqual aType bType then False
      else case (aType, bType) of
        (IntType a, IntType b) \<Rightarrow>
          it_bitSize a = it_bitSize b \<and> it_minimum a = it_minimum b \<and> it_maximum a = it_maximum b
      | (StringType a, StringType b) \<Rightarrow>
          st_maxBytes a = st_maxBytes b \<and> st_maxLength a = st_maxLength b
          \<and> st_pattern a = st_pattern b \<and> st_values a = st_values b
      | _ \<Rightarrow> True)"

datatype matching_error =
    MatchingKind type_kind
  | MatchingConversion type_kind type_kind
  | MatchingSemantics

definition validateMatching :: "property \<Rightarrow> property \<Rightarrow> matching_error + unit" where
  "validateMatching inMatching outMatching =
     (let inTyp = kind_of (p_type inMatching); exTyp = kind_of (p_type outMatching);
          conversionError = MatchingConversion inTyp exTyp in
      res_bind (throw_if (inTyp \<noteq> KInt \<and> inTyp \<noteq> KString \<and> inTyp \<noteq> KUUID) (MatchingKind inTyp)) (\<lambda>_.
      res_bind
        (if inTyp = KInt then throw_if (exTyp \<noteq> KInt \<and> exTyp \<noteq> KString) conversionError
         else if inTyp = KString then throw_if (exTyp \<noteq> KInt \<and> exTyp \<noteq> KUUID \<and> exTyp \<noteq> KString) conversionError
         else if inTyp = KUUID then throw_if (exTyp \<noteq> KUUID \<and> exTyp \<noteq> KString) conversionError
         else Inr ()) (\<lambda>_.
      throw_if (type_semantics (p_type inMatching) \<noteq> None \<and> type_semantics (p_type outMatching) \<noteq> None
                \<and> \<not> typeSemanticsAreEqual (p_type inMatching) (p_type outMatching)) MatchingSemantics)))"

subsection \<open>Update times\<close>

text \<open>\<open>None\<close> is the \<open>TypeError\<close> of reading a property of a \<open>null\<close> schema.\<close>

definition doesUpdatedAtColumnNeedFormat :: "jsstr option \<Rightarrow> property list option \<Rightarrow> bool option" where
  "doesUpdatedAtColumnNeedFormat updatedAtColumn schema =
     (case updatedAtColumn of
        None \<Rightarrow> Some False
      | Some column \<Rightarrow>
          if column = [] then Some False
          else (case flattenSchema (map_option ObjectType schema) False of
                  None \<Rightarrow> None
                | Some flat \<Rightarrow>
                    (case obj_get flat column of
                       None \<Rightarrow> Some False
                     | Some p \<Rightarrow> Some (tp_type p = KJSON \<or> tp_type p = KString))))"

datatype updated_at_error = FormatEmpty | FormatTooLong | FormatInvalid

definition validateCustomUpdatedAtFormat :: "jsstr \<Rightarrow> updated_at_error + unit" where
  "validateCustomUpdatedAtFormat format =
     res_bind (throw_if (format = []) FormatEmpty) (\<lambda>_.
     res_bind (throw_if (length (code_points format) > 64) FormatTooLong) (\<lambda>_.
     throw_if (ch CHR ''%'' \<notin> set format) FormatInvalid))"

subsection \<open>Equality of semantics and of types\<close>

locale equivalence_test =
  fixes same :: "'a \<Rightarrow> 'a \<Rightarrow> bool"
  assumes same_refl: "same a a"
    and same_sym: "same a b \<Longrightarrow> same b a"
    and same_trans: "same a b \<Longrightarrow> same b c \<Longrightarrow> same a c"
begin

lemma same_cong: "same a b \<Longrightarrow> same a c \<longleftrightarrow> same b c"
  using same_sym same_trans by blast

end

lemma typeSemanticsAreEqual_alt:
  "typeSemanticsAreEqual a b \<longleftrightarrow>
     type_semantics a = type_semantics b
     \<and> (type_semantics a = Some Country \<longrightarrow> type_format a = type_format b)
     \<and> (type_semantics a = Some Duration \<or> type_semantics a = Some Measurement \<longrightarrow> type_unit a = type_unit b)
     \<and> (type_semantics a = Some Money \<longrightarrow> type_currency a = type_currency b)"
  by (simp add: typeSemanticsAreEqual_def split: option.splits semantics.splits)

interpretation semantics_eq: equivalence_test typeSemanticsAreEqual
  by unfold_locales (auto simp: typeSemanticsAreEqual_alt)

text \<open>The options of a type that \<open>propertyTypesAreEqual\<close> compares.\<close>

fun int_options :: "schema_type \<Rightarrow> (nat \<times> js_num option \<times> js_num option) option" where
  "int_options (IntType t) = Some (it_bitSize t, it_minimum t, it_maximum t)"
| "int_options _ = None"

fun string_options :: "schema_type \<Rightarrow> (js_num option \<times> js_num option \<times> jsstr option \<times> jsstr list option) option" where
  "string_options (StringType t) = Some (st_maxBytes t, st_maxLength t, st_pattern t, st_values t)"
| "string_options _ = None"

lemma propertyTypesAreEqual_alt:
  "propertyTypesAreEqual a b \<longleftrightarrow>
     kind_of a = kind_of b \<and> typeSemanticsAreEqual a b
     \<and> int_options a = int_options b \<and> string_options a = string_options b"
  by (cases a; cases b) (auto simp: propertyTypesAreEqual_def)

interpretation types_eq: equivalence_test propertyTypesAreEqual
proof
  fix a b c
  show "propertyTypesAreEqual a a" by (simp add: propertyTypesAreEqual_alt semantics_eq.same_refl)
  show "propertyTypesAreEqual b a" if "propertyTypesAreEqual a b"
    using that semantics_eq.same_sym [of a b] by (simp add: propertyTypesAreEqual_alt)
  show "propertyTypesAreEqual a c" if "propertyTypesAreEqual a b" "propertyTypesAreEqual b c"
    using that semantics_eq.same_trans [of a b c] by (simp add: propertyTypesAreEqual_alt)
qed

lemma equal_types_semantics: "propertyTypesAreEqual a b \<Longrightarrow> typeSemanticsAreEqual a b"
  by (simp add: propertyTypesAreEqual_alt)

lemma equal_types_kind: "propertyTypesAreEqual a b \<Longrightarrow> kind_of a = kind_of b"
  by (simp add: propertyTypesAreEqual_alt)

text \<open>
  the check of a pair of matching properties depends on their types only up to
  \<open>propertyTypesAreEqual\<close>, which is an equivalence; a property of a kind that can be matched always
  matches a property of an equal type.
\<close>

theorem validateMatching_respects_types:
  assumes "propertyTypesAreEqual (p_type a) (p_type a')" "propertyTypesAreEqual (p_type b) (p_type b')"
  shows "validateMatching a b = validateMatching a' b' \<and>
    (propertyTypesAreEqual (p_type a) (p_type b) \<longrightarrow>
       (validateMatching a b = Inr () \<longleftrightarrow> kind_of (p_type a) \<in> {KInt, KString, KUUID}))"
proof -
  have kinds: "kind_of (p_type a) = kind_of (p_type a')" "kind_of (p_type b) = kind_of (p_type b')"
    using assms by (simp_all add: equal_types_kind)
  have sem: "type_semantics (p_type a) = type_semantics (p_type a')" "type_semantics (p_type b) = type_semantics (p_type b')"
    using assms [THEN equal_types_semantics] by (auto simp: typeSemanticsAreEqual_def split: if_splits)
  have "typeSemanticsAreEqual (p_type a) (p_type b) = typeSemanticsAreEqual (p_type a') (p_type b')"
    using assms [THEN equal_types_semantics] semantics_eq.same_sym semantics_eq.same_trans by metis
  moreover have "validateMatching a b = Inr () \<longleftrightarrow> kind_of (p_type a) \<in> {KInt, KString, KUUID}"
    if "propertyTypesAreEqual (p_type a) (p_type b)"
    using equal_types_semantics [OF that] equal_types_kind [OF that]
    by (auto simp: validateMatching_def Let_def throw_if_def)
  ultimately show ?thesis by (simp add: validateMatching_def kinds sem)
qed

definition int_type_of :: "bool \<Rightarrow> schema_type" where
  "int_type_of uns = IntType \<lparr>it_semantics = None, it_unit = None, it_bitSize = 32, it_unsigned = uns,
     it_minimum = None, it_maximum = None\<rparr>"

theorem validateMatching_respects_types_witness:
  "validateMatching (plain_property (js ''id'') (int_type_of True)) (plain_property (js ''key'') (int_type_of True)) = Inr ()"
proof -
  have eq: "propertyTypesAreEqual (p_type (plain_property (js ''id'') (int_type_of True))) (p_type (plain_property (js ''id'') (int_type_of True)))"
    "propertyTypesAreEqual (p_type (plain_property (js ''key'') (int_type_of True))) (p_type (plain_property (js ''key'') (int_type_of True)))"
    by (rule types_eq.same_refl)+
  show ?thesis
    using validateMatching_respects_types [OF eq] types_eq.same_refl [of "int_type_of True"]
    by (simp add: plain_property_def int_type_of_def)
qed

text \<open>
  \<open>propertyTypesAreEqual\<close> does not tell a signed integer type from the unsigned one of the same
  size, so a source and a destination property that differ in it count as the same.
\<close>

theorem propertyTypesAreEqual_ignores_sign:
  "propertyTypesAreEqual (IntType t) (IntType (t\<lparr>it_unsigned := \<not> it_unsigned t\<rparr>))"
  by (simp add: propertyTypesAreEqual_alt typeSemanticsAreEqual_def split: option.splits semantics.splits)

end
