(* ===== verification/Mapping_State.thy ===== *)
theory Mapping_State
  imports Required_Paths Matching
begin

section \<open>The mapping editor's state (lib/core/pipeline.ts, components/routes/PipelineWrapper)\<close>

text \<open>
  A mapping gives expressions to the properties of the output schema. A property whose ancestor or
  descendant has an expression is disabled: it already has a value. \<open>transformPipelineMapping\<close>
  makes the editor's mapping from a saved one, \<open>updateMappingProperty\<close> is the transition of the
  editor when the user types, \<open>onUpdateMatching\<close> the one of the matching section, which may clear an
  expression, and \<open>onConfirmTable\<close> the one of the destination table, which changes the schema. In
  every state the relatives of a filled property are disabled, and it is not; until a choice of the
  matching clears an expression, a disabled property has a filled relative. \<open>None\<close> is a \<open>TypeError\<close>
  of the source.
\<close>

subsection \<open>transformPipelineMapping\<close>

definition set_disabled :: "bool \<Rightarrow> flat_schema \<Rightarrow> jsstr list \<Rightarrow> flat_schema" where
  "set_disabled b mapping paths = foldl (\<lambda>m p. obj_modify m p (\<lambda>tp. tp\<lparr>tp_disabled := b\<rparr>)) mapping paths"

fun fill_paths :: "mapping \<Rightarrow> jsstr list \<Rightarrow> flat_schema \<Rightarrow> flat_schema option" where
  "fill_paths saved [] s = Some s"
| "fill_paths saved (path # paths) s =
     (case obj_get saved path of
        None \<Rightarrow> fill_paths saved paths s
      | Some v \<Rightarrow>
          if v = [] then fill_paths saved paths s
          else
            let s1 = obj_modify s path (\<lambda>tp. tp\<lparr>tp_value := v\<rparr>) in
            (case getHierarchicalPaths path s1 of
               None \<Rightarrow> None
             | Some (parents, children) \<Rightarrow> fill_paths saved paths (set_disabled True s1 (parents @ children))))"

definition transformPipelineMapping :: "mapping \<Rightarrow> property list \<Rightarrow> flat_schema option" where
  "transformPipelineMapping saved outputSchema =
     (let s = flatten_object outputSchema in fill_paths saved (obj_keys s) s)"

subsection \<open>updateMappingProperty\<close>

definition tp_value_at :: "flat_schema \<Rightarrow> jsstr \<Rightarrow> jsstr" where
  "tp_value_at m k = (case obj_get m k of None \<Rightarrow> [] | Some tp \<Rightarrow> tp_value tp)"

fun enable_ancestors :: "jsstr list \<Rightarrow> flat_schema \<Rightarrow> flat_schema option" where
  "enable_ancestors [] mapping = Some mapping"
| "enable_ancestors (a # as) mapping =
     (case getHierarchicalPaths a mapping of
        None \<Rightarrow> None
      | Some (_, desc) \<Rightarrow>
          enable_ancestors as
            (if \<exists>d \<in> set desc. tp_value_at mapping d \<noteq> [] then mapping
             else obj_modify mapping a (\<lambda>tp. tp\<lparr>tp_disabled := False\<rparr>)))"

definition update_mapping :: "flat_schema \<Rightarrow> jsstr \<Rightarrow> jsstr \<Rightarrow> jsstr \<Rightarrow> flat_schema option" where
  "update_mapping mapping path val err =
     (case obj_get mapping path of
        None \<Rightarrow> None
      | Some tp \<Rightarrow>
          let oldValue = tp_value tp;
              mapping1 = obj_modify mapping path (\<lambda>tp. tp\<lparr>tp_error := err, tp_value := val\<rparr>)
          in (case getHierarchicalPaths path mapping1 of
                None \<Rightarrow> None
              | Some (ancestors, descendants) \<Rightarrow>
                  if oldValue = [] \<and> val \<noteq> [] then Some (set_disabled True mapping1 (ancestors @ descendants))
                  else if val = [] then enable_ancestors ancestors (set_disabled False mapping1 descendants)
                  else Some mapping1))"

definition with_mapping :: "transformed_pipeline \<Rightarrow> (flat_schema \<Rightarrow> flat_schema option) \<Rightarrow> transformed_pipeline option" where
  "with_mapping pipeline f =
     (case pi_transformation pipeline of
        None \<Rightarrow> None
      | Some t \<Rightarrow>
          (case tt_mapping t of
             None \<Rightarrow> Some pipeline
           | Some m \<Rightarrow> map_option (\<lambda>m'. pipeline\<lparr>pi_transformation := Some (t\<lparr>tt_mapping := Some m'\<rparr>)\<rparr>) (f m)))"

definition updateMappingProperty :: "transformed_pipeline \<Rightarrow> jsstr \<Rightarrow> jsstr \<Rightarrow> jsstr \<Rightarrow> transformed_pipeline option" where
  "updateMappingProperty pipeline path val err = with_mapping pipeline (\<lambda>m. update_mapping m path val err)"

definition updateMappingPropertyError :: "transformed_pipeline \<Rightarrow> jsstr \<Rightarrow> jsstr \<Rightarrow> transformed_pipeline option" where
  "updateMappingPropertyError pipeline path err =
     with_mapping pipeline (\<lambda>m.
       if obj_get m path = None then None else Some (obj_modify m path (\<lambda>tp. tp\<lparr>tp_error := err\<rparr>)))"

text \<open>The message is built around the property's name; the empty string is no error.\<close>

definition checkIfPropertyExists :: "jsstr \<Rightarrow> flat_schema option \<Rightarrow> jsstr list \<Rightarrow> jsstr" where
  "checkIfPropertyExists property schema toHide =
     (case schema of
        None \<Rightarrow> []
      | Some s \<Rightarrow>
          if property = [] then []
          else if obj_get s property = None \<or> property \<in> set toHide
          then js ''Property \"'' @ property @ js ''\" does not exist''
          else [])"

subsection \<open>The matching section (PipelineMatching.tsx)\<close>

text \<open>
  \<open>onUpdateMatching\<close> and \<open>onSelectMatching\<close> have the same body: the user writes or selects one of the two
  matching properties; when the one on the output is mapped to the one on the input, its expression
  is cleared. \<open>mappings\<close> is \<open>transformationType === 'mappings'\<close>.
\<close>

datatype matching_side = MatchIn | MatchOut

definition clear_value :: "flat_schema \<Rightarrow> jsstr \<Rightarrow> flat_schema" where
  "clear_value mapping path = obj_modify mapping path (\<lambda>tp. tp\<lparr>tp_value := []\<rparr>)"

definition onUpdateMatching :: "bool \<Rightarrow> matching_side \<Rightarrow> jsstr \<Rightarrow> transformed_pipeline \<Rightarrow> transformed_pipeline option" where
  "onUpdateMatching mappings side v pipeline =
     (case pi_matching pipeline of
        None \<Rightarrow> None
      | Some mt \<Rightarrow>
          let mt1 = (case side of MatchIn \<Rightarrow> mt\<lparr>m_in := v\<rparr> | MatchOut \<Rightarrow> mt\<lparr>m_out := v\<rparr>);
              p = pipeline\<lparr>pi_matching := Some mt1\<rparr>
          in if side = MatchOut \<and> v \<noteq> [] \<and> m_in mt1 \<noteq> [] \<and> mappings
             then (case pipeline_mapping p of
                     None \<Rightarrow> None
                   | Some m \<Rightarrow>
                       if obj_get m v \<noteq> None \<and> tp_value_at m v = m_in mt1
                       then with_mapping p (\<lambda>m. Some (clear_value m v))
                       else Some p)
             else Some p)"

subsection \<open>The destination table (PipelineTable.tsx)\<close>

text \<open>
  When the user confirms another table the mapping is made again from its columns; a column that was
  mapped with an equal type keeps its expression and its error.
\<close>

definition keep_old :: "flat_schema \<Rightarrow> flat_schema \<Rightarrow> flat_schema" where
  "keep_old old mapping =
     map (\<lambda>(path, tp). (path,
       case obj_get old path of
         None \<Rightarrow> tp
       | Some o1 \<Rightarrow>
           if propertyTypesAreEqual (p_type (tp_full tp)) (p_type (tp_full o1))
           then tp\<lparr>tp_value := tp_value o1, tp_error := tp_error o1\<rparr> else tp)) mapping"

definition onConfirmTable :: "property list \<Rightarrow> transformed_pipeline \<Rightarrow> transformed_pipeline option" where
  "onConfirmTable columns pipeline =
     (case (pi_transformation pipeline, flattenSchema (Some (ObjectType columns)) True) of
        (Some t, Some mapping) \<Rightarrow>
          Some (pipeline\<lparr>pi_transformation := Some (t\<lparr>tt_mapping := Some
            (case tt_mapping t of None \<Rightarrow> mapping | Some old \<Rightarrow> keep_old old mapping)\<rparr>)\<rparr>)
      | _ \<Rightarrow> None)"

subsection \<open>The reset of the transformation (PipelineTransformation.tsx)\<close>

text \<open>\<open>onChangeTransformationType\<close> to mappings: the mapping has the values with which the schema is prefilled.\<close>

definition change_to_mappings :: "property list option \<Rightarrow> transformed_pipeline \<Rightarrow> transformed_pipeline option" where
  "change_to_mappings outputSchema pipeline =
     map_option (\<lambda>t. pipeline\<lparr>pi_inSchema := None, pi_outSchema := None,
       pi_transformation := Some (t\<lparr>tt_mapping := flattenSchema (map_option ObjectType outputSchema) True, tt_function := None\<rparr>)\<rparr>)
       (pi_transformation pipeline)"

subsection \<open>Relatives\<close>

definition above :: "jsstr \<Rightarrow> jsstr \<Rightarrow> bool" where
  "above x d \<longleftrightarrow> starts_with d (x @ [46])"

definition relative :: "jsstr \<Rightarrow> jsstr \<Rightarrow> bool" where
  "relative x y \<longleftrightarrow> above x y \<or> above y x"

lemma above_iff: "above x d \<longleftrightarrow> (\<exists>r. d = x @ 46 # r)"
  by (auto simp: above_def starts_with_iff)

lemma above_dots: "above x d \<Longrightarrow> count_list x 46 < count_list d 46"
  by (auto simp: above_iff)

lemma above_trans: "above x y \<Longrightarrow> above y z \<Longrightarrow> above x z"
  by (auto simp: above_iff)

lemma above_linear: "above x d \<Longrightarrow> above y d \<Longrightarrow> x = y \<or> above x y \<or> above y x"
proof -
  assume "above x d" "above y d"
  then obtain r s where "x @ 46 # r = y @ 46 # s" by (auto simp: above_iff)
  then consider us where "x = y @ us" "us @ 46 # r = 46 # s" | us where "x @ us = y" "46 # r = us @ 46 # s"
    by (auto simp: append_eq_append_conv2)
  then show ?thesis
  proof cases
    case 1
    then show ?thesis by (cases us) (auto simp: above_iff)
  next
    case 2
    then show ?thesis by (cases us) (auto simp: above_iff)
  qed
qed

lemma not_above_self [simp]: "\<not> above x x"
  using above_dots [of x x] by auto

lemma relative_sym: "relative x y \<longleftrightarrow> relative y x"
  by (auto simp: relative_def)

lemma relative_self [simp]: "\<not> relative x x"
  by (simp add: relative_def)

text \<open>The relatives of a descendant are relatives of the property, or the property.\<close>

lemma relative_below: "above p d \<Longrightarrow> relative d x \<Longrightarrow> x = p \<or> relative p x"
  using above_linear above_trans by (fastforce simp: relative_def)

text \<open>A mapping's entries have the depth of their path.\<close>

definition wf_mapping :: "flat_schema \<Rightarrow> bool" where
  "wf_mapping m \<longleftrightarrow> distinct (obj_keys m) \<and> (\<forall>k tp. obj_get m k = Some tp \<longrightarrow> tp_indentation tp = count_list k 46)"

lemma hierarchical_relatives:
  assumes "wf_mapping m" "k \<in> set (obj_keys m)"
  shows "\<exists>as ds. getHierarchicalPaths k m = Some (as, ds)
    \<and> set as = {x \<in> set (obj_keys m). above x k} \<and> set ds = {x \<in> set (obj_keys m). above k x}"
proof -
  obtain tp where tp: "obj_get m k = Some tp" using assms(2) by (auto simp: in_obj_keys)
  have ind: "tp_indentation q = count_list x 46" if "(x, q) \<in> set m" for x q
    using assms(1) that obj_get_in_set by (fastforce simp: wf_mapping_def)
  have ind_k: "tp_indentation tp = count_list k 46" using assms(1) tp by (simp add: wf_mapping_def)
  have keys: "x \<in> set (obj_keys m) \<longleftrightarrow> (\<exists>q. (x, q) \<in> set m)" for x by (force simp: obj_keys_def)
  show ?thesis
    unfolding getHierarchicalPaths_def tp Let_def option.map option.inject prod.inject
    using above_dots ind_k ind by (intro exI conjI refl) (force simp: above_def keys js_Cons image_iff)+
qed


subsection \<open>The invariant\<close>

text \<open>
  The relatives of a filled property are disabled (\<open>mapping_covers\<close>), a disabled property has a filled
  relative (\<open>mapping_justified\<close>), a filled property is not disabled (\<open>exclusive\<close>). \<open>mapping_inv\<close> is the
  first two.
\<close>

definition mapping_inv :: "flat_schema \<Rightarrow> bool" where
  "mapping_inv m \<longleftrightarrow>
     (\<forall>k tp. obj_get m k = Some tp \<longrightarrow>
        (tp_disabled tp \<longleftrightarrow> (\<exists>x \<in> set (obj_keys m). relative k x \<and> tp_value_at m x \<noteq> [])))"

definition exclusive :: "flat_schema \<Rightarrow> bool" where
  "exclusive m \<longleftrightarrow> (\<forall>k tp. obj_get m k = Some tp \<longrightarrow> tp_value tp \<noteq> [] \<longrightarrow> \<not> tp_disabled tp)"

lemma obj_keys_set_disabled [simp]: "obj_keys (set_disabled b m ps) = obj_keys m"
  unfolding set_disabled_def by (induction ps arbitrary: m) simp_all

lemma obj_get_set_disabled:
  "obj_get (set_disabled b m ps) k = map_option (\<lambda>tp. if k \<in> set ps then tp\<lparr>tp_disabled := b\<rparr> else tp) (obj_get m k)"
proof -
  have "obj_get (foldl (\<lambda>m p. obj_modify m p (\<lambda>tp. tp\<lparr>tp_disabled := b\<rparr>)) m ps) k =
      map_option (\<lambda>tp. if k \<in> set ps then tp\<lparr>tp_disabled := b\<rparr> else tp) (obj_get m k)"
    by (induction ps arbitrary: m) (auto simp: option.map_comp o_def option.map_ident intro!: option.map_cong)
  then show ?thesis by (simp add: set_disabled_def)
qed

lemma tp_value_at_set_disabled [simp]: "tp_value_at (set_disabled b m ps) k = tp_value_at m k"
  by (auto simp: tp_value_at_def obj_get_set_disabled split: option.splits)

lemma wf_mapping_set_disabled [simp]: "wf_mapping (set_disabled b m ps) \<longleftrightarrow> wf_mapping m"
proof -
  have "(\<forall>tp. obj_get (set_disabled b m ps) k = Some tp \<longrightarrow> tp_indentation tp = n) \<longleftrightarrow>
      (\<forall>tp. obj_get m k = Some tp \<longrightarrow> tp_indentation tp = n)" for k n
    by (cases "obj_get m k") (auto simp: obj_get_set_disabled)
  then show ?thesis by (simp add: wf_mapping_def)
qed

lemma wf_mapping_modify:
  assumes "\<And>tp. tp_indentation (f tp) = tp_indentation tp"
  shows "wf_mapping (obj_modify m p f) \<longleftrightarrow> wf_mapping m"
proof -
  have "(\<forall>tp. obj_get (obj_modify m p f) k = Some tp \<longrightarrow> tp_indentation tp = n) \<longleftrightarrow>
      (\<forall>tp. obj_get m k = Some tp \<longrightarrow> tp_indentation tp = n)" for k n
    using assms by (cases "obj_get m k") auto
  then show ?thesis by (simp add: wf_mapping_def)
qed

lemma enable_ancestors_spec:
  assumes "wf_mapping m" "set as \<subseteq> set (obj_keys m)"
  shows "\<exists>m'. enable_ancestors as m = Some m' \<and> obj_keys m' = obj_keys m \<and>
    (\<forall>k. obj_get m' k = map_option (\<lambda>tp.
       if k \<in> set as \<and> \<not> (\<exists>d \<in> set (obj_keys m). above k d \<and> tp_value_at m d \<noteq> []) then tp\<lparr>tp_disabled := False\<rparr> else tp) (obj_get m k))"
  using assms
proof (induction as arbitrary: m)
  case Nil
  then show ?case by (simp add: option.map_ident)
next
  case (Cons a as)
  let ?filled = "\<lambda>m k. \<exists>d \<in> set (obj_keys m). above k d \<and> tp_value_at m d \<noteq> []"
  let ?off = "\<lambda>tp::transformed_property. tp\<lparr>tp_disabled := False\<rparr>"
  from Cons.prems obtain ps ds where h: "getHierarchicalPaths a m = Some (ps, ds)" "set ds = {x \<in> set (obj_keys m). above a x}"
    using hierarchical_relatives [of m a] by auto
  then have desc: "(\<exists>d \<in> set ds. tp_value_at m d \<noteq> []) \<longleftrightarrow> ?filled m a" by auto
  show ?case
  proof (cases "?filled m a")
    case True
    have "wf_mapping m" "set as \<subseteq> set (obj_keys m)" using Cons.prems by simp_all
    from Cons.IH [OF this] obtain m' where "enable_ancestors as m = Some m'" "obj_keys m' = obj_keys m"
      "\<forall>k. obj_get m' k = map_option (\<lambda>tp. if k \<in> set as \<and> \<not> ?filled m k then ?off tp else tp) (obj_get m k)"
      by blast
    moreover have "enable_ancestors (a # as) m = enable_ancestors as m" using h(1) desc True by simp
    moreover have "k \<in> set (a # as) \<and> \<not> ?filled m k \<longleftrightarrow> k \<in> set as \<and> \<not> ?filled m k" for k
      using True by auto
    ultimately show ?thesis by (intro exI [of _ m']) presburger
  next
    case False
    let ?m = "obj_modify m a ?off"
    have val: "tp_value_at ?m d = tp_value_at m d" for d by (auto simp: tp_value_at_def split: option.splits)
    have "wf_mapping ?m" "set as \<subseteq> set (obj_keys ?m)" using Cons.prems by (simp_all add: wf_mapping_modify)
    from Cons.IH [OF this] obtain m' where "enable_ancestors as ?m = Some m'" "obj_keys m' = obj_keys m"
      "\<forall>k. obj_get m' k = map_option (\<lambda>tp. if k \<in> set as \<and> \<not> ?filled m k then ?off tp else tp) (obj_get ?m k)"
      by (auto simp: val)
    moreover have "enable_ancestors (a # as) m = enable_ancestors as ?m" using h(1) desc False by simp
    ultimately show ?thesis using False
      by (intro exI [of _ m']) (auto simp: option.map_comp o_def intro!: option.map_cong)
  qed
qed

lemma tp_value_at_modify: "k \<in> set (obj_keys m) \<Longrightarrow>
    tp_value_at (obj_modify m k (\<lambda>tp. tp\<lparr>tp_error := e, tp_value := v\<rparr>)) x = (if x = k then v else tp_value_at m x)"
  by (auto simp: tp_value_at_def in_obj_keys split: option.splits)


definition disabled_at :: "flat_schema \<Rightarrow> jsstr \<Rightarrow> bool" where
  "disabled_at m k \<longleftrightarrow> (case obj_get m k of None \<Rightarrow> False | Some tp \<Rightarrow> tp_disabled tp)"

definition filled_at :: "flat_schema \<Rightarrow> jsstr \<Rightarrow> bool" where
  "filled_at m k \<longleftrightarrow> tp_value_at m k \<noteq> []"

lemma mapping_inv_iff:
  "mapping_inv m \<longleftrightarrow> (\<forall>k \<in> set (obj_keys m). disabled_at m k \<longleftrightarrow> (\<exists>x \<in> set (obj_keys m). relative k x \<and> filled_at m x))"
  by (force simp: mapping_inv_def disabled_at_def filled_at_def in_obj_keys)

definition mapping_covers :: "flat_schema \<Rightarrow> bool" where
  "mapping_covers m \<longleftrightarrow>
     (\<forall>k \<in> set (obj_keys m). (\<exists>x \<in> set (obj_keys m). relative k x \<and> filled_at m x) \<longrightarrow> disabled_at m k)"

definition mapping_justified :: "flat_schema \<Rightarrow> bool" where
  "mapping_justified m \<longleftrightarrow>
     (\<forall>k \<in> set (obj_keys m). disabled_at m k \<longrightarrow> (\<exists>x \<in> set (obj_keys m). relative k x \<and> filled_at m x))"

lemma mapping_inv_parts: "mapping_inv m \<longleftrightarrow> mapping_covers m \<and> mapping_justified m"
  unfolding mapping_inv_iff mapping_covers_def mapping_justified_def by blast

lemma exclusive_iff: "exclusive m \<longleftrightarrow> (\<forall>k \<in> set (obj_keys m). filled_at m k \<longrightarrow> \<not> disabled_at m k)"
proof -
  have "(\<forall>tp. obj_get m k = Some tp \<longrightarrow> tp_value tp \<noteq> [] \<longrightarrow> \<not> tp_disabled tp) \<longleftrightarrow>
      (k \<in> set (obj_keys m) \<longrightarrow> filled_at m k \<longrightarrow> \<not> disabled_at m k)" for k
    by (cases "obj_get m k") (simp_all add: disabled_at_def filled_at_def tp_value_at_def in_obj_keys)
  then show ?thesis unfolding exclusive_def Ball_def by simp
qed

lemma disabled_at_set_disabled:
  "k \<in> set (obj_keys m) \<Longrightarrow> disabled_at (set_disabled b m ps) k \<longleftrightarrow> (if k \<in> set ps then b else disabled_at m k)"
  by (auto simp: disabled_at_def obj_get_set_disabled in_obj_keys split: option.splits)

lemma filled_at_set_disabled [simp]: "filled_at (set_disabled b m ps) = filled_at m"
  by (simp add: filled_at_def fun_eq_iff)

lemma filled_at_modify:
  "k \<in> set (obj_keys m) \<Longrightarrow>
     filled_at (obj_modify m k (\<lambda>tp. tp\<lparr>tp_error := e, tp_value := v\<rparr>)) x \<longleftrightarrow> (if x = k then v \<noteq> [] else filled_at m x)"
  by (simp add: filled_at_def tp_value_at_modify)

lemma disabled_at_modify:
  "(\<And>tp. tp_disabled (f tp) = tp_disabled tp) \<Longrightarrow> disabled_at (obj_modify m k f) x = disabled_at m x"
  by (auto simp: disabled_at_def split: option.splits)

lemma update_mapping_inv:
  assumes wf: "wf_mapping m" and inv: "mapping_covers m" "exclusive m"
    and path: "path \<in> set (obj_keys m)" and enabled: "\<not> disabled_at m path"
  shows "\<exists>m'. update_mapping m path v e = Some m' \<and> wf_mapping m' \<and> mapping_covers m' \<and> exclusive m'
    \<and> (mapping_justified m \<longrightarrow> mapping_justified m')
    \<and> obj_keys m' = obj_keys m \<and> (\<forall>x. tp_value_at m' x = (if x = path then v else tp_value_at m x))"
proof -
  let ?K = "set (obj_keys m)"
  let ?m1 = "obj_modify m path (\<lambda>tp. tp\<lparr>tp_error := e, tp_value := v\<rparr>)"
  obtain tp where tp: "obj_get m path = Some tp" using path by (auto simp: in_obj_keys)
  have old: "tp_value tp = [] \<longleftrightarrow> \<not> filled_at m path" by (simp add: filled_at_def tp_value_at_def tp)
  have wf1: "wf_mapping ?m1" using wf by (simp add: wf_mapping_modify)
  have cov: "disabled_at m k" if "k \<in> ?K" "x \<in> ?K" "relative k x" "filled_at m x" for k x
    using inv(1) that by (auto simp: mapping_covers_def)
  have ex: "filled_at m k \<Longrightarrow> \<not> disabled_at m k" if "k \<in> ?K" for k
    using inv(2) that by (simp add: exclusive_iff)
  have R0: "\<not> filled_at m x" if "x \<in> ?K" "relative path x" for x using cov [OF path that] enabled by blast
  have f1: "filled_at ?m1 x \<longleftrightarrow> (if x = path then v \<noteq> [] else filled_at m x)" for x
    by (rule filled_at_modify [OF path])
  have d1: "disabled_at ?m1 x = disabled_at m x" for x by (rule disabled_at_modify) simp
  have v1: "tp_value_at ?m1 x = (if x = path then v else tp_value_at m x)" for x by (rule tp_value_at_modify [OF path])
  obtain as ds where h: "getHierarchicalPaths path ?m1 = Some (as, ds)"
    "set as = {x \<in> ?K. above x path}" "set ds = {x \<in> ?K. above path x}"
    using hierarchical_relatives [OF wf1, of path] path by auto
  consider (fill) "\<not> filled_at m path" "v \<noteq> []" | (clear) "v = []" | (replace) "filled_at m path" "v \<noteq> []" by blast
  then show ?thesis
  proof cases
    case fill
    let ?m = "set_disabled True ?m1 (as @ ds)"
    have upd: "update_mapping m path v e = Some ?m"
      using tp h(1) fill old by (simp add: update_mapping_def)
    have d: "disabled_at ?m k \<longleftrightarrow> relative k path \<or> disabled_at m k" if "k \<in> ?K" for k
      using that h(2,3) d1 by (auto simp: disabled_at_set_disabled relative_def)
    have fil: "filled_at ?m1 x \<longleftrightarrow> x = path \<or> filled_at m x" for x using f1 fill by simp
    have "mapping_covers ?m"
      unfolding mapping_covers_def using d cov by (auto simp: fil)
    moreover have "mapping_justified m \<Longrightarrow> mapping_justified ?m"
      unfolding mapping_justified_def using d path by (auto simp: fil)
    moreover have "exclusive ?m"
      unfolding exclusive_iff
    proof (intro ballI impI)
      fix k assume "k \<in> set (obj_keys ?m)" and f: "filled_at ?m k"
      then have k: "k \<in> ?K" by simp
      show "\<not> disabled_at ?m k"
      proof (cases "k = path")
        case True
        then show ?thesis using d [OF k] enabled by simp
      next
        case False
        then have "filled_at m k" using f fil by simp
        then show ?thesis using d [OF k] ex [OF k] R0 [OF k] relative_sym [of k path] by blast
      qed
    qed
    ultimately show ?thesis using upd wf1 v1 by simp
  next
    case clear
    let ?m2 = "set_disabled False ?m1 ds"
    let ?left = "\<lambda>k. \<exists>d \<in> ?K. above k d \<and> filled_at ?m1 d"
    have "wf_mapping ?m2" "set as \<subseteq> set (obj_keys ?m2)" using wf1 h(2) by auto
    from enable_ancestors_spec [OF this] obtain m' where m': "enable_ancestors as ?m2 = Some m'" "obj_keys m' = obj_keys m"
      "\<And>k. obj_get m' k = map_option (\<lambda>tp. if k \<in> set as \<and> \<not> ?left k then tp\<lparr>tp_disabled := False\<rparr> else tp) (obj_get ?m2 k)"
      by (auto simp: filled_at_def)
    have upd: "update_mapping m path v e = Some m'" using tp h(1) clear m'(1) by (simp add: update_mapping_def)
    have val: "tp_value_at m' x = tp_value_at ?m1 x" for x
    proof -
      have "tp_value_at m' x = tp_value_at ?m2 x" by (auto simp: tp_value_at_def m'(3) split: option.splits)
      then show ?thesis by simp
    qed
    then have fil: "filled_at m' x \<longleftrightarrow> x \<noteq> path \<and> filled_at m x" for x using f1 clear by (simp add: filled_at_def)
    have left: "?left k \<longleftrightarrow> (\<exists>d \<in> ?K. above k d \<and> filled_at m' d)" for k
      using f1 clear by (simp add: fil) blast
    have dis: "disabled_at m' k \<longleftrightarrow> disabled_at m k \<and> \<not> above path k \<and> (above k path \<longrightarrow> ?left k)" if k: "k \<in> ?K" for k
    proof -
      have a: "disabled_at m' k \<longleftrightarrow> (if k \<in> set as \<and> \<not> ?left k then False else disabled_at ?m2 k)"
        by (cases "obj_get ?m2 k") (simp_all add: disabled_at_def m'(3) del: obj_get_modify, blast)
      have b: "disabled_at ?m2 k \<longleftrightarrow> (if k \<in> set ds then False else disabled_at m k)"
        using k d1 by (simp add: disabled_at_set_disabled)
      show ?thesis using k unfolding a b h(2,3) by auto
    qed
    have "mapping_covers m'"
      unfolding mapping_covers_def m'(2)
    proof (intro ballI impI)
      fix k assume k: "k \<in> ?K" and "\<exists>x \<in> ?K. relative k x \<and> filled_at m' x"
      then obtain x where x: "x \<in> ?K" "relative k x" "filled_at m x" "x \<noteq> path" "filled_at m' x" by (auto simp: fil)
      have "\<not> above path k" using relative_below [of path k x] x R0 by blast
      moreover have "?left k" if "above k path"
      proof -
        have "\<not> above x k" using above_trans [OF _ that, of x] x R0 [of x] by (auto simp: relative_def)
        then show ?thesis unfolding left using x by (auto simp: relative_def)
      qed
      ultimately show "disabled_at m' k" using cov [OF k x(1-3)] dis [OF k] by blast
    qed
    moreover have "mapping_justified m'" if just: "mapping_justified m"
      unfolding mapping_justified_def m'(2)
    proof (intro ballI impI)
      fix k assume k: "k \<in> ?K" and "disabled_at m' k"
      then have d: "disabled_at m k" "\<not> above path k" "above k path \<longrightarrow> ?left k" using dis [OF k] by blast+
      obtain x where x: "x \<in> ?K" "relative k x" "filled_at m x"
        using just k d(1) by (auto simp: mapping_justified_def)
      show "\<exists>x \<in> ?K. relative k x \<and> filled_at m' x"
      proof (cases "above k path")
        case True
        with d(3) show ?thesis unfolding left by (auto simp: relative_def)
      next
        case False
        with d(2) x(2) have "x \<noteq> path" by (auto simp: relative_def)
        with x show ?thesis by (auto simp: fil)
      qed
    qed
    moreover have "exclusive m'"
      unfolding exclusive_iff m'(2) using dis ex by (auto simp: fil)
    moreover have "wf_mapping m'"
    proof -
      have "tp_indentation tp' = count_list k 46" if "obj_get m' k = Some tp'" for k tp'
        using that \<open>wf_mapping ?m2\<close> by (auto simp: m'(3) wf_mapping_def split: if_splits)
      then show ?thesis using wf by (simp add: wf_mapping_def m'(2))
    qed
    ultimately show ?thesis using upd m'(2) val v1 by auto
  next
    case replace
    have upd: "update_mapping m path v e = Some ?m1" using tp h(1) replace old by (simp add: update_mapping_def)
    have "filled_at ?m1 = filled_at m" using replace f1 by (auto simp: fun_eq_iff)
    then have "mapping_covers ?m1" "exclusive ?m1" "mapping_justified m \<longrightarrow> mapping_justified ?m1"
      using inv d1 unfolding mapping_covers_def mapping_justified_def exclusive_iff obj_keys_modify by (simp_all only: simp_thms)
    then show ?thesis using upd wf1 v1 by (intro exI [of _ ?m1]) simp
  qed
qed

subsection \<open>The mapping of a saved pipeline\<close>

definition saved_at :: "mapping \<Rightarrow> jsstr \<Rightarrow> jsstr" where
  "saved_at saved k = (case obj_get saved k of None \<Rightarrow> [] | Some v \<Rightarrow> v)"

lemma fill_paths_spec:
  assumes "wf_mapping m" "set paths \<subseteq> set (obj_keys m)"
  shows "\<exists>m'. fill_paths saved paths m = Some m' \<and> wf_mapping m' \<and> obj_keys m' = obj_keys m \<and>
    (\<forall>k. tp_value_at m' k = (if k \<in> set paths \<and> saved_at saved k \<noteq> [] then saved_at saved k else tp_value_at m k)) \<and>
    (\<forall>k \<in> set (obj_keys m). disabled_at m' k \<longleftrightarrow> disabled_at m k \<or> (\<exists>x \<in> set paths. relative k x \<and> saved_at saved x \<noteq> []))"
  using assms
proof (induction paths arbitrary: m)
  case Nil
  then show ?case by simp
next
  case (Cons p ps)
  let ?v = "saved_at saved p"
  show ?case
  proof (cases "?v = []")
    case True
    then have "fill_paths saved (p # ps) m = fill_paths saved ps m"
      by (simp add: saved_at_def split: option.splits)
    moreover have "wf_mapping m" "set ps \<subseteq> set (obj_keys m)" using Cons.prems by auto
    ultimately show ?thesis using Cons.IH [of m] True by auto
  next
    case False
    let ?m1 = "obj_modify m p (\<lambda>tp. tp\<lparr>tp_value := ?v\<rparr>)"
    have p: "p \<in> set (obj_keys m)" using Cons.prems by simp
    have wf1: "wf_mapping ?m1" using Cons.prems(1) by (simp add: wf_mapping_modify)
    obtain as ds where h: "getHierarchicalPaths p ?m1 = Some (as, ds)"
      "set as = {x \<in> set (obj_keys m). above x p}" "set ds = {x \<in> set (obj_keys m). above p x}"
      using hierarchical_relatives [OF wf1, of p] p by auto
    let ?m2 = "set_disabled True ?m1 (as @ ds)"
    have saved: "obj_get saved p = Some ?v" using False by (auto simp: saved_at_def split: option.splits)
    have step: "fill_paths saved (p # ps) m = fill_paths saved ps ?m2" using saved h(1) False by simp
    have val: "tp_value_at ?m1 k = (if k = p then ?v else tp_value_at m k)" for k
      using p by (auto simp: tp_value_at_def in_obj_keys split: option.splits)
    have dis: "disabled_at ?m2 k \<longleftrightarrow> relative k p \<or> disabled_at m k" if "k \<in> set (obj_keys m)" for k
    proof -
      have "disabled_at ?m1 k = disabled_at m k" by (rule disabled_at_modify) simp
      then show ?thesis using that h(2,3) by (auto simp: disabled_at_set_disabled relative_def)
    qed
    have "wf_mapping ?m2" "set ps \<subseteq> set (obj_keys ?m2)" using wf1 Cons.prems by auto
    from Cons.IH [OF this] show ?thesis unfolding step using False by (auto simp: val dis)
  qed
qed

lemma flat_entry_depths:
  assumes "wf_properties ps" "obj_get (flat_entries (flattenProperty b) [] ps) k = Some tp"
  shows "tp_indentation tp = count_list k 46 \<and> \<not> tp_disabled tp \<and> (\<not> b \<longrightarrow> tp_value tp = [])"
proof -
  have "segments k \<noteq> []" "no_dots (segments k)" "path_of (segments k) = k" by simp_all
  then obtain q where "tp = flattenProperty b q (length (segments k) - 1) (hd (segments k))"
    using assms(2) obj_get_flat_entries [OF assms(1), of "[]" "segments k" "flattenProperty b"]
    by (cases "lookup_path ps (segments k)") (auto simp: path_entry_def)
  moreover have "length (segments k) = Suc (count_list k 46)"
    by (induction k) (auto split: list.splits)
  ultimately show ?thesis by (simp add: flattenProperty_def)
qed

lemma wf_flat_entries: "wf_properties ps \<Longrightarrow> wf_mapping (flat_entries (flattenProperty b) [] ps)"
  using flat_entry_depths [of ps b] distinct_flat_entries [of ps "[]" "flattenProperty b"] by (auto simp: wf_mapping_def)

lemma flatten_object_depths:
  assumes "wf_properties ps" "obj_get (flatten_object ps) k = Some tp"
  shows "tp_indentation tp = count_list k 46 \<and> tp_value tp = [] \<and> \<not> tp_disabled tp"
  using flat_entry_depths [of ps False k tp] assms by (simp add: flatten_object_entries)

lemma wf_mapping_flatten: "wf_properties ps \<Longrightarrow> wf_mapping (flatten_object ps)"
  using wf_flat_entries [of ps False] by (simp add: flatten_object_entries)

lemma transformPipelineMapping_spec:
  assumes "wf_properties ps"
  shows "\<exists>m. transformPipelineMapping saved ps = Some m \<and> wf_mapping m \<and> mapping_inv m
    \<and> obj_keys m = obj_keys (flatten_object ps)
    \<and> (\<forall>k \<in> set (obj_keys m). tp_value_at m k = saved_at saved k)"
proof -
  let ?s = "flatten_object ps"
  have wf: "wf_mapping ?s" by (rule wf_mapping_flatten [OF assms])
  have empty: "tp_value_at ?s k = []" "\<not> disabled_at ?s k" for k
    using flatten_object_depths [OF assms, of k] by (auto simp: tp_value_at_def disabled_at_def split: option.splits)
  obtain m where m: "fill_paths saved (obj_keys ?s) ?s = Some m" "wf_mapping m" "obj_keys m = obj_keys ?s"
    "\<And>k. tp_value_at m k = (if k \<in> set (obj_keys ?s) \<and> saved_at saved k \<noteq> [] then saved_at saved k else [])"
    "\<And>k. k \<in> set (obj_keys ?s) \<Longrightarrow> disabled_at m k \<longleftrightarrow> (\<exists>x \<in> set (obj_keys ?s). relative k x \<and> saved_at saved x \<noteq> [])"
    using fill_paths_spec [OF wf, of "obj_keys ?s" saved] by (auto simp: empty)
  have "mapping_inv m" unfolding mapping_inv_iff filled_at_def m(3) using m(4,5) by auto
  with m show ?thesis by (auto simp: transformPipelineMapping_def)
qed

subsection \<open>The editor\<close>

text \<open>
  The mapping starts from a saved one, or from the prefilled values (a new pipeline, a change to
  mappings, another file format); no connector prefills a property that has an ancestor or a
  descendant. Then the user gives a value to a property whose field is enabled, the validation of the
  expressions reports an error on a property, the matching changes, the destination table changes
  (no connector maps a column to an object type), or another part of the pipeline changes. The flag
  tells that no choice of the matching has cleared an expression since the mapping was made.

  The validation of all the expressions when the page opens writes each invalid one back with its error,
  which is a value given to a filled, hence enabled, property. Its answer is taken to arrive before the
  user changes that expression; \<open>late_validation_fills_relatives\<close> shows what a later one does.
\<close>

definition mapping_of_pipeline :: "transformed_pipeline \<Rightarrow> flat_schema" where
  "mapping_of_pipeline p = (case pipeline_mapping p of None \<Rightarrow> [] | Some m \<Rightarrow> m)"

definition prefilled_alone :: "property list \<Rightarrow> bool" where
  "prefilled_alone ps \<longleftrightarrow> (\<forall>m. flattenSchema (Some (ObjectType ps)) True = Some m \<longrightarrow>
     (\<forall>x \<in> set (obj_keys m). \<forall>y \<in> set (obj_keys m). relative x y \<longrightarrow> \<not> filled_at m x))"

definition flat_columns :: "property list \<Rightarrow> bool" where
  "flat_columns ps \<longleftrightarrow> (\<forall>p \<in> set ps. sub_properties p = [])"

inductive editor_step :: "transformed_pipeline \<Rightarrow> transformed_pipeline \<Rightarrow> bool" where
  edit_value: "path \<in> set (obj_keys (mapping_of_pipeline p)) \<Longrightarrow> \<not> disabled_at (mapping_of_pipeline p) path \<Longrightarrow>
    updateMappingProperty p path v e = Some p' \<Longrightarrow> editor_step p p'"
| edit_error: "path \<in> set (obj_keys (mapping_of_pipeline p)) \<Longrightarrow>
    updateMappingPropertyError p path e = Some p' \<Longrightarrow> editor_step p p'"
| edit_other: "pipeline_mapping p' = pipeline_mapping p \<Longrightarrow> editor_step p p'"

inductive editor_reachable :: "mapping \<Rightarrow> property list \<Rightarrow> bool \<Rightarrow> transformed_pipeline \<Rightarrow> bool"
  for saved :: mapping where
  editor_start: "transformPipelineMapping saved ps = Some m \<Longrightarrow> pipeline_mapping p = Some m \<Longrightarrow> editor_reachable saved ps True p"
| editor_prefilled: "prefilled_alone ps \<Longrightarrow> flattenSchema (Some (ObjectType ps)) True = Some m \<Longrightarrow>
    pipeline_mapping p = Some m \<Longrightarrow> editor_reachable saved ps True p"
| editor_next: "editor_reachable saved ps clean p \<Longrightarrow> editor_step p p' \<Longrightarrow> editor_reachable saved ps clean p'"
| editor_matching: "editor_reachable saved ps clean p \<Longrightarrow> onUpdateMatching mappings side v p = Some p' \<Longrightarrow>
    editor_reachable saved ps (clean \<and> pipeline_mapping p' = pipeline_mapping p) p'"
| editor_table: "editor_reachable saved ps clean p \<Longrightarrow> flat_columns columns \<Longrightarrow> onConfirmTable columns p = Some p' \<Longrightarrow>
    editor_reachable saved columns True p'"

definition editor_inv :: "jsstr list \<Rightarrow> bool \<Rightarrow> transformed_pipeline \<Rightarrow> bool" where
  "editor_inv ks clean p \<longleftrightarrow> (\<exists>m. pipeline_mapping p = Some m \<and> obj_keys m = ks \<and> wf_mapping m \<and> mapping_covers m
     \<and> exclusive m \<and> (clean \<longrightarrow> mapping_justified m))"

text \<open>No saved expression is given to both a property and one of its ancestors.\<close>

definition unambiguous :: "mapping \<Rightarrow> bool" where
  "unambiguous saved \<longleftrightarrow> (\<forall>x \<in> set (obj_keys saved). \<forall>y \<in> set (obj_keys saved).
     saved_at saved x \<noteq> [] \<longrightarrow> saved_at saved y \<noteq> [] \<longrightarrow> \<not> relative x y)"

lemma saved_at_key: "saved_at saved k \<noteq> [] \<Longrightarrow> k \<in> set (obj_keys saved)"
  by (auto simp: saved_at_def in_obj_keys split: option.splits)

lemma with_mapping_Some:
  assumes "pipeline_mapping p = Some m" "f m = Some m'"
  shows "\<exists>p'. with_mapping p f = Some p' \<and> pipeline_mapping p' = Some m'"
proof -
  obtain t where "pi_transformation p = Some t" "tt_mapping t = Some m"
    using assms(1) by (cases "pi_transformation p") (auto simp: pipeline_mapping_def)
  with assms(2) show ?thesis by (simp add: with_mapping_def pipeline_mapping_def)
qed

lemma with_mapping_SomeD:
  "pipeline_mapping p = Some m \<Longrightarrow> with_mapping p f = Some p' \<Longrightarrow> pipeline_mapping p' = f m"
  by (auto simp: with_mapping_def pipeline_mapping_def split: option.splits)

text \<open>The invariants depend on the entries that are filled and disabled only.\<close>

lemma mapping_inv_same:
  assumes "obj_keys m' = obj_keys m" "\<And>x. disabled_at m' x = disabled_at m x" "\<And>x. filled_at m' x = filled_at m x"
  shows "mapping_covers m' = mapping_covers m" "exclusive m' = exclusive m" "mapping_justified m' = mapping_justified m"
  unfolding mapping_covers_def exclusive_iff mapping_justified_def assms by simp_all

lemma editor_step_inv:
  assumes "editor_step p p'" "editor_inv ks clean p"
  shows "editor_inv ks clean p'"
proof -
  obtain m where m: "pipeline_mapping p = Some m" "obj_keys m = ks" "wf_mapping m" "mapping_covers m" "exclusive m"
    "clean \<longrightarrow> mapping_justified m"
    using assms(2) by (auto simp: editor_inv_def)
  from assms(1) show ?thesis
  proof cases
    case (edit_value path v e)
    then have "path \<in> set (obj_keys m)" "\<not> disabled_at m path" by (simp_all add: mapping_of_pipeline_def m(1))
    from update_mapping_inv [OF m(3,4,5) this] obtain m' where
      "update_mapping m path v e = Some m'" "obj_keys m' = ks" "wf_mapping m'" "mapping_covers m'" "exclusive m'"
      "mapping_justified m \<longrightarrow> mapping_justified m'"
      using m(2) by blast
    with with_mapping_SomeD [OF m(1) edit_value(3) [unfolded updateMappingProperty_def]] m(6) show ?thesis
      by (auto simp: editor_inv_def)
  next
    case (edit_error path e)
    let ?m = "obj_modify m path (\<lambda>tp. tp\<lparr>tp_error := e\<rparr>)"
    have "obj_get m path \<noteq> None" using edit_error(1) by (simp add: mapping_of_pipeline_def m(1) in_obj_keys)
    with with_mapping_SomeD [OF m(1) edit_error(2) [unfolded updateMappingPropertyError_def]]
    have p': "pipeline_mapping p' = Some ?m" by auto
    have d: "disabled_at ?m x = disabled_at m x" for x by (rule disabled_at_modify) simp
    have f: "filled_at ?m x = filled_at m x" for x
      by (auto simp: filled_at_def tp_value_at_def split: option.splits)
    have "wf_mapping ?m" using m(3) by (simp add: wf_mapping_modify)
    with mapping_inv_same [of ?m m] d f p' m show ?thesis by (auto simp: editor_inv_def)
  next
    case edit_other
    with assms(2) show ?thesis by (simp add: editor_inv_def)
  qed
qed

text \<open>Clearing a value and nothing else keeps the first and the last invariant, not the second.\<close>

lemma clear_value_inv:
  assumes "wf_mapping m" "mapping_covers m" "exclusive m"
  shows "wf_mapping (clear_value m v) \<and> mapping_covers (clear_value m v) \<and> exclusive (clear_value m v)
    \<and> obj_keys (clear_value m v) = obj_keys m"
proof -
  let ?m = "clear_value m v"
  have keys: "obj_keys ?m = obj_keys m" by (simp add: clear_value_def)
  have d: "disabled_at ?m x = disabled_at m x" for x unfolding clear_value_def by (rule disabled_at_modify) simp
  have f: "filled_at ?m x \<Longrightarrow> filled_at m x" for x
    by (auto simp: clear_value_def filled_at_def tp_value_at_def split: option.splits if_splits)
  have "wf_mapping ?m" using assms(1) by (simp add: clear_value_def wf_mapping_modify)
  moreover have "mapping_covers ?m" using assms(2) f unfolding mapping_covers_def keys d by blast
  moreover have "exclusive ?m" using assms(3) f unfolding exclusive_iff keys d by blast
  ultimately show ?thesis by (simp add: keys)
qed

lemma onUpdateMatching_mapping:
  assumes "onUpdateMatching mappings side v p = Some p'" "pipeline_mapping p = Some m"
  shows "pipeline_mapping p' = Some m \<or> pipeline_mapping p' = Some (clear_value m v)"
proof -
  have other: "pipeline_mapping (p\<lparr>pi_matching := x\<rparr>) = pipeline_mapping p" for x by (simp add: pipeline_mapping_def)
  from assms show ?thesis
    by (auto simp: onUpdateMatching_def Let_def other dest: with_mapping_SomeD [rotated] split: option.splits if_splits)
qed

lemma no_relatives_inv:
  assumes "\<And>x y. x \<in> set (obj_keys m) \<Longrightarrow> y \<in> set (obj_keys m) \<Longrightarrow> relative x y \<Longrightarrow> \<not> filled_at m x"
    and "\<And>k. \<not> disabled_at m k"
  shows "mapping_covers m" "exclusive m" "mapping_justified m"
  using assms relative_sym unfolding mapping_covers_def exclusive_iff mapping_justified_def by blast+

lemma flat_columns_relatives:
  assumes "flat_columns ps" "wf_properties ps" "x \<in> set (obj_keys (flatten_object ps))" "y \<in> set (obj_keys (flatten_object ps))"
  shows "\<not> relative x y"
proof -
  have "obj_keys (flat_entries entry [] ps) = map p_name ps" for entry :: "property \<Rightarrow> nat \<Rightarrow> jsstr \<Rightarrow> transformed_property"
    using assms(1) by (induction ps) (auto simp: flat_columns_def)
  then have "x \<in> p_name ` set ps" "y \<in> p_name ` set ps" using assms(3,4) by (auto simp: flatten_object_entries [OF assms(2)])
  moreover have "46 \<notin> set (p_name p)" if "p \<in> set ps" for p using assms(2) that by (induction ps) auto
  ultimately have "46 \<notin> set x" "46 \<notin> set y" by blast+
  then show ?thesis by (auto simp: relative_def above_iff)
qed

lemma obj_keys_keep_old [simp]: "obj_keys (keep_old old m) = obj_keys m"
  by (induction m) (auto simp: keep_old_def obj_keys_def)

lemma obj_get_keep_old:
  "obj_get (keep_old old m) k = map_option (\<lambda>tp. case obj_get old k of None \<Rightarrow> tp | Some o1 \<Rightarrow>
     if propertyTypesAreEqual (p_type (tp_full tp)) (p_type (tp_full o1))
     then tp\<lparr>tp_value := tp_value o1, tp_error := tp_error o1\<rparr> else tp) (obj_get m k)"
  by (induction m) (auto simp: keep_old_def obj_get_def split: option.splits)

lemma disabled_at_keep_old [simp]: "disabled_at (keep_old old m) k = disabled_at m k"
  by (auto simp: disabled_at_def obj_get_keep_old split: option.splits)

lemma wf_mapping_keep_old [simp]: "wf_mapping m \<Longrightarrow> wf_mapping (keep_old old m)"
  by (auto simp: wf_mapping_def obj_get_keep_old split: option.splits if_splits)

lemma prefilled_mapping:
  assumes "wf_properties ps" "flattenSchema (Some (ObjectType ps)) True = Some m"
  shows "wf_mapping m" "obj_keys m = obj_keys (flatten_object ps)" "\<not> disabled_at m k"
proof -
  have m: "m = flat_entries (flattenProperty True) [] ps" using assms flattenSchema_entries by simp
  show "wf_mapping m" unfolding m by (rule wf_flat_entries [OF assms(1)])
  show "obj_keys m = obj_keys (flatten_object ps)" by (simp add: m flatten_object_entries [OF assms(1)] keys_flat_entries)
  show "\<not> disabled_at m k" using flat_entry_depths [OF assms(1)] by (auto simp: m disabled_at_def split: option.splits)
qed

lemma editor_reachable_inv:
  assumes "editor_reachable saved ps clean p" "wf_properties ps" "unambiguous saved"
  shows "editor_inv (obj_keys (flatten_object ps)) clean p"
  using assms
proof (induction rule: editor_reachable.induct)
  case (editor_start ps m p)
  from transformPipelineMapping_spec [OF \<open>wf_properties ps\<close>, of saved] editor_start(1)
  have m: "wf_mapping m" "mapping_inv m" "obj_keys m = obj_keys (flatten_object ps)"
    "\<And>k. k \<in> set (obj_keys m) \<Longrightarrow> tp_value_at m k = saved_at saved k" by auto
  have "\<not> disabled_at m k" if k: "k \<in> set (obj_keys m)" "filled_at m k" for k
  proof
    assume "disabled_at m k"
    then obtain x where "x \<in> set (obj_keys m)" "relative k x" "filled_at m x"
      using m(2) k(1) by (auto simp: mapping_inv_iff)
    then show False
      using k editor_start(4) m(4) saved_at_key unfolding unambiguous_def filled_at_def by metis
  qed
  with m editor_start(2) show ?case by (auto simp: editor_inv_def exclusive_iff mapping_inv_parts)
next
  case (editor_prefilled ps m p)
  note m = prefilled_mapping [OF editor_prefilled(4,2)]
  have "\<not> filled_at m x" if "x \<in> set (obj_keys m)" "y \<in> set (obj_keys m)" "relative x y" for x y
    using editor_prefilled(1,2) that by (auto simp: prefilled_alone_def)
  from no_relatives_inv [OF this m(3)] m editor_prefilled(3) show ?case by (auto simp: editor_inv_def)
next
  case (editor_next ps clean p p')
  then show ?case using editor_step_inv by blast
next
  case (editor_matching ps clean p mappings side v p')
  then obtain m where m: "pipeline_mapping p = Some m" "obj_keys m = obj_keys (flatten_object ps)" "wf_mapping m"
    "mapping_covers m" "exclusive m" "clean \<longrightarrow> mapping_justified m" by (auto simp: editor_inv_def)
  from onUpdateMatching_mapping [OF editor_matching(2) m(1)] clear_value_inv [OF m(3-5), of v] m
  show ?case by (auto simp: editor_inv_def)
next
  case (editor_table ps clean p columns p')
  then obtain m where t: "flattenSchema (Some (ObjectType columns)) True = Some m"
    "pipeline_mapping p' = Some m \<or> (\<exists>old. pipeline_mapping p' = Some (keep_old old m))"
    by (force simp: onConfirmTable_def pipeline_mapping_def split: option.splits)
  note m = prefilled_mapping [OF editor_table(5) t(1)]
  obtain m' where m': "pipeline_mapping p' = Some m'" "wf_mapping m'" "obj_keys m' = obj_keys (flatten_object columns)" "\<And>k. \<not> disabled_at m' k"
    using t(2) m by auto
  from no_relatives_inv [of m'] m' flat_columns_relatives [OF editor_table(2,5)] show ?case by (auto simp: editor_inv_def)
qed

text \<open>A change to mappings is a reset to a state of the editor.\<close>

lemma change_to_mappings_reachable:
  assumes "change_to_mappings (Some ps) p = Some p'" "prefilled_alone ps"
  shows "editor_reachable saved ps True p'"
proof -
  obtain m where "flattenSchema (Some (ObjectType ps)) True = Some m" by (simp add: flattenSchema_def isRecursiveType_def)
  moreover from assms(1) this have "pipeline_mapping p' = Some m"
    by (auto simp: change_to_mappings_def pipeline_mapping_def)
  ultimately show ?thesis using assms(2) by (intro editor_prefilled)
qed

subsection \<open>The properties\<close>

text \<open>
  \<open>transformPipelineMapping\<close> gives every property of the output schema the saved expression, and
  the empty one to the others, and disables exactly the properties that have a relative with an
  expression.
\<close>

theorem transformPipelineMapping_correct:
  assumes "wf_properties ps"
  shows "\<exists>m. transformPipelineMapping saved ps = Some m \<and> obj_keys m = obj_keys (flatten_object ps) \<and>
    (\<forall>k \<in> set (obj_keys m). tp_value_at m k = saved_at saved k \<and>
       (disabled_at m k \<longleftrightarrow> (\<exists>x \<in> set (obj_keys m). relative k x \<and> filled_at m x)))"
  using transformPipelineMapping_spec [OF assms, of saved] by (auto simp: mapping_inv_iff)

theorem transformPipelineMapping_correct_witness:
  "\<exists>m. transformPipelineMapping [(js ''address.street'', js ''s'')] example_schema = Some m \<and>
     obj_keys m = obj_keys (flatten_object example_schema) \<and>
     (\<forall>k \<in> set (obj_keys m). tp_value_at m k = saved_at [(js ''address.street'', js ''s'')] k \<and>
       (disabled_at m k \<longleftrightarrow> (\<exists>x \<in> set (obj_keys m). relative k x \<and> filled_at m x)))"
  by (rule transformPipelineMapping_correct [OF example_schema_wf])

text \<open>
  C13: in every state the mapping editor reaches, from a saved mapping that gives no expression to both
  a property and its ancestor or from values prefilled on properties without relatives, by edits of
  enabled properties, reported errors, changes of the matching and of the destination table (to one
  without columns of an object type), the entries are those of the current output schema, every
  ancestor and descendant of a property with an expression is disabled, and the property itself is
  not, so two relatives never both have an expression. Unless a change of the matching has cleared an
  expression, the disabled properties are exactly those relatives.
\<close>

theorem mapping_editor_invariant:
  assumes "wf_properties ps" "unambiguous saved" "editor_reachable saved ps clean p"
  shows "\<exists>m. pipeline_mapping p = Some m \<and> obj_keys m = obj_keys (flatten_object ps) \<and>
    (\<forall>k \<in> set (obj_keys m).
       (filled_at m k \<longrightarrow> \<not> disabled_at m k) \<and>
       ((\<exists>x \<in> set (obj_keys m). relative k x \<and> filled_at m x) \<longrightarrow> disabled_at m k) \<and>
       (clean \<longrightarrow> disabled_at m k \<longrightarrow> (\<exists>x \<in> set (obj_keys m). relative k x \<and> filled_at m x)))"
  using editor_reachable_inv [OF assms(3,1,2)]
  by (auto simp: editor_inv_def mapping_covers_def mapping_justified_def exclusive_iff)

lemma required_schema_wf: "wf_properties required_schema"
  by (simp add: required_schema_def sub_properties_def js_Cons)

definition example_saved :: mapping where
  "example_saved = [(js ''a.c'', js ''x'')]"

lemma example_saved_unambiguous: "unambiguous example_saved"
  by (simp add: unambiguous_def example_saved_def)

definition example_editor :: transformed_pipeline where
  "example_editor = (example_pipeline (transformPipelineMapping example_saved required_schema) None)
     \<lparr>pi_matching := Some \<lparr>m_in = js ''x'', m_out = []\<rparr>\<rparr>"

lemma example_editor_reachable: "editor_reachable example_saved required_schema True example_editor"
proof -
  obtain m where "transformPipelineMapping example_saved required_schema = Some m"
    using transformPipelineMapping_spec [OF required_schema_wf] by blast
  then show ?thesis
    by (intro editor_start) (auto simp: pipeline_mapping_def example_pipeline_def example_editor_def)
qed

theorem mapping_editor_invariant_witness:
  "\<exists>m. pipeline_mapping example_editor = Some m \<and> obj_keys m = obj_keys (flatten_object required_schema) \<and>
    (\<forall>k \<in> set (obj_keys m).
       (filled_at m k \<longrightarrow> \<not> disabled_at m k) \<and>
       ((\<exists>x \<in> set (obj_keys m). relative k x \<and> filled_at m x) \<longrightarrow> disabled_at m k) \<and>
       (True \<longrightarrow> disabled_at m k \<longrightarrow> (\<exists>x \<in> set (obj_keys m). relative k x \<and> filled_at m x)))"
  by (rule mapping_editor_invariant [OF required_schema_wf example_saved_unambiguous example_editor_reachable])

text \<open>
  The flag is needed: \<open>a.c\<close> is mapped to \<open>x\<close>, the matching on the input is \<open>x\<close>, and the user chooses
  \<open>a.c\<close> as the matching on the output. Its expression is cleared, nothing has an expression any more,
  and the ancestor \<open>a\<close> stays disabled.
\<close>

lemma cleared_matching_leaves_ancestor_disabled:
  "\<exists>p'. onUpdateMatching True MatchOut (js ''a.c'') example_editor = Some p' \<and>
     editor_reachable example_saved required_schema False p' \<and>
     (\<forall>k \<in> set (obj_keys (mapping_of_pipeline p')). \<not> filled_at (mapping_of_pipeline p') k) \<and>
     disabled_at (mapping_of_pipeline p') (js ''a'')"
proof -
  have ok: "onUpdateMatching True MatchOut (js ''a.c'') example_editor \<noteq> None" by code_simp
  then obtain p' where p': "onUpdateMatching True MatchOut (js ''a.c'') example_editor = Some p'" by blast
  have "pipeline_mapping (the (onUpdateMatching True MatchOut (js ''a.c'') example_editor)) \<noteq> pipeline_mapping example_editor" by code_simp
  then have "pipeline_mapping p' \<noteq> pipeline_mapping example_editor" by (simp add: p')
  with editor_matching [OF example_editor_reachable p'] have reach: "editor_reachable example_saved required_schema False p'" by simp
  have "list_all (\<lambda>k. \<not> filled_at (mapping_of_pipeline (the (onUpdateMatching True MatchOut (js ''a.c'') example_editor))) k)
      (obj_keys (mapping_of_pipeline (the (onUpdateMatching True MatchOut (js ''a.c'') example_editor))))" by code_simp
  then have empty: "\<forall>k \<in> set (obj_keys (mapping_of_pipeline p')). \<not> filled_at (mapping_of_pipeline p') k"
    by (simp add: p' list_all_iff)
  have "disabled_at (mapping_of_pipeline (the (onUpdateMatching True MatchOut (js ''a.c'') example_editor))) (js ''a'')" by code_simp
  with p' reach empty show ?thesis by simp
qed

text \<open>
  A late answer of the validation: the page asks for \<open>a.c\<close>, mapped to \<open>x\<close>, the user clears it and maps
  the ancestor \<open>a\<close>, then the answer writes \<open>x\<close> back. A property and its ancestor have an expression.
\<close>

lemma late_validation_fills_relatives:
  "case Option.bind (updateMappingProperty example_editor (js ''a.c'') [] [])
       (\<lambda>p. Option.bind (updateMappingProperty p (js ''a'') (js ''y'') [])
          (\<lambda>p. updateMappingProperty p (js ''a.c'') (js ''x'') (js ''invalid''))) of
     None \<Rightarrow> False
   | Some p \<Rightarrow> filled_at (mapping_of_pipeline p) (js ''a'') \<and> filled_at (mapping_of_pipeline p) (js ''a.c'')"
  by code_simp

text \<open>
  in those states giving a value to an enabled property never fails: it changes the expression
  of that property and of no other, and leads to a state of the editor.
\<close>

theorem updateMappingProperty_changes_one_value:
  assumes "wf_properties ps" "unambiguous saved" "editor_reachable saved ps clean p"
    and "path \<in> set (obj_keys (mapping_of_pipeline p))" "\<not> disabled_at (mapping_of_pipeline p) path"
  shows "\<exists>p'. updateMappingProperty p path v e = Some p' \<and> editor_reachable saved ps clean p' \<and>
    (\<forall>x. tp_value_at (mapping_of_pipeline p') x = (if x = path then v else tp_value_at (mapping_of_pipeline p) x))"
proof -
  obtain m where m: "pipeline_mapping p = Some m" "wf_mapping m" "mapping_covers m" "exclusive m"
    using editor_reachable_inv [OF assms(3,1,2)] by (auto simp: editor_inv_def)
  then have "path \<in> set (obj_keys m)" "\<not> disabled_at m path" using assms(4,5) by (simp_all add: mapping_of_pipeline_def)
  from update_mapping_inv [OF m(2-4) this, of v e] obtain m' where m': "update_mapping m path v e = Some m'"
    "\<forall>x. tp_value_at m' x = (if x = path then v else tp_value_at m x)" by blast
  from with_mapping_Some [of p m "\<lambda>m. update_mapping m path v e", OF m(1) m'(1)] obtain p' where
    "updateMappingProperty p path v e = Some p'" "pipeline_mapping p' = Some m'"
    by (auto simp: updateMappingProperty_def)
  with m(1) m'(2) editor_next [OF assms(3) edit_value [OF assms(4,5)]] show ?thesis
    by (auto simp: mapping_of_pipeline_def)
qed

lemma example_mapping_enabled:
  "js ''a.c'' \<in> set (obj_keys (mapping_of_pipeline example_editor))" "\<not> disabled_at (mapping_of_pipeline example_editor) (js ''a.c'')"
  by code_simp+

theorem updateMappingProperty_changes_one_value_witness:
  "\<exists>p'. updateMappingProperty example_editor (js ''a.c'') [] [] = Some p' \<and>
     editor_reachable example_saved required_schema True p' \<and>
     (\<forall>x. tp_value_at (mapping_of_pipeline p') x = (if x = js ''a.c'' then [] else tp_value_at (mapping_of_pipeline example_editor) x))"
  by (rule updateMappingProperty_changes_one_value [OF required_schema_wf example_saved_unambiguous
      example_editor_reachable example_mapping_enabled])

end
