(* ===== verification/Consents.thy ===== *)
theory Consents
  imports Required_Paths
begin

section \<open>The consents a pipeline requires (lib/core/pipeline.ts)\<close>

text \<open>
  Which consent location of a purpose a pipeline needs, which profile properties hold the consents
  of an import, and the check that a pipeline can be saved with its required consents. The map of
  \<open>getConsentPropertyPaths\<close> is an ordered store of the prelude.
\<close>

datatype consent_location = EventLocation | ProfileLocation

definition getMissingConsentLocation ::
  "consent_purpose \<Rightarrow> transformed_pipeline_type \<Rightarrow> transformed_connection \<Rightarrow> consent_location option" where
  "getMissingConsentLocation purpose pipelineType c =
     (if hasEventConsentStep c (tpt_target pipelineType)
      then (if cp_eventConsentLocations purpose = [] then Some EventLocation else None)
      else (if cp_profileConsentLocation purpose = None then Some ProfileLocation else None))"

text \<open>One turn of the loop of \<open>getConsentPropertyPaths\<close>; \<open>purposes.find\<close> takes the first of an id.\<close>

definition find_purpose :: "consent_purpose list \<Rightarrow> jsstr \<Rightarrow> consent_purpose option" where
  "find_purpose purposes i = List.find (\<lambda>p. cp_id p = i) purposes"

definition add_consent_path ::
  "transformed_pipeline_type \<Rightarrow> transformed_connection \<Rightarrow> consent_purpose list \<Rightarrow>
   (jsstr, consent_purpose list) omap \<Rightarrow> jsstr \<Rightarrow> (jsstr, consent_purpose list) omap" where
  "add_consent_path pipelineType c purposes paths i =
     (case find_purpose purposes i of
        None \<Rightarrow> paths
      | Some purpose \<Rightarrow>
          if getMissingConsentLocation purpose pipelineType c \<noteq> None then paths
          else (case cp_profileConsentLocation purpose of
                  None \<Rightarrow> paths
                | Some loc \<Rightarrow>
                    let path = pcl_property loc
                    in obj_set paths path ((case obj_get paths path of None \<Rightarrow> [] | Some ps \<Rightarrow> ps) @ [purpose])))"

definition getConsentPropertyPaths ::
  "transformed_pipeline \<Rightarrow> transformed_pipeline_type \<Rightarrow> transformed_connection \<Rightarrow> consent_purpose list \<Rightarrow>
   (jsstr, consent_purpose list) omap" where
  "getConsentPropertyPaths pipeline pipelineType c purposes =
     (case pi_requiredConsents pipeline of
        None \<Rightarrow> []
      | Some rc \<Rightarrow>
          if \<not> hasImportProfileConsentStep c (tpt_target pipelineType) then []
          else foldl (add_consent_path pipelineType c purposes) [] (rc_purposes rc))"

definition pipeline_function :: "transformed_pipeline \<Rightarrow> transformation_function option" where
  "pipeline_function pipeline = Option.bind (pi_transformation pipeline) tt_function"

text \<open>\<open>None\<close> is the \<open>TypeError\<close> of \<open>checkFunctionPath\<close> without an output schema.\<close>

definition isOutputPathTransformed ::
  "jsstr \<Rightarrow> transformed_pipeline \<Rightarrow> transformed_pipeline_type \<Rightarrow> jsstr list \<Rightarrow> bool option" where
  "isOutputPathTransformed path pipeline pipelineType selectedOutPaths =
     (if pipeline_mapping pipeline \<noteq> None then Some (ti_isSelected (checkMapping path pipeline pipelineType))
      else if pipeline_function pipeline \<noteq> None
      then map_option ti_isSelected (checkFunctionPath path pipeline pipelineType OutputRole selectedOutPaths)
      else Some False)"

datatype required_consents_error =
    PurposeGone jsstr
  | NoConsentLocation jsstr consent_location
  | ConsentNotSelected jsstr "jsstr list"
  | ConsentNotMapped jsstr "jsstr list"
  | ConsentTypeError

definition check_purpose ::
  "transformed_pipeline_type \<Rightarrow> transformed_connection \<Rightarrow> consent_purpose list \<Rightarrow> jsstr \<Rightarrow> required_consents_error + unit" where
  "check_purpose pipelineType c purposes i =
     (case find_purpose purposes i of
        None \<Rightarrow> Inl (PurposeGone i)
      | Some purpose \<Rightarrow>
          (case getMissingConsentLocation purpose pipelineType c of
             Some location \<Rightarrow> Inl (NoConsentLocation (cp_name purpose) location)
           | None \<Rightarrow> Inr ()))"

definition check_consent_path ::
  "transformed_pipeline \<Rightarrow> transformed_pipeline_type \<Rightarrow> jsstr list \<Rightarrow> jsstr \<times> consent_purpose list \<Rightarrow>
   required_consents_error + unit" where
  "check_consent_path pipeline pipelineType selectedOutPaths e =
     (case e of (path, pathPurposes) \<Rightarrow>
        (case isOutputPathTransformed path pipeline pipelineType selectedOutPaths of
           None \<Rightarrow> Inl ConsentTypeError
         | Some True \<Rightarrow> Inr ()
         | Some False \<Rightarrow>
             (let names = map cp_name pathPurposes in
              if pipeline_function pipeline \<noteq> None then Inl (ConsentNotSelected path names)
              else Inl (ConsentNotMapped path names))))"

definition validateRequiredConsents ::
  "transformed_pipeline \<Rightarrow> transformed_pipeline_type \<Rightarrow> transformed_connection \<Rightarrow> consent_purpose list \<Rightarrow>
   jsstr list \<Rightarrow> required_consents_error + unit" where
  "validateRequiredConsents pipeline pipelineType c purposes selectedOutPaths =
     (case pi_requiredConsents pipeline of
        None \<Rightarrow> Inr ()
      | Some rc \<Rightarrow>
          res_bind (traverse (check_purpose pipelineType c purposes) (rc_purposes rc)) (\<lambda>_.
          res_bind (traverse (check_consent_path pipeline pipelineType selectedOutPaths)
                     (getConsentPropertyPaths pipeline pipelineType c purposes)) (\<lambda>_. Inr ())))"

subsection \<open>The paths that hold consents\<close>

text \<open>The path that holds the consent of a purpose, when the import has to read it.\<close>

definition consent_path_of ::
  "transformed_pipeline_type \<Rightarrow> transformed_connection \<Rightarrow> consent_purpose list \<Rightarrow> jsstr \<Rightarrow> (jsstr \<times> consent_purpose) option" where
  "consent_path_of pipelineType c purposes i =
     (case find_purpose purposes i of
        None \<Rightarrow> None
      | Some purpose \<Rightarrow>
          if getMissingConsentLocation purpose pipelineType c \<noteq> None then None
          else map_option (\<lambda>loc. (pcl_property loc, purpose)) (cp_profileConsentLocation purpose))"

lemma add_consent_path_alt:
  "add_consent_path pipelineType c purposes paths i =
     (case consent_path_of pipelineType c purposes i of
        None \<Rightarrow> paths
      | Some (path, purpose) \<Rightarrow>
          obj_set paths path ((case obj_get paths path of None \<Rightarrow> [] | Some ps \<Rightarrow> ps) @ [purpose]))"
  by (auto simp: add_consent_path_def consent_path_of_def Let_def split: option.splits)

lemma consent_paths_fold:
  "obj_get (foldl (add_consent_path pipelineType c purposes) paths ids) path =
     (let found = [purpose. Some (p, purpose) \<leftarrow> map (consent_path_of pipelineType c purposes) ids, p = path]
      in case obj_get paths path of
           None \<Rightarrow> if found = [] then None else Some found
         | Some ps \<Rightarrow> Some (ps @ found))"
proof (induction ids arbitrary: paths)
  case Nil
  then show ?case by (simp split: option.splits)
next
  case (Cons i ids)
  show ?case
  proof (cases "consent_path_of pipelineType c purposes i")
    case None
    then show ?thesis using Cons [of paths] by (simp add: add_consent_path_alt)
  next
    case (Some e)
    obtain p purpose where e: "e = (p, purpose)" by (cases e)
    show ?thesis
      unfolding foldl.simps Cons
      by (simp add: add_consent_path_alt Some e Let_def split: option.splits)
  qed
qed

lemma distinct_consent_paths:
  "distinct (obj_keys paths) \<Longrightarrow> distinct (obj_keys (foldl (add_consent_path pipelineType c purposes) paths ids))"
  by (induction ids arbitrary: paths)
    (auto simp: add_consent_path_alt objs.distinct_keys_put split: option.splits)

lemma consent_paths_keys:
  "path \<in> set (obj_keys (foldl (add_consent_path pipelineType c purposes) [] ids)) \<longleftrightarrow>
     (\<exists>i \<in> set ids. \<exists>purpose. consent_path_of pipelineType c purposes i = Some (path, purpose))"
proof -
  have "[purpose. Some (p, purpose) \<leftarrow> map (consent_path_of pipelineType c purposes) ids, p = path] = [] \<longleftrightarrow>
      \<not> (\<exists>i \<in> set ids. \<exists>purpose. consent_path_of pipelineType c purposes i = Some (path, purpose))"
    by (induction ids) (auto split: option.splits)
  then show ?thesis by (auto simp: in_obj_keys consent_paths_fold Let_def)
qed

subsection \<open>The check\<close>

lemma traverse_unit_ok: "is_ok (traverse f xs) \<longleftrightarrow> (\<forall>x \<in> set xs. is_ok (f x))"
proof (induction xs)
  case (Cons x xs)
  then show ?case by (cases "f x"; cases "traverse f xs") auto
qed simp

lemma check_consent_path_ok:
  "is_ok (check_consent_path pipeline pipelineType selected (path, ps)) \<longleftrightarrow>
     isOutputPathTransformed path pipeline pipelineType selected = Some True"
  by (auto simp: check_consent_path_def Let_def split: option.splits bool.splits)

lemma check_purpose_ok:
  "is_ok (check_purpose pipelineType c purposes i) \<longleftrightarrow>
     (\<exists>purpose. find_purpose purposes i = Some purpose \<and> getMissingConsentLocation purpose pipelineType c = None)"
  by (auto simp: check_purpose_def split: option.splits)

lemma import_needs_profile:
  "hasImportProfileConsentStep c target \<Longrightarrow> \<not> hasEventConsentStep c target"
  by (cases target) (auto simp: step_defs)

lemma validateRequiredConsents_iff:
  "is_ok (validateRequiredConsents pipeline pipelineType c purposes selected) \<longleftrightarrow>
     (\<forall>rc. pi_requiredConsents pipeline = Some rc \<longrightarrow>
       (\<forall>i \<in> set (rc_purposes rc). \<exists>purpose.
          find_purpose purposes i = Some purpose \<and> getMissingConsentLocation purpose pipelineType c = None \<and>
          (hasImportProfileConsentStep c (tpt_target pipelineType) \<longrightarrow>
             (\<exists>loc. cp_profileConsentLocation purpose = Some loc \<and>
                isOutputPathTransformed (pcl_property loc) pipeline pipelineType selected = Some True))))"
proof (cases "pi_requiredConsents pipeline")
  case None
  then show ?thesis by (simp add: validateRequiredConsents_def)
next
  case (Some rc)
  let ?import = "hasImportProfileConsentStep c (tpt_target pipelineType)"
  let ?ok = "\<lambda>path. isOutputPathTransformed path pipeline pipelineType selected = Some True"
  let ?paths = "getConsentPropertyPaths pipeline pipelineType c purposes"
  have bind: "is_ok (res_bind r (\<lambda>_. res_bind s (\<lambda>_. Inr ()))) \<longleftrightarrow> is_ok r \<and> is_ok s"
    for r :: "required_consents_error + unit list" and s :: "required_consents_error + unit list"
    by (cases r; cases s) simp_all
  have paths: "(\<forall>e \<in> set ?paths. is_ok (check_consent_path pipeline pipelineType selected e)) \<longleftrightarrow>
      (?import \<longrightarrow> (\<forall>i \<in> set (rc_purposes rc). \<forall>path purpose.
         consent_path_of pipelineType c purposes i = Some (path, purpose) \<longrightarrow> ?ok path))"
  proof (cases ?import)
    case True
    have "(\<forall>e \<in> set ?paths. is_ok (check_consent_path pipeline pipelineType selected e)) \<longleftrightarrow> (\<forall>path \<in> set (obj_keys ?paths). ?ok path)"
      by (auto simp: obj_keys_def check_consent_path_ok)
    also have "\<dots> \<longleftrightarrow> (\<forall>i \<in> set (rc_purposes rc). \<forall>path purpose.
         consent_path_of pipelineType c purposes i = Some (path, purpose) \<longrightarrow> ?ok path)"
      using True Some by (auto simp: getConsentPropertyPaths_def consent_paths_keys)
    finally show ?thesis using True by simp
  qed (simp add: getConsentPropertyPaths_def Some)
  have one: "(\<forall>path purpose. consent_path_of pipelineType c purposes i = Some (path, purpose) \<longrightarrow> ?ok path) \<longleftrightarrow>
      (\<exists>loc. cp_profileConsentLocation purpose = Some loc \<and> ?ok (pcl_property loc))"
    if "find_purpose purposes i = Some purpose" "getMissingConsentLocation purpose pipelineType c = None" ?import for i purpose
    using that import_needs_profile [OF that(3)]
    by (cases "cp_profileConsentLocation purpose") (auto simp: consent_path_of_def getMissingConsentLocation_def)
  show ?thesis
    unfolding validateRequiredConsents_def Some option.case bind traverse_unit_ok check_purpose_ok paths option.inject
    using one by (cases ?import) (auto, metis+)
qed

text \<open>
  C33: a pipeline can be saved with its required consents exactly when each of their purposes exists and
  has the consent location the pipeline reads, and, when the pipeline imports profiles, the
  transformation returns the profile property that holds the consent.
\<close>

theorem validateRequiredConsents_accepts:
  "validateRequiredConsents pipeline pipelineType c purposes selected = Inr () \<longleftrightarrow>
     (\<forall>rc. pi_requiredConsents pipeline = Some rc \<longrightarrow>
       (\<forall>i \<in> set (rc_purposes rc). \<exists>purpose.
          find_purpose purposes i = Some purpose \<and> getMissingConsentLocation purpose pipelineType c = None \<and>
          (hasImportProfileConsentStep c (tpt_target pipelineType) \<longrightarrow>
             (\<exists>loc. cp_profileConsentLocation purpose = Some loc \<and>
                isOutputPathTransformed (pcl_property loc) pipeline pipelineType selected = Some True))))"
proof -
  have "r = Inr () \<longleftrightarrow> is_ok r" for r :: "required_consents_error + unit" by (cases r) auto
  then show ?thesis by (simp only: validateRequiredConsents_iff)
qed

definition example_consent_pipeline :: transformed_pipeline where
  "example_consent_pipeline = (example_pipeline (Some (required_mapping (js ''x''))) None)
     \<lparr>pi_requiredConsents := Some \<lparr>rc_operator = And, rc_purposes = [js ''m'', js ''m'']\<rparr>\<rparr>"

definition example_purpose :: consent_purpose where
  "example_purpose = \<lparr>cp_id = js ''m'', cp_name = js ''Marketing'', cp_eventConsentLocations = [],
     cp_profileConsentLocation = Some \<lparr>pcl_property = js ''a.c'', pcl_jsonKey = None\<rparr>\<rparr>"

abbreviation example_import :: transformed_connection where
  "example_import \<equiv> example_connection ''d'' CDatabase Source [] []"

theorem validateRequiredConsents_accepts_witness:
  "isOutputPathTransformed (js ''a.c'') example_consent_pipeline (example_pipeline_type required_schema) [] = Some True"
proof -
  have "validateRequiredConsents example_consent_pipeline (example_pipeline_type required_schema) example_import [example_purpose] [] = Inr ()"
    by code_simp
  moreover have "pi_requiredConsents example_consent_pipeline = Some \<lparr>rc_operator = And, rc_purposes = [js ''m'', js ''m'']\<rparr>"
    by (simp add: example_consent_pipeline_def)
  moreover have "hasImportProfileConsentStep example_import (tpt_target (example_pipeline_type required_schema))"
    by code_simp
  ultimately show ?thesis
    using validateRequiredConsents_accepts [of example_consent_pipeline "example_pipeline_type required_schema" example_import "[example_purpose]" "[]"]
    by (simp add: find_purpose_def example_purpose_def)
qed

text \<open>
  For a profile import \<open>getConsentPropertyPaths\<close> has one entry for each property that holds a
  required consent, with the purposes it holds the consents of in the order they are required; for the
  other pipelines it is empty.
\<close>

theorem getConsentPropertyPaths_entries:
  assumes "pi_requiredConsents pipeline = Some rc"
  shows "distinct (obj_keys (getConsentPropertyPaths pipeline pipelineType c purposes)) \<and>
    obj_get (getConsentPropertyPaths pipeline pipelineType c purposes) path =
      (let found = [purpose. Some (p, purpose) \<leftarrow> map (consent_path_of pipelineType c purposes) (rc_purposes rc), p = path]
       in if hasImportProfileConsentStep c (tpt_target pipelineType) \<and> found \<noteq> [] then Some found else None)"
  using assms distinct_consent_paths [of "[]"]
  by (simp add: getConsentPropertyPaths_def consent_paths_fold Let_def)

theorem getConsentPropertyPaths_entries_witness:
  "obj_get (getConsentPropertyPaths example_consent_pipeline (example_pipeline_type required_schema) example_import [example_purpose]) (js ''a.c'') =
     Some [example_purpose, example_purpose]"
proof -
  have rc: "pi_requiredConsents example_consent_pipeline = Some \<lparr>rc_operator = And, rc_purposes = [js ''m'', js ''m'']\<rparr>"
    by (simp add: example_consent_pipeline_def)
  have "hasImportProfileConsentStep example_import (tpt_target (example_pipeline_type required_schema))"
    "consent_path_of (example_pipeline_type required_schema) example_import [example_purpose] (js ''m'') = Some (js ''a.c'', example_purpose)"
    by code_simp+
  with getConsentPropertyPaths_entries [OF rc, of "example_pipeline_type required_schema" example_import "[example_purpose]" "js ''a.c''"]
  show ?thesis by (simp add: Let_def)
qed

end
