(* ===== verification/Combobox_Items.thy ===== *)
theory Combobox_Items
  imports Filter_Conditions Connections
begin

section \<open>The properties a field can be filled with (components/helpers/getSchemaComboboxItems.tsx)\<close>

text \<open>
  The lists of properties shown by the fields of a pipeline: each is a selection of the entries of a
  flattened schema, in its order. An item is the name of the property and the kind whose icon is
  shown beside it; the markup around them is not modelled.
\<close>

record combobox_item =
  ci_kind :: type_kind
  ci_term :: jsstr

definition computeItems :: "flat_schema \<Rightarrow> combobox_item list" where
  "computeItems schema = map (\<lambda>(name, tp). \<lparr>ci_kind = tp_type tp, ci_term = name\<rparr>) schema"

definition keep_entries :: "(jsstr \<Rightarrow> transformed_property \<Rightarrow> bool) \<Rightarrow> flat_schema \<Rightarrow> flat_schema" where
  "keep_entries P flat = filter (\<lambda>(k, v). P k v) flat"

text \<open>The argument is a schema (\<open>Inl\<close>) or a flattened one (\<open>Inr\<close>).\<close>

definition getSchemaComboboxItems :: "(property list + flat_schema) option \<Rightarrow> jsstr list \<Rightarrow> combobox_item list" where
  "getSchemaComboboxItems schema toHide =
     (case schema of
        None \<Rightarrow> []
      | Some s \<Rightarrow>
          let flat = (case s of Inl ps \<Rightarrow> flatten_object ps | Inr f \<Rightarrow> f)
          in computeItems (keep_entries (\<lambda>k v. k \<notin> set toHide) flat))"

definition getMatchingComboboxItems :: "flat_schema option \<Rightarrow> combobox_item list" where
  "getMatchingComboboxItems schema =
     (case schema of
        None \<Rightarrow> []
      | Some flat \<Rightarrow> computeItems (keep_entries (\<lambda>k v. tp_type v \<noteq> KArray \<and> tp_type v \<noteq> KObject \<and> tp_type v \<noteq> KMap) flat))"

definition getFilterPropertyComboboxItems ::
  "property list option \<Rightarrow> transformed_connection \<Rightarrow> pipeline_target \<Rightarrow> jsstr list \<Rightarrow> combobox_item list" where
  "getFilterPropertyComboboxItems schema c target toHide =
     (case schema of
        None \<Rightarrow> []
      | Some ps \<Rightarrow>
          computeItems (keep_entries (\<lambda>k v.
            if k \<in> set toHide then False
            else if tp_type v = KObject \<or> tp_type v = KArray then getCompatibleFilterOperators (Some v) False \<noteq> []
            else \<not> (tp_type v = KJSON \<and> isDestination c \<and> target = TUser)) (flatten_object ps)))"

definition getUserIDColumnComboboxItems :: "property list option \<Rightarrow> combobox_item list" where
  "getUserIDColumnComboboxItems schema =
     (case schema of
        None \<Rightarrow> []
      | Some ps \<Rightarrow> computeItems (keep_entries (\<lambda>k v.
          \<not> tp_readOptional v \<and> (tp_type v = KInt \<or> tp_type v = KUUID \<or> tp_type v = KJSON \<or> tp_type v = KString)) (flatten_object ps)))"

definition getUpdatedAtComboboxItems :: "property list option \<Rightarrow> combobox_item list" where
  "getUpdatedAtComboboxItems schema =
     (case schema of
        None \<Rightarrow> []
      | Some ps \<Rightarrow> computeItems (keep_entries (\<lambda>k v.
          tp_type v = KDateTime \<or> tp_type v = KDate \<or> tp_type v = KJSON \<or> tp_type v = KString) (flatten_object ps)))"

definition decimal_scale :: "schema_type \<Rightarrow> js_num option" where
  "decimal_scale t = (case t of DecimalType d \<Rightarrow> dt_scale d | _ \<Rightarrow> None)"

definition filterOrderingPropertySchema :: "property list option \<Rightarrow> flat_schema option" where
  "filterOrderingPropertySchema schema =
     map_option (\<lambda>ps. keep_entries (\<lambda>k v.
       if tp_type v = KDecimal
       then decimal_scale (p_type (tp_full v)) = None \<or> decimal_scale (p_type (tp_full v)) = Some 0
       else tp_type v = KInt \<or> tp_type v = KUUID \<or> tp_type v = KIP \<or> tp_type v = KString) (flatten_object ps)) schema"

definition getOrderingPropertyPathComboboxItems :: "property list option \<Rightarrow> combobox_item list" where
  "getOrderingPropertyPathComboboxItems schema =
     (case filterOrderingPropertySchema schema of None \<Rightarrow> [] | Some flat \<Rightarrow> computeItems flat)"

definition getTableKeyComboboxItems :: "property list option \<Rightarrow> combobox_item list" where
  "getTableKeyComboboxItems schema =
     (case schema of
        None \<Rightarrow> []
      | Some ps \<Rightarrow> computeItems (keep_entries (\<lambda>k v.
          tp_type v = KInt \<or> tp_type v = KUUID \<or> tp_type v = KString) (flatten_object ps)))"

subsection \<open>What is offered\<close>

lemma obj_get_keep:
  assumes "distinct (obj_keys flat)"
  shows "obj_get (keep_entries P flat) k = (case obj_get flat k of None \<Rightarrow> None | Some v \<Rightarrow> if P k v then Some v else None)"
  using assms
proof (induction flat)
  case Nil
  then show ?case by (simp add: keep_entries_def)
next
  case (Cons e flat)
  obtain a b where e: "e = (a, b)" by (cases e)
  have new: "obj_get flat a = None" using Cons.prems by (auto simp: e in_obj_keys)
  have IH: "obj_get (filter (\<lambda>(k, v). P k v) flat) k = (case obj_get flat k of None \<Rightarrow> None | Some v \<Rightarrow> if P k v then Some v else None)"
    using Cons.IH Cons.prems by (simp add: e keep_entries_def)
  show ?case
    using IH new by (cases "k = a") (simp_all add: e keep_entries_def)
qed

lemma terms_keep: "map ci_term (computeItems (keep_entries P flat)) = [k. (k, v) \<leftarrow> flat, P k v]"
  by (induction flat) (auto simp: computeItems_def keep_entries_def)

lemma terms_are_keys: "map ci_term (computeItems flat) = obj_keys flat"
  by (auto simp: computeItems_def obj_keys_def)

lemma flatten_distinct: "wf_properties ps \<Longrightarrow> distinct (obj_keys (flatten_object ps))"
  using distinct_flat_entries [of ps "[]"] by (simp add: flatten_object_entries)

lemma term_offered:
  assumes "wf_properties ps"
  shows "k \<in> ci_term ` set (computeItems (keep_entries P (flatten_object ps))) \<longleftrightarrow>
    (\<exists>p. lookup_path ps (segments k) = Some p \<and>
       P k (flattenProperty False p (length (segments k) - 1) (hd (segments k))))"
proof -
  have "k \<in> ci_term ` set (computeItems (keep_entries P (flatten_object ps))) \<longleftrightarrow> obj_get (keep_entries P (flatten_object ps)) k \<noteq> None"
    using terms_are_keys [of "keep_entries P (flatten_object ps)"]
    by (metis in_obj_keys set_map)
  moreover have "obj_get (flatten_object ps) k =
      map_option (\<lambda>p. flattenProperty False p (length (segments k) - 1) (hd (segments k))) (lookup_path ps (segments k))"
    using obj_get_flatten_object [OF assms, of "segments k"] by simp
  ultimately show ?thesis
    by (auto simp: obj_get_keep [OF flatten_distinct [OF assms]] split: option.splits)
qed

text \<open>
  The properties offered as user identifier are exactly those of the schema, at any depth, that are
  always read and hold an integer, a UUID, JSON or a text; each is offered once, in the order of
  the schema.
\<close>

theorem getUserIDColumnComboboxItems_offers:
  assumes "wf_properties ps"
  shows "distinct (map ci_term (getUserIDColumnComboboxItems (Some ps))) \<and>
    (k \<in> set (map ci_term (getUserIDColumnComboboxItems (Some ps))) \<longleftrightarrow>
       (\<exists>p. lookup_path ps (segments k) = Some p \<and> \<not> p_readOptional p \<and> kind_of (p_type p) \<in> {KInt, KUUID, KJSON, KString}))"
proof -
  have "distinct (map fst (filter P flat))" if "distinct (obj_keys flat)" for P and flat :: flat_schema
    using that by (induction flat) (auto simp: obj_keys_def)
  then have "distinct (map ci_term (computeItems (keep_entries P (flatten_object ps))))" for P
    using flatten_distinct [OF assms] unfolding terms_are_keys keep_entries_def obj_keys_def [symmetric]
    by (simp add: obj_keys_def)
  then show ?thesis
    using term_offered [OF assms, of k] by (auto simp: getUserIDColumnComboboxItems_def flattenProperty_def)
qed

theorem getUserIDColumnComboboxItems_offers_witness:
  "js ''address.street'' \<in> set (map ci_term (getUserIDColumnComboboxItems (Some example_schema)))"
  using getUserIDColumnComboboxItems_offers [OF example_schema_wf, of "js ''address.street''"]
  by (simp add: example_schema_simps)

end
