(* ===== verification/Transformation_Code.thy ===== *)
theory Transformation_Code
  imports Pipeline_Types
begin

section \<open>The code of a new transformation function (lib/core/pipeline.ts, Pipeline.constants.ts)\<close>

text \<open>
  The text of the function a pipeline starts with: the template of its language with the name of
  the parameter and, when events are sent, an object with a value for each required property.
  \<open>String.replace\<close> with a text pattern replaces its first occurrence; the replacements have no
  \<open>$\<close> (property names have none), so they are inserted as they are.
\<close>

datatype code_language = JavaScript | Python

definition language_of :: "jsstr \<Rightarrow> code_language option" where
  "language_of s = (if s = js ''JavaScript'' then Some JavaScript else if s = js ''Python'' then Some Python else None)"

definition newline :: jsstr where "newline = [10]"
definition tab :: jsstr where "tab = [9]"

fun RAW_TRANSFORMATION_FUNCTIONS :: "code_language \<Rightarrow> jsstr" where
  "RAW_TRANSFORMATION_FUNCTIONS JavaScript =
     js ''const transform = ($parameter) => {'' @ newline @ js ''    return {$return}'' @ newline @ js ''}''"
| "RAW_TRANSFORMATION_FUNCTIONS Python =
     js ''def transform($parameter: dict) -> dict:'' @ newline @ tab @ js ''return {$return}'' @ newline"

fun replace_first :: "jsstr \<Rightarrow> jsstr \<Rightarrow> jsstr \<Rightarrow> jsstr" where
  "replace_first pat r [] = (if pat = [] then r else [])"
| "replace_first pat r (c # cs) =
     (if starts_with (c # cs) pat then r @ drop (length pat) (c # cs) else c # replace_first pat r cs)"

definition getTransformationFunctionParameter :: "transformed_connection \<Rightarrow> pipeline_target \<Rightarrow> jsstr" where
  "getTransformationFunctionParameter c target =
     (if isSource c \<and> supportsEventTarget c \<and> target = TUser then js ''event''
      else case target of TUser \<Rightarrow> js ''user'' | TEvent \<Rightarrow> js ''event'' | TGroup \<Rightarrow> js ''group'')"

definition BASE_FUNCTION_RETURN_INDENTATION :: nat where "BASE_FUNCTION_RETURN_INDENTATION = 2"

definition in_language :: "code_language \<Rightarrow> string \<Rightarrow> string \<Rightarrow> jsstr" where
  "in_language l python javascript = js (case l of Python \<Rightarrow> python | JavaScript \<Rightarrow> javascript)"

text \<open>The value of a property that is not an object.\<close>

fun default_value :: "code_language \<Rightarrow> schema_type \<Rightarrow> jsstr" where
  "default_value l (StringType _) = (case l of Python \<Rightarrow> [34, 34] | JavaScript \<Rightarrow> [39, 39])"
| "default_value l BooleanType = in_language l ''False'' ''false''"
| "default_value l (IntType t) = (if l = JavaScript \<and> it_bitSize t = 64 then js ''0n'' else js ''0'')"
| "default_value l (FloatType _) = in_language l ''0.0'' ''0''"
| "default_value l (DecimalType _) = (case l of Python \<Rightarrow> js ''decimal.Decimal(0)'' | JavaScript \<Rightarrow> [39] @ js ''0.0'' @ [39])"
| "default_value l DateTimeType =
     (case l of Python \<Rightarrow> js ''datetime.datetime(2000, 1, 1, 0, 0, 0)'' | JavaScript \<Rightarrow> [39] @ js ''2000-01-01T00:00:00.000000000Z'' @ [39])"
| "default_value l DateType = (case l of Python \<Rightarrow> js ''datetime.date(2000, 1, 1)'' | JavaScript \<Rightarrow> [39] @ js ''2000-01-01'' @ [39])"
| "default_value l TimeType = (case l of Python \<Rightarrow> js ''datetime.time(0, 0, 0)'' | JavaScript \<Rightarrow> [39] @ js ''00:00:00.000000000'' @ [39])"
| "default_value l YearType = js ''2000''"
| "default_value l UUIDType =
     (case l of Python \<Rightarrow> js ''uuid.UUID('' @ [34] @ js ''00000000-0000-0000-0000-000000000000'' @ [34] @ js '')''
      | JavaScript \<Rightarrow> [39] @ js ''00000000-0000-0000-0000-000000000000'' @ [39])"
| "default_value l JSONType = in_language l ''None'' ''null''"
| "default_value l IPType = (case l of Python \<Rightarrow> [34] @ js ''0.0.0.0'' @ [34] | JavaScript \<Rightarrow> [39] @ js ''0.0.0.0'' @ [39])"
| "default_value l (ArrayType _ _) = js ''[]''"
| "default_value l (MapType _) = js ''{}''"
| "default_value l (ObjectType _) = []"

definition tabs :: "nat \<Rightarrow> jsstr" where
  "tabs n = replicate n 9"

definition field_name :: "code_language \<Rightarrow> nat \<Rightarrow> jsstr \<Rightarrow> jsstr" where
  "field_name l indentation name =
     (if indentation > 0 then newline @ tabs (BASE_FUNCTION_RETURN_INDENTATION + indentation) else [])
     @ (case l of Python \<Rightarrow> [34] @ name @ [34] @ js '': '' | JavaScript \<Rightarrow> name @ js '': '')"

function getTransformationFunctionReturnField :: "property \<Rightarrow> nat \<Rightarrow> code_language \<Rightarrow> jsstr" where
  "getTransformationFunctionReturnField p indentation l =
     field_name l indentation (p_name p)
     @ (if kind_of (p_type p) = KObject then
          let fragments = map (\<lambda>q. getTransformationFunctionReturnField q (indentation + 1) l)
                (filter p_createRequired (sub_properties p))
          in js ''{'' @ concat fragments
             @ (if fragments \<noteq> [] then newline @ tabs (BASE_FUNCTION_RETURN_INDENTATION + indentation) @ js ''}'' else js ''}'')
        else default_value l (p_type p))
     @ js '',''"
  by pat_completeness auto

lemma size_sub_property: "q \<in> set (sub_properties p) \<Longrightarrow> size q < size p"
  using size_sub_properties_less [of p] size_list_estimation' [of q "sub_properties p" "size q" size] by linarith

termination getTransformationFunctionReturnField
  by (relation "measure (\<lambda>(p, _, _). size p)") (auto intro: size_sub_property)

declare getTransformationFunctionReturnField.simps [simp del]

text \<open>The module a value of a kind comes from, as the \<open>switch\<close> on the imports has it.\<close>

definition module_of :: "type_kind \<Rightarrow> jsstr option" where
  "module_of k = (case k of KDecimal \<Rightarrow> Some (js ''decimal'')
     | KDateTime \<Rightarrow> Some (js ''datetime'') | KDate \<Rightarrow> Some (js ''datetime'') | KTime \<Rightarrow> Some (js ''datetime'')
     | KUUID \<Rightarrow> Some (js ''uuid'') | _ \<Rightarrow> None)"

text \<open>A set keeps the order of insertion.\<close>

definition add_import :: "jsstr list \<Rightarrow> property \<Rightarrow> jsstr list" where
  "add_import imports p =
     (case module_of (kind_of (p_type p)) of
        None \<Rightarrow> imports
      | Some m \<Rightarrow> if m \<in> set imports then imports else imports @ [m])"

definition return_text :: "code_language \<Rightarrow> property list \<Rightarrow> jsstr" where
  "return_text l ps =
     concat (map (\<lambda>p. newline @ tabs 2 @ getTransformationFunctionReturnField p 0 l) ps)
     @ (if ps \<noteq> [] then newline @ tabs 1 else [])"

definition import_text :: "jsstr list \<Rightarrow> jsstr" where
  "import_text imports =
     (if imports \<noteq> [] then concat (map (\<lambda>m. js ''import '' @ m @ newline) imports) @ newline else [])"

text \<open>\<open>None\<close> is the \<open>TypeError\<close> of a missing output schema.\<close>

definition computeDefaultTransformationFunction ::
  "property list option \<Rightarrow> jsstr \<Rightarrow> transformed_connection \<Rightarrow> pipeline_target \<Rightarrow> jsstr option" where
  "computeDefaultTransformationFunction outputSchema language c target =
     (case language_of language of
        None \<Rightarrow> Some []
      | Some l \<Rightarrow>
          let func = replace_first (js ''$parameter'') (getTransformationFunctionParameter c target) (RAW_TRANSFORMATION_FUNCTIONS l) in
          if isDestination c \<and> target = TEvent then
            (case outputSchema of
               None \<Rightarrow> None
             | Some ps \<Rightarrow>
                 let requiredProperties = filter p_createRequired ps;
                     imports = (if l = Python then foldl add_import [] requiredProperties else [])
                 in Some (import_text imports @ replace_first (js ''$return'') (return_text l requiredProperties) func))
          else Some (replace_first (js ''$return'') [] func))"

subsection \<open>Braces\<close>

definition balanced :: "jsstr \<Rightarrow> bool" where
  "balanced s \<longleftrightarrow> count_list s (ch CHR ''{'') = count_list s (ch CHR ''}'')"

definition brace_free :: "jsstr \<Rightarrow> bool" where
  "brace_free s \<longleftrightarrow> 123 \<notin> set s \<and> 125 \<notin> set s"

function all_names :: "(jsstr \<Rightarrow> bool) \<Rightarrow> property \<Rightarrow> bool" where
  "all_names P p \<longleftrightarrow> P (p_name p) \<and> list_all (all_names P) (sub_properties p)"
  by pat_completeness auto

termination all_names
  by (relation "measure (\<lambda>(_, p). size p)") (auto intro: size_sub_property)

declare all_names.simps [simp del]

lemma brace_free_balanced: "brace_free s \<Longrightarrow> balanced s"
  by (simp add: brace_free_def balanced_def count_list_0_iff)

lemma balanced_append: "balanced a \<Longrightarrow> balanced b \<Longrightarrow> balanced (a @ b)"
  by (simp add: balanced_def)

lemma balanced_concat: "\<forall>a \<in> set xs. balanced a \<Longrightarrow> balanced (concat xs)"
  by (induction xs) (auto intro: balanced_append simp: balanced_def)

lemma balanced_braces: "balanced a \<Longrightarrow> balanced (123 # a @ [125])"
  by (simp add: balanced_def)

lemma brace_free_tabs [simp]: "brace_free (tabs n)" "brace_free newline"
  by (simp_all add: brace_free_def tabs_def newline_def)

lemma brace_free_append [simp]: "brace_free (a @ b) \<longleftrightarrow> brace_free a \<and> brace_free b"
  by (auto simp: brace_free_def)

lemma balanced_default_value: "balanced (default_value l t)"
  by (cases t; cases l) (simp_all add: balanced_def in_language_def js_Cons)

lemma brace_free_field_name: "brace_free name \<Longrightarrow> brace_free (field_name l n name)"
  by (cases l) (simp_all add: field_name_def, simp_all add: brace_free_def js_Cons)

lemma balanced_return_field:
  "all_names brace_free p \<Longrightarrow> balanced (getTransformationFunctionReturnField p n l)"
proof (induction p n l rule: getTransformationFunctionReturnField.induct)
  case (1 p n l)
  let ?fs = "map (\<lambda>q. getTransformationFunctionReturnField q (n + 1) l) (filter p_createRequired (sub_properties p))"
  have names: "brace_free (p_name p)" "\<forall>q \<in> set (sub_properties p). all_names brace_free q"
    using "1.prems" unfolding all_names.simps [of brace_free p] by (simp_all add: list_all_iff)
  have "balanced (concat ?fs)"
    if "kind_of (p_type p) = KObject"
    using "1.IH" that names(2) by (intro balanced_concat) auto
  then have "balanced (js ''{'' @ concat ?fs @ (if ?fs \<noteq> [] then newline @ tabs (BASE_FUNCTION_RETURN_INDENTATION + n) @ js ''}'' else js ''}''))"
    if "kind_of (p_type p) = KObject"
    using that brace_free_tabs by (simp add: balanced_def js_Cons brace_free_def newline_def tabs_def)
  then have body: "balanced (if kind_of (p_type p) = KObject
      then js ''{'' @ concat ?fs @ (if ?fs \<noteq> [] then newline @ tabs (BASE_FUNCTION_RETURN_INDENTATION + n) @ js ''}'' else js ''}'')
      else default_value l (p_type p))"
    using balanced_default_value by simp
  have comma: "balanced (js '','')" by (simp add: balanced_def js_Cons)
  show ?case
    unfolding getTransformationFunctionReturnField.simps [of p n l] Let_def
    by (rule balanced_append [OF brace_free_balanced [OF brace_free_field_name [OF names(1)]] balanced_append [OF body comma]])
qed

lemma replace_first_hit: "starts_with s pat \<Longrightarrow> s \<noteq> [] \<Longrightarrow> replace_first pat r s = r @ drop (length pat) s"
  by (cases s) auto

lemma replace_return:
  "brace_free param \<Longrightarrow> 36 \<notin> set param \<Longrightarrow> balanced r \<Longrightarrow>
     balanced (replace_first (js ''$return'') r (replace_first (js ''$parameter'') param (RAW_TRANSFORMATION_FUNCTIONS l)))"
proof -
  assume p: "brace_free param" "36 \<notin> set param" and r: "balanced r"
  have skip: "replace_first (js ''$return'') r (a @ b) = a @ replace_first (js ''$return'') r b" if "36 \<notin> set a" for a b
    using that by (induction a) (auto simp: js_Cons)
  show ?thesis
    using p(1) r skip [OF p(2)]
    by (cases l) (simp_all add: js_Cons newline_def tab_def balanced_def brace_free_def count_list_0_iff)
qed

lemma parameter_plain:
  "brace_free (getTransformationFunctionParameter c target)" "36 \<notin> set (getTransformationFunctionParameter c target)"
  by (cases target; simp add: getTransformationFunctionParameter_def brace_free_def js_Cons)+

lemma balanced_return_text:
  "\<forall>p \<in> set ps. all_names brace_free p \<Longrightarrow> balanced (return_text l ps)"
proof -
  assume "\<forall>p \<in> set ps. all_names brace_free p"
  then have "balanced (newline @ tabs 2 @ getTransformationFunctionReturnField p 0 l)" if "p \<in> set ps" for p
    using that balanced_append [OF brace_free_balanced [of "newline @ tabs 2"] balanced_return_field] by simp
  moreover have "balanced (if ps \<noteq> [] then newline @ tabs 1 else [])"
    by (auto intro!: brace_free_balanced) (auto simp: brace_free_def)
  ultimately show ?thesis
    unfolding return_text_def by (intro balanced_append balanced_concat) auto
qed

subsection \<open>Imports\<close>

lemma add_imports:
  "set (foldl add_import acc ps) = set acc \<union> {m. \<exists>p \<in> set ps. module_of (kind_of (p_type p)) = Some m}
   \<and> (distinct acc \<longrightarrow> distinct (foldl add_import acc ps))"
proof (induction ps arbitrary: acc)
  case (Cons p ps)
  have "set (add_import acc p) = set acc \<union> {m. module_of (kind_of (p_type p)) = Some m}"
    "distinct acc \<longrightarrow> distinct (add_import acc p)"
    by (auto simp: add_import_def split: option.splits)
  with Cons.IH [of "add_import acc p"] show ?case by auto
qed simp

lemma module_letters: "module_of k = Some m \<Longrightarrow> brace_free m"
  by (cases k) (auto simp: module_of_def brace_free_def js_Cons)

lemma balanced_import_text: "\<forall>m \<in> set imports. brace_free m \<Longrightarrow> balanced (import_text imports)"
  unfolding import_text_def
  by (auto intro!: balanced_append balanced_concat brace_free_balanced) (auto simp: brace_free_def js_Cons newline_def)

text \<open>
  the braces of the function a pipeline starts with are balanced, whatever its output schema is, when no name of the
  schema has a brace.
\<close>

theorem default_function_balanced:
  assumes "computeDefaultTransformationFunction outputSchema language c target = Some code"
    and "\<forall>ps. outputSchema = Some ps \<longrightarrow> (\<forall>p \<in> set ps. all_names brace_free p)"
  shows "count_list code (ch CHR ''{'') = count_list code (ch CHR ''}'')"
proof (cases "language_of language")
  case None
  then show ?thesis using assms(1) by (simp add: computeDefaultTransformationFunction_def)
next
  case (Some l)
  let ?func = "\<lambda>r. replace_first (js ''$return'') r
    (replace_first (js ''$parameter'') (getTransformationFunctionParameter c target) (RAW_TRANSFORMATION_FUNCTIONS l))"
  have func: "balanced r \<Longrightarrow> balanced (?func r)" for r
    by (rule replace_return [OF parameter_plain])
  show ?thesis
  proof (cases "isDestination c \<and> target = TEvent")
    case False
    then have "code = ?func []" using assms(1) Some by (auto simp: computeDefaultTransformationFunction_def)
    moreover have "balanced (?func [])" by (rule func) (simp add: balanced_def)
    ultimately show ?thesis by (simp add: balanced_def)
  next
    case True
    then obtain ps where ps: "outputSchema = Some ps"
      using assms(1) Some by (auto simp: computeDefaultTransformationFunction_def Let_def split: option.splits)
    let ?req = "filter p_createRequired ps"
    let ?imports = "if l = Python then foldl add_import [] ?req else []"
    have "code = import_text ?imports @ ?func (return_text l ?req)"
      using assms(1) Some True ps by (simp add: computeDefaultTransformationFunction_def Let_def)
    moreover have "balanced (?func (return_text l ?req))"
      using assms(2) ps by (intro func balanced_return_text) simp
    moreover have "balanced (import_text ?imports)"
      using add_imports [of "[]" ?req] module_letters by (intro balanced_import_text) auto
    ultimately have "balanced code" using balanced_append by simp
    then show ?thesis by (simp add: balanced_def)
  qed
qed

definition nested_decimal :: "property list" where
  "nested_decimal =
    [Property (js ''order'') [] (ObjectType
       [Property (js ''total'') [] (DecimalType \<lparr>dt_semantics = None, dt_currency = None, dt_unit = None,
          dt_minimum = None, dt_maximum = None, dt_precision = None, dt_scale = None\<rparr>) True False False False [] []])
     True False False False [] []]"

abbreviation example_app :: transformed_connection where
  "example_app \<equiv> example_connection ''a'' CApplication Destination [] []"

definition nested_decimal_code :: jsstr where
  "nested_decimal_code = js ''def transform(event: dict) -> dict:'' @ newline @ tab @ js ''return {'' @ newline
     @ tabs 2 @ [34] @ js ''order'' @ [34] @ js '': {'' @ newline @ tabs 3 @ [34] @ js ''total'' @ [34]
     @ js '': decimal.Decimal(0),'' @ newline @ tabs 2 @ js ''},'' @ newline @ tab @ js ''}'' @ newline"

lemma nested_decimal_eq:
  "computeDefaultTransformationFunction (Some nested_decimal) (js ''Python'') example_app TEvent = Some nested_decimal_code"
  by code_simp

lemma nested_decimal_names: "\<forall>p \<in> set nested_decimal. all_names brace_free p"
  by (simp add: nested_decimal_def all_names.simps sub_properties_def brace_free_def js_Cons)

theorem default_function_balanced_witness:
  "count_list nested_decimal_code (ch CHR ''{'') = count_list nested_decimal_code (ch CHR ''}'')"
  by (rule default_function_balanced [OF nested_decimal_eq]) (use nested_decimal_names in simp)

text \<open>
  A Python function imports exactly the modules of its first-level required properties, so the
  decimal of a required object makes a function that uses \<open>decimal\<close> and does not import it.
\<close>

theorem python_imports_first_level:
  "set (foldl add_import [] (filter p_createRequired ps)) =
     {m. \<exists>p \<in> set ps. p_createRequired p \<and> module_of (kind_of (p_type p)) = Some m}
   \<and> computeDefaultTransformationFunction (Some nested_decimal) (js ''Python'') example_app TEvent =
       Some (js ''def transform(event: dict) -> dict:'' @ newline @ tab @ js ''return {'' @ newline
         @ tabs 2 @ [34] @ js ''order'' @ [34] @ js '': {'' @ newline @ tabs 3 @ [34] @ js ''total'' @ [34]
         @ js '': decimal.Decimal(0),'' @ newline @ tabs 2 @ js ''},'' @ newline @ tab @ js ''}'' @ newline)"
  using add_imports [of "[]" "filter p_createRequired ps"] nested_decimal_eq
  by (auto simp: nested_decimal_code_def)

end
