(* ===== verification/Pipeline_Load.thy ===== *)
theory Pipeline_Load
  imports Mapping_State Filter_Conditions Matching
begin

section \<open>The pipeline an editor starts from (lib/core/pipeline.ts)\<close>

text \<open>
  \<open>transformPipeline\<close> makes the edited form of a saved pipeline, \<open>computeDefaultPipeline\<close> the one of a
  new pipeline. \<open>None\<close> is a \<open>TypeError\<close> of the source.
\<close>

text \<open>\<open>substring\<close> swaps its arguments when the first is greater.\<close>

definition js_substring :: "nat \<Rightarrow> nat \<Rightarrow> jsstr \<Rightarrow> jsstr" where
  "js_substring a b s = slice (min a b) (max a b) s"

definition unquote_format :: "jsstr \<Rightarrow> jsstr" where
  "unquote_format f =
     (if f \<noteq> [] \<and> starts_with f [ch CHR 0x27] \<and> ends_with f [ch CHR 0x27]
      then js_substring 1 (length f - 1) f else f)"

definition show_values :: "filter_condition \<Rightarrow> filter_condition" where
  "show_values c = c\<lparr>c_values := Some (map formatString (case c_values c of None \<Rightarrow> [] | Some vs \<Rightarrow> vs))\<rparr>"

text \<open>The mapping to show: the saved one, or an empty one when the pipeline can have a transformation and has none.\<close>

definition pipeline_mapping_to_show :: "pipeline \<Rightarrow> bool \<Rightarrow> mapping option" where
  "pipeline_mapping_to_show pipeline supportsTransformation =
     (case pl_transformation pipeline of
        None \<Rightarrow> if supportsTransformation then Some [] else None
      | Some t \<Rightarrow> if supportsTransformation \<and> tr_mapping t = None \<and> tr_function t = None then Some [] else tr_mapping t)"

text \<open>Without an output schema \<open>transformPipelineMapping\<close> returns the \<open>null\<close> of \<open>flattenSchema\<close>.\<close>

definition show_mapping :: "mapping option \<Rightarrow> property list option \<Rightarrow> flat_schema option option" where
  "show_mapping saved outputSchema =
     (case (saved, outputSchema) of
        (Some m, Some ps) \<Rightarrow> map_option Some (transformPipelineMapping m ps)
      | _ \<Rightarrow> Some None)"

definition transformPipeline :: "pipeline \<Rightarrow> property list option \<Rightarrow> bool \<Rightarrow> transformed_pipeline option" where
  "transformPipeline pipeline outputSchema supportsTransformation =
     map_option (\<lambda>m.
       \<lparr>pi_id = Some (pl_id pipeline), pi_connection = Some (pl_connection pipeline), pi_target = pl_target pipeline,
        pi_name = pl_name pipeline, pi_enabled = pl_enabled pipeline, pi_eventType = pl_eventType pipeline,
        pi_running = Some (pl_running pipeline), pi_scheduleStart = pl_scheduleStart pipeline,
        pi_schedulePeriod = pl_schedulePeriod pipeline, pi_inSchema = pl_inSchema pipeline, pi_outSchema = pl_outSchema pipeline,
        pi_filter = map_option (\<lambda>f. mapFilterConditions f show_values) (pl_filter pipeline),
        pi_requiredConsents = pl_requiredConsents pipeline,
        pi_transformation = Some \<lparr>tt_mapping = m, tt_function = Option.bind (pl_transformation pipeline) tr_function\<rparr>,
        pi_query = pl_query pipeline, pi_path = pl_path pipeline, pi_tableName = pl_tableName pipeline,
        pi_tableKey = pl_tableKey pipeline, pi_sheet = pl_sheet pipeline, pi_userIDColumn = pl_userIDColumn pipeline,
        pi_updatedAtColumn = pl_updatedAtColumn pipeline,
        pi_updatedAtFormat = map_option unquote_format (pl_updatedAtFormat pipeline),
        pi_incremental = pl_incremental pipeline, pi_orderBy = pl_orderBy pipeline, pi_exportMode = pl_exportMode pipeline,
        pi_matching = pl_matching pipeline, pi_updateOnDuplicates = pl_updateOnDuplicates pipeline,
        pi_compression = Some (pl_compression pipeline), pi_format = Some (pl_format pipeline)\<rparr>)
     (show_mapping (pipeline_mapping_to_show pipeline supportsTransformation) outputSchema)"

subsection \<open>computeDefaultPipeline\<close>

definition identity_filter :: filter_tree where
  "identity_filter = (Or,
     [Condition \<lparr>c_property = js ''type'', c_operator = Some OpIs, c_values = Some [js ''identify'']\<rparr>,
      Condition \<lparr>c_property = js ''traits'', c_operator = Some OpIsNotEmpty, c_values = None\<rparr>])"

definition default_filter :: "transformed_connection \<Rightarrow> pipeline_target \<Rightarrow> jsstr option \<Rightarrow> filter_tree option" where
  "default_filter c target eventType =
     (case Option.bind (List.find (\<lambda>t. Some (et_id t) = eventType) (cn_eventTypes c)) et_defaultFilter of
        Some f \<Rightarrow> Some f
      | None \<Rightarrow> if (isSDK c \<or> isWebhook c) \<and> target = TUser then Some identity_filter else None)"

text \<open>Of the pipeline type the name, the target and the event type are read.\<close>

definition computeDefaultPipeline ::
  "jsstr \<Rightarrow> pipeline_target \<Rightarrow> jsstr option \<Rightarrow> transformed_connection \<Rightarrow> property list option \<Rightarrow>
   pipeline_type_field list \<Rightarrow> transformed_pipeline option" where
  "computeDefaultPipeline name target eventType c outputSchema typeFields =
     (let has = (\<lambda>f. f \<in> set typeFields);
          text = (\<lambda>f. if has f then Some [] else None);
          column = (if has FQuery \<or> has FFile then Some [] else None) in
      if has FQuery \<and> tc_asSource (cn_connector c) = None then None
      else Some
       \<lparr>pi_id = None, pi_connection = None, pi_target = target, pi_name = name,
        pi_enabled = (target = TUser \<and> (isApplication c \<or> isDatabase c \<or> isFileStorage c)),
        pi_eventType = None, pi_running = None, pi_scheduleStart = None, pi_schedulePeriod = None,
        pi_inSchema = None, pi_outSchema = None,
        pi_filter = (if has FFilter then default_filter c target eventType else None),
        pi_requiredConsents = None,
        pi_transformation = Some \<lparr>tt_mapping = flattenSchema (map_option ObjectType outputSchema) True, tt_function = None\<rparr>,
        pi_query = (if has FQuery then map_option sc_sampleQuery (tc_asSource (cn_connector c)) else None),
        pi_path = text FFile, pi_tableName = text FTableName, pi_tableKey = text FTableName,
        pi_sheet = None, pi_userIDColumn = column, pi_updatedAtColumn = column, pi_updatedAtFormat = column,
        pi_incremental = (if has FIncremental then Some False else None),
        pi_orderBy = text FOrderBy,
        pi_exportMode = (if has FExportMode then Some (hd (obj_keys EXPORT_MODE_OPTIONS)) else None),
        pi_matching = (if has FMatching then Some \<lparr>m_in = [], m_out = []\<rparr> else None),
        pi_updateOnDuplicates = (if has FUpdateOnDuplicates then Some False else None),
        pi_compression = (if has FFile then Some NoCompression else None),
        pi_format = text FFile\<rparr>)"

end
