(* ===== verification/Pipeline_Save.thy ===== *)
theory Pipeline_Save
  imports Pipeline_Load Combobox_Items Required_Paths Schema_Build
begin

section \<open>Saving a pipeline (transformInPipelineToSet, lib/core/pipeline.ts)\<close>

text \<open>
  The pipeline of the page becomes the one the API is given. The function is one long sequence of
  checks; here each block is a definition, and \<open>transformInPipelineToSet\<close> runs them in order.
  \<open>api.expressionsProperties\<close>, which asks the server for the properties the mapping expressions
  use, is a parameter: it returns the error message of its rejection or the paths. An error that the
  source throws is a constructor of \<open>save_error\<close>, \<open>SaveTypeError\<close> the \<open>TypeError\<close> of using \<open>null\<close>.
\<close>

datatype save_error =
    NameEmpty | NameTooLong
  | MappingPropertyRequired jsstr | MappingHasErrors | ApiError jsstr | NoInputProperties
  | NoFunctionPaths | FunctionPropertyRequired jsstr
  | MatchingEmpty | InMatchingMissing jsstr | OutMatchingMissing jsstr | BadMatching matching_error
  | MatchingReadOnly jsstr | MatchingDiffers jsstr | MatchingTransformed
  | UserIDEmpty | UserIDInvalid | UpdateTimeInvalid | BadUpdatedAtFormat updated_at_error
  | BadCondition condition_error
  | SheetLength | SheetQuote | SheetCharacter
  | OrderByEmpty | OrderByMissing jsstr
  | TableKeyEmpty | TableKeyInvalid | TableKeyNotTransformed | TableKeyAlone | TableKeyNotAllowed
  | BadTransformation transformation_error
  | SaveTypeError

type_synonym expressions_api =
  "expression_to_be_extracted list \<Rightarrow> property list option \<Rightarrow> jsstr + jsstr list"

record save_parts =
  sp_mapping :: "mapping option"
  sp_function :: "transformation_function option"
  sp_in :: "property list option"
  sp_out :: "property list option"

definition not_null :: "'a option \<Rightarrow> save_error + 'a" where
  "not_null x = (case x of None \<Rightarrow> Inl SaveTypeError | Some v \<Rightarrow> Inr v)"

definition wrap_error :: "('e \<Rightarrow> save_error) \<Rightarrow> 'e + 'a \<Rightarrow> save_error + 'a" where
  "wrap_error w r = (case r of Inl e \<Rightarrow> Inl (w e) | Inr v \<Rightarrow> Inr v)"

lemma not_null_eq [result_simps]:
  "not_null x = Inr v \<longleftrightarrow> x = Some v"
  "not_null x = Inl e \<longleftrightarrow> x = None \<and> e = SaveTypeError"
  by (auto simp: not_null_def split: option.splits)

lemma wrap_error_eq [result_simps]:
  "wrap_error w r = Inr v \<longleftrightarrow> r = Inr v"
  by (cases r) (auto simp: wrap_error_def)

subsection \<open>Name and schemas\<close>

definition check_name :: "jsstr \<Rightarrow> save_error + unit" where
  "check_name name =
     res_bind (throw_if (trim name = []) NameEmpty) (\<lambda>_.
     throw_if (length (code_points name) > 60) NameTooLong)"

text \<open>The flattened output schema, once the prefilled values are removed from its entries.\<close>

definition without_prefilled :: "flat_schema \<Rightarrow> flat_schema" where
  "without_prefilled flat = map (\<lambda>(k, tp). (k, tp\<lparr>tp_full := set_p_prefilled (tp_full tp) []\<rparr>)) flat"

definition flat_input :: "transformed_pipeline_type \<Rightarrow> flat_schema option" where
  "flat_input pipelineType = flattenSchema (map_option ObjectType (tpt_inputSchema pipelineType)) False"

definition flat_output :: "transformed_pipeline_type \<Rightarrow> flat_schema option" where
  "flat_output pipelineType =
     map_option without_prefilled (flattenSchema (map_option ObjectType (tpt_outputSchema pipelineType)) False)"

text \<open>\<open>flat[path].full\<close>\<close>

definition full_at :: "flat_schema option \<Rightarrow> jsstr \<Rightarrow> property option" where
  "full_at flat path = Option.bind flat (\<lambda>f. map_option tp_full (obj_get f path))"

definition add_full :: "flat_schema option \<Rightarrow> jsstr \<Rightarrow> bool \<Rightarrow> property list \<Rightarrow> save_error + property list" where
  "add_full flat path isFirstLevel schema =
     res_bind (not_null flat) (\<lambda>f.
     res_bind (not_null (full_at flat path)) (\<lambda>p.
     not_null (addPropertyToSchema path p schema f isFirstLevel)))"

text \<open>\<open>!path.includes('.')\<close>\<close>

definition no_dot :: "jsstr \<Rightarrow> bool" where
  "no_dot path \<longleftrightarrow> ch CHR ''.'' \<notin> set path"

fun add_paths :: "flat_schema option \<Rightarrow> jsstr list \<Rightarrow> property list \<Rightarrow> save_error + property list" where
  "add_paths flat [] schema = Inr schema"
| "add_paths flat (p # ps) schema = res_bind (add_full flat p (no_dot p) schema) (add_paths flat ps)"

definition sort_schema :: "property list \<Rightarrow> property list option \<Rightarrow> save_error + property list" where
  "sort_schema schema original =
     res_bind (not_null original) (\<lambda>ps. not_null (sortPropertiesByOriginalSchema schema ps))"

definition allowsConstantTransformation :: "transformed_connection \<Rightarrow> transformed_pipeline_type \<Rightarrow> bool" where
  "allowsConstantTransformation c pipelineType \<longleftrightarrow>
     (isSource c \<and> isEventBased c \<and> tpt_target pipelineType = TUser)
     \<or> (isDestination c \<and> isApplication c \<and> tpt_target pipelineType = TEvent)"

subsection \<open>The mapping\<close>

text \<open>The loop over the paths: the expressions, the mapping to save and the output schema.\<close>

fun save_mapping_paths ::
  "transformed_pipeline \<Rightarrow> transformed_pipeline_type \<Rightarrow> flat_schema \<Rightarrow>
   expression_to_be_extracted list \<times> mapping \<times> property list \<Rightarrow>
   save_error + expression_to_be_extracted list \<times> mapping \<times> property list" where
  "save_mapping_paths pipeline pipelineType [] st = Inr st"
| "save_mapping_paths pipeline pipelineType ((p, property) # entries) st =
     (if tp_value property = [] then
        (let info = checkMapping p pipeline pipelineType in
         if ti_isRequired info \<and> \<not> ti_isSelected info then Inl (MappingPropertyRequired p)
         else save_mapping_paths pipeline pipelineType entries st)
      else if tp_error property \<noteq> [] then Inl MappingHasErrors
      else
        (case st of (expressions, mappingToSave, schema) \<Rightarrow>
           res_bind (not_null (full_at (flat_output pipelineType) p)) (\<lambda>mapped.
           res_bind (add_full (flat_output pipelineType) p (tp_indentation property = 0) schema) (\<lambda>schema'.
             save_mapping_paths pipeline pipelineType entries
               (expressions @ [\<lparr>ex_value = tp_value property, ex_type = p_type mapped\<rparr>],
                obj_set mappingToSave p (tp_value property), schema')))))"

definition save_mapping ::
  "expressions_api \<Rightarrow> transformed_pipeline \<Rightarrow> transformed_pipeline_type \<Rightarrow> transformed_connection \<Rightarrow> flat_schema \<Rightarrow>
   save_error + save_parts" where
  "save_mapping expressionsProperties pipeline pipelineType c mapping =
     res_bind (save_mapping_paths pipeline pipelineType mapping ([], [], [])) (\<lambda>(expressions, mappingToSave, outputSchema).
     res_bind (wrap_error ApiError (expressionsProperties expressions (tpt_inputSchema pipelineType))) (\<lambda>inputPaths.
     res_bind (throw_if (inputPaths = [] \<and> \<not> allowsConstantTransformation c pipelineType) NoInputProperties) (\<lambda>_.
     res_bind (add_paths (flat_input pipelineType) inputPaths []) (\<lambda>inputSchema.
     res_bind (sort_schema inputSchema (tpt_inputSchema pipelineType)) (\<lambda>inSchema.
     res_bind (sort_schema outputSchema (tpt_outputSchema pipelineType)) (\<lambda>outSchema.
       Inr \<lparr>sp_mapping = (if expressions \<noteq> [] then Some mappingToSave else None), sp_function = None,
            sp_in = Some inSchema, sp_out = Some outSchema\<rparr>))))))"

subsection \<open>The transformation function\<close>

text \<open>The selected paths of which no ancestor is selected.\<close>

definition top_paths :: "jsstr list \<Rightarrow> jsstr list" where
  "top_paths selected = filter (\<lambda>p. \<not> (\<exists>pa \<in> set selected. starts_with p (pa @ js ''.''))) selected"

definition check_output_paths ::
  "transformed_pipeline \<Rightarrow> transformed_pipeline_type \<Rightarrow> jsstr list \<Rightarrow> save_error + unit" where
  "check_output_paths pipeline pipelineType outPaths =
     res_bind (not_null (flat_output pipelineType)) (\<lambda>flat.
     res_bind (traverse (\<lambda>p.
         res_bind (not_null (checkFunctionPath p pipeline pipelineType OutputRole outPaths)) (\<lambda>info.
           throw_if (ti_isRequired info \<and> \<not> ti_isSelected info) (FunctionPropertyRequired p)))
       (obj_keys flat)) (\<lambda>_. Inr ()))"

definition save_function ::
  "transformed_pipeline \<Rightarrow> transformed_pipeline_type \<Rightarrow> transformed_connection \<Rightarrow> bool \<Rightarrow> jsstr list \<Rightarrow> jsstr list \<Rightarrow>
   transformation_function \<Rightarrow> save_error + save_parts" where
  "save_function pipeline pipelineType c trimFunction selectedInPaths selectedOutPaths func =
     (let inPaths = top_paths selectedInPaths; outPaths = top_paths selectedOutPaths in
      res_bind (add_paths (flat_input pipelineType) selectedInPaths []) (\<lambda>inputSchema.
      res_bind (add_paths (flat_output pipelineType) selectedOutPaths []) (\<lambda>outputSchema.
      res_bind (throw_if (inPaths = [] \<and> \<not> allowsConstantTransformation c pipelineType \<or> outPaths = []) NoFunctionPaths) (\<lambda>_.
      res_bind (check_output_paths pipeline pipelineType outPaths) (\<lambda>_.
      res_bind (sort_schema inputSchema (tpt_inputSchema pipelineType)) (\<lambda>inSchema.
      res_bind (sort_schema outputSchema (tpt_outputSchema pipelineType)) (\<lambda>outSchema.
        Inr \<lparr>sp_mapping = None,
             sp_function = Some \<lparr>tf_source = (if trimFunction then trim (tf_source func) else tf_source func),
               tf_language = tf_language func, tf_preserveJSON = tf_preserveJSON func,
               tf_inPaths = inPaths, tf_outPaths = outPaths\<rparr>,
             sp_in = Some inSchema, sp_out = Some outSchema\<rparr>)))))))"

definition save_transformation ::
  "expressions_api \<Rightarrow> transformed_pipeline \<Rightarrow> transformed_pipeline_type \<Rightarrow> transformed_connection \<Rightarrow> bool \<Rightarrow>
   jsstr list \<Rightarrow> jsstr list \<Rightarrow> save_error + save_parts" where
  "save_transformation expressionsProperties pipeline pipelineType c trimFunction selectedInPaths selectedOutPaths =
     res_bind (not_null (pi_transformation pipeline)) (\<lambda>t.
       case (tt_mapping t, tt_function t) of
         (Some mapping, _) \<Rightarrow> save_mapping expressionsProperties pipeline pipelineType c mapping
       | (None, Some func) \<Rightarrow> save_function pipeline pipelineType c trimFunction selectedInPaths selectedOutPaths func
       | (None, None) \<Rightarrow>
           Inr \<lparr>sp_mapping = None, sp_function = None,
                sp_in = (if isDestination c \<and> isFileStorage c \<and> tpt_target pipelineType = TUser
                         then tpt_inputSchema pipelineType else None),
                sp_out = None\<rparr>)"

subsection \<open>Matching\<close>

definition has_path :: "property list option \<Rightarrow> jsstr \<Rightarrow> bool option" where
  "has_path schema path = map_option (\<lambda>ps. obj_get (flatten_object ps) path \<noteq> None) schema"

text \<open>The out matching property to save: the one of the output schema, or the one of the matching schema.\<close>

definition out_matching_property ::
  "transformed_pipeline \<Rightarrow> matching \<Rightarrow> property \<Rightarrow> property option \<Rightarrow> save_error + property" where
  "out_matching_property pipeline m a b =
     (case (case b of
              None \<Rightarrow> None
            | Some b' \<Rightarrow> if propertyTypesAreEqual (p_type a) (p_type b') \<and> p_nullable a = p_nullable b' then Some b' else None) of
        Some b' \<Rightarrow> Inr (set_p_readOptional b' (p_readOptional a))
      | None \<Rightarrow>
          if pi_exportMode pipeline = Some CreateOnly \<or> pi_exportMode pipeline = Some CreateOrUpdate
            then Inl (MatchingReadOnly (m_out m))
          else if \<not> matchingSemanticsAreCompatibleWithDestination (p_type a) b (pi_exportMode pipeline)
            then Inl (MatchingDiffers (m_out m))
          else Inr a)"

definition save_matching ::
  "transformed_pipeline \<Rightarrow> transformed_pipeline_type \<Rightarrow> save_parts \<Rightarrow> save_error + save_parts" where
  "save_matching pipeline pipelineType parts =
     (case pi_matching pipeline of
        None \<Rightarrow> Inr parts
      | Some m \<Rightarrow>
          res_bind (throw_if (m_in m = [] \<or> m_out m = []) MatchingEmpty) (\<lambda>_.
          res_bind (not_null (flattenSchema (map_option ObjectType (tpt_inputMatchingSchema pipelineType)) False)) (\<lambda>flatIn.
          res_bind (case obj_get flatIn (m_in m) of None \<Rightarrow> Inl (InMatchingMissing (m_in m)) | Some p \<Rightarrow> Inr p) (\<lambda>inMatching.
          res_bind (not_null (flattenSchema (map_option ObjectType (tpt_outputMatchingSchema pipelineType)) False)) (\<lambda>flatOut.
          res_bind (case obj_get flatOut (m_out m) of None \<Rightarrow> Inl (OutMatchingMissing (m_out m)) | Some p \<Rightarrow> Inr p) (\<lambda>outMatching.
          res_bind (wrap_error BadMatching (validateMatching (tp_full inMatching) (tp_full outMatching))) (\<lambda>_.
          res_bind (not_null (sp_in parts)) (\<lambda>inSchema.
          res_bind (not_null (has_path (sp_in parts) (m_in m))) (\<lambda>inserted.
          res_bind (if inserted then Inr inSchema
                    else res_bind (not_null (flat_input pipelineType)) (\<lambda>fullIn.
                      not_null (addPropertyToSchema (m_in m) (tp_full inMatching) inSchema fullIn (tp_indentation inMatching = 0)))) (\<lambda>inSchema'.
          res_bind (not_null (flat_output pipelineType)) (\<lambda>fullOut.
          res_bind (out_matching_property pipeline m (tp_full outMatching) (full_at (Some fullOut) (m_out m))) (\<lambda>p.
          res_bind (not_null (sp_out parts)) (\<lambda>outSchema.
          res_bind (not_null (has_path (sp_out parts) (m_out m))) (\<lambda>used.
          res_bind (throw_if used MatchingTransformed) (\<lambda>_.
          res_bind (not_null (addPropertyToSchema (m_out m) p outSchema fullOut (tp_indentation outMatching = 0))) (\<lambda>outSchema'.
            Inr (parts\<lparr>sp_in := Some inSchema', sp_out := Some outSchema'\<rparr>)))))))))))))))))"

subsection \<open>User identifier and update time\<close>

text \<open>The property of a first-level name, pushed unless there is one; \<open>e\<close> when the input schema lacks it.\<close>

definition push_column :: "flat_schema option \<Rightarrow> save_error \<Rightarrow> jsstr \<Rightarrow> property list \<Rightarrow> save_error + property list" where
  "push_column flat e column schema =
     (if \<exists>p \<in> set schema. p_name p = column then Inr schema
      else res_bind (not_null flat) (\<lambda>f.
        case obj_get f column of None \<Rightarrow> Inl e | Some tp \<Rightarrow> Inr (schema @ [tp_full tp])))"

definition check_updated_at_format :: "transformed_pipeline \<Rightarrow> transformed_pipeline_type \<Rightarrow> save_error + unit" where
  "check_updated_at_format pipeline pipelineType =
     res_bind (not_null (doesUpdatedAtColumnNeedFormat (pi_updatedAtColumn pipeline) (tpt_inputSchema pipelineType))) (\<lambda>needs.
       if needs \<and> pi_updatedAtFormat pipeline \<noteq> Some (js ''ISO8601'') \<and> pi_updatedAtFormat pipeline \<noteq> Some (js ''Excel'')
       then res_bind (not_null (pi_updatedAtFormat pipeline)) (\<lambda>f. wrap_error BadUpdatedAtFormat (validateCustomUpdatedAtFormat f))
       else Inr ())"

definition save_identity ::
  "transformed_pipeline \<Rightarrow> transformed_pipeline_type \<Rightarrow> transformed_connection \<Rightarrow> save_parts \<Rightarrow> save_error + save_parts" where
  "save_identity pipeline pipelineType c parts =
     (if \<not> (isSource c \<and> (isDatabase c \<or> isFileStorage c)) then Inr parts
      else
        (case pi_userIDColumn pipeline of
           None \<Rightarrow> Inl UserIDEmpty
         | Some userIDColumn \<Rightarrow>
             res_bind (throw_if (userIDColumn = []) UserIDEmpty) (\<lambda>_.
             res_bind (not_null (sp_in parts)) (\<lambda>inSchema.
             res_bind (push_column (flat_input pipelineType) UserIDInvalid userIDColumn inSchema) (\<lambda>inSchema1.
             res_bind
               (case pi_updatedAtColumn pipeline of
                  None \<Rightarrow> Inr inSchema1
                | Some column \<Rightarrow>
                    if column = [] then Inr inSchema1
                    else
                      res_bind (push_column (flat_input pipelineType) UpdateTimeInvalid column inSchema1) (\<lambda>inSchema2.
                      res_bind (check_updated_at_format pipeline pipelineType) (\<lambda>_. Inr inSchema2))) (\<lambda>inSchema3.
             Inr (parts\<lparr>sp_in := Some inSchema3\<rparr>)))))))"

subsection \<open>Filter\<close>

definition hidden_paths :: "transformed_connection \<Rightarrow> transformed_pipeline_type \<Rightarrow> jsstr list" where
  "hidden_paths c pipelineType =
     (let target = tpt_target pipelineType;
          isEventImport = (isSource c \<and> target = TEvent);
          isEventBasedUserImport = (isEventBased c \<and> isSource c \<and> target = TUser);
          isAppEventsExport = (isApplication c \<and> isDestination c \<and> target = TEvent)
      in if isEventBasedUserImport \<or> isAppEventsExport \<or> isEventImport then [js ''kpid''] else [])"

definition save_condition ::
  "transformed_pipeline_type \<Rightarrow> jsstr list \<Rightarrow> filter_condition \<Rightarrow> property list \<Rightarrow> save_error + filter_condition \<times> property list" where
  "save_condition pipelineType hidden condition inSchema =
     (let propertyName = c_property condition; (base, path) = splitPropertyAndPath propertyName (flat_input pipelineType) in
      res_bind (not_null (flat_input pipelineType)) (\<lambda>flat.
      res_bind (wrap_error BadCondition
        (validateAndNormalizeFilterCondition condition (obj_get flat base) path propertyName hidden)) (\<lambda>normalized.
      res_bind (not_null (obj_get flat base)) (\<lambda>property.
      res_bind (not_null (addPropertyToSchema base (tp_full property) inSchema flat (tp_indentation property = 0))) (\<lambda>inSchema'.
        Inr (normalized, inSchema'))))))"

definition save_filter ::
  "transformed_pipeline \<Rightarrow> transformed_pipeline_type \<Rightarrow> transformed_connection \<Rightarrow> property list option \<Rightarrow>
   save_error + filter_tree option \<times> property list option" where
  "save_filter pipeline pipelineType c inSchema =
     (case pi_filter pipeline of
        None \<Rightarrow> Inr (None, inSchema)
      | Some f \<Rightarrow>
          let inSchema1 = (case inSchema of None \<Rightarrow> [] | Some ps \<Rightarrow> ps) in
          (case omitEmptyFilterRules f of
             None \<Rightarrow> Inr (None, Some inSchema1)
           | Some (op, rules) \<Rightarrow>
               res_bind (map_rules_res (save_condition pipelineType (hidden_paths c pipelineType)) rules inSchema1)
                 (\<lambda>(rules', inSchema2). Inr (Some (op, rules'), Some inSchema2))))"

subsection \<open>Consents, sheet, ordering\<close>

text \<open>\<open>Array.from(new Set(xs))\<close>: the first occurrence of each element.\<close>

definition set_values :: "'a list \<Rightarrow> 'a list" where
  "set_values xs = rev (remdups (rev xs))"

definition save_consents :: "required_consents option \<Rightarrow> required_consents option" where
  "save_consents requiredConsents =
     (case requiredConsents of
        None \<Rightarrow> None
      | Some rc \<Rightarrow>
          let purposes = set_values (rc_purposes rc) in
          if purposes = [] then None else Some \<lparr>rc_operator = rc_operator rc, rc_purposes = purposes\<rparr>)"

definition check_sheet :: "jsstr option \<Rightarrow> save_error + unit" where
  "check_sheet sheet =
     (case sheet of
        None \<Rightarrow> Inr ()
      | Some s \<Rightarrow>
          res_bind (throw_if (length s < 1 \<or> length s > 31) SheetLength) (\<lambda>_.
          res_bind (throw_if (starts_with s [ch CHR 0x27] \<or> ends_with s [ch CHR 0x27]) SheetQuote) (\<lambda>_.
          throw_if (\<exists>x \<in> set s. x \<in> set (js ''*/:?[]'') \<or> x = ch CHR 0x5C) SheetCharacter)))"

definition check_order_by :: "transformed_pipeline \<Rightarrow> transformed_pipeline_type \<Rightarrow> save_error + unit" where
  "check_order_by pipeline pipelineType =
     (case pi_orderBy pipeline of
        None \<Rightarrow> Inr ()
      | Some p \<Rightarrow>
          if p = [] then Inl OrderByEmpty
          else (case filterOrderingPropertySchema (tpt_inputSchema pipelineType) of
                  None \<Rightarrow> Inr ()
                | Some filtered \<Rightarrow> throw_if (obj_get filtered p = None) (OrderByMissing p)))"

subsection \<open>Table key\<close>

definition check_key_transformed :: "jsstr \<Rightarrow> jsstr list \<Rightarrow> save_error + unit" where
  "check_key_transformed key paths =
     res_bind (throw_if (key \<notin> set paths) TableKeyNotTransformed) (\<lambda>_.
     throw_if (length paths = 1) TableKeyAlone)"

text \<open>The first property with the name of the key becomes create required, not update required, not nullable.\<close>

fun require_key :: "jsstr \<Rightarrow> property list \<Rightarrow> property list" where
  "require_key key [] = []"
| "require_key key (p # ps) = (if p_name p = key then set_p_required_key p # ps else p # require_key key ps)"

definition save_table_key ::
  "transformed_pipeline \<Rightarrow> transformed_pipeline_type \<Rightarrow> transformed_connection \<Rightarrow> save_parts \<Rightarrow> save_error + save_parts" where
  "save_table_key pipeline pipelineType c parts =
     (if cn_type c = CDatabase \<and> cn_role c = Destination \<and> tpt_target pipelineType = TUser then
        (case pi_tableKey pipeline of
           None \<Rightarrow> Inl TableKeyEmpty
         | Some key \<Rightarrow>
             res_bind (throw_if (key = []) TableKeyEmpty) (\<lambda>_.
             res_bind (not_null (flat_output pipelineType)) (\<lambda>flat.
             res_bind (throw_if (obj_get flat key = None) TableKeyInvalid) (\<lambda>_.
             res_bind (case (sp_mapping parts, sp_function parts) of
                 (None, None) \<Rightarrow> Inl TableKeyNotTransformed
               | (Some mapping, _) \<Rightarrow> check_key_transformed key (obj_keys mapping)
               | (None, Some func) \<Rightarrow> check_key_transformed key (tf_outPaths func)) (\<lambda>_.
             res_bind (not_null (sp_out parts)) (\<lambda>outSchema.
               Inr (parts\<lparr>sp_out := Some (require_key key outSchema)\<rparr>)))))))
      else
        (case pi_tableKey pipeline of
           None \<Rightarrow> Inr parts
         | Some key \<Rightarrow> res_bind (throw_if (key \<noteq> []) TableKeyNotAllowed) (\<lambda>_. Inr parts)))"

subsection \<open>The pipeline to set\<close>

definition non_empty :: "property list option \<Rightarrow> property list option" where
  "non_empty schema = (case schema of None \<Rightarrow> None | Some ps \<Rightarrow> if ps = [] then None else Some ps)"

text \<open>The input schema refers to events: it is \<open>null\<close>.\<close>

definition refers_to_events :: "transformed_connection \<Rightarrow> transformed_pipeline_type \<Rightarrow> bool" where
  "refers_to_events c pipelineType \<longleftrightarrow>
     (isSource c \<and> isEventBased c \<and> tpt_target pipelineType = TEvent)
     \<or> (isDestination c \<and> cn_type c = CApplication \<and> tpt_target pipelineType = TEvent)
     \<or> (isSource c \<and> isEventBased c \<and> tpt_target pipelineType = TUser)"

definition save_incremental :: "transformed_pipeline \<Rightarrow> transformed_connection \<Rightarrow> bool option" where
  "save_incremental pipeline c =
     (if isSource c \<and> (isDatabase c \<or> isFileStorage c) \<and> pi_updatedAtColumn pipeline = Some [] then Some False
      else pi_incremental pipeline)"

definition save_updateOnDuplicates :: "transformed_pipeline \<Rightarrow> save_error + bool option" where
  "save_updateOnDuplicates pipeline =
     (case pi_updateOnDuplicates pipeline of
        None \<Rightarrow> Inr None
      | Some b \<Rightarrow> res_bind (not_null (pi_exportMode pipeline)) (\<lambda>mode. Inr (Some (b \<and> includes_update mode))))"

definition assemble ::
  "transformed_pipeline \<Rightarrow> transformed_connection \<Rightarrow> 's option \<Rightarrow> save_parts \<Rightarrow> filter_tree option \<Rightarrow>
   property list option \<Rightarrow> bool option \<Rightarrow> 's pipeline_to_set" where
  "assemble pipeline c formatSettings parts filters inSchema updateOnDuplicates =
     \<lparr>ps_name = pi_name pipeline, ps_enabled = pi_enabled pipeline, ps_filter = filters,
      ps_requiredConsents = save_consents (pi_requiredConsents pipeline),
      ps_inSchema = non_empty inSchema, ps_outSchema = non_empty (sp_out parts),
      ps_transformation =
        (if sp_mapping parts = None \<and> sp_function parts = None then None
         else Some \<lparr>tr_mapping = sp_mapping parts, tr_function = sp_function parts\<rparr>),
      ps_query = map_option trim (pi_query pipeline), ps_path = pi_path pipeline,
      ps_tableName = pi_tableName pipeline, ps_tableKey = pi_tableKey pipeline, ps_sheet = pi_sheet pipeline,
      ps_userIDColumn = pi_userIDColumn pipeline, ps_updatedAtColumn = pi_updatedAtColumn pipeline,
      ps_updatedAtFormat = pi_updatedAtFormat pipeline, ps_incremental = save_incremental pipeline c,
      ps_compression = pi_compression pipeline, ps_orderBy = pi_orderBy pipeline, ps_format = pi_format pipeline,
      ps_formatSettings = formatSettings, ps_matching = pi_matching pipeline,
      ps_updateOnDuplicates = updateOnDuplicates, ps_exportMode = pi_exportMode pipeline\<rparr>"

definition transformInPipelineToSet ::
  "expressions_api \<Rightarrow> transformed_pipeline \<Rightarrow> 's option \<Rightarrow> transformed_pipeline_type \<Rightarrow> transformed_connection \<Rightarrow> bool \<Rightarrow>
   jsstr list \<Rightarrow> jsstr list \<Rightarrow> save_error + 's pipeline_to_set" where
  "transformInPipelineToSet expressionsProperties pipeline formatSettings pipelineType c trimFunction selectedInPaths selectedOutPaths =
     res_bind (check_name (pi_name pipeline)) (\<lambda>_.
     res_bind (save_transformation expressionsProperties pipeline pipelineType c trimFunction selectedInPaths selectedOutPaths) (\<lambda>parts1.
     res_bind (save_matching pipeline pipelineType parts1) (\<lambda>parts2.
     res_bind (save_identity pipeline pipelineType c parts2) (\<lambda>parts3.
     res_bind (save_filter pipeline pipelineType c (sp_in parts3)) (\<lambda>(filters, inSchema).
     res_bind (check_sheet (pi_sheet pipeline)) (\<lambda>_.
     res_bind (check_order_by pipeline pipelineType) (\<lambda>_.
     res_bind (save_table_key pipeline pipelineType c parts3) (\<lambda>parts4.
     res_bind (save_updateOnDuplicates pipeline) (\<lambda>updateOnDuplicates.
     let pipelineToSet = assemble pipeline c formatSettings parts4 filters
           (if refers_to_events c pipelineType then None else inSchema) updateOnDuplicates in
     res_bind (wrap_error BadTransformation (validateTransformation c pipelineType pipelineToSet)) (\<lambda>_.
       Inr pipelineToSet))))))))))"

end
