(* ===== verification/Saved_Schemas.thy ===== *)
theory Saved_Schemas
  imports Pipeline_Save
begin

section \<open>The schemas of a saved pipeline\<close>

text \<open>
  What the blocks of \<open>transformInPipelineToSet\<close> that build schemas produce: exactly the part of the
  schemas of the pipeline type that the mapping or the function uses, in the order of those schemas.
\<close>

text \<open>A path is linked to another when one extends the other.\<close>

definition linked :: "jsstr list \<Rightarrow> jsstr list \<Rightarrow> bool" where
  "linked ms ns \<longleftrightarrow> (\<exists>r. ns = ms @ r) \<or> (\<exists>r. ms = ns @ r)"

lemma linked_relative:
  assumes "no_dots ms" "ms \<noteq> []" "no_dots ns" "ns \<noteq> []"
  shows "linked ms ns \<longleftrightarrow> path_of ms = path_of ns \<or> relative (path_of ms) (path_of ns)"
proof -
  have "relative (path_of ms) (path_of ns) \<longleftrightarrow> (\<exists>r. r \<noteq> [] \<and> ns = ms @ r) \<or> (\<exists>r. r \<noteq> [] \<and> ms = ns @ r)"
    using path_prefix [of ms ns] path_prefix [of ns ms] assms by (auto simp: relative_def above_def)
  moreover have "path_of ms = path_of ns \<longleftrightarrow> ms = ns" using path_of_inj assms by blast
  ultimately show ?thesis unfolding linked_def by (metis append_Nil2)
qed

lemma segments_nd [simp]: "path_of (segments p) = p" "segments p \<noteq> []"
  by simp_all

text \<open>A part of the full schema: its paths are those linked to one of \<open>ps\<close>.\<close>

definition schema_part :: "property list \<Rightarrow> jsstr set \<Rightarrow> property list \<Rightarrow> bool" where
  "schema_part full ps schema \<longleftrightarrow> wf_properties schema \<and> sub_schema schema full \<and>
     (\<forall>ms. lookup_path schema ms \<noteq> None \<longleftrightarrow> lookup_path full ms \<noteq> None \<and> (\<exists>p \<in> ps. linked ms (segments p)))"

lemma schema_part_empty: "schema_part full {} []"
  by (simp add: schema_part_def sub_schema_def)

lemma on_path_linked:
  assumes "wf_properties full" "lookup_path full ns = Some f" "sub_properties q = sub_properties f"
  shows "on_path ns q ms \<longleftrightarrow> lookup_path full ms \<noteq> None \<and> linked ms ns"
proof
  assume "on_path ns q ms"
  then have ms: "ms \<noteq> []" and "(\<exists>r. ns = ms @ r) \<or> (\<exists>r. ms = ns @ r \<and> lookup_path (sub_properties q) r \<noteq> None)"
    by (auto simp: on_path_def)
  then consider r where "ns = ms @ r" | r where "ms = ns @ r" "lookup_path (sub_properties q) r \<noteq> None" by blast
  then show "lookup_path full ms \<noteq> None \<and> linked ms ns"
  proof cases
    case 1
    with assms ms show ?thesis using lookup_path_prefix [of full ms r] by (auto simp: linked_def)
  next
    case 2
    then have "r \<noteq> []" by auto
    with 2 assms show ?thesis using lookup_path_below [OF assms(2) _ assms(1), of r] by (auto simp: linked_def)
  qed
next
  assume a: "lookup_path full ms \<noteq> None \<and> linked ms ns"
  then have ms: "ms \<noteq> []" by (cases ms) auto
  from a consider r where "ns = ms @ r" | r where "ms = ns @ r" "r \<noteq> []" unfolding linked_def by (metis append_Nil2)
  then show "on_path ns q ms"
  proof cases
    case 2
    with a assms show ?thesis using lookup_path_below [OF assms(2) 2(2) assms(1)] ms by (auto simp: on_path_def)
  qed (use ms in \<open>auto simp: on_path_def\<close>)
qed

lemma wf_sub_schema_refl: "sub_schema ps ps"
  by (simp add: sub_schema_def)

lemma no_dot_segments: "no_dot p \<longleftrightarrow> length (segments p) = 1"
proof
  assume "no_dot p"
  then show "length (segments p) = 1" by (simp add: no_dot_def split_on_no_sep)
next
  assume "length (segments p) = 1"
  then obtain w where w: "segments p = [w]" by (metis One_nat_def length_0_conv length_Suc_conv)
  then have "p = w" using segments_nd(1) [of p] by simp
  moreover have "46 \<notin> set w" using split_on_pieces [of w 46 p] w by simp
  ultimately show "no_dot p" by (simp add: no_dot_def)
qed

text \<open>Adding a path that is there, or linked to none of those there.\<close>

lemma add_full_step:
  assumes wf: "wf_properties full" and g: "keeps_shape g" and part: "schema_part full ps schema"
    and path: "lookup_path full (segments p) \<noteq> None"
    and free: "p \<in> ps \<or> (\<forall>x \<in> ps. \<not> relative p x)"
  shows "\<exists>schema'. add_full (Some (flat_view g full)) p (no_dot p) schema = Inr schema' \<and> schema_part full (insert p ps) schema'"
proof -
  let ?ns = "segments p"
  obtain f where f: "lookup_path full ?ns = Some f" using path by blast
  have full: "full_at (Some (flat_view g full)) p = Some (g f)"
    using obj_get_flatten_object [OF wf, of ?ns] f
    by (simp add: full_at_def obj_get_flat_view flattenProperty_def)
  have q: "p_name (g f) = last ?ns" "sub_properties (g f) = sub_properties f" "kind_of (p_type (g f)) = kind_of (p_type f)"
    using lookup_path_name [OF f] keeps_shapeD [OF g] by (simp_all add: sub_properties_def)
  have wf_schema: "wf_properties schema" "sub_schema schema full" using part by (simp_all add: schema_part_def)
  have ok: "add_full (Some (flat_view g full)) p (no_dot p) schema = not_null (addPropertyToSchema (path_of ?ns) (g f) schema (flat_view g full) (length ?ns = 1))"
    by (simp add: add_full_def full not_null_def no_dot_segments del: One_nat_def)
  show ?thesis
  proof (cases "p \<in> ps")
    case True
    then have there: "lookup_path schema ?ns \<noteq> None" using part path by (auto simp: schema_part_def linked_def)
    have "addPropertyToSchema (path_of ?ns) (g f) schema (flat_view g full) (length ?ns = 1) = Some schema"
      by (rule addPropertyToSchema_present [OF wf_schema(1) there q(1)])
    with True part show ?thesis by (simp add: ok not_null_def insert_absorb del: One_nat_def)
  next
    case False
    have new: "lookup_path schema ?ns = None"
    proof (rule ccontr)
      assume "lookup_path schema ?ns \<noteq> None"
      then obtain x where x: "x \<in> ps" "linked ?ns (segments x)" using part by (auto simp: schema_part_def)
      then have "p = x \<or> relative p x" using linked_relative [of ?ns "segments x"] by simp
      with x False free show False by auto
    qed
    have "wf_properties (sub_properties (g f))" using wf_lookup [OF f wf] q(2) by simp
    from addPropertyToSchema_spec [OF wf_schema(1) wf wf_schema(2) path new q(1) this g]
    obtain schema' where s: "addPropertyToSchema (path_of ?ns) (g f) schema (flat_view g full) (length ?ns = 1) = Some schema'"
      "wf_properties schema'" "\<And>ms. lookup_path schema' ms \<noteq> None \<longleftrightarrow> lookup_path schema ms \<noteq> None \<or> on_path ?ns (g f) ms"
      by blast
    have "sub_schema schema' full"
      by (rule addPropertyToSchema_sub [OF wf_schema(1) wf wf_schema(2) f new q(1,3) _ g s(1)])
        (simp add: q(2) wf_sub_schema_refl)
    moreover have "lookup_path schema' ms \<noteq> None \<longleftrightarrow>
        lookup_path full ms \<noteq> None \<and> (\<exists>x \<in> insert p ps. linked ms (segments x))" for ms
      using s(3) [of ms] part on_path_linked [OF wf f q(2), of ms] by (auto simp: schema_part_def)
    ultimately have "schema_part full (insert p ps) schema'" using s(2) unfolding schema_part_def by blast
    then show ?thesis unfolding ok s(1) by (simp add: not_null_def)
  qed
qed

text \<open>A list of paths none of which is above another.\<close>

definition antichain :: "jsstr set \<Rightarrow> bool" where
  "antichain ps \<longleftrightarrow> (\<forall>p \<in> ps. \<forall>q \<in> ps. \<not> above p q)"

lemma antichain_relative: "antichain ps \<Longrightarrow> p \<in> ps \<Longrightarrow> q \<in> ps \<Longrightarrow> \<not> relative p q"
  by (auto simp: antichain_def relative_def)

lemma add_paths_part:
  assumes wf: "wf_properties full" and g: "keeps_shape g"
  shows "schema_part full done_paths schema \<Longrightarrow> antichain (set paths \<union> done_paths) \<Longrightarrow>
    \<forall>p \<in> set paths. lookup_path full (segments p) \<noteq> None \<Longrightarrow>
    \<exists>schema'. add_paths (Some (flat_view g full)) paths schema = Inr schema' \<and> schema_part full (set paths \<union> done_paths) schema'"
proof (induction paths arbitrary: done_paths schema)
  case (Cons p paths)
  have free: "p \<in> done_paths \<or> (\<forall>x \<in> done_paths. \<not> relative p x)"
    using antichain_relative [OF Cons.prems(2)] by auto
  have path: "lookup_path full (segments p) \<noteq> None" using Cons.prems(3) by simp
  obtain schema1 where s1: "add_full (Some (flat_view g full)) p (no_dot p) schema = Inr schema1"
    "schema_part full (insert p done_paths) schema1"
    using add_full_step [OF wf g Cons.prems(1) path free] by blast
  have "set paths \<union> insert p done_paths = set (p # paths) \<union> done_paths" by auto
  with Cons.IH [OF s1(2)] Cons.prems(2,3) s1(1) show ?case by auto
qed simp

text \<open>The paths of a part, once sorted.\<close>

definition linked_paths :: "property list \<Rightarrow> jsstr set \<Rightarrow> jsstr list" where
  "linked_paths full ps = filter (\<lambda>k. \<exists>p \<in> ps. k = p \<or> relative k p) (tree_paths [] full)"

lemma tree_paths_segments: "wf_properties ps \<Longrightarrow> k \<in> set (tree_paths [] ps) \<longleftrightarrow> lookup_path ps (segments k) \<noteq> None"
  using tree_paths_iff [of "[]" ps "segments k"] by simp

lemma sort_part:
  assumes wf: "wf_properties full" and part: "schema_part full ps schema"
  shows "\<exists>r. sort_schema schema (Some full) = Inr r \<and> tree_paths [] r = linked_paths full ps"
proof -
  have s: "wf_properties schema" "sub_schema schema full" using part by (simp_all add: schema_part_def)
  obtain r where r: "sortPropertiesByOriginalSchema schema full = Some r"
    "tree_paths [] r = filter (\<lambda>k. k \<in> set (tree_paths [] schema)) (tree_paths [] full)"
    using sort_tree_paths [OF s(1) wf s(2)] by (metis no_dots_simps(1))
  have "k \<in> set (tree_paths [] schema) \<longleftrightarrow> (\<exists>p \<in> ps. k = p \<or> relative k p)" if k: "k \<in> set (tree_paths [] full)" for k
  proof -
    have "k \<in> set (tree_paths [] schema) \<longleftrightarrow> (\<exists>p \<in> ps. linked (segments k) (segments p))"
      using tree_paths_segments [OF s(1), of k] tree_paths_segments [OF wf, of k] k part by (simp add: schema_part_def)
    also have "\<dots> \<longleftrightarrow> (\<exists>p \<in> ps. k = p \<or> relative k p)"
      using linked_relative [of "segments k"] by simp
    finally show ?thesis .
  qed
  then have "tree_paths [] r = linked_paths full ps" unfolding r(2) linked_paths_def by (rule filter_cong [OF refl])
  with r(1) show ?thesis by (simp add: sort_schema_def not_null_def)
qed

lemma flat_input_view: "tpt_inputSchema t = Some ps \<Longrightarrow> flat_input t = Some (flat_view id ps)"
  by (simp add: flat_input_def flattenSchema_object)

definition drop_prefilled :: "property \<Rightarrow> property" where
  "drop_prefilled p = set_p_prefilled p []"

lemma keeps_shape_drop [simp]: "keeps_shape drop_prefilled"
  by (simp add: keeps_shape_def drop_prefilled_def)

lemma flat_output_view: "tpt_outputSchema t = Some ps \<Longrightarrow> flat_output t = Some (flat_view drop_prefilled ps)"
  by (simp add: flat_output_def flattenSchema_object without_prefilled_def flat_view_def drop_prefilled_def)

subsection \<open>The mapping\<close>

definition filled_entries :: "flat_schema \<Rightarrow> mapping" where
  "filled_entries m = map (\<lambda>(k, tp). (k, tp_value tp)) (filter (\<lambda>(k, tp). tp_value tp \<noteq> []) m)"

definition filled_paths :: "flat_schema \<Rightarrow> jsstr set" where
  "filled_paths m = fst ` set (filled_entries m)"

lemma filled_entries_simps [simp]:
  "filled_entries [] = []"
  "filled_entries ((k, tp) # m) = (if tp_value tp \<noteq> [] then [(k, tp_value tp)] else []) @ filled_entries m"
  by (simp_all add: filled_entries_def)

lemma filled_paths_simps [simp]:
  "filled_paths [] = {}"
  "filled_paths ((k, tp) # m) = (if tp_value tp \<noteq> [] then insert k (filled_paths m) else filled_paths m)"
  by (auto simp: filled_paths_def)

lemma filled_paths_keys: "filled_paths m \<subseteq> set (obj_keys m)"
  by (induction m) (auto split: if_splits)

lemma filled_paths_iff: "distinct (obj_keys m) \<Longrightarrow> k \<in> filled_paths m \<longleftrightarrow> k \<in> set (obj_keys m) \<and> filled_at m k"
proof (induction m)
  case (Cons e m)
  obtain a tp where e: "e = (a, tp)" by (cases e)
  have "filled_at m a = False" using Cons.prems by (auto simp: e filled_at_def tp_value_at_def in_obj_keys)
  moreover have "filled_at (e # m) k = (if k = a then tp_value tp \<noteq> [] else filled_at m k)"
    by (simp add: e filled_at_def tp_value_at_def)
  ultimately show ?case using Cons filled_paths_keys [of m] by (auto simp: e)
qed simp

text \<open>The loop over the paths succeeds with the filled entries, when it succeeds at all.\<close>

lemma save_mapping_paths_spec:
  assumes wf: "wf_properties full" and out: "tpt_outputSchema pipelineType = Some full"
  shows "save_mapping_paths pipeline pipelineType entries (expressions, saved, schema) = Inr (es, sv, sch) \<Longrightarrow>
    schema_part full ps schema \<Longrightarrow> antichain (filled_paths entries \<union> ps) \<Longrightarrow>
    \<forall>(k, tp) \<in> set entries. lookup_path full (segments k) \<noteq> None \<and> (tp_indentation tp = 0 \<longleftrightarrow> no_dot k) \<Longrightarrow>
    distinct (obj_keys saved @ obj_keys entries) \<Longrightarrow>
    sv = saved @ filled_entries entries \<and> schema_part full (filled_paths entries \<union> ps) sch
    \<and> length es = length expressions + length (filled_entries entries)
    \<and> (\<forall>(k, tp) \<in> set entries. if tp_value tp = [] then ti_isRequired (checkMapping k pipeline pipelineType) \<longrightarrow> ti_isSelected (checkMapping k pipeline pipelineType)
         else tp_error tp = [])"
proof (induction entries arbitrary: expressions saved schema ps)
  case (Cons e entries)
  obtain p tp where e: "e = (p, tp)" by (cases e)
  note prems = Cons.prems [unfolded e]
  show ?case
  proof (cases "tp_value tp = []")
    case True
    with prems(1) have ok: "ti_isRequired (checkMapping p pipeline pipelineType) \<longrightarrow> ti_isSelected (checkMapping p pipeline pipelineType)"
      and rest: "save_mapping_paths pipeline pipelineType entries (expressions, saved, schema) = Inr (es, sv, sch)"
      by (auto simp: Let_def split: if_splits)
    from Cons.IH [OF rest prems(2)] prems(3-) True ok show ?thesis by (simp add: e)
  next
    case False
    have view: "flat_output pipelineType = Some (flat_view drop_prefilled full)" by (rule flat_output_view [OF out])
    have p: "lookup_path full (segments p) \<noteq> None" "(tp_indentation tp = 0) = no_dot p" using prems(4) by auto
    have "p \<in> ps \<or> (\<forall>x \<in> ps. \<not> relative p x)" using antichain_relative [OF prems(3)] False by auto
    from add_full_step [OF wf keeps_shape_drop prems(2) p(1) this] obtain schema1 where
      s1: "add_full (Some (flat_view drop_prefilled full)) p (no_dot p) schema = Inr schema1"
      "schema_part full (insert p ps) schema1" by blast
    have new: "obj_set saved p (tp_value tp) = saved @ [(p, tp_value tp)]" using prems(5) by (intro obj_set_new) auto
    from prems(1) False s1(1) obtain x where err: "tp_error tp = []"
      and rest: "save_mapping_paths pipeline pipelineType entries (expressions @ [x], saved @ [(p, tp_value tp)], schema1) = Inr (es, sv, sch)"
      by (auto simp: view p(2) new result_simps split: if_splits)
    have u: "filled_paths entries \<union> insert p ps = filled_paths ((p, tp) # entries) \<union> ps" using False by auto
    from Cons.IH [OF rest s1(2)] prems(3-) False err show ?thesis unfolding e u by simp
  qed
qed simp

lemma save_mapping_spec:
  assumes wf: "wf_properties out" and out: "tpt_outputSchema pipelineType = Some out"
    and m: "wf_mapping m" "obj_keys m = obj_keys (flatten_object out)" "antichain (filled_paths m)"
    and save: "save_mapping api pipeline pipelineType c m = Inr parts"
  shows "(\<exists>o1. sp_out parts = Some o1 \<and> tree_paths [] o1 = linked_paths out (filled_paths m))
    \<and> sp_mapping parts = (if filled_entries m = [] then None else Some (filled_entries m)) \<and> sp_function parts = None
    \<and> (\<forall>k \<in> set (obj_keys m). if filled_at m k then True
         else ti_isRequired (checkMapping k pipeline pipelineType) \<longrightarrow> ti_isSelected (checkMapping k pipeline pipelineType))"
proof -
  obtain es sv sch where loop: "save_mapping_paths pipeline pipelineType m ([], [], []) = Inr (es, sv, sch)"
    and o1: "\<And>r. sort_schema sch (tpt_outputSchema pipelineType) = Inr r \<Longrightarrow> sp_out parts = Some r"
    and parts: "\<exists>r. sort_schema sch (tpt_outputSchema pipelineType) = Inr r"
      "sp_mapping parts = (if es \<noteq> [] then Some sv else None)" "sp_function parts = None"
    using save by (auto simp: save_mapping_def res_bind_eq_Inr)
  have keys: "lookup_path out (segments k) \<noteq> None \<and> (tp_indentation tp = 0 \<longleftrightarrow> no_dot k)" if k: "(k, tp) \<in> set m" for k tp
  proof -
    have get: "obj_get m k = Some tp" using m(1) k by (intro obj_get_in_set) (simp_all add: wf_mapping_def)
    then have "k \<in> set (obj_keys (flatten_object out))" using m(2) in_obj_keys [of k m] by simp
    then have "lookup_path out (segments k) \<noteq> None"
      using obj_get_flatten_object [OF wf, of "segments k"] by (auto simp: in_obj_keys)
    moreover have "tp_indentation tp = count_list k 46" using m(1) get by (simp add: wf_mapping_def)
    ultimately show ?thesis by (simp add: no_dot_def count_list_0_iff)
  qed
  have "distinct (obj_keys [] @ obj_keys m)" using m(1) by (simp add: wf_mapping_def)
  from save_mapping_paths_spec [OF wf out loop schema_part_empty _ _ this] m(3) keys
  have s: "sv = filled_entries m" "schema_part out (filled_paths m) sch" "length es = length (filled_entries m)"
    "\<And>k tp. (k, tp) \<in> set m \<Longrightarrow> tp_value tp = [] \<Longrightarrow> ti_isRequired (checkMapping k pipeline pipelineType) \<longrightarrow> ti_isSelected (checkMapping k pipeline pipelineType)"
    by fastforce+
  obtain r where r: "sort_schema sch (Some out) = Inr r" "tree_paths [] r = linked_paths out (filled_paths m)"
    using sort_part [OF wf s(2)] by blast
  have "ti_isRequired (checkMapping k pipeline pipelineType) \<longrightarrow> ti_isSelected (checkMapping k pipeline pipelineType)"
    if k: "k \<in> set (obj_keys m)" "\<not> filled_at m k" for k
  proof -
    obtain tp where "obj_get m k = Some tp" using k(1) by (auto simp: in_obj_keys)
    with s(4) [of k tp] obj_get_SomeD [of m k tp] k(2) show ?thesis by (simp add: filled_at_def tp_value_at_def)
  qed
  moreover have "es = [] \<longleftrightarrow> filled_entries m = []" using s(3) by auto
  ultimately show ?thesis using r o1 [unfolded out] parts(2,3) s(1) by auto
qed

text \<open>What a successful save went through.\<close>

lemma transformInPipelineToSet_parts:
  assumes "transformInPipelineToSet api pipeline settings pipelineType c trimFunction ins outs = Inr ps"
  obtains parts1 parts2 parts3 parts4 filters inSchema u where
    "check_name (pi_name pipeline) = Inr ()"
    "save_transformation api pipeline pipelineType c trimFunction ins outs = Inr parts1"
    "save_matching pipeline pipelineType parts1 = Inr parts2"
    "save_identity pipeline pipelineType c parts2 = Inr parts3"
    "save_filter pipeline pipelineType c (sp_in parts3) = Inr (filters, inSchema)"
    "save_table_key pipeline pipelineType c parts3 = Inr parts4"
    "save_updateOnDuplicates pipeline = Inr u"
    "ps = assemble pipeline c settings parts4 filters (if refers_to_events c pipelineType then None else inSchema) u"
    "validateTransformation c pipelineType ps = Inr ()"
  using assms by (auto simp: transformInPipelineToSet_def res_bind_eq_Inr Let_def wrap_error_eq)

lemma save_identity_keeps:
  "save_identity pipeline pipelineType c parts = Inr parts' \<Longrightarrow>
     sp_out parts' = sp_out parts \<and> sp_mapping parts' = sp_mapping parts \<and> sp_function parts' = sp_function parts"
  by (auto simp: save_identity_def res_bind_eq_Inr split: if_splits option.splits)

lemma save_matching_keeps:
  "save_matching pipeline pipelineType parts = Inr parts' \<Longrightarrow>
     sp_mapping parts' = sp_mapping parts \<and> sp_function parts' = sp_function parts \<and> (pi_matching pipeline = None \<longrightarrow> parts' = parts)"
  by (auto simp: save_matching_def res_bind_eq_Inr split: option.splits)

lemma tree_paths_require_key: "tree_paths segs (require_key key ps) = tree_paths segs ps"
proof (induction ps)
  case (Cons p ps)
  have "sub_properties (set_p_required_key p) = sub_properties p" by (simp add: sub_properties_def)
  with Cons show ?case by simp
qed simp

definition paths_of :: "property list option \<Rightarrow> jsstr list" where
  "paths_of schema = (case schema of None \<Rightarrow> [] | Some ps \<Rightarrow> tree_paths [] ps)"

lemma save_table_key_keeps:
  "save_table_key pipeline pipelineType c parts = Inr parts' \<Longrightarrow>
     paths_of (sp_out parts') = paths_of (sp_out parts) \<and> sp_mapping parts' = sp_mapping parts \<and> sp_function parts' = sp_function parts
     \<and> sp_in parts' = sp_in parts"
  by (auto simp: save_table_key_def res_bind_eq_Inr not_null_eq paths_of_def tree_paths_require_key split: if_splits option.splits)

lemma paths_of_non_empty [simp]: "paths_of (non_empty schema) = paths_of schema"
  by (auto simp: paths_of_def non_empty_def tree_paths_def split: option.splits)

lemma saved_outputs:
  assumes "transformInPipelineToSet api pipeline settings pipelineType c trimFunction ins outs = Inr ps"
  obtains parts where "save_transformation api pipeline pipelineType c trimFunction ins outs = Inr parts"
    "pi_matching pipeline = None \<longrightarrow> paths_of (ps_outSchema ps) = paths_of (sp_out parts)"
    "ps_transformation ps = (if sp_mapping parts = None \<and> sp_function parts = None then None
       else Some \<lparr>tr_mapping = sp_mapping parts, tr_function = sp_function parts\<rparr>)"
proof (rule transformInPipelineToSet_parts [OF assms])
  fix parts1 parts2 parts3 parts4 filters inSchema u
  assume p: "save_transformation api pipeline pipelineType c trimFunction ins outs = Inr parts1"
    "save_matching pipeline pipelineType parts1 = Inr parts2" "save_identity pipeline pipelineType c parts2 = Inr parts3"
    "save_table_key pipeline pipelineType c parts3 = Inr parts4"
    "ps = assemble pipeline c settings parts4 filters (if refers_to_events c pipelineType then None else inSchema) u"
  show thesis
    using save_matching_keeps [OF p(2)] save_identity_keeps [OF p(3)] save_table_key_keeps [OF p(4)]
    by (intro that [OF p(1)]) (simp_all add: p(5) assemble_def)
qed

subsection \<open>From the mapping editor to the saved pipeline and back\<close>

lemma saved_at_filled:
  assumes "distinct (obj_keys m)" "k \<in> set (obj_keys m)"
  shows "saved_at (filled_entries m) k = tp_value_at m k"
  using assms
proof (induction m)
  case (Cons e m)
  obtain a tp where e: "e = (a, tp)" by (cases e)
  show ?case
  proof (cases "k = a")
    case True
    have "a \<notin> set (obj_keys (filled_entries m))"
      using Cons.prems filled_paths_keys [of m] by (auto simp: e filled_paths_def obj_keys_def)
    then have "obj_get (filled_entries m) a = None" using in_obj_keys [of a "filled_entries m"] by blast
    with True show ?thesis by (simp add: e saved_at_def tp_value_at_def)
  next
    case False
    with Cons show ?thesis by (simp add: e saved_at_def tp_value_at_def)
  qed
qed simp

lemma editor_antichain:
  assumes "editor_inv ks clean pipeline" "pipeline_mapping pipeline = Some m"
  shows "antichain (filled_paths m)" "obj_keys m = ks" "wf_mapping m" "mapping_covers m" "clean \<Longrightarrow> mapping_justified m"
proof -
  from assms show m: "obj_keys m = ks" "wf_mapping m" "mapping_covers m" "clean \<Longrightarrow> mapping_justified m"
    by (auto simp: editor_inv_def)
  have ex: "exclusive m" using assms by (auto simp: editor_inv_def)
  have "distinct (obj_keys m)" using m(2) by (simp add: wf_mapping_def)
  note filled = filled_paths_iff [OF this]
  have "\<not> above p q" if "p \<in> set (obj_keys m)" "filled_at m p" "q \<in> set (obj_keys m)" "filled_at m q" for p q
    using ex m(3) that unfolding exclusive_iff mapping_covers_def relative_def by blast
  then show "antichain (filled_paths m)" using filled unfolding antichain_def by blast
qed

text \<open>
  C2: in every state the mapping editor reaches, a successful save stores as transformation exactly the
  properties that have an expression, in the order of the output schema, with their expressions. The
  saved output schema of a pipeline without matching properties has exactly the paths of those
  properties, their ancestors and their sub-properties, in the order of the full schema. The editor
  that loads the saved mapping has the same entries with the same expressions and disables no more of
  them; it disables exactly the same ones unless a change of the matching has cleared an expression.
\<close>

theorem saved_mapping_is_the_edited_one:
  assumes "wf_properties out" "tpt_outputSchema pipelineType = Some out"
    and "unambiguous saved" "editor_reachable saved out clean pipeline"
    and "transformInPipelineToSet api pipeline settings pipelineType c trimFunction ins outs = Inr ps"
  shows "\<exists>m m'. pipeline_mapping pipeline = Some m
    \<and> ps_transformation ps = (if filled_entries m = [] then None else Some \<lparr>tr_mapping = Some (filled_entries m), tr_function = None\<rparr>)
    \<and> (pi_matching pipeline = None \<longrightarrow> paths_of (ps_outSchema ps) = linked_paths out {k \<in> set (obj_keys m). filled_at m k})
    \<and> transformPipelineMapping (filled_entries m) out = Some m' \<and> obj_keys m' = obj_keys m
    \<and> (\<forall>k \<in> set (obj_keys m). tp_value_at m' k = tp_value_at m k \<and> (disabled_at m' k \<longrightarrow> disabled_at m k)
         \<and> (clean \<longrightarrow> disabled_at m' k = disabled_at m k))"
proof -
  have inv: "editor_inv (obj_keys (flatten_object out)) clean pipeline" by (rule editor_reachable_inv [OF assms(4,1,3)])
  then obtain m where m: "pipeline_mapping pipeline = Some m" by (auto simp: editor_inv_def)
  note ed = editor_antichain [OF inv m]
  have dist: "distinct (obj_keys m)" using ed(3) by (simp add: wf_mapping_def)
  obtain parts where parts: "save_transformation api pipeline pipelineType c trimFunction ins outs = Inr parts"
    "pi_matching pipeline = None \<longrightarrow> paths_of (ps_outSchema ps) = paths_of (sp_out parts)"
    "ps_transformation ps = (if sp_mapping parts = None \<and> sp_function parts = None then None
       else Some \<lparr>tr_mapping = sp_mapping parts, tr_function = sp_function parts\<rparr>)"
    by (rule saved_outputs [OF assms(5)])
  have "save_mapping api pipeline pipelineType c m = Inr parts"
    using parts(1) m by (auto simp: save_transformation_def pipeline_mapping_def res_bind_eq_Inr not_null_eq split: option.splits)
  from save_mapping_spec [OF assms(1,2) ed(3,2,1) this]
  have s: "paths_of (sp_out parts) = linked_paths out (filled_paths m)"
    "sp_mapping parts = (if filled_entries m = [] then None else Some (filled_entries m))" "sp_function parts = None"
    by (auto simp: paths_of_def)
  have filled: "filled_paths m = {k \<in> set (obj_keys m). filled_at m k}" using filled_paths_iff [OF dist] by auto
  obtain m' where m': "transformPipelineMapping (filled_entries m) out = Some m'" "mapping_inv m'"
    "obj_keys m' = obj_keys (flatten_object out)" "\<And>k. k \<in> set (obj_keys m') \<Longrightarrow> tp_value_at m' k = saved_at (filled_entries m) k"
    using transformPipelineMapping_spec [OF assms(1)] by blast
  have keys: "obj_keys m' = obj_keys m" using m'(3) ed(2) by simp
  have val: "tp_value_at m' k = tp_value_at m k" if "k \<in> set (obj_keys m)" for k
    using m'(4) saved_at_filled [OF dist that] that keys by simp
  then have dis: "disabled_at m' k \<longleftrightarrow> (\<exists>x \<in> set (obj_keys m). relative k x \<and> filled_at m x)" if "k \<in> set (obj_keys m)" for k
    using m'(2) that unfolding mapping_inv_iff keys filled_at_def by auto
  have "disabled_at m' k \<longrightarrow> disabled_at m k" "clean \<longrightarrow> disabled_at m' k = disabled_at m k" if "k \<in> set (obj_keys m)" for k
    using dis [OF that] ed(4,5) that unfolding mapping_covers_def mapping_justified_def by blast+
  with val parts(2,3) s m m'(1) keys filled show ?thesis by auto
qed

definition example_edited :: mapping where
  "example_edited = [(js ''a.b'', js ''x''), (js ''a.c'', js ''y'')]"

definition example_edited_pipeline :: transformed_pipeline where
  "example_edited_pipeline = example_pipeline (transformPipelineMapping example_edited required_schema) None"

definition example_export_type :: transformed_pipeline_type where
  "example_export_type = (example_pipeline_type required_schema)\<lparr>tpt_inputSchema := Some required_schema\<rparr>"

definition example_application :: transformed_connection where
  "example_application = example_connection ''d'' CApplication Destination [] []"

definition example_api :: expressions_api where
  "example_api expressions schema = Inr [js ''a.b'']"

lemma example_edited_reachable: "editor_reachable example_edited required_schema True example_edited_pipeline"
proof -
  obtain m where "transformPipelineMapping example_edited required_schema = Some m"
    using transformPipelineMapping_spec [OF required_schema_wf] by blast
  then show ?thesis
    by (intro editor_start) (auto simp: pipeline_mapping_def example_pipeline_def example_edited_pipeline_def)
qed

lemma example_name: "check_name (js ''p'') = Inr ()"
  by (simp add: check_name_def trim_def trim_start_def is_js_space_def throw_if_def js_Cons)

lemma example_edited_saved:
  "is_ok (transformInPipelineToSet example_api example_edited_pipeline (None :: unit option) example_export_type example_application True [] [])"
proof -
  have name: "pi_name example_edited_pipeline = js ''p''"
    by (simp add: example_edited_pipeline_def example_pipeline_def)
  show ?thesis
    unfolding transformInPipelineToSet_def name example_name res_bind.simps by code_simp
qed

theorem saved_mapping_is_the_edited_one_witness:
  "\<exists>ps. transformInPipelineToSet example_api example_edited_pipeline (None :: unit option) example_export_type example_application True [] [] = Inr ps
    \<and> ps_transformation ps = Some \<lparr>tr_mapping = Some example_edited, tr_function = None\<rparr>
    \<and> paths_of (ps_outSchema ps) = [js ''a'', js ''a.b'', js ''a.c'']"
proof -
  obtain ps where ps: "transformInPipelineToSet example_api example_edited_pipeline (None :: unit option) example_export_type example_application True [] [] = Inr ps"
    using example_edited_saved by (auto simp: is_ok_iff)
  have "unambiguous example_edited" by code_simp
  moreover have "tpt_outputSchema example_export_type = Some required_schema" "pi_matching example_edited_pipeline = None"
    by (simp_all add: example_export_type_def example_pipeline_type_def example_edited_pipeline_def example_pipeline_def)
  ultimately obtain m where m: "pipeline_mapping example_edited_pipeline = Some m"
    "ps_transformation ps = (if filled_entries m = [] then None else Some \<lparr>tr_mapping = Some (filled_entries m), tr_function = None\<rparr>)"
    "paths_of (ps_outSchema ps) = linked_paths required_schema {k \<in> set (obj_keys m). filled_at m k}"
    using saved_mapping_is_the_edited_one [OF required_schema_wf _ _ example_edited_reachable ps] by blast
  have eq: "the (pipeline_mapping example_edited_pipeline) = m" using m(1) by simp
  have "filled_entries (the (pipeline_mapping example_edited_pipeline)) = example_edited" by code_simp
  moreover have "linked_paths required_schema (set (filter (filled_at (the (pipeline_mapping example_edited_pipeline)))
      (obj_keys (the (pipeline_mapping example_edited_pipeline))))) = [js ''a'', js ''a.b'', js ''a.c'']" by code_simp
  ultimately show ?thesis using ps m(2,3) unfolding eq by (auto simp: example_edited_def)
qed

text \<open>
  A table confirmed while a function is edited leaves the transformation with a mapping beside the
  function; the save looks at the mapping first, and the function is not saved.
\<close>

lemma onConfirmTable_hides_function:
  assumes "pi_transformation pipeline = Some t" "tt_mapping t = None" "tt_function t = Some func"
    and "onConfirmTable columns pipeline = Some pipeline'"
    and "transformInPipelineToSet api pipeline' settings pipelineType c trimFunction ins outs = Inr ps"
  shows "\<exists>t'. pi_transformation pipeline' = Some t' \<and> tt_function t' = Some func \<and>
    (\<forall>tr. ps_transformation ps = Some tr \<longrightarrow> tr_function tr = None)"
proof -
  obtain m where p: "pipeline' = pipeline\<lparr>pi_transformation := Some (t\<lparr>tt_mapping := Some m\<rparr>)\<rparr>"
    using assms(1,2,4) by (auto simp: onConfirmTable_def split: option.splits)
  obtain parts where parts: "save_transformation api pipeline' pipelineType c trimFunction ins outs = Inr parts"
    "ps_transformation ps = (if sp_mapping parts = None \<and> sp_function parts = None then None
       else Some \<lparr>tr_mapping = sp_mapping parts, tr_function = sp_function parts\<rparr>)"
    by (rule saved_outputs [OF assms(5)])
  then have "save_mapping api pipeline' pipelineType c m = Inr parts"
    by (simp add: save_transformation_def p not_null_def)
  then have "sp_function parts = None" by (auto simp: save_mapping_def res_bind_eq_Inr Let_def)
  with parts(2) assms(3) show ?thesis by (auto simp: p)
qed

end
