(* ===== verification/Path_Selection.thy ===== *)
theory Path_Selection
  imports Saved_Schemas Consents
begin

section \<open>The properties selected for a transformation function\<close>

text \<open>
  A transformation function reads and returns the properties selected on its page: the toggle of a
  property (\<open>onChangeSelectedPath\<close>, PipelineTransformation.tsx), the selection the page starts from
  (\<open>computeAutoSelectedPaths\<close>, usePipeline.ts) and what is left of a selection when the schema changes.
  An object is never selected itself, only its leaves are; so what is saved is what is selected.
\<close>

definition leaf_children :: "flat_schema \<Rightarrow> jsstr \<Rightarrow> jsstr list" where
  "leaf_children schema path =
     filter (\<lambda>p. starts_with p (path @ js ''.'') \<and> (case obj_get schema p of None \<Rightarrow> False | Some tp \<Rightarrow> tp_type tp \<noteq> KObject))
       (obj_keys schema)"

text \<open>The leaves that are not selected already are pushed.\<close>

fun select_all :: "jsstr list \<Rightarrow> jsstr list \<Rightarrow> jsstr list" where
  "select_all [] selected = selected"
| "select_all (c # cs) selected = select_all cs (if c \<in> set selected then selected else selected @ [c])"

text \<open>\<open>None\<close> is the \<open>TypeError\<close> on a path that the schema lacks.\<close>

definition onChangeSelectedPath :: "flat_schema \<Rightarrow> jsstr list \<Rightarrow> jsstr \<Rightarrow> jsstr list option" where
  "onChangeSelectedPath schema selectedPaths path =
     map_option (\<lambda>property.
       if tp_type property = KObject then
         let leafs = leaf_children schema path in
         if list_all (\<lambda>leaf. leaf \<in> set selectedPaths) leafs
         then filter (\<lambda>p. p \<notin> set leafs) selectedPaths
         else select_all leafs selectedPaths
       else if path \<in> set selectedPaths then filter (\<lambda>p. p \<noteq> path) selectedPaths
       else selectedPaths @ [path]) (obj_get schema path)"

text \<open>The selected paths that are still in the schema when it changes.\<close>

definition keep_known_paths :: "property list option \<Rightarrow> jsstr list \<Rightarrow> jsstr list" where
  "keep_known_paths schema selectedPaths =
     (case schema of None \<Rightarrow> selectedPaths | Some ps \<Rightarrow> filter (\<lambda>p. obj_get (flatten_object ps) p \<noteq> None) selectedPaths)"

text \<open>The required paths of an event that is dispatched, with their leaves for objects.\<close>

definition is_output_required :: "transformed_pipeline \<Rightarrow> transformed_pipeline_type \<Rightarrow> jsstr list \<Rightarrow> jsstr \<Rightarrow> bool" where
  "is_output_required pipeline pipelineType selectedOutPaths path =
     (case checkFunctionPath path pipeline pipelineType OutputRole selectedOutPaths of
        None \<Rightarrow> False | Some info \<Rightarrow> ti_isRequired info)"

fun auto_paths :: "(jsstr \<Rightarrow> bool) \<Rightarrow> flat_schema \<Rightarrow> jsstr list \<Rightarrow> jsstr list" where
  "auto_paths isRequired flatOut [] = []"
| "auto_paths isRequired flatOut (path # paths) =
     (let hasRequiredChild = (\<exists>pa \<in> set (obj_keys flatOut). starts_with pa (path @ js ''.'') \<and> isRequired pa) in
      (if isRequired path \<and> \<not> hasRequiredChild
       then (case obj_get flatOut path of
               None \<Rightarrow> []
             | Some property \<Rightarrow> if tp_type property = KObject then leaf_children flatOut path else [path])
       else []) @ auto_paths isRequired flatOut paths)"

text \<open>\<open>None\<close> when the selection is left as it is: only the dispatch of events has automatic paths.\<close>

definition computeAutoSelectedPaths ::
  "transformed_pipeline \<Rightarrow> transformed_pipeline_type \<Rightarrow> transformed_connection \<Rightarrow> property list \<Rightarrow> jsstr list \<Rightarrow> jsstr list option" where
  "computeAutoSelectedPaths pipeline pipelineType c outputSchema selectedOutPaths =
     (let flatOut = flatten_object outputSchema in
      if isDestination c \<and> tpt_target pipelineType = TEvent
      then Some (auto_paths (is_output_required pipeline pipelineType selectedOutPaths) flatOut (obj_keys flatOut))
      else None)"

subsection \<open>Leaves\<close>

definition leaf_paths :: "property list \<Rightarrow> jsstr set" where
  "leaf_paths ps = {k. \<exists>p. lookup_path ps (segments k) = Some p \<and> kind_of (p_type p) \<noteq> KObject}"

lemma get_flatten_segments:
  "wf_properties ps \<Longrightarrow> obj_get (flatten_object ps) k =
     map_option (\<lambda>p. flattenProperty False p (length (segments k) - 1) (hd (segments k))) (lookup_path ps (segments k))"
  using obj_get_flatten_object [of ps "segments k"] by simp

lemma above_leaf:
  assumes "wf_properties ps" "above p q" "lookup_path ps (segments q) \<noteq> None"
  shows "\<exists>o1. lookup_path ps (segments p) = Some o1 \<and> kind_of (p_type o1) = KObject"
proof -
  obtain r where "q = p @ 46 # r" using assms(2) by (auto simp: above_iff)
  then have "segments q = segments p @ segments r" using segments_path_append [of "segments p" r] by simp
  with assms(3) lookup_path_append_Some [OF _ _ _ assms(1), of "segments p" "segments r"] show ?thesis by simp
qed

lemma leaves_antichain: "wf_properties ps \<Longrightarrow> S \<subseteq> leaf_paths ps \<Longrightarrow> antichain S"
  unfolding antichain_def leaf_paths_def using above_leaf by fastforce

lemma set_leaf_children: "wf_properties ps \<Longrightarrow> set (leaf_children (flatten_object ps) path) = {k \<in> leaf_paths ps. above path k}"
  by (auto simp: leaf_children_def leaf_paths_def above_def js_Cons in_obj_keys get_flatten_segments flattenProperty_def
      split: option.splits)

lemma distinct_leaf_children: "wf_properties ps \<Longrightarrow> distinct (leaf_children (flatten_object ps) path)"
  by (simp add: leaf_children_def flatten_distinct)

lemma set_select_all: "set (select_all cs sel) = set cs \<union> set sel"
  by (induction cs sel rule: select_all.induct) auto

lemma distinct_select_all: "distinct sel \<Longrightarrow> distinct (select_all cs sel)"
  by (induction cs sel rule: select_all.induct) auto

subsection \<open>The toggle\<close>

text \<open>The leaves a property stands for: itself, or those of the object.\<close>

definition leaves_of :: "property list \<Rightarrow> jsstr \<Rightarrow> jsstr set" where
  "leaves_of ps path = {k \<in> leaf_paths ps. k = path \<or> above path k}"

definition selection_ok :: "property list \<Rightarrow> jsstr list \<Rightarrow> bool" where
  "selection_ok ps sel \<longleftrightarrow> distinct sel \<and> set sel \<subseteq> leaf_paths ps"

lemma onChangeSelectedPath_spec:
  assumes wf: "wf_properties ps" and ok: "selection_ok ps sel" and path: "path \<in> set (obj_keys (flatten_object ps))"
  shows "\<exists>sel'. onChangeSelectedPath (flatten_object ps) sel path = Some sel' \<and> selection_ok ps sel' \<and>
    set sel' = (if leaves_of ps path \<subseteq> set sel then set sel - leaves_of ps path else set sel \<union> leaves_of ps path)"
proof -
  obtain p where p: "lookup_path ps (segments path) = Some p"
    using path by (auto simp: in_obj_keys get_flatten_segments [OF wf])
  show ?thesis
  proof (cases "kind_of (p_type p) = KObject")
    case True
    then have leaves: "leaves_of ps path = set (leaf_children (flatten_object ps) path)"
      using p by (auto simp: leaves_of_def set_leaf_children [OF wf] leaf_paths_def)
    have children: "set (leaf_children (flatten_object ps) path) \<subseteq> leaf_paths ps"
      by (auto simp: set_leaf_children [OF wf])
    have step: "onChangeSelectedPath (flatten_object ps) sel path =
        Some (if leaves_of ps path \<subseteq> set sel then filter (\<lambda>p. p \<notin> leaves_of ps path) sel
              else select_all (leaf_children (flatten_object ps) path) sel)"
      using True p by (simp add: onChangeSelectedPath_def get_flatten_segments [OF wf] flattenProperty_def leaves list_all_iff subset_eq Let_def)
    show ?thesis
    proof (cases "leaves_of ps path \<subseteq> set sel")
      case True
      with step ok show ?thesis by (auto simp: selection_ok_def)
    next
      case False
      with step ok children show ?thesis
        by (simp add: selection_ok_def set_select_all distinct_select_all leaves Un_commute)
    qed
  next
    case False
    have "\<not> above path k" if "k \<in> leaf_paths ps" for k
      using above_leaf [OF wf, of path k] that False p by (auto simp: leaf_paths_def)
    moreover have "path \<in> leaf_paths ps" using p False by (simp add: leaf_paths_def)
    ultimately have "leaves_of ps path = {path}" "path \<in> leaf_paths ps" by (auto simp: leaves_of_def)
    with False p ok show ?thesis
      by (auto simp: onChangeSelectedPath_def get_flatten_segments [OF wf] flattenProperty_def selection_ok_def)
  qed
qed

text \<open>The automatic selection.\<close>

definition no_required_child :: "(jsstr \<Rightarrow> bool) \<Rightarrow> property list \<Rightarrow> jsstr \<Rightarrow> bool" where
  "no_required_child isRequired ps path \<longleftrightarrow> (\<forall>pa \<in> set (obj_keys (flatten_object ps)). above path pa \<longrightarrow> \<not> isRequired pa)"

lemma auto_paths_spec:
  assumes wf: "wf_properties ps"
  shows "distinct paths \<Longrightarrow> set paths \<subseteq> set (obj_keys (flatten_object ps)) \<Longrightarrow>
    selection_ok ps (auto_paths isRequired (flatten_object ps) paths) \<and>
    set (auto_paths isRequired (flatten_object ps) paths) =
      (\<Union>a \<in> {a \<in> set paths. isRequired a \<and> no_required_child isRequired ps a}. leaves_of ps a)"
proof (induction paths)
  case (Cons a paths)
  let ?chosen = "\<lambda>a. isRequired a \<and> no_required_child isRequired ps a"
  let ?rest = "auto_paths isRequired (flatten_object ps) paths"
  obtain p where p: "lookup_path ps (segments a) = Some p"
    using Cons.prems by (auto simp: in_obj_keys get_flatten_segments [OF wf])
  have IH: "selection_ok ps ?rest" "set ?rest = (\<Union>a \<in> {a \<in> set paths. ?chosen a}. leaves_of ps a)"
    using Cons by auto
  obtain new where new: "(if ?chosen a then (case obj_get (flatten_object ps) a of None \<Rightarrow> []
      | Some property \<Rightarrow> if tp_type property = KObject then leaf_children (flatten_object ps) a else [a]) else []) = new"
    "distinct new" "set new = (if ?chosen a then leaves_of ps a else {})"
  proof (cases "?chosen a")
    case chosen: True
    show ?thesis
    proof (cases "kind_of (p_type p) = KObject")
      case True
      with p have "set (leaf_children (flatten_object ps) a) = leaves_of ps a"
        by (auto simp: leaves_of_def set_leaf_children [OF wf] leaf_paths_def)
      with chosen True p show ?thesis
        by (intro that [of "leaf_children (flatten_object ps) a"])
          (simp_all add: get_flatten_segments [OF wf] flattenProperty_def distinct_leaf_children [OF wf])
    next
      case False
      then have "leaves_of ps a = {a}"
        using above_leaf [OF wf, of a] p by (fastforce simp: leaves_of_def leaf_paths_def)
      with chosen False p show ?thesis
        by (intro that [of "[a]"]) (simp_all add: get_flatten_segments [OF wf] flattenProperty_def)
    qed
  qed (auto intro: that)
  have step: "auto_paths isRequired (flatten_object ps) (a # paths) = new @ ?rest"
    by (simp add: new(1) [symmetric] no_required_child_def above_def js_Cons Let_def)
  have "set new \<inter> set ?rest = {}"
  proof (rule ccontr)
    assume "set new \<inter> set ?rest \<noteq> {}"
    then obtain k b where k: "?chosen a" "k \<in> leaves_of ps a" "b \<in> set paths" "?chosen b" "k \<in> leaves_of ps b"
      unfolding new(3) IH(2) by (auto split: if_splits)
    have "a \<noteq> b" using k(3) Cons.prems(1) by auto
    moreover from k(2,5) have "k = a \<or> above a k" "k = b \<or> above b k" by (auto simp: leaves_of_def)
    ultimately have "above a b \<or> above b a" using above_linear by blast
    moreover have "a \<in> set (obj_keys (flatten_object ps))" "b \<in> set (obj_keys (flatten_object ps))"
      using Cons.prems(2) k(3) by auto
    ultimately show False using k(1,4) by (auto simp: no_required_child_def)
  qed
  moreover have "set new \<subseteq> leaf_paths ps" unfolding new(3) by (auto simp: leaves_of_def)
  ultimately show ?case unfolding step using IH new(2,3) by (auto simp: selection_ok_def)
qed (simp add: selection_ok_def)

text \<open>
  The selections of the page: nothing, the automatic ones, the known paths of a saved function or of a
  selection made in another schema, as long as none of them is an object of this schema, and those a
  toggle leads to.
\<close>

inductive selected_by_user :: "property list \<Rightarrow> jsstr list \<Rightarrow> bool" for ps :: "property list" where
  nothing_selected: "selected_by_user ps []"
| auto_selected: "computeAutoSelectedPaths pipeline pipelineType c ps sel = Some sel' \<Longrightarrow> selected_by_user ps sel'"
| kept_known: "distinct paths \<Longrightarrow> sel = keep_known_paths (Some ps) paths \<Longrightarrow>
    (\<And>p tp. p \<in> set sel \<Longrightarrow> obj_get (flatten_object ps) p = Some tp \<Longrightarrow> tp_type tp \<noteq> KObject) \<Longrightarrow> selected_by_user ps sel"
| toggled: "selected_by_user ps sel \<Longrightarrow> onChangeSelectedPath (flatten_object ps) sel path = Some sel' \<Longrightarrow> selected_by_user ps sel'"

lemma selected_by_user_ok:
  assumes "selected_by_user ps sel" "wf_properties ps"
  shows "selection_ok ps sel"
  using assms
proof (induction rule: selected_by_user.induct)
  case (auto_selected pipeline pipelineType c sel sel')
  then have "sel' = auto_paths (is_output_required pipeline pipelineType sel) (flatten_object ps) (obj_keys (flatten_object ps))"
    by (simp add: computeAutoSelectedPaths_def Let_def split: if_splits)
  with auto_paths_spec [OF auto_selected.prems, of "obj_keys (flatten_object ps)"] flatten_distinct [OF auto_selected.prems]
  show ?case by simp
next
  case (kept_known paths sel)
  have "p \<in> leaf_paths ps" if p: "p \<in> set sel" for p
  proof -
    obtain tp where tp: "obj_get (flatten_object ps) p = Some tp" using p kept_known(2) by (auto simp: keep_known_paths_def)
    then show ?thesis using kept_known(3) [OF p tp] get_flatten_segments [OF kept_known(4), of p]
      by (auto simp: leaf_paths_def flattenProperty_def)
  qed
  with kept_known(1,2) show ?case by (auto simp: selection_ok_def keep_known_paths_def)
next
  case (toggled sel path sel')
  have "path \<in> set (obj_keys (flatten_object ps))"
    using toggled.hyps(2) by (auto simp: onChangeSelectedPath_def in_obj_keys)
  with onChangeSelectedPath_spec [OF toggled.prems toggled.IH [OF toggled.prems], of path] toggled.hyps(2) show ?case by auto
qed (simp add: selection_ok_def)

text \<open>
  C28: a click on a property in a state of the page never fails. It selects all the leaves of the
  property unless they all are, and then it deselects them; the selection of every other property
  stays, objects are never selected and nothing is selected twice.
\<close>

theorem onChangeSelectedPath_toggles_leaves:
  assumes "wf_properties ps" "selected_by_user ps sel" "path \<in> set (obj_keys (flatten_object ps))"
  shows "\<exists>sel'. onChangeSelectedPath (flatten_object ps) sel path = Some sel' \<and> distinct sel' \<and> set sel' \<subseteq> leaf_paths ps \<and>
    set sel' = (if leaves_of ps path \<subseteq> set sel then set sel - leaves_of ps path else set sel \<union> leaves_of ps path)"
  using onChangeSelectedPath_spec [OF assms(1) selected_by_user_ok [OF assms(2,1)] assms(3)] by (auto simp: selection_ok_def)

theorem onChangeSelectedPath_toggles_leaves_witness:
  "\<exists>sel'. onChangeSelectedPath (flatten_object example_schema) [] (js ''address'') = Some sel' \<and> js ''address.geo.lat'' \<in> set sel' \<and> js ''email'' \<notin> set sel'"
proof -
  have path: "js ''address'' \<in> set (obj_keys (flatten_object example_schema))" by code_simp
  have leaves: "js ''address.geo.lat'' \<in> leaves_of example_schema (js ''address'')" "js ''email'' \<notin> leaves_of example_schema (js ''address'')"
    by (simp_all add: leaves_of_def leaf_paths_def above_def example_schema_simps)
  from onChangeSelectedPath_toggles_leaves [OF example_schema_wf nothing_selected path] obtain sel' where
    "onChangeSelectedPath (flatten_object example_schema) [] (js ''address'') = Some sel'"
    "set sel' = (if leaves_of example_schema (js ''address'') \<subseteq> set [] then set [] - leaves_of example_schema (js ''address'')
      else set [] \<union> leaves_of example_schema (js ''address''))" by blast
  with leaves show ?thesis by auto
qed

subsection \<open>Saving the function\<close>

lemma top_paths_leaves: "antichain (set sel) \<Longrightarrow> top_paths sel = sel"
  by (auto simp: top_paths_def antichain_def above_def js_Cons intro!: filter_True)

lemma selection_part:
  assumes wf: "wf_properties full" and g: "keeps_shape g" and ok: "selection_ok full sel"
  shows "\<exists>schema r. add_paths (Some (flat_view g full)) sel [] = Inr schema \<and> sort_schema schema (Some full) = Inr r
    \<and> tree_paths [] r = linked_paths full (set sel)"
proof -
  have leaves: "set sel \<subseteq> leaf_paths full" using ok by (simp add: selection_ok_def)
  then have "\<forall>p \<in> set sel. lookup_path full (segments p) \<noteq> None" by (auto simp: leaf_paths_def)
  moreover have "antichain (set sel \<union> {})" using leaves_antichain [OF wf leaves] by simp
  ultimately obtain schema where s: "add_paths (Some (flat_view g full)) sel [] = Inr schema" "schema_part full (set sel \<union> {}) schema"
    using add_paths_part [OF wf g schema_part_empty] by blast
  then show ?thesis using sort_part [OF wf, of "set sel" schema] by auto
qed

definition output_satisfied :: "transformed_pipeline \<Rightarrow> transformed_pipeline_type \<Rightarrow> jsstr list \<Rightarrow> jsstr \<Rightarrow> bool" where
  "output_satisfied pipeline pipelineType outs k \<longleftrightarrow>
     (case checkFunctionPath k pipeline pipelineType OutputRole outs of
        None \<Rightarrow> False | Some info \<Rightarrow> ti_isRequired info \<longrightarrow> ti_isSelected info)"

lemma check_output_paths_ok:
  assumes "tpt_outputSchema pipelineType = Some out"
  shows "is_ok (check_output_paths pipeline pipelineType outs) \<longleftrightarrow>
    (\<forall>k \<in> set (obj_keys (flatten_object out)). output_satisfied pipeline pipelineType outs k)"
proof -
  have one: "is_ok (res_bind (not_null (checkFunctionPath p pipeline pipelineType OutputRole outs)) (\<lambda>info.
      throw_if (ti_isRequired info \<and> \<not> ti_isSelected info) (FunctionPropertyRequired p))) \<longleftrightarrow>
      output_satisfied pipeline pipelineType outs p" for p
    by (auto simp: output_satisfied_def not_null_def throw_if_def split: option.splits)
  have "is_ok (res_bind r (\<lambda>_. Inr ())) = is_ok r" for r :: "save_error + unit list"
    by (cases r) simp_all
  then show ?thesis
    by (simp add: check_output_paths_def flat_output_view [OF assms] not_null_def [of "Some _"] traverse_unit_ok one)
qed

text \<open>
  C17: the saved function has the selected properties and the saved schemas exactly those properties
  with their ancestors, in the order of the schemas. The save succeeds exactly when
  some output property is selected, some input property is selected or constants are allowed, and
  every required output property is selected.
\<close>

theorem save_function_of_selection:
  assumes "wf_properties inp" "tpt_inputSchema pipelineType = Some inp" "selected_by_user inp ins"
    and "wf_properties out" "tpt_outputSchema pipelineType = Some out" "selected_by_user out outs"
  shows "(is_ok (save_function pipeline pipelineType c trimFunction ins outs func) \<longleftrightarrow>
       outs \<noteq> [] \<and> (ins \<noteq> [] \<or> allowsConstantTransformation c pipelineType)
       \<and> (\<forall>k \<in> set (obj_keys (flatten_object out)). output_satisfied pipeline pipelineType outs k))
    \<and> (\<forall>parts. save_function pipeline pipelineType c trimFunction ins outs func = Inr parts \<longrightarrow>
       sp_function parts = Some (func\<lparr>tf_source := (if trimFunction then trim (tf_source func) else tf_source func), tf_inPaths := ins, tf_outPaths := outs\<rparr>)
       \<and> paths_of (sp_in parts) = linked_paths inp (set ins) \<and> paths_of (sp_out parts) = linked_paths out (set outs))"
proof -
  have ok: "selection_ok inp ins" "selection_ok out outs"
    using selected_by_user_ok assms(1,3,4,6) by blast+
  have "antichain (set ins)" "antichain (set outs)"
    using ok leaves_antichain assms(1,4) by (auto simp: selection_ok_def)
  then have top: "top_paths ins = ins" "top_paths outs = outs" by (simp_all add: top_paths_leaves)
  obtain s1 r1 where in1: "add_paths (flat_input pipelineType) ins [] = Inr s1" "sort_schema s1 (tpt_inputSchema pipelineType) = Inr r1"
    "tree_paths [] r1 = linked_paths inp (set ins)"
    using selection_part [OF assms(1) keeps_shape_id ok(1)] flat_input_view [OF assms(2)] assms(2) by auto
  obtain s2 r2 where out1: "add_paths (flat_output pipelineType) outs [] = Inr s2" "sort_schema s2 (tpt_outputSchema pipelineType) = Inr r2"
    "tree_paths [] r2 = linked_paths out (set outs)"
    using selection_part [OF assms(4) keeps_shape_drop ok(2)] flat_output_view [OF assms(5)] assms(5) by auto
  let ?f = "func\<lparr>tf_source := (if trimFunction then trim (tf_source func) else tf_source func), tf_inPaths := ins, tf_outPaths := outs\<rparr>"
  let ?no = "ins = [] \<and> \<not> allowsConstantTransformation c pipelineType \<or> outs = []"
  let ?parts = "\<lparr>sp_mapping = None, sp_function = Some ?f, sp_in = Some r1, sp_out = Some r2\<rparr>"
  have eq: "save_function pipeline pipelineType c trimFunction ins outs func =
      res_bind (throw_if ?no NoFunctionPaths) (\<lambda>_.
      res_bind (check_output_paths pipeline pipelineType outs) (\<lambda>_. Inr ?parts))"
    by (cases func) (simp add: save_function_def top in1 out1 Let_def)
  have ok_bind: "is_ok (res_bind r (\<lambda>_. q)) \<longleftrightarrow> is_ok r \<and> is_ok q" for r :: "save_error + unit" and q :: "save_error + save_parts"
    by (cases r) simp_all
  have "is_ok (throw_if ?no NoFunctionPaths) \<longleftrightarrow> \<not> ?no" by (simp add: throw_if_def)
  then have "is_ok (save_function pipeline pipelineType c trimFunction ins outs func) \<longleftrightarrow> \<not> ?no \<and>
      (\<forall>k \<in> set (obj_keys (flatten_object out)). output_satisfied pipeline pipelineType outs k)"
    unfolding eq ok_bind check_output_paths_ok [OF assms(5)] by simp
  moreover have "parts = ?parts" if "save_function pipeline pipelineType c trimFunction ins outs func = Inr parts" for parts
    using that unfolding eq by (auto simp: result_simps)
  ultimately show ?thesis using in1(3) out1(3) by (auto simp: paths_of_def)
qed

theorem save_function_of_selection_witness:
  "is_ok (save_function (example_pipeline None None) example_export_type example_application True [js ''a.b''] [js ''a.b'']
     \<lparr>tf_source = [], tf_language = [], tf_preserveJSON = False, tf_inPaths = [], tf_outPaths = []\<rparr>)"
proof -
  have toggle: "onChangeSelectedPath (flatten_object required_schema) [] (js ''a.b'') = Some [js ''a.b'']" by code_simp
  have sel: "selected_by_user required_schema [js ''a.b'']" by (rule toggled [OF nothing_selected toggle])
  have schemas: "tpt_inputSchema example_export_type = Some required_schema" "tpt_outputSchema example_export_type = Some required_schema"
    by (simp_all add: example_export_type_def example_pipeline_type_def)
  have "list_all (output_satisfied (example_pipeline None None) example_export_type [js ''a.b'']) (obj_keys (flatten_object required_schema))"
    by code_simp
  then show ?thesis
    using save_function_of_selection [OF required_schema_wf schemas(1) sel required_schema_wf schemas(2) sel]
    by (simp add: list_all_iff)
qed

end
