(* ===== verification/Saved_Pipeline.thy ===== *)
theory Saved_Pipeline
  imports Path_Selection
begin

section \<open>What a saved pipeline satisfies\<close>

text \<open>
  The guarantees of a successful \<open>transformInPipelineToSet\<close>, whatever the page held: the filter and the
  properties it reads, the matching properties, the table key, and the limits the server relies on.
\<close>

subsection \<open>A filter mapped with a state\<close>

text \<open>
  \<open>mapFilterConditions\<close> with a transformation that reads and extends a state: a step keeps
  \<open>inv\<close>, the state only grows, and what is established of a condition stays true as it does. The
  result has the groups and the operators of the filter, with a condition in the place of each one
  (\<open>rules_match\<close>).
\<close>

fun rules_match :: "(filter_condition \<Rightarrow> filter_condition \<Rightarrow> bool) \<Rightarrow> filter_rule list \<Rightarrow> filter_rule list \<Rightarrow> bool" where
  "rules_match R [] rules' \<longleftrightarrow> rules' = []"
| "rules_match R (Condition c # rules) rules' \<longleftrightarrow>
     (case rules' of Condition c' # rest \<Rightarrow> R c c' \<and> rules_match R rules rest | _ \<Rightarrow> False)"
| "rules_match R (Group op inner # rules) rules' \<longleftrightarrow>
     (case rules' of Group op' inner' # rest \<Rightarrow> op' = op \<and> rules_match R inner inner' \<and> rules_match R rules rest | _ \<Rightarrow> False)"

lemma rules_match_mono:
  "rules_match R rules rules' \<Longrightarrow> (\<And>c c'. R c c' \<Longrightarrow> S c c') \<Longrightarrow> rules_match S rules rules'"
  by (induction R rules rules' rule: rules_match.induct) (auto split: list.splits filter_rule.splits)

locale growing_map =
  fixes transform :: "filter_condition \<Rightarrow> 's \<Rightarrow> 'e + filter_condition \<times> 's"
    and inv :: "'s \<Rightarrow> bool"
    and grows :: "'s \<Rightarrow> 's \<Rightarrow> bool"
    and made :: "filter_condition \<Rightarrow> filter_condition \<Rightarrow> 's \<Rightarrow> bool"
  assumes step: "inv s \<Longrightarrow> transform c s = Inr (c', s') \<Longrightarrow> inv s' \<and> grows s s' \<and> made c c' s'"
    and grows_refl: "grows s s"
    and grows_trans: "grows s s' \<Longrightarrow> grows s' s'' \<Longrightarrow> grows s s''"
    and made_mono: "made c c' s \<Longrightarrow> grows s s' \<Longrightarrow> made c c' s'"
begin

lemma made_all_mono: "rules_match (\<lambda>c c'. made c c' s) rs rs' \<Longrightarrow> grows s s' \<Longrightarrow> rules_match (\<lambda>c c'. made c c' s') rs rs'"
  by (erule rules_match_mono) (rule made_mono)

lemma map_rules_res_made:
  "map_rules_res transform rules s = Inr (rules', s') \<Longrightarrow> inv s \<Longrightarrow>
     inv s' \<and> grows s s' \<and> rules_match (\<lambda>c c'. made c c' s') rules rules'"
proof (induction rules arbitrary: s rules' s' rule: groups_nonempty.induct)
  case 1
  then show ?case by (simp add: grows_refl)
next
  case (2 c rules)
  from "2.prems"(1) obtain c1 s1 rules1 where first: "transform c s = Inr (c1, s1)"
    and rest: "map_rules_res transform rules s1 = Inr (rules1, s')" and rules': "rules' = Condition c1 # rules1"
    by (auto simp: res_bind_eq_Inr)
  from step [OF "2.prems"(2) first] have s1: "inv s1" "grows s s1" "made c c1 s1" by simp_all
  with "2.IH" [OF rest s1(1)] show ?case by (auto simp: rules' intro: grows_trans made_mono)
next
  case (3 op inner rules)
  from "3.prems"(1) obtain inner1 s1 rules1 where first: "map_rules_res transform inner s = Inr (inner1, s1)"
    and rest: "map_rules_res transform rules s1 = Inr (rules1, s')" and rules': "rules' = Group op inner1 # rules1"
    by (auto simp: res_bind_eq_Inr)
  from "3.IH"(1) [OF first "3.prems"(2)] have s1: "inv s1" "grows s s1" "rules_match (\<lambda>c c'. made c c' s1) inner inner1" by simp_all
  from "3.IH"(2) [OF rest s1(1)] made_all_mono [OF s1(3)] s1(2) show ?case by (auto simp: rules' intro: grows_trans)
qed

end

text \<open>The conditions of a filter extend the input schema with the properties they read.\<close>

definition part_of_input :: "transformed_pipeline_type \<Rightarrow> property list \<Rightarrow> bool" where
  "part_of_input pipelineType schema \<longleftrightarrow>
     (case tpt_inputSchema pipelineType of
        None \<Rightarrow> True
      | Some inp \<Rightarrow> wf_properties inp \<longrightarrow> wf_properties schema \<and> sub_schema schema inp)"

definition paths_grow :: "property list \<Rightarrow> property list \<Rightarrow> bool" where
  "paths_grow schema schema' \<longleftrightarrow> (\<forall>ns. lookup_path schema ns \<noteq> None \<longrightarrow> lookup_path schema' ns \<noteq> None)"

definition reads_property :: "transformed_pipeline_type \<Rightarrow> jsstr \<Rightarrow> property list \<Rightarrow> bool" where
  "reads_property pipelineType name schema \<longleftrightarrow>
     (\<exists>base path. splitPropertyAndPath name (flat_input pipelineType) = (base, path) \<and> lookup_path schema (segments base) \<noteq> None)"

text \<open>
  A saved condition is the validated and normalised form of the edited one: the same property and
  operator, the values as the type of the property wants them.
\<close>

definition saved_condition ::
  "transformed_pipeline_type \<Rightarrow> jsstr list \<Rightarrow> filter_condition \<Rightarrow> filter_condition \<Rightarrow> property list \<Rightarrow> bool" where
  "saved_condition pipelineType hidden c c' schema \<longleftrightarrow>
     (\<exists>base path property. splitPropertyAndPath (c_property c) (flat_input pipelineType) = (base, path)
        \<and> Option.bind (flat_input pipelineType) (\<lambda>flat. obj_get flat base) = Some property
        \<and> validateAndNormalizeFilterCondition c (Some property) path (c_property c) hidden = Inr c')
     \<and> c_property c' = c_property c \<and> c_operator c' = c_operator c \<and> c_operator c \<noteq> None
     \<and> ((\<exists>inp. tpt_inputSchema pipelineType = Some inp \<and> wf_properties inp) \<longrightarrow> reads_property pipelineType (c_property c) schema)"

lemma save_condition_step:
  assumes part: "part_of_input pipelineType s" and save: "save_condition pipelineType hidden c s = Inr (c', s')"
  shows "part_of_input pipelineType s' \<and> ((\<exists>inp. tpt_inputSchema pipelineType = Some inp \<and> wf_properties inp) \<longrightarrow> paths_grow s s')
    \<and> saved_condition pipelineType hidden c c' s'"
proof -
  obtain base path where split: "splitPropertyAndPath (c_property c) (flat_input pipelineType) = (base, path)"
    by (cases "splitPropertyAndPath (c_property c) (flat_input pipelineType)")
  from save obtain flat property where flat: "flat_input pipelineType = Some flat" and property: "obj_get flat base = Some property"
    and norm: "validateAndNormalizeFilterCondition c (Some property) path (c_property c) hidden = Inr c'"
    and add: "addPropertyToSchema base (tp_full property) s flat (tp_indentation property = 0) = Some s'"
    by (auto simp: save_condition_def split result_simps)
  have "c_property c' = c_property c \<and> c_operator c' = c_operator c \<and> c_operator c \<noteq> None"
    by (rule validate_Inr [OF norm]) simp
  then have c': "c_property c' = c_property c" "c_operator c' = c_operator c" "c_operator c \<noteq> None"
    "\<exists>base path property. splitPropertyAndPath (c_property c) (flat_input pipelineType) = (base, path)
        \<and> Option.bind (flat_input pipelineType) (\<lambda>flat. obj_get flat base) = Some property
        \<and> validateAndNormalizeFilterCondition c (Some property) path (c_property c) hidden = Inr c'"
    using split flat property norm by auto
  show ?thesis
  proof (cases "\<exists>inp. tpt_inputSchema pipelineType = Some inp \<and> wf_properties inp")
    case True
    then obtain inp where inp: "tpt_inputSchema pipelineType = Some inp" "wf_properties inp" by blast
    with part have s: "wf_properties s" "sub_schema s inp" by (simp_all add: part_of_input_def)
    have flat_eq: "flat = flatten_object inp" using flat flat_input_view [OF inp(1)] by simp
    obtain f where f: "lookup_path inp (segments base) = Some f" and full: "tp_full property = f"
      and ind: "(tp_indentation property = 0) = (length (segments base) = 1)"
      using property inp(2) by (cases "segments base") (auto simp: flat_eq get_flatten_segments flattenProperty_def)
    have add': "addPropertyToSchema (path_of (segments base)) f s (flat_view id inp) (length (segments base) = 1) = Some s'"
      using add by (simp add: full flat_eq ind del: One_nat_def)
    have name: "p_name f = last (segments base)" by (rule lookup_path_name [OF f])
    have "wf_properties s' \<and> sub_schema s' inp \<and> paths_grow s s' \<and> lookup_path s' (segments base) \<noteq> None"
    proof (cases "lookup_path s (segments base)")
      case None
      have wf_f: "wf_properties (sub_properties f)" by (rule wf_lookup [OF f inp(2)])
      have there: "lookup_path inp (segments base) \<noteq> None" using f by simp
      from addPropertyToSchema_spec [OF s(1) inp(2) s(2) there None name wf_f keeps_shape_id] add'
      have "wf_properties s'" "lookup_path s' (segments base) = Some f"
        "\<And>ms. lookup_path s' ms \<noteq> None \<longleftrightarrow> lookup_path s ms \<noteq> None \<or> on_path (segments base) f ms" by auto
      moreover have "sub_schema s' inp"
        by (rule addPropertyToSchema_sub [OF s(1) inp(2) s(2) f None name refl wf_sub_schema_refl keeps_shape_id add'])
      ultimately show "wf_properties s' \<and> sub_schema s' inp \<and> paths_grow s s' \<and> lookup_path s' (segments base) \<noteq> None"
        by (auto simp: paths_grow_def)
    next
      case (Some p)
      then have there: "lookup_path s (segments base) \<noteq> None" by simp
      have "s' = s" using addPropertyToSchema_present [OF s(1) there name, of "flat_view id inp"] add' by simp
      with s there show "wf_properties s' \<and> sub_schema s' inp \<and> paths_grow s s' \<and> lookup_path s' (segments base) \<noteq> None"
        by (simp add: paths_grow_def)
    qed
    moreover from this split have "reads_property pipelineType (c_property c) s'" by (auto simp: reads_property_def)
    ultimately show ?thesis using inp c' unfolding saved_condition_def by (simp add: part_of_input_def)
  next
    case False
    with c' show ?thesis unfolding saved_condition_def by (auto simp: part_of_input_def split: option.splits)
  qed
qed

definition input_grows :: "transformed_pipeline_type \<Rightarrow> property list \<Rightarrow> property list \<Rightarrow> bool" where
  "input_grows pipelineType s s' \<longleftrightarrow>
     ((\<exists>inp. tpt_inputSchema pipelineType = Some inp \<and> wf_properties inp) \<longrightarrow> paths_grow s s')"

interpretation saved: growing_map "save_condition pipelineType hidden" "part_of_input pipelineType"
    "input_grows pipelineType" "saved_condition pipelineType hidden"
  for pipelineType hidden
proof unfold_locales
  show "part_of_input pipelineType s \<Longrightarrow> save_condition pipelineType hidden c s = Inr (c', s') \<Longrightarrow>
      part_of_input pipelineType s' \<and> input_grows pipelineType s s' \<and> saved_condition pipelineType hidden c c' s'" for s c c' s'
    unfolding input_grows_def by (rule save_condition_step)
  show "saved_condition pipelineType hidden c c' s \<Longrightarrow> input_grows pipelineType s s' \<Longrightarrow> saved_condition pipelineType hidden c c' s'" for c c' s s'
    unfolding saved_condition_def input_grows_def paths_grow_def reads_property_def by blast
qed (auto simp: input_grows_def paths_grow_def)





subsection \<open>The table key\<close>

text \<open>The paths the saved transformation gives a value to.\<close>

definition transformed_paths :: "transformation option \<Rightarrow> jsstr list" where
  "transformed_paths t =
     (case t of
        None \<Rightarrow> []
      | Some t \<Rightarrow>
          (case (tr_mapping t, tr_function t) of
             (Some m, _) \<Rightarrow> obj_keys m
           | (None, Some f) \<Rightarrow> tf_outPaths f
           | (None, None) \<Rightarrow> []))"

text \<open>A state of the page: the mapping is one of the editor, the selected properties are ones the user selected.\<close>

definition page_state :: "property list \<Rightarrow> transformed_pipeline \<Rightarrow> jsstr list \<Rightarrow> bool" where
  "page_state out pipeline outs \<longleftrightarrow> selected_by_user out outs \<and>
     (pipeline_mapping pipeline = None \<or> (\<exists>saved clean. unambiguous saved \<and> editor_reachable saved out clean pipeline))"

lemma save_function_out:
  assumes wf: "wf_properties out" and out: "tpt_outputSchema pipelineType = Some out" and ok: "selection_ok out outs"
    and save: "save_function pipeline pipelineType c trimFunction ins outs func = Inr parts"
  shows "paths_of (sp_out parts) = linked_paths out (set outs) \<and> sp_mapping parts = None
    \<and> (\<exists>f. sp_function parts = Some f \<and> tf_outPaths f = outs)"
proof -
  have "antichain (set outs)" using ok leaves_antichain [OF wf] by (simp add: selection_ok_def)
  then have top: "top_paths outs = outs" by (rule top_paths_leaves)
  obtain s r where "add_paths (flat_output pipelineType) outs [] = Inr s" "sort_schema s (tpt_outputSchema pipelineType) = Inr r"
    "tree_paths [] r = linked_paths out (set outs)"
    using selection_part [OF wf keeps_shape_drop ok] flat_output_view [OF out] out by auto
  with save show ?thesis by (auto simp: save_function_def Let_def top result_simps paths_of_def)
qed

lemma save_transformation_out:
  assumes wf: "wf_properties out" and out: "tpt_outputSchema pipelineType = Some out" and page: "page_state out pipeline outs"
    and save: "save_transformation api pipeline pipelineType c trimFunction ins outs = Inr parts"
    and some: "sp_mapping parts \<noteq> None \<or> sp_function parts \<noteq> None"
  defines "paths \<equiv> transformed_paths (Some \<lparr>tr_mapping = sp_mapping parts, tr_function = sp_function parts\<rparr>)"
  shows "paths_of (sp_out parts) = linked_paths out (set paths) \<and> distinct paths \<and> set paths \<subseteq> set (tree_paths [] out)"
proof -
  obtain t where t: "pi_transformation pipeline = Some t"
    using save by (auto simp: save_transformation_def result_simps)
  have keys: "set (obj_keys (flatten_object out)) = set (tree_paths [] out)"
    using keys_flat_entries [of "flattenProperty False" "[]" out] by (simp add: flatten_object_entries [OF wf])
  show ?thesis
  proof (cases "tt_mapping t")
    case (Some m)
    then have m: "pipeline_mapping pipeline = Some m" by (simp add: pipeline_mapping_def t)
    with page obtain saved clean where "unambiguous saved" "editor_reachable saved out clean pipeline" by (auto simp: page_state_def)
    then have "editor_inv (obj_keys (flatten_object out)) clean pipeline" using editor_reachable_inv wf by blast
    note ed = editor_antichain [OF this m]
    have "save_mapping api pipeline pipelineType c m = Inr parts"
      using save Some by (simp add: save_transformation_def t not_null_def)
    note s = save_mapping_spec [OF wf out ed(3,2,1) this]
    with some have paths: "paths = obj_keys (filled_entries m)" "sp_mapping parts = Some (filled_entries m)"
      by (auto simp: paths_def transformed_paths_def split: if_splits)
    have set: "set paths = filled_paths m" by (simp add: paths(1) filled_paths_def obj_keys_def)
    have keys_filled: "obj_keys (filled_entries m) = map fst (filter (\<lambda>(k, tp). tp_value tp \<noteq> []) m)" for m
      by (induction m) auto
    have "distinct (obj_keys (filled_entries m))" if "distinct (obj_keys m)" for m
      using that unfolding keys_filled by (simp add: obj_keys_def distinct_map_filter)
    then have "distinct paths" using ed(3) by (simp add: paths(1) wf_mapping_def)
    with s set filled_paths_keys [of m] keys ed(2) show ?thesis by (auto simp: paths_of_def)
  next
    case None
    with save some obtain func where f: "save_function pipeline pipelineType c trimFunction ins outs func = Inr parts"
      by (auto simp: save_transformation_def t not_null_def split: option.splits)
    have ok: "selection_ok out outs" using page selected_by_user_ok [OF _ wf] by (simp add: page_state_def)
    from save_function_out [OF wf out ok f] have o: "paths_of (sp_out parts) = linked_paths out (set outs)" "paths = outs"
      by (auto simp: paths_def transformed_paths_def)
    have "set outs \<subseteq> set (tree_paths [] out)"
      using ok by (auto simp: selection_ok_def leaf_paths_def tree_paths_segments [OF wf])
    with o ok show ?thesis by (simp add: selection_ok_def)
  qed
qed

lemma find_require_key:
  "find (\<lambda>p. p_name p = key) (require_key key ps) = map_option set_p_required_key (find (\<lambda>p. p_name p = key) ps)"
  by (induction ps) auto

lemma nested_path_dot: "segs \<noteq> [] \<Longrightarrow> k \<in> set (tree_paths segs ps) \<Longrightarrow> 46 \<in> set k"
proof (induction "(\<lambda>_ _ _. ()) :: property \<Rightarrow> nat \<Rightarrow> jsstr \<Rightarrow> unit" segs ps rule: flat_entries.induct)
  case (2 segs p ps)
  then show ?case by (auto simp: path_of_snoc)
qed simp

lemma first_level_path: "no_dot key \<Longrightarrow> key \<in> set (tree_paths [] ps) \<Longrightarrow> key \<in> p_name ` set ps"
proof (induction ps)
  case (Cons p ps)
  with nested_path_dot [of "[p_name p]" key "sub_properties p"] show ?case by (auto simp: no_dot_def)
qed simp

text \<open>
  C18: a saved export of users to a database, from a pipeline without matching properties, has its table
  key among the paths of the saved output schema, and its transformation gives a value to the key and
  to another property. When the key is a first-level property, as a column is, the saved schema has it
  required to create, not required to update, and not nullable. No other pipeline has a table key.
\<close>

theorem saved_table_key:
  assumes "wf_properties out" "tpt_outputSchema pipelineType = Some out" "page_state out pipeline outs"
    and "pi_matching pipeline = None"
    and "transformInPipelineToSet api pipeline settings pipelineType c trimFunction ins outs = Inr ps"
  shows "if cn_type c = CDatabase \<and> cn_role c = Destination \<and> tpt_target pipelineType = TUser
    then \<exists>key o1. ps_tableKey ps = Some key \<and> ps_outSchema ps = Some o1 \<and> key \<in> set (tree_paths [] o1)
      \<and> (no_dot key \<longrightarrow> (\<exists>p. find (\<lambda>p. p_name p = key) o1 = Some p \<and> p_createRequired p \<and> \<not> p_updateRequired p \<and> \<not> p_nullable p))
      \<and> key \<in> set (transformed_paths (ps_transformation ps)) \<and> 2 \<le> card (set (transformed_paths (ps_transformation ps)))
    else ps_tableKey ps = None \<or> ps_tableKey ps = Some []"
proof (rule transformInPipelineToSet_parts [OF assms(5)])
  fix parts1 parts2 parts3 parts4 filters inSchema u
  assume p: "save_transformation api pipeline pipelineType c trimFunction ins outs = Inr parts1"
    "save_matching pipeline pipelineType parts1 = Inr parts2" "save_identity pipeline pipelineType c parts2 = Inr parts3"
    "save_table_key pipeline pipelineType c parts3 = Inr parts4"
    "ps = assemble pipeline c settings parts4 filters (if refers_to_events c pipelineType then None else inSchema) u"
  have same: "sp_out parts3 = sp_out parts1" "sp_mapping parts3 = sp_mapping parts1" "sp_function parts3 = sp_function parts1"
    using save_matching_keeps [OF p(2)] save_identity_keeps [OF p(3)] assms(4) by simp_all
  have key_eq: "ps_tableKey ps = pi_tableKey pipeline" by (simp add: p(5) assemble_def)
  show ?thesis
  proof (cases "cn_type c = CDatabase \<and> cn_role c = Destination \<and> tpt_target pipelineType = TUser")
    case True
    with p(4) obtain key o3 where key: "pi_tableKey pipeline = Some key" "key \<noteq> []"
      and some: "sp_mapping parts1 \<noteq> None \<or> sp_function parts1 \<noteq> None"
      and check: "check_key_transformed key (transformed_paths (Some \<lparr>tr_mapping = sp_mapping parts1, tr_function = sp_function parts1\<rparr>)) = Inr ()"
      and o3: "sp_out parts1 = Some o3" "parts4 = parts3\<lparr>sp_out := Some (require_key key o3)\<rparr>"
      by (auto simp: save_table_key_def result_simps same transformed_paths_def split: option.splits)
    define paths where "paths = transformed_paths (Some \<lparr>tr_mapping = sp_mapping parts1, tr_function = sp_function parts1\<rparr>)"
    from save_transformation_out [OF assms(1,2,3) p(1) some]
    have out: "tree_paths [] o3 = linked_paths out (set paths)" "distinct paths" "set paths \<subseteq> set (tree_paths [] out)"
      by (simp_all add: paths_def o3 paths_of_def)
    have in_paths: "key \<in> set paths" "length paths \<noteq> 1"
      using check by (auto simp: check_key_transformed_def paths_def result_simps)
    have "length paths \<noteq> 0" using in_paths(1) by auto
    then have "2 \<le> length paths" using in_paths(2) by linarith
    then have two: "2 \<le> card (set paths)" using out(2) by (simp add: distinct_card)
    have there: "key \<in> set (tree_paths [] o3)" using in_paths(1) out(3) unfolding out(1) by (auto simp: linked_paths_def)
    then have "ps_outSchema ps = Some (require_key key o3)"
      by (cases o3) (auto simp: p(5) assemble_def o3 non_empty_def)
    moreover have "key \<in> set (tree_paths [] (require_key key o3))" using there by (simp add: tree_paths_require_key)
    moreover have "\<exists>p. find (\<lambda>p. p_name p = key) (require_key key o3) = Some p \<and> p_createRequired p \<and> \<not> p_updateRequired p \<and> \<not> p_nullable p"
      if "no_dot key"
    proof -
      have "key \<in> p_name ` set o3" by (rule first_level_path [OF that there])
      then obtain q where q: "find (\<lambda>p. p_name p = key) o3 = Some q"
        using find_name_None [of key o3] by (cases "find (\<lambda>p. p_name p = key) o3") auto
      moreover have "p_createRequired (set_p_required_key q)" "\<not> p_updateRequired (set_p_required_key q)" "\<not> p_nullable (set_p_required_key q)"
        by (cases q; simp add: set_p_required_key_def)+
      ultimately show ?thesis by (simp add: find_require_key)
    qed
    moreover have "transformed_paths (ps_transformation ps) = paths"
      using some by (auto simp: p(5) assemble_def o3 same paths_def)
    ultimately show ?thesis using True key in_paths two by (auto simp: key_eq)
  next
    case False
    with p(4) show ?thesis by (auto simp: save_table_key_def key_eq result_simps split: option.splits)
  qed
qed

definition example_table :: "property list" where
  "example_table = [plain_property (js ''k'') UUIDType, plain_property (js ''v'') DateType]"

lemma example_table_wf: "wf_properties example_table"
  by (simp add: example_table_def plain_property_def sub_properties_def js_Cons)

definition example_key_mapping :: mapping where
  "example_key_mapping = [(js ''k'', js ''x''), (js ''v'', js ''y'')]"

definition example_key_pipeline :: transformed_pipeline where
  "example_key_pipeline = example_pipeline (transformPipelineMapping example_key_mapping example_table) (Some (js ''k''))"

definition example_table_type :: transformed_pipeline_type where
  "example_table_type = (example_pipeline_type example_table)\<lparr>tpt_inputSchema := Some required_schema\<rparr>"

definition example_database :: transformed_connection where
  "example_database = example_connection ''d'' CDatabase Destination [] []"

lemma example_key_page: "page_state example_table example_key_pipeline []"
proof -
  obtain m where "transformPipelineMapping example_key_mapping example_table = Some m"
    using transformPipelineMapping_spec [OF example_table_wf] by blast
  then have "editor_reachable example_key_mapping example_table True example_key_pipeline"
    by (intro editor_start) (auto simp: pipeline_mapping_def example_pipeline_def example_key_pipeline_def)
  moreover have "unambiguous example_key_mapping" by code_simp
  ultimately show ?thesis unfolding page_state_def using nothing_selected by blast
qed

lemma example_key_saved:
  "is_ok (transformInPipelineToSet example_api example_key_pipeline (None :: unit option) example_table_type example_database True [] [])"
proof -
  have name: "pi_name example_key_pipeline = js ''p''" by (simp add: example_key_pipeline_def example_pipeline_def)
  show ?thesis unfolding transformInPipelineToSet_def name example_name res_bind.simps by code_simp
qed

theorem saved_table_key_witness:
  "\<exists>ps o1 p. transformInPipelineToSet example_api example_key_pipeline (None :: unit option) example_table_type example_database True [] [] = Inr ps
    \<and> ps_outSchema ps = Some o1 \<and> find (\<lambda>p. p_name p = js ''k'') o1 = Some p \<and> p_createRequired p"
proof -
  obtain ps where ps: "transformInPipelineToSet example_api example_key_pipeline (None :: unit option) example_table_type example_database True [] [] = Inr ps"
    using example_key_saved by (auto simp: is_ok_iff)
  have c: "cn_type example_database = CDatabase \<and> cn_role example_database = Destination \<and> tpt_target example_table_type = TUser" by code_simp
  have "tpt_outputSchema example_table_type = Some example_table" "pi_matching example_key_pipeline = None"
    by (simp_all add: example_table_type_def example_pipeline_type_def example_key_pipeline_def example_pipeline_def)
  moreover have key: "pi_tableKey example_key_pipeline = Some (js ''k'')" by (simp add: example_key_pipeline_def example_pipeline_def)
  moreover have "no_dot (js ''k'')" by (simp add: no_dot_def js_Cons)
  moreover have eq: "ps_tableKey ps = pi_tableKey example_key_pipeline"
    using ps by (rule transformInPipelineToSet_parts) (simp add: assemble_def)
  ultimately obtain o1 p where "ps_outSchema ps = Some o1" "find (\<lambda>p. p_name p = js ''k'') o1 = Some p" "p_createRequired p"
    using saved_table_key [OF example_table_wf _ example_key_page _ ps] c by auto
  then show ?thesis using ps by auto
qed

text \<open>
  A table key that is not a first-level property is saved as it is in the schema of the table: the
  loop over the properties of the saved schema does not find it. The key chooser offers such paths.
\<close>

definition example_nested_table :: "property list" where
  "example_nested_table = [plain_property (js ''k'') (ObjectType [plain_property (js ''i'') UUIDType]), plain_property (js ''v'') DateType]"

definition example_nested_pipeline :: transformed_pipeline where
  "example_nested_pipeline = example_pipeline
     (transformPipelineMapping [(js ''k.i'', js ''x''), (js ''v'', js ''y'')] example_nested_table) (Some (js ''k.i''))"

definition example_nested_type :: transformed_pipeline_type where
  "example_nested_type = (example_pipeline_type example_nested_table)\<lparr>tpt_inputSchema := Some required_schema\<rparr>"

definition saves_key_unrequired :: "save_error + 's pipeline_to_set \<Rightarrow> bool" where
  "saves_key_unrequired r =
     (case r of
        Inl _ \<Rightarrow> False
      | Inr ps \<Rightarrow>
          (case ps_outSchema ps of
             None \<Rightarrow> False
           | Some o1 \<Rightarrow>
               (case lookup_path o1 [js ''k'', js ''i''] of None \<Rightarrow> False | Some p \<Rightarrow> \<not> p_createRequired p)))"

lemma nested_table_key_not_required:
  "saves_key_unrequired (transformInPipelineToSet example_api example_nested_pipeline (None :: unit option) example_nested_type
     example_database True [] [])"
proof -
  have name: "pi_name example_nested_pipeline = js ''p''" by (simp add: example_nested_pipeline_def example_pipeline_def)
  show ?thesis unfolding transformInPipelineToSet_def name example_name res_bind.simps by code_simp
qed


subsection \<open>Matching\<close>

text \<open>
  C32: a saved matching names two properties of the matching schemas whose types can be matched. A pipeline
  that may create users matches on a property of the output schema of the same type and
  nullability; one that only updates them needs the same semantics only if the output schema
  requires the property to update. The external property is not one of the transformation.
\<close>

theorem saved_matching:
  assumes "pi_matching pipeline = Some m"
    and "save_matching pipeline pipelineType parts = Inr parts'"
  shows "\<exists>a b. full_at (flattenSchema (map_option ObjectType (tpt_inputMatchingSchema pipelineType)) False) (m_in m) = Some a
    \<and> full_at (flattenSchema (map_option ObjectType (tpt_outputMatchingSchema pipelineType)) False) (m_out m) = Some b
    \<and> validateMatching a b = Inr ()
    \<and> (\<forall>mode. pi_exportMode pipeline = Some mode \<and> includes_create mode \<longrightarrow>
         (\<exists>d. full_at (flat_output pipelineType) (m_out m) = Some d \<and> propertyTypesAreEqual (p_type b) (p_type d) \<and> p_nullable b = p_nullable d))
    \<and> (\<forall>d. full_at (flat_output pipelineType) (m_out m) = Some d \<longrightarrow> p_updateRequired d \<longrightarrow> typeSemanticsAreEqual (p_type b) (p_type d))
    \<and> has_path (sp_out parts) (m_out m) = Some False"
proof -
  from assms obtain tin tout fullOut p where a: "obj_get (the (flattenSchema (map_option ObjectType (tpt_inputMatchingSchema pipelineType)) False)) (m_in m) = Some tin"
      "flattenSchema (map_option ObjectType (tpt_inputMatchingSchema pipelineType)) False \<noteq> None"
      "obj_get (the (flattenSchema (map_option ObjectType (tpt_outputMatchingSchema pipelineType)) False)) (m_out m) = Some tout"
      "flattenSchema (map_option ObjectType (tpt_outputMatchingSchema pipelineType)) False \<noteq> None"
    and v: "validateMatching (tp_full tin) (tp_full tout) = Inr ()"
    and p: "flat_output pipelineType = Some fullOut" "out_matching_property pipeline m (tp_full tout) (full_at (Some fullOut) (m_out m)) = Inr p"
    and free: "has_path (sp_out parts) (m_out m) = Some False"
    by (auto simp: save_matching_def result_simps split: option.splits)
  let ?b = "tp_full tout"
  have create: "\<exists>d. full_at (Some fullOut) (m_out m) = Some d \<and> propertyTypesAreEqual (p_type ?b) (p_type d) \<and> p_nullable ?b = p_nullable d"
    if "pi_exportMode pipeline = Some mode" "includes_create mode" for mode
    using p(2) that by (auto simp: out_matching_property_def includes_create_def split: option.splits if_splits)
  have update: "typeSemanticsAreEqual (p_type ?b) (p_type d)"
    if "full_at (Some fullOut) (m_out m) = Some d" "p_updateRequired d" for d
    using p(2) that equal_types_semantics
    by (auto simp: out_matching_property_def matchingSemanticsAreCompatibleWithDestination_def split: if_splits)
  from a have "full_at (flattenSchema (map_option ObjectType (tpt_inputMatchingSchema pipelineType)) False) (m_in m) = Some (tp_full tin)"
    "full_at (flattenSchema (map_option ObjectType (tpt_outputMatchingSchema pipelineType)) False) (m_out m) = Some ?b"
    by (auto simp: full_at_def)
  with v create update free show ?thesis unfolding p(1) by blast
qed

definition example_matching_pipeline :: transformed_pipeline where
  "example_matching_pipeline = (example_pipeline None None)\<lparr>pi_matching := Some \<lparr>m_in = js ''k'', m_out = js ''k''\<rparr>\<rparr>"

definition example_matching_type :: transformed_pipeline_type where
  "example_matching_type = (example_pipeline_type example_table)\<lparr>tpt_inputSchema := Some example_table,
     tpt_inputMatchingSchema := Some example_table, tpt_outputMatchingSchema := Some example_table\<rparr>"

definition example_matching_parts :: save_parts where
  "example_matching_parts = \<lparr>sp_mapping = None, sp_function = None, sp_in = Some [], sp_out = Some []\<rparr>"

theorem saved_matching_witness:
  "is_ok (save_matching example_matching_pipeline example_matching_type example_matching_parts)
   \<and> (\<exists>d. full_at (flat_output example_matching_type) (js ''k'') = Some d \<and> \<not> p_nullable d)"
proof -
  have ok: "is_ok (save_matching example_matching_pipeline example_matching_type example_matching_parts)" by code_simp
  then obtain parts' where save: "save_matching example_matching_pipeline example_matching_type example_matching_parts = Inr parts'"
    by (auto simp: is_ok_iff)
  have m: "pi_matching example_matching_pipeline = Some \<lparr>m_in = js ''k'', m_out = js ''k''\<rparr>"
    "pi_exportMode example_matching_pipeline = Some CreateOnly"
    by (simp_all add: example_matching_pipeline_def example_pipeline_def)
  obtain b d where "full_at (flattenSchema (map_option ObjectType (tpt_outputMatchingSchema example_matching_type)) False) (js ''k'') = Some b"
    "full_at (flat_output example_matching_type) (js ''k'') = Some d" "p_nullable b = p_nullable d"
    using saved_matching [OF m(1) save] m(2) by (auto simp: includes_create_def)
  moreover have "map_option p_nullable (full_at (flattenSchema (map_option ObjectType (tpt_outputMatchingSchema example_matching_type)) False) (js ''k'')) = Some False"
    by code_simp
  ultimately show ?thesis using ok by auto
qed

subsection \<open>Limits\<close>

text \<open>
  C31: the server is given a name of one to sixty characters that is not blank, no empty schema, no input schema
  for events, each required consent once and at least one, a sheet name of one to
  thirty-one code units without forbidden characters, updates of duplicates only when the
  export updates, and an incremental import only with an update time.
\<close>

theorem saved_pipeline_limits:
  assumes "transformInPipelineToSet api pipeline settings pipelineType c trimFunction ins outs = Inr ps"
  shows "trim (ps_name ps) \<noteq> [] \<and> length (code_points (ps_name ps)) \<le> 60
    \<and> ps_inSchema ps \<noteq> Some [] \<and> ps_outSchema ps \<noteq> Some []
    \<and> (isEventDriven c (tpt_target pipelineType) \<longrightarrow> ps_inSchema ps = None)
    \<and> (case ps_requiredConsents ps of
         None \<Rightarrow> (case pi_requiredConsents pipeline of None \<Rightarrow> True | Some rc \<Rightarrow> rc_purposes rc = [])
       | Some rc \<Rightarrow> distinct (rc_purposes rc) \<and> rc_purposes rc \<noteq> []
           \<and> (\<exists>rc'. pi_requiredConsents pipeline = Some rc' \<and> set (rc_purposes rc) = set (rc_purposes rc') \<and> rc_operator rc = rc_operator rc'))
    \<and> (\<forall>s. ps_sheet ps = Some s \<longrightarrow> length s \<in> {1..31} \<and> set s \<inter> set (js ''*/:?[]'') = {} \<and> ch CHR 0x5C \<notin> set s)
    \<and> (ps_updateOnDuplicates ps = Some True \<longrightarrow> (\<exists>mode. ps_exportMode ps = Some mode \<and> includes_update mode))
    \<and> (isSource c \<and> (isDatabase c \<or> isFileStorage c) \<and> ps_incremental ps = Some True \<longrightarrow> ps_updatedAtColumn ps \<noteq> Some [])"
proof -
  have sheet: "check_sheet (pi_sheet pipeline) = Inr ()"
    using assms by (auto simp: transformInPipelineToSet_def res_bind_eq_Inr)
  show ?thesis
  proof (rule transformInPipelineToSet_parts [OF assms])
    fix parts3 parts4 :: save_parts and filters inSchema u
    assume p: "check_name (pi_name pipeline) = Inr ()" "save_updateOnDuplicates pipeline = Inr u"
      "ps = assemble pipeline c settings parts4 filters (if refers_to_events c pipelineType then None else inSchema) u"
    have name: "trim (ps_name ps) \<noteq> []" "length (code_points (ps_name ps)) \<le> 60"
      using p(1) by (auto simp: p(3) assemble_def check_name_def result_simps)
    have schemas: "ps_inSchema ps \<noteq> Some []" "ps_outSchema ps \<noteq> Some []"
      by (auto simp: p(3) assemble_def non_empty_def split: option.splits)
    have events: "isEventDriven c (tpt_target pipelineType) \<longrightarrow> ps_inSchema ps = None"
      by (cases "cn_role c") (auto simp: p(3) assemble_def non_empty_def refers_to_events_def isEventDriven_def connection_kind_defs)
    have consents: "case ps_requiredConsents ps of
         None \<Rightarrow> (case pi_requiredConsents pipeline of None \<Rightarrow> True | Some rc \<Rightarrow> rc_purposes rc = [])
       | Some rc \<Rightarrow> distinct (rc_purposes rc) \<and> rc_purposes rc \<noteq> []
           \<and> (\<exists>rc'. pi_requiredConsents pipeline = Some rc' \<and> set (rc_purposes rc) = set (rc_purposes rc') \<and> rc_operator rc = rc_operator rc')"
      by (auto simp: p(3) assemble_def save_consents_def set_values_def Let_def split: option.splits)
    have sheets: "length s \<in> {1..31} \<and> set s \<inter> set (js ''*/:?[]'') = {} \<and> ch CHR 0x5C \<notin> set s" if "ps_sheet ps = Some s" for s
    proof -
      have "pi_sheet pipeline = Some s" using that by (simp add: p(3) assemble_def)
      with sheet have "length s \<in> {1..31}" "\<forall>x \<in> set s. x \<notin> set (js ''*/:?[]'') \<and> x \<noteq> ch CHR 0x5C"
        by (auto simp: check_sheet_def result_simps not_less Suc_le_eq)
      then show ?thesis by blast
    qed
    have duplicates: "ps_updateOnDuplicates ps = Some True \<longrightarrow> (\<exists>mode. ps_exportMode ps = Some mode \<and> includes_update mode)"
      using p(2) by (auto simp: p(3) assemble_def save_updateOnDuplicates_def result_simps split: option.splits)
    have incremental: "isSource c \<and> (isDatabase c \<or> isFileStorage c) \<and> ps_incremental ps = Some True \<longrightarrow> ps_updatedAtColumn ps \<noteq> Some []"
      by (auto simp: p(3) assemble_def save_incremental_def)
    show ?thesis using name schemas events consents sheets duplicates incremental by blast
  qed
qed

theorem saved_pipeline_limits_witness:
  "\<exists>ps. transformInPipelineToSet example_api example_edited_pipeline (None :: unit option) example_export_type example_application True [] [] = Inr ps
    \<and> length (code_points (ps_name ps)) \<le> 60 \<and> ps_outSchema ps \<noteq> Some []"
proof -
  obtain ps where ps: "transformInPipelineToSet example_api example_edited_pipeline (None :: unit option) example_export_type example_application True [] [] = Inr ps"
    using example_edited_saved by (auto simp: is_ok_iff)
  with saved_pipeline_limits [OF ps] show ?thesis by blast
qed

end
