(* ===== verification/Map_Expression.thy ===== *)
theory Map_Expression
  imports Js_Prelude
begin

section \<open>Map expressions (utils/mapExpression.ts)\<close>

text \<open>
  The mapping of a property of a map type is edited as pairs of a key and an expression;
  \<open>buildMapExpression\<close> makes a call of \<open>map\<close> of them, \<open>mapExpressionArguments\<close> reads them back. The
  loop of \<open>splitMapKey\<close> has no bound: it returns only when it finds a comma.
\<close>

subsection \<open>splitMapKey\<close>

definition is_map_quote :: "code_unit option \<Rightarrow> bool" where
  "is_map_quote c \<longleftrightarrow> c = Some (ch CHR 0x22) \<or> c = Some (ch CHR 0x27)"

text \<open>\<open>key += s[i]\<close>; past the end the value \<open>undefined\<close> is appended as text.\<close>

definition unit_text :: "code_unit option \<Rightarrow> jsstr" where
  "unit_text c = (case c of None \<Rightarrow> js ''undefined'' | Some c \<Rightarrow> [c])"

partial_function (option) splitMapKey_loop :: "jsstr \<Rightarrow> jsstr \<Rightarrow> code_unit option \<Rightarrow> nat \<Rightarrow> (jsstr \<times> jsstr) option" where
  "splitMapKey_loop s key quote i =
     (case quote of
        None \<Rightarrow>
          if is_map_quote (char_at s i) then splitMapKey_loop s key (char_at s i) (i + 1)
          else if char_at s i = Some (ch CHR '','') then Some (key, drop (i + 1) s)
          else splitMapKey_loop s key None (i + 1)
      | Some q \<Rightarrow>
          if char_at s i = Some q then splitMapKey_loop s key None (i + 1)
          else if char_at s i = Some (ch CHR 0x5C)
            then splitMapKey_loop s (key @ unit_text (char_at s (i + 1))) quote (i + 2)
          else splitMapKey_loop s (key @ unit_text (char_at s i)) quote (i + 1))"

definition splitMapKey :: "jsstr \<Rightarrow> (jsstr \<times> jsstr) option" where
  "splitMapKey s = splitMapKey_loop s [] None 0"

text \<open>What the loop does, read along the text that is left.\<close>

fun key_of :: "code_unit option \<Rightarrow> jsstr \<Rightarrow> (jsstr \<times> jsstr) option" where
  "key_of quote [] = None"
| "key_of None (c # cs) =
     (if is_map_quote (Some c) then key_of (Some c) cs
      else if c = ch CHR '','' then Some ([], cs)
      else key_of None cs)"
| "key_of (Some q) (c # cs) =
     (if c = q then key_of None cs
      else if c = ch CHR 0x5C
        then (case cs of [] \<Rightarrow> None | d # ds \<Rightarrow> map_option (apfst (Cons d)) (key_of (Some q) ds))
      else map_option (apfst (Cons c)) (key_of (Some q) cs))"

lemma splitMapKey_loop_returns: "splitMapKey_loop s key quote i = Some r \<Longrightarrow> i < length s"
proof (rule splitMapKey_loop.raw_induct [where P = "\<lambda>s key quote i r. i < length s"], goal_cases)
  case (1 f s key quote i r)
  note IH = 1(2) and eq = 1(3)
  show ?case
  proof (rule ccontr)
    assume no: "\<not> i < length s"
    then have none: "char_at s i = None" by (simp add: char_at_def)
    have "\<exists>key' quote' j. f s key' quote' j = Some r \<and> i < j"
    proof (cases quote)
      case None
      with eq none have "f s key None (i + 1) = Some r" by (simp add: is_map_quote_def)
      then show ?thesis by (metis less_add_one)
    next
      case (Some q)
      with eq none have "f s (key @ unit_text None) quote (i + 1) = Some r" by simp
      then show ?thesis by (metis less_add_one)
    qed
    then obtain key' quote' j where "f s key' quote' j = Some r" "i < j" by blast
    from IH [OF this(1)] this(2) no show False by simp
  qed
qed

lemma splitMapKey_loop_key_of:
  "splitMapKey_loop s key quote i = map_option (apfst (append key)) (key_of quote (drop i s))"
proof (induction "length s - i" arbitrary: key quote i rule: less_induct)
  case less
  show ?case
  proof (cases "i < length s")
    case False
    then have "splitMapKey_loop s key quote i = None" using splitMapKey_loop_returns by (metis not_Some_eq)
    with False show ?thesis by simp
  next
    case True
    then have drop: "drop i s = s ! i # drop (Suc i) s" by (simp add: Cons_nth_drop_Suc)
    have c: "char_at s i = Some (s ! i)" using True by (simp add: char_at_def)
    have IH: "splitMapKey_loop s key' quote' j = map_option (apfst (append key')) (key_of quote' (drop j s))"
      if "i < j" for key' quote' j
      using less.hyps [of j] that True by auto
    have apfst: "apfst (append key) \<circ> apfst (Cons x) = apfst (append (key @ [x]))" for x :: code_unit
      by (auto simp: fun_eq_iff)
    show ?thesis
    proof (cases quote)
      case None
      then show ?thesis
        by (subst splitMapKey_loop.simps) (simp add: drop c IH)
    next
      case (Some q)
      have skip: "char_at s (Suc i) = None \<and> drop (Suc i) s = [] \<or>
          char_at s (Suc i) = Some (s ! Suc i) \<and> drop (Suc i) s = s ! Suc i # drop (Suc (Suc i)) s"
        by (cases "Suc i < length s") (simp_all add: char_at_def Cons_nth_drop_Suc)
      have past: "splitMapKey_loop s key' quote' (Suc (Suc i)) = None" if "drop (Suc i) s = []" for key' quote'
        using IH [of "Suc (Suc i)" key' quote'] that by simp
      from Some skip show ?thesis
        by (subst splitMapKey_loop.simps)
          (auto simp: drop c IH unit_text_def option.map_comp apfst past)
    qed
  qed
qed

lemma splitMapKey_eq: "splitMapKey s = key_of None s"
  by (cases "key_of None s") (simp_all add: splitMapKey_def splitMapKey_loop_key_of apfst_def map_prod_def)

lemma key_of_shorter: "key_of quote s = Some (k, r) \<Longrightarrow> length r < length s"
  by (induction quote s arbitrary: k r rule: key_of.induct) (fastforce split: if_splits list.splits)+

subsection \<open>splitMapValue\<close>

text \<open>The value up to the first comma that is outside quotes and parentheses, and what follows it.\<close>

fun value_of :: "int \<Rightarrow> code_unit option \<Rightarrow> jsstr \<Rightarrow> jsstr \<times> jsstr" where
  "value_of depth quote [] = ([], [])"
| "value_of depth (Some q) (c # cs) =
     (if c = ch CHR 0x5C
      then (case cs of [] \<Rightarrow> ([c], []) | d # ds \<Rightarrow> apfst (\<lambda>v. c # d # v) (value_of depth (Some q) ds))
      else apfst (Cons c) (value_of depth (if c = q then None else Some q) cs))"
| "value_of depth None (c # cs) =
     (if is_map_quote (Some c) then apfst (Cons c) (value_of depth (Some c) cs)
      else if c = ch CHR ''('' then apfst (Cons c) (value_of (depth + 1) None cs)
      else if c = ch CHR '')'' then apfst (Cons c) (value_of (depth - 1) None cs)
      else if c = ch CHR '','' \<and> depth = 0 then ([], cs)
      else apfst (Cons c) (value_of depth None cs))"

definition splitMapValue :: "jsstr \<Rightarrow> jsstr \<times> jsstr" where
  "splitMapValue s = value_of 0 None s"

lemma value_of_shorter: "length (snd (value_of depth quote s)) \<le> length s"
proof (induction depth quote s rule: value_of.induct)
  case (2 depth q c cs)
  show ?case
  proof (cases "c = ch CHR 0x5C")
    case True
    with 2(1) show ?thesis by (cases cs) (simp_all add: le_SucI)
  next
    case False
    with 2(2) show ?thesis by (simp add: le_SucI)
  qed
next
  case (3 depth c cs)
  then show ?case by (simp add: le_SucI)
qed simp

lemma argument_shorter:
  "splitMapKey s = Some (k, s1) \<Longrightarrow> splitMapValue s1 = (v, s2) \<Longrightarrow> length s2 < length s"
  using key_of_shorter [of None s k s1] value_of_shorter [of 0 None s1]
  by (simp add: splitMapKey_eq splitMapValue_def)

subsection \<open>mapExpressionArguments\<close>

text \<open>The loop over the arguments; \<open>None\<close> when it does not end.\<close>

function map_arguments :: "jsstr \<Rightarrow> jsstr obj \<Rightarrow> jsstr obj option" where
  "map_arguments s args =
     (if s = [] then Some args
      else (case splitMapKey s of
              None \<Rightarrow> None
            | Some (k, s1) \<Rightarrow>
                (case splitMapValue s1 of (v, s2) \<Rightarrow> map_arguments s2 (obj_set args k (trim v)))))"
  by pat_completeness auto
termination map_arguments
  by (relation "measure (\<lambda>(s, _). length s)") (auto intro: argument_shorter [OF _ sym])

declare map_arguments.simps [simp del]

text \<open>The group of \<open>/^map\\s*\\(([\\s\\S]*)\\)$/\<close>, \<open>None\<close> when the text does not match.\<close>

definition match_map :: "jsstr \<Rightarrow> jsstr option" where
  "match_map s =
     (if starts_with s (js ''map'') then
        (case dropWhile is_js_space (drop 3 s) of
           c # cs \<Rightarrow> if c = ch CHR ''('' \<and> cs \<noteq> [] \<and> last cs = ch CHR '')'' then Some (butlast cs) else None
         | [] \<Rightarrow> None)
      else None)"

text \<open>The outer \<open>None\<close> is a call that does not return, the inner one the \<open>null\<close> of the source.\<close>

definition mapExpressionArguments :: "jsstr \<Rightarrow> jsstr obj option option" where
  "mapExpressionArguments expr =
     (case match_map (trim expr) of
        None \<Rightarrow> Some None
      | Some m \<Rightarrow> map_option Some (map_arguments (trim m) []))"

subsection \<open>buildMapExpression\<close>

definition unicode_escape :: "code_unit \<Rightarrow> jsstr" where
  "unicode_escape c =
     js [CHR 0x5C, CHR ''u''] @ map (\<lambda>i. ch (''0123456789abcdef'' ! ((c div 16 ^ i) mod 16))) [3, 2, 1, 0]"

text \<open>\<open>JSON.stringify\<close> of a string, without its quotes: a lone surrogate is escaped.\<close>

fun json_body :: "jsstr \<Rightarrow> jsstr" where
  "json_body [] = []"
| "json_body (c # cs) =
     (if c = 0x22 \<or> c = 0x5C then 0x5C # c # json_body cs
      else if c = 8 then js [CHR 0x5C, CHR ''b''] @ json_body cs
      else if c = 9 then js [CHR 0x5C, CHR ''t''] @ json_body cs
      else if c = 10 then js [CHR 0x5C, CHR ''n''] @ json_body cs
      else if c = 12 then js [CHR 0x5C, CHR ''f''] @ json_body cs
      else if c = 13 then js [CHR 0x5C, CHR ''r''] @ json_body cs
      else if c < 0x20 \<or> is_low_surrogate c then unicode_escape c @ json_body cs
      else if is_high_surrogate c
        then (case cs of
                [] \<Rightarrow> unicode_escape c
              | d # ds \<Rightarrow> if is_low_surrogate d then c # d # json_body ds else unicode_escape c @ json_body cs)
      else c # json_body cs)"

definition json_string :: "jsstr \<Rightarrow> jsstr" where
  "json_string s = [ch CHR 0x22] @ json_body s @ [ch CHR 0x22]"

definition buildMapExpression :: "jsstr obj \<Rightarrow> jsstr" where
  "buildMapExpression args =
     js ''map('' @
     join_with [ch CHR '','']
       (map (\<lambda>(k, v). json_string k @ [ch CHR '',''] @ v) (filter (\<lambda>(k, v). trim k \<noteq> [] \<or> trim v \<noteq> []) args)) @
     js '')''"

text \<open>\<open>getPairsFromExpression\<close> and \<open>getMapExpression\<close> (PipelineTransformation.tsx). The inner \<open>None\<close> is the
  \<open>TypeError\<close> on the size of \<open>null\<close>.\<close>

definition getPairsFromExpression :: "jsstr \<Rightarrow> (jsstr \<times> jsstr) list option option" where
  "getPairsFromExpression expression =
     (let rest = trim_start expression in
      if starts_with rest (js ''map'') \<and> starts_with (dropWhile is_js_space (drop 3 rest)) (js ''('')
      then map_option (map_option (\<lambda>p. if p \<noteq> [] then p else [([], [])])) (mapExpressionArguments expression)
      else Some (Some [([], [])]))"

definition getMapExpression :: "(jsstr \<times> jsstr) list \<Rightarrow> jsstr" where
  "getMapExpression pairs =
     (if list_all (\<lambda>(k, v). k = [] \<and> v = []) pairs then []
      else buildMapExpression (obj_spread [] pairs))"

subsection \<open>Reading back what was built\<close>

text \<open>A key without control characters and lone surrogates: only quotes and backslashes are escaped.\<close>

fun plain_key :: "jsstr \<Rightarrow> bool" where
  "plain_key [] = True"
| "plain_key (c # cs) =
     (0x20 \<le> c \<and> \<not> is_low_surrogate c \<and>
      (if is_high_surrogate c then (case cs of [] \<Rightarrow> False | d # ds \<Rightarrow> is_low_surrogate d \<and> plain_key ds)
       else plain_key cs))"

text \<open>A value without a comma outside quotes and parentheses, and with all of them closed.\<close>

fun whole_value :: "int \<Rightarrow> code_unit option \<Rightarrow> jsstr \<Rightarrow> bool" where
  "whole_value depth quote [] = (quote = None \<and> depth = 0)"
| "whole_value depth (Some q) (c # cs) =
     (if c = ch CHR 0x5C then (case cs of [] \<Rightarrow> False | d # ds \<Rightarrow> whole_value depth (Some q) ds)
      else whole_value depth (if c = q then None else Some q) cs)"
| "whole_value depth None (c # cs) =
     (if is_map_quote (Some c) then whole_value depth (Some c) cs
      else if c = ch CHR ''('' then whole_value (depth + 1) None cs
      else if c = ch CHR '')'' then whole_value (depth - 1) None cs
      else \<not> (c = ch CHR '','' \<and> depth = 0) \<and> whole_value depth None cs)"

lemma value_of_whole:
  "whole_value depth quote v \<Longrightarrow> value_of depth quote (v @ ch CHR '','' # r) = (v, r) \<and> value_of depth quote v = (v, [])"
proof (induction depth quote v rule: whole_value.induct)
  case (1 depth quote)
  then show ?case by (simp add: is_map_quote_def)
next
  case (2 depth q c cs)
  show ?case
  proof (cases "c = ch CHR 0x5C")
    case True
    with 2 show ?thesis by (cases cs) simp_all
  next
    case False
    with 2(2) [OF False] 2(3) show ?thesis by simp
  qed
next
  case (3 depth c cs)
  show ?case
  proof (cases "is_map_quote (Some c)")
    case True
    with 3 have "c \<noteq> ch CHR '','' \<or> depth \<noteq> 0" by (auto simp: is_map_quote_def)
    with True 3 show ?thesis by simp
  next
    case False
    with 3 show ?thesis by (auto split: if_splits)
  qed
qed

lemma surrogate_ranges: "is_high_surrogate c \<Longrightarrow> 0xD800 \<le> c \<and> c < 0xDC00" "is_low_surrogate c \<Longrightarrow> 0xDC00 \<le> c"
  by (simp_all add: is_high_surrogate_def is_low_surrogate_def)

lemma key_of_json_body:
  "plain_key k \<Longrightarrow> key_of (Some 0x22) (json_body k @ 0x22 # rest) = map_option (apfst (append k)) (key_of None rest)"
proof (induction k rule: plain_key.induct)
  case 1
  show ?case by (cases "key_of None rest") (simp_all add: apfst_def map_prod_def split: prod.split)
next
  case (2 c cs)
  have comp: "apfst (Cons x) \<circ> apfst (append y) = apfst (\<lambda>a. x # y @ a)" for x :: code_unit and y
    by (auto simp: fun_eq_iff)
  have eta: "(@) (x # y) = (\<lambda>a. x # y @ a)" for x :: code_unit and y by (simp add: fun_eq_iff)
  have comp2: "apfst (Cons x) \<circ> apfst (\<lambda>a. y # z @ a) = apfst (\<lambda>a. x # y # z @ a)" for x y :: code_unit and z
    by (auto simp: fun_eq_iff)
  show ?case
  proof (cases "is_high_surrogate c")
    case True
    with 2(3) obtain d ds where cs: "cs = d # ds" "is_low_surrogate d" "plain_key ds" by (auto split: list.splits)
    have "c \<noteq> 0x22" "c \<noteq> 0x5C" "d \<noteq> 0x22" "d \<noteq> 0x5C" "\<not> c < 0x20" "c \<noteq> 8" "c \<noteq> 9" "c \<noteq> 10" "c \<noteq> 12" "c \<noteq> 13"
      using surrogate_ranges(1) [OF True] surrogate_ranges(2) [OF cs(2)] by auto
    moreover have "\<not> is_low_surrogate c" using 2(3) by simp
    ultimately show ?thesis using 2(1) [OF True cs(1) cs(3)] True cs by (simp add: option.map_comp comp comp2 eta)
  next
    case False
    with 2(3) have c: "\<not> c < 0x20" "\<not> is_low_surrogate c" "plain_key cs" by auto
    then have "c \<noteq> 8" "c \<noteq> 9" "c \<noteq> 10" "c \<noteq> 12" "c \<noteq> 13" by auto
    with 2(2) [OF False c(3)] False c show ?thesis by (simp add: option.map_comp comp comp2 eta)
  qed
qed

lemma splitMapKey_json_string: "plain_key k \<Longrightarrow> splitMapKey (json_string k @ ch CHR '','' # rest) = Some (k, rest)"
  using key_of_json_body [of k "ch CHR '','' # rest"]
  by (simp add: splitMapKey_eq json_string_def is_map_quote_def apfst_def map_prod_def)

definition serialized :: "jsstr \<times> jsstr \<Rightarrow> jsstr" where
  "serialized = (\<lambda>(k, v). json_string k @ [ch CHR '',''] @ v)"

lemma map_arguments_serialized:
  "\<forall>(k, v) \<in> set es. plain_key k \<and> whole_value 0 None v \<Longrightarrow>
     map_arguments (join_with [ch CHR '',''] (map serialized es)) args = Some (obj_spread args (map (\<lambda>(k, v). (k, trim v)) es))"
proof (induction es arbitrary: args)
  case Nil
  show ?case by (subst map_arguments.simps) (simp add: obj_spread_def)
next
  case (Cons e es)
  obtain k v where e: "e = (k, v)" by (cases e)
  have kv: "plain_key k" "whole_value 0 None v" using Cons.prems by (simp_all add: e)
  have es: "\<forall>(k, v) \<in> set es. plain_key k \<and> whole_value 0 None v" using Cons.prems by simp
  let ?body = "join_with [ch CHR '',''] (map serialized es)"
  define rest where "rest = (if es = [] then [] else ch CHR '','' # ?body)"
  have shape: "join_with [ch CHR '',''] (map serialized (e # es)) = json_string k @ ch CHR '','' # (v @ rest)"
    by (cases es) (simp_all add: e serialized_def rest_def)
  have "splitMapValue (v @ rest) = (v, ?body)"
    using value_of_whole [OF kv(2), of ?body] by (cases es) (simp_all add: splitMapValue_def rest_def)
  moreover note splitMapKey_json_string [OF kv(1), of "v @ rest"]
  moreover have "json_string k @ ch CHR '','' # (v @ rest) \<noteq> []" by simp
  ultimately have "map_arguments (json_string k @ ch CHR '','' # (v @ rest)) args = map_arguments ?body (obj_set args k (trim v))"
    by (simp only: map_arguments.simps [of "json_string k @ ch CHR '','' # (v @ rest)"] if_False option.case prod.case)
  then show ?case
    unfolding shape Cons.IH [OF es] by (simp add: e obj_spread_def)
qed

lemma last_trim: "trim s \<noteq> [] \<Longrightarrow> \<not> is_js_space (last (trim s))"
  using hd_dropWhile [of is_js_space "rev (trim_start s)"] by (simp add: trim_def last_rev)

lemma join_nonempty: "ws \<noteq> [] \<Longrightarrow> last ws \<noteq> [] \<Longrightarrow> join_with sep ws \<noteq> []"
  by (induction ws rule: induct_list012) auto

lemma last_join: "ws \<noteq> [] \<Longrightarrow> last ws \<noteq> [] \<Longrightarrow> last (join_with sep ws) = last (last ws)"
proof (induction ws rule: induct_list012)
  case (3 w x ws)
  then show ?case using join_nonempty [of "x # ws" sep] by simp
qed simp_all

lemma hd_join: "ws \<noteq> [] \<Longrightarrow> hd ws \<noteq> [] \<Longrightarrow> hd (join_with sep ws) = hd (hd ws)"
  by (induction ws rule: induct_list012) auto

lemma trim_serialized:
  assumes "\<forall>(k, v) \<in> set es. trim v = v"
  shows "trim (join_with [ch CHR '',''] (map serialized es)) = join_with [ch CHR '',''] (map serialized es)"
proof (cases es rule: rev_cases)
  case Nil
  then show ?thesis by (simp add: trim_def trim_start_def)
next
  case (snoc es' e)
  obtain k v where e: "e = (k, v)" by (cases e)
  let ?ws = "map serialized es"
  have ne: "serialized x \<noteq> [] \<and> hd (serialized x) = 0x22" for x
    by (cases x) (simp add: serialized_def json_string_def)
  have "trim v = v" using assms snoc e by simp
  then have "\<not> is_js_space (last (serialized e))"
    using last_trim [of v] by (cases "v = []") (simp_all add: serialized_def e is_js_space_def)
  moreover have "?ws \<noteq> []" "last ?ws = serialized e" using snoc by simp_all
  ultimately have "\<not> is_js_space (last (join_with [ch CHR '',''] ?ws))" using last_join [of ?ws] ne by metis
  moreover have "hd ?ws \<noteq> [] \<and> hd (hd ?ws) = 0x22" using snoc ne by (cases es') simp_all
  then have "join_with [ch CHR '',''] ?ws \<noteq> []" "hd (join_with [ch CHR '',''] ?ws) = 0x22"
    using join_nonempty [of ?ws "[ch CHR '','']"] hd_join [of ?ws "[ch CHR '','']"] \<open>?ws \<noteq> []\<close> \<open>last ?ws = serialized e\<close> ne
    by metis+
  ultimately show ?thesis by (intro trim_id) (auto simp: is_js_space_def)
qed

lemma match_map_call:
  assumes "c = js ''map('' @ body @ js '')''"
  shows "match_map (trim c) = Some body"
proof -
  have "trim c = c" unfolding assms by (rule trim_id) (simp_all add: js_Cons is_js_space_def)
  then show ?thesis by (simp add: match_map_def assms js_Cons is_js_space_def)
qed

text \<open>
  C34: the pairs of a map are read back from the expression built of them, in their order: every pair,
  with its key and its value, but those with a blank key and an empty value, which are dropped. The
  keys are distinct and have no control character and no lone surrogate; each value is trimmed, closes
  the quotes and the parentheses it opens, and has no comma outside them.
\<close>

theorem mapExpressionArguments_build:
  assumes "distinct (obj_keys args)"
    and "\<forall>(k, v) \<in> set args. plain_key k \<and> whole_value 0 None v \<and> trim v = v"
  shows "mapExpressionArguments (buildMapExpression args) = Some (Some (filter (\<lambda>(k, v). trim k \<noteq> [] \<or> v \<noteq> []) args))"
proof -
  define es where "es = filter (\<lambda>(k, v). trim k \<noteq> [] \<or> v \<noteq> []) args"
  have same: "filter (\<lambda>(k, v). trim k \<noteq> [] \<or> trim v \<noteq> []) args = es"
    unfolding es_def using assms(2) by (intro filter_cong) auto
  let ?body = "join_with [ch CHR '',''] (map serialized es)"
  have build: "buildMapExpression args = js ''map('' @ ?body @ js '')''"
    by (simp only: buildMapExpression_def same serialized_def)
  have es: "\<forall>(k, v) \<in> set es. plain_key k \<and> whole_value 0 None v" "\<forall>(k, v) \<in> set es. trim v = v"
    unfolding es_def using assms(2) by auto
  have "map (\<lambda>(k, v). (k, trim v)) es = es" using es(2) by (intro map_idI) auto
  moreover have "distinct (obj_keys es)" using assms(1) by (simp add: es_def obj_keys_def distinct_map_filter)
  ultimately have "obj_spread [] (map (\<lambda>(k, v). (k, trim v)) es) = es" using obj_spread_fresh [of es "[]"] by simp
  then have "map_arguments ?body [] = Some es" using map_arguments_serialized [OF es(1), of "[]"] by (simp only:)
  then have "mapExpressionArguments (buildMapExpression args) = Some (Some es)"
    by (simp only: mapExpressionArguments_def match_map_call [OF build] trim_serialized [OF es(2)] option.case option.map)
  then show ?thesis by (simp only: es_def)
qed

definition example_pairs :: "jsstr obj" where
  "example_pairs = [(js [CHR ''a'', CHR 0x22], js ''f(x,y)''), (js ''b'', [])]"

theorem mapExpressionArguments_build_witness:
  "mapExpressionArguments (buildMapExpression example_pairs) = Some (Some example_pairs)"
proof -
  have trims: "trim (js ''f(x,y)'') = js ''f(x,y)''" "trim [] = []" "trim (js [CHR ''a'', CHR 0x22]) \<noteq> []" "trim (js ''b'') \<noteq> []"
    by (simp_all add: trim_def trim_start_def js_Cons is_js_space_def)
  have "distinct (obj_keys example_pairs)" by (simp add: example_pairs_def js_Cons)
  moreover have "\<forall>(k, v) \<in> set example_pairs. plain_key k \<and> whole_value 0 None v \<and> trim v = v"
    using trims by (simp add: example_pairs_def)
      (simp add: js_Cons is_high_surrogate_def is_low_surrogate_def is_map_quote_def)
  ultimately show ?thesis
    using mapExpressionArguments_build [of example_pairs] trims by (simp add: example_pairs_def)
qed

lemma key_of_comma: "key_of quote s = Some r \<Longrightarrow> ch CHR '','' \<in> set s"
  by (induction quote s arbitrary: r rule: key_of.induct) (auto split: if_splits list.splits)

lemma set_trim: "set (trim s) \<subseteq> set s"
  by (auto simp: trim_def trim_start_def dest!: set_dropWhileD)

text \<open>
  C40: reading the arguments of a map call whose text has no comma returns the empty map when the text is
  blank, and otherwise never ends: the loop for the key runs past the end of the text.
\<close>

theorem mapExpressionArguments_diverges:
  assumes "ch CHR '','' \<notin> set s"
  shows "mapExpressionArguments (js ''map('' @ s @ js '')'') = (if trim s = [] then Some (Some []) else None)"
proof -
  have "ch CHR '','' \<notin> set (trim s)" using assms set_trim [of s] by blast
  then have "splitMapKey (trim s) = None"
    using key_of_comma [of None "trim s"] by (cases "key_of None (trim s)") (auto simp: splitMapKey_eq)
  then have "map_arguments (trim s) [] = (if trim s = [] then Some [] else None)" by (subst map_arguments.simps) simp
  then show ?thesis by (simp add: mapExpressionArguments_def match_map_call [OF refl])
qed

theorem mapExpressionArguments_diverges_witness:
  "mapExpressionArguments (js ''map('' @ js ''a'' @ js '')'') = None \<and> mapExpressionArguments (js ''map('' @ js ''  '' @ js '')'') = Some (Some [])"
  using mapExpressionArguments_diverges [of "js ''a''"] mapExpressionArguments_diverges [of "js ''  ''"]
  by (simp add: trim_def trim_start_def js_Cons is_js_space_def)

text \<open>
  a key with a control character is not read back: \<open>JSON.stringify\<close> writes a line feed as a backslash and
  the letter n, and the reader drops the backslash and keeps the letter.
\<close>

theorem mapExpressionArguments_line_feed:
  "mapExpressionArguments (buildMapExpression [([ch CHR ''a'', 10], js ''x'')]) = Some (Some [(js ''an'', js ''x'')])"
proof -
  have trims: "trim [ch CHR ''a'', 10] = js ''a''" "trim (js ''x'') = js ''x''"
    by (simp_all add: trim_def trim_start_def js_Cons is_js_space_def)
  let ?body = "js [CHR 0x22, CHR ''a'', CHR 0x5C, CHR ''n'', CHR 0x22, CHR '','', CHR ''x'']"
  have build: "buildMapExpression [([ch CHR ''a'', 10], js ''x'')] = js ''map('' @ ?body @ js '')''"
    using trims by (simp add: buildMapExpression_def json_string_def js_Cons is_low_surrogate_def is_high_surrogate_def)
  have "trim ?body = ?body" by (rule trim_id) (simp_all add: js_Cons is_js_space_def)
  moreover have "splitMapKey ?body = Some (js ''an'', js ''x'')"
    by (simp add: splitMapKey_eq js_Cons is_map_quote_def)
  moreover have "splitMapValue (js ''x'') = (js ''x'', [])" by (simp add: splitMapValue_def js_Cons is_map_quote_def)
  ultimately have "map_arguments (trim ?body) [] = Some [(js ''an'', js ''x'')]"
    by (simp add: map_arguments.simps [of ?body] map_arguments.simps [of "[]"] trims)
  then show ?thesis
    unfolding mapExpressionArguments_def match_map_call [OF build] by simp
qed

end
