(* ===== verification/Map_Cursor.thy ===== *)
theory Map_Cursor
  imports Js_Prelude
begin

section \<open>The element at the cursor of a map expression (parseMapExpression of utils/mapExpression.ts)\<close>

text \<open>
  \<open>parseMapExpression\<close> is the scanner behind the completions of the editor of expressions: it reads the
  whole expression with a state and a stack of open calls, and keeps what it found at the index of the
  cursor. Each case of its \<open>switch\<close> is a function here, which returns \<open>None\<close> where the source returns
  \<open>null\<close>, and else the index the loop goes on with.
\<close>

subsection \<open>Characters\<close>

definition isNumber :: "code_unit \<Rightarrow> bool" where
  "isNumber c \<longleftrightarrow> ch CHR ''0'' \<le> c \<and> c \<le> ch CHR ''9''"

definition isAlfa :: "code_unit \<Rightarrow> bool" where
  "isAlfa c \<longleftrightarrow> (ch CHR ''a'' \<le> c \<and> c \<le> ch CHR ''z'') \<or> (ch CHR ''A'' \<le> c \<and> c \<le> ch CHR ''Z'') \<or> c = ch CHR ''_''"

definition isAlfaNumeric :: "code_unit \<Rightarrow> bool" where
  "isAlfaNumeric c \<longleftrightarrow> isAlfa c \<or> isNumber c"

definition isBackslash :: "code_unit \<Rightarrow> bool" where "isBackslash c \<longleftrightarrow> c = ch CHR 0x5C"
definition isOpenBracket :: "code_unit \<Rightarrow> bool" where "isOpenBracket c \<longleftrightarrow> c = ch CHR ''[''"
definition isCloseBracket :: "code_unit \<Rightarrow> bool" where "isCloseBracket c \<longleftrightarrow> c = ch CHR '']''"
definition isOpenParenthesis :: "code_unit \<Rightarrow> bool" where "isOpenParenthesis c \<longleftrightarrow> c = ch CHR ''(''"
definition isCloseParenthesis :: "code_unit \<Rightarrow> bool" where "isCloseParenthesis c \<longleftrightarrow> c = ch CHR '')''"
definition isComma :: "code_unit \<Rightarrow> bool" where "isComma c \<longleftrightarrow> c = ch CHR '',''"
definition isDot :: "code_unit \<Rightarrow> bool" where "isDot c \<longleftrightarrow> c = ch CHR ''.''"

definition isQuote :: "code_unit \<Rightarrow> bool" where
  "isQuote c \<longleftrightarrow> c = ch CHR 0x22 \<or> c = ch CHR 0x27"

definition isSpace :: "code_unit \<Rightarrow> bool" where
  "isSpace c \<longleftrightarrow> c = ch CHR '' '' \<or> c = 9 \<or> c = 10 \<or> c = 13"

lemmas char_tests = isNumber_def isAlfa_def isAlfaNumeric_def isBackslash_def isOpenBracket_def isCloseBracket_def
  isOpenParenthesis_def isCloseParenthesis_def isComma_def isDot_def isQuote_def isSpace_def

subsection \<open>The scanner\<close>

datatype fragment_type = PropertyFragment | FunctionFragment | StringFragment | NumberFragment

text \<open>\<open>ExpressionFragment\<close>: the call and the parameter the index is in, and the element at the index.\<close>

record fragment =
  func :: "(jsstr \<times> nat) option"
  fragment_type :: "fragment_type option"
  pos :: "(nat \<times> nat) option"

datatype scan_state = Idle | InNumber | InPath | InString

text \<open>The stack of open calls has its top first.\<close>

record scanner =
  cursor :: fragment
  state :: scan_state
  stack :: "(jsstr \<times> nat) list"
  start :: nat
  quote :: "code_unit option"

definition checkFunction :: "nat \<Rightarrow> nat \<Rightarrow> scanner \<Rightarrow> scanner" where
  "checkFunction index i st =
     (if i = index \<and> stack st \<noteq> [] then st\<lparr>cursor := (cursor st)\<lparr>func := Some (hd (stack st))\<rparr>\<rparr> else st)"

text \<open>The statement \<open>if (s <= index && index <= reach) { cursor.type = ...; cursor.pos = ... }\<close>.\<close>

definition report :: "nat \<Rightarrow> nat \<Rightarrow> fragment_type \<Rightarrow> nat \<Rightarrow> nat \<Rightarrow> scanner \<Rightarrow> scanner" where
  "report index reach ty s e st =
     (if s \<le> index \<and> index \<le> reach
      then st\<lparr>cursor := (cursor st)\<lparr>fragment_type := Some ty, pos := Some (s, e)\<rparr>\<rparr> else st)"

fun next_parameter :: "scanner \<Rightarrow> scanner option" where
  "next_parameter st =
     (case stack st of [] \<Rightarrow> None | (name, p) # calls \<Rightarrow> Some (st\<lparr>stack := (name, p + 1) # calls\<rparr>))"

fun pop_call :: "scanner \<Rightarrow> scanner option" where
  "pop_call st = (case stack st of [] \<Rightarrow> None | _ # calls \<Rightarrow> Some (st\<lparr>stack := calls\<rparr>))"

subsection \<open>parseBracketAccess\<close>

function bracket_blanks :: "jsstr \<Rightarrow> nat \<Rightarrow> nat \<Rightarrow> scanner \<Rightarrow> nat \<times> scanner" where
  "bracket_blanks expr index j st =
     (if j < length expr \<and> isSpace (expr ! j) then bracket_blanks expr index (j + 1) (checkFunction index j st)
      else (j, st))"
  by pat_completeness auto
termination bracket_blanks by (relation "measure (\<lambda>(expr, _, j, _). length expr - j)") auto

function bracket_text :: "jsstr \<Rightarrow> nat \<Rightarrow> code_unit \<Rightarrow> nat \<Rightarrow> scanner \<Rightarrow> (nat \<times> scanner) option" where
  "bracket_text expr index q j st =
     (if j < length expr
      then (let st = checkFunction index j st in
            if isBackslash (expr ! j)
            then (if j + 1 < length expr then bracket_text expr index q (j + 2) (checkFunction index (j + 1) st) else None)
            else if expr ! j = q then Some (j, st)
            else bracket_text expr index q (j + 1) st)
      else None)"
  by pat_completeness auto
termination bracket_text by (relation "measure (\<lambda>(expr, _, _, j, _). length expr - j)") auto

declare bracket_blanks.simps [simp del] bracket_text.simps [simp del]

definition parseBracketAccess :: "jsstr \<Rightarrow> nat \<Rightarrow> nat \<Rightarrow> scanner \<Rightarrow> (nat \<times> nat \<times> nat \<times> scanner) option" where
  "parseBracketAccess expr index startIndex st =
     (case bracket_blanks expr index (startIndex + 1) st of
        (j, st) \<Rightarrow>
          if \<not> j < length expr \<or> \<not> isQuote (expr ! j) then None
          else (case bracket_text expr index (expr ! j) (j + 1) st of
                  None \<Rightarrow> None
                | Some (propertyEnd, st) \<Rightarrow>
                    (case bracket_blanks expr index (propertyEnd + 1) st of
                       (k, st) \<Rightarrow>
                         if \<not> k < length expr \<or> \<not> isCloseBracket (expr ! k) then None
                         else Some (k, j + 1, propertyEnd, checkFunction index k st))))"

subsection \<open>The cases of the switch\<close>

definition scan_idle :: "jsstr \<Rightarrow> nat \<Rightarrow> scanner \<Rightarrow> (nat \<times> scanner) option" where
  "scan_idle expr i st =
     (let c = expr ! i in
      if isSpace c then Some (i + 1, st)
      else if isAlfa c then Some (i + 1, st\<lparr>state := InPath, start := i\<rparr>)
      else if isQuote c then Some (i + 1, st\<lparr>state := InString, quote := Some c, start := i\<rparr>)
      else if isNumber c then Some (i + 1, st\<lparr>state := InNumber, start := i\<rparr>)
      else if isComma c then map_option (Pair (i + 1)) (next_parameter st)
      else if isCloseParenthesis c then map_option (Pair (i + 1)) (pop_call st)
      else None)"

definition scan_number :: "jsstr \<Rightarrow> nat \<Rightarrow> nat \<Rightarrow> scanner \<Rightarrow> (nat \<times> scanner) option" where
  "scan_number expr index i st =
     (let c = expr ! i in
      if isNumber c then Some (i + 1, st)
      else if isDot c then (if ch CHR ''.'' \<in> set (slice (start st) i expr) then None else Some (i + 1, st))
      else (let st = report index i NumberFragment (start st) i st in
            if isSpace c then Some (i + 1, st\<lparr>state := Idle\<rparr>)
            else if isComma c then map_option (Pair (i + 1)) (next_parameter st)
            else if isCloseParenthesis c then map_option (\<lambda>st. (i + 1, st\<lparr>state := Idle\<rparr>)) (pop_call st)
            else if isQuote c then Some (i + 1, st\<lparr>state := InString, quote := Some c, start := i\<rparr>)
            else None))"

function path_blanks :: "jsstr \<Rightarrow> nat \<Rightarrow> nat \<Rightarrow> scanner \<Rightarrow> nat \<times> scanner" where
  "path_blanks expr index i st =
     (if i < length expr \<and> isSpace (expr ! i) then path_blanks expr index (i + 1) (checkFunction index (i + 1) st)
      else (i, st))"
  by pat_completeness auto
termination path_blanks by (relation "measure (\<lambda>(expr, _, i, _). length expr - i)") auto

declare path_blanks.simps [simp del]

text \<open>After a name that is not a call the same character is read again, in the idle state: the source steps
  back by one before the loop steps forward.\<close>

definition scan_path :: "jsstr \<Rightarrow> nat \<Rightarrow> nat \<Rightarrow> scanner \<Rightarrow> (nat \<times> scanner) option" where
  "scan_path expr index i st =
     (let c = expr ! i in
      if isAlfaNumeric c then Some (i + 1, st)
      else if isOpenBracket c
        then (case parseBracketAccess expr index i (report index i PropertyFragment (start st) i st) of
                None \<Rightarrow> None
              | Some (nextIndex, s, e, st) \<Rightarrow>
                  Some (nextIndex + 1, checkFunction index nextIndex (report index e PropertyFragment s e st)))
      else if isDot c
        then (if i + 1 < length expr \<and> isAlfa (expr ! (i + 1)) then Some (i + 2, checkFunction index (i + 1) st) else None)
      else (case path_blanks expr index i (report index i PropertyFragment (start st) i (st\<lparr>state := Idle\<rparr>)) of
              (k, st) \<Rightarrow>
                if \<not> k < length expr then Some (k + 1, st)
                else if \<not> isOpenParenthesis (expr ! k) then Some (k, st)
                else if ch CHR ''.'' \<in> set (slice (start st) i expr) then None
                else let st = report index k FunctionFragment (start st) i st in
                     Some (k + 1, st\<lparr>stack := (slice (start st) i expr, 0) # stack st\<rparr>)))"

definition scan_string :: "jsstr \<Rightarrow> nat \<Rightarrow> nat \<Rightarrow> scanner \<Rightarrow> (nat \<times> scanner) option" where
  "scan_string expr index i st =
     (let c = expr ! i in
      if isBackslash c then Some (i + 2, checkFunction index (i + 1) st)
      else if Some c = quote st
        then Some (i + 1, (report index i StringFragment (start st) i st)\<lparr>state := Idle, quote := None\<rparr>)
      else Some (i + 1, st))"

definition scan_step :: "jsstr \<Rightarrow> nat \<Rightarrow> nat \<Rightarrow> scanner \<Rightarrow> (nat \<times> scanner) option" where
  "scan_step expr index i st =
     (case state st of
        Idle \<Rightarrow> scan_idle expr i st
      | InNumber \<Rightarrow> scan_number expr index i st
      | InPath \<Rightarrow> scan_path expr index i st
      | InString \<Rightarrow> scan_string expr index i st)"

subsection \<open>Progress\<close>

lemma checkFunction_simps [simp]:
  "state (checkFunction index i st) = state st" "stack (checkFunction index i st) = stack st"
  "start (checkFunction index i st) = start st" "quote (checkFunction index i st) = quote st"
  by (simp_all add: checkFunction_def)

lemma report_simps [simp]:
  "state (report index r ty s e st) = state st" "stack (report index r ty s e st) = stack st"
  "start (report index r ty s e st) = start st" "quote (report index r ty s e st) = quote st"
  by (simp_all add: report_def)

lemma next_parameter_SomeE:
  assumes "next_parameter st = Some st'"
  obtains name p calls where "stack st = (name, p) # calls" "st' = st\<lparr>stack := (name, p + 1) # calls\<rparr>"
  using assms by (cases st rule: next_parameter.cases) (auto split: list.splits)

lemma pop_call_SomeE:
  assumes "pop_call st = Some st'"
  obtains f calls where "stack st = f # calls" "st' = st\<lparr>stack := calls\<rparr>"
  using assms by (cases st rule: pop_call.cases) (auto split: list.splits)

declare next_parameter.simps [simp del] pop_call.simps [simp del]

lemma bracket_blanks_ge: "bracket_blanks expr index j st = (k, st') \<Longrightarrow> j \<le> k"
proof (induction expr index j st arbitrary: k st' rule: bracket_blanks.induct)
  case (1 expr index j st)
  show ?case
  proof (cases "j < length expr \<and> isSpace (expr ! j)")
    case True
    with 1(2) have "bracket_blanks expr index (j + 1) (checkFunction index j st) = (k, st')"
      by (subst (asm) bracket_blanks.simps) simp
    from 1(1) [OF True this] show ?thesis by simp
  next
    case False
    with 1(2) show ?thesis by (subst (asm) bracket_blanks.simps) auto
  qed
qed

lemma bracket_text_ge: "bracket_text expr index q j st = Some (e, st') \<Longrightarrow> j \<le> e \<and> e < length expr \<and> expr ! e = q"
proof (induction expr index q j st arbitrary: e st' rule: bracket_text.induct)
  case (1 expr index q j st)
  let ?st = "checkFunction index j st"
  have j: "j < length expr" using 1(3) by (subst (asm) bracket_text.simps) (simp split: if_splits)
  show ?case
  proof (cases "isBackslash (expr ! j)")
    case True
    with 1(3) j have "j + 1 < length expr" "bracket_text expr index q (j + 2) (checkFunction index (j + 1) ?st) = Some (e, st')"
      by (subst (asm) bracket_text.simps, simp split: if_splits)+
    from 1(1) [OF j refl True this] show ?thesis by simp
  next
    case False
    show ?thesis
    proof (cases "expr ! j = q")
      case True
      with 1(3) j False show ?thesis by (subst (asm) bracket_text.simps) simp
    next
      case other: False
      with 1(3) j False have "bracket_text expr index q (j + 1) ?st = Some (e, st')"
        by (subst (asm) bracket_text.simps) simp
      from 1(2) [OF j refl False other this] show ?thesis by simp
    qed
  qed
qed

lemma parseBracketAccess_SomeE:
  assumes "parseBracketAccess expr index i st = Some (k, s, e, st')"
  obtains j st1 st2 st3 where "bracket_blanks expr index (i + 1) st = (j, st1)" "j < length expr" "isQuote (expr ! j)"
    "bracket_text expr index (expr ! j) (j + 1) st1 = Some (e, st2)" "bracket_blanks expr index (e + 1) st2 = (k, st3)"
    "k < length expr" "s = j + 1" "st' = checkFunction index k st3"
  using assms unfolding parseBracketAccess_def by (auto split: prod.splits option.splits if_splits)

lemma parseBracketAccess_range:
  assumes "parseBracketAccess expr index i st = Some (k, s, e, st')"
  shows "i < s \<and> 0 < s \<and> s \<le> e \<and> e < k \<and> k < length expr \<and> isQuote (expr ! (s - 1)) \<and> expr ! e = expr ! (s - 1)"
  using assms
proof (rule parseBracketAccess_SomeE)
  fix j st1 st2 st3
  assume 1: "bracket_blanks expr index (i + 1) st = (j, st1)" "isQuote (expr ! j)" "k < length expr" "s = j + 1"
    and 2: "bracket_text expr index (expr ! j) (j + 1) st1 = Some (e, st2)" "bracket_blanks expr index (e + 1) st2 = (k, st3)"
  from bracket_blanks_ge [OF 1(1)] bracket_text_ge [OF 2(1)] bracket_blanks_ge [OF 2(2)] 1(2-4) show ?thesis by simp
qed

lemma path_blanks_ge:
  "path_blanks expr index i st = (k, st') \<Longrightarrow>
     i \<le> k \<and> (\<forall>j. i \<le> j \<and> j < k \<longrightarrow> isSpace (expr ! j)) \<and> state st' = state st"
proof (induction expr index i st arbitrary: k st' rule: path_blanks.induct)
  case (1 expr index i st)
  show ?case
  proof (cases "i < length expr \<and> isSpace (expr ! i)")
    case True
    with 1(2) have "path_blanks expr index (i + 1) (checkFunction index (i + 1) st) = (k, st')"
      by (subst (asm) path_blanks.simps) simp
    from 1(1) [OF True this] True show ?thesis
      by (auto simp: less_eq_Suc_le [symmetric]) (metis le_neq_implies_less)
  next
    case False
    with 1(2) show ?thesis by (subst (asm) path_blanks.simps) auto
  qed
qed

text \<open>Every round of the loop moves on, or leaves the state of a path where it is.\<close>

lemma scan_step_progress:
  assumes "scan_step expr index i st = Some (i', st')"
  shows "i < i' \<or> (i' = i \<and> state st = InPath \<and> state st' = Idle)"
proof (cases "state st")
  case Idle
  with assms show ?thesis by (auto simp: scan_step_def scan_idle_def Let_def split: if_splits)
next
  case InNumber
  with assms show ?thesis by (auto simp: scan_step_def scan_number_def Let_def split: if_splits)
next
  case InString
  with assms show ?thesis by (auto simp: scan_step_def scan_string_def Let_def split: if_splits)
next
  case InPath
  with assms show ?thesis
    by (auto simp: scan_step_def scan_path_def Let_def split: if_splits option.splits prod.splits
        dest!: parseBracketAccess_range path_blanks_ge)
qed

function scan :: "jsstr \<Rightarrow> nat \<Rightarrow> nat \<Rightarrow> scanner \<Rightarrow> (nat \<times> scanner) option" where
  "scan expr index i st =
     (if i < length expr
      then (case scan_step expr index i (checkFunction index i st) of
              None \<Rightarrow> None
            | Some (i', st') \<Rightarrow> scan expr index i' st')
      else Some (i, st))"
  by pat_completeness auto
termination scan
proof (relation "measure (\<lambda>(expr, _, i, st). 2 * (length expr - i) + (if state st = InPath then 1 else 0))", goal_cases)
  case 1
  show ?case by simp
next
  case (2 expr index i st p i' st')
  from scan_step_progress [of expr index i "checkFunction index i st" i' st'] 2 show ?case by auto
qed

declare scan.simps [simp del]

definition no_fragment :: fragment where
  "no_fragment = \<lparr>func = None, fragment_type = None, pos = None\<rparr>"

definition first_scanner :: scanner where
  "first_scanner = \<lparr>cursor = no_fragment, state = Idle, stack = [], start = 0, quote = None\<rparr>"

definition outside_pos :: "nat \<Rightarrow> fragment \<Rightarrow> bool" where
  "outside_pos index c = (case pos c of None \<Rightarrow> True | Some (s, e) \<Rightarrow> index < s \<or> e < index)"

definition parseMapExpression :: "jsstr \<Rightarrow> nat \<Rightarrow> fragment option" where
  "parseMapExpression expr index =
     (case scan expr index 0 first_scanner of
        None \<Rightarrow> None
      | Some (i, st) \<Rightarrow>
          if stack st \<noteq> [] \<or> state st = InString then None
          else if state st = InPath \<and> outside_pos index (cursor st)
            then Some (cursor (report index i PropertyFragment (start st) i st))
          else Some (cursor st))"

subsection \<open>What is found at the cursor\<close>

definition blank_between :: "jsstr \<Rightarrow> nat \<Rightarrow> nat \<Rightarrow> bool" where
  "blank_between expr e q \<longleftrightarrow> e \<le> q \<and> q < length expr \<and> (\<forall>k. e \<le> k \<and> k < q \<longrightarrow> isSpace (expr ! k)) \<and> isOpenParenthesis (expr ! q)"

text \<open>A name without dots, from \<open>s\<close> to \<open>e\<close>, that is called by the parenthesis at \<open>q\<close>.\<close>

definition called_name :: "jsstr \<Rightarrow> nat \<Rightarrow> nat \<Rightarrow> nat \<Rightarrow> bool" where
  "called_name expr s e q \<longleftrightarrow> s < e \<and> isAlfa (expr ! s) \<and> ch CHR ''.'' \<notin> set (slice s e expr) \<and> blank_between expr e q"

text \<open>The call is open before \<open>i\<close>, and has a parameter for each comma at most.\<close>

definition call_open :: "jsstr \<Rightarrow> nat \<Rightarrow> jsstr \<times> nat \<Rightarrow> bool" where
  "call_open expr i = (\<lambda>(name, p). \<exists>s e q. called_name expr s e q \<and> name = slice s e expr \<and> q + p < i)"

definition element_at :: "jsstr \<Rightarrow> nat \<Rightarrow> fragment_type \<Rightarrow> nat \<Rightarrow> nat \<Rightarrow> bool" where
  "element_at expr index ty s e \<longleftrightarrow> s \<le> e \<and> e \<le> length expr \<and> s \<le> index \<and>
     (case ty of
        PropertyFragment \<Rightarrow> index \<le> e \<and>
          (isAlfa (expr ! s) \<or> (0 < s \<and> e < length expr \<and> isQuote (expr ! (s - 1)) \<and> expr ! e = expr ! (s - 1)))
      | FunctionFragment \<Rightarrow> (\<exists>q. called_name expr s e q \<and> index \<le> q)
      | StringFragment \<Rightarrow> index \<le> e \<and> s < e \<and> e < length expr \<and> isQuote (expr ! s) \<and> expr ! e = expr ! s
      | NumberFragment \<Rightarrow> index \<le> e \<and> s < e \<and> isNumber (expr ! s))"

fun position_ok :: "jsstr \<Rightarrow> nat \<Rightarrow> fragment_type option \<Rightarrow> (nat \<times> nat) option \<Rightarrow> bool" where
  "position_ok expr index None None = True"
| "position_ok expr index (Some ty) (Some (s, e)) = element_at expr index ty s e"
| "position_ok expr index _ _ = False"

definition fragment_ok :: "jsstr \<Rightarrow> nat \<Rightarrow> fragment \<Rightarrow> bool" where
  "fragment_ok expr index c \<longleftrightarrow>
     (case func c of None \<Rightarrow> True | Some f \<Rightarrow> call_open expr index f) \<and>
     position_ok expr index (fragment_type c) (pos c)"

lemma call_open_mono: "call_open expr i f \<Longrightarrow> i \<le> j \<Longrightarrow> call_open expr j f"
  by (cases f) (fastforce simp: call_open_def)

definition watching :: "jsstr \<Rightarrow> nat \<Rightarrow> nat \<Rightarrow> scanner \<Rightarrow> bool" where
  "watching expr index i st \<longleftrightarrow> fragment_ok expr index (cursor st) \<and> list_all (call_open expr i) (stack st)"

lemma watching_mono: "watching expr index i st \<Longrightarrow> i \<le> j \<Longrightarrow> watching expr index j st"
  by (auto simp: watching_def list_all_iff intro: call_open_mono)

text \<open>A part of a round that only moves over text: the control of the scanner stays, and what is watched stays right.\<close>

definition moves :: "jsstr \<Rightarrow> nat \<Rightarrow> nat \<Rightarrow> scanner \<Rightarrow> scanner \<Rightarrow> bool" where
  "moves expr index i st st' \<longleftrightarrow>
     state st' = state st \<and> stack st' = stack st \<and> start st' = start st \<and> quote st' = quote st \<and>
     (watching expr index i st \<longrightarrow> watching expr index i st')"

lemma moves_refl: "moves expr index i st st"
  by (simp add: moves_def)

lemma moves_trans [trans]: "moves expr index i a b \<Longrightarrow> moves expr index i b c \<Longrightarrow> moves expr index i a c"
  by (simp add: moves_def)

lemma moves_check: "i \<le> j \<Longrightarrow> moves expr index i st (checkFunction index j st)"
  by (cases "stack st")
    (auto simp: moves_def watching_def checkFunction_def fragment_ok_def intro: call_open_mono)

lemma moves_report:
  "(s \<le> index \<Longrightarrow> index \<le> r \<Longrightarrow> element_at expr index ty s e) \<Longrightarrow> moves expr index i st (report index r ty s e st)"
  by (auto simp: moves_def watching_def report_def fragment_ok_def)

lemma moves_bracket_blanks:
  "bracket_blanks expr index j st = (k, st') \<Longrightarrow> i \<le> j \<Longrightarrow> moves expr index i st st'"
proof (induction expr index j st arbitrary: k st' rule: bracket_blanks.induct)
  case (1 expr index j st)
  show ?case
  proof (cases "j < length expr \<and> isSpace (expr ! j)")
    case True
    with 1(2) have "bracket_blanks expr index (j + 1) (checkFunction index j st) = (k, st')"
      by (subst (asm) bracket_blanks.simps) simp
    from 1(1) [OF True this] 1(3) have "moves expr index i (checkFunction index j st) st'" by simp
    with moves_check [OF 1(3)] show ?thesis by (rule moves_trans)
  next
    case False
    with 1(2) show ?thesis by (subst (asm) bracket_blanks.simps) (auto simp: moves_refl)
  qed
qed

lemma moves_path_blanks:
  "path_blanks expr index j st = (k, st') \<Longrightarrow> i \<le> j \<Longrightarrow> moves expr index i st st'"
proof (induction expr index j st arbitrary: k st' rule: path_blanks.induct)
  case (1 expr index j st)
  show ?case
  proof (cases "j < length expr \<and> isSpace (expr ! j)")
    case True
    with 1(2) have "path_blanks expr index (j + 1) (checkFunction index (j + 1) st) = (k, st')"
      by (subst (asm) path_blanks.simps) simp
    from 1(1) [OF True this] 1(3) have "moves expr index i (checkFunction index (j + 1) st) st'" by simp
    with moves_check [of i "j + 1"] 1(3) show ?thesis by (meson moves_trans trans_le_add1)
  next
    case False
    with 1(2) show ?thesis by (subst (asm) path_blanks.simps) (auto simp: moves_refl)
  qed
qed

lemma moves_bracket_text:
  "bracket_text expr index q j st = Some (e, st') \<Longrightarrow> i \<le> j \<Longrightarrow> moves expr index i st st'"
proof (induction expr index q j st arbitrary: e st' rule: bracket_text.induct)
  case (1 expr index q j st)
  let ?st = "checkFunction index j st"
  have j: "j < length expr" using 1(3) by (subst (asm) bracket_text.simps) (simp split: if_splits)
  have first: "moves expr index i st ?st" by (rule moves_check [OF 1(4)])
  show ?case
  proof (cases "isBackslash (expr ! j)")
    case True
    with 1(3) j have *: "j + 1 < length expr" "bracket_text expr index q (j + 2) (checkFunction index (j + 1) ?st) = Some (e, st')"
      by (subst (asm) bracket_text.simps, simp split: if_splits)+
    from 1(1) [OF j refl True *] 1(4) have "moves expr index i (checkFunction index (j + 1) ?st) st'" by simp
    moreover have "moves expr index i ?st (checkFunction index (j + 1) ?st)" using 1(4) by (simp add: moves_check)
    ultimately show ?thesis using first by (blast intro: moves_trans)
  next
    case False
    show ?thesis
    proof (cases "expr ! j = q")
      case True
      with 1(3) j False have "st' = ?st" by (subst (asm) bracket_text.simps) auto
      with first show ?thesis by simp
    next
      case other: False
      with 1(3) j False have "bracket_text expr index q (j + 1) ?st = Some (e, st')"
        by (subst (asm) bracket_text.simps) simp
      from 1(2) [OF j refl False other this] 1(4) first show ?thesis by (simp add: moves_def)
    qed
  qed
qed

lemma moves_parseBracketAccess:
  assumes "parseBracketAccess expr index i st = Some (k, s, e, st')"
  shows "moves expr index i st st'"
  using assms
proof (rule parseBracketAccess_SomeE)
  fix j st1 st2 st3
  assume 1: "bracket_blanks expr index (i + 1) st = (j, st1)"
    and 2: "bracket_text expr index (expr ! j) (j + 1) st1 = Some (e, st2)"
    and 3: "bracket_blanks expr index (e + 1) st2 = (k, st3)" and 4: "st' = checkFunction index k st3"
  have order: "i \<le> j" "i \<le> e" "i \<le> k"
    using bracket_blanks_ge [OF 1] bracket_text_ge [OF 2] bracket_blanks_ge [OF 3] by auto
  have "moves expr index i st st1" by (rule moves_bracket_blanks [OF 1]) simp
  also have "moves expr index i st1 st2" by (rule moves_bracket_text [OF 2]) (use order in simp)
  also have "moves expr index i st2 st3" by (rule moves_bracket_blanks [OF 3]) (use order in simp)
  also have "moves expr index i st3 st'" unfolding 4 by (rule moves_check [OF order(3)])
  finally show ?thesis .
qed

subsection \<open>The invariant of the scanner\<close>

text \<open>The element that is being read started before \<open>i\<close>, with a character of its kind.\<close>

definition reading :: "jsstr \<Rightarrow> nat \<Rightarrow> scanner \<Rightarrow> bool" where
  "reading expr i st \<longleftrightarrow>
     (case state st of
        Idle \<Rightarrow> True
      | InNumber \<Rightarrow> start st < i \<and> i \<le> length expr \<and> isNumber (expr ! start st)
      | InPath \<Rightarrow> start st < i \<and> i \<le> length expr \<and> isAlfa (expr ! start st)
      | InString \<Rightarrow> start st < i \<and> isQuote (expr ! start st) \<and> quote st = Some (expr ! start st))"

definition scanner_ok :: "jsstr \<Rightarrow> nat \<Rightarrow> nat \<Rightarrow> scanner \<Rightarrow> bool" where
  "scanner_ok expr index i st \<longleftrightarrow> watching expr index i st \<and> reading expr i st"

lemma scanner_ok_moves:
  assumes "scanner_ok expr index i st" and "moves expr index i st st'" and "i \<le> j"
    and "state st = Idle \<or> state st = InString \<or> j \<le> length expr"
  shows "scanner_ok expr index j st'"
  using assms watching_mono [of expr index i st' j]
  by (auto simp: scanner_ok_def moves_def reading_def split: scan_state.splits)

lemma next_parameter_ok:
  assumes "next_parameter st = Some st'" and "watching expr index i st"
  shows "watching expr index (i + 1) st' \<and> state st' = state st \<and> start st' = start st \<and> quote st' = quote st"
  using assms(1)
proof (rule next_parameter_SomeE)
  fix name p calls
  assume stack: "stack st = (name, p) # calls" and st': "st' = st\<lparr>stack := (name, p + 1) # calls\<rparr>"
  have "call_open expr i (name, p)" "list_all (call_open expr i) calls" using assms(2) stack by (simp_all add: watching_def)
  then have "call_open expr (i + 1) (name, p + 1)" "list_all (call_open expr (i + 1)) calls"
    by (force simp: call_open_def, auto simp: list_all_iff intro: call_open_mono)
  then show ?thesis using assms(2) by (simp add: st' watching_def)
qed

lemma pop_call_ok:
  assumes "pop_call st = Some st'" and "watching expr index i st"
  shows "watching expr index (i + 1) st' \<and> state st' = state st"
  using assms(1)
proof (rule pop_call_SomeE)
  fix f calls
  assume *: "stack st = f # calls" "st' = st\<lparr>stack := calls\<rparr>"
  then have "watching expr index i st'" using assms(2) by (simp add: watching_def)
  with watching_mono [OF this, of "i + 1"] show ?thesis by (simp add: *(2))
qed

lemma watching_control [simp]:
  "watching expr index i (st\<lparr>state := s\<rparr>) = watching expr index i st"
  "watching expr index i (st\<lparr>start := n\<rparr>) = watching expr index i st"
  "watching expr index i (st\<lparr>quote := q\<rparr>) = watching expr index i st"
  by (simp_all add: watching_def)

lemma scan_idle_ok:
  assumes "scan_idle expr i st = Some (i', st')" and "scanner_ok expr index i st" and "state st = Idle" and "i < length expr"
  shows "scanner_ok expr index i' st'"
proof -
  have w: "watching expr index i st" using assms(2) by (simp add: scanner_ok_def)
  have w1: "watching expr index (i + 1) st" using watching_mono [OF w] by simp
  show ?thesis
    using assms(1,3,4) w1 next_parameter_ok [OF _ w] pop_call_ok [OF _ w]
    by (auto simp: scan_idle_def Let_def scanner_ok_def reading_def split: if_splits)
qed

lemma scan_number_ok:
  assumes "scan_number expr index i st = Some (i', st')" and "scanner_ok expr index i st" and "state st = InNumber" and "i < length expr"
  shows "scanner_ok expr index i' st'"
proof -
  define st1 where "st1 = report index i NumberFragment (start st) i st"
  have r: "start st < i" "isNumber (expr ! start st)" using assms(2,3) by (simp_all add: scanner_ok_def reading_def)
  have w0: "watching expr index i st" using assms(2) by (simp add: scanner_ok_def)
  have "moves expr index i st st1" unfolding st1_def by (rule moves_report) (use r assms(4) in \<open>simp add: element_at_def\<close>)
  then have w: "watching expr index i st1" using w0 by (simp add: moves_def)
  have w1: "watching expr index (i + 1) st" "watching expr index (i + 1) st1"
    using watching_mono [OF w0] watching_mono [OF w] by simp_all
  have s1: "state st1 = InNumber" "start st1 = start st" by (simp_all add: st1_def assms(3))
  show ?thesis
    using assms(1,3,4) w1 next_parameter_ok [OF _ w] pop_call_ok [OF _ w] r s1
    unfolding scan_number_def Let_def st1_def [symmetric]
    by (auto simp: scanner_ok_def reading_def split: if_splits)
qed

lemma scan_string_ok:
  assumes "scan_string expr index i st = Some (i', st')" and "scanner_ok expr index i st" and "state st = InString" and "i < length expr"
  shows "scanner_ok expr index i' st'"
proof -
  define st1 where "st1 = report index i StringFragment (start st) i st"
  have r: "start st < i" "isQuote (expr ! start st)" "quote st = Some (expr ! start st)"
    using assms(2,3) by (simp_all add: scanner_ok_def reading_def)
  have w: "watching expr index i st" using assms(2) by (simp add: scanner_ok_def)
  have w1: "watching expr index (i + 1) st" using watching_mono [OF w] by simp
  have "watching expr index (i + 1) st1" if "Some (expr ! i) = quote st"
  proof -
    have "moves expr index i st st1" unfolding st1_def
      by (rule moves_report) (use r that assms(4) in \<open>simp add: element_at_def\<close>)
    then have "watching expr index i st1" using w by (simp add: moves_def)
    from watching_mono [OF this] show ?thesis by simp
  qed
  moreover have "scanner_ok expr index (i + 2) (checkFunction index (i + 1) st)"
    by (rule scanner_ok_moves [OF assms(2)]) (use assms(3) in \<open>simp_all add: moves_check\<close>)
  ultimately show ?thesis
    using assms(1,3) w1 r unfolding scan_string_def Let_def st1_def [symmetric]
    by (auto simp: scanner_ok_def reading_def split: if_splits)
qed

lemma path_name_ok:
  assumes ok: "scanner_ok expr index i st" "state st = InPath" and i: "i < length expr" "\<not> isAlfaNumeric (expr ! i)"
    and blanks: "path_blanks expr index i (report index i PropertyFragment (start st) i (st\<lparr>state := Idle\<rparr>)) = (k, st1)"
  shows "watching expr index k st1 \<and> state st1 = Idle \<and> start st1 = start st \<and> i \<le> k"
    and "k < length expr \<Longrightarrow> isOpenParenthesis (expr ! k) \<Longrightarrow> ch CHR ''.'' \<notin> set (slice (start st) i expr) \<Longrightarrow>
           called_name expr (start st) i k"
proof -
  have r: "start st < i" "isAlfa (expr ! start st)" using ok by (simp_all add: scanner_ok_def reading_def)
  have "watching expr index i (st\<lparr>state := Idle\<rparr>)" using ok by (simp add: scanner_ok_def)
  moreover have "moves expr index i (st\<lparr>state := Idle\<rparr>) (report index i PropertyFragment (start st) i (st\<lparr>state := Idle\<rparr>))"
    by (rule moves_report) (use r i in \<open>simp add: element_at_def\<close>)
  moreover have "moves expr index i (report index i PropertyFragment (start st) i (st\<lparr>state := Idle\<rparr>)) st1"
    by (rule moves_path_blanks [OF blanks]) simp
  ultimately have "watching expr index i st1 \<and> state st1 = Idle \<and> start st1 = start st" by (simp add: moves_def)
  then show "watching expr index k st1 \<and> state st1 = Idle \<and> start st1 = start st \<and> i \<le> k"
    using path_blanks_ge [OF blanks] by (auto intro: watching_mono)
  show "called_name expr (start st) i k"
    if "k < length expr" "isOpenParenthesis (expr ! k)" "ch CHR ''.'' \<notin> set (slice (start st) i expr)"
    using that r path_blanks_ge [OF blanks] by (simp add: called_name_def blank_between_def)
qed

lemma push_call_ok:
  assumes "called_name expr s e k" and "watching expr index k st"
  shows "watching expr index (k + 1) (report index k FunctionFragment s e st\<lparr>stack := (slice s e expr, 0) # stack st\<rparr>)"
proof -
  let ?st = "report index k FunctionFragment s e st"
  have "s < e" "e \<le> length expr" using assms(1) by (simp_all add: called_name_def blank_between_def)
  then have "moves expr index k st ?st"
    by (intro moves_report) (use assms(1) in \<open>auto simp: element_at_def\<close>)
  then have "watching expr index k ?st" using assms(2) by (simp add: moves_def)
  then have "watching expr index (k + 1) ?st" by (rule watching_mono) simp
  moreover have "call_open expr (k + 1) (slice s e expr, 0)" using assms(1) by (fastforce simp: call_open_def)
  ultimately show ?thesis by (simp add: watching_def)
qed

lemma path_bracket_ok:
  assumes ok: "scanner_ok expr index i st" "state st = InPath" and i: "i < length expr"
    and bracket: "parseBracketAccess expr index i (report index i PropertyFragment (start st) i st) = Some (k, s, e, st1)"
  shows "scanner_ok expr index (k + 1) (checkFunction index k (report index e PropertyFragment s e st1))"
proof (rule scanner_ok_moves [OF ok(1)])
  note range = parseBracketAccess_range [OF bracket]
  have r: "start st < i" "isAlfa (expr ! start st)" using ok by (simp_all add: scanner_ok_def reading_def)
  have "moves expr index i st (report index i PropertyFragment (start st) i st)"
    by (rule moves_report) (use r i in \<open>simp add: element_at_def\<close>)
  also have "moves expr index i (report index i PropertyFragment (start st) i st) st1" by (rule moves_parseBracketAccess [OF bracket])
  also have "moves expr index i st1 (report index e PropertyFragment s e st1)"
    by (rule moves_report) (use range in \<open>simp add: element_at_def\<close>)
  also have "moves expr index i (report index e PropertyFragment s e st1) (checkFunction index k (report index e PropertyFragment s e st1))"
    by (rule moves_check) (use range in simp)
  finally show "moves expr index i st (checkFunction index k (report index e PropertyFragment s e st1))" .
  show "i \<le> k + 1" "state st = Idle \<or> state st = InString \<or> k + 1 \<le> length expr" using range by simp_all
qed

lemma scan_path_ok:
  assumes step: "scan_path expr index i st = Some (i', st')" and ok: "scanner_ok expr index i st" "state st = InPath" and i: "i < length expr"
  shows "scanner_ok expr index i' st'"
proof -
  let ?c = "expr ! i"
  consider (name) "isAlfaNumeric ?c" | (bracket) "\<not> isAlfaNumeric ?c" "isOpenBracket ?c"
    | (dot) "\<not> isAlfaNumeric ?c" "\<not> isOpenBracket ?c" "isDot ?c"
    | (other) "\<not> isAlfaNumeric ?c" "\<not> isOpenBracket ?c" "\<not> isDot ?c" by blast
  then show ?thesis
  proof cases
    case name
    with step have "i' = i + 1" "st' = st" by (simp_all add: scan_path_def)
    with scanner_ok_moves [OF ok(1) moves_refl, of "i + 1"] i show ?thesis by simp
  next
    case bracket
    with step path_bracket_ok [OF ok i] show ?thesis by (auto simp: scan_path_def split: option.splits)
  next
    case dot
    with step have *: "i + 1 < length expr" "i' = i + 2" "st' = checkFunction index (i + 1) st"
      by (auto simp: scan_path_def split: if_splits)
    show ?thesis unfolding *(2,3) by (rule scanner_ok_moves [OF ok(1)]) (use *(1) in \<open>simp_all add: moves_check\<close>)
  next
    case other
    obtain k st1 where blanks: "path_blanks expr index i (report index i PropertyFragment (start st) i (st\<lparr>state := Idle\<rparr>)) = (k, st1)"
      by (cases "path_blanks expr index i (report index i PropertyFragment (start st) i (st\<lparr>state := Idle\<rparr>))")
    note name_ok = path_name_ok [OF ok i other(1) blanks]
    have idle: "scanner_ok expr index j st1" if "k \<le> j" for j
      using name_ok(1) watching_mono [of expr index k st1 j] that by (simp add: scanner_ok_def reading_def)
    show ?thesis
    proof (cases "k < length expr \<and> isOpenParenthesis (expr ! k)")
      case True
      with step other blanks have *: "ch CHR ''.'' \<notin> set (slice (start st) i expr)" "i' = k + 1"
        "st' = report index k FunctionFragment (start st) i st1\<lparr>stack := (slice (start st) i expr, 0) # stack st1\<rparr>"
        using name_ok(1) by (auto simp: scan_path_def Let_def split: if_splits)
      from push_call_ok [OF name_ok(2)] name_ok(1) True *(1) show ?thesis
        unfolding *(2,3) by (simp add: scanner_ok_def reading_def)
    next
      case False
      with step other blanks have "(i' = k \<or> i' = k + 1) \<and> st' = st1"
        by (auto simp: scan_path_def Let_def split: if_splits)
      with idle show ?thesis by auto
    qed
  qed
qed

lemma scan_step_ok:
  assumes "scan_step expr index i st = Some (i', st')" and "scanner_ok expr index i st" and "i < length expr"
  shows "scanner_ok expr index i' st'"
  using assms by (cases "state st") (auto simp: scan_step_def intro: scan_idle_ok scan_number_ok scan_path_ok scan_string_ok)

lemma scan_ok:
  "scan expr index i st = Some (n, st') \<Longrightarrow> scanner_ok expr index i st \<Longrightarrow> scanner_ok expr index n st' \<and> length expr \<le> n"
proof (induction expr index i st arbitrary: n st' rule: scan.induct)
  case (1 expr index i st)
  show ?case
  proof (cases "i < length expr")
    case False
    with 1(2,3) show ?thesis by (subst (asm) scan.simps) auto
  next
    case True
    with 1(2) obtain i' st1 where step: "scan_step expr index i (checkFunction index i st) = Some (i', st1)"
      and rest: "scan expr index i' st1 = Some (n, st')"
      by (subst (asm) scan.simps) (auto split: option.splits prod.splits)
    have "scanner_ok expr index i (checkFunction index i st)"
      by (rule scanner_ok_moves [OF 1(3)]) (use True in \<open>simp_all add: moves_check\<close>)
    from 1(1) [OF True step refl rest] scan_step_ok [OF step this True] show ?thesis by blast
  qed
qed

lemma first_scanner_ok: "scanner_ok expr index 0 first_scanner"
  by (simp add: scanner_ok_def watching_def reading_def first_scanner_def no_fragment_def fragment_ok_def)

subsection \<open>Properties\<close>

text \<open>
  C35: what is found at the cursor lies in the expression and does not start after the index. A property
  starts with a letter or stands between two equal quotes, a string has its quotes at both ends, a
  number starts with a digit, and they hold the index or end at it. A function is a name without dots
  that a parenthesis follows; the index may be past the name, among the spaces before the parenthesis or
  at it, but not after it. The call the index is in is a name whose parenthesis comes before the index,
  with at least as many characters between them as the number of its parameter.
\<close>

theorem parseMapExpression_fragment:
  assumes "parseMapExpression expr index = Some c"
  shows "fragment_ok expr index c"
proof -
  from assms obtain n st where run: "scan expr index 0 first_scanner = Some (n, st)"
    by (auto simp: parseMapExpression_def split: option.splits)
  then have ok: "watching expr index n st" "reading expr n st" and n: "length expr \<le> n"
    using scan_ok [OF run first_scanner_ok] by (simp_all add: scanner_ok_def)
  have "watching expr index n (report index n PropertyFragment (start st) n st)" if "state st = InPath"
  proof -
    have "moves expr index n st (report index n PropertyFragment (start st) n st)"
      by (rule moves_report) (use ok(2) that n in \<open>simp add: element_at_def reading_def\<close>)
    with ok(1) show ?thesis by (simp add: moves_def)
  qed
  with assms ok(1) run show ?thesis
    by (auto simp: parseMapExpression_def watching_def split: if_splits)
qed

lemmas run_scanner = parseMapExpression_def scan.simps scan_step_def scan_idle_def scan_number_def scan_path_def
  scan_string_def bracket_blanks.simps bracket_text.simps path_blanks.simps parseBracketAccess_def next_parameter.simps
  pop_call.simps first_scanner_def no_fragment_def outside_pos_def char_tests js_Cons slice_def

theorem parseMapExpression_fragment_witness:
  "parseMapExpression (js ''f(a, b.c)'') 6 = Some \<lparr>func = Some (js ''f'', 1), fragment_type = Some PropertyFragment, pos = Some (5, 8)\<rparr> \<and>
   fragment_ok (js ''f(a, b.c)'') 6 \<lparr>func = Some (js ''f'', 1), fragment_type = Some PropertyFragment, pos = Some (5, 8)\<rparr>"
proof -
  have run: "parseMapExpression (js ''f(a, b.c)'') 6 = Some \<lparr>func = Some (js ''f'', 1), fragment_type = Some PropertyFragment, pos = Some (5, 8)\<rparr>"
    by (simp add: run_scanner checkFunction_def report_def)
  with parseMapExpression_fragment [OF run] show ?thesis by blast
qed

text \<open>
  Between the name of a function and the parenthesis the function is reported, at a position that does
  not hold the index.
\<close>

lemma function_before_parenthesis:
  "parseMapExpression (js ''f (x)'') 2 = Some \<lparr>func = None, fragment_type = Some FunctionFragment, pos = Some (0, 1)\<rparr>"
  by (simp add: run_scanner checkFunction_def report_def)

text \<open>
  numbers are not always read: a number and a comma with no space between them leave the scanner in
  the number, so a name after it is refused, and so is a second decimal number; a number at the end
  of the expression is not reported.
\<close>

theorem parseMapExpression_numbers:
  "parseMapExpression (js ''f(1,x)'') index = None \<and> parseMapExpression (js ''f(1.5,2.5)'') index = None \<and>
   parseMapExpression (js ''f(1, x)'') index \<noteq> None \<and> parseMapExpression (js ''12'') 1 = Some no_fragment"
proof (intro conjI)
  show "parseMapExpression (js ''f(1,x)'') index = None" by (simp add: run_scanner)
  show "parseMapExpression (js ''f(1.5,2.5)'') index = None" by (simp add: run_scanner)
  show "parseMapExpression (js ''f(1, x)'') index \<noteq> None" by (simp add: run_scanner)
  show "parseMapExpression (js ''12'') 1 = Some no_fragment" by (simp add: run_scanner checkFunction_def report_def)
qed

end
