(* ===== verification/Stationary_Sequence.thy ===== *)
theory Stationary_Sequence
  imports Schema_Edit "HOL-Library.Sublist"
begin

unbundle bit_operations_syntax

section \<open>Reordering of properties: the stationary siblings (usePropertyReordering.ts)\<close>

text \<open>
  When siblings have been moved, a longest common subsequence of their initial and their current order is
  taken as stationary. \<open>getCanonicalStationarySubsequence\<close> finds it by dynamic programming over increasing
  subsequences, and breaks ties with two bit masks. The history of the moves gives each moved key the number of
  its last move. The order of equal numbers is that of \<open>localeCompare\<close>, a parameter here (\<open>before\<close>).
\<close>

type_synonym move_history = "nat obj"

definition getBit :: "nat \<Rightarrow> nat" where
  "getBit index = push_bit index 1"

record lcs_candidate =
  key :: jsstr
  currentPosition :: nat
  moveBit :: nat
  initialPositionBit :: nat

text \<open>No previous candidate is \<open>None\<close>, the \<open>-1\<close> of the source.\<close>

record lcs_path =
  path_length :: nat
  stationaryMovesMask :: nat
  initialPositionsMask :: nat
  previousCandidateIndex :: "nat option"

definition isPreferredLCSPath :: "lcs_path \<Rightarrow> lcs_path \<Rightarrow> bool" where
  "isPreferredLCSPath candidate currentBest =
     (if path_length candidate \<noteq> path_length currentBest then path_length candidate > path_length currentBest
      else if stationaryMovesMask candidate \<noteq> stationaryMovesMask currentBest
        then stationaryMovesMask candidate < stationaryMovesMask currentBest
      else initialPositionsMask candidate > initialPositionsMask currentBest)"

subsection \<open>The candidates\<close>

text \<open>\<open>new Map(keys.map((key, index) => [key, f(index)]))\<close>\<close>

definition index_map :: "(nat \<Rightarrow> nat) \<Rightarrow> jsstr list \<Rightarrow> nat obj" where
  "index_map f keys = obj_spread [] (zip keys (map f [0..<length keys]))"

definition moved_before :: "(jsstr \<Rightarrow> jsstr \<Rightarrow> bool) \<Rightarrow> move_history \<Rightarrow> jsstr \<Rightarrow> jsstr \<Rightarrow> bool" where
  "moved_before before moveHistory first second \<longleftrightarrow>
     (case (obj_get moveHistory first, obj_get moveHistory second) of
        (Some m, Some n) \<Rightarrow> m < n \<or> (m = n \<and> before first second)
      | _ \<Rightarrow> True)"

fun insert_by :: "('a \<Rightarrow> 'a \<Rightarrow> bool) \<Rightarrow> 'a \<Rightarrow> 'a list \<Rightarrow> 'a list" where
  "insert_by le x [] = [x]"
| "insert_by le x (y # ys) = (if le x y then x # y # ys else y # insert_by le x ys)"

definition sort_by :: "('a \<Rightarrow> 'a \<Rightarrow> bool) \<Rightarrow> 'a list \<Rightarrow> 'a list" where
  "sort_by le xs = foldr (insert_by le) xs []"

definition is_moved :: "move_history \<Rightarrow> jsstr \<Rightarrow> bool" where
  "is_moved moveHistory k \<longleftrightarrow> obj_get moveHistory k \<noteq> None"

definition moved_keys :: "(jsstr \<Rightarrow> jsstr \<Rightarrow> bool) \<Rightarrow> jsstr list \<Rightarrow> jsstr list \<Rightarrow> move_history \<Rightarrow> jsstr list" where
  "moved_keys before initialOrder currentOrder moveHistory =
     (let currentPositions = index_map id currentOrder;
          commonKeys = filter (\<lambda>k. obj_get currentPositions k \<noteq> None) initialOrder
      in sort_by (moved_before before moveHistory) (filter (is_moved moveHistory) commonKeys))"

fun candidates_from :: "nat obj \<Rightarrow> nat obj \<Rightarrow> nat \<Rightarrow> nat \<Rightarrow> jsstr list \<Rightarrow> lcs_candidate list" where
  "candidates_from currentPositions moveBits n initialIndex [] = []"
| "candidates_from currentPositions moveBits n initialIndex (k # ks) =
     (case obj_get currentPositions k of
        None \<Rightarrow> candidates_from currentPositions moveBits n (initialIndex + 1) ks
      | Some p \<Rightarrow>
          \<lparr>key = k, currentPosition = p,
           moveBit = (case obj_get moveBits k of Some b \<Rightarrow> b | None \<Rightarrow> 0),
           initialPositionBit = getBit (n - initialIndex - 1)\<rparr>
          # candidates_from currentPositions moveBits n (initialIndex + 1) ks)"

definition lcs_candidates :: "(jsstr \<Rightarrow> jsstr \<Rightarrow> bool) \<Rightarrow> jsstr list \<Rightarrow> jsstr list \<Rightarrow> move_history \<Rightarrow> lcs_candidate list" where
  "lcs_candidates before initialOrder currentOrder moveHistory =
     candidates_from (index_map id currentOrder)
       (index_map getBit (moved_keys before initialOrder currentOrder moveHistory))
       (length initialOrder) 0 initialOrder"

subsection \<open>The best path to each candidate\<close>

definition single_path :: "lcs_candidate \<Rightarrow> lcs_path" where
  "single_path c =
     \<lparr>path_length = 1, stationaryMovesMask = moveBit c, initialPositionsMask = initialPositionBit c,
      previousCandidateIndex = None\<rparr>"

definition extend_path :: "lcs_path list \<Rightarrow> nat \<Rightarrow> lcs_candidate \<Rightarrow> lcs_path" where
  "extend_path bestPathsByEnd j c =
     (let previousPath = bestPathsByEnd ! j in
      \<lparr>path_length = path_length previousPath + 1,
       stationaryMovesMask = stationaryMovesMask previousPath OR moveBit c,
       initialPositionsMask = initialPositionsMask previousPath OR initialPositionBit c,
       previousCandidateIndex = Some j\<rparr>)"

definition better_ending :: "lcs_candidate list \<Rightarrow> lcs_path list \<Rightarrow> lcs_candidate \<Rightarrow> lcs_path \<Rightarrow> nat \<Rightarrow> lcs_path" where
  "better_ending candidates bestPathsByEnd c best j =
     (if currentPosition (candidates ! j) \<ge> currentPosition c then best
      else let extendedPath = extend_path bestPathsByEnd j c in
           if isPreferredLCSPath extendedPath best then extendedPath else best)"

definition best_ending :: "lcs_candidate list \<Rightarrow> lcs_path list \<Rightarrow> nat \<Rightarrow> lcs_path" where
  "best_ending candidates bestPathsByEnd index =
     foldl (better_ending candidates bestPathsByEnd (candidates ! index)) (single_path (candidates ! index)) [0..<index]"

definition lcs_round :: "lcs_candidate list \<Rightarrow> lcs_path list \<times> nat option \<Rightarrow> nat \<Rightarrow> lcs_path list \<times> nat option" where
  "lcs_round candidates = (\<lambda>(bestPathsByEnd, bestPathEndIndex) index.
     (let bestPathEndingHere = best_ending candidates bestPathsByEnd index;
          paths = bestPathsByEnd @ [bestPathEndingHere]
      in (paths,
          case bestPathEndIndex of
            None \<Rightarrow> Some index
          | Some b \<Rightarrow> if isPreferredLCSPath bestPathEndingHere (paths ! b) then Some index else Some b)))"

definition lcs_paths :: "lcs_candidate list \<Rightarrow> lcs_path list \<times> nat option" where
  "lcs_paths candidates = foldl (lcs_round candidates) ([], None) [0..<length candidates]"

text \<open>The loop that follows the previous candidates, and collects their keys in reverse.\<close>

partial_function (option) collect_keys :: "lcs_candidate list \<Rightarrow> lcs_path list \<Rightarrow> nat option \<Rightarrow> jsstr list \<Rightarrow> jsstr list option" where
  "collect_keys candidates paths candidateIndex stationaryKeys =
     (case candidateIndex of
        None \<Rightarrow> Some stationaryKeys
      | Some i \<Rightarrow>
          collect_keys candidates paths (previousCandidateIndex (paths ! i)) (stationaryKeys @ [key (candidates ! i)]))"

definition getCanonicalStationarySubsequence ::
    "(jsstr \<Rightarrow> jsstr \<Rightarrow> bool) \<Rightarrow> jsstr list \<Rightarrow> jsstr list \<Rightarrow> move_history \<Rightarrow> jsstr list option" where
  "getCanonicalStationarySubsequence before initialOrder currentOrder moveHistory =
     (let candidates = lcs_candidates before initialOrder currentOrder moveHistory in
      case lcs_paths candidates of
        (bestPathsByEnd, bestPathEndIndex) \<Rightarrow> map_option rev (collect_keys candidates bestPathsByEnd bestPathEndIndex []))"

subsection \<open>Increasing chains of candidates\<close>

text \<open>What a chain of candidate indices amounts to.\<close>

definition chain_mask :: "(lcs_candidate \<Rightarrow> nat) \<Rightarrow> lcs_candidate list \<Rightarrow> nat list \<Rightarrow> nat" where
  "chain_mask f cs is = foldl (\<lambda>m i. m OR f (cs ! i)) 0 is"

definition chain :: "lcs_candidate list \<Rightarrow> nat list \<Rightarrow> bool" where
  "chain cs is \<longleftrightarrow>
     sorted_wrt (\<lambda>i j. i < j \<and> currentPosition (cs ! i) < currentPosition (cs ! j)) is \<and> set is \<subseteq> {..<length cs}"

definition preferred_chain :: "lcs_candidate list \<Rightarrow> nat list \<Rightarrow> nat list \<Rightarrow> bool" where
  "preferred_chain cs is ks \<longleftrightarrow>
     length is > length ks \<or>
     (length is = length ks \<and> (chain_mask moveBit cs is < chain_mask moveBit cs ks \<or>
       (chain_mask moveBit cs is = chain_mask moveBit cs ks \<and> chain_mask initialPositionBit cs is > chain_mask initialPositionBit cs ks)))"

definition path_of_chain :: "lcs_candidate list \<Rightarrow> nat list \<Rightarrow> lcs_path \<Rightarrow> bool" where
  "path_of_chain cs is p \<longleftrightarrow> path_length p = length is \<and> stationaryMovesMask p = chain_mask moveBit cs is \<and>
     initialPositionsMask p = chain_mask initialPositionBit cs is"

lemma preferred_paths:
  "path_of_chain cs is p \<Longrightarrow> path_of_chain cs ks q \<Longrightarrow> isPreferredLCSPath p q = preferred_chain cs is ks"
  by (auto simp: path_of_chain_def isPreferredLCSPath_def preferred_chain_def)

lemma not_preferred_trans:
  "\<not> preferred_chain cs is ks \<Longrightarrow> \<not> preferred_chain cs ks ls \<Longrightarrow> \<not> preferred_chain cs is ls"
  by (auto simp: preferred_chain_def)

lemma preferred_asym: "preferred_chain cs is ks \<Longrightarrow> \<not> preferred_chain cs ks is"
  by (auto simp: preferred_chain_def)

lemma mask_snoc [simp]: "chain_mask f cs (is @ [i]) = chain_mask f cs is OR f (cs ! i)"
  by (simp add: chain_mask_def)

lemma mask_snoc2 [simp]: "chain_mask f cs (is @ [i, j]) = (chain_mask f cs is OR f (cs ! i)) OR f (cs ! j)"
  by (simp add: chain_mask_def)

lemma mask_Nil [simp]: "chain_mask f cs [] = 0"
  by (simp add: chain_mask_def)

lemma bit_mask: "bit (chain_mask f cs is) m \<longleftrightarrow> (\<exists>i \<in> set is. bit (f (cs ! i)) m)"
  by (induction "is" rule: rev_induct) (auto simp: bit_or_iff)

lemma chain_snoc_iff:
  "chain cs (is @ [i]) \<longleftrightarrow> chain cs is \<and> i < length cs \<and> (is \<noteq> [] \<longrightarrow> last is < i \<and> currentPosition (cs ! last is) < currentPosition (cs ! i))"
proof (cases "is" rule: rev_cases)
  case Nil
  then show ?thesis by (auto simp: chain_def)
next
  case (snoc ls k)
  then show ?thesis by (fastforce simp: chain_def sorted_wrt_append)
qed

text \<open>No two candidates share a bit, so a bit that is added to two masks does not change their order.\<close>

definition separate_bits :: "(lcs_candidate \<Rightarrow> nat) \<Rightarrow> lcs_candidate list \<Rightarrow> bool" where
  "separate_bits f cs \<longleftrightarrow> (\<forall>i < length cs. \<forall>j < length cs. i \<noteq> j \<longrightarrow> f (cs ! i) AND f (cs ! j) = 0)"

lemma mask_add:
  assumes "separate_bits f cs" and "i < length cs" and "set is \<subseteq> {..<i}"
  shows "chain_mask f cs (is @ [i]) = chain_mask f cs is + f (cs ! i)"
proof -
  have "chain_mask f cs is AND f (cs ! i) = 0"
  proof (rule bit_eqI)
    fix n
    have "\<not> (bit (f (cs ! j)) n \<and> bit (f (cs ! i)) n)" if "j \<in> set is" for j
    proof -
      have "f (cs ! j) AND f (cs ! i) = 0" using assms that by (auto simp: separate_bits_def)
      then show ?thesis by (metis bit_0_eq bit_and_iff bot_apply bot_bool_def)
    qed
    then show "bit (chain_mask f cs is AND f (cs ! i)) n = bit 0 n" by (auto simp: bit_and_iff bit_mask)
  qed
  then show ?thesis by (simp add: disjunctive_add_eq_or)
qed

lemma preferred_snoc:
  assumes "separate_bits moveBit cs" "separate_bits initialPositionBit cs" "i < length cs"
    and "set is \<subseteq> {..<i}" "set ks \<subseteq> {..<i}"
  shows "preferred_chain cs (is @ [i]) (ks @ [i]) = preferred_chain cs is ks"
  using mask_add [OF assms(1,3,4)] mask_add [OF assms(1,3,5)] mask_add [OF assms(2,3,4)] mask_add [OF assms(2,3,5)]
  by (simp add: preferred_chain_def del: mask_snoc)

subsection \<open>The dynamic program finds a most preferred chain\<close>

text \<open>Following the previous candidates from the first index gives the others.\<close>

fun linked :: "lcs_path list \<Rightarrow> nat list \<Rightarrow> bool" where
  "linked paths [] = True"
| "linked paths [i] = (previousCandidateIndex (paths ! i) = None)"
| "linked paths (i # j # ls) = (previousCandidateIndex (paths ! i) = Some j \<and> linked paths (j # ls))"

definition link_to :: "nat list \<Rightarrow> nat option" where
  "link_to is = (if is = [] then None else Some (last is))"

definition represents :: "lcs_candidate list \<Rightarrow> lcs_path list \<Rightarrow> nat \<Rightarrow> lcs_path \<Rightarrow> nat list \<Rightarrow> bool" where
  "represents cs paths i p is \<longleftrightarrow> chain cs (is @ [i]) \<and> linked paths (rev is) \<and>
     previousCandidateIndex p = link_to is \<and> path_of_chain cs (is @ [i]) p"

definition most_preferred :: "lcs_candidate list \<Rightarrow> nat list set \<Rightarrow> nat list \<Rightarrow> bool" where
  "most_preferred cs S is \<longleftrightarrow> (\<forall>ks \<in> S. \<not> preferred_chain cs ks is)"

definition paths_ok :: "lcs_candidate list \<Rightarrow> lcs_path list \<Rightarrow> bool" where
  "paths_ok cs paths \<longleftrightarrow>
     (\<forall>i < length paths. \<exists>is. represents cs paths i (paths ! i) is \<and>
        most_preferred cs {ks @ [i] | ks. chain cs (ks @ [i])} (is @ [i]))"

lemma linked_append: "set ls \<subseteq> {..<length paths} \<Longrightarrow> linked (paths @ ps) ls = linked paths ls"
  by (induction paths ls rule: linked.induct) (auto simp: nth_append)

lemma chain_before: "chain cs (is @ [i]) \<Longrightarrow> set is \<subseteq> {..<i}"
  by (auto simp: chain_def sorted_wrt_append)

lemma linked_represents:
  assumes "represents cs paths i (paths ! i) is"
  shows "linked paths (i # rev is)"
  using assms by (cases "is" rule: rev_cases) (auto simp: represents_def link_to_def)

lemma represents_append:
  assumes "represents cs paths i p is" and "i \<le> length paths"
  shows "represents cs (paths @ ps) i p is"
  using assms linked_append [of "rev is" paths ps] chain_before [of cs "is" i] by (fastforce simp: represents_def)

lemma most_preferred_Un: "most_preferred cs (S \<union> T) is \<longleftrightarrow> most_preferred cs S is \<and> most_preferred cs T is"
  by (auto simp: most_preferred_def)

lemma most_preferred_worse: "most_preferred cs S is \<Longrightarrow> \<not> preferred_chain cs is ks \<Longrightarrow> most_preferred cs S ks"
  unfolding most_preferred_def by (meson not_preferred_trans)

definition chains_to :: "lcs_candidate list \<Rightarrow> nat \<Rightarrow> nat \<Rightarrow> nat list set" where
  "chains_to cs index m = {ks @ [index] | ks. chain cs (ks @ [index]) \<and> (ks = [] \<or> last ks < m)}"

lemma chains_to_Suc:
  "chains_to cs index (Suc m) = chains_to cs index m \<union> {ks @ [m, index] | ks. chain cs (ks @ [m, index])}"
proof (intro set_eqI iffI)
  fix xs
  assume "xs \<in> chains_to cs index (Suc m)"
  then obtain ks where ks: "xs = ks @ [index]" "chain cs (ks @ [index])" "ks = [] \<or> last ks < m \<or> last ks = m"
    by (auto simp: chains_to_def less_Suc_eq)
  show "xs \<in> chains_to cs index m \<union> {ks @ [m, index] | ks. chain cs (ks @ [m, index])}"
  proof (cases "ks = [] \<or> last ks < m")
    case True
    with ks show ?thesis by (auto simp: chains_to_def)
  next
    case False
    with ks(3) have "ks = butlast ks @ [m]" by (metis append_butlast_last_id)
    with ks(1,2) have "xs = butlast ks @ [m, index] \<and> chain cs (butlast ks @ [m, index])"
      by (metis append.assoc append_Cons append_Nil)
    then show ?thesis by blast
  qed
next
  fix xs
  assume "xs \<in> chains_to cs index m \<union> {ks @ [m, index] | ks. chain cs (ks @ [m, index])}"
  then show "xs \<in> chains_to cs index (Suc m)"
  proof
    assume "xs \<in> chains_to cs index m"
    then show ?thesis by (auto simp: chains_to_def)
  next
    assume "xs \<in> {ks @ [m, index] | ks. chain cs (ks @ [m, index])}"
    then obtain ks where "xs = (ks @ [m]) @ [index]" "chain cs ((ks @ [m]) @ [index])" by auto
    then show ?thesis unfolding chains_to_def by (intro CollectI exI [of _ "ks @ [m]"]) simp
  qed
qed

lemma chains_to_all: "chains_to cs index index = {ks @ [index] | ks. chain cs (ks @ [index])}"
proof -
  have "last ks < index" if "chain cs (ks @ [index])" "ks \<noteq> []" for ks
    using that by (simp add: chain_snoc_iff)
  then show ?thesis by (auto simp: chains_to_def)
qed

lemma best_ending_prefix:
  assumes bits: "separate_bits moveBit cs" "separate_bits initialPositionBit cs"
    and paths: "paths_ok cs paths" "length paths < length cs" and m: "m \<le> length paths"
  defines "index \<equiv> length paths"
  shows "\<exists>is. represents cs paths index (foldl (better_ending cs paths (cs ! index)) (single_path (cs ! index)) [0..<m]) is \<and>
    most_preferred cs (chains_to cs index m) (is @ [index])"
  using m
proof (induction m)
  case 0
  have "represents cs paths index (single_path (cs ! index)) []"
    using paths(2) by (simp add: represents_def link_to_def single_path_def path_of_chain_def chain_def index_def chain_mask_def)
  moreover have "most_preferred cs (chains_to cs index 0) ([] @ [index])"
    by (auto simp: most_preferred_def chains_to_def preferred_chain_def)
  ultimately show ?case by (intro exI [of _ "[]"]) simp
next
  case (Suc m)
  define b where "b = foldl (better_ending cs paths (cs ! index)) (single_path (cs ! index)) [0..<m]"
  obtain "is" where rep: "represents cs paths index b is" and best: "most_preferred cs (chains_to cs index m) (is @ [index])"
    using Suc by (auto simp: b_def)
  have step: "foldl (better_ending cs paths (cs ! index)) (single_path (cs ! index)) [0..<Suc m] = better_ending cs paths (cs ! index) b m"
    by (simp add: b_def)
  let ?new = "{ks @ [m, index] | ks. chain cs (ks @ [m, index])}"
  show ?case
  proof (cases "currentPosition (cs ! m) \<ge> currentPosition (cs ! index)")
    case True
    then have "?new = {}" by (auto simp: chain_def sorted_wrt_append)
    with True rep best show ?thesis unfolding step chains_to_Suc by (auto simp: better_ending_def)
  next
    case False
    obtain ls where ls: "represents cs paths m (paths ! m) ls"
      and ls_best: "most_preferred cs {ks @ [m] | ks. chain cs (ks @ [m])} (ls @ [m])"
      using paths(1) Suc.prems unfolding paths_ok_def by (meson Suc_le_lessD)
    define e where "e = extend_path paths m (cs ! index)"
    have chain: "chain cs ((ls @ [m]) @ [index])"
      unfolding chain_snoc_iff [of cs "ls @ [m]"]
      using ls False Suc.prems paths(2) by (simp add: represents_def index_def)
    have "path_of_chain cs ((ls @ [m]) @ [index]) e"
      using ls by (auto simp: represents_def path_of_chain_def e_def extend_path_def Let_def)
    then have rep_e: "represents cs paths index e (ls @ [m])"
      using chain linked_represents [OF ls] by (simp add: represents_def e_def extend_path_def link_to_def Let_def)
    have new: "most_preferred cs ?new ((ls @ [m]) @ [index])"
    proof -
      have "\<not> preferred_chain cs ((ks @ [m]) @ [index]) ((ls @ [m]) @ [index])" if "chain cs ((ks @ [m]) @ [index])" for ks
      proof -
        have "chain cs (ks @ [m])" using that by (simp only: chain_snoc_iff [of _ "ks @ [m]"])
        then have "\<not> preferred_chain cs (ks @ [m]) (ls @ [m])" using ls_best by (auto simp: most_preferred_def)
        then show ?thesis
          using preferred_snoc [OF bits _ chain_before [OF that] chain_before [OF chain]] paths(2) by (simp add: index_def)
      qed
      then show ?thesis by (auto simp: most_preferred_def)
    qed
    have pref: "isPreferredLCSPath e b = preferred_chain cs ((ls @ [m]) @ [index]) (is @ [index])"
      using rep rep_e by (intro preferred_paths) (auto simp: represents_def)
    show ?thesis
    proof (cases "isPreferredLCSPath e b")
      case True
      then have "most_preferred cs (chains_to cs index m) ((ls @ [m]) @ [index])"
        using most_preferred_worse [OF best] preferred_asym pref by blast
      with True False rep_e new show ?thesis
        unfolding step chains_to_Suc most_preferred_Un
        by (intro exI [of _ "ls @ [m]"]) (simp add: better_ending_def e_def [symmetric] Let_def)
    next
      case worse: False
      then have "most_preferred cs ?new (is @ [index])" using most_preferred_worse [OF new] pref by blast
      with worse False rep best show ?thesis
        unfolding step chains_to_Suc most_preferred_Un
        by (intro exI [of _ "is"]) (simp add: better_ending_def e_def [symmetric] Let_def)
    qed
  qed
qed

lemma best_ending_ok:
  assumes "separate_bits moveBit cs" "separate_bits initialPositionBit cs" "paths_ok cs paths" "length paths < length cs"
  shows "\<exists>is. represents cs paths (length paths) (best_ending cs paths (length paths)) is \<and>
    most_preferred cs {ks @ [length paths] | ks. chain cs (ks @ [length paths])} (is @ [length paths])"
  using best_ending_prefix [OF assms order_refl] unfolding chains_to_all best_ending_def .

definition rounds_ok :: "lcs_candidate list \<Rightarrow> lcs_path list \<times> nat option \<Rightarrow> bool" where
  "rounds_ok cs = (\<lambda>(paths, end_index). paths_ok cs paths \<and>
     (case end_index of
        None \<Rightarrow> paths = []
      | Some b \<Rightarrow> b < length paths \<and>
          (\<exists>is. represents cs paths b (paths ! b) is \<and>
             most_preferred cs {ks @ [i] | ks i. i < length paths \<and> chain cs (ks @ [i])} (is @ [b]))))"

lemma paths_ok_snoc:
  assumes "paths_ok cs paths" and "represents cs paths (length paths) p is"
    and "most_preferred cs {ks @ [length paths] | ks. chain cs (ks @ [length paths])} (is @ [length paths])"
  shows "paths_ok cs (paths @ [p])"
proof -
  have "\<exists>is. represents cs (paths @ [p]) i ((paths @ [p]) ! i) is \<and>
      most_preferred cs {ks @ [i] | ks. chain cs (ks @ [i])} (is @ [i])" if "i < Suc (length paths)" for i
  proof (cases "i = length paths")
    case True
    then show ?thesis using represents_append [OF assms(2)] assms(3) by auto
  next
    case False
    with that have i: "i < length paths" by simp
    with assms(1) obtain ls where ls: "represents cs paths i (paths ! i) ls"
      and best: "most_preferred cs {ks @ [i] | ks. chain cs (ks @ [i])} (ls @ [i])"
      unfolding paths_ok_def by blast
    have "represents cs (paths @ [p]) i ((paths @ [p]) ! i) ls"
      using represents_append [OF ls, of "[p]"] i by (simp add: nth_append)
    with best show ?thesis by blast
  qed
  then show ?thesis by (simp add: paths_ok_def)
qed

lemma lcs_round_ok:
  assumes bits: "separate_bits moveBit cs" "separate_bits initialPositionBit cs"
    and ok: "rounds_ok cs (paths, end_index)" and len: "length paths < length cs"
  shows "rounds_ok cs (lcs_round cs (paths, end_index) (length paths)) \<and>
    length (fst (lcs_round cs (paths, end_index) (length paths))) = Suc (length paths)"
proof -
  let ?n = "length paths"
  define p where "p = best_ending cs paths ?n"
  have paths: "paths_ok cs paths" using ok by (simp add: rounds_ok_def)
  obtain "is" where rep: "represents cs paths ?n p is"
    and best: "most_preferred cs {ks @ [?n] | ks. chain cs (ks @ [?n])} (is @ [?n])"
    using best_ending_ok [OF bits paths len] by (auto simp: p_def)
  have ok': "paths_ok cs (paths @ [p])" by (rule paths_ok_snoc [OF paths rep best])
  have rep': "represents cs (paths @ [p]) ?n p is" by (rule represents_append [OF rep order_refl])
  let ?old = "{ks @ [i] | ks i. i < ?n \<and> chain cs (ks @ [i])}"
  let ?new = "{ks @ [?n] | ks. chain cs (ks @ [?n])}"
  have all: "{ks @ [i] | ks i. i < Suc ?n \<and> chain cs (ks @ [i])} = ?old \<union> ?new" by (auto simp: less_Suc_eq)
  show ?thesis
  proof (cases end_index)
    case None
    with ok have "paths = []" by (simp add: rounds_ok_def)
    with None ok' rep' best show ?thesis
      by (auto simp: rounds_ok_def lcs_round_def p_def Let_def)
  next
    case (Some b)
    then obtain ls where b: "b < ?n" and ls: "represents cs paths b (paths ! b) ls" and ls_best: "most_preferred cs ?old (ls @ [b])"
      using ok by (auto simp: rounds_ok_def)
    have ls': "represents cs (paths @ [p]) b (paths ! b) ls" by (rule represents_append [OF ls]) (use b in simp)
    have pref: "isPreferredLCSPath p (paths ! b) = preferred_chain cs (is @ [?n]) (ls @ [b])"
      using rep ls by (intro preferred_paths) (auto simp: represents_def)
    have round: "lcs_round cs (paths, end_index) ?n = (paths @ [p], if isPreferredLCSPath p (paths ! b) then Some ?n else Some b)"
      using b by (simp add: lcs_round_def Some p_def Let_def nth_append)
    show ?thesis
    proof (cases "isPreferredLCSPath p (paths ! b)")
      case True
      then have "most_preferred cs (?old \<union> ?new) (is @ [?n])"
        using most_preferred_worse [OF ls_best] preferred_asym best pref unfolding most_preferred_Un by blast
      with True ok' rep' show ?thesis unfolding round by (auto simp: rounds_ok_def all)
    next
      case False
      then have "most_preferred cs (?old \<union> ?new) (ls @ [b])"
        using most_preferred_worse [OF best] ls_best pref unfolding most_preferred_Un by blast
      with False ok' ls' b show ?thesis unfolding round by (auto simp: rounds_ok_def all nth_append)
    qed
  qed
qed

lemma lcs_paths_ok:
  assumes "separate_bits moveBit cs" "separate_bits initialPositionBit cs"
  shows "rounds_ok cs (lcs_paths cs) \<and> length (fst (lcs_paths cs)) = length cs"
proof -
  have "rounds_ok cs (foldl (lcs_round cs) ([], None) [0..<n]) \<and> length (fst (foldl (lcs_round cs) ([], None) [0..<n])) = n"
    if "n \<le> length cs" for n
    using that
  proof (induction n)
    case 0
    show ?case by (simp add: rounds_ok_def paths_ok_def)
  next
    case (Suc n)
    obtain paths e where run: "foldl (lcs_round cs) ([], None) [0..<n] = (paths, e)" by (cases "foldl (lcs_round cs) ([], None) [0..<n]")
    with Suc lcs_round_ok [OF assms, of paths e] show ?case by simp
  qed
  then show ?thesis by (simp add: lcs_paths_def)
qed

lemma collect_keys_linked:
  "linked paths ls \<Longrightarrow>
     collect_keys cs paths (case ls of [] \<Rightarrow> None | i # _ \<Rightarrow> Some i) acc = Some (acc @ map (\<lambda>i. key (cs ! i)) ls)"
proof (induction paths ls arbitrary: acc rule: linked.induct)
  case (1 paths)
  show ?case by (subst collect_keys.simps) simp
next
  case (2 paths i)
  then show ?case by (subst collect_keys.simps, simp) (subst collect_keys.simps, simp)
next
  case (3 paths i j ls)
  then have "collect_keys cs paths (Some j) (acc @ [key (cs ! i)]) = Some ((acc @ [key (cs ! i)]) @ map (\<lambda>i. key (cs ! i)) (j # ls))"
    by (metis linked.simps(3) list.case(2))
  with 3(2) show ?case by (subst collect_keys.simps) simp
qed

text \<open>The chain the program returns the keys of, for candidates that share no bit.\<close>

lemma stationary_chain:
  assumes "separate_bits moveBit cs" "separate_bits initialPositionBit cs"
  obtains "is" where "chain cs is" "most_preferred cs {ks. chain cs ks} is"
    "map_option rev (collect_keys cs (fst (lcs_paths cs)) (snd (lcs_paths cs)) []) = Some (map (\<lambda>i. key (cs ! i)) is)"
proof -
  obtain paths e where run: "lcs_paths cs = (paths, e)" by (cases "lcs_paths cs")
  with lcs_paths_ok [OF assms] have ok: "rounds_ok cs (paths, e)" and len: "length paths = length cs" by simp_all
  show ?thesis
  proof (cases e)
    case None
    with ok len have "cs = []" by (simp add: rounds_ok_def)
    then have "{ks. chain cs ks} = {[]}" by (auto simp: chain_def)
    then have "most_preferred cs {ks. chain cs ks} []" "chain cs []" by (auto simp: most_preferred_def preferred_chain_def)
    moreover have "collect_keys cs paths e [] = Some []" unfolding None by (subst collect_keys.simps) simp
    ultimately show ?thesis using that [of "[]"] by (simp add: run)
  next
    case (Some b)
    with ok obtain ls where ls: "represents cs paths b (paths ! b) ls"
      and best: "most_preferred cs {ks @ [i] | ks i. i < length paths \<and> chain cs (ks @ [i])} (ls @ [b])"
      by (auto simp: rounds_ok_def)
    have "\<not> preferred_chain cs ks (ls @ [b])" if "chain cs ks" for ks
    proof (cases ks rule: rev_cases)
      case Nil
      then show ?thesis by (simp add: preferred_chain_def)
    next
      case (snoc is' i)
      with that have "i < length paths" by (simp add: chain_snoc_iff len)
      with best that snoc show ?thesis by (auto simp: most_preferred_def)
    qed
    then have "most_preferred cs {ks. chain cs ks} (ls @ [b])" by (simp add: most_preferred_def)
    moreover have "chain cs (ls @ [b])" using ls by (simp add: represents_def)
    moreover have "collect_keys cs paths e [] = Some (map (\<lambda>i. key (cs ! i)) (b # rev ls))"
      using collect_keys_linked [OF linked_represents [OF ls], of cs "[]"] by (simp add: Some)
    ultimately show ?thesis using that [of "ls @ [b]"] by (simp add: run rev_map)
  qed
qed

subsection \<open>The bits of the candidates\<close>

lemma index_map_eq: "distinct keys \<Longrightarrow> index_map f keys = zip keys (map f [0..<length keys])"
  by (simp add: index_map_def obj_spread_fresh obj_keys_def)

lemma obj_get_index_map:
  assumes "distinct keys"
  shows "obj_get (index_map f keys) k = Some v \<longleftrightarrow> (\<exists>i < length keys. keys ! i = k \<and> v = f i)"
proof -
  have "distinct (map fst (zip keys (map f [0..<length keys])))" using assms by simp
  then have "obj_get (index_map f keys) k = Some v \<longleftrightarrow> (k, v) \<in> set (zip keys (map f [0..<length keys]))"
    by (simp add: index_map_eq [OF assms] obj_get_def map_of_eq_Some_iff)
  then show ?thesis by (auto simp: set_zip)
qed

lemma in_index_map:
  assumes "distinct keys"
  shows "obj_get (index_map f keys) k \<noteq> None \<longleftrightarrow> k \<in> set keys"
  using obj_get_index_map [OF assms, of f k] by (auto simp: in_set_conv_nth)

lemma candidates_from_keys:
  "map key (candidates_from cp mb n i0 ks) = filter (\<lambda>k. obj_get cp k \<noteq> None) ks"
  by (induction ks arbitrary: i0) (auto split: option.splits)

lemma candidates_from_nth:
  "c \<in> set (candidates_from cp mb n i0 ks) \<Longrightarrow>
     obj_get cp (key c) = Some (currentPosition c) \<and>
     moveBit c = (case obj_get mb (key c) of Some b \<Rightarrow> b | None \<Rightarrow> 0) \<and>
     (\<exists>i < length ks. ks ! i = key c \<and> initialPositionBit c = getBit (n - (i0 + i) - 1))"
proof (induction ks arbitrary: i0)
  case (Cons k ks)
  have later: ?case if "c \<in> set (candidates_from cp mb n (Suc i0) ks)"
    using Cons.IH [OF that] by (metis Suc_less_eq add_Suc_shift length_Cons nth_Cons_Suc)
  show ?case
  proof (cases "obj_get cp k")
    case None
    with Cons.prems later show ?thesis by simp
  next
    case (Some q)
    with Cons.prems later show ?thesis by auto
  qed
qed simp

lemma getBit_eq: "getBit i = 2 ^ i"
  by (simp add: getBit_def push_bit_eq_mult)

lemma powers_disjoint: "(2 ^ i AND 2 ^ j :: nat) = 0 \<longleftrightarrow> i \<noteq> j"
  by (auto simp: bit_eq_iff bit_simps)

text \<open>The first bit two numbers differ at, from the top, decides their order.\<close>

lemma bit_less_step:
  fixes a b :: nat
  assumes "\<not> bit a m" "bit b m" "\<forall>l > m. bit a l = bit b l"
  shows "a < b"
proof -
  have "drop_bit (Suc m) a = drop_bit (Suc m) b"
    by (rule bit_eqI) (use assms(3) in \<open>simp add: bit_drop_bit_eq\<close>)
  then have high: "a div 2 ^ Suc m = b div 2 ^ Suc m" by (simp add: drop_bit_eq_div)
  have half: "x div 2 ^ Suc m = x div 2 ^ m div 2" for x :: nat by (simp only: power_Suc2 div_mult2_eq)
  have "a div 2 ^ m = 2 * (a div 2 ^ Suc m)" "b div 2 ^ m = 2 * (b div 2 ^ Suc m) + 1"
    unfolding half using assms(1,2) by (simp_all add: bit_iff_odd)
  then have "a div 2 ^ m < b div 2 ^ m" using high by simp
  then show ?thesis using div_le_mono [of b a "2 ^ m"] by linarith
qed

lemma finite_bits: "finite {m. bit (a :: nat) m}"
proof (rule finite_subset)
  have "m < a" if "bit a m" for m
  proof (rule ccontr)
    assume "\<not> m < a"
    then have "a < 2 ^ m" using less_exp [of m] by linarith
    with that show False by (simp add: bit_iff_odd)
  qed
  then show "{m. bit a m} \<subseteq> {..<a}" by auto
qed simp

lemma bit_less_iff:
  fixes a b :: nat
  shows "a < b \<longleftrightarrow> (\<exists>m. \<not> bit a m \<and> bit b m \<and> (\<forall>l > m. bit a l = bit b l))"
proof
  assume less: "a < b"
  define D where "D = {m. bit a m \<noteq> bit b m}"
  have fin: "finite D" by (rule finite_subset [OF _ finite_UnI [OF finite_bits [of a] finite_bits [of b]]]) (auto simp: D_def)
  have ne: "D \<noteq> {}" using less bit_eqI [of a b] by (auto simp: D_def)
  have "Max D \<in> D" "\<forall>l > Max D. l \<notin> D"
    by (rule Max_in [OF fin ne]) (use Max_ge [OF fin] in \<open>meson leD\<close>)
  then obtain m where m: "bit a m \<noteq> bit b m" "\<forall>l > m. bit a l = bit b l" unfolding D_def by blast
  have "\<not> bit a m"
  proof
    assume "bit a m"
    with m have "b < a" by (intro bit_less_step [of b m a]) simp_all
    with less show False by simp
  qed
  with m show "\<exists>m. \<not> bit a m \<and> bit b m \<and> (\<forall>l > m. bit a l = bit b l)" by blast
qed (auto intro: bit_less_step)

subsection \<open>The order of the moves\<close>

definition move_number :: "move_history \<Rightarrow> jsstr \<Rightarrow> nat" where
  "move_number h k = (case obj_get h k of Some n \<Rightarrow> n | None \<Rightarrow> 0)"

lemma set_insert_by [simp]: "set (insert_by le x ys) = insert x (set ys)"
  by (induction ys) auto

lemma distinct_insert_by [simp]: "distinct (insert_by le x ys) \<longleftrightarrow> x \<notin> set ys \<and> distinct ys"
  by (induction ys) auto

lemma set_sort_by [simp]: "set (sort_by le xs) = set xs"
  by (induction xs) (simp_all add: sort_by_def)

lemma distinct_sort_by [simp]: "distinct (sort_by le xs) \<longleftrightarrow> distinct xs"
  using set_sort_by [of le] by (induction xs) (simp_all add: sort_by_def)

lemma sorted_insert_by:
  assumes "\<forall>y \<in> set ys. (le x y \<longleftrightarrow> f x < f y) \<and> f x \<noteq> f y" and "sorted_wrt (\<lambda>a b. f a < f b) ys"
  shows "sorted_wrt (\<lambda>a b. f a < (f b :: nat)) (insert_by le x ys)"
  using assms by (induction ys) (auto intro: less_trans)

lemma sorted_sort_by:
  assumes "\<forall>x \<in> set xs. \<forall>y \<in> set xs. x \<noteq> y \<longrightarrow> (le x y \<longleftrightarrow> f x < f y) \<and> f x \<noteq> f y" and "distinct xs"
  shows "sorted_wrt (\<lambda>a b. f a < (f b :: nat)) (sort_by le xs)"
  using assms
proof (induction xs)
  case (Cons x xs)
  have "sorted_wrt (\<lambda>a b. f a < f b) (insert_by le x (sort_by le xs))"
    using Cons by (intro sorted_insert_by) auto
  then show ?case by (simp add: sort_by_def)
qed (simp add: sort_by_def)

text \<open>The moves are numbered with different numbers.\<close>

definition numbered :: "move_history \<Rightarrow> bool" where
  "numbered h \<longleftrightarrow> (\<forall>k l n. obj_get h k = Some n \<and> obj_get h l = Some n \<longrightarrow> k = l)"

lemma moved_keys_spec:
  assumes "distinct I" "distinct C" "numbered h"
  shows "set (moved_keys before I C h) = {k \<in> set I \<inter> set C. is_moved h k}"
    and "distinct (moved_keys before I C h)"
    and "sorted_wrt (\<lambda>a b. move_number h a < move_number h b) (moved_keys before I C h)"
proof -
  show "set (moved_keys before I C h) = {k \<in> set I \<inter> set C. is_moved h k}"
    unfolding moved_keys_def Let_def in_index_map [OF assms(2)] by auto
  show "distinct (moved_keys before I C h)" using assms(1) by (simp add: moved_keys_def Let_def)
  have "(moved_before before h x y \<longleftrightarrow> move_number h x < move_number h y) \<and> move_number h x \<noteq> move_number h y"
    if "is_moved h x" "is_moved h y" "x \<noteq> y" for x y
    using that assms(3) by (auto simp: is_moved_def moved_before_def move_number_def numbered_def)
  then show "sorted_wrt (\<lambda>a b. move_number h a < move_number h b) (moved_keys before I C h)"
    unfolding moved_keys_def Let_def using assms(1) by (intro sorted_sort_by) auto
qed

subsection \<open>Chains and common subsequences\<close>

lemma subseq_nth_take:
  "sorted_wrt (<) is \<Longrightarrow> set is \<subseteq> {..<n} \<Longrightarrow> n \<le> length xs \<Longrightarrow> subseq (map ((!) xs) is) (take n xs)"
proof (induction "is" arbitrary: n rule: rev_induct)
  case (snoc i "is")
  then have "subseq (map ((!) xs) is) (take i xs)" by (intro snoc.IH) (auto simp: sorted_wrt_append)
  then have "subseq (map ((!) xs) is @ [xs ! i]) (take i xs @ [xs ! i])" by simp
  also have "take i xs @ [xs ! i] = take (Suc i) xs" using snoc.prems by (simp add: take_Suc_conv_app_nth)
  also have "subseq (take (Suc i) xs) (take n xs)"
    using snoc.prems take_is_prefix [of "Suc i" "take n xs"] by (intro prefix_imp_subseq) (simp add: min_def)
  finally show ?case by simp
qed simp

lemma subseq_nth: "sorted_wrt (<) is \<Longrightarrow> set is \<subseteq> {..<length xs} \<Longrightarrow> subseq (map ((!) xs) is) xs"
  using subseq_nth_take [of "is" "length xs" xs] by simp

lemma subseq_indices:
  assumes "subseq s xs"
  obtains "is" where "sorted_wrt (<) is" "set is \<subseteq> {..<length xs}" "s = map ((!) xs) is"
proof -
  have "\<exists>is. sorted_wrt (<) is \<and> set is \<subseteq> {..<length xs} \<and> s = map ((!) xs) is"
    using assms
  proof (induction rule: list_emb.induct)
    case (list_emb_Nil ys)
    show ?case by (intro exI [of _ "[]"]) simp
  next
    case (list_emb_Cons s xs y)
    then obtain "is" where "sorted_wrt (<) is" "set is \<subseteq> {..<length xs}" "s = map ((!) xs) is" by blast
    then show ?case by (intro exI [of _ "map Suc is"]) (auto simp: sorted_wrt_map)
  next
    case (list_emb_Cons2 x y s xs)
    then obtain "is" where "sorted_wrt (<) is" "set is \<subseteq> {..<length xs}" "s = map ((!) xs) is" by blast
    with \<open>x = y\<close> show ?case by (intro exI [of _ "0 # map Suc is"]) (auto simp: sorted_wrt_map)
  qed
  with that show ?thesis by blast
qed

definition keys_of :: "lcs_candidate list \<Rightarrow> nat list \<Rightarrow> jsstr list" where
  "keys_of cs is = map (\<lambda>i. key (cs ! i)) is"

definition common :: "jsstr list \<Rightarrow> jsstr list \<Rightarrow> jsstr list set" where
  "common I C = {s. subseq s I \<and> subseq s C}"

lemma candidate_keys: "distinct C \<Longrightarrow> map key (lcs_candidates before I C h) = filter (\<lambda>k. k \<in> set C) I"
  by (simp only: lcs_candidates_def candidates_from_keys in_index_map)

lemma candidate_fields:
  assumes "distinct C" and "j < length (lcs_candidates before I C h)"
  defines "c \<equiv> lcs_candidates before I C h ! j"
  shows "currentPosition c < length C \<and> C ! currentPosition c = key c"
    and "moveBit c = (case obj_get (index_map getBit (moved_keys before I C h)) (key c) of Some b \<Rightarrow> b | None \<Rightarrow> 0)"
    and "\<exists>i < length I. I ! i = key c \<and> initialPositionBit c = 2 ^ (length I - i - 1)"
proof -
  have "c \<in> set (lcs_candidates before I C h)" unfolding c_def by (rule nth_mem [OF assms(2)])
  from candidates_from_nth [OF this [unfolded lcs_candidates_def]] obj_get_index_map [OF assms(1)]
  show "currentPosition c < length C \<and> C ! currentPosition c = key c"
    "moveBit c = (case obj_get (index_map getBit (moved_keys before I C h)) (key c) of Some b \<Rightarrow> b | None \<Rightarrow> 0)"
    "\<exists>i < length I. I ! i = key c \<and> initialPositionBit c = 2 ^ (length I - i - 1)"
    by (auto simp: getBit_eq)
qed

lemma chain_common:
  assumes "distinct C" and chain: "chain (lcs_candidates before I C h) is"
  shows "keys_of (lcs_candidates before I C h) is \<in> common I C"
proof -
  let ?cs = "lcs_candidates before I C h" and ?J = "filter (\<lambda>k. k \<in> set C) I"
  note keys = candidate_keys [OF assms(1), of before I h]
  have len: "length ?cs = length ?J" using keys by (metis length_map)
  have "is": "set is \<subseteq> {..<length ?cs}" "sorted_wrt (<) is"
    using chain by (auto simp: chain_def elim: sorted_wrt_mono_rel [rotated])
  have "key (?cs ! i) = ?J ! i" if "i \<in> set is" for i
    using keys that "is"(1) by (metis lessThan_iff nth_map subsetD)
  then have "keys_of ?cs is = map ((!) ?J) is" by (simp add: keys_of_def)
  moreover have "subseq (map ((!) ?J) is) ?J" by (rule subseq_nth [OF "is"(2)]) (use "is"(1) len in simp)
  moreover have "subseq ?J I" by simp
  ultimately have "subseq (keys_of ?cs is) I" using subseq_order.trans by metis
  moreover have "keys_of ?cs is = map ((!) C) (map (\<lambda>i. currentPosition (?cs ! i)) is)"
    using candidate_fields(1) [OF assms(1), of _ before I h] "is"(1) by (auto simp: keys_of_def)
  moreover have "sorted_wrt (<) (map (\<lambda>i. currentPosition (?cs ! i)) is)"
    using chain by (auto simp: chain_def sorted_wrt_map elim: sorted_wrt_mono_rel [rotated])
  then have "subseq (map ((!) C) (map (\<lambda>i. currentPosition (?cs ! i)) is)) C"
    by (rule subseq_nth) (use candidate_fields(1) [OF assms(1), of _ before I h] "is"(1) in auto)
  ultimately show ?thesis by (simp add: common_def)
qed

lemma common_chain:
  assumes "distinct I" "distinct C" and "s \<in> common I C"
  obtains "is" where "chain (lcs_candidates before I C h) is" "s = keys_of (lcs_candidates before I C h) is"
proof -
  let ?cs = "lcs_candidates before I C h" and ?J = "filter (\<lambda>k. k \<in> set C) I"
  note keys = candidate_keys [OF assms(2), of before I h]
  have len: "length ?cs = length ?J" using keys by (metis length_map)
  have s: "subseq s I" "subseq s C" using assms(3) by (auto simp: common_def)
  have "set s \<subseteq> set C" using s(2) by (metis set_nths_subset subseq_conv_nths)
  then have "filter (\<lambda>k. k \<in> set C) s = s" by (auto simp: filter_id_conv)
  then have "subseq s ?J" using s(1) by (metis subseq_filter)
  then obtain "is" where "is": "sorted_wrt (<) is" "set is \<subseteq> {..<length ?J}" "s = map ((!) ?J) is" by (rule subseq_indices)
  from s(2) obtain ps where ps: "sorted_wrt (<) ps" "set ps \<subseteq> {..<length C}" "s = map ((!) C) ps" by (rule subseq_indices)
  have key: "key (?cs ! i) = ?J ! i" if "i \<in> set is" for i
    using keys that "is"(2) len by (metis lessThan_iff nth_map subsetD)
  then have eq: "s = keys_of ?cs is" by (simp add: "is"(3) keys_of_def)
  have lens: "length is = length ps" using "is"(3) ps(3) by (metis length_map)
  have pos: "currentPosition (?cs ! (is ! a)) = ps ! a" if "a < length is" for a
  proof -
    have a: "is ! a < length ?cs" using that "is"(2) len by (metis lessThan_iff nth_mem subsetD)
    have "C ! (ps ! a) = s ! a" using that lens ps(3) by simp
    also have "\<dots> = key (?cs ! (is ! a))" using that eq by (simp add: keys_of_def)
    finally have "C ! (ps ! a) = C ! currentPosition (?cs ! (is ! a))" using candidate_fields(1) [OF assms(2) a] by simp
    moreover have "ps ! a < length C" using that lens ps(2) by (metis lessThan_iff nth_mem subsetD)
    ultimately show ?thesis using candidate_fields(1) [OF assms(2) a] nth_eq_iff_index_eq [OF assms(2)] by metis
  qed
  have "chain ?cs is"
    using "is"(1,2) ps(1) lens pos len by (auto simp: chain_def sorted_wrt_iff_nth_less)
  with eq that show ?thesis by blast
qed

lemma moveBit_bits:
  assumes "distinct I" "distinct C" "numbered h" "j < length (lcs_candidates before I C h)"
  shows "bit (moveBit (lcs_candidates before I C h ! j)) m \<longleftrightarrow>
    m < length (moved_keys before I C h) \<and> moved_keys before I C h ! m = key (lcs_candidates before I C h ! j)"
proof -
  let ?mk = "moved_keys before I C h" and ?c = "lcs_candidates before I C h ! j"
  note mk = moved_keys_spec(2) [OF assms(1-3), of before]
  note f = candidate_fields(2) [OF assms(2,4)]
  show ?thesis
  proof (cases "obj_get (index_map getBit ?mk) (key ?c)")
    case None
    then have "key ?c \<notin> set ?mk" using in_index_map [OF mk] by blast
    with None f show ?thesis by (auto simp: in_set_conv_nth)
  next
    case (Some v)
    then obtain i where i: "i < length ?mk" "?mk ! i = key ?c" "v = getBit i" using obj_get_index_map [OF mk] by blast
    with Some f have "bit (moveBit ?c) m \<longleftrightarrow> i = m" by (auto simp: getBit_eq bit_simps)
    with i mk show ?thesis by (metis nth_eq_iff_index_eq)
  qed
qed

lemma initialBit_bits:
  assumes "distinct I" "distinct C" "j < length (lcs_candidates before I C h)"
  shows "bit (initialPositionBit (lcs_candidates before I C h ! j)) m \<longleftrightarrow>
    m < length I \<and> I ! (length I - m - 1) = key (lcs_candidates before I C h ! j)"
proof -
  obtain i where i: "i < length I" "I ! i = key (lcs_candidates before I C h ! j)"
    "initialPositionBit (lcs_candidates before I C h ! j) = 2 ^ (length I - i - 1)"
    using candidate_fields(3) [OF assms(2,3)] by blast
  have "I ! (length I - m - 1) = I ! i \<longleftrightarrow> length I - m - 1 = i" if "m < length I"
    using that i(1) assms(1) by (simp add: nth_eq_iff_index_eq)
  with i show ?thesis by (auto simp: bit_simps)
qed

lemma candidates_distinct:
  assumes "distinct I" "distinct C" "i < length (lcs_candidates before I C h)" "j < length (lcs_candidates before I C h)" "i \<noteq> j"
  shows "key (lcs_candidates before I C h ! i) \<noteq> key (lcs_candidates before I C h ! j)"
proof -
  have "distinct (map key (lcs_candidates before I C h))" using assms(1,2) by (simp add: candidate_keys)
  with assms(3-5) show ?thesis by (metis length_map nth_eq_iff_index_eq nth_map)
qed

lemma separate_candidates:
  assumes "distinct I" "distinct C" "numbered h"
  shows "separate_bits moveBit (lcs_candidates before I C h)" "separate_bits initialPositionBit (lcs_candidates before I C h)"
  unfolding separate_bits_def using candidates_distinct [OF assms(1,2)] moveBit_bits [OF assms] initialBit_bits [OF assms(1,2)]
  by (auto simp: bit_eq_iff bit_simps)

lemma keys_in_mask:
  assumes "distinct I" "distinct C" "numbered h" "chain (lcs_candidates before I C h) is"
  shows "bit (chain_mask moveBit (lcs_candidates before I C h) is) m \<longleftrightarrow>
      m < length (moved_keys before I C h) \<and> moved_keys before I C h ! m \<in> set (keys_of (lcs_candidates before I C h) is)"
    and "bit (chain_mask initialPositionBit (lcs_candidates before I C h) is) m \<longleftrightarrow>
      m < length I \<and> I ! (length I - m - 1) \<in> set (keys_of (lcs_candidates before I C h) is)"
proof -
  have "i < length (lcs_candidates before I C h)" if "i \<in> set is" for i using assms(4) that by (auto simp: chain_def)
  then show "bit (chain_mask moveBit (lcs_candidates before I C h) is) m \<longleftrightarrow>
      m < length (moved_keys before I C h) \<and> moved_keys before I C h ! m \<in> set (keys_of (lcs_candidates before I C h) is)"
    "bit (chain_mask initialPositionBit (lcs_candidates before I C h) is) m \<longleftrightarrow>
      m < length I \<and> I ! (length I - m - 1) \<in> set (keys_of (lcs_candidates before I C h) is)"
    using moveBit_bits [OF assms(1-3)] initialBit_bits [OF assms(1,2)] by (auto simp: bit_mask keys_of_def)
qed

subsection \<open>The specification\<close>

text \<open>
  Of two common subsequences the better one is longer. Between equally long ones it leaves out the newest of
  the moved keys they differ in, and if they have the same moved keys, it has the earliest of the initial
  keys they differ in.
\<close>

definition leaves_out_newest :: "move_history \<Rightarrow> jsstr list \<Rightarrow> jsstr list \<Rightarrow> bool" where
  "leaves_out_newest h r s \<longleftrightarrow>
     (\<exists>k \<in> set s - set r. is_moved h k \<and>
        (\<forall>k' \<in> set r \<union> set s. is_moved h k' \<and> move_number h k < move_number h k' \<longrightarrow> (k' \<in> set r \<longleftrightarrow> k' \<in> set s)))"

definition same_moves :: "move_history \<Rightarrow> jsstr list \<Rightarrow> jsstr list \<Rightarrow> bool" where
  "same_moves h r s \<longleftrightarrow> (\<forall>k \<in> set r \<union> set s. is_moved h k \<longrightarrow> (k \<in> set r \<longleftrightarrow> k \<in> set s))"

definition keeps_earliest :: "jsstr list \<Rightarrow> jsstr list \<Rightarrow> jsstr list \<Rightarrow> bool" where
  "keeps_earliest I r s \<longleftrightarrow>
     (\<exists>i < length I. I ! i \<in> set r - set s \<and> (\<forall>j < i. I ! j \<in> set r \<longleftrightarrow> I ! j \<in> set s))"

definition better_stationary :: "jsstr list \<Rightarrow> move_history \<Rightarrow> jsstr list \<Rightarrow> jsstr list \<Rightarrow> bool" where
  "better_stationary I h r s \<longleftrightarrow>
     length r > length s \<or>
     (length r = length s \<and> (leaves_out_newest h r s \<or> (same_moves h r s \<and> keeps_earliest I r s)))"

lemma moves_mask_spec:
  assumes "distinct I" "distinct C" "numbered h"
    and "chain (lcs_candidates before I C h) is" "chain (lcs_candidates before I C h) ks"
  defines "r \<equiv> keys_of (lcs_candidates before I C h) is" and "s \<equiv> keys_of (lcs_candidates before I C h) ks"
  shows "chain_mask moveBit (lcs_candidates before I C h) is < chain_mask moveBit (lcs_candidates before I C h) ks \<longleftrightarrow>
      leaves_out_newest h r s"
    and "chain_mask moveBit (lcs_candidates before I C h) is = chain_mask moveBit (lcs_candidates before I C h) ks \<longleftrightarrow>
      same_moves h r s"
proof -
  let ?mk = "moved_keys before I C h"
  note mk = moved_keys_spec [OF assms(1-3), of before]
  note bits = keys_in_mask(1) [OF assms(1-4)] keys_in_mask(1) [OF assms(1-3,5)]
  have sub: "set r \<union> set s \<subseteq> set I \<inter> set C"
    using chain_common [OF assms(2,4)] chain_common [OF assms(2,5)]
    by (auto simp: common_def r_def s_def) (metis in_mono set_nths_subset subseq_conv_nths)+
  have in_mk: "\<exists>m < length ?mk. ?mk ! m = k" if "k \<in> set r \<union> set s" "is_moved h k" for k
    using that sub mk(1) by (auto simp: in_set_conv_nth [symmetric])
  have moved: "is_moved h (?mk ! m)" if "m < length ?mk" for m using mk(1) nth_mem [OF that] by blast
  have newer: "move_number h (?mk ! m) < move_number h (?mk ! l) \<longleftrightarrow> m < l" if "m < length ?mk" "l < length ?mk" for m l
    using that mk(3) by (metis linorder_less_linear order_less_asym sorted_wrt_iff_nth_less)
  show "chain_mask moveBit (lcs_candidates before I C h) is < chain_mask moveBit (lcs_candidates before I C h) ks \<longleftrightarrow>
      leaves_out_newest h r s"
    unfolding bit_less_iff [of "chain_mask moveBit (lcs_candidates before I C h) is"] bits r_def [symmetric] s_def [symmetric] leaves_out_newest_def
  proof
    assume "\<exists>m. \<not> (m < length ?mk \<and> ?mk ! m \<in> set r) \<and> (m < length ?mk \<and> ?mk ! m \<in> set s) \<and>
      (\<forall>l > m. (l < length ?mk \<and> ?mk ! l \<in> set r) = (l < length ?mk \<and> ?mk ! l \<in> set s))"
    then obtain m where m: "m < length ?mk" "?mk ! m \<in> set s - set r"
      "\<forall>l > m. (l < length ?mk \<and> ?mk ! l \<in> set r) = (l < length ?mk \<and> ?mk ! l \<in> set s)" by blast
    show "\<exists>k \<in> set s - set r. is_moved h k \<and>
        (\<forall>k' \<in> set r \<union> set s. is_moved h k' \<and> move_number h k < move_number h k' \<longrightarrow> (k' \<in> set r \<longleftrightarrow> k' \<in> set s))"
      using m in_mk newer [OF m(1)] moved [OF m(1)] by (intro bexI [of _ "?mk ! m"]) (metis, simp)
  next
    assume "\<exists>k \<in> set s - set r. is_moved h k \<and>
        (\<forall>k' \<in> set r \<union> set s. is_moved h k' \<and> move_number h k < move_number h k' \<longrightarrow> (k' \<in> set r \<longleftrightarrow> k' \<in> set s))"
    then obtain k where k: "k \<in> set s - set r" "is_moved h k"
      "\<forall>k' \<in> set r \<union> set s. is_moved h k' \<and> move_number h k < move_number h k' \<longrightarrow> (k' \<in> set r \<longleftrightarrow> k' \<in> set s)" by blast
    obtain m where m: "m < length ?mk" "?mk ! m = k" using in_mk [of k] k by blast
    have "(?mk ! l \<in> set r) = (?mk ! l \<in> set s)" if "l > m" "l < length ?mk" for l
      using k(3) newer [OF m(1) that(2)] moved [OF that(2)] that m(2) by blast
    with m k(1) show "\<exists>m. \<not> (m < length ?mk \<and> ?mk ! m \<in> set r) \<and> (m < length ?mk \<and> ?mk ! m \<in> set s) \<and>
      (\<forall>l > m. (l < length ?mk \<and> ?mk ! l \<in> set r) = (l < length ?mk \<and> ?mk ! l \<in> set s))" by blast
  qed
  show "chain_mask moveBit (lcs_candidates before I C h) is = chain_mask moveBit (lcs_candidates before I C h) ks \<longleftrightarrow>
      same_moves h r s"
    unfolding bit_eq_iff [of "chain_mask moveBit (lcs_candidates before I C h) is"] bits r_def [symmetric] s_def [symmetric] same_moves_def
    using in_mk moved by (simp add: Ball_def) metis
qed

lemma subseq_by_set: "distinct xs \<Longrightarrow> subseq s xs \<Longrightarrow> s = filter (\<lambda>k. k \<in> set s) xs"
proof (induction xs arbitrary: s)
  case (Cons x xs)
  show ?case
  proof (cases "x \<in> set s")
    case True
    then obtain s' where s: "s = x # s'" "subseq s' xs"
      using Cons.prems by (cases s) (auto split: if_splits dest: list_emb_set)
    with Cons.prems have "x \<notin> set s'" by (auto dest: list_emb_set)
    moreover have "filter (\<lambda>k. k \<in> set s) xs = filter (\<lambda>k. k \<in> set s') xs"
      using Cons.prems(1) s(1) by (intro filter_cong) auto
    ultimately show ?thesis using Cons.IH [OF _ s(2)] Cons.prems(1) s(1) by simp
  next
    case False
    with Cons.prems have "subseq s xs" by (cases s) (auto split: if_splits)
    with Cons False show ?thesis by simp
  qed
qed simp

lemma initial_mask_spec:
  assumes "distinct I" "distinct C" "numbered h"
    and "chain (lcs_candidates before I C h) is" "chain (lcs_candidates before I C h) ks"
  defines "r \<equiv> keys_of (lcs_candidates before I C h) is" and "s \<equiv> keys_of (lcs_candidates before I C h) ks"
  shows "chain_mask initialPositionBit (lcs_candidates before I C h) ks < chain_mask initialPositionBit (lcs_candidates before I C h) is \<longleftrightarrow>
      keeps_earliest I r s"
    and "chain_mask initialPositionBit (lcs_candidates before I C h) is = chain_mask initialPositionBit (lcs_candidates before I C h) ks \<longleftrightarrow>
      r = s"
proof -
  let ?n = "length I"
  note bits = keys_in_mask(2) [OF assms(1-4)] keys_in_mask(2) [OF assms(1-3,5)]
  have mirror: "?n - (?n - i - 1) - 1 = i" "?n - i - 1 < ?n" if "i < ?n" for i using that by simp_all
  show "chain_mask initialPositionBit (lcs_candidates before I C h) ks < chain_mask initialPositionBit (lcs_candidates before I C h) is \<longleftrightarrow>
      keeps_earliest I r s"
    unfolding bit_less_iff [of "chain_mask initialPositionBit (lcs_candidates before I C h) ks"] bits r_def [symmetric] s_def [symmetric] keeps_earliest_def
  proof
    assume "\<exists>m. \<not> (m < ?n \<and> I ! (?n - m - 1) \<in> set s) \<and> (m < ?n \<and> I ! (?n - m - 1) \<in> set r) \<and>
      (\<forall>l > m. (l < ?n \<and> I ! (?n - l - 1) \<in> set s) = (l < ?n \<and> I ! (?n - l - 1) \<in> set r))"
    then obtain m where m: "m < ?n" "I ! (?n - m - 1) \<in> set r - set s"
      "\<forall>l > m. (l < ?n \<and> I ! (?n - l - 1) \<in> set s) = (l < ?n \<and> I ! (?n - l - 1) \<in> set r)" by blast
    have "(I ! j \<in> set r) = (I ! j \<in> set s)" if "j < ?n - m - 1" for j
      using m(3) [rule_format, of "?n - j - 1"] mirror [of j] that by auto
    with m show "\<exists>i < ?n. I ! i \<in> set r - set s \<and> (\<forall>j < i. (I ! j \<in> set r) = (I ! j \<in> set s))"
      by (intro exI [of _ "?n - m - 1"]) auto
  next
    assume "\<exists>i < ?n. I ! i \<in> set r - set s \<and> (\<forall>j < i. (I ! j \<in> set r) = (I ! j \<in> set s))"
    then obtain i where i: "i < ?n" "I ! i \<in> set r - set s" "\<forall>j < i. (I ! j \<in> set r) = (I ! j \<in> set s)" by blast
    have "(I ! (?n - l - 1) \<in> set s) = (I ! (?n - l - 1) \<in> set r)" if "l > ?n - i - 1" "l < ?n" for l
      using i(3) [rule_format, of "?n - l - 1"] that i(1) by auto
    with i mirror [OF i(1)] show "\<exists>m. \<not> (m < ?n \<and> I ! (?n - m - 1) \<in> set s) \<and> (m < ?n \<and> I ! (?n - m - 1) \<in> set r) \<and>
      (\<forall>l > m. (l < ?n \<and> I ! (?n - l - 1) \<in> set s) = (l < ?n \<and> I ! (?n - l - 1) \<in> set r))"
      by (intro exI [of _ "?n - i - 1"]) auto
  qed
  have rs: "subseq r I" "subseq s I"
    using chain_common [OF assms(2,4)] chain_common [OF assms(2,5)] by (simp_all add: common_def r_def s_def)
  show "chain_mask initialPositionBit (lcs_candidates before I C h) is = chain_mask initialPositionBit (lcs_candidates before I C h) ks \<longleftrightarrow> r = s"
    unfolding bit_eq_iff [of "chain_mask initialPositionBit (lcs_candidates before I C h) is"] bits r_def [symmetric] s_def [symmetric]
  proof
    assume same: "\<forall>m. possible_bit TYPE(nat) m \<longrightarrow> (m < ?n \<and> I ! (?n - m - 1) \<in> set r) = (m < ?n \<and> I ! (?n - m - 1) \<in> set s)"
    have "k \<in> set r \<longleftrightarrow> k \<in> set s" if k: "k \<in> set I" for k
    proof -
      obtain i where "i < ?n" "I ! i = k" using k by (meson in_set_conv_nth)
      with same [rule_format, of "?n - i - 1"] mirror [of i] show ?thesis by simp
    qed
    moreover have "r = filter (\<lambda>k. k \<in> set r) I" "s = filter (\<lambda>k. k \<in> set s) I"
      using rs assms(1) by (blast intro: subseq_by_set)+
    ultimately show "r = s" by (metis (no_types, lifting) filter_cong)
  qed simp
qed

lemma canonical_stationary:
  assumes "distinct I" "distinct C" "numbered h"
  obtains r where "getCanonicalStationarySubsequence before I C h = Some r" "r \<in> common I C"
    "\<forall>s \<in> common I C. s \<noteq> r \<longrightarrow> better_stationary I h r s"
proof -
  let ?cs = "lcs_candidates before I C h"
  obtain "is" where "is": "chain ?cs is" "most_preferred ?cs {ks. chain ?cs ks} is"
    and run: "map_option rev (collect_keys ?cs (fst (lcs_paths ?cs)) (snd (lcs_paths ?cs)) []) = Some (map (\<lambda>i. key (?cs ! i)) is)"
    by (rule stationary_chain [OF separate_candidates [OF assms]])
  have "getCanonicalStationarySubsequence before I C h = Some (keys_of ?cs is)"
    using run by (simp add: getCanonicalStationarySubsequence_def Let_def case_prod_unfold keys_of_def)
  moreover have "better_stationary I h (keys_of ?cs is) s" if s: "s \<in> common I C" "s \<noteq> keys_of ?cs is" for s
  proof -
    obtain ks where ks: "chain ?cs ks" "s = keys_of ?cs ks" by (rule common_chain [OF assms(1,2) s(1)])
    have "\<not> preferred_chain ?cs ks is" using "is"(2) ks(1) by (simp add: most_preferred_def)
    then show ?thesis
      using moves_mask_spec [OF assms "is"(1) ks(1)] initial_mask_spec [OF assms "is"(1) ks(1)] s(2)
      unfolding ks(2) preferred_chain_def better_stationary_def by (auto simp: keys_of_def)
  qed
  ultimately show ?thesis using that chain_common [OF assms(2) "is"(1)] by blast
qed

text \<open>
  C5: the loops over bit masks find what the comments ask for: a common subsequence of the two orders of the
  siblings that is better than every other one; it is longer, or leaves out the more recently moved keys, or
  keeps the earlier initial positions. The search always returns it.
\<close>

theorem getCanonicalStationarySubsequence_best:
  assumes "distinct initialOrder" "distinct currentOrder" "numbered moveHistory"
  shows "\<exists>r. getCanonicalStationarySubsequence before initialOrder currentOrder moveHistory = Some r \<and>
    subseq r initialOrder \<and> subseq r currentOrder \<and>
    (\<forall>s. subseq s initialOrder \<and> subseq s currentOrder \<and> s \<noteq> r \<longrightarrow> better_stationary initialOrder moveHistory r s)"
  by (rule canonical_stationary [OF assms, of before]) (auto simp: common_def)

text \<open>Two siblings are swapped, and the second was moved: the first is stationary.\<close>

declare collect_keys.simps [code]

theorem getCanonicalStationarySubsequence_best_witness:
  "getCanonicalStationarySubsequence (\<lambda>_ _. True) [[1], [2]] [[2], [1]] [([2], 1)] = Some [[1]] \<and>
   better_stationary [[1], [2]] [([2], 1)] [[1]] [[2]]"
proof -
  have run: "getCanonicalStationarySubsequence (\<lambda>_ _. True) [[1], [2]] [[2], [1]] [([2], 1)] = Some [[1]]"
    by code_simp
  moreover have "numbered [([2], 1)]" by (simp add: numbered_def)
  ultimately show ?thesis
    using getCanonicalStationarySubsequence_best [of "[[1], [2]]" "[[2], [1]]" "[([2], 1)]" "\<lambda>_ _. True"] by simp
qed

end
