(* ===== verification/Property_Reordering.thy ===== *)
theory Property_Reordering
  imports Stationary_Sequence
begin

section \<open>Reordering of properties: moved properties (usePropertyReordering.ts)\<close>

text \<open>
  The grid of the schema editor moves a property among its siblings (\<open>reorderEditableSchema\<close>) and marks
  those the user reordered (\<open>getReorderedPropertyKeys\<close>). The state of the hook is the edited schema, the history of
  the moves and the number of the last move. A \<open>Set\<close> of keys is a set.
\<close>

definition areEqualSequences :: "jsstr list \<Rightarrow> jsstr list \<Rightarrow> bool" where
  "areEqualSequences first second \<longleftrightarrow> length first = length second \<and> list_all (\<lambda>(a, b). a = b) (zip first second)"

lemma areEqualSequences_iff [simp]: "areEqualSequences xs ys \<longleftrightarrow> xs = ys"
  by (auto simp: areEqualSequences_def list_all_iff zip_same list_eq_iff_zip_eq)

definition groupKeysByParent :: "jsstr list \<Rightarrow> jsstr set \<Rightarrow> jsstr list obj" where
  "groupKeysByParent keys includedKeys =
     foldl (\<lambda>groups k.
       if k \<notin> includedKeys then groups
       else let parentKey = getParentPropertyKey k;
                g = (case obj_get groups parentKey of Some g \<Rightarrow> g | None \<Rightarrow> [])
            in obj_set groups parentKey (g @ [k])) [] keys"

definition splitAroundAnchors :: "jsstr list \<Rightarrow> jsstr set \<Rightarrow> jsstr list list" where
  "splitAroundAnchors keys anchors =
     foldl (\<lambda>intervals k.
       if k \<in> anchors then intervals @ [[]] else butlast intervals @ [last intervals @ [k]]) [[]] keys"

subsection \<open>getReorderedPropertyKeys\<close>

fun add_stationary :: "(jsstr \<Rightarrow> jsstr \<Rightarrow> bool) \<Rightarrow> move_history \<Rightarrow> (jsstr list \<times> jsstr list) list \<Rightarrow> jsstr set \<Rightarrow> jsstr set option" where
  "add_stationary before moveHistory [] stationaryKeys = Some stationaryKeys"
| "add_stationary before moveHistory ((i, c) # intervals) stationaryKeys =
     (case getCanonicalStationarySubsequence before i c moveHistory of
        None \<Rightarrow> None
      | Some stationaryInterval \<Rightarrow> add_stationary before moveHistory intervals (stationaryKeys \<union> set stationaryInterval))"

definition stationary_keys :: "(jsstr \<Rightarrow> jsstr \<Rightarrow> bool) \<Rightarrow> move_history \<Rightarrow> jsstr list \<Rightarrow> jsstr list \<Rightarrow> jsstr set option" where
  "stationary_keys before moveHistory initialOrder currentOrder =
     (let anchors = filter (\<lambda>k. \<not> is_moved moveHistory k) currentOrder;
          initialAnchors = filter (\<lambda>k. \<not> is_moved moveHistory k) initialOrder
      in if \<not> areEqualSequences initialAnchors anchors
         then map_option set (getCanonicalStationarySubsequence before initialOrder currentOrder moveHistory)
         else add_stationary before moveHistory
                (zip (splitAroundAnchors initialOrder (set anchors)) (splitAroundAnchors currentOrder (set anchors)))
                (set anchors))"

definition reordered_in_group :: "(jsstr \<Rightarrow> jsstr \<Rightarrow> bool) \<Rightarrow> move_history \<Rightarrow> jsstr list \<Rightarrow> jsstr list \<Rightarrow> jsstr set option" where
  "reordered_in_group before moveHistory initialOrder currentOrder =
     (if areEqualSequences initialOrder currentOrder then Some {}
      else map_option (\<lambda>stationaryKeys. set (filter (\<lambda>k. k \<notin> stationaryKeys) currentOrder))
             (stationary_keys before moveHistory initialOrder currentOrder))"

fun reordered_in_groups :: "(jsstr \<Rightarrow> jsstr \<Rightarrow> bool) \<Rightarrow> move_history \<Rightarrow> jsstr list obj \<Rightarrow> jsstr list obj \<Rightarrow> jsstr set \<Rightarrow> jsstr set option" where
  "reordered_in_groups before moveHistory initialGroups [] reorderedKeys = Some reorderedKeys"
| "reordered_in_groups before moveHistory initialGroups ((parentKey, currentOrder) # groups) reorderedKeys =
     (case reordered_in_group before moveHistory
             (case obj_get initialGroups parentKey of Some g \<Rightarrow> g | None \<Rightarrow> []) currentOrder of
        None \<Rightarrow> None
      | Some ks \<Rightarrow> reordered_in_groups before moveHistory initialGroups groups (reorderedKeys \<union> ks))"

definition surviving_keys :: "editable_schema \<Rightarrow> editable_schema \<Rightarrow> jsstr set" where
  "surviving_keys currentSchema initialSchema =
     set (filter (\<lambda>k. k \<in> set (obj_keys initialSchema) \<and>
         (case obj_get currentSchema k of Some p \<Rightarrow> \<not> ep_isEditable p | None \<Rightarrow> False)) (obj_keys currentSchema))"

text \<open>A schema that is not loaded is \<open>None\<close>; the outer option of the result is a loop that does not end.\<close>

definition getReorderedPropertyKeys ::
    "(jsstr \<Rightarrow> jsstr \<Rightarrow> bool) \<Rightarrow> editable_schema option \<Rightarrow> editable_schema option \<Rightarrow> move_history \<Rightarrow> jsstr set option" where
  "getReorderedPropertyKeys before currentSchema initialSchema moveHistory =
     (case (currentSchema, initialSchema) of
        (Some cur, Some ini) \<Rightarrow>
          let survivingKeys = surviving_keys cur ini
          in reordered_in_groups before moveHistory (groupKeysByParent (obj_keys ini) survivingKeys)
               (groupKeysByParent (obj_keys cur) survivingKeys) {}
      | _ \<Rightarrow> Some {})"

subsection \<open>reorderEditableSchema and onSortRow\<close>

definition index_of :: "jsstr list \<Rightarrow> jsstr \<Rightarrow> int" where
  "index_of keys k = (case find_index (\<lambda>x. x = k) keys of Some i \<Rightarrow> int i | None \<Rightarrow> -1)"

text \<open>\<open>keys.splice(i, 0, ...inserted)\<close>: a negative index counts from the end.\<close>

definition splice_in :: "int \<Rightarrow> jsstr list \<Rightarrow> jsstr list \<Rightarrow> jsstr list" where
  "splice_in i inserted keys =
     (let n = nat (if i < 0 then max 0 (int (length keys) + i) else i) in take n keys @ inserted @ drop n keys)"

definition moved_block :: "jsstr \<Rightarrow> jsstr list \<Rightarrow> jsstr list" where
  "moved_block movedRowID keys = filter (\<lambda>k. k = movedRowID \<or> starts_with k (movedRowID @ js ''.'')) keys"

definition reordered_keys :: "jsstr \<Rightarrow> jsstr \<Rightarrow> jsstr list \<Rightarrow> jsstr list" where
  "reordered_keys overRowID movedRowID keys =
     (let movedKeys = moved_block movedRowID keys;
          reorderedKeys = filter (\<lambda>k. k \<notin> set movedKeys) keys;
          insertIndex = index_of reorderedKeys overRowID
            + (if index_of keys overRowID > index_of keys movedRowID then 1 else 0)
      in splice_in insertIndex movedKeys reorderedKeys)"

definition pick_entries :: "editable_schema \<Rightarrow> jsstr list \<Rightarrow> editable_schema" where
  "pick_entries schema keys =
     foldl (\<lambda>reorderedSchema k. case obj_get schema k of Some p \<Rightarrow> obj_set reorderedSchema k p | None \<Rightarrow> reorderedSchema) [] keys"

definition reorderEditableSchema :: "editable_schema option \<Rightarrow> jsstr \<Rightarrow> jsstr \<Rightarrow> editable_schema option" where
  "reorderEditableSchema schema overRowID movedRowID =
     (case schema of
        None \<Rightarrow> None
      | Some s \<Rightarrow>
          if overRowID = movedRowID \<or> obj_get s overRowID = None \<or> obj_get s movedRowID = None \<or>
             getParentPropertyKey overRowID \<noteq> getParentPropertyKey movedRowID then None
          else let keys = reordered_keys overRowID movedRowID (obj_keys s) in
               if areEqualSequences (obj_keys s) keys then None else Some (pick_entries s keys))"

record reordering =
  editableSchema :: editable_schema
  moveHistory :: move_history
  nextMoveSequence :: nat

definition onSortRow :: "jsstr \<Rightarrow> jsstr \<Rightarrow> 'a reordering_scheme \<Rightarrow> 'a reordering_scheme" where
  "onSortRow overRowID movedRowID st =
     (case reorderEditableSchema (Some (editableSchema st)) overRowID movedRowID of
        None \<Rightarrow> st
      | Some reorderedSchema \<Rightarrow>
          (let n = nextMoveSequence st + 1 in
           st\<lparr>editableSchema := reorderedSchema, moveHistory := obj_set (moveHistory st) movedRowID n, nextMoveSequence := n\<rparr>))"

definition resetMoveHistory :: "'a reordering_scheme \<Rightarrow> 'a reordering_scheme" where
  "resetMoveHistory st = st\<lparr>moveHistory := [], nextMoveSequence := 0\<rparr>"

subsection \<open>Groups of siblings\<close>

definition siblings :: "jsstr set \<Rightarrow> jsstr \<Rightarrow> jsstr list \<Rightarrow> jsstr list" where
  "siblings included p keys = filter (\<lambda>k. k \<in> included \<and> getParentPropertyKey k = p) keys"

lemma obj_get_groups:
  "obj_get (groupKeysByParent keys included) p =
     (if siblings included p keys = [] then None else Some (siblings included p keys))"
  by (induction keys arbitrary: p rule: rev_induct) (auto simp: groupKeysByParent_def siblings_def Let_def)

lemma groups_or_empty:
  "(case obj_get (groupKeysByParent keys included) p of Some g \<Rightarrow> g | None \<Rightarrow> []) = siblings included p keys"
  by (simp add: obj_get_groups)

lemma distinct_groups: "distinct (obj_keys (groupKeysByParent keys included))"
  by (induction keys rule: rev_induct) (auto simp: groupKeysByParent_def Let_def objs.distinct_keys_put)

lemma groups_keys: "set (obj_keys (groupKeysByParent keys included)) = {p. siblings included p keys \<noteq> []}"
  by (rule set_eqI) (simp add: in_obj_keys obj_get_groups)

lemma siblings_distinct: "distinct keys \<Longrightarrow> distinct (siblings included p keys)"
  by (simp add: siblings_def)

subsection \<open>Intervals between anchors\<close>

text \<open>The keys again, of the intervals and the anchors between them.\<close>

fun weave :: "jsstr list list \<Rightarrow> jsstr list \<Rightarrow> jsstr list" where
  "weave (i # is) (a # as) = i @ a # weave is as"
| "weave is [] = concat is"
| "weave [] as = []"

lemma weave_snoc_anchor: "length is = Suc (length as) \<Longrightarrow> weave (is @ [[]]) (as @ [a]) = weave is as @ [a]"
  by (induction "is" as rule: weave.induct) (auto simp: length_Suc_conv)

lemma weave_snoc_key:
  "length is = Suc (length as) \<Longrightarrow> weave (butlast is @ [last is @ [k]]) as = weave is as @ [k]"
  by (induction "is" as rule: weave.induct) (auto simp: length_Suc_conv)

lemma split_intervals:
  "length (splitAroundAnchors keys A) = Suc (length (filter (\<lambda>k. k \<in> A) keys)) \<and>
   weave (splitAroundAnchors keys A) (filter (\<lambda>k. k \<in> A) keys) = keys \<and>
   (\<forall>i \<in> set (splitAroundAnchors keys A). set i \<inter> A = {})"
proof (induction keys rule: rev_induct)
  case Nil
  show ?case by (simp add: splitAroundAnchors_def)
next
  case (snoc k keys)
  let ?is = "splitAroundAnchors keys A" and ?as = "filter (\<lambda>k. k \<in> A) keys"
  have split: "splitAroundAnchors (keys @ [k]) A = (if k \<in> A then ?is @ [[]] else butlast ?is @ [last ?is @ [k]])"
    by (simp add: splitAroundAnchors_def)
  have "?is \<noteq> []" using snoc by auto
  then have "last ?is \<in> set ?is" "\<And>i. i \<in> set (butlast ?is) \<Longrightarrow> i \<in> set ?is" by (simp_all add: in_set_butlastD)
  with snoc show ?case
    using weave_snoc_anchor [of ?is ?as k] weave_snoc_key [of ?is ?as k] by (auto simp: split)
qed

lemma filter_weave:
  "length is = Suc (length as) \<Longrightarrow> set as \<subseteq> T \<Longrightarrow> filter (\<lambda>k. k \<in> T) (weave is as) = weave (map (filter (\<lambda>k. k \<in> T)) is) as"
  by (induction "is" as rule: weave.induct) (auto simp: filter_concat)

lemma filter_weave_rest:
  "length is = Suc (length as) \<Longrightarrow> set as \<subseteq> T \<Longrightarrow> \<forall>i \<in> set is. set i \<inter> T = {} \<Longrightarrow>
     filter (\<lambda>k. k \<notin> T) (weave is as) = concat is"
  by (induction "is" as rule: weave.induct) (auto simp: length_Suc_conv filter_id_conv disjoint_iff)

lemma distinct_intervals:
  "distinct (concat xs) \<Longrightarrow> m < length xs \<Longrightarrow> n < length xs \<Longrightarrow> m \<noteq> n \<Longrightarrow> set (xs ! m) \<inter> set (xs ! n) = {}"
proof (induction xs arbitrary: m n)
  case (Cons x xs)
  have "set x \<inter> set (xs ! i) = {}" if "i < length xs" for i
    using Cons.prems(1) nth_mem [OF that] by fastforce
  with Cons show ?case by (cases m; cases n) (auto simp: Int_commute)
qed simp

lemma intervals_disjoint:
  assumes "distinct keys" and "m < length (splitAroundAnchors keys A)" "n < length (splitAroundAnchors keys A)" "m \<noteq> n"
  shows "set (splitAroundAnchors keys A ! m) \<inter> set (splitAroundAnchors keys A ! n) = {}"
proof -
  have "filter (\<lambda>k. k \<notin> A) keys = concat (splitAroundAnchors keys A)"
    using split_intervals [of keys A] filter_weave_rest [of "splitAroundAnchors keys A" "filter (\<lambda>k. k \<in> A) keys" A] by auto
  then have "distinct (concat (splitAroundAnchors keys A))" using assms(1) by (metis distinct_filter)
  then show ?thesis using distinct_intervals assms(2-4) by blast
qed

lemma interval_distinct:
  assumes "distinct keys" and "i \<in> set (splitAroundAnchors keys A)"
  shows "distinct i"
proof -
  have "filter (\<lambda>k. k \<notin> A) keys = concat (splitAroundAnchors keys A)"
    using split_intervals [of keys A] filter_weave_rest [of "splitAroundAnchors keys A" "filter (\<lambda>k. k \<in> A) keys" A] by auto
  then have "distinct (concat (splitAroundAnchors keys A))" using assms(1) by (metis distinct_filter)
  then show ?thesis using assms(2) by (auto simp: distinct_concat_iff)
qed

subsection \<open>The stationary keys of a group\<close>

lemma add_stationary_ok:
  assumes "numbered h" and "\<forall>(i, c) \<in> set ps. distinct i \<and> distinct c"
  shows "\<exists>rs. length rs = length ps \<and> (\<forall>n < length ps. rs ! n \<in> common (fst (ps ! n)) (snd (ps ! n))) \<and>
    add_stationary before h ps S = Some (S \<union> \<Union> (set ` set rs))"
  using assms(2)
proof (induction ps arbitrary: S)
  case (Cons ic ps)
  obtain i c where ic: "ic = (i, c)" by (cases ic)
  with Cons.prems have "distinct i" "distinct c" by auto
  then obtain r where r: "getCanonicalStationarySubsequence before i c h = Some r" "r \<in> common i c"
    by (rule canonical_stationary [OF _ _ assms(1), of i c before])
  have "\<forall>(i, c) \<in> set ps. distinct i \<and> distinct c" using Cons.prems by simp
  from Cons.IH [OF this, of "S \<union> set r"] obtain rs where "length rs = length ps" "\<forall>n < length ps. rs ! n \<in> common (fst (ps ! n)) (snd (ps ! n))"
    "add_stationary before h ps (S \<union> set r) = Some ((S \<union> set r) \<union> \<Union> (set ` set rs))"
    by blast
  moreover have "(r # rs) ! n \<in> common (fst ((ic # ps) ! n)) (snd ((ic # ps) ! n))" if "n < length (ic # ps)" for n
    using that calculation(2) r(2) by (cases n) (simp_all add: ic)
  ultimately show ?case using r(1) by (intro exI [of _ "r # rs"]) (simp add: ic Un_assoc)
qed simp

lemma interval_filter:
  assumes "distinct keys" "length rs = length (splitAroundAnchors keys A)"
    and "\<forall>n < length rs. subseq (rs ! n) (splitAroundAnchors keys A ! n)"
  shows "filter (\<lambda>k. k \<in> A \<union> \<Union> (set ` set rs)) keys = weave rs (filter (\<lambda>k. k \<in> A) keys)"
proof -
  let ?is = "splitAroundAnchors keys A" and ?T = "A \<union> \<Union> (set ` set rs)"
  have "filter (\<lambda>k. k \<in> ?T) (?is ! n) = rs ! n" if n: "n < length rs" for n
  proof -
    have sub: "set (rs ! m) \<subseteq> set (?is ! m)" if "m < length rs" for m
      using assms(3) that by (metis set_nths_subset subseq_conv_nths)
    have "k \<in> ?T \<longleftrightarrow> k \<in> set (rs ! n)" if k: "k \<in> set (?is ! n)" for k
    proof
      assume "k \<in> ?T"
      moreover have "k \<notin> A" using split_intervals [of keys A] k n assms(2) by (auto dest: nth_mem)
      ultimately obtain r where "r \<in> set rs" "k \<in> set r" by blast
      then obtain m where m: "m < length rs" "k \<in> set (rs ! m)" by (metis in_set_conv_nth)
      then have "m = n" using intervals_disjoint [OF assms(1), of m A n] sub [OF m(1)] k n assms(2) by auto
      with m show "k \<in> set (rs ! n)" by simp
    qed (use n nth_mem in blast)
    then have "filter (\<lambda>k. k \<in> ?T) (?is ! n) = filter (\<lambda>k. k \<in> set (rs ! n)) (?is ! n)" by (intro filter_cong) auto
    also have "\<dots> = rs ! n"
      using subseq_by_set [of "?is ! n" "rs ! n"] interval_distinct [OF assms(1)] assms(2,3) n by (metis nth_mem)
    finally show ?thesis .
  qed
  then have "map (filter (\<lambda>k. k \<in> ?T)) ?is = rs" using assms(2) by (intro nth_equalityI) auto
  then show ?thesis
    using filter_weave [of ?is "filter (\<lambda>k. k \<in> A) keys" ?T] split_intervals [of keys A] by auto
qed

text \<open>In a group the stationary keys keep their initial order, and every key that is not stationary was moved, if the
  history explains the order.\<close>

lemma stationary_keys_ok:
  assumes "distinct I" "distinct C" "set I = set C" "numbered h"
  shows "\<exists>S. stationary_keys before h I C = Some S \<and>
    filter (\<lambda>k. k \<in> S) I = filter (\<lambda>k. k \<in> S) C \<and>
    (filter (\<lambda>k. \<not> is_moved h k) I = filter (\<lambda>k. \<not> is_moved h k) C \<longrightarrow> {k \<in> set C. \<not> is_moved h k} \<subseteq> S)"
proof (cases "filter (\<lambda>k. \<not> is_moved h k) I = filter (\<lambda>k. \<not> is_moved h k) C")
  case False
  obtain r where r: "getCanonicalStationarySubsequence before I C h = Some r" "r \<in> common I C"
    by (rule canonical_stationary [OF assms(1,2,4), of before])
  then have "filter (\<lambda>k. k \<in> set r) I = r" "filter (\<lambda>k. k \<in> set r) C = r"
    using subseq_by_set [OF assms(1), of r] subseq_by_set [OF assms(2), of r] by (simp_all add: common_def)
  with False r(1) show ?thesis by (simp add: stationary_keys_def Let_def)
next
  case True
  let ?as = "filter (\<lambda>k. \<not> is_moved h k) C"
  let ?A = "set ?as"
  let ?ps = "zip (splitAroundAnchors I ?A) (splitAroundAnchors C ?A)"
  have "filter (\<lambda>k. k \<in> ?A) I = filter (\<lambda>k. \<not> is_moved h k) I" using assms(3) by (intro filter_cong) auto
  then have as: "filter (\<lambda>k. k \<in> ?A) C = ?as" "filter (\<lambda>k. k \<in> ?A) I = ?as"
    using True by (auto intro!: filter_cong)
  have len: "length (splitAroundAnchors I ?A) = length (splitAroundAnchors C ?A)"
    using split_intervals [of I ?A] split_intervals [of C ?A] as by simp
  have "\<forall>(i, c) \<in> set ?ps. distinct i \<and> distinct c"
    using interval_distinct [OF assms(1)] interval_distinct [OF assms(2)] by (auto dest: set_zip_leftD set_zip_rightD)
  from add_stationary_ok [OF assms(4) this, of before ?A] obtain rs where rs: "length rs = length ?ps"
    "\<forall>n < length ?ps. rs ! n \<in> common (fst (?ps ! n)) (snd (?ps ! n))"
    "add_stationary before h ?ps ?A = Some (?A \<union> \<Union> (set ` set rs))" by blast
  let ?S = "?A \<union> \<Union> (set ` set rs)"
  have sub: "subseq (rs ! n) (splitAroundAnchors I ?A ! n)" "subseq (rs ! n) (splitAroundAnchors C ?A ! n)" if "n < length rs" for n
    using rs(1,2) that len by (simp_all add: common_def)
  have "filter (\<lambda>k. k \<in> ?S) I = filter (\<lambda>k. k \<in> ?S) C"
    using interval_filter [OF assms(1), of rs ?A] interval_filter [OF assms(2), of rs ?A] rs(1) len sub as by simp
  moreover have "stationary_keys before h I C = Some ?S"
    using True rs(3) by (simp add: stationary_keys_def Let_def)
  ultimately show ?thesis by auto
qed

lemma reordered_in_group_ok:
  assumes "distinct I" "distinct C" "set I = set C" "numbered h"
  shows "\<exists>R. reordered_in_group before h I C = Some R \<and> R \<subseteq> set C \<and> (I = C \<longrightarrow> R = {}) \<and>
    filter (\<lambda>k. k \<notin> R) I = filter (\<lambda>k. k \<notin> R) C \<and>
    (filter (\<lambda>k. \<not> is_moved h k) I = filter (\<lambda>k. \<not> is_moved h k) C \<longrightarrow> R \<subseteq> {k. is_moved h k})"
proof (cases "I = C")
  case True
  then show ?thesis by (simp add: reordered_in_group_def)
next
  case False
  from stationary_keys_ok [OF assms, of before] obtain S where S: "stationary_keys before h I C = Some S"
    "filter (\<lambda>k. k \<in> S) I = filter (\<lambda>k. k \<in> S) C"
    "filter (\<lambda>k. \<not> is_moved h k) I = filter (\<lambda>k. \<not> is_moved h k) C \<longrightarrow> {k \<in> set C. \<not> is_moved h k} \<subseteq> S" by blast
  let ?R = "set (filter (\<lambda>k. k \<notin> S) C)"
  have "filter (\<lambda>k. k \<notin> ?R) I = filter (\<lambda>k. k \<in> S) I" "filter (\<lambda>k. k \<notin> ?R) C = filter (\<lambda>k. k \<in> S) C"
    using assms(3) by (auto intro!: filter_cong)
  with S False show ?thesis by (auto simp: reordered_in_group_def)
qed

subsection \<open>The marked properties\<close>

lemma reordered_in_groups_ok:
  assumes "\<forall>(p, c) \<in> set groups. reordered_in_group before h (case obj_get ini p of Some g \<Rightarrow> g | None \<Rightarrow> []) c = Some (R p)"
  shows "reordered_in_groups before h ini groups acc = Some (acc \<union> (\<Union>p \<in> set (obj_keys groups). R p))"
  using assms by (induction groups arbitrary: acc) (auto simp: Un_assoc)

text \<open>The siblings under \<open>p\<close> that were in the initial schema and still are.\<close>

definition kept_siblings :: "editable_schema \<Rightarrow> editable_schema \<Rightarrow> jsstr \<Rightarrow> jsstr list \<Rightarrow> jsstr list" where
  "kept_siblings cur ini p keys = siblings (surviving_keys cur ini) p keys"

lemma surviving_sub: "surviving_keys cur ini \<subseteq> set (obj_keys cur) \<inter> set (obj_keys ini)"
  by (auto simp: surviving_keys_def)

lemma set_kept: "set (kept_siblings cur ini p (obj_keys ini)) = set (kept_siblings cur ini p (obj_keys cur))"
  using surviving_sub [of cur ini] by (auto simp: kept_siblings_def siblings_def)

lemma marked_groups:
  assumes "distinct (obj_keys cur)" "distinct (obj_keys ini)" "numbered h"
  shows "\<exists>R. (\<forall>p. reordered_in_group before h (kept_siblings cur ini p (obj_keys ini)) (kept_siblings cur ini p (obj_keys cur)) = Some (R p)) \<and>
    getReorderedPropertyKeys before (Some cur) (Some ini) h = Some (\<Union>p. R p)"
proof -
  let ?S = "surviving_keys cur ini"
  let ?cg = "groupKeysByParent (obj_keys cur) ?S"
  have ex: "\<exists>R. reordered_in_group before h (kept_siblings cur ini p (obj_keys ini)) (kept_siblings cur ini p (obj_keys cur)) = Some R \<and>
      R \<subseteq> set (kept_siblings cur ini p (obj_keys cur))" for p
    using reordered_in_group_ok [OF _ _ set_kept assms(3), of cur ini p before] assms(1,2)
    by (fastforce simp: kept_siblings_def siblings_def)
  define R where "R p = the (reordered_in_group before h (kept_siblings cur ini p (obj_keys ini)) (kept_siblings cur ini p (obj_keys cur)))" for p
  have R: "reordered_in_group before h (kept_siblings cur ini p (obj_keys ini)) (kept_siblings cur ini p (obj_keys cur)) = Some (R p)"
    "R p \<subseteq> set (kept_siblings cur ini p (obj_keys cur))" for p
    using ex [of p] by (auto simp: R_def)
  have "\<forall>(p, c) \<in> set ?cg. reordered_in_group before h
      (case obj_get (groupKeysByParent (obj_keys ini) ?S) p of Some g \<Rightarrow> g | None \<Rightarrow> []) c = Some (R p)"
  proof (clarify)
    fix p c
    assume "(p, c) \<in> set ?cg"
    then have "obj_get ?cg p = Some c" by (rule obj_get_in_set [OF distinct_groups])
    then have "c = kept_siblings cur ini p (obj_keys cur)" by (auto simp: obj_get_groups kept_siblings_def split: if_splits)
    then show "reordered_in_group before h (case obj_get (groupKeysByParent (obj_keys ini) ?S) p of Some g \<Rightarrow> g | None \<Rightarrow> []) c = Some (R p)"
      using R(1) [of p] unfolding groups_or_empty kept_siblings_def by simp
  qed
  from reordered_in_groups_ok [OF this, of "{}"]
  have "getReorderedPropertyKeys before (Some cur) (Some ini) h = Some (\<Union>p \<in> set (obj_keys ?cg). R p)"
    by (simp add: getReorderedPropertyKeys_def Let_def)
  moreover have "R p = {}" if "p \<notin> set (obj_keys ?cg)" for p
    using R(2) [of p] that by (simp add: groups_keys kept_siblings_def)
  then have "(\<Union>p \<in> set (obj_keys ?cg). R p) = (\<Union>p. R p)" by blast
  ultimately show ?thesis using R(1) by (intro exI [of _ R]) simp
qed

text \<open>The siblings under \<open>p\<close> that are not marked.\<close>

definition unmarked_siblings :: "editable_schema \<Rightarrow> editable_schema \<Rightarrow> jsstr set \<Rightarrow> jsstr \<Rightarrow> jsstr list \<Rightarrow> jsstr list" where
  "unmarked_siblings cur ini R p keys = filter (\<lambda>k. k \<notin> R) (kept_siblings cur ini p keys)"

lemma marked_spec:
  assumes "distinct (obj_keys cur)" "distinct (obj_keys ini)" "numbered h"
  shows "\<exists>R. getReorderedPropertyKeys before (Some cur) (Some ini) h = Some R \<and> R \<subseteq> surviving_keys cur ini \<and>
    (\<forall>p. unmarked_siblings cur ini R p (obj_keys ini) = unmarked_siblings cur ini R p (obj_keys cur)) \<and>
    (\<forall>p. kept_siblings cur ini p (obj_keys ini) = kept_siblings cur ini p (obj_keys cur) \<longrightarrow>
       R \<inter> set (kept_siblings cur ini p (obj_keys cur)) = {}) \<and>
    ((\<forall>p. filter (\<lambda>k. \<not> is_moved h k) (kept_siblings cur ini p (obj_keys ini)) =
          filter (\<lambda>k. \<not> is_moved h k) (kept_siblings cur ini p (obj_keys cur))) \<longrightarrow> R \<subseteq> {k. is_moved h k})"
proof -
  obtain R where R: "\<forall>p. reordered_in_group before h (kept_siblings cur ini p (obj_keys ini)) (kept_siblings cur ini p (obj_keys cur)) = Some (R p)"
    "getReorderedPropertyKeys before (Some cur) (Some ini) h = Some (\<Union>p. R p)"
    using marked_groups [OF assms, of before] by blast
  have group: "R p \<subseteq> set (kept_siblings cur ini p (obj_keys cur))"
    "kept_siblings cur ini p (obj_keys ini) = kept_siblings cur ini p (obj_keys cur) \<longrightarrow> R p = {}"
    "filter (\<lambda>k. k \<notin> R p) (kept_siblings cur ini p (obj_keys ini)) = filter (\<lambda>k. k \<notin> R p) (kept_siblings cur ini p (obj_keys cur))"
    "filter (\<lambda>k. \<not> is_moved h k) (kept_siblings cur ini p (obj_keys ini)) =
       filter (\<lambda>k. \<not> is_moved h k) (kept_siblings cur ini p (obj_keys cur)) \<longrightarrow> R p \<subseteq> {k. is_moved h k}" for p
    using reordered_in_group_ok [OF _ _ set_kept assms(3), of cur ini p before] assms(1,2) R(1) [rule_format, of p]
    by (auto simp: kept_siblings_def siblings_distinct)
  have parent: "k \<in> set (kept_siblings cur ini p keys) \<Longrightarrow> getParentPropertyKey k = p" for k p keys
    by (simp add: kept_siblings_def siblings_def)
  have only: "k \<in> (\<Union>p. R p) \<longleftrightarrow> k \<in> R p" if "k \<in> set (kept_siblings cur ini p keys)" for k p keys
    using group(1) parent that by blast
  have "unmarked_siblings cur ini (\<Union>p. R p) p keys = filter (\<lambda>k. k \<notin> R p) (kept_siblings cur ini p keys)" for p keys
    unfolding unmarked_siblings_def using only by (intro filter_cong) auto
  moreover have "(\<Union>p. R p) \<subseteq> surviving_keys cur ini" using group(1) by (fastforce simp: kept_siblings_def siblings_def)
  moreover have "(\<Union>p. R p) \<inter> set (kept_siblings cur ini p (obj_keys cur)) \<subseteq> R p" for p using only by auto
  ultimately show ?thesis using R(2) group(2-4) by (intro exI [of _ "\<Union>p. R p"]) fastforce
qed

text \<open>
  C26: the keys that are marked as reordered are existing siblings, and the others are in their initial
  order: removing the marked keys from a group of siblings leaves the same sequence in the initial and in the
  current schema, and a group in its initial order has no mark. The computation always ends.
\<close>

theorem getReorderedPropertyKeys_unmarked_in_order:
  assumes "distinct (obj_keys cur)" "distinct (obj_keys ini)" "numbered h"
  shows "\<exists>R. getReorderedPropertyKeys before (Some cur) (Some ini) h = Some R \<and> R \<subseteq> surviving_keys cur ini \<and>
    (\<forall>p. unmarked_siblings cur ini R p (obj_keys ini) = unmarked_siblings cur ini R p (obj_keys cur)) \<and>
    (\<forall>p. kept_siblings cur ini p (obj_keys ini) = kept_siblings cur ini p (obj_keys cur) \<longrightarrow>
       R \<inter> set (kept_siblings cur ini p (obj_keys cur)) = {})"
  using marked_spec [OF assms, of before] by blast

definition example_editable :: "jsstr \<Rightarrow> editable_property" where
  "example_editable name = editableProperty (Property name [] BooleanType False False False False [] []) 0 name"

theorem getReorderedPropertyKeys_unmarked_in_order_witness:
  "let ini = map (\<lambda>k. (k, example_editable k)) [[1], [2], [3]]; cur = map (\<lambda>k. (k, example_editable k)) [[3], [1], [2]]
   in getReorderedPropertyKeys (\<lambda>_ _. True) (Some cur) (Some ini) [([3], 1)] = Some {[3]} \<and>
      unmarked_siblings cur ini {[3]} [] (obj_keys ini) = unmarked_siblings cur ini {[3]} [] (obj_keys cur)"
proof -
  let ?ini = "map (\<lambda>k. (k, example_editable k)) [[1], [2], [3 :: nat]]" and ?cur = "map (\<lambda>k. (k, example_editable k)) [[3], [1], [2]]"
  have run: "getReorderedPropertyKeys (\<lambda>_ _. True) (Some ?cur) (Some ?ini) [([3], 1)] = Some {[3]}" by code_simp
  have "numbered [([3], 1)]" by (simp add: numbered_def)
  with getReorderedPropertyKeys_unmarked_in_order [of ?cur ?ini "[([3], 1)]" "\<lambda>_ _. True"] run show ?thesis by simp
qed

subsection \<open>The keys after a move\<close>

lemma find_index_in: "k \<in> set keys \<Longrightarrow> \<exists>i. find_index (\<lambda>x. x = k) keys = Some i"
  using find_index_eq_None [of "\<lambda>x. x = k" keys] by (cases "find_index (\<lambda>x. x = k) keys") auto

lemma splice_in_shape: "\<exists>xs ys. keys = xs @ ys \<and> splice_in i inserted keys = xs @ inserted @ ys"
  unfolding splice_in_def Let_def by (metis append_take_drop_id)

lemma reordered_keys_shape:
  obtains xs ys where "filter (\<lambda>k. k \<notin> set (moved_block movedRowID keys)) keys = xs @ ys"
    "reordered_keys overRowID movedRowID keys = xs @ moved_block movedRowID keys @ ys"
  using splice_in_shape unfolding reordered_keys_def Let_def by meson

lemma reordered_keys_perm:
  assumes "distinct keys"
  shows "set (reordered_keys overRowID movedRowID keys) = set keys \<and> distinct (reordered_keys overRowID movedRowID keys)"
proof -
  obtain xs ys where shape: "filter (\<lambda>k. k \<notin> set (moved_block movedRowID keys)) keys = xs @ ys"
    "reordered_keys overRowID movedRowID keys = xs @ moved_block movedRowID keys @ ys"
    by (rule reordered_keys_shape)
  have "set (xs @ ys) = {k \<in> set keys. k \<notin> set (moved_block movedRowID keys)}" "distinct (xs @ ys)"
    using shape(1) assms by (metis set_filter, metis distinct_filter)
  moreover have "set (moved_block movedRowID keys) \<subseteq> set keys" "distinct (moved_block movedRowID keys)"
    using assms by (auto simp: moved_block_def)
  ultimately show ?thesis unfolding shape(2) by auto
qed

lemma parent_of_nested:
  assumes "m \<noteq> []" "getParentPropertyKey k = p" "p = m \<or> starts_with p (m @ js ''.'')" "k \<noteq> m"
  shows "starts_with k (m @ js ''.'')"
proof -
  have p: "p \<noteq> []" using assms(1,3) by (auto simp: starts_with_def)
  then have dot: "46 \<in> set k" using assms(2) by (auto simp: getParentPropertyKey_def split: if_splits)
  have split: "k = rev (dropWhile (\<lambda>c. c \<noteq> 46) (rev k)) @ rev (takeWhile (\<lambda>c. c \<noteq> 46) (rev k))"
    by (metis rev_append rev_rev_ident takeWhile_dropWhile_id)
  have ne: "dropWhile (\<lambda>c. c \<noteq> 46) (rev k) \<noteq> []" using dot by (simp add: dropWhile_eq_Nil_conv)
  then have "last (rev (dropWhile (\<lambda>c. c \<noteq> 46) (rev k))) = 46"
    using hd_dropWhile [OF ne] by (simp add: last_rev)
  then have "rev (dropWhile (\<lambda>c. c \<noteq> 46) (rev k)) = p @ [46]"
    using assms(2) dot ne by (metis append_butlast_last_id getParentPropertyKey_def rev_is_Nil_conv)
  then obtain w where "k = p @ [46] @ w" using split by (metis append.assoc)
  then show ?thesis using assms(3) by (auto simp: starts_with_iff js_Cons)
qed

lemma nested_parent:
  assumes "starts_with k (m @ js ''.'')"
  shows "getParentPropertyKey k = m \<or> starts_with (getParentPropertyKey k) (m @ js ''.'')"
proof -
  obtain w where k: "k = m @ 46 # w" using assms by (auto simp: starts_with_iff js_Cons)
  show ?thesis
  proof (cases "46 \<in> set w")
    case False
    then have "dropWhile (\<lambda>c. c \<noteq> 46) (rev w @ 46 # rev m) = 46 # rev m" by (subst dropWhile_append2) auto
    then show ?thesis by (simp add: k getParentPropertyKey_def)
  next
    case True
    then have ne: "dropWhile (\<lambda>c. c \<noteq> 46) (rev w) \<noteq> []" by (simp add: dropWhile_eq_Nil_conv)
    then have "dropWhile (\<lambda>c. c \<noteq> 46) (rev w @ 46 # rev m) = dropWhile (\<lambda>c. c \<noteq> 46) (rev w) @ 46 # rev m"
      using True by (intro dropWhile_append1) auto
    then have "getParentPropertyKey k = m @ 46 # butlast (rev (dropWhile (\<lambda>c. c \<noteq> 46) (rev w)))"
      using ne by (simp add: k getParentPropertyKey_def butlast_append)
    then show ?thesis by (simp add: starts_with_iff js_Cons)
  qed
qed

text \<open>A move changes the order of the moved key only, among siblings.\<close>

lemma reordered_keys_siblings:
  assumes "m \<noteq> []" "distinct keys"
  shows "filter (\<lambda>k. Q k \<and> k \<noteq> m \<and> getParentPropertyKey k = p) (reordered_keys overRowID m keys) =
    filter (\<lambda>k. Q k \<and> k \<noteq> m \<and> getParentPropertyKey k = p) keys" (is "filter ?Q _ = _")
proof -
  obtain xs ys where shape: "filter (\<lambda>k. k \<notin> set (moved_block m keys)) keys = xs @ ys"
    "reordered_keys overRowID m keys = xs @ moved_block m keys @ ys" by (rule reordered_keys_shape)
  show ?thesis
  proof (cases "p = m \<or> starts_with p (m @ js ''.'')")
    case True
    then have "?Q k \<Longrightarrow> k = m \<or> starts_with k (m @ js ''.'')" for k using parent_of_nested [OF assms(1)] by blast
    then have inside: "filter ?Q keys = filter ?Q (moved_block m keys)" "filter ?Q (xs @ ys) = []"
      unfolding shape(1) [symmetric] moved_block_def filter_filter by (auto intro!: filter_cong simp: filter_empty_conv)
    then show ?thesis unfolding shape(2) by simp
  next
    case False
    then have "?Q k \<Longrightarrow> \<not> (k = m \<or> starts_with k (m @ js ''.''))" for k using nested_parent by blast
    then have "filter ?Q (moved_block m keys) = []" "filter ?Q keys = filter ?Q (xs @ ys)"
      unfolding shape(1) [symmetric] moved_block_def filter_filter by (auto intro!: filter_cong simp: filter_empty_conv)
    then show ?thesis unfolding shape(2) by simp
  qed
qed

lemma pick_entries_spec:
  assumes "distinct keys" "set keys \<subseteq> set (obj_keys schema)"
  shows "obj_keys (pick_entries schema keys) = keys \<and>
    obj_get (pick_entries schema keys) k = (if k \<in> set keys then obj_get schema k else None)"
  using assms
proof (induction keys rule: rev_induct)
  case (snoc x keys)
  then obtain v where "obj_get schema x = Some v" using in_obj_keys [of x schema] by auto
  with snoc show ?case by (auto simp: pick_entries_def obj_keys_set)
qed (simp add: pick_entries_def)

lemma reorderEditableSchema_spec:
  assumes "reorderEditableSchema (Some s) overRowID m = Some s'" "distinct (obj_keys s)"
  shows "obj_keys s' = reordered_keys overRowID m (obj_keys s) \<and> (\<forall>k. obj_get s' k = obj_get s k) \<and> m \<in> set (obj_keys s)"
proof -
  from assms(1) have s': "s' = pick_entries s (reordered_keys overRowID m (obj_keys s))" and m: "obj_get s m \<noteq> None"
    by (auto simp: reorderEditableSchema_def Let_def split: if_splits)
  note perm = reordered_keys_perm [OF assms(2), of overRowID m]
  have "obj_get s' k = obj_get s k" for k
    using pick_entries_spec [of "reordered_keys overRowID m (obj_keys s)" s k] perm in_obj_keys [of k s] by (auto simp: s')
  then show ?thesis
    using pick_entries_spec [of "reordered_keys overRowID m (obj_keys s)" s] perm m in_obj_keys [of m s] by (auto simp: s')
qed

end
