(* ===== verification/Profile_Roles.thy ===== *)
theory Profile_Roles
  imports Schema_Edit
begin

section \<open>Roles of profile properties (components/helpers/profilePropertyRoles.ts, useSchemaEdit.tsx)\<close>

text \<open>
  A role (first name, email, ...) is assigned to at most one property, given by its key in the schema editor; the
  empty key is no property. The record with a field for each role is a function of the role.
\<close>

datatype profile_role = FirstName | LastName | EmailRole | CountryRole | Photo

type_synonym property_roles = "profile_role \<Rightarrow> jsstr"

definition PROFILE_PROPERTY_ROLES :: "profile_role list" where
  "PROFILE_PROPERTY_ROLES = [FirstName, LastName, EmailRole, CountryRole, Photo]"

lemma all_roles [simp]: "r \<in> set PROFILE_PROPERTY_ROLES" "set PROFILE_PROPERTY_ROLES = UNIV"
  by (cases r; simp add: PROFILE_PROPERTY_ROLES_def) (auto simp: PROFILE_PROPERTY_ROLES_def intro: profile_role.exhaust)

lemma distinct_roles: "distinct PROFILE_PROPERTY_ROLES"
  by (simp add: PROFILE_PROPERTY_ROLES_def)

definition copyProfilePropertyRoles :: "property_roles option \<Rightarrow> property_roles" where
  "copyProfilePropertyRoles assignments = (case assignments of None \<Rightarrow> (\<lambda>_. []) | Some a \<Rightarrow> a)"

definition getPropertyRole :: "property_roles option \<Rightarrow> jsstr \<Rightarrow> profile_role option" where
  "getPropertyRole assignments propertyKey =
     (case assignments of None \<Rightarrow> None | Some a \<Rightarrow> find (\<lambda>role. a role = propertyKey) PROFILE_PROPERTY_ROLES)"

definition isProfilePropertyRoleCompatible :: "profile_role \<Rightarrow> schema_type option \<Rightarrow> bool" where
  "isProfilePropertyRoleCompatible role type =
     (let has = (\<lambda>s. case type of None \<Rightarrow> False | Some t \<Rightarrow> kind_of t = KString \<and> type_semantics t = s) in
      if role = FirstName \<or> role = LastName then has None
      else if (case type of None \<Rightarrow> True | Some t \<Rightarrow> kind_of t = KArray \<or> kind_of t = KMap) then False
      else (case role of
              EmailRole \<Rightarrow> has (Some Email)
            | CountryRole \<Rightarrow> has (Some Country)
            | Photo \<Rightarrow> has (Some Url)
            | _ \<Rightarrow> False))"

definition getCompatibleProfilePropertyRoles :: "schema_type option \<Rightarrow> profile_role list" where
  "getCompatibleProfilePropertyRoles type = filter (\<lambda>role. isProfilePropertyRoleCompatible role type) PROFILE_PROPERTY_ROLES"

subsection \<open>Changing the assignments\<close>

definition clearProfilePropertyRoles :: "property_roles \<Rightarrow> jsstr \<Rightarrow> property_roles" where
  "clearProfilePropertyRoles assignments propertyKey =
     foldl (\<lambda>next role.
       if next role = propertyKey \<or> starts_with (next role) (propertyKey @ js ''.'') then next(role := []) else next)
       (copyProfilePropertyRoles (Some assignments)) PROFILE_PROPERTY_ROLES"

definition updateProfilePropertyRoleAssignment ::
    "property_roles \<Rightarrow> jsstr \<Rightarrow> profile_role option \<Rightarrow> profile_role list \<Rightarrow> property_roles" where
  "updateProfilePropertyRoleAssignment assignments propertyKey propertyRole rolesToUnassign =
     (let next = foldl (\<lambda>next role.
            if next role = propertyKey \<or> role \<in> set rolesToUnassign then next(role := []) else next)
            (copyProfilePropertyRoles (Some assignments)) PROFILE_PROPERTY_ROLES
      in case propertyRole of None \<Rightarrow> next | Some role \<Rightarrow> next(role := propertyKey))"

lemma fold_roles:
  assumes "distinct roles"
  shows "foldl (\<lambda>next role. if P (next role) role then next(role := []) else next) a roles =
    (\<lambda>role. if role \<in> set roles \<and> P (a role) role then [] else a role)"
  using assms
proof (induction roles arbitrary: a)
  case (Cons r roles)
  then show ?case by (auto simp: fun_eq_iff)
qed simp

lemma clearProfilePropertyRoles_eq:
  "clearProfilePropertyRoles a k = (\<lambda>role. if a role = k \<or> starts_with (a role) (k @ js ''.'') then [] else a role)"
  using fold_roles [OF distinct_roles, of "\<lambda>v _. v = k \<or> starts_with v (k @ js ''.'')" a]
  by (simp add: clearProfilePropertyRoles_def copyProfilePropertyRoles_def)

lemma updateProfilePropertyRoleAssignment_eq:
  "updateProfilePropertyRoleAssignment a k r un =
     (\<lambda>role. if r = Some role then k else if a role = k \<or> role \<in> set un then [] else a role)"
  using fold_roles [OF distinct_roles, of "\<lambda>v role. v = k \<or> role \<in> set un" a]
  by (cases r) (simp_all add: updateProfilePropertyRoleAssignment_def copyProfilePropertyRoles_def fun_eq_iff)

subsection \<open>Paths and validation\<close>

text \<open>The path of names of a property given by its key; \<open>None\<close> is the \<open>TypeError\<close> on a missing ancestor.\<close>

definition getEditablePropertyPath :: "editable_schema \<Rightarrow> jsstr \<Rightarrow> jsstr option" where
  "getEditablePropertyPath schema propertyKey = map_option path_of (ancestor_names schema [] (segments propertyKey))"

fun role_paths :: "editable_schema \<Rightarrow> property_roles \<Rightarrow> profile_role list \<Rightarrow> property_roles option" where
  "role_paths schema paths [] = Some paths"
| "role_paths schema paths (role # roles) =
     (if paths role = [] then role_paths schema paths roles
      else (case getEditablePropertyPath schema (paths role) of
              None \<Rightarrow> None
            | Some path \<Rightarrow> role_paths schema (paths(role := path)) roles))"

definition getPropertyRolePaths :: "editable_schema \<Rightarrow> property_roles \<Rightarrow> property_roles option" where
  "getPropertyRolePaths schema assignments =
     role_paths schema (copyProfilePropertyRoles (Some assignments)) PROFILE_PROPERTY_ROLES"

text \<open>The errors of the editor; \<open>MissingProperty\<close> is a \<open>TypeError\<close> on a property that is not in the schema.\<close>

datatype editor_error =
    MetaName
  | NameExists jsstr jsstr
  | MissingProperty
  | MissingType
  | RoleOfMissingProperty profile_role
  | MoreThanOneRole jsstr
  | IncompatibleRole jsstr profile_role
  | EmptyObject jsstr
  | RenamedObjectChanged jsstr

definition path_error :: "editable_schema \<Rightarrow> jsstr \<Rightarrow> (jsstr \<Rightarrow> editor_error) \<Rightarrow> editor_error" where
  "path_error schema propertyKey e = (case getEditablePropertyPath schema propertyKey of None \<Rightarrow> MissingProperty | Some path \<Rightarrow> e path)"

fun validate_roles :: "editable_schema \<Rightarrow> property_roles \<Rightarrow> profile_role list \<Rightarrow> jsstr list \<Rightarrow> editor_error + unit" where
  "validate_roles schema assignments [] assigned = Inr ()"
| "validate_roles schema assignments (role # roles) assigned =
     (let propertyKey = assignments role in
      if propertyKey = [] then validate_roles schema assignments roles assigned
      else (case obj_get schema propertyKey of
              None \<Rightarrow> Inl (RoleOfMissingProperty role)
            | Some property \<Rightarrow>
                if propertyKey \<in> set assigned then Inl (path_error schema propertyKey MoreThanOneRole)
                else if \<not> isProfilePropertyRoleCompatible role (Some (ep_type property))
                  then Inl (path_error schema propertyKey (\<lambda>path. IncompatibleRole path role))
                else validate_roles schema assignments roles (propertyKey # assigned)))"

definition validateProfilePropertyRoles :: "editable_schema \<Rightarrow> property_roles \<Rightarrow> editor_error + unit" where
  "validateProfilePropertyRoles schema assignments = validate_roles schema assignments PROFILE_PROPERTY_ROLES []"

text \<open>The assignments that pass: to existing compatible properties, at most one role each.\<close>

lemma validate_roles_iff:
  "distinct roles \<Longrightarrow>
     (validate_roles schema a roles assigned = Inr () \<longleftrightarrow>
       (\<forall>r \<in> set roles. a r \<noteq> [] \<longrightarrow>
          (\<exists>p. obj_get schema (a r) = Some p \<and> isProfilePropertyRoleCompatible r (Some (ep_type p))) \<and>
          a r \<notin> set assigned \<and> (\<forall>s \<in> set roles. s \<noteq> r \<longrightarrow> a s \<noteq> a r)))"
proof (induction roles arbitrary: assigned)
  case (Cons r roles)
  show ?case
  proof (cases "a r = []")
    case True
    then have "a r \<noteq> a x" if "a x \<noteq> []" for x using that by metis
    with True Cons show ?thesis by auto
  next
    case False
    show ?thesis
    proof (cases "obj_get schema (a r)")
      case None
      with False show ?thesis by simp
    next
      case (Some p)
      from Cons.prems have "r \<notin> set roles" "distinct roles" by simp_all
      then have IH: "validate_roles schema a roles (a r # assigned) = Inr () \<longleftrightarrow>
          (\<forall>x \<in> set roles. a x \<noteq> [] \<longrightarrow>
            (\<exists>p. obj_get schema (a x) = Some p \<and> isProfilePropertyRoleCompatible x (Some (ep_type p))) \<and>
            a x \<noteq> a r \<and> a x \<notin> set assigned \<and> (\<forall>s \<in> set roles. s \<noteq> x \<longrightarrow> a s \<noteq> a x))"
        using Cons.IH [of "a r # assigned"] by auto
      from \<open>r \<notin> set roles\<close> False Some show ?thesis by (auto simp: Let_def IH)
    qed
  qed
qed simp

lemma validateProfilePropertyRoles_iff:
  "validateProfilePropertyRoles schema a = Inr () \<longleftrightarrow>
     (\<forall>r. a r \<noteq> [] \<longrightarrow>
        (\<exists>p. obj_get schema (a r) = Some p \<and> isProfilePropertyRoleCompatible r (Some (ep_type p))) \<and>
        (\<forall>s. s \<noteq> r \<longrightarrow> a s \<noteq> a r))"
  using validate_roles_iff [OF distinct_roles, of schema a "[]"] by (simp add: validateProfilePropertyRoles_def)

end
