(* ===== verification/Schema_Editor.thy ===== *)
theory Schema_Editor
  imports Property_Reordering Profile_Roles Filter_Lexical
begin

section \<open>The schema editor (SchemaEdit/useSchemaEdit.tsx)\<close>

text \<open>
  The editor works on a copy of the profile schema, keyed by the paths the properties had when it was opened; a
  renamed property keeps its key. Besides the schema it keeps the roles and the primary sources of the
  properties, the keys of the deleted properties and the \<open>rePaths\<close>, which tell the server how the paths of the new
  schema relate to those of the old one: the path of a renamed property goes to its old path, and the path of a new
  property that takes the name of another goes to \<open>null\<close> (\<open>None\<close>). A React state and a ref are fields of one
  record; an exception leaves the state as it was.
\<close>

record schema_editor = reordering +
  propertyRoles :: property_roles
  primarySources :: "jsstr obj"
  rePaths :: "jsstr option obj"
  deletedAppliedKeys :: "jsstr list"

definition obj_delete :: "('k, 'v) omap \<Rightarrow> 'k \<Rightarrow> ('k, 'v) omap" where
  "obj_delete o1 k = filter (\<lambda>(k', _). k' \<noteq> k) o1"

lemma obj_get_delete [simp]: "obj_get (obj_delete o1 k) k' = (if k' = k then None else obj_get o1 k')"
  by (induction o1) (auto simp: obj_delete_def)

lemma obj_keys_delete: "obj_keys (obj_delete o1 k) = filter (\<lambda>k'. k' \<noteq> k) (obj_keys o1)"
  by (induction o1) (auto simp: obj_delete_def)

text \<open>\<open>for (const k in rePaths) if (rePaths[k] === path) delete rePaths[k]\<close>\<close>

definition drop_renames_of :: "jsstr \<Rightarrow> jsstr option obj \<Rightarrow> jsstr option obj" where
  "drop_renames_of path paths = filter (\<lambda>(_, old). old \<noteq> Some path) paths"

text \<open>\<open>Object.values(rePaths).includes(path)\<close>\<close>

definition renamed_from :: "jsstr option obj \<Rightarrow> jsstr \<Rightarrow> bool" where
  "renamed_from paths path \<longleftrightarrow> Some path \<in> set (map snd paths)"

definition is_meta_property :: "jsstr \<Rightarrow> bool" where
  "is_meta_property name = starts_with name (js ''_'')"

definition name_taken :: "editable_schema \<Rightarrow> jsstr \<Rightarrow> jsstr \<Rightarrow> bool" where
  "name_taken schema parentKey name \<longleftrightarrow>
     list_ex (\<lambda>(k, p). ep_name p = name \<and> getParentPropertyKey k = parentKey) schema"

text \<open>The names the form of a property accepts (\<open>PropertyForm.tsx\<close>).\<close>

datatype name_error = NameEmpty | NameWithSpaces | NameWithUnderscore | NameWithDigit | NameStart | NameCharacters

definition validatePropertyName :: "jsstr \<Rightarrow> name_error + unit" where
  "validatePropertyName name =
     (if name = [] then Inl NameEmpty
      else if list_ex is_js_space name then Inl NameWithSpaces
      else if starts_with name (js ''_'') then Inl NameWithUnderscore
      else if is_digit (hd name) then Inl NameWithDigit
      else if \<not> (is_letter (hd name) \<or> hd name = ch CHR ''_'') then Inl NameStart
      else if \<not> list_all is_word_char (tl name) then Inl NameCharacters
      else Inr ())"

lemma validatePropertyName_ok: "validatePropertyName name = Inr () \<Longrightarrow> name \<noteq> [] \<and> 46 \<notin> set name"
  by (cases name) (auto simp: validatePropertyName_def list_all_iff is_word_char_def is_letter_def is_digit_iff split: if_splits)

subsection \<open>Opening\<close>

definition open_editor :: "property list \<Rightarrow> property_roles option \<Rightarrow> jsstr obj \<Rightarrow> schema_editor" where
  "open_editor properties roles sources =
     (let editable = (case transformSchema (Some (ObjectType (filter (\<lambda>p. \<not> is_meta_property (p_name p)) properties))) of
                        Some e \<Rightarrow> e | None \<Rightarrow> [])
      in \<lparr>editableSchema = editable, moveHistory = [], nextMoveSequence = 0,
          propertyRoles = copyProfilePropertyRoles roles, primarySources = sources, rePaths = [], deletedAppliedKeys = []\<rparr>)"

subsection \<open>Adding a property\<close>

fun nat_text :: "nat \<Rightarrow> jsstr" where
  "nat_text n = (if n < 10 then [48 + n] else nat_text (n div 10) @ [48 + n mod 10])"

declare nat_text.simps [simp del]

lemma nat_text_inj: "nat_text m = nat_text n \<Longrightarrow> m = n"
proof (induction m arbitrary: n rule: less_induct)
  case (less m)
  have snoc: "nat_text k = (if k < 10 then [] else nat_text (k div 10)) @ [48 + k mod 10]" for k
    by (subst nat_text.simps) simp
  have ne: "nat_text k \<noteq> []" for k by (subst nat_text.simps) simp
  from less.prems snoc [of m] snoc [of n]
  have eq: "(if m < 10 then [] else nat_text (m div 10)) = (if n < 10 then [] else nat_text (n div 10))" "m mod 10 = n mod 10"
    by simp_all
  show ?case
  proof (cases "m < 10")
    case True
    with eq(1) ne [of "n div 10"] have "n < 10" by (auto split: if_splits)
    with True eq(2) show ?thesis by simp
  next
    case False
    with eq(1) ne [of "m div 10"] have n: "\<not> n < 10" by (auto split: if_splits)
    with False eq(1) less.IH [of "m div 10" "n div 10"] have "m div 10 = n div 10" by simp
    with eq(2) show ?thesis by (metis div_mult_mod_eq)
  qed
qed

lemma nat_text_digits: "c \<in> set (nat_text n) \<Longrightarrow> 48 \<le> c"
proof (induction n rule: less_induct)
  case (less n)
  from less.prems show ?case
    using less.IH [of "n div 10"] by (subst (asm) nat_text.simps) (auto split: if_splits)
qed

function fresh_key :: "editable_schema \<Rightarrow> jsstr \<Rightarrow> nat \<Rightarrow> jsstr" where
  "fresh_key schema k counter =
     (if obj_get schema (k @ js ''-'' @ nat_text counter) \<noteq> None then fresh_key schema k (counter + 1)
      else k @ js ''-'' @ nat_text counter)"
  by pat_completeness auto
termination fresh_key
proof (relation "measure (\<lambda>(schema, k, counter). card {c. counter \<le> c \<and> k @ js ''-'' @ nat_text c \<in> set (obj_keys schema)})", goal_cases)
  case 1
  show ?case by simp
next
  case (2 schema k counter)
  let ?S = "\<lambda>n. {c. n \<le> c \<and> k @ js ''-'' @ nat_text c \<in> set (obj_keys schema)}"
  have "inj_on (\<lambda>c. k @ js ''-'' @ nat_text c) (?S counter)"
    by (rule inj_onI) (simp add: nat_text_inj)
  moreover have "(\<lambda>c. k @ js ''-'' @ nat_text c) ` ?S counter \<subseteq> set (obj_keys schema)" by auto
  ultimately have "finite (?S counter)" by (rule inj_on_finite) (rule finite_set)
  moreover have "?S (counter + 1) \<subset> ?S counter"
  proof
    show "?S (counter + 1) \<subseteq> ?S counter" by auto
    have mem: "counter \<in> ?S counter" "counter \<notin> ?S (counter + 1)" using 2 by (simp_all add: in_obj_keys)
    show "?S (counter + 1) \<noteq> ?S counter"
    proof
      assume eq: "?S (counter + 1) = ?S counter"
      from mem(1) have "counter \<in> ?S (counter + 1)" unfolding eq .
      with mem(2) show False by (rule notE)
    qed
  qed
  ultimately show ?case by (simp only: in_measure prod.case psubset_card_mono)
qed

declare fresh_key.simps [simp del]

definition unused_key :: "editable_schema \<Rightarrow> jsstr \<Rightarrow> jsstr" where
  "unused_key schema k = (if obj_get schema k \<noteq> None then fresh_key schema k 2 else k)"

definition insert_after :: "jsstr option \<Rightarrow> jsstr \<Rightarrow> editable_property \<Rightarrow> editable_schema \<Rightarrow> editable_schema" where
  "insert_after anchor k added schema =
     (let updated = foldl (\<lambda>u (propertyKey, currentProperty).
            let u = obj_set u propertyKey currentProperty
            in if anchor = Some propertyKey then obj_set u k added else u) [] schema
      in if anchor = None then obj_set updated k added else updated)"

definition added_property :: "property_to_edit \<Rightarrow> schema_type \<Rightarrow> editable_property" where
  "added_property p t =
     \<lparr>ep_indentation = pe_indentation p, ep_root = (if pe_root p = [] then pe_name p else pe_root p), ep_name = pe_name p,
      ep_prefilled = [], ep_type = t, ep_readOptional = True, ep_createRequired = False, ep_updateRequired = False,
      ep_nullable = pe_nullable p, ep_displayName = pe_displayName p, ep_description = pe_description p,
      ep_isEditable = True\<rparr>"

text \<open>A string that is not empty is a source.\<close>

definition set_source :: "jsstr option \<Rightarrow> jsstr \<Rightarrow> jsstr obj \<Rightarrow> jsstr obj" where
  "set_source primarySource k sources =
     (case primarySource of None \<Rightarrow> sources | Some s \<Rightarrow> if s = [] then sources else obj_set sources k s)"

definition drop_source :: "jsstr \<Rightarrow> jsstr obj \<Rightarrow> jsstr obj" where
  "drop_source k sources =
     (case obj_get sources k of None \<Rightarrow> sources | Some s \<Rightarrow> if s = [] then sources else obj_delete sources k)"

definition added_rePaths :: "schema_editor \<Rightarrow> jsstr \<Rightarrow> jsstr option obj" where
  "added_rePaths st k =
     (let paths = (if k \<in> set (deletedAppliedKeys st) then obj_set (rePaths st) k None else rePaths st)
      in if renamed_from paths k then obj_set paths k None else paths)"

definition onAddProperty ::
    "schema_editor \<Rightarrow> property_to_edit \<Rightarrow> jsstr option \<Rightarrow> profile_role option \<Rightarrow> jsstr option \<Rightarrow>
       editor_error + schema_editor \<times> jsstr" where
  "onAddProperty st property primarySource propertyRole selectedPropertyKey =
     (if is_meta_property (pe_name property) then Inl MetaName
      else let wantedKey = (if pe_parentKey property \<noteq> [] then pe_parentKey property @ js ''.'' @ pe_name property
                            else pe_name property);
               schema = editableSchema st
           in if name_taken schema (pe_parentKey property) (pe_name property)
              then Inl (NameExists (pe_name property) (pe_parentKey property))
              else (case pe_type property of
                      None \<Rightarrow> Inl MissingType
                    | Some t \<Rightarrow>
                        let k = unused_key schema wantedKey;
                            anchor = getPropertyInsertionAnchor schema (pe_parentKey property) selectedPropertyKey
                        in Inr (st\<lparr>editableSchema := insert_after anchor k (added_property property t) schema,
                                   propertyRoles := updateProfilePropertyRoleAssignment (propertyRoles st) k propertyRole [],
                                   primarySources := set_source primarySource k (primarySources st),
                                   rePaths := added_rePaths st wantedKey\<rparr>, k)))"

subsection \<open>Editing a property\<close>

text \<open>The renaming of the root of the properties whose root is the old name.\<close>

definition rename_roots :: "jsstr \<Rightarrow> jsstr \<Rightarrow> editable_schema \<Rightarrow> editable_schema" where
  "rename_roots oldName newName schema =
     map (\<lambda>(k, p). (k, if ep_root p = oldName then p\<lparr>ep_root := newName\<rparr> else p)) schema"

definition new_key_of :: "jsstr \<Rightarrow> jsstr \<Rightarrow> jsstr" where
  "new_key_of k name = (if 46 \<in> set k then path_of (butlast (segments k)) @ js ''.'' @ name else name)"

definition renamed_rePaths :: "schema_editor \<Rightarrow> editable_schema \<Rightarrow> jsstr \<Rightarrow> editable_property \<Rightarrow> jsstr \<Rightarrow> (jsstr option obj) option" where
  "renamed_rePaths st schema k current name =
     (let paths = drop_renames_of k (rePaths st) in
      case getEditablePropertyPath schema k of
        None \<Rightarrow> None
      | Some currentPath \<Rightarrow>
          (let paths = (if obj_get paths currentPath = Some None then obj_delete paths currentPath else paths);
               newKey = new_key_of k name
           in Some (if newKey \<in> set (deletedAppliedKeys st)
                    then obj_set paths newKey (if ep_isEditable current then None else Some k)
                    else if \<not> ep_isEditable current \<and> newKey \<noteq> k then obj_set paths newKey (Some k)
                    else paths)))"

definition edited_property :: "editable_property \<Rightarrow> property_to_edit \<Rightarrow> schema_type \<Rightarrow> editable_property" where
  "edited_property current property t =
     current\<lparr>ep_root := pe_name property, ep_name := pe_name property, ep_type := t, ep_nullable := pe_nullable property,
             ep_displayName := pe_displayName property, ep_description := pe_description property\<rparr>"

definition nested_keys :: "editable_schema \<Rightarrow> jsstr \<Rightarrow> jsstr list" where
  "nested_keys schema k = filter (\<lambda>d. starts_with d (k @ js ''.'')) (obj_keys schema)"

definition onEditProperty ::
    "schema_editor \<Rightarrow> jsstr \<Rightarrow> property_to_edit \<Rightarrow> jsstr option \<Rightarrow> profile_role option \<Rightarrow> profile_role list \<Rightarrow>
       editor_error + schema_editor" where
  "onEditProperty st k property primarySource propertyRole rolesToUnassign =
     (case (obj_get (editableSchema st) k, pe_type property) of
        (None, _) \<Rightarrow> Inl MissingProperty
      | (_, None) \<Rightarrow> Inl MissingType
      | (Some current, Some t) \<Rightarrow>
          let renamed = pe_name property \<noteq> ep_name current;
              parentKey = getParentPropertyKey k
          in if renamed \<and> name_taken (editableSchema st) parentKey (pe_name property)
             then Inl (NameExists (pe_name property) parentKey)
             else let s1 = (if renamed \<and> kind_of t = KObject then rename_roots (ep_name current) (pe_name property) (editableSchema st)
                            else editableSchema st)
                  in (case (if renamed then renamed_rePaths st s1 k current (pe_name property) else Some (rePaths st)) of
                        None \<Rightarrow> Inl MissingProperty
                      | Some paths \<Rightarrow>
                          let sources = (if primarySource = None \<or> primarySource = Some [] then drop_source k (primarySources st)
                                         else set_source primarySource k (primarySources st));
                              s2 = obj_set s1 k (edited_property current property t);
                              nested = (if kind_of (ep_type current) = KObject \<and> kind_of t \<noteq> KObject then nested_keys s2 k else [])
                          in Inr (st\<lparr>editableSchema := foldl obj_delete s2 nested,
                                     propertyRoles := updateProfilePropertyRoleAssignment (propertyRoles st) k propertyRole rolesToUnassign,
                                     primarySources := foldl obj_delete sources nested,
                                     rePaths := paths\<rparr>)))"

subsection \<open>Removing a property\<close>

definition is_removed :: "jsstr \<Rightarrow> jsstr \<Rightarrow> bool" where
  "is_removed propertyKey k \<longleftrightarrow> k = propertyKey \<or> starts_with k (propertyKey @ js ''.'')"

text \<open>The property that is selected next: the first one after the removed one, or the last one before it.\<close>

definition getPropertySelectionAfterRemoval :: "editable_schema \<Rightarrow> jsstr \<Rightarrow> jsstr option" where
  "getPropertySelectionAfterRemoval schema propertyKey =
     (let ks = obj_keys schema;
          i = index_of ks propertyKey
      in case find (\<lambda>k. \<not> is_removed propertyKey k) (drop (nat (i + 1)) ks) of
           Some k \<Rightarrow> Some k
         | None \<Rightarrow> find (\<lambda>k. \<not> is_removed propertyKey k) (rev (if i < 0 then butlast ks else take (nat i) ks)))"

text \<open>The removal of one nested key from the re-paths.\<close>

definition forget_nested :: "jsstr option obj \<Rightarrow> jsstr \<Rightarrow> jsstr option obj" where
  "forget_nested paths k = drop_renames_of k (obj_delete paths k)"

definition onRemoveProperty :: "schema_editor \<Rightarrow> jsstr \<Rightarrow> bool \<Rightarrow> editor_error + schema_editor \<times> jsstr option" where
  "onRemoveProperty st k isFiltered =
     (let schema = editableSchema st in
      case (obj_get schema k, getEditablePropertyPath schema k) of
        (Some current, Some propertyPath) \<Rightarrow>
          (let paths = drop_renames_of k (obj_delete (rePaths st) propertyPath);
               isObject = (kind_of (ep_type current) = KObject);
               nested = (if isObject then nested_keys schema k else []);
               deleted = (if isObject then filter (\<lambda>d. \<not> starts_with d (k @ js ''.'')) (deletedAppliedKeys st)
                          else deletedAppliedKeys st)
           in Inr (st\<lparr>editableSchema := obj_delete (foldl obj_delete schema nested) k,
                      propertyRoles := clearProfilePropertyRoles (propertyRoles st) k,
                      primarySources := drop_source k (foldl (\<lambda>m d. drop_source d m) (primarySources st) nested),
                      rePaths := foldl forget_nested paths nested,
                      deletedAppliedKeys := (if ep_isEditable current then deleted else deleted @ [k])\<rparr>,
                   if isFiltered then None else getPropertySelectionAfterRemoval schema k))
      | _ \<Rightarrow> Inl MissingProperty)"

end
