(* ===== verification/Schema_Editor_Steps.thy ===== *)
theory Schema_Editor_Steps
  imports Schema_Editor
begin

section \<open>The steps of the schema editor\<close>

text \<open>
  What adding, editing, removing and sorting a property change, for a schema with distinct keys; then the states the
  editor can reach and the invariant of its schema.
\<close>

subsection \<open>Adding\<close>

lemma obj_get_one: "obj_get [(k, v)] x = (if x = k then Some v else None)"
  by (simp add: obj_get_def)

definition with_inserted :: "jsstr option \<Rightarrow> jsstr \<Rightarrow> editable_property \<Rightarrow> editable_schema \<Rightarrow> editable_schema" where
  "with_inserted anchor k v schema = concat (map (\<lambda>(k', p). (k', p) # (if anchor = Some k' then [(k, v)] else [])) schema)"

lemma with_inserted_keys:
  "k \<notin> set (obj_keys schema) \<Longrightarrow> filter (\<lambda>x. x \<noteq> k) (obj_keys (with_inserted anchor k v schema)) = obj_keys schema"
  by (induction schema) (auto simp: with_inserted_def)

lemma with_inserted_get:
  assumes "k \<notin> set (obj_keys schema)"
  shows "obj_get (with_inserted anchor k v schema) x =
    (if x = k then (if \<exists>a. anchor = Some a \<and> a \<in> set (obj_keys schema) then Some v else None) else obj_get schema x)"
  using assms by (induction schema) (auto simp: with_inserted_def obj_get_def)

lemma with_inserted_none:
  "\<forall>a. anchor = Some a \<longrightarrow> a \<notin> set (obj_keys schema) \<Longrightarrow> with_inserted anchor k v schema = schema"
  by (induction schema) (auto simp: with_inserted_def)

lemma with_inserted_key: "x \<in> set (obj_keys (with_inserted anchor k v schema)) \<Longrightarrow> x = k \<or> x \<in> set (obj_keys schema)"
  by (induction schema) (auto simp: with_inserted_def split: if_splits)

lemma with_inserted_distinct:
  assumes "distinct (obj_keys schema)" "k \<notin> set (obj_keys schema)"
  shows "distinct (obj_keys (with_inserted anchor k v schema))"
  using assms
proof (induction schema)
  case (Cons e schema)
  obtain k' p where e: "e = (k', p)" by (cases e)
  show ?case
  proof (cases "anchor = Some k'")
    case True
    with Cons.prems have "with_inserted anchor k v schema = schema" by (intro with_inserted_none) (auto simp: e)
    with True Cons show ?thesis by (auto simp: e with_inserted_def)
  next
    case False
    then have "with_inserted anchor k v (e # schema) = e # with_inserted anchor k v schema" by (simp add: with_inserted_def e)
    with Cons show ?thesis by (auto simp: e dest: with_inserted_key)
  qed
qed (simp add: with_inserted_def)

lemma insert_after_fold:
  fixes anchor k v
  defines "f \<equiv> (\<lambda>u (propertyKey, currentProperty).
            let u = obj_set u propertyKey currentProperty
            in if anchor = Some propertyKey then obj_set u k v else u)"
  assumes "distinct (obj_keys acc @ obj_keys schema)" "k \<notin> set (obj_keys schema)"
    "\<forall>a. anchor = Some a \<and> a \<in> set (obj_keys schema) \<longrightarrow> k \<notin> set (obj_keys acc)"
  shows "foldl f acc schema = acc @ with_inserted anchor k v schema"
  using assms(2-)
proof (induction schema arbitrary: acc)
  case (Cons e schema)
  obtain k' p where e: "e = (k', p)" by (cases e)
  have "obj_set acc k' p = acc @ [(k', p)]" using Cons.prems by (intro obj_set_new) (auto simp: e)
  moreover have "anchor = Some k' \<Longrightarrow> obj_set (acc @ [(k', p)]) k v = acc @ [(k', p), (k, v)]"
    using Cons.prems by (subst obj_set_new) (auto simp: e)
  ultimately have "f acc e = acc @ (k', p) # (if anchor = Some k' then [(k, v)] else [])"
    by (simp add: f_def e)
  moreover have "foldl f (acc @ (k', p) # (if anchor = Some k' then [(k, v)] else [])) schema =
      (acc @ (k', p) # (if anchor = Some k' then [(k, v)] else [])) @ with_inserted anchor k v schema"
    using Cons.prems by (intro Cons.IH) (auto simp: e)
  ultimately show ?case by (simp add: e with_inserted_def)
qed (simp add: with_inserted_def)

lemma insert_after_spec:
  assumes "distinct (obj_keys schema)" "k \<notin> set (obj_keys schema)" "\<forall>a. anchor = Some a \<longrightarrow> a \<in> set (obj_keys schema)"
  shows "obj_get (insert_after anchor k v schema) x = (if x = k then Some v else obj_get schema x)"
    and "filter (\<lambda>x. x \<noteq> k) (obj_keys (insert_after anchor k v schema)) = obj_keys schema"
    and "distinct (obj_keys (insert_after anchor k v schema))"
proof -
  have eq: "insert_after anchor k v schema = (if anchor = None then schema @ [(k, v)] else with_inserted anchor k v schema)"
    using insert_after_fold [of "[]" schema k anchor v] assms by (auto simp: insert_after_def with_inserted_none obj_set_new)
  have none: "obj_get schema k = None" using assms(2) by (simp add: in_obj_keys)
  show "obj_get (insert_after anchor k v schema) x = (if x = k then Some v else obj_get schema x)"
    unfolding eq using assms none by (cases anchor) (auto simp: with_inserted_get obj_get_append obj_get_one split: option.splits)
  show "filter (\<lambda>x. x \<noteq> k) (obj_keys (insert_after anchor k v schema)) = obj_keys schema"
    using assms by (auto simp: eq with_inserted_keys intro: filter_True)
  show "distinct (obj_keys (insert_after anchor k v schema))"
    using assms by (simp add: eq with_inserted_distinct)
qed

lemma last_filter_key: "obj_get schema d = Some p \<Longrightarrow> last (d # filter P (obj_keys schema)) \<in> set (obj_keys schema)"
  using last_in_set [of "d # filter P (obj_keys schema)"] by (auto simp: in_obj_keys simp del: last.simps)

lemma anchor_in_schema:
  "getPropertyInsertionAnchor schema parentKey sel = Some a \<Longrightarrow> a \<in> set (obj_keys schema)"
  unfolding getPropertyInsertionAnchor_def
  by (auto simp: Let_def simp del: last.simps split: option.splits if_splits intro: last_filter_key)

lemma fresh_key_spec: "fresh_key schema k n \<notin> set (obj_keys schema) \<and> (\<exists>w. fresh_key schema k n = k @ w \<and> 46 \<notin> set w)"
proof (induction schema k n rule: fresh_key.induct)
  case (1 schema k n)
  have "46 \<notin> set (js ''-'' @ nat_text n)" using nat_text_digits [of 46 n] by (auto simp: js_Cons)
  with 1 show ?case
    by (subst fresh_key.simps, subst (2) fresh_key.simps) (auto simp: in_obj_keys)
qed

lemma unused_key_spec: "unused_key schema k \<notin> set (obj_keys schema) \<and> (\<exists>w. unused_key schema k = k @ w \<and> 46 \<notin> set w)"
  using fresh_key_spec [of schema k 2] by (auto simp: unused_key_def in_obj_keys)

lemma onAddProperty_spec:
  assumes "onAddProperty st p source role sel = Inr (st', k)" "distinct (obj_keys (editableSchema st))"
  shows "k \<notin> set (obj_keys (editableSchema st))" "distinct (obj_keys (editableSchema st'))"
    "filter (\<lambda>x. x \<noteq> k) (obj_keys (editableSchema st')) = obj_keys (editableSchema st)"
    "\<exists>t. pe_type p = Some t \<and> (\<forall>x. obj_get (editableSchema st') x =
       (if x = k then Some (added_property p t) else obj_get (editableSchema st) x))"
    "\<not> name_taken (editableSchema st) (pe_parentKey p) (pe_name p)"
    "\<exists>w. k = (if pe_parentKey p \<noteq> [] then pe_parentKey p @ 46 # pe_name p else pe_name p) @ w \<and> 46 \<notin> set w"
    "rePaths st' = added_rePaths st (if pe_parentKey p \<noteq> [] then pe_parentKey p @ 46 # pe_name p else pe_name p)"
    "deletedAppliedKeys st' = deletedAppliedKeys st" "moveHistory st' = moveHistory st" "nextMoveSequence st' = nextMoveSequence st"
    "propertyRoles st' = updateProfilePropertyRoleAssignment (propertyRoles st) k role []"
    "primarySources st' = set_source source k (primarySources st)"
proof -
  let ?wanted = "if pe_parentKey p \<noteq> [] then pe_parentKey p @ 46 # pe_name p else pe_name p"
  let ?schema = "editableSchema st"
  obtain t where t: "pe_type p = Some t" "\<not> name_taken ?schema (pe_parentKey p) (pe_name p)" "k = unused_key ?schema ?wanted"
    and st': "st' = st\<lparr>editableSchema := insert_after (getPropertyInsertionAnchor ?schema (pe_parentKey p) sel) k (added_property p t) ?schema,
      propertyRoles := updateProfilePropertyRoleAssignment (propertyRoles st) k role [],
      primarySources := set_source source k (primarySources st), rePaths := added_rePaths st ?wanted\<rparr>"
    using assms(1) by (auto simp: onAddProperty_def Let_def js_Cons split: if_splits option.splits)
  have k: "k \<notin> set (obj_keys ?schema)" "\<exists>w. k = ?wanted @ w \<and> 46 \<notin> set w"
    using unused_key_spec [of ?schema ?wanted] t(3) by simp_all
  have anchor: "\<forall>a. getPropertyInsertionAnchor ?schema (pe_parentKey p) sel = Some a \<longrightarrow> a \<in> set (obj_keys ?schema)"
    using anchor_in_schema by blast
  note ins = insert_after_spec [OF assms(2) k(1) anchor]
  show "k \<notin> set (obj_keys ?schema)" "\<exists>w. k = ?wanted @ w \<and> 46 \<notin> set w" by (fact k)+
  show "distinct (obj_keys (editableSchema st'))" "filter (\<lambda>x. x \<noteq> k) (obj_keys (editableSchema st')) = obj_keys ?schema"
    "\<exists>t. pe_type p = Some t \<and> (\<forall>x. obj_get (editableSchema st') x = (if x = k then Some (added_property p t) else obj_get ?schema x))"
    using ins t(1) by (simp_all add: st')
  show "\<not> name_taken ?schema (pe_parentKey p) (pe_name p)" by (fact t(2))
qed (use assms in \<open>auto simp: onAddProperty_def Let_def js_Cons split: if_splits option.splits\<close>)

subsection \<open>Editing\<close>

lemma obj_get_map [simp]: "obj_get (map (\<lambda>(k, p). (k, f p)) o1) x = map_option f (obj_get o1 x)"
  by (induction o1) (auto simp: obj_get_def)

lemma obj_keys_map [simp]: "obj_keys (map (\<lambda>(k, p). (k, f p)) o1) = obj_keys o1"
  by (induction o1) auto

lemma rename_roots_spec:
  "obj_keys (rename_roots a b s) = obj_keys s"
  "obj_get (rename_roots a b s) x = map_option (\<lambda>p. if ep_root p = a then p\<lparr>ep_root := b\<rparr> else p) (obj_get s x)"
  by (simp_all add: rename_roots_def)

lemma fold_delete:
  "obj_get (foldl obj_delete s ks) x = (if x \<in> set ks then None else obj_get s x)"
  "obj_keys (foldl obj_delete s ks) = filter (\<lambda>x. x \<notin> set ks) (obj_keys s)"
  by (induction ks arbitrary: s) (auto simp: obj_keys_delete intro: filter_cong)

lemma onEditProperty_spec:
  assumes "onEditProperty st k p source role un = Inr st'"
  obtains current t nested s where "obj_get (editableSchema st) k = Some current" "pe_type p = Some t"
    "nested = (if kind_of (ep_type current) = KObject \<and> kind_of t \<noteq> KObject
               then filter (\<lambda>d. starts_with d (k @ [46])) (obj_keys (editableSchema st)) else [])"
    "obj_keys (editableSchema st') = filter (\<lambda>x. x \<notin> set nested) (obj_keys (editableSchema st))"
    "\<And>x. obj_get (editableSchema st') x =
       (if x \<in> set nested then None else if x = k then Some (edited_property current p t)
        else map_option (\<lambda>q. if pe_name p \<noteq> ep_name current \<and> kind_of t = KObject \<and> ep_root q = ep_name current
                             then q\<lparr>ep_root := pe_name p\<rparr> else q) (obj_get (editableSchema st) x))"
    "pe_name p \<noteq> ep_name current \<Longrightarrow> \<not> name_taken (editableSchema st) (getParentPropertyKey k) (pe_name p)"
    "\<And>x. map_option ep_name (obj_get s x) = map_option ep_name (obj_get (editableSchema st) x)"
    "(if pe_name p \<noteq> ep_name current then renamed_rePaths st s k current (pe_name p) else Some (rePaths st)) = Some (rePaths st')"
    "deletedAppliedKeys st' = deletedAppliedKeys st" "moveHistory st' = moveHistory st" "nextMoveSequence st' = nextMoveSequence st"
    "propertyRoles st' = updateProfilePropertyRoleAssignment (propertyRoles st) k role un"
    "primarySources st' = foldl obj_delete (if source = None \<or> source = Some [] then drop_source k (primarySources st)
                                            else set_source source k (primarySources st)) nested"
proof -
  obtain current t where ct: "obj_get (editableSchema st) k = Some current" "pe_type p = Some t"
    using assms by (auto simp: onEditProperty_def split: option.splits)
  define ren where "ren \<longleftrightarrow> pe_name p \<noteq> ep_name current"
  define s1 where "s1 = (if ren \<and> kind_of t = KObject then rename_roots (ep_name current) (pe_name p) (editableSchema st) else editableSchema st)"
  define s2 where "s2 = obj_set s1 k (edited_property current p t)"
  define nested where "nested = (if kind_of (ep_type current) = KObject \<and> kind_of t \<noteq> KObject then nested_keys s2 k else [])"
  have keys: "obj_keys s1 = obj_keys (editableSchema st)" "obj_keys s2 = obj_keys (editableSchema st)"
    using ct(1) by (auto simp: s1_def s2_def rename_roots_spec obj_keys_set in_obj_keys)
  obtain paths where taken: "\<not> (ren \<and> name_taken (editableSchema st) (getParentPropertyKey k) (pe_name p))"
    and paths: "(if ren then renamed_rePaths st s1 k current (pe_name p) else Some (rePaths st)) = Some paths"
    and st': "st' = st\<lparr>editableSchema := foldl obj_delete s2 nested,
      propertyRoles := updateProfilePropertyRoleAssignment (propertyRoles st) k role un,
      primarySources := foldl obj_delete (if source = None \<or> source = Some [] then drop_source k (primarySources st)
                                           else set_source source k (primarySources st)) nested, rePaths := paths\<rparr>"
    using assms unfolding onEditProperty_def ct by (auto simp: Let_def ren_def s1_def s2_def nested_def split: option.splits if_splits)
  have nested: "nested = (if kind_of (ep_type current) = KObject \<and> kind_of t \<noteq> KObject
              then filter (\<lambda>d. starts_with d (k @ [46])) (obj_keys (editableSchema st)) else [])"
    by (simp add: nested_def nested_keys_def keys js_Cons)
  have names: "\<forall>x. map_option ep_name (obj_get s1 x) = map_option ep_name (obj_get (editableSchema st) x)"
    by (auto simp: s1_def rename_roots_spec option.map_comp comp_def intro!: map_option_cong)
  have get: "obj_get s2 x = (if x = k then Some (edited_property current p t)
        else map_option (\<lambda>q. if ren \<and> kind_of t = KObject \<and> ep_root q = ep_name current
                             then q\<lparr>ep_root := pe_name p\<rparr> else q) (obj_get (editableSchema st) x))" for x
    by (cases "obj_get (editableSchema st) x") (simp_all add: s2_def s1_def rename_roots_spec)
  show thesis
    by (rule that [of current t nested s1])
      (use ct nested taken paths keys names get in \<open>simp_all add: st' fold_delete ren_def\<close>)
qed

subsection \<open>Removing and sorting\<close>

lemma drop_source_get: "obj_get (drop_source k sources) x = (if x = k \<and> obj_get sources k \<noteq> Some [] then None else obj_get sources x)"
  by (auto simp: drop_source_def split: option.splits)

lemma fold_drop_source:
  "obj_get (foldl (\<lambda>m d. drop_source d m) sources ds) x = (if x \<in> set ds \<and> obj_get sources x \<noteq> Some [] then None else obj_get sources x)"
  by (induction ds arbitrary: sources) (auto simp: drop_source_get)

lemma onRemoveProperty_spec:
  assumes "onRemoveProperty st k isFiltered = Inr (st', next)"
  obtains current path nested where "obj_get (editableSchema st) k = Some current" "getEditablePropertyPath (editableSchema st) k = Some path"
    "nested = (if kind_of (ep_type current) = KObject then filter (\<lambda>d. starts_with d (k @ [46])) (obj_keys (editableSchema st)) else [])"
    "obj_keys (editableSchema st') = filter (\<lambda>x. x \<noteq> k \<and> x \<notin> set nested) (obj_keys (editableSchema st))"
    "\<And>x. obj_get (editableSchema st') x = (if x = k \<or> x \<in> set nested then None else obj_get (editableSchema st) x)"
    "rePaths st' = foldl forget_nested (drop_renames_of k (obj_delete (rePaths st) path)) nested"
    "deletedAppliedKeys st' =
       (if kind_of (ep_type current) = KObject then filter (\<lambda>d. \<not> starts_with d (k @ [46])) (deletedAppliedKeys st) else deletedAppliedKeys st)
       @ (if ep_isEditable current then [] else [k])"
    "moveHistory st' = moveHistory st" "nextMoveSequence st' = nextMoveSequence st"
    "propertyRoles st' = clearProfilePropertyRoles (propertyRoles st) k"
    "\<And>x. obj_get (primarySources st') x =
       (if (x = k \<or> x \<in> set nested) \<and> obj_get (primarySources st) x \<noteq> Some [] then None else obj_get (primarySources st) x)"
proof -
  obtain current path where cp: "obj_get (editableSchema st) k = Some current" "getEditablePropertyPath (editableSchema st) k = Some path"
    using assms by (cases "obj_get (editableSchema st) k"; cases "getEditablePropertyPath (editableSchema st) k")
      (auto simp: onRemoveProperty_def)
  show thesis
    by (rule that [of current path "if kind_of (ep_type current) = KObject
                then filter (\<lambda>d. starts_with d (k @ [46])) (obj_keys (editableSchema st)) else []"])
      (use assms cp in \<open>auto simp: onRemoveProperty_def Let_def nested_keys_def js_Cons fold_delete obj_keys_delete
         fold_drop_source drop_source_get filter_filter conj_commute\<close>)
qed

lemma onSortRow_spec:
  fixes st :: schema_editor
  assumes "distinct (obj_keys (editableSchema st))"
  shows "onSortRow overRow moved st = st \<or>
    (\<exists>s. onSortRow overRow moved st = st\<lparr>editableSchema := s,
           moveHistory := obj_set (moveHistory st) moved (nextMoveSequence st + 1), nextMoveSequence := nextMoveSequence st + 1\<rparr> \<and>
         obj_keys s = reordered_keys overRow moved (obj_keys (editableSchema st)) \<and>
         (\<forall>x. obj_get s x = obj_get (editableSchema st) x) \<and> moved \<in> set (obj_keys (editableSchema st)))"
  using reorderEditableSchema_spec [OF _ assms, of overRow moved]
  by (auto simp: onSortRow_def Let_def split: option.splits)

subsection \<open>Keys and parents\<close>

lemma dotted_key:
  assumes "46 \<in> set k"
  obtains a w where "k = a @ 46 # w" "46 \<notin> set w" "getParentPropertyKey k = a"
proof -
  obtain a w where k: "k = a @ 46 # w" "46 \<notin> set w" using split_list_last [OF assms] by blast
  then have "dropWhile (\<lambda>c. c \<noteq> 46) (rev w @ 46 # rev a) = 46 # rev a" by (subst dropWhile_append2) auto
  with k show thesis by (intro that) (simp_all add: getParentPropertyKey_def)
qed

lemma parent_append: "46 \<notin> set w \<Longrightarrow> getParentPropertyKey (a @ 46 # w) = a"
  by (rule dotted_key [of "a @ 46 # w"]) (auto simp: append_eq_append_conv2 append_eq_Cons_conv Cons_eq_append_conv)

lemma parent_plain: "46 \<notin> set k \<Longrightarrow> getParentPropertyKey k = []"
  by (simp add: getParentPropertyKey_def)

lemma nested_dotted: "starts_with k (a @ [46]) \<Longrightarrow> 46 \<in> set k"
  by (auto simp: starts_with_iff)

lemma nested_below_parent:
  assumes "starts_with (getParentPropertyKey k) (a @ [46])"
  shows "starts_with k (a @ [46])"
proof -
  have "46 \<in> set k" using assms nested_dotted [OF assms] by (metis empty_iff empty_set parent_plain)
  then show ?thesis by (rule dotted_key) (use assms in \<open>auto simp: starts_with_iff\<close>)
qed

lemma child_nested: "46 \<in> set k \<Longrightarrow> starts_with k (getParentPropertyKey k @ [46])"
  by (rule dotted_key [of k]) (auto simp: starts_with_iff)

subsection \<open>The invariant of the schema\<close>

definition nested_in_objects :: "editable_schema \<Rightarrow> bool" where
  "nested_in_objects s \<longleftrightarrow> (\<forall>k \<in> set (obj_keys s). 46 \<in> set k \<longrightarrow>
     (\<exists>q. obj_get s (getParentPropertyKey k) = Some q \<and> kind_of (ep_type q) = KObject))"

definition names_plain :: "editable_schema \<Rightarrow> bool" where
  "names_plain s \<longleftrightarrow> (\<forall>k p. obj_get s k = Some p \<longrightarrow> k \<noteq> [] \<and> ep_name p \<noteq> [] \<and> 46 \<notin> set (ep_name p))"

definition sibling_names_unique :: "editable_schema \<Rightarrow> bool" where
  "sibling_names_unique s \<longleftrightarrow> (\<forall>x y p q. obj_get s x = Some p \<and> obj_get s y = Some q \<and>
     getParentPropertyKey x = getParentPropertyKey y \<and> ep_name p = ep_name q \<longrightarrow> x = y)"

definition editable_ok :: "editable_schema \<Rightarrow> bool" where
  "editable_ok s \<longleftrightarrow> distinct (obj_keys s) \<and> nested_in_objects s \<and> names_plain s \<and> sibling_names_unique s"

lemma editable_okD:
  assumes "editable_ok s"
  shows editable_ok_distinct: "distinct (obj_keys s)"
    and editable_ok_parent: "k \<in> set (obj_keys s) \<Longrightarrow> 46 \<in> set k \<Longrightarrow>
      \<exists>q. obj_get s (getParentPropertyKey k) = Some q \<and> kind_of (ep_type q) = KObject"
    and editable_ok_plain: "obj_get s k = Some p \<Longrightarrow> k \<noteq> [] \<and> ep_name p \<noteq> [] \<and> 46 \<notin> set (ep_name p)"
    and editable_ok_unique: "obj_get s x = Some p \<Longrightarrow> obj_get s y = Some q \<Longrightarrow>
      getParentPropertyKey x = getParentPropertyKey y \<Longrightarrow> ep_name p = ep_name q \<Longrightarrow> x = y"
  using assms unfolding editable_ok_def nested_in_objects_def names_plain_def sibling_names_unique_def by blast+

lemma name_taken_iff:
  assumes "distinct (obj_keys s)"
  shows "name_taken s parent n \<longleftrightarrow> (\<exists>x p. obj_get s x = Some p \<and> getParentPropertyKey x = parent \<and> ep_name p = n)"
  using assms by (fastforce simp: name_taken_def list_ex_iff obj_get_def obj_keys_def dest: map_of_SomeD)

lemma editable_ok_add:
  assumes ok: "editable_ok s" and k: "k \<notin> set (obj_keys s)" "distinct (obj_keys s')"
    and get: "\<And>x. obj_get s' x = (if x = k then Some p else obj_get s x)"
    and free: "\<not> name_taken s (getParentPropertyKey k) (ep_name p)"
    and plain: "k \<noteq> []" "ep_name p \<noteq> []" "46 \<notin> set (ep_name p)"
    and parent: "46 \<in> set k \<Longrightarrow> \<exists>q. obj_get s (getParentPropertyKey k) = Some q \<and> kind_of (ep_type q) = KObject"
  shows "editable_ok s'"
proof -
  have none: "obj_get s k = None" using k by (simp add: in_obj_keys)
  have "nested_in_objects s'"
    using ok parent none unfolding nested_in_objects_def editable_ok_def by (auto simp: in_obj_keys get split: if_splits)
  moreover have "names_plain s'" using ok plain unfolding names_plain_def editable_ok_def by (auto simp: get split: if_splits)
  moreover have "sibling_names_unique s'"
    unfolding sibling_names_unique_def
  proof (intro allI impI, elim conjE)
    fix x y a b
    assume xy: "obj_get s' x = Some a" "obj_get s' y = Some b" "getParentPropertyKey x = getParentPropertyKey y" "ep_name a = ep_name b"
    have other: "ep_name c = ep_name p \<Longrightarrow> getParentPropertyKey z = getParentPropertyKey k \<Longrightarrow> obj_get s z \<noteq> Some c" for z c
      using free ok unfolding editable_ok_def by (metis name_taken_iff)
    show "x = y"
    proof (cases "x = k \<or> y = k")
      case True
      then show ?thesis using xy other [of a x] other [of b y] by (auto simp: get split: if_splits)
    next
      case False
      then show ?thesis using xy editable_ok_unique [OF ok] by (simp add: get)
    qed
  qed
  ultimately show ?thesis using k by (simp add: editable_ok_def)
qed

text \<open>Removing a set of keys with all that is nested in them, and changing the property at one key.\<close>

lemma editable_ok_change:
  assumes ok: "editable_ok s" and k: "obj_get s k = Some p"
    and keys: "obj_keys s' = filter (\<lambda>x. x \<notin> N) (obj_keys s)"
    and closed: "\<And>x. x \<in> set (obj_keys s) \<Longrightarrow> 46 \<in> set x \<Longrightarrow> getParentPropertyKey x \<in> N \<Longrightarrow> x \<in> N"
    and kept: "\<And>x. x \<in> set (obj_keys s) \<Longrightarrow> x \<notin> N \<Longrightarrow> 46 \<in> set x \<Longrightarrow> getParentPropertyKey x = k \<Longrightarrow> kind_of (ep_type p') = KObject"
    and get: "\<And>x. x \<notin> N \<Longrightarrow> map_option ep_name (obj_get s' x) = (if x = k then Some (ep_name p') else map_option ep_name (obj_get s x))"
      "\<And>x. x \<notin> N \<Longrightarrow> map_option ep_type (obj_get s' x) = (if x = k then Some (ep_type p') else map_option ep_type (obj_get s x))"
    and name: "ep_name p' \<noteq> ep_name p \<Longrightarrow> \<not> name_taken s (getParentPropertyKey k) (ep_name p') \<and> ep_name p' \<noteq> [] \<and> 46 \<notin> set (ep_name p')"
  shows "editable_ok s'"
proof -
  have old: "\<exists>b. obj_get s x = Some b \<and> ep_name a = (if x = k then ep_name p' else ep_name b)" if x: "obj_get s' x = Some a" for x a
  proof -
    from x have "x \<in> set (obj_keys s')" by (simp add: in_obj_keys)
    then have "x \<notin> N" "obj_get s x \<noteq> None" by (simp_all add: keys in_obj_keys)
    with get(1) [of x] x show ?thesis by auto
  qed
  have "nested_in_objects s'"
    unfolding nested_in_objects_def
  proof (intro ballI impI)
    fix x assume x: "x \<in> set (obj_keys s')" and dot: "46 \<in> set x"
    let ?q = "getParentPropertyKey x"
    from x have x': "x \<in> set (obj_keys s)" "x \<notin> N" by (simp_all add: keys)
    obtain q where q: "obj_get s ?q = Some q" "kind_of (ep_type q) = KObject" using editable_ok_parent [OF ok x'(1) dot] by blast
    have "?q \<notin> N" using closed [OF x'(1) dot] x'(2) by blast
    then have "map_option ep_type (obj_get s' ?q) = (if ?q = k then Some (ep_type p') else Some (ep_type q))"
      using get(2) [of ?q] q(1) by simp
    then show "\<exists>q. obj_get s' ?q = Some q \<and> kind_of (ep_type q) = KObject"
      using kept [OF x' dot] q(2) by (auto split: if_splits)
  qed
  moreover have "names_plain s'"
    unfolding names_plain_def using old editable_ok_plain [OF ok] name k by (metis (full_types))
  moreover have "sibling_names_unique s'"
    unfolding sibling_names_unique_def
  proof (intro allI impI, elim conjE)
    fix x y a b
    assume xy: "obj_get s' x = Some a" "obj_get s' y = Some b" "getParentPropertyKey x = getParentPropertyKey y" "ep_name a = ep_name b"
    obtain a' b' where ab: "obj_get s x = Some a'" "obj_get s y = Some b'"
      and names: "ep_name a = (if x = k then ep_name p' else ep_name a')" "ep_name b = (if y = k then ep_name p' else ep_name b')"
      using old [OF xy(1)] old [OF xy(2)] by blast
    have other: "z = k" if "obj_get s z = Some c" "getParentPropertyKey z = getParentPropertyKey k" "ep_name c = ep_name p'" for z c
    proof (cases "ep_name p' = ep_name p")
      case True
      with that show ?thesis by (intro editable_ok_unique [OF ok that(1) k]) simp_all
    next
      case False
      with name that show ?thesis by (metis editable_ok_distinct name_taken_iff ok)
    qed
    show "x = y" using other [OF ab(1)] other [OF ab(2)] editable_ok_unique [OF ok ab xy(3)] names xy(3,4)
      by (auto split: if_splits)
  qed
  ultimately show ?thesis using editable_ok_distinct [OF ok] by (simp add: editable_ok_def keys)
qed

lemma nested_closed:
  "46 \<in> set x \<Longrightarrow> getParentPropertyKey x = k \<or> starts_with (getParentPropertyKey x) (k @ [46]) \<Longrightarrow> starts_with x (k @ [46])"
  using child_nested nested_below_parent by metis

text \<open>Only an object has nested properties.\<close>

lemma object_of_nested:
  assumes "editable_ok s" "x \<in> set (obj_keys s)" "starts_with x (k @ [46])"
  shows "\<exists>q. obj_get s k = Some q \<and> kind_of (ep_type q) = KObject"
  using assms(2,3)
proof (induction "length x" arbitrary: x rule: less_induct)
  case less
  have dot: "46 \<in> set x" using less.prems(2) by (rule nested_dotted)
  obtain q where q: "obj_get s (getParentPropertyKey x) = Some q" "kind_of (ep_type q) = KObject"
    using editable_ok_parent [OF assms(1) less.prems(1) dot] by blast
  have shorter: "length (getParentPropertyKey x) < length x" by (rule dotted_key [OF dot]) simp
  from nested_parent [of x k] less.prems(2) consider "getParentPropertyKey x = k" | "starts_with (getParentPropertyKey x) (k @ [46])"
    by (auto simp: js_Cons)
  then show ?case
  proof cases
    case 2
    then show ?thesis using less.hyps [OF shorter] q(1) by (simp add: in_obj_keys)
  qed (use q in simp)
qed

text \<open>Every property has a path.\<close>

lemma ancestor_names_total:
  "(\<And>i. 0 < i \<Longrightarrow> i \<le> length ws \<Longrightarrow> obj_get s (path_of (done @ take i ws)) \<noteq> None) \<Longrightarrow> \<exists>ns. ancestor_names s done ws = Some ns \<and> length ns = length ws"
proof (induction ws arbitrary: "done")
  case (Cons w ws)
  obtain p where "obj_get s (path_of (done @ [w])) = Some p" using Cons.prems [of 1] by auto
  moreover have "\<exists>ns. ancestor_names s (done @ [w]) ws = Some ns \<and> length ns = length ws"
    using Cons.prems [of "Suc _"] by (intro Cons.IH) simp
  ultimately show ?case by auto
qed simp

lemma prefix_keys:
  assumes ok: "editable_ok s" and k: "k \<in> set (obj_keys s)"
  shows "0 < i \<Longrightarrow> i \<le> length (segments k) \<Longrightarrow> path_of (take i (segments k)) \<in> set (obj_keys s)"
proof (induction "length (segments k) - i" arbitrary: i)
  case (Suc n)
  let ?ws = "take (Suc i) (segments k)"
  have ws: "?ws = take i (segments k) @ [segments k ! i]" using Suc by (intro take_Suc_conv_app_nth) simp
  have "path_of ?ws \<in> set (obj_keys s)" using Suc by simp
  moreover have "path_of ?ws = path_of (take i (segments k)) @ 46 # segments k ! i" "46 \<notin> set (segments k ! i)"
    using Suc split_on_pieces [of "segments k ! i" 46 k] by (auto simp: ws path_of_snoc)
  ultimately show ?case using editable_ok_parent [OF ok, of "path_of ?ws"] by (auto simp: parent_append in_obj_keys)
qed (use k in simp)

lemma editable_path_exists:
  assumes "editable_ok s" "k \<in> set (obj_keys s)"
  shows "\<exists>ns. getEditablePropertyPath s k = Some (path_of ns) \<and> length ns = length (segments k)"
  using ancestor_names_total [of "segments k" s "[]"] prefix_keys [OF assms]
  by (auto simp: getEditablePropertyPath_def in_obj_keys)

lemma ancestor_names_cong:
  "(\<And>x. map_option ep_name (obj_get s x) = map_option ep_name (obj_get s' x)) \<Longrightarrow> ancestor_names s done ws = ancestor_names s' done ws"
proof (induction ws arbitrary: "done")
  case (Cons w ws)
  show ?case using Cons.prems [of "path_of (done @ [w])"] Cons.IH [OF Cons.prems]
    by (cases "obj_get s (path_of (done @ [w]))"; cases "obj_get s' (path_of (done @ [w]))") auto
qed simp

lemma editable_path_cong:
  "(\<And>x. map_option ep_name (obj_get s x) = map_option ep_name (obj_get s' x)) \<Longrightarrow> getEditablePropertyPath s k = getEditablePropertyPath s' k"
  unfolding getEditablePropertyPath_def by (subst ancestor_names_cong) auto

lemma dotted_path_of: "2 \<le> length ns \<Longrightarrow> 46 \<in> set (path_of ns)"
  by (cases ns; cases "tl ns") auto

lemma dotted_segments: "46 \<in> set k \<Longrightarrow> 2 \<le> length (segments k)"
  using join_split [of 46 k] split_on_pieces [of _ 46 k] by (cases "segments k"; cases "tl (segments k)") auto

lemma nested_path:
  assumes "editable_ok s" "k \<in> set (obj_keys s)" "46 \<in> set k"
  obtains path where "getEditablePropertyPath s k = Some path" "46 \<in> set path"
  using editable_path_exists [OF assms(1,2)] dotted_path_of dotted_segments [OF assms(3)] by auto

end
