(* ===== verification/Schema_Editor_States.thy ===== *)
theory Schema_Editor_States
  imports Schema_Editor_Steps
begin

section \<open>The states of the schema editor\<close>

text \<open>
  The editor is opened on a schema; then properties are added inside the objects of the schema, edited, removed and
  moved, in any order. The guards of a step are those of the forms: names pass \<open>validatePropertyName\<close>, and an object
  that becomes another type gives up the roles of its properties, which \<open>PropertyForm\<close> collects in
  \<open>rolesToUnassign\<close>. A \<open>careful\<close> user does not give a new property, by renaming it, a name that another rename
  freed.
\<close>

definition careless_rename :: "schema_editor \<Rightarrow> jsstr \<Rightarrow> property_to_edit \<Rightarrow> bool" where
  "careless_rename st k p \<longleftrightarrow>
     (case obj_get (editableSchema st) k of
        None \<Rightarrow> False
      | Some current \<Rightarrow> ep_isEditable current \<and> pe_name p \<noteq> ep_name current \<and> renamed_from (rePaths st) (new_key_of k (pe_name p)))"

definition is_object_key :: "editable_schema \<Rightarrow> jsstr \<Rightarrow> bool" where
  "is_object_key s k \<longleftrightarrow> (case obj_get s k of None \<Rightarrow> False | Some q \<Rightarrow> kind_of (ep_type q) = KObject)"

text \<open>The form takes the parent of a new property, and with it the indentation, from the list of the parents.\<close>

definition parent_chosen :: "editable_schema \<Rightarrow> property_to_edit \<Rightarrow> bool" where
  "parent_chosen s p \<longleftrightarrow>
     (if pe_parentKey p = [] then pe_indentation p = 0
      else (case obj_get s (pe_parentKey p) of
              None \<Rightarrow> False
            | Some q \<Rightarrow> kind_of (ep_type q) = KObject \<and> pe_indentation p = ep_indentation q + 1))"

lemma parent_chosenD: "parent_chosen s p \<Longrightarrow> pe_parentKey p = [] \<or> is_object_key s (pe_parentKey p)"
  by (auto simp: parent_chosen_def is_object_key_def split: if_splits option.splits)

definition name_accepted :: "schema_editor \<Rightarrow> jsstr \<Rightarrow> property_to_edit \<Rightarrow> bool" where
  "name_accepted st k p \<longleftrightarrow>
     validatePropertyName (pe_name p) = Inr () \<or> map_option ep_name (obj_get (editableSchema st) k) = Some (pe_name p)"

definition descendant_roles_unassigned :: "schema_editor \<Rightarrow> jsstr \<Rightarrow> property_to_edit \<Rightarrow> profile_role list \<Rightarrow> bool" where
  "descendant_roles_unassigned st k p un \<longleftrightarrow>
     (case pe_type p of
        None \<Rightarrow> True
      | Some t \<Rightarrow> kind_of t = KObject \<or> list_all (\<lambda>r. starts_with (propertyRoles st r) (k @ js ''.'') \<longrightarrow> r \<in> set un) PROFILE_PROPERTY_ROLES)"

inductive schema_editor_reachable :: "bool \<Rightarrow> property list \<Rightarrow> property_roles option \<Rightarrow> jsstr obj \<Rightarrow> schema_editor \<Rightarrow> bool"
  for careful :: bool and ps :: "property list" and roles :: "property_roles option" and sources :: "jsstr obj" where
  opened: "schema_editor_reachable careful ps roles sources (open_editor ps roles sources)"
| added: "schema_editor_reachable careful ps roles sources st \<Longrightarrow> validatePropertyName (pe_name p) = Inr () \<Longrightarrow>
    parent_chosen (editableSchema st) p \<Longrightarrow>
    onAddProperty st p source role selected = Inr (st', k) \<Longrightarrow> schema_editor_reachable careful ps roles sources st'"
| edited: "schema_editor_reachable careful ps roles sources st \<Longrightarrow> name_accepted st k p \<Longrightarrow>
    descendant_roles_unassigned st k p un \<Longrightarrow> \<not> (careful \<and> careless_rename st k p) \<Longrightarrow>
    onEditProperty st k p source role un = Inr st' \<Longrightarrow> schema_editor_reachable careful ps roles sources st'"
| removed: "schema_editor_reachable careful ps roles sources st \<Longrightarrow>
    onRemoveProperty st k isFiltered = Inr (st', next) \<Longrightarrow> schema_editor_reachable careful ps roles sources st'"
| sorted: "schema_editor_reachable careful ps roles sources st \<Longrightarrow>
    schema_editor_reachable careful ps roles sources (onSortRow overRow moved st)"

subsection \<open>Opening\<close>

definition opened_properties :: "property list \<Rightarrow> property list" where
  "opened_properties ps = filter (\<lambda>p. \<not> is_meta_property (p_name p)) ps"

abbreviation opened_schema :: "property list \<Rightarrow> editable_schema" where
  "opened_schema ps \<equiv> flat_entries editableProperty [] (opened_properties ps)"

lemma wf_opened: "wf_properties ps \<Longrightarrow> wf_properties (opened_properties ps)"
  unfolding opened_properties_def by (induction ps) auto

lemma names_opened: "names_nonempty ps \<Longrightarrow> names_nonempty (opened_properties ps)"
  unfolding opened_properties_def by (induction ps) auto

lemma open_editor_fields:
  "wf_properties ps \<Longrightarrow> editableSchema (open_editor ps roles sources) = opened_schema ps"
  "moveHistory (open_editor ps roles sources) = []" "nextMoveSequence (open_editor ps roles sources) = 0"
  "rePaths (open_editor ps roles sources) = []" "deletedAppliedKeys (open_editor ps roles sources) = []"
  "propertyRoles (open_editor ps roles sources) = copyProfilePropertyRoles roles" "primarySources (open_editor ps roles sources) = sources"
  using wf_opened [of ps]
  by (simp_all add: open_editor_def transformSchema_def flatten_top_entries opened_properties_def [symmetric])

lemma opened_get:
  assumes "wf_properties ps" "obj_get (opened_schema ps) k = Some q"
  obtains ns p where "k = path_of ns" "no_dots ns" "ns \<noteq> []" "lookup_path (opened_properties ps) ns = Some p"
    "q = editableProperty p (length ns - 1) (hd ns)" "ep_name q = last ns" "\<not> ep_isEditable q"
proof -
  have entry: "(k, q) \<in> set (opened_schema ps)" using assms(2) by (simp add: obj_get_def map_of_SomeD)
  obtain ns p where ns: "k = path_of ns" "no_dots ns" "ns \<noteq> []" "lookup_path (opened_properties ps) ns = Some p"
    "q = editableProperty p (length ns - 1) (hd ns)"
    using tree_pathD [OF entry wf_opened [OF assms(1)]] by blast
  moreover have "ep_name q = last ns" "\<not> ep_isEditable q"
    using ns(5) lookup_path_name [OF ns(4)] by (simp_all add: editableProperty_def)
  ultimately show thesis by (rule that)
qed

lemma path_not_empty: "ns \<noteq> [] \<Longrightarrow> [] \<notin> set ns \<Longrightarrow> path_of ns \<noteq> []"
  by (cases ns; cases "tl ns") auto

lemma opened_ok:
  assumes wf: "wf_properties ps" "names_nonempty ps"
  shows "editable_ok (opened_schema ps)"
proof -
  let ?ps = "opened_properties ps"
  note wf' = wf_opened [OF wf(1)]
  have full: "[] \<notin> set ns" if "lookup_path ?ps ns = Some p" for ns p
    using that lookup_path_nonempty [OF _ names_opened [OF wf(2)], of ns] by simp
  have "nested_in_objects (opened_schema ps)"
    unfolding nested_in_objects_def
  proof (intro ballI impI)
    fix k assume k: "k \<in> set (obj_keys (opened_schema ps))" and dot: "46 \<in> set k"
    then obtain q where "obj_get (opened_schema ps) k = Some q" by (auto simp: in_obj_keys)
    then obtain ns p where ns: "k = path_of ns" "no_dots ns" "ns \<noteq> []" "lookup_path ?ps ns = Some p"
      by (rule opened_get [OF wf(1)])
    define m where "m = butlast ns"
    define w where "w = last ns"
    have mw: "ns = m @ [w]" using ns(3) by (simp add: m_def w_def)
    have m: "m \<noteq> []" using ns(1,2) dot mw by (cases m) auto
    obtain p' where p': "lookup_path ?ps m = Some p'" "kind_of (p_type p') = KObject"
      using lookup_path_append_Some [of ?ps m "[w]"] ns(4) wf' m by (auto simp: mw)
    have "getParentPropertyKey k = path_of m" using getParentPropertyKey_path [OF ns(2,3)] by (simp add: ns(1) mw)
    moreover have "obj_get (opened_schema ps) (path_of m) = Some (path_entry editableProperty [] m p')"
      using obj_get_flat_entries [OF wf', of "[]" m editableProperty] p'(1) mw m ns(2) by simp
    ultimately show "\<exists>q. obj_get (opened_schema ps) (getParentPropertyKey k) = Some q \<and> kind_of (ep_type q) = KObject"
      using p'(2) by (simp add: path_entry_def editableProperty_def)
  qed
  moreover have "names_plain (opened_schema ps)"
    unfolding names_plain_def
  proof (intro allI impI)
    fix k q assume "obj_get (opened_schema ps) k = Some q"
    then obtain ns p where ns: "k = path_of ns" "no_dots ns" "ns \<noteq> []" "lookup_path ?ps ns = Some p" "ep_name q = last ns"
      by (rule opened_get [OF wf(1)])
    have "last ns \<in> set ns" using ns(3) by simp
    then show "k \<noteq> [] \<and> ep_name q \<noteq> [] \<and> 46 \<notin> set (ep_name q)"
      using ns path_not_empty [OF ns(3) full [OF ns(4)]] full [OF ns(4)] unfolding no_dots_def by metis
  qed
  moreover have "sibling_names_unique (opened_schema ps)"
    unfolding sibling_names_unique_def
  proof (intro allI impI, elim conjE)
    fix x y :: jsstr and a b :: editable_property
    assume xy: "getParentPropertyKey x = getParentPropertyKey y" "ep_name a = ep_name b"
    assume "obj_get (opened_schema ps) x = Some a"
    then obtain ns p where ns: "x = path_of ns" "no_dots ns" "ns \<noteq> []" "lookup_path ?ps ns = Some p" "ep_name a = last ns"
      by (rule opened_get [OF wf(1)])
    assume "obj_get (opened_schema ps) y = Some b"
    then obtain ms r where ms: "y = path_of ms" "no_dots ms" "ms \<noteq> []" "lookup_path ?ps ms = Some r" "ep_name b = last ms"
      by (rule opened_get [OF wf(1)])
    have parents: "path_of (butlast ns) = path_of (butlast ms)"
      using xy(1) getParentPropertyKey_path [OF ns(2,3)] getParentPropertyKey_path [OF ms(2,3)] by (simp add: ns(1) ms(1))
    have sub: "no_dots (butlast ns)" "no_dots (butlast ms)" "[] \<notin> set (butlast ns)" "[] \<notin> set (butlast ms)"
      using ns(2) ms(2) full [OF ns(4)] full [OF ms(4)] by (auto simp: no_dots_def dest: in_set_butlastD)
    have "butlast ns = butlast ms"
    proof (cases "butlast ns = [] \<or> butlast ms = []")
      case True
      then show ?thesis using parents sub path_not_empty by (metis join_with.simps(1))
    next
      case False
      then show ?thesis using path_of_inj [OF sub(1,2)] parents by simp
    qed
    then have "ns = ms" using xy(2) ns(3,5) ms(3,5) by (metis append_butlast_last_id)
    then show "x = y" by (simp add: ns(1) ms(1))
  qed
  ultimately show ?thesis using distinct_flat_entries [OF wf', of "[]"] by (simp add: editable_ok_def)
qed

subsection \<open>Every reachable schema is well formed\<close>

lemma is_object_keyD: "is_object_key s k \<Longrightarrow> \<exists>q. obj_get s k = Some q \<and> kind_of (ep_type q) = KObject"
  by (auto simp: is_object_key_def split: option.splits)

lemma onAddProperty_ok:
  assumes ok: "editable_ok (editableSchema st)" and name: "validatePropertyName (pe_name p) = Inr ()"
    and parent: "pe_parentKey p = [] \<or> is_object_key (editableSchema st) (pe_parentKey p)"
    and step: "onAddProperty st p source role sel = Inr (st', k)"
  shows "editable_ok (editableSchema st')" "getParentPropertyKey k = pe_parentKey p"
proof -
  note spec = onAddProperty_spec [OF step editable_ok_distinct [OF ok]]
  obtain t where get: "\<And>x. obj_get (editableSchema st') x = (if x = k then Some (added_property p t) else obj_get (editableSchema st) x)"
    using spec(4) by blast
  obtain w where w: "k = (if pe_parentKey p \<noteq> [] then pe_parentKey p @ 46 # pe_name p else pe_name p) @ w" "46 \<notin> set w"
    using spec(6) by blast
  note plain = validatePropertyName_ok [OF name]
  have "46 \<notin> set (pe_name p @ w)" using plain w(2) by simp
  then show k: "getParentPropertyKey k = pe_parentKey p"
    using parent_append [of "pe_name p @ w" "pe_parentKey p"] parent_plain [of "pe_name p @ w"] by (simp add: w(1))
  have dots: "46 \<in> set k \<Longrightarrow> pe_parentKey p \<noteq> []" using plain w by auto
  show "editable_ok (editableSchema st')"
  proof (rule editable_ok_add [OF ok spec(1,2) get], goal_cases)
    case 1 then show ?case using spec(5) by (simp add: k added_property_def)
  next
    case 2 then show ?case using plain by (simp add: w(1))
  next
    case 5 then show ?case using dots parent is_object_keyD by (auto simp: k)
  qed (use plain in \<open>simp_all add: added_property_def\<close>)
qed

lemma onEditProperty_ok:
  assumes ok: "editable_ok (editableSchema st)" and name: "name_accepted st k p"
    and step: "onEditProperty st k p source role un = Inr st'"
  shows "editable_ok (editableSchema st')"
  using step
proof (rule onEditProperty_spec)
  fix current t nested s
  assume k: "obj_get (editableSchema st) k = Some current"
    and nested: "nested = (if kind_of (ep_type current) = KObject \<and> kind_of t \<noteq> KObject
               then filter (\<lambda>d. starts_with d (k @ [46])) (obj_keys (editableSchema st)) else [])"
    and keys: "obj_keys (editableSchema st') = filter (\<lambda>x. x \<notin> set nested) (obj_keys (editableSchema st))"
    and get: "\<And>x. obj_get (editableSchema st') x =
       (if x \<in> set nested then None else if x = k then Some (edited_property current p t)
        else map_option (\<lambda>q. if pe_name p \<noteq> ep_name current \<and> kind_of t = KObject \<and> ep_root q = ep_name current
                             then q\<lparr>ep_root := pe_name p\<rparr> else q) (obj_get (editableSchema st) x))"
    and free: "pe_name p \<noteq> ep_name current \<Longrightarrow> \<not> name_taken (editableSchema st) (getParentPropertyKey k) (pe_name p)"
  have parts: "map_option ep_name (obj_get (editableSchema st') x) = (if x = k then Some (pe_name p) else map_option ep_name (obj_get (editableSchema st) x))"
    "map_option ep_type (obj_get (editableSchema st') x) = (if x = k then Some t else map_option ep_type (obj_get (editableSchema st) x))"
    if "x \<notin> set nested" for x
    using that by (cases "obj_get (editableSchema st) x"; simp add: get edited_property_def)+
  show ?thesis
  proof (rule editable_ok_change [OF ok k keys, where p' = "edited_property current p t"], goal_cases)
    case (1 x)
    then show ?case using nested_closed [of x k] by (auto simp: nested split: if_splits)
  next
    case (2 x)
    then have "starts_with x (k @ [46])" using child_nested by metis
    moreover from this have "kind_of (ep_type current) = KObject" using object_of_nested [OF ok 2(1), of k] k by auto
    ultimately show ?case using 2 by (auto simp: nested edited_property_def split: if_splits)
  next
    case 5
    then have "pe_name p \<noteq> ep_name current" by (simp add: edited_property_def)
    then show ?case using free name k by (auto simp: edited_property_def name_accepted_def dest: validatePropertyName_ok)
  qed (use parts in \<open>simp_all add: edited_property_def\<close>)
qed

lemma onRemoveProperty_ok:
  assumes ok: "editable_ok (editableSchema st)" and step: "onRemoveProperty st k isFiltered = Inr (st', next)"
  shows "editable_ok (editableSchema st')"
  using step
proof (rule onRemoveProperty_spec)
  fix current path nested
  assume k: "obj_get (editableSchema st) k = Some current"
    and nested: "nested = (if kind_of (ep_type current) = KObject then filter (\<lambda>d. starts_with d (k @ [46])) (obj_keys (editableSchema st)) else [])"
    and keys: "obj_keys (editableSchema st') = filter (\<lambda>x. x \<noteq> k \<and> x \<notin> set nested) (obj_keys (editableSchema st))"
    and get: "\<And>x. obj_get (editableSchema st') x = (if x = k \<or> x \<in> set nested then None else obj_get (editableSchema st) x)"
  have below: "x \<in> set nested" if "x \<in> set (obj_keys (editableSchema st))" "starts_with x (k @ [46])" for x
    using that object_of_nested [OF ok that] k by (auto simp: nested)
  show ?thesis
  proof (rule editable_ok_change [OF ok k, where N = "insert k (set nested)" and p' = current], goal_cases)
    case 1 then show ?case by (simp add: keys)
  next
    case (2 x)
    then have "starts_with x (k @ [46])" using nested_closed [of x k] by (auto simp: nested split: if_splits)
    with below 2 show ?case by simp
  next
    case (3 x)
    then have "starts_with x (k @ [46])" using child_nested by metis
    with below 3 show ?case by simp
  qed (simp_all add: get)
qed

lemma onSortRow_ok:
  assumes ok: "editable_ok (editableSchema st)"
  shows "editable_ok (editableSchema (onSortRow overRow moved (st :: schema_editor)))"
proof -
  note distinct = editable_ok_distinct [OF ok]
  have same: "editable_ok s" if keys: "obj_keys s = reordered_keys overRow moved (obj_keys (editableSchema st))"
    and get: "\<forall>x. obj_get s x = obj_get (editableSchema st) x" for s
  proof -
    have get': "obj_get s = obj_get (editableSchema st)" using get by (intro ext) simp
    have keys': "set (obj_keys s) = set (obj_keys (editableSchema st))" "distinct (obj_keys s)"
      unfolding keys using reordered_keys_perm [OF distinct, of overRow moved] by simp_all
    show ?thesis
      using ok keys'(2) unfolding editable_ok_def nested_in_objects_def names_plain_def sibling_names_unique_def get' keys'(1) by (elim conjE) (intro conjI; assumption)
  qed
  from onSortRow_spec [OF distinct, of overRow moved] show ?thesis
  proof
    assume "onSortRow overRow moved st = st"
    then show ?thesis using ok by simp
  next
    assume "\<exists>s. onSortRow overRow moved st = st\<lparr>editableSchema := s,
           moveHistory := obj_set (moveHistory st) moved (nextMoveSequence st + 1), nextMoveSequence := nextMoveSequence st + 1\<rparr> \<and>
         obj_keys s = reordered_keys overRow moved (obj_keys (editableSchema st)) \<and>
         (\<forall>x. obj_get s x = obj_get (editableSchema st) x) \<and> moved \<in> set (obj_keys (editableSchema st))"
    then obtain s where s: "editableSchema (onSortRow overRow moved st) = s"
      "obj_keys s = reordered_keys overRow moved (obj_keys (editableSchema st))" "\<forall>x. obj_get s x = obj_get (editableSchema st) x"
      by auto
    show ?thesis unfolding s(1) using s(2,3) by (rule same)
  qed
qed

lemma reachable_editable_ok:
  assumes "schema_editor_reachable careful ps roles sources st" "wf_properties ps" "names_nonempty ps"
  shows "editable_ok (editableSchema st)"
  using assms
proof (induction rule: schema_editor_reachable.induct)
  case opened
  then show ?case by (simp add: open_editor_fields opened_ok)
next
  case (added st p source role selected st' k)
  then show ?case using onAddProperty_ok(1) parent_chosenD by blast
next
  case (edited st k p un source role st')
  then show ?case using onEditProperty_ok by blast
next
  case (removed st k isFiltered st' "next")
  then show ?case using onRemoveProperty_ok by blast
next
  case (sorted st overRow moved)
  then show ?case using onSortRow_ok by blast
qed

end
