(* ===== verification/Schema_Editor_Invariants.thy ===== *)
theory Schema_Editor_Invariants
  imports Schema_Editor_States
begin

section \<open>Roles, sources and moves in the schema editor\<close>

text \<open>
  Invariants of the reachable states: roles and primary sources are always those of existing properties, only
  properties the user moved are marked as reordered, and no operation fails on a reachable state.
\<close>

subsection \<open>Roles and primary sources\<close>

definition references_ok :: "schema_editor \<Rightarrow> bool" where
  "references_ok st \<longleftrightarrow>
     (\<forall>r. propertyRoles st r \<noteq> [] \<longrightarrow> obj_get (editableSchema st) (propertyRoles st r) \<noteq> None) \<and>
     (\<forall>r s. propertyRoles st r \<noteq> [] \<and> propertyRoles st r = propertyRoles st s \<longrightarrow> r = s) \<and>
     (\<forall>k v. obj_get (primarySources st) k = Some v \<longrightarrow> v \<noteq> [] \<and> obj_get (editableSchema st) k \<noteq> None)"

lemma update_roles_ok:
  fixes role :: "profile_role option"
  assumes "\<And>r. a r \<noteq> [] \<Longrightarrow> a r \<noteq> k \<Longrightarrow> r \<notin> set un \<Longrightarrow> obj_get s (a r) \<noteq> None" "obj_get s k \<noteq> None"
    and "\<And>r s. a r \<noteq> [] \<Longrightarrow> a r = a s \<Longrightarrow> r = s"
  defines "b \<equiv> updateProfilePropertyRoleAssignment a k role un"
  shows "(b r \<noteq> [] \<longrightarrow> obj_get s (b r) \<noteq> None) \<and> (b r \<noteq> [] \<and> b r = b r' \<longrightarrow> r = r')"
  using assms(1,2) assms(3) [of r r'] by (auto simp: b_def updateProfilePropertyRoleAssignment_eq split: if_splits)

lemma set_source_get: "obj_get (set_source source k m) x =
    (case source of None \<Rightarrow> obj_get m x | Some s \<Rightarrow> if s \<noteq> [] \<and> x = k then Some s else obj_get m x)"
  by (auto simp: set_source_def split: option.splits)

lemma references_add:
  assumes ok: "editable_ok (editableSchema st)" and inv: "references_ok st"
    and step: "onAddProperty st p source role sel = Inr (st', k)"
  shows "references_ok st'"
proof -
  note spec = onAddProperty_spec [OF step editable_ok_distinct [OF ok]]
  obtain t where get: "\<And>x. obj_get (editableSchema st') x = (if x = k then Some (added_property p t) else obj_get (editableSchema st) x)"
    using spec(4) by blast
  have "(propertyRoles st' r \<noteq> [] \<longrightarrow> obj_get (editableSchema st') (propertyRoles st' r) \<noteq> None) \<and>
      (propertyRoles st' r \<noteq> [] \<and> propertyRoles st' r = propertyRoles st' r' \<longrightarrow> r = r')" for r r'
    unfolding spec(11) by (rule update_roles_ok) (use inv get in \<open>auto simp: references_ok_def\<close>)
  then show ?thesis
    using inv unfolding references_ok_def spec(12) by (auto simp: get set_source_get split: option.splits if_splits)
qed

lemma references_edit:
  assumes ok: "editable_ok (editableSchema st)" and inv: "references_ok st" and un: "descendant_roles_unassigned st k p un"
    and step: "onEditProperty st k p source role un = Inr st'"
  shows "references_ok st'"
  using step
proof (rule onEditProperty_spec)
  fix current t nested s
  assume k: "obj_get (editableSchema st) k = Some current" and t: "pe_type p = Some t"
    and nested: "nested = (if kind_of (ep_type current) = KObject \<and> kind_of t \<noteq> KObject
               then filter (\<lambda>d. starts_with d (k @ [46])) (obj_keys (editableSchema st)) else [])"
    and get: "\<And>x. obj_get (editableSchema st') x =
       (if x \<in> set nested then None else if x = k then Some (edited_property current p t)
        else map_option (\<lambda>q. if pe_name p \<noteq> ep_name current \<and> kind_of t = KObject \<and> ep_root q = ep_name current
                             then q\<lparr>ep_root := pe_name p\<rparr> else q) (obj_get (editableSchema st) x))"
    and roles: "propertyRoles st' = updateProfilePropertyRoleAssignment (propertyRoles st) k role un"
    and sources: "primarySources st' = foldl obj_delete (if source = None \<or> source = Some [] then drop_source k (primarySources st)
                                            else set_source source k (primarySources st)) nested"
  have k': "k \<notin> set nested" by (auto simp: nested starts_with_iff)
  have kept: "obj_get (editableSchema st') x \<noteq> None" if "obj_get (editableSchema st) x \<noteq> None" "x \<notin> set nested" for x
    using that by (auto simp: get)
  have un': "r \<in> set un" if "propertyRoles st r \<in> set nested" for r
    using un t that by (auto simp: descendant_roles_unassigned_def nested list_all_iff js_Cons split: if_splits)
  have "(propertyRoles st' r \<noteq> [] \<longrightarrow> obj_get (editableSchema st') (propertyRoles st' r) \<noteq> None) \<and>
      (propertyRoles st' r \<noteq> [] \<and> propertyRoles st' r = propertyRoles st' r' \<longrightarrow> r = r')" for r r'
    unfolding roles
  proof (rule update_roles_ok)
    show "obj_get (editableSchema st') k \<noteq> None" using k k' by (intro kept) simp_all
    show "obj_get (editableSchema st') (propertyRoles st r) \<noteq> None" if "propertyRoles st r \<noteq> []" "r \<notin> set un" for r
      using that un' [of r] inv by (intro kept) (auto simp: references_ok_def)
  qed (use inv in \<open>auto simp: references_ok_def\<close>)
  moreover have "v \<noteq> [] \<and> obj_get (editableSchema st') x \<noteq> None" if "obj_get (primarySources st') x = Some v" for x v
  proof -
    have x: "x \<notin> set nested" using that by (auto simp: sources fold_delete)
    then have "obj_get (if source = None \<or> source = Some [] then drop_source k (primarySources st)
        else set_source source k (primarySources st)) x = Some v"
      using that unfolding sources fold_delete by (simp only: if_False)
    then have "v \<noteq> [] \<and> obj_get (editableSchema st) x \<noteq> None"
      using inv k by (auto simp: references_ok_def drop_source_get set_source_get split: if_splits option.splits)
    with kept x show ?thesis by blast
  qed
  ultimately show ?thesis unfolding references_ok_def by blast
qed

lemma references_remove:
  assumes ok: "editable_ok (editableSchema st)" and inv: "references_ok st"
    and step: "onRemoveProperty st k isFiltered = Inr (st', next)"
  shows "references_ok st'"
  using step
proof (rule onRemoveProperty_spec)
  fix current path nested
  assume nested: "nested = (if kind_of (ep_type current) = KObject then filter (\<lambda>d. starts_with d (k @ [46])) (obj_keys (editableSchema st)) else [])"
    and get: "\<And>x. obj_get (editableSchema st') x = (if x = k \<or> x \<in> set nested then None else obj_get (editableSchema st) x)"
    and roles: "propertyRoles st' = clearProfilePropertyRoles (propertyRoles st) k"
    and sources: "\<And>x. obj_get (primarySources st') x =
       (if (x = k \<or> x \<in> set nested) \<and> obj_get (primarySources st) x \<noteq> Some [] then None else obj_get (primarySources st) x)"
  have "x \<in> set nested \<Longrightarrow> starts_with x (k @ [46])" for x by (auto simp: nested split: if_splits)
  then show ?thesis
    using inv unfolding references_ok_def roles clearProfilePropertyRoles_eq
    by (auto simp: get sources js_Cons split: if_splits)
qed

lemma references_sort:
  assumes ok: "editable_ok (editableSchema st)" and inv: "references_ok st"
  shows "references_ok (onSortRow overRow moved st)"
proof -
  have same: "obj_get (editableSchema (onSortRow overRow moved st)) = obj_get (editableSchema st)"
      "propertyRoles (onSortRow overRow moved st) = propertyRoles st" "primarySources (onSortRow overRow moved st) = primarySources st"
    using onSortRow_spec [OF editable_ok_distinct [OF ok], of overRow moved] by (auto simp: fun_eq_iff)
  show ?thesis using inv unfolding references_ok_def same .
qed

lemma reachable_references:
  assumes "schema_editor_reachable careful ps roles sources st" "wf_properties ps" "names_nonempty ps"
    and "references_ok (open_editor ps roles sources)"
  shows "references_ok st"
  using assms
proof (induction rule: schema_editor_reachable.induct)
  case (added st p source role selected st' k)
  then show ?case using references_add [OF reachable_editable_ok [OF added.hyps(1)]] by blast
next
  case (edited st k p un source role st')
  then show ?case using references_edit [OF reachable_editable_ok [OF edited.hyps(1)]] by blast
next
  case (removed st k isFiltered st' "next")
  then show ?case using references_remove [OF reachable_editable_ok [OF removed.hyps(1)]] by blast
next
  case (sorted st overRow moved)
  then show ?case using references_sort [OF reachable_editable_ok [OF sorted.hyps(1)]] by blast
qed simp

text \<open>
  If the editor is opened with roles and primary sources of existing properties, one role for each, then in
  every reachable state every role and every primary source is that of an existing property, and no property has two roles.
\<close>

theorem roles_and_sources_of_existing_properties:
  assumes "schema_editor_reachable careful ps roles sources st" "wf_properties ps" "names_nonempty ps"
    and "references_ok (open_editor ps roles sources)"
  shows "references_ok st"
  by (rule reachable_references [OF assms])

subsection \<open>Reordered properties\<close>

definition unmoved_siblings :: "schema_editor \<Rightarrow> editable_schema \<Rightarrow> jsstr \<Rightarrow> jsstr list \<Rightarrow> jsstr list" where
  "unmoved_siblings st ini p keys = filter (\<lambda>k. \<not> is_moved (moveHistory st) k) (kept_siblings (editableSchema st) ini p keys)"

definition moves_ok :: "editable_schema \<Rightarrow> schema_editor \<Rightarrow> bool" where
  "moves_ok ini st \<longleftrightarrow> numbered (moveHistory st) \<and> (\<forall>k n. obj_get (moveHistory st) k = Some n \<longrightarrow> n \<le> nextMoveSequence st) \<and>
     (\<forall>p. unmoved_siblings st ini p (obj_keys ini) = unmoved_siblings st ini p (obj_keys (editableSchema st)))"

text \<open>A step keeps the order of the siblings that are neither moved nor removed nor new.\<close>

lemma unmoved_step:
  assumes old: "unmoved_siblings st ini p (obj_keys ini) = unmoved_siblings st ini p (obj_keys (editableSchema st))"
    and surv: "surviving_keys (editableSchema st') ini \<subseteq> surviving_keys (editableSchema st) ini"
    and moved: "\<And>k. is_moved (moveHistory st) k \<Longrightarrow> is_moved (moveHistory st') k"
    and same: "unmoved_siblings st' ini p (obj_keys (editableSchema st)) = unmoved_siblings st' ini p (obj_keys (editableSchema st'))"
  shows "unmoved_siblings st' ini p (obj_keys ini) = unmoved_siblings st' ini p (obj_keys (editableSchema st'))"
proof -
  have narrow: "unmoved_siblings st' ini p (unmoved_siblings st ini p keys) = unmoved_siblings st' ini p keys" for keys
    using surv moved by (auto simp: unmoved_siblings_def kept_siblings_def siblings_def intro!: filter_cong)
  show ?thesis using narrow [of "obj_keys ini"] narrow [of "obj_keys (editableSchema st)"] old same by simp
qed

lemma unmoved_filter:
  assumes "\<And>k. k \<in> surviving_keys (editableSchema st') ini \<Longrightarrow> P k"
  shows "unmoved_siblings st' ini p (filter P keys) = unmoved_siblings st' ini p keys"
  using assms by (auto simp: unmoved_siblings_def kept_siblings_def siblings_def intro!: filter_cong)

lemma surviving_iff:
  "k \<in> surviving_keys cur ini \<longleftrightarrow> k \<in> set (obj_keys ini) \<and> (\<exists>p. obj_get cur k = Some p \<and> \<not> ep_isEditable p)"
  by (auto simp: surviving_keys_def in_obj_keys split: option.splits)

lemma moves_ok_plain:
  assumes inv: "moves_ok ini st" and hist: "moveHistory st' = moveHistory st" "nextMoveSequence st' = nextMoveSequence st"
    and surv: "surviving_keys (editableSchema st') ini \<subseteq> surviving_keys (editableSchema st) ini"
    and keys: "\<And>p. unmoved_siblings st' ini p (obj_keys (editableSchema st)) = unmoved_siblings st' ini p (obj_keys (editableSchema st'))"
  shows "moves_ok ini st'"
  using inv unmoved_step [of st ini _ st', OF _ surv _ keys] by (simp add: moves_ok_def hist)

lemma moves_add:
  assumes ok: "editable_ok (editableSchema st)" and inv: "moves_ok ini st"
    and step: "onAddProperty st p source role sel = Inr (st', k)"
  shows "moves_ok ini st'"
proof -
  note spec = onAddProperty_spec [OF step editable_ok_distinct [OF ok]]
  obtain t where get: "\<And>x. obj_get (editableSchema st') x = (if x = k then Some (added_property p t) else obj_get (editableSchema st) x)"
    using spec(4) by blast
  have surv: "x \<noteq> k \<and> x \<in> surviving_keys (editableSchema st) ini" if "x \<in> surviving_keys (editableSchema st') ini" for x
    using that by (auto simp: surviving_iff get added_property_def split: if_splits)
  show ?thesis
  proof (rule moves_ok_plain [OF inv spec(9,10)])
    show "unmoved_siblings st' ini q (obj_keys (editableSchema st)) = unmoved_siblings st' ini q (obj_keys (editableSchema st'))" for q
      using unmoved_filter [of st' ini "\<lambda>x. x \<noteq> k" q "obj_keys (editableSchema st')"] surv by (simp add: spec(3))
  qed (use surv in blast)
qed

lemma moves_edit:
  assumes inv: "moves_ok ini st" and step: "onEditProperty st k p source role un = Inr st'"
  shows "moves_ok ini st'"
  using step
proof (rule onEditProperty_spec)
  fix current t nested s
  assume k: "obj_get (editableSchema st) k = Some current"
    and keys: "obj_keys (editableSchema st') = filter (\<lambda>x. x \<notin> set nested) (obj_keys (editableSchema st))"
    and get: "\<And>x. obj_get (editableSchema st') x =
       (if x \<in> set nested then None else if x = k then Some (edited_property current p t)
        else map_option (\<lambda>q. if pe_name p \<noteq> ep_name current \<and> kind_of t = KObject \<and> ep_root q = ep_name current
                             then q\<lparr>ep_root := pe_name p\<rparr> else q) (obj_get (editableSchema st) x))"
    and hist: "moveHistory st' = moveHistory st" "nextMoveSequence st' = nextMoveSequence st"
  have surv: "x \<notin> set nested \<and> x \<in> surviving_keys (editableSchema st) ini" if "x \<in> surviving_keys (editableSchema st') ini" for x
    using that k by (auto simp: surviving_iff get edited_property_def split: if_splits)
  show ?thesis
    by (rule moves_ok_plain [OF inv hist]) (use surv unmoved_filter [of st' ini "\<lambda>x. x \<notin> set nested"] in \<open>auto simp: keys\<close>)
qed

lemma moves_remove:
  assumes inv: "moves_ok ini st" and step: "onRemoveProperty st k isFiltered = Inr (st', next)"
  shows "moves_ok ini st'"
  using step
proof (rule onRemoveProperty_spec)
  fix current path nested
  assume keys: "obj_keys (editableSchema st') = filter (\<lambda>x. x \<noteq> k \<and> x \<notin> set nested) (obj_keys (editableSchema st))"
    and get: "\<And>x. obj_get (editableSchema st') x = (if x = k \<or> x \<in> set nested then None else obj_get (editableSchema st) x)"
    and hist: "moveHistory st' = moveHistory st" "nextMoveSequence st' = nextMoveSequence st"
  have surv: "(x \<noteq> k \<and> x \<notin> set nested) \<and> x \<in> surviving_keys (editableSchema st) ini" if "x \<in> surviving_keys (editableSchema st') ini" for x
    using that by (auto simp: surviving_iff get split: if_splits)
  show ?thesis
    by (rule moves_ok_plain [OF inv hist]) (use surv unmoved_filter [of st' ini "\<lambda>x. x \<noteq> k \<and> x \<notin> set nested"] in \<open>auto simp: keys\<close>)
qed

lemma moves_sort:
  assumes ok: "editable_ok (editableSchema st)" and inv: "moves_ok ini st"
  shows "moves_ok ini (onSortRow overRow m st)"
proof -
  let ?h = "obj_set (moveHistory st) m (nextMoveSequence st + 1)"
  have moved: "moves_ok ini st'" if st': "st' = st\<lparr>editableSchema := s, moveHistory := ?h, nextMoveSequence := nextMoveSequence st + 1\<rparr>"
    and keys: "obj_keys s = reordered_keys overRow m (obj_keys (editableSchema st))"
    and get: "\<forall>x. obj_get s x = obj_get (editableSchema st) x" and m: "m \<in> set (obj_keys (editableSchema st))" for s st'
  proof -
    have m': "m \<noteq> []" using m editable_ok_plain [OF ok, of m] by (auto simp: in_obj_keys)
    have surv: "surviving_keys s ini = surviving_keys (editableSchema st) ini" using get by (auto simp: surviving_iff)
    have "unmoved_siblings st' ini p keys = filter (\<lambda>x. (x \<in> surviving_keys s ini \<and> \<not> is_moved (moveHistory st) x) \<and> x \<noteq> m \<and> getParentPropertyKey x = p) keys" for p keys
      by (auto simp: unmoved_siblings_def kept_siblings_def siblings_def st' is_moved_def intro!: filter_cong)
    then have same: "unmoved_siblings st' ini p (obj_keys (editableSchema st)) = unmoved_siblings st' ini p (obj_keys (editableSchema st'))" for p
      using reordered_keys_siblings [OF m' editable_ok_distinct [OF ok], of "\<lambda>x. x \<in> surviving_keys s ini \<and> \<not> is_moved (moveHistory st) x" p overRow]
      by (simp add: st' keys)
    have "numbered ?h" using inv by (force simp: moves_ok_def numbered_def split: if_splits)
    moreover have "unmoved_siblings st' ini p (obj_keys ini) = unmoved_siblings st' ini p (obj_keys (editableSchema st'))" for p
      by (rule unmoved_step [OF _ _ _ same]) (use inv surv in \<open>auto simp: moves_ok_def st' is_moved_def\<close>)
    moreover have "\<forall>k n. obj_get ?h k = Some n \<longrightarrow> n \<le> nextMoveSequence st + 1" using inv by (auto simp: moves_ok_def le_SucI)
    ultimately show ?thesis by (simp add: moves_ok_def st')
  qed
  from onSortRow_spec [OF editable_ok_distinct [OF ok], of overRow m] show ?thesis
    using moved inv by (elim disjE exE conjE) (simp, blast)
qed

lemma reachable_moves_ok:
  assumes "schema_editor_reachable careful ps roles sources st" "wf_properties ps" "names_nonempty ps"
  shows "moves_ok (opened_schema ps) st"
  using assms
proof (induction rule: schema_editor_reachable.induct)
  case opened
  then show ?case by (simp add: moves_ok_def open_editor_fields numbered_def)
next
  case (added st p source role selected st' k)
  then show ?case using moves_add [OF reachable_editable_ok [OF added.hyps(1)]] by blast
next
  case (edited st k p un source role st')
  then show ?case using moves_edit by blast
next
  case (removed st k isFiltered st' "next")
  then show ?case using moves_remove by blast
next
  case (sorted st overRow moved)
  then show ?case using moves_sort [OF reachable_editable_ok [OF sorted.hyps(1)]] by blast
qed

text \<open>
  C25: In every reachable state, the properties the editor marks as reordered are properties that the user moved:
  adding, renaming and removing properties never marks another one.
\<close>

theorem only_moved_properties_marked:
  assumes "schema_editor_reachable careful ps roles sources st" "wf_properties ps" "names_nonempty ps"
  shows "\<exists>R. getReorderedPropertyKeys before (Some (editableSchema st)) (Some (opened_schema ps)) (moveHistory st) = Some R \<and>
    R \<subseteq> surviving_keys (editableSchema st) (opened_schema ps) \<inter> {k. is_moved (moveHistory st) k}"
proof -
  have inv: "moves_ok (opened_schema ps) st" by (rule reachable_moves_ok [OF assms])
  have "distinct (obj_keys (opened_schema ps))" by (rule editable_ok_distinct [OF opened_ok [OF assms(2,3)]])
  with marked_spec [OF editable_ok_distinct [OF reachable_editable_ok [OF assms]], of "opened_schema ps" "moveHistory st" before] inv
  show ?thesis unfolding moves_ok_def unmoved_siblings_def by blast
qed

subsection \<open>Operations succeed\<close>

lemma onAddProperty_succeeds:
  assumes "distinct (obj_keys (editableSchema st))" "\<not> is_meta_property (pe_name p)" "pe_type p = Some t"
    and "\<not> name_taken (editableSchema st) (pe_parentKey p) (pe_name p)"
  shows "\<exists>st' k. onAddProperty st p source role sel = Inr (st', k) \<and> obj_get (editableSchema st) k = None \<and>
    obj_get (editableSchema st') k = Some (added_property p t)"
proof -
  obtain st' k where step: "onAddProperty st p source role sel = Inr (st', k)"
    using assms by (auto simp: onAddProperty_def Let_def)
  from onAddProperty_spec(1,4) [OF step assms(1)] assms(3) show ?thesis
    using step by (auto simp: in_obj_keys)
qed

lemma onEditProperty_succeeds:
  assumes ok: "editable_ok (editableSchema st)" and k: "obj_get (editableSchema st) k = Some current" and t: "pe_type p = Some t"
    and free: "pe_name p = ep_name current \<or> \<not> name_taken (editableSchema st) (getParentPropertyKey k) (pe_name p)"
  shows "\<exists>st'. onEditProperty st k p source role un = Inr st' \<and> obj_get (editableSchema st') k = Some (edited_property current p t)"
proof -
  let ?ren = "pe_name p \<noteq> ep_name current"
  let ?s1 = "if ?ren \<and> kind_of t = KObject then rename_roots (ep_name current) (pe_name p) (editableSchema st) else editableSchema st"
  have "map_option ep_name (obj_get ?s1 x) = map_option ep_name (obj_get (editableSchema st) x)" for x
    by (cases "obj_get (editableSchema st) x") (simp_all add: rename_roots_spec)
  then obtain path where "getEditablePropertyPath ?s1 k = Some path"
    using editable_path_exists [OF ok, of k] editable_path_cong [of ?s1 "editableSchema st" k] k by (auto simp: in_obj_keys)
  then obtain paths where "(if ?ren then renamed_rePaths st ?s1 k current (pe_name p) else Some (rePaths st)) = Some paths"
    by (cases ?ren) (auto simp: renamed_rePaths_def Let_def)
  then obtain st' where step: "onEditProperty st k p source role un = Inr st'"
    using free by (auto simp: onEditProperty_def k t Let_def)
  show ?thesis using step
    by (rule onEditProperty_spec) (use step k t in \<open>auto simp: starts_with_iff split: if_splits\<close>)
qed

lemma onRemoveProperty_succeeds:
  assumes ok: "editable_ok (editableSchema st)" and k: "k \<in> set (obj_keys (editableSchema st))"
  shows "\<exists>st' next. onRemoveProperty st k isFiltered = Inr (st', next) \<and> obj_get (editableSchema st') k = None"
proof -
  obtain current path where "obj_get (editableSchema st) k = Some current" "getEditablePropertyPath (editableSchema st) k = Some path"
    using editable_path_exists [OF ok k] k by (auto simp: in_obj_keys)
  then obtain st' "next" where step: "onRemoveProperty st k isFiltered = Inr (st', next)"
    by (cases "onRemoveProperty st k isFiltered") (auto simp: onRemoveProperty_def Let_def)
  show ?thesis using step by (rule onRemoveProperty_spec) (use step in auto)
qed

text \<open>
  C16: In every reachable state the editor can always go on: a property that exists is removed; a property with a type
  and a name that is free among its siblings is added under a new key; a property that exists takes a name that is its
  own or free. None of these ends in an exception.
\<close>

theorem schema_editor_goes_on:
  assumes "schema_editor_reachable careful ps roles sources st" "wf_properties ps" "names_nonempty ps"
  shows "(\<forall>k isFiltered. k \<in> set (obj_keys (editableSchema st)) \<longrightarrow>
      (\<exists>st' next. onRemoveProperty st k isFiltered = Inr (st', next) \<and> obj_get (editableSchema st') k = None)) \<and>
    (\<forall>p t source role sel. \<not> is_meta_property (pe_name p) \<and> pe_type p = Some t \<and>
        \<not> name_taken (editableSchema st) (pe_parentKey p) (pe_name p) \<longrightarrow>
      (\<exists>st' k. onAddProperty st p source role sel = Inr (st', k) \<and> obj_get (editableSchema st) k = None \<and>
         obj_get (editableSchema st') k = Some (added_property p t))) \<and>
    (\<forall>k current p t source role un. obj_get (editableSchema st) k = Some current \<and> pe_type p = Some t \<and>
        (pe_name p = ep_name current \<or> \<not> name_taken (editableSchema st) (getParentPropertyKey k) (pe_name p)) \<longrightarrow>
      (\<exists>st'. onEditProperty st k p source role un = Inr st' \<and>
         obj_get (editableSchema st') k = Some (edited_property current p t)))"
proof -
  have ok: "editable_ok (editableSchema st)" by (rule reachable_editable_ok [OF assms])
  show ?thesis
    using onRemoveProperty_succeeds [OF ok] onAddProperty_succeeds [OF editable_ok_distinct [OF ok]] onEditProperty_succeeds [OF ok]
    by (intro conjI allI impI) blast+
qed

subsection \<open>Examples\<close>

text \<open>A profile with an email and an address, where the email has a role and a primary source and is renamed.\<close>

definition profile_roles :: property_roles where
  "profile_roles r = (if r = EmailRole then js ''email'' else [])"

abbreviation opened_profile :: schema_editor where
  "opened_profile \<equiv> open_editor example_schema (Some profile_roles) [(js ''email'', js ''7'')]"

definition email_to_mail :: property_to_edit where
  "email_to_mail = (newPropertyToEdit [] 0 [])\<lparr>pe_name := js ''mail'', pe_type := Some string_kind\<rparr>"

lemma opened_profile_email:
  "obj_get (editableSchema opened_profile) (js ''email'') =
     Some (editableProperty (plain_property (js ''email'') string_kind) 0 (js ''email''))"
  "\<not> name_taken (editableSchema opened_profile) [] (js ''mail'')"
  unfolding open_editor_fields(1) [OF example_schema_wf]
  by (simp_all add: opened_properties_def is_meta_property_def example_schema_simps js_simps name_taken_def
    editableProperty_def getParentPropertyKey_def)

lemma renamed_profile:
  "\<exists>st. schema_editor_reachable True example_schema (Some profile_roles) [(js ''email'', js ''7'')] st \<and>
    obj_get (editableSchema st) (js ''email'') =
      Some (edited_property (editableProperty (plain_property (js ''email'') string_kind) 0 (js ''email'')) email_to_mail string_kind)"
proof -
  have "getParentPropertyKey (js ''email'') = []" by (simp add: parent_plain js_Cons)
  then obtain st where step: "onEditProperty opened_profile (js ''email'') email_to_mail None None [] = Inr st"
    "obj_get (editableSchema st) (js ''email'') =
      Some (edited_property (editableProperty (plain_property (js ''email'') string_kind) 0 (js ''email'')) email_to_mail string_kind)"
    using onEditProperty_succeeds [OF _ opened_profile_email(1), of email_to_mail string_kind None None "[]"]
      reachable_editable_ok [OF opened example_schema_wf example_schema_names] opened_profile_email(2)
    by (auto simp: email_to_mail_def)
  have "schema_editor_reachable True example_schema (Some profile_roles) [(js ''email'', js ''7'')] st"
  proof (rule edited [OF opened _ _ _ step(1)])
    show "name_accepted opened_profile (js ''email'') email_to_mail"
      by (simp add: name_accepted_def email_to_mail_def validatePropertyName_def is_js_space_def is_digit_def is_letter_def
        is_word_char_def js_Cons)
    show "descendant_roles_unassigned opened_profile (js ''email'') email_to_mail []"
      by (simp add: descendant_roles_unassigned_def email_to_mail_def list_all_iff profile_roles_def open_editor_fields
        copyProfilePropertyRoles_def js_Cons)
  qed (simp add: careless_rename_def renamed_from_def open_editor_fields split: option.split)
  with step(2) show ?thesis by blast
qed

lemma references_opened: "references_ok opened_profile"
  by (auto simp: references_ok_def open_editor_fields(6,7) copyProfilePropertyRoles_def profile_roles_def opened_profile_email(1) obj_get_one split: if_splits)

theorem roles_and_sources_of_existing_properties_witness:
  "\<exists>st. map_option ep_name (obj_get (editableSchema st) (js ''email'')) = Some (js ''mail'') \<and> references_ok st"
proof -
  obtain st where st: "schema_editor_reachable True example_schema (Some profile_roles) [(js ''email'', js ''7'')] st"
    "obj_get (editableSchema st) (js ''email'') =
      Some (edited_property (editableProperty (plain_property (js ''email'') string_kind) 0 (js ''email'')) email_to_mail string_kind)"
    using renamed_profile by blast
  have "references_ok st"
    by (rule roles_and_sources_of_existing_properties [OF st(1) example_schema_wf example_schema_names references_opened])
  with st(2) show ?thesis by (intro exI [of _ st]) (simp add: edited_property_def email_to_mail_def)
qed

theorem only_moved_properties_marked_witness:
  "\<exists>R. getReorderedPropertyKeys (\<lambda>_ _. True) (Some (editableSchema (onSortRow (js ''email'') (js ''extra'') opened_profile)))
      (Some (opened_schema example_schema)) (moveHistory (onSortRow (js ''email'') (js ''extra'') opened_profile)) = Some R \<and>
    R \<subseteq> {k. is_moved (moveHistory (onSortRow (js ''email'') (js ''extra'') opened_profile)) k}"
  using only_moved_properties_marked [OF sorted [OF opened] example_schema_wf example_schema_names] by fast

theorem schema_editor_goes_on_witness:
  "\<exists>st next. onRemoveProperty opened_profile (js ''email'') False = Inr (st, next) \<and> obj_get (editableSchema st) (js ''email'') = None"
proof -
  have "js ''email'' \<in> set (obj_keys (editableSchema opened_profile))" by (simp add: in_obj_keys opened_profile_email(1))
  then show ?thesis
    using schema_editor_goes_on [OF opened [of True example_schema "Some profile_roles" "[(js ''email'', js ''7'')]"]
        example_schema_wf example_schema_names] by blast
qed

end
