(* ===== verification/Schema_Editor_Paths.thy ===== *)
theory Schema_Editor_Paths
  imports Schema_Editor_Invariants
begin

section \<open>The re-paths of the schema editor\<close>

text \<open>
  The server is told by the re-paths which path of the old schema each path of the new one comes from. This theory
  shows that they say it exactly, for the properties of the first level, in every state a careful user can
  reach, and gives the steps after which they do not.
\<close>

subsection \<open>What the re-paths must say\<close>

text \<open>
  \<open>ini\<close> are the names of the opened schema, \<open>V\<close> gives the name of the property at a key and whether it is new,
  \<open>P\<close> are the re-paths and \<open>D\<close> the keys of the deleted properties.
\<close>

definition paths_say :: "jsstr set \<Rightarrow> (jsstr \<Rightarrow> (jsstr \<times> bool) option) \<Rightarrow> (jsstr \<Rightarrow> jsstr option option) \<Rightarrow> jsstr set \<Rightarrow> bool" where
  "paths_say ini V P D \<longleftrightarrow>
     (\<forall>k l n d e. V k = Some (n, d) \<and> V l = Some (n, e) \<longrightarrow> k = l) \<and>
     (\<forall>n k. P n = Some (Some k) \<longleftrightarrow> V k = Some (n, False) \<and> n \<noteq> k) \<and>
     (\<forall>n. P n = Some None \<longleftrightarrow> n \<in> ini \<and> (\<exists>k. V k = Some (n, True))) \<and>
     (\<forall>k n. V k = Some (n, False) \<longrightarrow> k \<in> ini) \<and>
     (\<forall>k. k \<in> D \<longleftrightarrow> k \<in> ini \<and> (\<forall>n. V k \<noteq> Some (n, False)))"

lemma paths_sayD:
  assumes "paths_say ini V P D"
  shows paths_say_inj: "V k = Some (n, d) \<Longrightarrow> V l = Some (n, e) \<Longrightarrow> k = l"
    and paths_say_renamed: "P n = Some (Some k) \<longleftrightarrow> V k = Some (n, False) \<and> n \<noteq> k"
    and paths_say_null: "P n = Some None \<longleftrightarrow> n \<in> ini \<and> (\<exists>k. V k = Some (n, True))"
    and paths_say_applied: "V k = Some (n, False) \<Longrightarrow> k \<in> ini"
    and paths_say_deleted: "k \<in> D \<longleftrightarrow> k \<in> ini \<and> (\<forall>n. V k \<noteq> Some (n, False))"
  using assms unfolding paths_say_def by blast+

lemma paths_sayI:
  assumes "\<And>k l n d e. V k = Some (n, d) \<Longrightarrow> V l = Some (n, e) \<Longrightarrow> k = l"
    and "\<And>n k. P n = Some (Some k) \<longleftrightarrow> V k = Some (n, False) \<and> n \<noteq> k"
    and "\<And>n. P n = Some None \<longleftrightarrow> n \<in> ini \<and> (\<exists>k. V k = Some (n, True))"
    and "\<And>k n. V k = Some (n, False) \<Longrightarrow> k \<in> ini"
    and "\<And>k. k \<in> D \<longleftrightarrow> k \<in> ini \<and> (\<forall>n. V k \<noteq> Some (n, False))"
  shows "paths_say ini V P D"
  using assms unfolding paths_say_def by blast

lemma ex_upd: "(\<exists>l. (V(k \<mapsto> x)) l = Some y) \<longleftrightarrow> x = y \<or> (\<exists>l. l \<noteq> k \<and> V l = Some y)"
  and ex_del: "(\<exists>l. (V(k := None)) l = Some y) \<longleftrightarrow> (\<exists>l. l \<noteq> k \<and> V l = Some y)"
  by (auto split: if_splits)

lemma paths_say_others:
  assumes "paths_say ini V P D" and "V k = Some (n, e)"
  shows "(\<exists>l. l \<noteq> k \<and> V l = Some (m, True)) \<longleftrightarrow> m \<noteq> n \<and> (\<exists>l. V l = Some (m, True))"
  using paths_say_inj [OF assms(1) _ assms(2)] assms(2) by (metis option.inject prod.inject)

lemma paths_say_own:
  assumes "paths_say ini V P D" and "V k = Some (n, e)"
  shows "P m = Some (Some k) \<Longrightarrow> m = n" and "P n = Some (Some j) \<Longrightarrow> j = k"
  using paths_say_renamed [OF assms(1), of m k] paths_say_renamed [OF assms(1), of n j]
    paths_say_inj [OF assms(1) _ assms(2), of j False] assms(2) by simp_all

lemma paths_say_free:
  assumes "paths_say ini V P D" and "\<And>l e. V l \<noteq> Some (n, e)"
  shows "P n = None"
  using paths_say_renamed [OF assms(1), of n] paths_say_null [OF assms(1), of n] assms(2)
  by (metis option.exhaust)

text \<open>The names that need a path are those of the properties the schema had.\<close>

lemma paths_say_taken:
  assumes "paths_say ini V P D" and "\<And>l e. V l \<noteq> Some (n, e)"
  shows "n \<in> D \<or> (\<exists>m. P m = Some (Some n)) \<longleftrightarrow> n \<in> ini"
  using paths_say_deleted [OF assms(1), of n] paths_say_renamed [OF assms(1), of _ n]
    paths_say_applied [OF assms(1), of n] assms(2) by metis

lemma paths_say_remove:
  assumes say: "paths_say ini V P D" and k: "V k = Some (n, e)"
  shows "paths_say ini (V(k := None)) (\<lambda>m. if m = n \<or> P m = Some (Some k) then None else P m) (if e then D else insert k D)"
proof (rule paths_sayI, goal_cases)
  case (1 j l m d f)
  then have "V j = Some (m, d)" "V l = Some (m, f)" by (simp_all split: if_splits)
  then show ?case by (rule paths_say_inj [OF say])
next
  case (2 m j)
  show ?case
  proof (cases "m = n")
    case True
    then show ?thesis using paths_say_inj [OF say _ k, of j False] by auto
  next
    case False
    then show ?thesis using paths_say_renamed [OF say, of m j] k by auto
  qed
next
  case (3 m) then show ?case
    unfolding ex_del paths_say_others [OF say k] using paths_say_null [OF say, of m] paths_say_renamed [OF say, of m k] k by auto
next
  case (4 j m)
  then have "V j = Some (m, False)" by (simp split: if_splits)
  then show ?case by (rule paths_say_applied [OF say])
next
  case (5 j)
  show ?case
  proof (cases "j = k")
    case True
    then show ?thesis using paths_say_deleted [OF say, of k] paths_say_applied [OF say, of k n] k by (cases e) simp_all
  next
    case False
    then show ?thesis using paths_say_deleted [OF say, of j] by simp
  qed
qed

text \<open>A property that gets a name: the path of the name says where it was before, if it is needed.\<close>

lemma paths_say_named:
  assumes say: "paths_say ini V P D" and k: "V k = None" "e \<or> k \<in> ini" "D' = (if e then D else D - {k})"
    and free: "\<And>l f. V l \<noteq> Some (n, f)"
  shows "paths_say ini (V(k \<mapsto> (n, e)))
    (if e then (if n \<in> ini then P(n \<mapsto> None) else P) else if n \<noteq> k then P(n \<mapsto> Some k) else P) D'"
proof (rule paths_sayI, goal_cases)
  case (1 j l m d f)
  show ?case
  proof (cases "m = n")
    case True
    then show ?thesis using 1 free [of j] free [of l] by (cases "j = k"; cases "l = k") simp_all
  next
    case False
    then have "V j = Some (m, d)" "V l = Some (m, f)" using 1 by (simp_all split: if_splits)
    then show ?thesis by (rule paths_say_inj [OF say])
  qed
next
  case (2 m j)
  have none: "P n = None" using say free by (rule paths_say_free)
  have "P m \<noteq> Some (Some k)" using paths_say_renamed [OF say, of m k] k(1) by simp
  then show ?case using paths_say_renamed [OF say, of m j] none k(1) free [of j False] by (cases "j = k"; cases "m = n"; cases e; cases "n = k") simp_all
next
  case (3 m)
  have none: "P n = None" using say free by (rule paths_say_free)
  have others: "(\<exists>l. l \<noteq> k \<and> V l = Some (m, True)) \<longleftrightarrow> (\<exists>l. V l = Some (m, True))" using k(1) by (metis option.distinct(1))
  show ?case unfolding ex_upd others using paths_say_null [OF say, of m] none free [of _ True] by (cases "m = n"; cases e; cases "n = k") simp_all
next
  case (4 j m) then show ?case using paths_say_applied [OF say, of j m] k by (simp split: if_splits)
next
  case (5 j) then show ?case
    using paths_say_deleted [OF say, of j] k by (cases "j = k"; cases e) simp_all
qed

lemma paths_say_rename:
  assumes say: "paths_say ini V P D" and k: "V k = Some (n0, e)" and n: "n \<noteq> n0" and free: "\<And>l f. V l \<noteq> Some (n, f)"
    and careful: "e \<Longrightarrow> n \<in> ini \<Longrightarrow> n \<in> D"
  defines "P1 \<equiv> \<lambda>m. if P m = Some (Some k) then None else P m"
  defines "P2 \<equiv> if P1 n0 = Some None then P1(n0 := None) else P1"
  shows "paths_say ini (V(k \<mapsto> (n, e)))
    (if n \<in> D then P2(n \<mapsto> (if e then None else Some k)) else if \<not> e \<and> n \<noteq> k then P2(n \<mapsto> Some k) else P2) D"
proof -
  let ?V = "V(k := None)" and ?P = "\<lambda>m. if m = n0 \<or> P m = Some (Some k) then None else P m" and ?D = "if e then D else insert k D"
  have removed: "paths_say ini ?V ?P ?D" using say k by (rule paths_say_remove)
  have "P n0 \<in> {None, Some None, Some (Some k)}"
    using paths_say_own(2) [OF say k] by (metis insertCI option.exhaust)
  then have P2: "P2 = ?P" by (auto simp: P2_def P1_def fun_eq_iff)
  have D: "\<not> e \<Longrightarrow> k \<notin> D" "\<not> e \<Longrightarrow> k \<in> ini" "n \<in> D \<Longrightarrow> n \<in> ini"
    using paths_say_deleted [OF say] paths_say_applied [OF say, of k n0] k by auto
  have named: "paths_say ini (?V(k \<mapsto> (n, e)))
      (if e then (if n \<in> ini then ?P(n \<mapsto> None) else ?P) else if n \<noteq> k then ?P(n \<mapsto> Some k) else ?P) D"
    by (rule paths_say_named [OF removed]) (use D free in \<open>auto split: if_splits\<close>)
  moreover have "n \<in> D \<Longrightarrow> \<not> e \<Longrightarrow> n \<noteq> k" using D(1) by blast
  ultimately show ?thesis unfolding P2 using D(3) careful by (cases e) (auto split: if_splits)
qed

lemma paths_say_add:
  assumes say: "paths_say ini V P D" and fresh: "V k = None" and free: "\<And>l e. V l \<noteq> Some (n, e)"
  shows "paths_say ini (V(k \<mapsto> (n, True))) (if n \<in> D \<or> (\<exists>m. P m = Some (Some n)) then P(n \<mapsto> None) else P) D"
  using paths_say_named [OF say fresh _ _ free, of True D] paths_say_taken [OF say free] by simp

subsection \<open>The operations on the re-paths\<close>

lemma obj_keys_drop_renames: "distinct (obj_keys paths) \<Longrightarrow> distinct (obj_keys (drop_renames_of k paths))"
  unfolding drop_renames_of_def obj_keys_def by (simp add: distinct_map_filter)

lemma obj_get_iff: "distinct (obj_keys o1) \<Longrightarrow> obj_get o1 k = Some v \<longleftrightarrow> (k, v) \<in> set o1"
  by (simp add: obj_get_def obj_keys_def)

lemma drop_renames_get:
  assumes "distinct (obj_keys paths)"
  shows "obj_get (drop_renames_of k paths) m = (if obj_get paths m = Some (Some k) then None else obj_get paths m)"
proof -
  have "obj_get (drop_renames_of k paths) m = Some v \<longleftrightarrow> obj_get paths m = Some v \<and> v \<noteq> Some k" for v
    unfolding obj_get_iff [OF assms] obj_get_iff [OF obj_keys_drop_renames [OF assms]] by (auto simp: drop_renames_of_def)
  then show ?thesis by (metis option.exhaust)
qed

lemma renamed_from_iff: "distinct (obj_keys paths) \<Longrightarrow> renamed_from paths k \<longleftrightarrow> (\<exists>m. obj_get paths m = Some (Some k))"
  by (force simp: renamed_from_def obj_get_iff)

lemma forget_nested_get:
  assumes "distinct (obj_keys paths)"
  shows "obj_get (foldl forget_nested paths ds) m =
    (if m \<in> set ds \<or> (\<exists>d \<in> set ds. obj_get paths m = Some (Some d)) then None else obj_get paths m)"
    "distinct (obj_keys (foldl forget_nested paths ds))"
proof -
  have "distinct (obj_keys (foldl forget_nested paths ds)) \<and> obj_get (foldl forget_nested paths ds) m =
    (if m \<in> set ds \<or> (\<exists>d \<in> set ds. obj_get paths m = Some (Some d)) then None else obj_get paths m)"
    using assms
  proof (induction ds arbitrary: paths)
    case (Cons d ds)
    have "distinct (obj_keys (obj_delete paths d))" using Cons.prems by (simp add: obj_keys_delete)
    then show ?case using Cons.IH [of "forget_nested paths d"]
      by (auto simp: forget_nested_def drop_renames_get obj_keys_drop_renames)
  qed simp
  then show "obj_get (foldl forget_nested paths ds) m =
    (if m \<in> set ds \<or> (\<exists>d \<in> set ds. obj_get paths m = Some (Some d)) then None else obj_get paths m)"
    "distinct (obj_keys (foldl forget_nested paths ds))" by simp_all
qed

lemma added_rePaths_get:
  assumes "distinct (obj_keys (rePaths st))"
  shows "obj_get (added_rePaths st k) m =
    (if m = k \<and> (k \<in> set (deletedAppliedKeys st) \<or> (\<exists>l. obj_get (rePaths st) l = Some (Some k))) then Some None else obj_get (rePaths st) m)"
    "distinct (obj_keys (added_rePaths st k))"
  using assms by (auto simp: added_rePaths_def Let_def renamed_from_iff objs.distinct_keys_put)

lemma renamed_rePaths_get:
  assumes "renamed_rePaths st s k current n = Some paths" "distinct (obj_keys (rePaths st))" "getEditablePropertyPath s k = Some path"
  defines "P1 \<equiv> \<lambda>m. if obj_get (rePaths st) m = Some (Some k) then None else obj_get (rePaths st) m"
  defines "P2 \<equiv> if P1 path = Some None then P1(path := None) else P1"
  defines "nk \<equiv> new_key_of k n"
  shows "obj_get paths = (if nk \<in> set (deletedAppliedKeys st) then P2(nk \<mapsto> (if ep_isEditable current then None else Some k))
      else if \<not> ep_isEditable current \<and> nk \<noteq> k then P2(nk \<mapsto> Some k) else P2)"
    "distinct (obj_keys paths)"
proof -
  let ?d = "drop_renames_of k (rePaths st)"
  let ?e = "if obj_get ?d path = Some None then obj_delete ?d path else ?d"
  have d: "distinct (obj_keys ?e)" using assms(2) by (simp add: obj_keys_drop_renames obj_keys_delete)
  have P2: "obj_get ?e = P2"
    using assms(2) by (auto simp: fun_eq_iff P2_def P1_def drop_renames_get)
  have paths: "paths = (if nk \<in> set (deletedAppliedKeys st) then obj_set ?e nk (if ep_isEditable current then None else Some k)
      else if \<not> ep_isEditable current \<and> nk \<noteq> k then obj_set ?e nk (Some k) else ?e)"
    using assms(1) unfolding renamed_rePaths_def assms(3) Let_def nk_def option.case option.inject by (rule sym)
  show "obj_get paths = (if nk \<in> set (deletedAppliedKeys st) then P2(nk \<mapsto> (if ep_isEditable current then None else Some k))
      else if \<not> ep_isEditable current \<and> nk \<noteq> k then P2(nk \<mapsto> Some k) else P2)"
    unfolding paths P2 [symmetric] by (simp add: fun_eq_iff)
  show "distinct (obj_keys paths)" unfolding paths using d by (simp add: objs.distinct_keys_put)
qed

subsection \<open>The first level\<close>

definition first_level :: "(jsstr \<Rightarrow> 'v option) \<Rightarrow> jsstr \<Rightarrow> 'v option" where
  "first_level f k = (if 46 \<in> set k then None else f k)"

definition level_view :: "schema_editor \<Rightarrow> jsstr \<Rightarrow> (jsstr \<times> bool) option" where
  "level_view st = first_level (\<lambda>k. map_option (\<lambda>p. (ep_name p, ep_isEditable p)) (obj_get (editableSchema st) k))"

definition rePaths_ok :: "jsstr option obj \<Rightarrow> bool" where
  "rePaths_ok paths \<longleftrightarrow> distinct (obj_keys paths) \<and> (\<forall>m k. obj_get paths m = Some (Some k) \<longrightarrow> (46 \<in> set m \<longleftrightarrow> 46 \<in> set k))"

definition paths_inv :: "property list \<Rightarrow> schema_editor \<Rightarrow> bool" where
  "paths_inv ps st \<longleftrightarrow> rePaths_ok (rePaths st) \<and>
     paths_say (p_name ` set (opened_properties ps)) (level_view st) (first_level (obj_get (rePaths st)))
       {k \<in> set (deletedAppliedKeys st). 46 \<notin> set k}"

lemma first_level_simps [simp]: "46 \<notin> set k \<Longrightarrow> first_level f k = f k" "46 \<in> set k \<Longrightarrow> first_level f k = None"
  by (simp_all add: first_level_def)

lemma first_level_upd: "46 \<notin> set k \<Longrightarrow> first_level (f(k := v)) = (first_level f)(k := v)"
  by (auto simp: first_level_def fun_eq_iff)

lemma first_level_drop: "first_level (\<lambda>m. if f m = Some v then None else f m) = (\<lambda>m. if first_level f m = Some v then None else first_level f m)"
  by (auto simp: first_level_def fun_eq_iff)

lemma first_level_editable_path:
  "46 \<notin> set k \<Longrightarrow> getEditablePropertyPath s k = map_option ep_name (obj_get s k)"
  by (auto simp: getEditablePropertyPath_def split_on_no_sep split: option.splits)

subsection \<open>The invariant\<close>

lemma level_view_iff:
  "level_view st k = Some (n, e) \<longleftrightarrow> 46 \<notin> set k \<and> (\<exists>p. obj_get (editableSchema st) k = Some p \<and> ep_name p = n \<and> ep_isEditable p = e)"
  by (auto simp: level_view_def first_level_def)

lemma level_free:
  assumes "editable_ok (editableSchema st)" "\<not> name_taken (editableSchema st) [] n"
  shows "level_view st l \<noteq> Some (n, e)"
  using assms(2) parent_plain [of l] unfolding name_taken_iff [OF editable_ok_distinct [OF assms(1)]] level_view_iff
  by blast

lemma rePaths_level:
  "rePaths_ok paths \<Longrightarrow> 46 \<notin> set k \<Longrightarrow> (\<exists>m. first_level (obj_get paths) m = Some (Some k)) \<longleftrightarrow> (\<exists>m. obj_get paths m = Some (Some k))"
  by (auto simp: rePaths_ok_def first_level_def split: if_splits)

lemma opened_level:
  assumes wf: "wf_properties ps"
  shows "level_view (open_editor ps roles sources) k = (if k \<in> p_name ` set (opened_properties ps) then Some (k, False) else None)"
proof -
  let ?ps = "opened_properties ps"
  have dots: "46 \<notin> set (p_name p)" if "p \<in> set qs" "wf_properties qs" for p qs using that by (induction qs) auto
  have single: "lookup_path qs [k] = None \<longleftrightarrow> k \<notin> p_name ` set qs" for qs by (induction qs) auto
  show ?thesis
  proof (cases "46 \<in> set k")
    case True
    then show ?thesis using dots wf_opened [OF wf] by (auto simp: level_view_def)
  next
    case False
    then have "obj_get (opened_schema ps) k = map_option (path_entry editableProperty [] [k]) (lookup_path ?ps [k])"
      using obj_get_flat_entries [OF wf_opened [OF wf], of "[]" "[k]" editableProperty] by simp
    then show ?thesis using False lookup_path_name [of ?ps "[k]"] single [of ?ps]
      by (cases "lookup_path ?ps [k]")
        (simp_all add: level_view_def open_editor_fields(1) [OF wf] path_entry_def editableProperty_def)
  qed
qed

lemma paths_inv_opened:
  assumes "wf_properties ps"
  shows "paths_inv ps (open_editor ps roles sources)"
  unfolding paths_inv_def paths_say_def opened_level [OF assms] rePaths_ok_def
  by (simp add: open_editor_fields first_level_def)

lemma paths_inv_sort:
  assumes ok: "editable_ok (editableSchema st)" and inv: "paths_inv ps st"
  shows "paths_inv ps (onSortRow overRow moved st)"
proof -
  have "level_view (onSortRow overRow moved st) = level_view st \<and> rePaths (onSortRow overRow moved st) = rePaths st \<and>
      deletedAppliedKeys (onSortRow overRow moved st) = deletedAppliedKeys st"
    using onSortRow_spec [OF editable_ok_distinct [OF ok], of overRow moved] by (auto simp: level_view_def)
  then show ?thesis using inv by (simp add: paths_inv_def)
qed

lemma paths_inv_add:
  assumes ok: "editable_ok (editableSchema st)" and inv: "paths_inv ps st" and name: "validatePropertyName (pe_name p) = Inr ()"
    and parent: "pe_parentKey p = [] \<or> is_object_key (editableSchema st) (pe_parentKey p)"
    and step: "onAddProperty st p source role sel = Inr (st', k)"
  shows "paths_inv ps st'"
proof -
  note spec = onAddProperty_spec [OF step editable_ok_distinct [OF ok]]
  obtain t where get: "\<And>x. obj_get (editableSchema st') x = (if x = k then Some (added_property p t) else obj_get (editableSchema st) x)"
    using spec(4) by blast
  obtain w where w: "k = (if pe_parentKey p \<noteq> [] then pe_parentKey p @ 46 # pe_name p else pe_name p) @ w" "46 \<notin> set w"
    using spec(6) by blast
  note plain = validatePropertyName_ok [OF name]
  have good: "rePaths_ok (rePaths st)" using inv by (simp add: paths_inv_def)
  then have distinct: "distinct (obj_keys (rePaths st))" by (simp add: rePaths_ok_def)
  note added = added_rePaths_get [OF distinct]
  have ok': "rePaths_ok (rePaths st')"
    using good added unfolding rePaths_ok_def spec(7) by (auto split: if_splits)
  show ?thesis
  proof (cases "pe_parentKey p = []")
    case True
    let ?n = "pe_name p"
    have k: "46 \<notin> set k" "level_view st k = None" using plain w spec(1) by (auto simp: True level_view_def in_obj_keys)
    have view: "level_view st' = (level_view st)(k \<mapsto> (?n, True))"
      using k(1) by (auto simp: fun_eq_iff level_view_def first_level_def get added_property_def)
    have rep: "first_level (obj_get (rePaths st')) =
      (if ?n \<in> {k \<in> set (deletedAppliedKeys st). 46 \<notin> set k} \<or> (\<exists>m. first_level (obj_get (rePaths st)) m = Some (Some ?n))
       then (first_level (obj_get (rePaths st)))(?n \<mapsto> None) else first_level (obj_get (rePaths st)))"
      using plain rePaths_level [OF good, of ?n] by (auto simp: fun_eq_iff first_level_def spec(7) added True)
    have "paths_say (p_name ` set (opened_properties ps)) (level_view st') (first_level (obj_get (rePaths st')))
       {k \<in> set (deletedAppliedKeys st). 46 \<notin> set k}"
      unfolding view rep by (rule paths_say_add)
        (use inv k(2) level_free [OF ok, of ?n] spec(5) True in \<open>simp_all add: paths_inv_def\<close>)
    then show ?thesis using ok' by (simp add: paths_inv_def spec(8))
  next
    case False
    have "level_view st' = level_view st" using w(1) False by (auto simp: fun_eq_iff level_view_def first_level_def get)
    moreover have "first_level (obj_get (rePaths st')) = first_level (obj_get (rePaths st))"
      using False by (auto simp: fun_eq_iff first_level_def spec(7) added)
    ultimately show ?thesis using inv ok' by (simp add: paths_inv_def spec(8))
  qed
qed

lemma paths_inv_remove:
  assumes ok: "editable_ok (editableSchema st)" and inv: "paths_inv ps st"
    and step: "onRemoveProperty st k isFiltered = Inr (st', next)"
  shows "paths_inv ps st'"
  using step
proof (rule onRemoveProperty_spec)
  fix current path nested
  assume k: "obj_get (editableSchema st) k = Some current" and path: "getEditablePropertyPath (editableSchema st) k = Some path"
    and nested: "nested = (if kind_of (ep_type current) = KObject then filter (\<lambda>d. starts_with d (k @ [46])) (obj_keys (editableSchema st)) else [])"
    and get: "\<And>x. obj_get (editableSchema st') x = (if x = k \<or> x \<in> set nested then None else obj_get (editableSchema st) x)"
    and paths: "rePaths st' = foldl forget_nested (drop_renames_of k (obj_delete (rePaths st) path)) nested"
    and deleted: "deletedAppliedKeys st' =
       (if kind_of (ep_type current) = KObject then filter (\<lambda>d. \<not> starts_with d (k @ [46])) (deletedAppliedKeys st) else deletedAppliedKeys st)
       @ (if ep_isEditable current then [] else [k])"
  have dots: "46 \<in> set d" if "d \<in> set nested" for d
    using that nested_dotted by (auto simp: nested split: if_splits)
  have good: "rePaths_ok (rePaths st)" using inv by (simp add: paths_inv_def)
  then have distinct: "distinct (obj_keys (obj_delete (rePaths st) path))" by (simp add: rePaths_ok_def obj_keys_delete)
  have rep: "obj_get (rePaths st') m = (if m = path \<or> obj_get (rePaths st) m = Some (Some k) \<or> m \<in> set nested \<or>
      (\<exists>d \<in> set nested. obj_get (rePaths st) m = Some (Some d)) then None else obj_get (rePaths st) m)" for m
    unfolding paths using forget_nested_get(1) [OF obj_keys_drop_renames [OF distinct]] drop_renames_get [OF distinct] by auto
  have "distinct (obj_keys (rePaths st'))" unfolding paths by (rule forget_nested_get(2) [OF obj_keys_drop_renames [OF distinct]])
  then have ok': "rePaths_ok (rePaths st')" using good unfolding rePaths_ok_def rep by (auto split: if_splits)
  have level: "first_level (obj_get (rePaths st')) m = (if m = path \<or> obj_get (rePaths st) m = Some (Some k) then None else first_level (obj_get (rePaths st)) m)" for m
    using good dots unfolding first_level_def rep rePaths_ok_def by (auto split: if_splits)
  show ?thesis
  proof (cases "46 \<in> set k")
    case False
    then have n: "path = ep_name current" "level_view st k = Some (ep_name current, ep_isEditable current)" "46 \<notin> set path"
      using path k editable_ok_plain [OF ok k] by (auto simp: first_level_editable_path level_view_iff)
    have "level_view st' = (level_view st)(k := None)"
      using dots by (auto simp: fun_eq_iff level_view_def first_level_def get)
    moreover have "first_level (obj_get (rePaths st')) =
        (\<lambda>m. if m = ep_name current \<or> first_level (obj_get (rePaths st)) m = Some (Some k) then None else first_level (obj_get (rePaths st)) m)"
    proof
      fix m
      have "obj_get (rePaths st) m = Some (Some k) \<Longrightarrow> 46 \<notin> set m" using good False by (simp add: rePaths_ok_def)
      then show "first_level (obj_get (rePaths st')) m =
        (if m = ep_name current \<or> first_level (obj_get (rePaths st)) m = Some (Some k) then None else first_level (obj_get (rePaths st)) m)"
        unfolding level n(1) by (auto simp: first_level_def)
    qed
    moreover have "{d \<in> set (deletedAppliedKeys st'). 46 \<notin> set d} =
        (if ep_isEditable current then {k \<in> set (deletedAppliedKeys st). 46 \<notin> set k} else insert k {k \<in> set (deletedAppliedKeys st). 46 \<notin> set k})"
      using False nested_dotted by (auto simp: deleted)
    ultimately show ?thesis using ok' paths_say_remove [where V = "level_view st", OF _ n(2)] inv by (simp add: paths_inv_def)
  next
    case True
    obtain path' where "getEditablePropertyPath (editableSchema st) k = Some path'" "46 \<in> set path'"
      using nested_path [OF ok _ True] k by (auto simp: in_obj_keys)
    with path have "46 \<in> set path" by simp
    then have "first_level (obj_get (rePaths st')) = first_level (obj_get (rePaths st))"
      using good True by (auto simp: fun_eq_iff level) (auto simp: first_level_def rePaths_ok_def)
    moreover have "level_view st' = level_view st" using dots True by (auto simp: fun_eq_iff level_view_def first_level_def get)
    moreover have "{d \<in> set (deletedAppliedKeys st'). 46 \<notin> set d} = {d \<in> set (deletedAppliedKeys st). 46 \<notin> set d}"
      using True nested_dotted by (auto simp: deleted)
    ultimately show ?thesis using ok' inv by (simp add: paths_inv_def)
  qed
qed

lemma paths_inv_edit:
  assumes ok: "editable_ok (editableSchema st)" and inv: "paths_inv ps st" and name: "name_accepted st k p"
    and careful: "\<not> careless_rename st k p"
    and step: "onEditProperty st k p source role un = Inr st'"
  shows "paths_inv ps st'"
  using step
proof (rule onEditProperty_spec)
  fix current t nested s
  assume k: "obj_get (editableSchema st) k = Some current"
    and nested: "nested = (if kind_of (ep_type current) = KObject \<and> kind_of t \<noteq> KObject
               then filter (\<lambda>d. starts_with d (k @ [46])) (obj_keys (editableSchema st)) else [])"
    and get: "\<And>x. obj_get (editableSchema st') x =
       (if x \<in> set nested then None else if x = k then Some (edited_property current p t)
        else map_option (\<lambda>q. if pe_name p \<noteq> ep_name current \<and> kind_of t = KObject \<and> ep_root q = ep_name current
                             then q\<lparr>ep_root := pe_name p\<rparr> else q) (obj_get (editableSchema st) x))"
    and free: "pe_name p \<noteq> ep_name current \<Longrightarrow> \<not> name_taken (editableSchema st) (getParentPropertyKey k) (pe_name p)"
    and names: "\<And>x. map_option ep_name (obj_get s x) = map_option ep_name (obj_get (editableSchema st) x)"
    and paths: "(if pe_name p \<noteq> ep_name current then renamed_rePaths st s k current (pe_name p) else Some (rePaths st)) = Some (rePaths st')"
    and deleted: "deletedAppliedKeys st' = deletedAppliedKeys st"
  let ?n = "pe_name p"
  have dots: "46 \<in> set d" if "d \<in> set nested" for d
    using that nested_dotted by (auto simp: nested split: if_splits)
  have view: "level_view st' = (if 46 \<in> set k then level_view st else (level_view st)(k \<mapsto> (?n, ep_isEditable current)))"
  proof
    fix x
    show "level_view st' x = (if 46 \<in> set k then level_view st else (level_view st)(k \<mapsto> (?n, ep_isEditable current))) x"
      using dots by (cases "46 \<in> set x"; cases "obj_get (editableSchema st) x")
        (auto simp: level_view_def get edited_property_def)
  qed
  have good: "rePaths_ok (rePaths st)" and say: "paths_say (p_name ` set (opened_properties ps)) (level_view st) (first_level (obj_get (rePaths st)))
       {k \<in> set (deletedAppliedKeys st). 46 \<notin> set k}" using inv by (simp_all add: paths_inv_def)
  show ?thesis
  proof (cases "?n = ep_name current")
    case True
    then have "level_view st' = level_view st"
      using k unfolding view by (cases "46 \<in> set k") (simp_all add: fun_upd_idem level_view_iff)
    then show ?thesis using True paths inv by (simp add: paths_inv_def deleted)
  next
    case renamed: False
    have n: "?n \<noteq> []" "46 \<notin> set ?n" using name k renamed by (auto simp: name_accepted_def dest: validatePropertyName_ok)
    have distinct: "distinct (obj_keys (rePaths st))" using good by (simp add: rePaths_ok_def)
    have new: "renamed_rePaths st s k current ?n = Some (rePaths st')" using paths renamed by simp
    have same: "getEditablePropertyPath s k = getEditablePropertyPath (editableSchema st) k" by (rule editable_path_cong [OF names])
    show ?thesis
    proof (cases "46 \<in> set k")
      case True
      obtain path where path: "getEditablePropertyPath (editableSchema st) k = Some path" "46 \<in> set path"
        using nested_path [OF ok _ True] k by (auto simp: in_obj_keys)
      have nk: "46 \<in> set (new_key_of k ?n)" using True by (simp add: new_key_of_def js_Cons)
      note get' = renamed_rePaths_get [OF new distinct, unfolded same, OF path(1)]
      have "first_level (obj_get (rePaths st')) m = first_level (obj_get (rePaths st)) m" for m
        using good True nk path(2) by (auto simp: get'(1) first_level_def rePaths_ok_def)
      then have "first_level (obj_get (rePaths st')) = first_level (obj_get (rePaths st))" ..
      moreover have "rePaths_ok (rePaths st')"
        using good True nk get'(2) by (auto simp: get'(1) rePaths_ok_def split: if_splits)
      ultimately show ?thesis using say True by (simp add: paths_inv_def deleted view)
    next
      case False
      have path: "getEditablePropertyPath (editableSchema st) k = Some (ep_name current)" using k False by (simp add: first_level_editable_path)
      have nk: "new_key_of k ?n = ?n" using False by (simp add: new_key_of_def)
      note get' = renamed_rePaths_get [OF new distinct, unfolded same, OF path, unfolded nk]
      have plain: "46 \<notin> set (ep_name current)" using editable_ok_plain [OF ok k] by simp
      have ok': "rePaths_ok (rePaths st')"
        using good False n get'(2) by (auto simp: get'(1) rePaths_ok_def split: if_splits)
      let ?P = "first_level (obj_get (rePaths st))" and ?D = "{k \<in> set (deletedAppliedKeys st). 46 \<notin> set k}"
      let ?P1 = "\<lambda>m. if ?P m = Some (Some k) then None else ?P m"
      let ?P2 = "if ?P1 (ep_name current) = Some None then ?P1(ep_name current := None) else ?P1"
      have rep: "first_level (obj_get (rePaths st')) = (if ?n \<in> ?D then ?P2(?n \<mapsto> (if ep_isEditable current then None else Some k))
          else if \<not> ep_isEditable current \<and> ?n \<noteq> k then ?P2(?n \<mapsto> Some k) else ?P2)"
        unfolding get'(1) using plain n by (simp add: first_level_upd first_level_drop if_distrib [of first_level])
      have "\<not> name_taken (editableSchema st) [] ?n" using free [OF renamed] False by (simp add: parent_plain)
      then have unused: "level_view st l \<noteq> Some (?n, e)" for l e by (rule level_free [OF ok])
      have "?n \<in> ?D" if "ep_isEditable current" "?n \<in> p_name ` set (opened_properties ps)"
        using that careful k renamed paths_say_taken [OF say unused] rePaths_level [OF good n(2)]
        by (auto simp: careless_rename_def nk renamed_from_iff [OF distinct])
      then have "paths_say (p_name ` set (opened_properties ps)) ((level_view st)(k \<mapsto> (?n, ep_isEditable current))) (first_level (obj_get (rePaths st'))) ?D"
        unfolding rep by (intro paths_say_rename [OF say _ renamed unused]) (use k False in \<open>simp_all add: level_view_iff\<close>)
      then show ?thesis using ok' False by (simp add: paths_inv_def deleted view)
    qed
  qed
qed

lemma reachable_paths_inv:
  assumes "schema_editor_reachable True ps roles sources st" "wf_properties ps" "names_nonempty ps"
  shows "paths_inv ps st"
  using assms
proof (induction rule: schema_editor_reachable.induct)
  case opened
  then show ?case by (simp add: paths_inv_opened)
next
  case (added st p source role selected st' k)
  then show ?case using paths_inv_add [OF reachable_editable_ok [OF added.hyps(1)]] parent_chosenD by blast
next
  case (edited st k p un source role st')
  then show ?case using paths_inv_edit [OF reachable_editable_ok [OF edited.hyps(1)]] by blast
next
  case (removed st k isFiltered st' "next")
  then show ?case using paths_inv_remove [OF reachable_editable_ok [OF removed.hyps(1)]] by blast
next
  case (sorted st overRow moved)
  then show ?case using paths_inv_sort [OF reachable_editable_ok [OF sorted.hyps(1)]] by blast
qed

subsection \<open>What the server is told\<close>

text \<open>
  C3: In every state a careful user reaches, the re-paths of the first level say exactly what the server asks: the
  name of a property goes to its old name when, and only when, the property was renamed; a name goes to \<open>null\<close> when,
  and only when, it is a name of the opened schema that a new property has taken; there is nothing about other names.
\<close>

theorem rePaths_describe_the_schema:
  assumes "schema_editor_reachable True ps roles sources st" "wf_properties ps" "names_nonempty ps"
    and "46 \<notin> set n" "46 \<notin> set k"
  shows "(obj_get (rePaths st) n = Some (Some k) \<longleftrightarrow>
      n \<noteq> k \<and> k \<in> p_name ` set (opened_properties ps) \<and>
      (\<exists>q. obj_get (editableSchema st) k = Some q \<and> \<not> ep_isEditable q \<and> ep_name q = n)) \<and>
    (obj_get (rePaths st) n = Some None \<longleftrightarrow>
      n \<in> p_name ` set (opened_properties ps) \<and>
      (\<exists>l q. 46 \<notin> set l \<and> obj_get (editableSchema st) l = Some q \<and> ep_isEditable q \<and> ep_name q = n))"
proof -
  have say: "paths_say (p_name ` set (opened_properties ps)) (level_view st) (first_level (obj_get (rePaths st)))
       {k \<in> set (deletedAppliedKeys st). 46 \<notin> set k}"
    using reachable_paths_inv [OF assms(1-3)] by (simp add: paths_inv_def)
  have "obj_get (rePaths st) n = Some (Some k) \<longleftrightarrow>
      n \<noteq> k \<and> k \<in> p_name ` set (opened_properties ps) \<and>
      (\<exists>q. obj_get (editableSchema st) k = Some q \<and> \<not> ep_isEditable q \<and> ep_name q = n)"
    using paths_say_renamed [OF say, of n k] paths_say_applied [OF say, of k n] assms(4,5) by (auto simp: level_view_iff)
  moreover have "obj_get (rePaths st) n = Some None \<longleftrightarrow>
      n \<in> p_name ` set (opened_properties ps) \<and>
      (\<exists>l q. 46 \<notin> set l \<and> obj_get (editableSchema st) l = Some q \<and> ep_isEditable q \<and> ep_name q = n)"
    using paths_say_null [OF say, of n] assms(4) by (simp add: level_view_iff) blast
  ultimately show ?thesis ..
qed

theorem rePaths_describe_the_schema_witness:
  "\<exists>st. schema_editor_reachable True example_schema (Some profile_roles) [(js ''email'', js ''7'')] st \<and>
    obj_get (rePaths st) (js ''mail'') = Some (Some (js ''email''))"
proof -
  obtain st where st: "schema_editor_reachable True example_schema (Some profile_roles) [(js ''email'', js ''7'')] st"
    "obj_get (editableSchema st) (js ''email'') =
      Some (edited_property (editableProperty (plain_property (js ''email'') string_kind) 0 (js ''email'')) email_to_mail string_kind)"
    using renamed_profile by blast
  have "js ''email'' \<in> p_name ` set (opened_properties example_schema)"
    by (simp add: opened_properties_def is_meta_property_def example_schema_simps)
  with st show ?thesis
    using rePaths_describe_the_schema [OF st(1) example_schema_wf example_schema_names, of "js ''mail''" "js ''email''"]
    by (auto simp: edited_property_def email_to_mail_def editableProperty_def js_Cons)
qed

subsection \<open>A careless rename\<close>

text \<open>
  The property A is renamed to B, a new property C is added and then renamed to A. The re-paths say nothing of the
  name A, which the opened schema has and a new property now has: \<open>onEditProperty\<close> looks for the new name in
  \<open>deletedAppliedKeys\<close> but, unlike \<open>onAddProperty\<close>, not among the old names of renamed properties.
\<close>

definition named_edit :: "jsstr \<Rightarrow> property_to_edit" where
  "named_edit name = (newPropertyToEdit [] 0 [])\<lparr>pe_name := name, pe_type := Some BooleanType\<rparr>"

definition careless_edits :: "editor_error + schema_editor" where
  "careless_edits =
     (case onEditProperty (open_editor [plain_property [65] BooleanType] None []) [65] (named_edit [66]) None None [] of
        Inl e \<Rightarrow> Inl e
      | Inr st1 \<Rightarrow>
          (case onAddProperty st1 (named_edit [67]) None None None of
             Inl e \<Rightarrow> Inl e
           | Inr (st2, k) \<Rightarrow> onEditProperty st2 k (named_edit [65]) None None []))"

lemma careless_edits_value:
  "(case careless_edits of Inl e \<Rightarrow> None
    | Inr st \<Rightarrow> Some (rePaths st, map (\<lambda>(k, p). (k, ep_name p, ep_isEditable p)) (editableSchema st))) =
   Some ([([66], Some [65])], [([65], [66], False), ([67], [65], True)])"
  by code_simp

end
