(* ===== verification/Schema_Editor_Order.thy ===== *)
theory Schema_Editor_Order
  imports Schema_Editor_Invariants
begin

section \<open>The order of the properties in the schema editor\<close>

text \<open>
  The schema is saved by pushing each property in its parent, in the order of the keys. This needs an order in
  which parents come before what is nested in them, and indentations that tell the first level; every step keeps both.
\<close>

subsection \<open>Parents first\<close>

fun parents_in :: "jsstr set \<Rightarrow> jsstr list \<Rightarrow> bool" where
  "parents_in S [] = True"
| "parents_in S (k # ks) = ((46 \<in> set k \<longrightarrow> getParentPropertyKey k \<in> S) \<and> parents_in (insert k S) ks)"

lemma parents_in_append: "parents_in S (xs @ ys) \<longleftrightarrow> parents_in S xs \<and> parents_in (S \<union> set xs) ys"
  by (induction xs arbitrary: S) auto

lemma parents_in_mono: "parents_in S ks \<Longrightarrow> S \<subseteq> T \<Longrightarrow> parents_in T ks"
proof (induction ks arbitrary: S T)
  case (Cons k ks)
  then have "insert k S \<subseteq> insert k T" by blast
  with Cons show ?case by auto
qed simp

lemma parents_in_filter:
  "parents_in S ks \<Longrightarrow> (\<forall>x \<in> set ks. P x \<and> 46 \<in> set x \<longrightarrow> P (getParentPropertyKey x) \<or> getParentPropertyKey x \<in> T) \<Longrightarrow>
     parents_in ({y \<in> S. P y} \<union> T) (filter P ks)"
proof (induction ks arbitrary: S)
  case (Cons k ks)
  have ins: "{y \<in> insert k S. P y} = (if P k then insert k {y \<in> S. P y} else {y \<in> S. P y})" by auto
  have "parents_in ({y \<in> insert k S. P y} \<union> T) (filter P ks)" by (rule Cons.IH) (use Cons.prems in auto)
  with Cons.prems show ?case unfolding ins by auto
qed simp

lemma parent_before:
  assumes "parents_in {} (xs @ k # ys)" "46 \<in> set k"
  shows "getParentPropertyKey k \<in> set xs"
  using assms by (simp add: parents_in_append)

lemma ancestor_before:
  assumes "parents_in {} ks"
  shows "ks = xs @ k # ys \<Longrightarrow> starts_with k (d @ [46]) \<Longrightarrow> d \<in> set xs"
proof (induction "length k" arbitrary: k xs ys rule: less_induct)
  case less
  have dot: "46 \<in> set k" by (rule nested_dotted [OF less.prems(2)])
  have before: "getParentPropertyKey k \<in> set xs" using parent_before assms less.prems(1) dot by blast
  from nested_parent [of k d] less.prems(2) consider "getParentPropertyKey k = d" | "starts_with (getParentPropertyKey k) (d @ [46])"
    by (auto simp: js_Cons)
  then show ?case
  proof cases
    case 2
    obtain us vs where split: "xs = us @ getParentPropertyKey k # vs" using before by (meson split_list)
    have "length (getParentPropertyKey k) < length k" by (rule dotted_key [OF dot]) simp
    from less.hyps [OF this _ 2, of us "vs @ k # ys"] show ?thesis using less.prems(1) split by simp
  qed (use before in simp)
qed

definition order_ok :: "editable_schema \<Rightarrow> bool" where
  "order_ok s \<longleftrightarrow> parents_in {} (obj_keys s) \<and> (\<forall>k p. obj_get s k = Some p \<longrightarrow> (ep_indentation p = 0 \<longleftrightarrow> 46 \<notin> set k))"

subsection \<open>Opening\<close>

lemma tree_parents_in:
  "wf_properties ps \<Longrightarrow> no_dots segs \<Longrightarrow> segs = [] \<or> path_of segs \<in> S \<Longrightarrow> parents_in S (tree_paths segs ps)"
proof (induction "\<lambda>(_::property) (_::nat) (_::jsstr). ()" segs ps arbitrary: S rule: flat_entries.induct)
  case (2 segs p ps)
  let ?k = "path_of (segs @ [p_name p])"
  have nd: "no_dots (segs @ [p_name p])" using "2.prems" by simp
  have own: "46 \<in> set ?k \<longrightarrow> getParentPropertyKey ?k \<in> S"
    using getParentPropertyKey_path [OF nd] "2.prems" by (cases "segs = []") simp_all
  have sub: "parents_in (insert ?k S) (tree_paths (segs @ [p_name p]) (sub_properties p))"
    using "2.prems" nd by (intro "2.hyps"(1)) simp_all
  have rest: "parents_in (insert ?k S) (tree_paths segs ps)" using "2.prems" by (intro "2.hyps"(2)) auto
  show ?case using own sub parents_in_mono [OF rest] by (auto simp: parents_in_append)
qed simp

lemma opened_order:
  assumes "wf_properties ps"
  shows "order_ok (opened_schema ps)"
proof -
  have "ep_indentation p = 0 \<longleftrightarrow> 46 \<notin> set k" if "obj_get (opened_schema ps) k = Some p" for k p
    using assms that
  proof (rule opened_get)
    fix ns r
    assume "k = path_of ns" "no_dots ns" "ns \<noteq> []" "p = editableProperty r (length ns - 1) (hd ns)"
    then show ?thesis using dotted_path_of [of ns] by (cases ns; cases "tl ns") auto
  qed
  moreover have "parents_in {} (obj_keys (opened_schema ps))"
    using tree_parents_in [OF wf_opened [OF assms], of "[]"] by (simp add: keys_flat_entries)
  ultimately show ?thesis by (simp add: order_ok_def)
qed

subsection \<open>Adding\<close>

lemma with_inserted_split:
  assumes "distinct (xs @ a # ys)"
  shows "concat (map (\<lambda>x. x # (if a = x then [k] else [])) (xs @ a # ys)) = xs @ a # k # ys"
proof -
  have "a \<notin> set zs \<Longrightarrow> concat (map (\<lambda>x. x # (if a = x then [k] else [])) zs) = zs" for zs by (induction zs) auto
  then show ?thesis using assms by simp
qed

lemma with_inserted_keys_at:
  "obj_keys (with_inserted (Some a) k v schema) = concat (map (\<lambda>x. x # (if a = x then [k] else [])) (obj_keys schema))"
  by (induction schema) (auto simp: with_inserted_def)

lemma onAddProperty_keys:
  assumes step: "onAddProperty st p source role sel = Inr (st', k)" and distinct: "distinct (obj_keys (editableSchema st))"
  shows "(getPropertyInsertionAnchor (editableSchema st) (pe_parentKey p) sel = None \<and>
      obj_keys (editableSchema st') = obj_keys (editableSchema st) @ [k]) \<or>
    (\<exists>a xs ys. getPropertyInsertionAnchor (editableSchema st) (pe_parentKey p) sel = Some a \<and>
      obj_keys (editableSchema st) = xs @ a # ys \<and> obj_keys (editableSchema st') = xs @ a # k # ys)"
proof -
  let ?s = "editableSchema st"
  let ?anchor = "getPropertyInsertionAnchor ?s (pe_parentKey p) sel"
  have k: "k \<notin> set (obj_keys ?s)" by (rule onAddProperty_spec(1) [OF step distinct])
  obtain v where s': "editableSchema st' = insert_after ?anchor k v ?s"
    using step by (auto simp: onAddProperty_def Let_def split: if_splits option.splits)
  show ?thesis
  proof (cases ?anchor)
    case None
    then have "editableSchema st' = ?s @ [(k, v)]"
      using insert_after_fold [of "[]" ?s k None v] distinct k by (simp add: s' insert_after_def with_inserted_none obj_set_new)
    then show ?thesis using None by simp
  next
    case (Some a)
    obtain xs ys where split: "obj_keys ?s = xs @ a # ys" using anchor_in_schema [OF Some] by (meson split_list)
    have "editableSchema st' = with_inserted (Some a) k v ?s"
      using insert_after_fold [of "[]" ?s k "Some a" v] distinct k by (simp add: s' insert_after_def Some)
    then have "obj_keys (editableSchema st') = xs @ a # k # ys"
      using with_inserted_split [of xs a ys k] distinct by (simp add: with_inserted_keys_at split)
    then show ?thesis using Some split by blast
  qed
qed

lemma anchor_child:
  assumes "getPropertyInsertionAnchor schema parentKey sel = Some a"
  shows "\<exists>d. getParentPropertyKey d = parentKey \<and> (parentKey \<noteq> [] \<longrightarrow> 46 \<in> set d) \<and> (a = d \<or> starts_with a (d @ [46]))"
proof -
  define d where "d = (if parentKey = [] then [] else parentKey @ [46]) @
    hd (segments (drop (length (if parentKey = [] then [] else parentKey @ [46])) (case sel of Some s \<Rightarrow> s | None \<Rightarrow> [])))"
  have a: "a = last (d # filter (\<lambda>k. starts_with k (d @ [46])) (obj_keys schema))"
    using assms unfolding getPropertyInsertionAnchor_def d_def by (auto simp: Let_def js_Cons simp del: last.simps split: option.splits if_splits)
  have "a \<in> set (d # filter (\<lambda>k. starts_with k (d @ [46])) (obj_keys schema))" unfolding a by (rule last_in_set) simp
  then have "a = d \<or> starts_with a (d @ [46])" by auto
  moreover obtain w where w: "d = (if parentKey = [] then [] else parentKey @ [46]) @ w" "46 \<notin> set w"
    unfolding d_def using split_on_pieces [OF list.set_sel(1) [OF split_on_not_Nil]] by blast
  then have "getParentPropertyKey d = parentKey" "parentKey \<noteq> [] \<longrightarrow> 46 \<in> set d"
    using parent_append [OF w(2), of parentKey] parent_plain [OF w(2)] by simp_all
  ultimately show ?thesis by blast
qed

lemma order_add:
  assumes ok: "editable_ok (editableSchema st)" and order: "order_ok (editableSchema st)" and name: "validatePropertyName (pe_name p) = Inr ()"
    and parent: "parent_chosen (editableSchema st) p"
    and step: "onAddProperty st p source role sel = Inr (st', k)"
  shows "order_ok (editableSchema st')"
proof -
  let ?ks = "obj_keys (editableSchema st)" and ?q = "pe_parentKey p"
  note distinct = editable_ok_distinct [OF ok]
  note spec = onAddProperty_spec [OF step distinct]
  obtain t where get: "\<And>x. obj_get (editableSchema st') x = (if x = k then Some (added_property p t) else obj_get (editableSchema st) x)"
    using spec(4) by blast
  have k: "getParentPropertyKey k = ?q" by (rule onAddProperty_ok(2) [OF ok name parent_chosenD [OF parent] step])
  obtain w where w: "k = (if ?q \<noteq> [] then ?q @ 46 # pe_name p else pe_name p) @ w" "46 \<notin> set w" using spec(6) by blast
  have dot: "46 \<in> set k \<longleftrightarrow> ?q \<noteq> []" using w validatePropertyName_ok [OF name] by auto
  have first: "parents_in {} ?ks" using order by (simp add: order_ok_def)
  have exists: "?q \<noteq> [] \<Longrightarrow> ?q \<in> set ?ks" using parent_chosenD [OF parent] by (auto simp: is_object_key_def in_obj_keys split: option.splits)
  have "parents_in {} (obj_keys (editableSchema st'))"
    using onAddProperty_keys [OF step distinct]
  proof (elim disjE conjE exE)
    assume "obj_keys (editableSchema st') = ?ks @ [k]"
    then show ?thesis using first exists by (simp add: parents_in_append k dot)
  next
    fix a xs ys
    assume anchor: "getPropertyInsertionAnchor (editableSchema st) ?q sel = Some a"
      and old: "?ks = xs @ a # ys" and new: "obj_keys (editableSchema st') = xs @ a # k # ys"
    obtain d where d: "getParentPropertyKey d = ?q" "?q \<noteq> [] \<longrightarrow> 46 \<in> set d" "a = d \<or> starts_with a (d @ [46])"
      using anchor_child [OF anchor] by blast
    have "?q \<noteq> [] \<longrightarrow> ?q \<in> set xs"
    proof
      assume q: "?q \<noteq> []"
      show "?q \<in> set xs"
      proof (cases "a = d")
        case True
        then show ?thesis using parent_before [of xs a ys] first old d(1,2) q by simp
      next
        case False
        then have "d \<in> set xs" using ancestor_before [OF first old] d(3) by blast
        then obtain us vs where "xs = us @ d # vs" by (meson split_list)
        then show ?thesis using parent_before [of us d "vs @ a # ys"] first old d(1,2) q by simp
      qed
    qed
    moreover have "parents_in (insert k (insert a (set xs))) ys"
      by (rule parents_in_mono [of "insert a (set xs)"]) (use first old in \<open>auto simp: parents_in_append\<close>)
    ultimately show ?thesis using first unfolding old new by (simp add: parents_in_append k dot)
  qed
  moreover have "pe_indentation p = 0 \<longleftrightarrow> ?q = []" using parent by (auto simp: parent_chosen_def split: if_splits option.splits)
  ultimately show ?thesis using order dot by (auto simp: order_ok_def get added_property_def split: if_splits)
qed

subsection \<open>Editing, removing and sorting\<close>

lemma order_filter:
  assumes order: "order_ok s" and keys: "obj_keys s' = filter P (obj_keys s)"
    and closed: "\<And>x. x \<in> set (obj_keys s) \<Longrightarrow> P x \<Longrightarrow> 46 \<in> set x \<Longrightarrow> P (getParentPropertyKey x)"
    and indent: "\<And>x p'. obj_get s' x = Some p' \<Longrightarrow> \<exists>p. obj_get s x = Some p \<and> ep_indentation p' = ep_indentation p"
  shows "order_ok s'"
proof -
  have "parents_in {} (obj_keys s)" using order by (simp add: order_ok_def)
  from parents_in_filter [OF this, of P "{}"] closed have "parents_in {} (obj_keys s')" by (simp add: keys)
  then show ?thesis using order indent unfolding order_ok_def by metis
qed

lemma order_edit:
  assumes order: "order_ok (editableSchema st)" and step: "onEditProperty st k p source role un = Inr st'"
  shows "order_ok (editableSchema st')"
  using step
proof (rule onEditProperty_spec)
  fix current t nested s
  assume k: "obj_get (editableSchema st) k = Some current"
    and nested: "nested = (if kind_of (ep_type current) = KObject \<and> kind_of t \<noteq> KObject
               then filter (\<lambda>d. starts_with d (k @ [46])) (obj_keys (editableSchema st)) else [])"
    and keys: "obj_keys (editableSchema st') = filter (\<lambda>x. x \<notin> set nested) (obj_keys (editableSchema st))"
    and get: "\<And>x. obj_get (editableSchema st') x =
       (if x \<in> set nested then None else if x = k then Some (edited_property current p t)
        else map_option (\<lambda>q. if pe_name p \<noteq> ep_name current \<and> kind_of t = KObject \<and> ep_root q = ep_name current
                             then q\<lparr>ep_root := pe_name p\<rparr> else q) (obj_get (editableSchema st) x))"
  show ?thesis
  proof (rule order_filter [OF order keys])
    show "getParentPropertyKey x \<notin> set nested" if "x \<in> set (obj_keys (editableSchema st))" "x \<notin> set nested" "46 \<in> set x" for x
      using that nested_closed [of x k] by (auto simp: nested split: if_splits)
    show "\<exists>q. obj_get (editableSchema st) x = Some q \<and> ep_indentation p' = ep_indentation q" if "obj_get (editableSchema st') x = Some p'" for x p'
      using that k by (auto simp: get edited_property_def split: if_splits)
  qed
qed

lemma order_remove:
  assumes ok: "editable_ok (editableSchema st)" and order: "order_ok (editableSchema st)"
    and step: "onRemoveProperty st k isFiltered = Inr (st', next)"
  shows "order_ok (editableSchema st')"
  using step
proof (rule onRemoveProperty_spec)
  fix current path nested
  assume k: "obj_get (editableSchema st) k = Some current"
    and nested: "nested = (if kind_of (ep_type current) = KObject then filter (\<lambda>d. starts_with d (k @ [46])) (obj_keys (editableSchema st)) else [])"
    and keys: "obj_keys (editableSchema st') = filter (\<lambda>x. x \<noteq> k \<and> x \<notin> set nested) (obj_keys (editableSchema st))"
    and get: "\<And>x. obj_get (editableSchema st') x = (if x = k \<or> x \<in> set nested then None else obj_get (editableSchema st) x)"
  show ?thesis
  proof (rule order_filter [OF order keys])
    fix x assume x: "x \<in> set (obj_keys (editableSchema st))" "x \<noteq> k \<and> x \<notin> set nested" "46 \<in> set x"
    have "starts_with x (k @ [46]) \<Longrightarrow> x \<in> set nested" using object_of_nested [OF ok x(1), of k] k x(1) by (auto simp: nested)
    then show "getParentPropertyKey x \<noteq> k \<and> getParentPropertyKey x \<notin> set nested"
      using x nested_closed [OF x(3), of k] by (auto simp: nested split: if_splits)
  qed (auto simp: get split: if_splits)
qed

lemma find_index_Some: "find_index P ks = Some i \<Longrightarrow> i < length ks \<and> P (ks ! i)"
  by (induction ks arbitrary: i) (auto split: if_splits)

lemma parents_in_reordered:
  assumes first: "parents_in {} ks" and m: "m \<in> set ks" "[] \<notin> set ks" and over: "overRow \<in> set ks" "overRow \<noteq> m" "getParentPropertyKey overRow = getParentPropertyKey m"
  shows "parents_in {} (reordered_keys overRow m ks)"
proof -
  define block where "block = moved_block m ks"
  define R where "R = filter (\<lambda>k. k \<notin> set block) ks"
  have block: "x \<in> set block \<longleftrightarrow> x \<in> set ks \<and> (x = m \<or> starts_with x (m @ [46]))" for x by (auto simp: block_def moved_block_def js_Cons)
  have out: "getParentPropertyKey x \<notin> set block" if "x \<in> set ks" "x \<notin> set block" "46 \<in> set x" for x
    using that nested_closed [of x m] by (auto simp: block)
  have R: "parents_in {} R" using parents_in_filter [OF first, of "\<lambda>k. k \<notin> set block" "{}"] out by (simp add: R_def)
  have "overRow \<notin> set block"
  proof
    assume "overRow \<in> set block"
    then have below: "starts_with overRow (m @ [46])" using over(2) by (simp add: block)
    then have "getParentPropertyKey m = m \<or> starts_with (getParentPropertyKey m) (m @ [46])" using nested_parent [of overRow m] over(3) by (simp add: js_Cons)
    then have long: "length m \<le> length (getParentPropertyKey m)" by (auto simp: starts_with_iff)
    show False
    proof (cases "46 \<in> set m")
      case True
      then show False by (rule dotted_key) (use long in simp)
    next
      case False
      then show False using long m by (auto simp: parent_plain)
    qed
  qed
  then have inR: "overRow \<in> set R" using over(1) by (simp add: R_def)
  obtain i where find: "find_index (\<lambda>x. x = overRow) R = Some i" using find_index_in [OF inR] by (rule exE)
  have i: "i < length R" "R ! i = overRow"
    by (rule find_index_Some [OF find, THEN conjunct1], rule find_index_Some [OF find, THEN conjunct2])
  define n where "n = i + (if index_of ks overRow > index_of ks m then 1 else 0)"
  have keys: "reordered_keys overRow m ks = take n R @ block @ drop n R"
    using find by (simp add: reordered_keys_def Let_def block_def [symmetric] R_def [symmetric] splice_in_def index_of_def n_def nat_add_distrib)
  have take: "set (take i R) \<subseteq> set (take n R)" by (rule set_take_subset_set_take) (simp add: n_def)
  have parent: "getParentPropertyKey m \<in> set (take n R)" if "46 \<in> set m"
  proof -
    obtain us vs where "ks = us @ m # vs" using m(1) by (meson split_list)
    then have "getParentPropertyKey m \<noteq> []" using parent_before [of us m vs] first that m(2) by auto
    then have "46 \<in> set overRow" using parent_plain [of overRow] over(3) by auto
    moreover have "R = take i R @ overRow # drop (Suc i) R" using id_take_nth_drop [OF i(1)] i(2) by simp
    ultimately have "getParentPropertyKey overRow \<in> set (take i R)" using parent_before [of "take i R" overRow "drop (Suc i) R"] R by simp
    then show ?thesis using take over(3) by auto
  qed
  let ?P = "\<lambda>x. x = m \<or> starts_with x (m @ [46])"
  have "\<forall>x \<in> set ks. ?P x \<and> 46 \<in> set x \<longrightarrow> ?P (getParentPropertyKey x) \<or> getParentPropertyKey x \<in> set (take n R)"
    using parent nested_parent [of _ m] by (auto simp: js_Cons)
  from parents_in_filter [OF first this] have inside: "parents_in (set (take n R)) block"
    by (simp add: block_def moved_block_def js_Cons)
  have parts: "parents_in {} (take n R)" "parents_in (set (take n R)) (drop n R)"
    using R parents_in_append [of "{}" "take n R" "drop n R"] by simp_all
  show ?thesis unfolding keys using parts inside parents_in_mono [OF parts(2), of "set (take n R) \<union> set block"]
    by (simp add: parents_in_append)
qed

lemma order_sort:
  assumes ok: "editable_ok (editableSchema st)" and order: "order_ok (editableSchema st)"
  shows "order_ok (editableSchema (onSortRow overRow m (st :: schema_editor)))"
proof (cases "reorderEditableSchema (Some (editableSchema st)) overRow m")
  case None
  then show ?thesis using order by (simp add: onSortRow_def)
next
  case (Some s)
  let ?ks = "obj_keys (editableSchema st)"
  have cond: "overRow \<noteq> m" "overRow \<in> set ?ks" "getParentPropertyKey overRow = getParentPropertyKey m"
    using Some by (auto simp: reorderEditableSchema_def in_obj_keys split: if_splits)
  have s: "obj_keys s = reordered_keys overRow m ?ks" "\<forall>k. obj_get s k = obj_get (editableSchema st) k" "m \<in> set ?ks"
    using reorderEditableSchema_spec [OF Some editable_ok_distinct [OF ok]] by blast+
  have "[] \<notin> set ?ks" using editable_ok_plain [OF ok, of "[]"]
    by (cases "obj_get (editableSchema st) []") (auto simp: in_obj_keys)
  with parents_in_reordered [OF _ s(3) _ cond(2,1,3)] order have "parents_in {} (obj_keys s)" by (simp add: s(1) order_ok_def)
  then show ?thesis using order s(2) Some by (simp add: order_ok_def onSortRow_def Let_def)
qed

lemma reachable_order_ok:
  assumes "schema_editor_reachable careful ps roles sources st" "wf_properties ps" "names_nonempty ps"
  shows "order_ok (editableSchema st)"
  using assms
proof (induction rule: schema_editor_reachable.induct)
  case opened
  then show ?case by (simp add: opened_order open_editor_fields)
next
  case (added st p source role selected st' k)
  then show ?case using order_add [OF reachable_editable_ok [OF added.hyps(1)]] by blast
next
  case (edited st k p un source role st')
  then show ?case using order_edit by blast
next
  case (removed st k isFiltered st' "next")
  then show ?case using order_remove [OF reachable_editable_ok [OF removed.hyps(1)]] by blast
next
  case (sorted st overRow moved)
  then show ?case using order_sort [OF reachable_editable_ok [OF sorted.hyps(1)]] by blast
qed

end
