(* ===== verification/Property_Parents.thy ===== *)
theory Property_Parents
  imports Schema_Editor_Invariants
begin

section \<open>The objects a property can be added to (useSchemaEdit.tsx, PropertyForm.tsx)\<close>

text \<open>
  The form of a property offers the top level and the objects of the schema as parents, each with the names its
  properties have. The list is built by a loop over a stack, which would not end on a schema with an empty key.
\<close>

record property_parent =
  pp_key :: jsstr
  pp_label :: jsstr
  pp_indentation :: nat
  pp_root :: jsstr
  pp_propertyNames :: "jsstr list"

text \<open>\<open>const list = map.get(k) || []; list.push(v); map.set(k, list)\<close>\<close>

definition push_in :: "('k, 'v list) omap \<Rightarrow> 'k \<Rightarrow> 'v \<Rightarrow> ('k, 'v list) omap" where
  "push_in m k v = obj_set m k ((case obj_get m k of None \<Rightarrow> [] | Some vs \<Rightarrow> vs) @ [v])"

definition names_or_empty :: "('k, 'v list) omap \<Rightarrow> 'k \<Rightarrow> 'v list" where
  "names_or_empty m k = (case obj_get m k of None \<Rightarrow> [] | Some vs \<Rightarrow> vs)"

definition names_by_parent :: "editable_schema \<Rightarrow> jsstr list obj" where
  "names_by_parent schema = foldl (\<lambda>m (k, p). push_in m (getParentPropertyKey k) (ep_name p)) [] schema"

text \<open>The names of the property and of its ancestors that exist, joined by \<open>\<rangle>\<close> between spaces.\<close>

definition parent_label :: "editable_schema \<Rightarrow> jsstr \<Rightarrow> jsstr" where
  "parent_label schema k =
     join_with [32, 8250, 32]
       (concat (map (\<lambda>i. case obj_get schema (path_of (take (i + 1) (segments k))) of None \<Rightarrow> [] | Some p \<Rightarrow> [ep_name p])
         [0..<length (segments k)]))"

definition parent_of_object :: "editable_schema \<Rightarrow> jsstr \<Rightarrow> editable_property \<Rightarrow> property_parent" where
  "parent_of_object schema k property =
     \<lparr>pp_key = k, pp_label = parent_label schema k, pp_indentation = ep_indentation property + 1, pp_root = ep_root property,
      pp_propertyNames = names_or_empty (names_by_parent schema) k\<rparr>"

definition objects_by_parent :: "editable_schema \<Rightarrow> property_parent list obj" where
  "objects_by_parent schema =
     foldl (\<lambda>m (k, property). if kind_of (ep_type property) \<noteq> KObject then m
        else push_in m (getParentPropertyKey k) (parent_of_object schema k property)) [] schema"

text \<open>The end of the list \<open>pending\<close> is the top of the stack.\<close>

partial_function (option) collect_parents :: "(jsstr \<Rightarrow> property_parent list) \<Rightarrow> property_parent list \<Rightarrow> property_parent list \<Rightarrow> property_parent list option" where
  "collect_parents children pending parents =
     (if pending = [] then Some parents
      else let parent = last pending
           in collect_parents children (butlast pending @ rev (children (pp_key parent))) (parents @ [parent]))"

definition top_parent :: "jsstr list \<Rightarrow> property_parent" where
  "top_parent names =
     \<lparr>pp_key = [], pp_label = js ''Profile (top level)'', pp_indentation = 0, pp_root = [], pp_propertyNames = names\<rparr>"

definition getPropertyParents :: "editable_schema option \<Rightarrow> property_parent list option" where
  "getPropertyParents schema =
     (case schema of
        None \<Rightarrow> Some [top_parent []]
      | Some s \<Rightarrow>
          (let parents = [top_parent (names_or_empty (names_by_parent s) [])];
               children = names_or_empty (objects_by_parent s)
           in collect_parents children (rev (children [])) parents))"

text \<open>\<open>getPropertyNameError\<close> of the form: \<open>None\<close> is the empty string.\<close>

datatype name_problem = Invalid name_error | Taken jsstr jsstr

definition getPropertyNameError ::
    "jsstr \<Rightarrow> jsstr \<Rightarrow> jsstr option \<Rightarrow> property_parent list option \<Rightarrow> name_problem option" where
  "getPropertyNameError name parentKey originalName parents =
     (case validatePropertyName name of
        Inl e \<Rightarrow> Some (Invalid e)
      | Inr _ \<Rightarrow>
          if originalName = Some name then None
          else (case Option.bind parents (find (\<lambda>candidate. pp_key candidate = parentKey)) of
                  None \<Rightarrow> None
                | Some parent \<Rightarrow> if name \<in> set (pp_propertyNames parent) then Some (Taken name (pp_label parent)) else None))"

subsection \<open>Grouping by parent\<close>

lemma names_or_empty_push: "names_or_empty (push_in m k v) x = (if x = k then names_or_empty m k @ [v] else names_or_empty m x)"
  by (simp add: names_or_empty_def push_in_def)

lemma names_or_empty_nil [simp]: "names_or_empty [] k = []"
  by (simp add: names_or_empty_def obj_get_def)

lemma grouped_names:
  "names_or_empty (names_by_parent s) x = map (\<lambda>(k, p). ep_name p) (filter (\<lambda>(k, p). getParentPropertyKey k = x) s)"
proof -
  have "names_or_empty (foldl (\<lambda>m (k, p). push_in m (getParentPropertyKey k) (ep_name p)) m s) x =
      names_or_empty m x @ map (\<lambda>(k, p). ep_name p) (filter (\<lambda>(k, p). getParentPropertyKey k = x) s)" for m
    by (induction s arbitrary: m) (auto simp: names_or_empty_push)
  then show ?thesis by (simp add: names_by_parent_def)
qed

lemma grouped_objects:
  "names_or_empty (objects_by_parent s) x = map (\<lambda>(k, p). parent_of_object s k p)
     (filter (\<lambda>(k, p). kind_of (ep_type p) = KObject \<and> getParentPropertyKey k = x) s)"
proof -
  have "names_or_empty (foldl (\<lambda>m (k, property). if kind_of (ep_type property) \<noteq> KObject then m
        else push_in m (getParentPropertyKey k) (parent_of_object s k property)) m r) x =
      names_or_empty m x @ map (\<lambda>(k, p). parent_of_object s k p)
        (filter (\<lambda>(k, p). kind_of (ep_type p) = KObject \<and> getParentPropertyKey k = x) r)" for m r
    by (induction r arbitrary: m) (auto simp: names_or_empty_push split: if_splits)
  then show ?thesis by (simp add: objects_by_parent_def)
qed

subsection \<open>The loop visits the objects depth first\<close>

text \<open>What the loop adds for an element: the element and what it adds for its children; \<open>n\<close> bounds the depth.\<close>

fun visited :: "(jsstr \<Rightarrow> property_parent list) \<Rightarrow> nat \<Rightarrow> property_parent \<Rightarrow> property_parent list" where
  "visited children 0 p = [p]"
| "visited children (Suc n) p = p # concat (map (visited children n) (children (pp_key p)))"

fun depth_within :: "(jsstr \<Rightarrow> property_parent list) \<Rightarrow> nat \<Rightarrow> property_parent \<Rightarrow> bool" where
  "depth_within children 0 p = (children (pp_key p) = [])"
| "depth_within children (Suc n) p = list_all (depth_within children n) (children (pp_key p))"

lemma collect_parents_visits:
  "depth_within kids n p \<Longrightarrow> collect_parents kids (xs @ [p]) acc = collect_parents kids xs (acc @ visited kids n p)"
proof (induction n arbitrary: p xs acc)
  case 0
  then show ?case by (subst collect_parents.simps) simp
next
  case (Suc n)
  have list: "list_all (depth_within kids n) cs \<Longrightarrow>
      collect_parents kids (xs @ rev cs) acc = collect_parents kids xs (acc @ concat (map (visited kids n) cs))" for cs acc
  proof (induction cs arbitrary: acc)
    case (Cons c cs)
    then show ?case using Suc.IH [of c "xs @ rev cs" acc] by simp
  qed simp
  show ?case using Suc.prems list [of "kids (pp_key p)" "acc @ [p]"] by (subst collect_parents.simps) simp
qed

lemma collect_parents_list:
  "list_all (depth_within kids n) cs \<Longrightarrow> collect_parents kids (rev cs) acc = Some (acc @ concat (map (visited kids n) cs))"
proof (induction cs arbitrary: acc)
  case Nil
  then show ?case by (simp add: collect_parents.simps)
next
  case (Cons c cs)
  then show ?case using collect_parents_visits [of kids n c "rev cs" acc] by simp
qed

text \<open>The depth is bounded by the lengths of the keys.\<close>

lemma depth_bound:
  assumes "\<And>k c. c \<in> set (kids k) \<Longrightarrow> length (pp_key c) \<le> M \<and> (k \<noteq> [] \<longrightarrow> length k < length (pp_key c)) \<and> pp_key c \<noteq> []"
  shows "M \<le> n + length (pp_key p) \<Longrightarrow> pp_key p \<noteq> [] \<Longrightarrow> depth_within kids n p"
proof (induction n arbitrary: p)
  case 0
  have "False" if "c \<in> set (kids (pp_key p))" for c using assms [OF that] 0 by simp
  then show ?case by (cases "kids (pp_key p)") auto
next
  case (Suc n)
  have "depth_within kids n c" if "c \<in> set (kids (pp_key p))" for c
    using assms [OF that] Suc.prems by (intro Suc.IH) auto
  then show ?case by (simp add: list_all_iff)
qed

lemma visited_self: "p \<in> set (visited kids n p)"
  by (cases n) simp_all

lemma visited_child:
  "depth_within kids n p \<Longrightarrow> q \<in> set (visited kids n p) \<Longrightarrow> c \<in> set (kids (pp_key q)) \<Longrightarrow> c \<in> set (visited kids n p)"
proof (induction n arbitrary: p)
  case (Suc n)
  from Suc.prems(2) consider "q = p" | d where "d \<in> set (kids (pp_key p))" "q \<in> set (visited kids n d)" by auto
  then show ?case
  proof cases
    case 1
    then show ?thesis using Suc.prems(3) visited_self by auto
  next
    case 2
    then have "c \<in> set (visited kids n d)" using Suc.prems(1,3) by (intro Suc.IH) (auto simp: list_all_iff)
    then show ?thesis using 2(1) by auto
  qed
qed simp

lemma visited_below:
  assumes "\<And>k c. c \<in> set (kids k) \<Longrightarrow> k \<noteq> [] \<Longrightarrow> starts_with (pp_key c) (k @ [46])" "\<And>k c. c \<in> set (kids k) \<Longrightarrow> pp_key c \<noteq> []"
  shows "pp_key p \<noteq> [] \<Longrightarrow> q \<in> set (visited kids n p) \<Longrightarrow> q = p \<or> starts_with (pp_key q) (pp_key p @ [46])"
proof (induction n arbitrary: p)
  case (Suc n)
  from Suc.prems(2) consider "q = p" | d where "d \<in> set (kids (pp_key p))" "q \<in> set (visited kids n d)" by auto
  then show ?case
  proof cases
    case 2
    then have "q = d \<or> starts_with (pp_key q) (pp_key d @ [46])" using assms(2) by (intro Suc.IH) auto
    moreover have "starts_with (pp_key d) (pp_key p @ [46])" using assms(1) 2(1) Suc.prems(1) by blast
    ultimately show ?thesis by (auto simp: starts_with_iff)
  qed simp
qed simp

subsection \<open>Every object is offered once\<close>

lemma sibling_overlap:
  assumes "getParentPropertyKey c = getParentPropertyKey d" "c \<noteq> []" "d \<noteq> []"
    and "46 \<in> set c \<longrightarrow> getParentPropertyKey c \<noteq> []" "46 \<in> set d \<longrightarrow> getParentPropertyKey d \<noteq> []"
    and "q = c \<or> starts_with q (c @ [46])" "q = d \<or> starts_with q (d @ [46])"
  shows "c = d"
proof -
  let ?k = "getParentPropertyKey c"
  let ?pre = "if ?k = [] then [] else ?k @ [46]"
  have form: "\<exists>w. x = ?pre @ w \<and> 46 \<notin> set w" if "getParentPropertyKey x = ?k" "46 \<in> set x \<longrightarrow> getParentPropertyKey x \<noteq> []" for x
  proof (cases "46 \<in> set x")
    case True
    then show ?thesis by (rule dotted_key) (use that True in auto)
  next
    case False
    then show ?thesis using that parent_plain [OF False] by auto
  qed
  obtain w where w: "c = ?pre @ w" "46 \<notin> set w" using form [OF refl assms(4)] by blast
  obtain v where v: "d = ?pre @ v" "46 \<notin> set v" using form [of d] assms(1,5) by auto
  obtain r where r: "q = c @ r" "r = [] \<or> hd r = 46" using assms(6) by (auto simp: starts_with_iff)
  obtain t where t: "q = d @ t" "t = [] \<or> hd t = 46" using assms(7) by (auto simp: starts_with_iff)
  have word: "takeWhile (\<lambda>x. x \<noteq> 46) (y @ z) = y" if "46 \<notin> set y" "z = [] \<or> hd z = 46" for y z :: jsstr
    using that by (cases z) (auto simp: takeWhile_append)
  have "?pre @ (w @ r) = ?pre @ (v @ t)" using r(1) t(1) w(1) v(1) by (metis append.assoc)
  then have "w @ r = v @ t" by (rule same_append_eq [THEN iffD1])
  then have "w = v" using word [OF w(2) r(2)] word [OF v(2) t(2)] by simp
  then show ?thesis using w(1) v(1) by simp
qed

lemma visited_zero: "concat (map (visited kids 0) ps) = ps"
  by (induction ps) simp_all

lemma nested_longer: "starts_with x (k @ [46]) \<Longrightarrow> length k < length x"
  by (auto simp: starts_with_iff)

lemma visited_distinct:
  assumes below: "\<And>k c. c \<in> set (kids k) \<Longrightarrow> k \<noteq> [] \<Longrightarrow> starts_with (pp_key c) (k @ [46])"
    and ne: "\<And>k c. c \<in> set (kids k) \<Longrightarrow> pp_key c \<noteq> []"
    and apart: "\<And>k c d q. c \<in> set (kids k) \<Longrightarrow> d \<in> set (kids k) \<Longrightarrow> q = pp_key c \<or> starts_with q (pp_key c @ [46]) \<Longrightarrow>
      q = pp_key d \<or> starts_with q (pp_key d @ [46]) \<Longrightarrow> c = d"
    and distinct: "\<And>k. distinct (kids k)"
  shows "(pp_key p \<noteq> [] \<longrightarrow> distinct (map pp_key (visited kids n p))) \<and> distinct (map pp_key (concat (map (visited kids n) (kids k))))"
proof (induction n arbitrary: p k)
  have keys: "pp_key q = pp_key c \<or> starts_with (pp_key q) (pp_key c @ [46])" if "q \<in> set (visited kids n c)" "c \<in> set (kids k)" for n q c k
    using visited_below [where kids = kids and p = c and q = q and n = n, OF below ne] ne [OF that(2)] that(1) by auto
  have concat: "distinct (map pp_key (concat (map (visited kids n) cs)))"
    if "\<And>c. c \<in> set cs \<Longrightarrow> distinct (map pp_key (visited kids n c))" "set cs \<subseteq> set (kids k)" "distinct cs" for n cs k
    using that
  proof (induction cs)
    case (Cons c cs)
    have "False" if "q \<in> set (visited kids n c)" "d \<in> set cs" "q' \<in> set (visited kids n d)" "pp_key q = pp_key q'" for q d q'
    proof -
      have "c \<in> set (kids k)" "d \<in> set (kids k)" using Cons.prems that(2) by auto
      then have "c = d" using apart [of c k d "pp_key q"] keys [OF that(1)] keys [OF that(3)] that(4) by metis
      with Cons.prems(3) that(2) show False by simp
    qed
    then show ?case using Cons by (auto 0 3)
  qed simp
  {
    case 0
    have "distinct (map pp_key (concat (map (visited kids 0) (kids k))))" by (rule concat [OF _ subset_refl distinct]) simp
    then show ?case by (simp add: visited_zero)
  next
    case (Suc n)
    have below': "starts_with (pp_key q) (pp_key p @ [46])" if "pp_key p \<noteq> []" "c \<in> set (kids (pp_key p))" "q \<in> set (visited kids n c)" for c q p
      using keys [OF that(3,2)] below [OF that(2,1)] by (auto simp: starts_with_iff)
    have one: "distinct (map pp_key (visited kids (Suc n) p))" if "pp_key p \<noteq> []" for p
    proof -
      have "pp_key q \<noteq> pp_key p" if "q \<in> set (concat (map (visited kids n) (kids (pp_key p))))" for q
        using that below' [OF \<open>pp_key p \<noteq> []\<close>] nested_longer by fastforce
      then have "pp_key p \<notin> pp_key ` set (concat (map (visited kids n) (kids (pp_key p))))" by (metis imageE)
      moreover have "distinct (map pp_key (concat (map (visited kids n) (kids (pp_key p)))))" using Suc.IH [of p "pp_key p"] by blast
      ultimately show ?thesis by simp
    qed
    moreover have "distinct (map pp_key (concat (map (visited kids (Suc n)) (kids k))))"
      by (rule concat [OF one subset_refl distinct]) (rule ne)
    ultimately show ?case by blast
  }
qed

lemma obj_get_mem: "distinct (obj_keys s) \<Longrightarrow> (k, p) \<in> set s \<longleftrightarrow> obj_get s k = Some p"
  by (simp add: obj_get_def obj_keys_def)

lemma in_objects:
  "c \<in> set (names_or_empty (objects_by_parent s) k) \<longleftrightarrow>
     (\<exists>x p. (x, p) \<in> set s \<and> kind_of (ep_type p) = KObject \<and> getParentPropertyKey x = k \<and> c = parent_of_object s x p)"
  by (auto simp: grouped_objects)

subsection \<open>The list is complete\<close>

abbreviation children_of :: "editable_schema \<Rightarrow> jsstr \<Rightarrow> property_parent list" where
  "children_of s \<equiv> names_or_empty (objects_by_parent s)"

text \<open>No key is longer than all the keys together, which bounds the depth of the objects.\<close>

definition depth_limit :: "editable_schema \<Rightarrow> nat" where
  "depth_limit s = sum_list (map length (obj_keys s))"

definition listed_objects :: "editable_schema \<Rightarrow> property_parent list" where
  "listed_objects s = concat (map (visited (children_of s) (depth_limit s)) (children_of s []))"

lemma proper_keys:
  assumes ok: "editable_ok s" and x: "obj_get s x = Some p"
  shows "x \<noteq> []" "46 \<in> set x \<longrightarrow> getParentPropertyKey x \<noteq> []"
  using x editable_ok_plain [OF ok, of x p] editable_ok_parent [OF ok, of x] editable_ok_plain [OF ok, of "[]"]
  by (auto simp: in_obj_keys)

lemma child_object:
  assumes ok: "editable_ok s" and c: "c \<in> set (children_of s k)"
  shows "pp_key c \<noteq> [] \<and> (k \<noteq> [] \<longrightarrow> starts_with (pp_key c) (k @ [46])) \<and> getParentPropertyKey (pp_key c) = k \<and>
    (\<exists>p. obj_get s (pp_key c) = Some p \<and> kind_of (ep_type p) = KObject \<and> c = parent_of_object s (pp_key c) p)"
proof -
  from c obtain x p where x: "(x, p) \<in> set s" "kind_of (ep_type p) = KObject" "getParentPropertyKey x = k" "c = parent_of_object s x p"
    by (auto simp: in_objects)
  then have get: "obj_get s x = Some p" using obj_get_mem [OF editable_ok_distinct [OF ok]] by blast
  have "k \<noteq> [] \<Longrightarrow> starts_with x (k @ [46])" using x(3) child_nested [of x] parent_plain [of x] by metis
  then show ?thesis using x get proper_keys(1) [OF ok get] by (auto simp: parent_of_object_def)
qed

lemma child_depth:
  assumes ok: "editable_ok s" and c: "c \<in> set (children_of s [])"
  shows "depth_within (children_of s) (depth_limit s) c"
proof (rule depth_bound)
  fix c k assume c: "c \<in> set (children_of s k)"
  have "pp_key c \<in> set (obj_keys s)" using child_object [OF ok c] by (auto simp: in_obj_keys)
  then have "length (pp_key c) \<le> depth_limit s" unfolding depth_limit_def by (intro member_le_sum_list) auto
  then show "length (pp_key c) \<le> depth_limit s \<and> (k \<noteq> [] \<longrightarrow> length k < length (pp_key c)) \<and> pp_key c \<noteq> []"
    using child_object [OF ok c] nested_longer [of "pp_key c" k] by blast
qed (use child_object [OF ok c] in auto)

lemma getPropertyParents_eq:
  assumes ok: "editable_ok s"
  shows "getPropertyParents (Some s) = Some (top_parent (names_or_empty (names_by_parent s) []) # listed_objects s)"
  using collect_parents_list [of "children_of s" "depth_limit s" "children_of s []"] child_depth [OF ok]
  by (simp add: getPropertyParents_def list_all_iff Let_def listed_objects_def)

lemma listed_child:
  assumes "q \<in> set (listed_objects s)"
  shows "\<exists>k. q \<in> set (children_of s k)"
proof -
  have "\<exists>k. q \<in> set (children_of s k)" if "q \<in> set (visited (children_of s) n p)" "\<exists>k. p \<in> set (children_of s k)" for n p
    using that by (induction n arbitrary: p) auto
  then show ?thesis using assms by (auto simp: listed_objects_def)
qed

lemma objects_listed:
  assumes ok: "editable_ok s"
  shows "obj_get s x = Some p \<Longrightarrow> kind_of (ep_type p) = KObject \<Longrightarrow> parent_of_object s x p \<in> set (listed_objects s)"
proof (induction "length x" arbitrary: x p rule: less_induct)
  case less
  have self: "parent_of_object s x p \<in> set (children_of s (getParentPropertyKey x))"
    using less.prems obj_get_mem [OF editable_ok_distinct [OF ok]] by (auto simp: in_objects)
  show ?case
  proof (cases "getParentPropertyKey x = []")
    case True
    then show ?thesis using self visited_self by (auto simp: listed_objects_def intro!: bexI [of _ "parent_of_object s x p"])
  next
    case False
    then have dot: "46 \<in> set x" using parent_plain by blast
    obtain q where q: "obj_get s (getParentPropertyKey x) = Some q" "kind_of (ep_type q) = KObject"
      using editable_ok_parent [OF ok _ dot] less.prems(1) by (auto simp: in_obj_keys)
    have "length (getParentPropertyKey x) < length x" by (rule dotted_key [OF dot]) simp
    from less.hyps [OF this q] obtain d where "d \<in> set (children_of s [])"
      "parent_of_object s (getParentPropertyKey x) q \<in> set (visited (children_of s) (depth_limit s) d)"
      by (auto simp: listed_objects_def)
    then show ?thesis
      using visited_child [OF child_depth [OF ok], of d "parent_of_object s (getParentPropertyKey x) q" "parent_of_object s x p"] self
      by (auto simp: listed_objects_def parent_of_object_def)
  qed
qed

lemma listed_distinct:
  assumes ok: "editable_ok s"
  shows "distinct (map pp_key (listed_objects s))"
proof -
  have "distinct (children_of s k)" for k
  proof -
    have "distinct (map pp_key (children_of s k))" using editable_ok_distinct [OF ok]
      by (auto simp: grouped_objects comp_def parent_of_object_def case_prod_beta obj_keys_def distinct_map_filter)
    then show ?thesis by (simp add: distinct_map)
  qed
  moreover have "c = d" if "c \<in> set (children_of s k)" "d \<in> set (children_of s k)" "q = pp_key c \<or> starts_with q (pp_key c @ [46])"
    "q = pp_key d \<or> starts_with q (pp_key d @ [46])" for k c d q
  proof -
    have "pp_key c = pp_key d"
      by (rule sibling_overlap [OF _ _ _ _ _ that(3,4)])
        (use child_object [OF ok that(1)] child_object [OF ok that(2)] proper_keys(2) [OF ok] in auto)
    then show ?thesis using child_object [OF ok that(1)] child_object [OF ok that(2)] by auto
  qed
  ultimately show ?thesis
    unfolding listed_objects_def using visited_distinct [of "children_of s" _ "depth_limit s" "[]"] child_object [OF ok] by blast
qed

lemma parents_listed:
  assumes ok: "editable_ok s"
  shows "\<exists>parents. getPropertyParents (Some s) = Some parents \<and> distinct (map pp_key parents) \<and>
    pp_key ` set parents = insert [] {k. is_object_key s k} \<and>
    (\<forall>q \<in> set parents. pp_propertyNames q = map (\<lambda>(k, p). ep_name p) (filter (\<lambda>(k, p). getParentPropertyKey k = pp_key q) s))"
proof -
  have listed: "pp_key q \<noteq> [] \<and> (\<exists>p. obj_get s (pp_key q) = Some p \<and> kind_of (ep_type p) = KObject \<and> q = parent_of_object s (pp_key q) p)"
    if "q \<in> set (listed_objects s)" for q
    using listed_child [OF that] child_object [OF ok] by blast
  have "k \<in> pp_key ` set (listed_objects s)" if "is_object_key s k" for k
    using is_object_keyD [OF that] objects_listed [OF ok, of k] by (force simp: parent_of_object_def)
  then have keys: "pp_key ` set (listed_objects s) = {k. is_object_key s k}"
    using listed by (fastforce simp: is_object_key_def)
  have "pp_propertyNames q = map (\<lambda>(k, p). ep_name p) (filter (\<lambda>(k, p). getParentPropertyKey k = pp_key q) s)"
    if q: "q \<in> set (listed_objects s)" for q
  proof -
    obtain p where "q = parent_of_object s (pp_key q) p" using listed [OF q] by blast
    then have "pp_propertyNames q = names_or_empty (names_by_parent s) (pp_key q)" by (metis parent_of_object_def property_parent.select_convs(1,5))
    then show ?thesis by (simp add: grouped_names)
  qed
  moreover have "[] \<notin> pp_key ` set (listed_objects s)" using listed by force
  ultimately show ?thesis
    using getPropertyParents_eq [OF ok] listed_distinct [OF ok] keys by (simp add: top_parent_def grouped_names)
qed

text \<open>
  C19: For a well-formed schema the loop ends, and the list offers the top level and every object of the
  schema, once each, with the names of the properties inside it, in their order.
\<close>

theorem getPropertyParents_complete:
  assumes ok: "editable_ok s"
  shows "\<exists>parents. getPropertyParents (Some s) = Some parents \<and> distinct (map pp_key parents) \<and>
    pp_key ` set parents = insert [] {k. is_object_key s k} \<and>
    (\<forall>q \<in> set parents. pp_propertyNames q = map (\<lambda>(k, p). ep_name p) (filter (\<lambda>(k, p). getParentPropertyKey k = pp_key q) s))"
  by (rule parents_listed [OF ok])

theorem getPropertyParents_complete_witness:
  "\<exists>parents. getPropertyParents (Some (opened_schema example_schema)) = Some parents \<and> distinct (map pp_key parents) \<and>
    js ''address.geo'' \<in> pp_key ` set parents"
proof -
  have "is_object_key (opened_schema example_schema) (js ''address.geo'')"
    by (simp add: is_object_key_def opened_properties_def is_meta_property_def example_schema_simps js_simps editableProperty_def)
  with getPropertyParents_complete [OF opened_ok [OF example_schema_wf example_schema_names]] show ?thesis by blast
qed

subsection \<open>The form and the editor agree\<close>

lemma form_finds_name:
  assumes ok: "editable_ok s" and parents: "getPropertyParents (Some s) = Some parents"
    and parent: "parentKey = [] \<or> is_object_key s parentKey"
  shows "\<exists>q. find (\<lambda>candidate. pp_key candidate = parentKey) parents = Some q \<and> pp_key q = parentKey \<and>
    (name \<in> set (pp_propertyNames q) \<longleftrightarrow> name_taken s parentKey name)"
proof -
  have all: "pp_key ` set parents = insert [] {k. is_object_key s k}"
    "\<forall>q \<in> set parents. pp_propertyNames q = map (\<lambda>(k, p). ep_name p) (filter (\<lambda>(k, p). getParentPropertyKey k = pp_key q) s)"
    using parents_listed [OF ok] parents by auto
  have "parentKey \<in> pp_key ` set parents" using parent all(1) by auto
  then obtain q where q: "find (\<lambda>candidate. pp_key candidate = parentKey) parents = Some q"
    by (cases "find (\<lambda>candidate. pp_key candidate = parentKey) parents") (auto simp: find_None_iff)
  then have mem: "q \<in> set parents" "pp_key q = parentKey" by (auto simp: find_Some_iff)
  then have "pp_propertyNames q = map (\<lambda>(k, p). ep_name p) (filter (\<lambda>(k, p). getParentPropertyKey k = parentKey) s)"
    using all(2) by auto
  then have "name \<in> set (pp_propertyNames q) \<longleftrightarrow> name_taken s parentKey name"
    by (auto simp: name_taken_def list_ex_iff)
  with q mem show ?thesis by blast
qed

lemma validatePropertyName_not_meta: "validatePropertyName name = Inr () \<Longrightarrow> \<not> is_meta_property name"
  by (auto simp: validatePropertyName_def is_meta_property_def split: if_splits)

text \<open>
  C20: In every reachable state the form, which looks in the list of the parents, and the editor, which
  looks in the schema, agree on the names that are taken. The form shows no error for a new property under a listed parent
  exactly when the name has the accepted form (letters, digits and underscores, not first a digit or an underscore), which
  the editor does not check, and the editor adds the property; and when the form shows none for a property that is edited,
  the editor changes it.
\<close>

theorem form_and_editor_agree:
  assumes "schema_editor_reachable careful ps roles sources st" "wf_properties ps" "names_nonempty ps"
    and parents: "getPropertyParents (Some (editableSchema st)) = Some parents"
    and type: "pe_type p = Some t"
  shows "(pe_parentKey p \<in> pp_key ` set parents \<longrightarrow>
      (getPropertyNameError (pe_name p) (pe_parentKey p) None (Some parents) = None \<longleftrightarrow>
       validatePropertyName (pe_name p) = Inr () \<and> (\<exists>st' k. onAddProperty st p source role sel = Inr (st', k)))) \<and>
    (\<forall>k current. obj_get (editableSchema st) k = Some current \<and>
      getPropertyNameError (pe_name p) (getParentPropertyKey k) (Some (ep_name current)) (Some parents) = None \<longrightarrow>
       (\<exists>st'. onEditProperty st k p source role un = Inr st'))"
proof -
  have ok: "editable_ok (editableSchema st)" by (rule reachable_editable_ok [OF assms(1-3)])
  have keys: "pp_key ` set parents = insert [] {k. is_object_key (editableSchema st) k}"
    using parents_listed [OF ok] parents by auto
  have parent: "parent = [] \<or> is_object_key (editableSchema st) parent" if "parent \<in> pp_key ` set parents" for parent
    using that keys by auto
  have error: "getPropertyNameError name parent original (Some parents) = None \<longleftrightarrow> original = Some name \<or> \<not> name_taken (editableSchema st) parent name"
    if "validatePropertyName name = Inr ()" "parent = [] \<or> is_object_key (editableSchema st) parent" for name parent original
    using that(1) form_finds_name [OF ok parents that(2), of name] by (auto simp: getPropertyNameError_def)
  have "getPropertyNameError (pe_name p) (pe_parentKey p) None (Some parents) = None \<longleftrightarrow>
      (\<exists>st' k. onAddProperty st p source role sel = Inr (st', k))"
    if name: "validatePropertyName (pe_name p) = Inr ()" and key: "pe_parentKey p \<in> pp_key ` set parents"
  proof (cases "name_taken (editableSchema st) (pe_parentKey p) (pe_name p)")
    case True
    then show ?thesis using error [OF name parent [OF key]] by (simp add: onAddProperty_def Let_def)
  next
    case False
    then show ?thesis
      using error [OF name parent [OF key]]
        onAddProperty_succeeds [OF editable_ok_distinct [OF ok] validatePropertyName_not_meta [OF name] type False] by blast
  qed
  moreover have "getPropertyNameError name parent original (Some parents) = None \<Longrightarrow> validatePropertyName name = Inr ()" for name parent original
    by (cases "validatePropertyName name") (simp_all add: getPropertyNameError_def)
  moreover have "\<exists>st'. onEditProperty st k p source role un = Inr st'"
    if k: "obj_get (editableSchema st) k = Some current"
      and none: "getPropertyNameError (pe_name p) (getParentPropertyKey k) (Some (ep_name current)) (Some parents) = None" for k current
  proof -
    have name: "validatePropertyName (pe_name p) = Inr ()"
      using none by (cases "validatePropertyName (pe_name p)") (simp_all add: getPropertyNameError_def)
    have "getParentPropertyKey k = [] \<or> is_object_key (editableSchema st) (getParentPropertyKey k)"
      using editable_ok_parent [OF ok, of k] k parent_plain [of k] by (cases "46 \<in> set k") (auto simp: in_obj_keys is_object_key_def)
    then have "pe_name p = ep_name current \<or> \<not> name_taken (editableSchema st) (getParentPropertyKey k) (pe_name p)"
      using error [OF name] none by auto
    then show ?thesis using onEditProperty_succeeds [OF ok k type] by blast
  qed
  ultimately show ?thesis by blast
qed

theorem form_and_editor_agree_witness:
  "\<exists>parents. getPropertyNameError (js ''mail'') [] (Some (js ''email'')) (Some parents) = None \<and>
    (\<exists>st. onEditProperty opened_profile (js ''email'') email_to_mail None None [] = Inr st)"
proof -
  let ?st = opened_profile
  have ok: "editable_ok (editableSchema ?st)" by (rule reachable_editable_ok [OF opened example_schema_wf example_schema_names])
  obtain parents where parents: "getPropertyParents (Some (editableSchema ?st)) = Some parents"
    using getPropertyParents_complete [OF ok] by blast
  have name: "validatePropertyName (js ''mail'') = Inr ()"
    by (simp add: validatePropertyName_def is_js_space_def is_digit_def is_letter_def is_word_char_def js_Cons)
  have plain: "getParentPropertyKey (js ''email'') = []" by (simp add: parent_plain js_Cons)
  have taken: "getPropertyNameError (js ''mail'') [] (Some (js ''email'')) (Some parents) = None"
    using form_finds_name [OF ok parents, of "[]" "js ''mail''"] opened_profile_email(2) name by (auto simp: getPropertyNameError_def)
  have type: "pe_type email_to_mail = Some string_kind" by (simp add: email_to_mail_def)
  note edit = form_and_editor_agree [OF opened example_schema_wf example_schema_names parents type,
    where source = None and role = None and un = "[]", THEN conjunct2, THEN spec, THEN spec, THEN mp]
  have renamed: "pe_name email_to_mail = js ''mail''" by (simp add: email_to_mail_def)
  have "\<exists>st. onEditProperty ?st (js ''email'') email_to_mail None None [] = Inr st"
    by (intro edit conjI, rule opened_profile_email(1)) (use renamed taken plain in \<open>simp add: plain_property_def\<close>)
  then show ?thesis using taken by (intro exI [of _ parents]) simp
qed

end
