(* ===== verification/Schema_Editor_Saved.thy ===== *)
theory Schema_Editor_Saved
  imports Schema_Editor_Order Property_Parents
begin

section \<open>The schema the editor sends\<close>

text \<open>
  What \<open>normalizeSchema\<close> makes of a reachable schema: the keys, which keep the names the properties had when
  the editor was opened, are gone, and each property is at the path of its present names.
\<close>

subsection \<open>The path of names of a key\<close>

definition property_names :: "editable_schema \<Rightarrow> jsstr \<Rightarrow> jsstr list" where
  "property_names s k = (case ancestor_names s [] (segments k) of Some ns \<Rightarrow> ns | None \<Rightarrow> [])"

lemma ancestor_names_snoc:
  "ancestor_names s done (ws @ [w]) =
     (case (ancestor_names s done ws, obj_get s (path_of (done @ ws @ [w]))) of
        (Some ns, Some p) \<Rightarrow> Some (ns @ [ep_name p]) | _ \<Rightarrow> None)"
proof (induction ws arbitrary: "done")
  case (Cons v ws)
  show ?case using Cons.IH [of "done @ [v]"]
    by (cases "obj_get s (path_of (done @ [v]))"; cases "ancestor_names s (done @ [v]) ws"; cases "obj_get s (path_of (done @ v # ws @ [w]))") simp_all
qed (simp split: option.splits)

lemma segments_nested: "46 \<notin> set w \<Longrightarrow> segments (a @ 46 # w) = segments a @ [w]"
  using segments_path_append [of "segments a" w] by (simp add: split_on_no_sep split_on_not_Nil)

lemma names_of_key:
  assumes ok: "editable_ok s" and k: "obj_get s k = Some p"
  shows "ancestor_names s [] (segments k) = Some (property_names s k)"
    and "46 \<notin> set k \<Longrightarrow> property_names s k = [ep_name p]"
    and "46 \<in> set k \<Longrightarrow> property_names s k = property_names s (getParentPropertyKey k) @ [ep_name p]"
    and "46 \<in> set k \<Longrightarrow> ancestor_names s [] (butlast (segments k)) = Some (property_names s (getParentPropertyKey k))"
proof -
  have total: "\<exists>ns. ancestor_names s [] (segments x) = Some ns" if "x \<in> set (obj_keys s)" for x
    using ancestor_names_total [of "segments x" s "[]"] prefix_keys [OF ok that] by (auto simp: in_obj_keys)
  then show own: "ancestor_names s [] (segments k) = Some (property_names s k)"
    using k by (force simp: property_names_def in_obj_keys)
  show "46 \<notin> set k \<Longrightarrow> property_names s k = [ep_name p]" using own k by (simp add: split_on_no_sep)
  assume dot: "46 \<in> set k"
  obtain a w where aw: "k = a @ 46 # w" "46 \<notin> set w" "getParentPropertyKey k = a" by (rule dotted_key [OF dot])
  obtain q where "obj_get s a = Some q" using editable_ok_parent [OF ok _ dot] k aw(3) by (auto simp: in_obj_keys)
  then have parent: "ancestor_names s [] (segments a) = Some (property_names s a)"
    using total [of a] by (force simp: property_names_def in_obj_keys)
  have segs: "segments k = segments a @ [w]" by (simp add: aw(1) segments_nested [OF aw(2)])
  have "path_of (segments a @ [w]) = k" using join_split [of 46 k] by (simp add: segs)
  then show "property_names s k = property_names s (getParentPropertyKey k) @ [ep_name p]"
    using own parent k ancestor_names_snoc [of s "[]" "segments a" w] by (simp add: segs aw(3))
  show "ancestor_names s [] (butlast (segments k)) = Some (property_names s (getParentPropertyKey k))"
    using parent by (simp add: segs aw(3))
qed

lemma property_names_ne:
  assumes "editable_ok s" "obj_get s k = Some p"
  shows "property_names s k \<noteq> [] \<and> last (property_names s k) = ep_name p"
  using names_of_key(2,3) [OF assms] by (cases "46 \<in> set k") simp_all

lemma property_names_inj:
  assumes ok: "editable_ok s"
  shows "obj_get s k = Some p \<Longrightarrow> obj_get s l = Some q \<Longrightarrow> property_names s k = property_names s l \<Longrightarrow> k = l"
proof (induction "length k" arbitrary: k l p q rule: less_induct)
  case less
  have name: "ep_name p = ep_name q"
    using property_names_ne [OF ok less.prems(1)] property_names_ne [OF ok less.prems(2)] less.prems(3) by simp
  have parent: "\<exists>r. obj_get s (getParentPropertyKey x) = Some r" if "46 \<in> set x" "obj_get s x \<noteq> None" for x
    using editable_ok_parent [OF ok _ that(1)] that(2) by (auto simp: in_obj_keys)
  have "getParentPropertyKey k = getParentPropertyKey l"
  proof (cases "46 \<in> set k \<and> 46 \<in> set l")
    case True
    obtain a b where ab: "obj_get s (getParentPropertyKey k) = Some a" "obj_get s (getParentPropertyKey l) = Some b"
      using parent True less.prems by blast
    have "length (getParentPropertyKey k) < length k" by (rule dotted_key [of k]) (use True in simp_all)
    from less.hyps [OF this ab] show ?thesis
      using names_of_key(3) [OF ok less.prems(1)] names_of_key(3) [OF ok less.prems(2)] True less.prems(3) by simp
  next
    case False
    have dotted: "property_names s x \<noteq> [ep_name r]" if x: "46 \<in> set x" "obj_get s x = Some r" for x r
    proof -
      obtain a where "obj_get s (getParentPropertyKey x) = Some a" using parent [OF x(1)] x(2) by auto
      then show ?thesis using names_of_key(3) [OF ok x(2,1)] property_names_ne [OF ok] by simp
    qed
    have "46 \<notin> set k \<and> 46 \<notin> set l"
      using False dotted [of k p] dotted [of l q] names_of_key(2) [OF ok less.prems(1)] names_of_key(2) [OF ok less.prems(2)] less.prems name by metis
    then show ?thesis by (simp add: parent_plain)
  qed
  with less.prems name show ?case using editable_ok_unique [OF ok] by blast
qed

subsection \<open>Pushing a property\<close>

text \<open>A property without its sub-properties.\<close>

definition shape :: "property \<Rightarrow> property" where
  "shape q = (if kind_of (p_type q) = KObject then set_p_type q (ObjectType []) else q)"

lemma shape_set_p_type: "kind_of (p_type p) = KObject \<Longrightarrow> shape (set_p_type p (ObjectType qs)) = shape p"
  by (simp add: shape_def)

lemma shape_set_sub:
  "lookup_path ps ns = Some r \<Longrightarrow> kind_of (p_type r) = KObject \<Longrightarrow> wf_properties ps \<Longrightarrow> (\<And>x. x \<noteq> [] \<Longrightarrow> ms \<noteq> ns @ x) \<Longrightarrow>
     map_option shape (lookup_path (set_sub ps ns qs) ms) = map_option shape (lookup_path ps ms)"
proof (induction ps ns arbitrary: ms rule: lookup_path.induct)
  case (3 p ps n ns)
  show ?case
  proof (cases ms)
    case (Cons m ms')
    show ?thesis
    proof (cases "p_name p = n")
      case True
      show ?thesis
      proof (cases "ns = []")
        case ns: True
        with True "3.prems"(1,2) have obj: "kind_of (p_type p) = KObject" by simp
        have "m = n \<Longrightarrow> ms' = []" using "3.prems"(4) [of ms'] ns Cons by auto
        with ns True Cons obj show ?thesis by (simp add: shape_set_p_type)
      next
        case False
        with True "3.prems" have sub: "lookup_path (sub_properties p) ns = Some r" "wf_properties (sub_properties p)" by simp_all
        then have obj: "kind_of (p_type p) = KObject" using sub_properties_not_object [of p]
          by (cases "kind_of (p_type p) = KObject"; cases ns) auto
        have "map_option shape (lookup_path (set_sub (sub_properties p) ns qs) ms') = map_option shape (lookup_path (sub_properties p) ms')"
          if "m = n" using "3.IH"(1) [OF True False sub(1) "3.prems"(2) sub(2), of ms'] "3.prems"(4) Cons that by auto
        with True False Cons obj show ?thesis by (simp add: shape_set_p_type)
      qed
    next
      case False
      with "3.IH"(2) [OF False, of ms] "3.prems" Cons show ?thesis by auto
    qed
  qed simp
qed simp_all

text \<open>Pushing a property that has no sub-properties adds its path and leaves the others.\<close>

lemma push_leaf:
  assumes wf: "wf_properties ps" and parent: "ns = [] \<and> cur = ps \<or> (\<exists>r. lookup_path ps ns = Some r \<and> kind_of (p_type r) = KObject \<and> cur = sub_properties r)"
    and leaf: "sub_properties np = []" "46 \<notin> set (p_name np)" "p_name np \<notin> p_name ` set cur"
  shows "\<exists>ps'. push_at ps ns [np] = Some ps' \<and> wf_properties ps' \<and> lookup_path ps' (ns @ [p_name np]) = Some np \<and>
    (\<forall>ms. ms \<noteq> ns @ [p_name np] \<longrightarrow> map_option shape (lookup_path ps' ms) = map_option shape (lookup_path ps ms))"
proof -
  have one: "lookup_path [np] x = (if x = [p_name np] then Some np else None)" for x
    using leaf(1) by (cases x) (auto simp: neq_Nil_conv)
  have snoc: "lookup_path (cur @ [np]) x = (if x = [p_name np] then Some np else lookup_path cur x)" for x
  proof (cases "x = []")
    case False
    have "hd x \<notin> p_name ` set cur \<Longrightarrow> lookup_path cur x = None" by (rule lookup_path_none [OF False])
    then show ?thesis using lookup_path_snoc [OF False, of cur np] leaf(3) one by auto
  qed simp
  have wf': "wf_properties cur" using parent wf wf_lookup by blast
  from parent show ?thesis
  proof (elim disjE exE conjE)
    assume "ns = []" "cur = ps"
    then show ?thesis using snoc wf leaf by (simp add: wf_properties_snoc)
  next
    fix r assume r: "lookup_path ps ns = Some r" "kind_of (p_type r) = KObject" "cur = sub_properties r"
    let ?ps = "set_sub ps ns (cur @ [np])"
    have "push_at ps ns [np] = Some ?ps" by (rule push_at_set_sub) (use list_at_lookup [OF r(1,2) wf] r(3) in simp)
    moreover have "wf_properties ?ps" by (rule wf_set_sub [OF wf]) (use wf' leaf in \<open>simp add: wf_properties_snoc\<close>)
    moreover have "lookup_path ?ps (ns @ [p_name np]) = Some np" using lookup_set_sub_below [OF r(1), of "[p_name np]"] snoc by simp
    moreover have "map_option shape (lookup_path ?ps ms) = map_option shape (lookup_path ps ms)" if ms: "ms \<noteq> ns @ [p_name np]" for ms
    proof (cases "\<exists>x. x \<noteq> [] \<and> ms = ns @ x")
      case True
      then obtain x where x: "x \<noteq> []" "ms = ns @ x" by blast
      then show ?thesis using lookup_set_sub_below [OF r(1) x(1), of "cur @ [np]"] lookup_path_below [OF r(1) x(1) wf] snoc [of x] ms
        by (simp add: r(3))
    next
      case False
      then show ?thesis using shape_set_sub [OF r(1,2) wf, of ms] by blast
    qed
    ultimately show ?thesis by blast
  qed
qed

subsection \<open>The whole schema\<close>

lemma normalized_simps:
  "p_name (normalized_property p) = ep_name p" "sub_properties (normalized_property p) = []"
  "kind_of (p_type (normalized_property p)) = kind_of (ep_type p)" "shape (normalized_property p) = normalized_property p"
  by (cases "ep_type p"; simp add: normalized_property_def sub_properties_def shape_def set_p_type_def)+

definition schema_of :: "editable_schema \<Rightarrow> editable_schema \<Rightarrow> property list \<Rightarrow> bool" where
  "schema_of s es ps \<longleftrightarrow> wf_properties ps \<and>
     (\<forall>ns. lookup_path ps ns \<noteq> None \<longleftrightarrow> (\<exists>k \<in> set (obj_keys es). ns = property_names s k)) \<and>
     (\<forall>(k, p) \<in> set es. map_option shape (lookup_path ps (property_names s k)) = Some (normalized_property p))"

lemma lookup_one_name: "lookup_path qs [n] \<noteq> None \<longleftrightarrow> n \<in> p_name ` set qs"
  by (induction qs) auto

lemma schema_of_step:
  assumes ok: "editable_ok s" and inv: "schema_of s es ps" and s: "set (es @ [(k, p)]) \<subseteq> set s" "k \<notin> set (obj_keys es)"
    and dot: "46 \<in> set k \<Longrightarrow> getParentPropertyKey k \<in> set (obj_keys es)"
  shows "\<exists>ps'. push_at ps (butlast (property_names s k)) [normalized_property p] = Some ps' \<and> schema_of s (es @ [(k, p)]) ps'"
proof -
  let ?np = "normalized_property p" and ?ns = "butlast (property_names s k)"
  have mem: "obj_get s x = Some q" if "(x, q) \<in> set (es @ [(k, p)])" for x q
    using that s(1) obj_get_mem [OF editable_ok_distinct [OF ok]] by blast
  have k: "obj_get s k = Some p" by (rule mem) simp
  have names: "?ns @ [ep_name p] = property_names s k" using property_names_ne [OF ok k] by (metis append_butlast_last_id)
  have wf: "wf_properties ps" and keys: "\<And>ns. lookup_path ps ns \<noteq> None \<longleftrightarrow> (\<exists>k \<in> set (obj_keys es). ns = property_names s k)"
    and shapes: "\<And>x q. (x, q) \<in> set es \<Longrightarrow> map_option shape (lookup_path ps (property_names s x)) = Some (normalized_property q)"
    using inv by (auto simp: schema_of_def)
  have new: "lookup_path ps (property_names s k) = None"
  proof (rule ccontr)
    assume "lookup_path ps (property_names s k) \<noteq> None"
    then obtain x q where x: "(x, q) \<in> set es" "property_names s k = property_names s x" using keys by (auto simp: obj_keys_def)
    then have "x = k" using property_names_inj [OF ok k mem, of x q] by simp
    with x(1) s(2) show False by (force simp: obj_keys_def)
  qed
  have "\<exists>cur. (?ns = [] \<and> cur = ps \<or> (\<exists>r. lookup_path ps ?ns = Some r \<and> kind_of (p_type r) = KObject \<and> cur = sub_properties r)) \<and>
      p_name ?np \<notin> p_name ` set cur"
  proof (cases "46 \<in> set k")
    case False
    then have "?ns = []" "property_names s k = [ep_name p]" using names_of_key(2) [OF ok k] by simp_all
    moreover from this have "ep_name p \<notin> p_name ` set ps" using new lookup_one_name [of ps "ep_name p"] by simp
    ultimately show ?thesis by (simp add: normalized_simps)
  next
    case True
    let ?q = "getParentPropertyKey k"
    have ns: "?ns = property_names s ?q" using names_of_key(3) [OF ok k True] by simp
    obtain q where q: "(?q, q) \<in> set es" using dot [OF True] by (auto simp: obj_keys_def)
    have obj: "kind_of (ep_type q) = KObject"
      using editable_ok_parent [OF ok _ True] k mem [of ?q q] q by (auto simp: in_obj_keys)
    obtain r where r: "lookup_path ps ?ns = Some r" "shape r = normalized_property q" using shapes [OF q] by (auto simp: ns)
    have "kind_of (p_type r) = KObject" using arg_cong [OF r(2), of "\<lambda>x. kind_of (p_type x)"] obj
      by (simp add: normalized_simps shape_def split: if_splits)
    moreover have "ep_name p \<notin> p_name ` set (sub_properties r)"
    proof
      assume "ep_name p \<in> p_name ` set (sub_properties r)"
      then have "lookup_path (sub_properties r) [ep_name p] \<noteq> None" unfolding lookup_one_name .
      then have "lookup_path ps (?ns @ [ep_name p]) \<noteq> None" using lookup_path_below [OF r(1) _ wf, of "[ep_name p]"] by simp
      then show False using new names by simp
    qed
    ultimately show ?thesis using r(1) by (auto simp: normalized_simps)
  qed
  then obtain cur where cur: "?ns = [] \<and> cur = ps \<or> (\<exists>r. lookup_path ps ?ns = Some r \<and> kind_of (p_type r) = KObject \<and> cur = sub_properties r)"
    "p_name ?np \<notin> p_name ` set cur" by blast
  have plain: "46 \<notin> set (p_name ?np)" using editable_ok_plain [OF ok k] by (simp add: normalized_simps)
  obtain ps' where ps': "push_at ps ?ns [?np] = Some ps'" "wf_properties ps'" "lookup_path ps' (?ns @ [p_name ?np]) = Some ?np"
    "\<And>ms. ms \<noteq> ?ns @ [p_name ?np] \<Longrightarrow> map_option shape (lookup_path ps' ms) = map_option shape (lookup_path ps ms)"
    using push_leaf [OF wf cur(1) normalized_simps(2) plain cur(2)] by blast
  have own: "?ns @ [p_name ?np] = property_names s k" using names by (simp add: normalized_simps)
  have "lookup_path ps' ms \<noteq> None \<longleftrightarrow> (\<exists>x \<in> set (obj_keys (es @ [(k, p)])). ms = property_names s x)" for ms
  proof (cases "ms = property_names s k")
    case True
    then show ?thesis using ps'(3) own by simp
  next
    case False
    then have "lookup_path ps' ms \<noteq> None \<longleftrightarrow> lookup_path ps ms \<noteq> None"
      using ps'(4) [of ms] unfolding own by (cases "lookup_path ps' ms"; cases "lookup_path ps ms") simp_all
    then show ?thesis using keys [of ms] False by simp
  qed
  moreover have "map_option shape (lookup_path ps' (property_names s x)) = Some (normalized_property q)" if "(x, q) \<in> set (es @ [(k, p)])" for x q
  proof (cases "x = k")
    case True
    then have "q = p" using mem [OF that] k by simp
    then show ?thesis using True ps'(3) own by (simp add: normalized_simps)
  next
    case False
    then have "property_names s x \<noteq> property_names s k" using property_names_inj [OF ok mem [OF that] k] by blast
    then show ?thesis using ps'(4) [of "property_names s x"] shapes [of x q] that False unfolding own by auto
  qed
  ultimately have "schema_of s (es @ [(k, p)]) ps'" using ps'(2) by (auto simp: schema_of_def)
  with ps'(1) show ?thesis by blast
qed

lemma normalize_all:
  assumes ok: "editable_ok s" and order: "order_ok s"
  shows "s = es @ rest \<Longrightarrow> schema_of s es ps \<Longrightarrow> \<exists>ps'. normalize_entries s rest ps = Some ps' \<and> schema_of s s ps'"
proof (induction rest arbitrary: es ps)
  case (Cons e rest)
  obtain k p where e: "e = (k, p)" by (cases e)
  have split: "obj_keys s = obj_keys es @ k # obj_keys rest" by (simp add: Cons.prems(1) e)
  have "(k, p) \<in> set s" by (simp add: Cons.prems(1) e)
  then have k: "obj_get s k = Some p" using obj_get_mem [OF editable_ok_distinct [OF ok]] by blast
  have "k \<notin> set (obj_keys es)" using editable_ok_distinct [OF ok] by (simp add: split)
  moreover have "46 \<in> set k \<Longrightarrow> getParentPropertyKey k \<in> set (obj_keys es)"
    using parent_before [of "obj_keys es" k "obj_keys rest"] order by (simp add: order_ok_def split)
  ultimately obtain ps' where ps': "push_at ps (butlast (property_names s k)) [normalized_property p] = Some ps'" "schema_of s (es @ [(k, p)]) ps'"
    using schema_of_step [OF ok Cons.prems(2), of k p] Cons.prems(1) e by auto
  have "normalize_entries s (e # rest) ps = normalize_entries s rest ps'"
  proof (cases "46 \<in> set k")
    case True
    then have "ep_indentation p \<noteq> 0" using order k by (auto simp: order_ok_def)
    then show ?thesis using names_of_key(3,4) [OF ok k True] ps'(1) by (simp add: e)
  next
    case False
    then have "ep_indentation p = 0" using order k by (auto simp: order_ok_def)
    then show ?thesis using names_of_key(2) [OF ok k False] ps'(1) by (simp add: e)
  qed
  then show ?case using Cons.IH [of "es @ [e]" ps'] Cons.prems(1) ps'(2) by (simp add: e)
qed simp

lemma reachable_normalized:
  assumes "schema_editor_reachable careful ps roles sources st" "wf_properties ps" "names_nonempty ps"
  shows "\<exists>qs. normalizeSchema (editableSchema st) = Some qs \<and> wf_properties qs \<and>
    bij_betw (property_names (editableSchema st)) (set (obj_keys (editableSchema st))) {ns. lookup_path qs ns \<noteq> None} \<and>
    (\<forall>k p. obj_get (editableSchema st) k = Some p \<longrightarrow>
      (\<exists>q. lookup_path qs (property_names (editableSchema st) k) = Some q \<and> shape q = normalized_property p))"
proof -
  let ?s = "editableSchema st"
  have ok: "editable_ok ?s" by (rule reachable_editable_ok [OF assms])
  have order: "order_ok ?s" by (rule reachable_order_ok [OF assms])
  have "lookup_path [] ns = None" for ns by (cases ns) simp_all
  then have "schema_of ?s [] []" by (simp add: schema_of_def)
  then obtain qs where qs: "normalize_entries ?s ?s [] = Some qs" "schema_of ?s ?s qs"
    using normalize_all [OF ok order, of "[]" ?s "[]"] by auto
  have "inj_on (property_names ?s) (set (obj_keys ?s))"
    by (rule inj_onI) (use property_names_inj [OF ok] in \<open>auto simp: in_obj_keys\<close>)
  moreover have "property_names ?s ` set (obj_keys ?s) = {ns. lookup_path qs ns \<noteq> None}"
    using qs(2) by (auto simp: schema_of_def)
  moreover have "\<exists>q. lookup_path qs (property_names ?s k) = Some q \<and> shape q = normalized_property p" if "obj_get ?s k = Some p" for k p
    using qs(2) that obj_get_mem [OF editable_ok_distinct [OF ok], of k p] by (auto simp: schema_of_def)
  ultimately show ?thesis using qs by (auto simp: normalizeSchema_def bij_betw_def schema_of_def)
qed

text \<open>
  C14: In every reachable state the schema to send is built, and it is well formed: names are distinct among
  siblings. It has exactly one property for each property of the editor, at the path of the present names of the
  property and its ancestors, with what the editor shows of it, and nested properties for objects only.
\<close>

theorem normalizeSchema_reachable:
  assumes "schema_editor_reachable careful ps roles sources st" "wf_properties ps" "names_nonempty ps"
  shows "\<exists>qs. normalizeSchema (editableSchema st) = Some qs \<and> wf_properties qs \<and>
    bij_betw (property_names (editableSchema st)) (set (obj_keys (editableSchema st))) {ns. lookup_path qs ns \<noteq> None} \<and>
    (\<forall>k p. obj_get (editableSchema st) k = Some p \<longrightarrow>
      (\<exists>q. lookup_path qs (property_names (editableSchema st) k) = Some q \<and> shape q = normalized_property p))"
  by (rule reachable_normalized [OF assms])

theorem normalizeSchema_reachable_witness:
  "\<exists>(st :: schema_editor) qs. normalizeSchema (editableSchema st) = Some qs \<and> lookup_path qs [js ''mail''] \<noteq> None"
proof -
  obtain st where st: "schema_editor_reachable True example_schema (Some profile_roles) [(js ''email'', js ''7'')] st"
    "obj_get (editableSchema st) (js ''email'') =
      Some (edited_property (editableProperty (plain_property (js ''email'') string_kind) 0 (js ''email'')) email_to_mail string_kind)"
    using renamed_profile by blast
  have names: "property_names (editableSchema st) (js ''email'') = [js ''mail'']"
    using names_of_key(2) [OF reachable_editable_ok [OF st(1) example_schema_wf example_schema_names] st(2)]
    by (simp add: edited_property_def email_to_mail_def js_Cons)
  obtain qs q where qs: "normalizeSchema (editableSchema st) = Some qs" "lookup_path qs (property_names (editableSchema st) (js ''email'')) = Some q"
    using normalizeSchema_reachable [OF st(1) example_schema_wf example_schema_names] st(2) by blast
  show ?thesis by (rule exI [of _ st], rule exI [of _ qs]) (use qs in \<open>simp add: names\<close>)
qed

end
