(* ===== verification/Type_Text.thy ===== *)
theory Type_Text
  imports Schema_Editor
begin

section \<open>Types as the user reads them (components/helpers/types.ts)\<close>

text \<open>
  The names of the types in the schema pages, with their units and constraints, and in the code of transformation
  functions. \<open>num\<close> is \<open>Number.prototype.toString\<close>, which writes the numeric limits of a type; sizes in bits
  and numbers of elements are natural numbers, written in decimal.
\<close>

record unit_option =
  uo_value :: measure_unit
  uo_label :: jsstr
  uo_symbol :: jsstr
  uo_groupLabel :: "jsstr option"
  uo_isDurationUnit :: bool

definition option_of_unit :: "measure_unit \<Rightarrow> string \<Rightarrow> jsstr \<Rightarrow> string option \<Rightarrow> bool \<Rightarrow> unit_option" where
  "option_of_unit u label symbol groupLabel duration =
     \<lparr>uo_value = u, uo_label = js label, uo_symbol = symbol, uo_groupLabel = map_option js groupLabel, uo_isDurationUnit = duration\<rparr>"

definition UNIT_OPTIONS :: "unit_option list" where
  "UNIT_OPTIONS =
    [option_of_unit UMillimetre ''Millimetre'' (js ''mm'') (Some ''Length'') False,
     option_of_unit UCentimetre ''Centimetre'' (js ''cm'') None False,
     option_of_unit UMetre ''Metre'' (js ''m'') None False,
     option_of_unit UKilometre ''Kilometre'' (js ''km'') None False,
     option_of_unit UInch ''Inch'' (js ''in'') None False,
     option_of_unit UFoot ''Foot'' (js ''ft'') None False,
     option_of_unit UYard ''Yard'' (js ''yd'') None False,
     option_of_unit UMile ''Mile'' (js ''mi'') None False,
     option_of_unit UGram ''Gram'' (js ''g'') (Some ''Weight'') False,
     option_of_unit UKilogram ''Kilogram'' (js ''kg'') None False,
     option_of_unit UOunce ''Ounce'' (js ''oz'') None False,
     option_of_unit UPound ''Pound'' (js ''lb'') None False,
     option_of_unit UByte ''Byte'' (js ''B'') (Some ''Data size'') False,
     option_of_unit UKilobyte ''Kilobyte'' (js ''kB'') None False,
     option_of_unit UMegabyte ''Megabyte'' (js ''MB'') None False,
     option_of_unit UGigabyte ''Gigabyte'' (js ''GB'') None False,
     option_of_unit UCelsius ''Degree Celsius'' (176 # js ''C'') (Some ''Temperature'') False,
     option_of_unit UFahrenheit ''Degree Fahrenheit'' (176 # js ''F'') None False,
     option_of_unit UMillilitre ''Millilitre'' (js ''mL'') (Some ''Volume'') False,
     option_of_unit ULitre ''Litre'' (js ''L'') None False,
     option_of_unit UMillisecond ''Millisecond'' (js ''ms'') (Some ''Time'') True,
     option_of_unit USecond ''Second'' (js ''s'') None True,
     option_of_unit UMinute ''Minute'' (js ''min'') None True,
     option_of_unit UHour ''Hour'' (js ''h'') None True,
     option_of_unit UDay ''Day'' (js ''d'') None True,
     option_of_unit UWeek ''Week'' (js ''wk'') None True,
     option_of_unit UMonth ''Month'' (js ''mo'') None True,
     option_of_unit UYear ''Year'' (js ''yr'') None True]"

definition DURATION_UNIT_OPTIONS :: "unit_option list" where
  "DURATION_UNIT_OPTIONS = filter uo_isDurationUnit UNIT_OPTIONS"

fun getPropertyValueType :: "schema_type \<Rightarrow> schema_type" where
  "getPropertyValueType (ArrayType _ t) = t"
| "getPropertyValueType (MapType t) = t"
| "getPropertyValueType t = t"

fun replacePropertyValueType :: "schema_type \<Rightarrow> schema_type \<Rightarrow> schema_type" where
  "replacePropertyValueType (ArrayType b _) v = ArrayType b v"
| "replacePropertyValueType (MapType _) v = MapType v"
| "replacePropertyValueType _ v = v"

definition getTypeSemantics :: "schema_type option \<Rightarrow> semantics option" where
  "getTypeSemantics type = Option.bind type type_semantics"

fun isSuitableAsIdentifier :: "schema_type \<Rightarrow> bool" where
  "isSuitableAsIdentifier (StringType _) = True"
| "isSuitableAsIdentifier (IntType _) = True"
| "isSuitableAsIdentifier UUIDType = True"
| "isSuitableAsIdentifier IPType = True"
| "isSuitableAsIdentifier (DecimalType t) = ((case dt_scale t of None \<Rightarrow> 0 | Some s \<Rightarrow> s) = 0)"
| "isSuitableAsIdentifier _ = False"

fun toCompactPhysicalType :: "schema_type \<Rightarrow> jsstr" where
  "toCompactPhysicalType (ArrayType _ t) = js ''array of '' @ toCompactPhysicalType t"
| "toCompactPhysicalType (MapType t) = js ''map of '' @ toCompactPhysicalType t"
| "toCompactPhysicalType (IntType t) = (if it_unsigned t then js ''unsigned int'' else js ''int'')"
| "toCompactPhysicalType t = js (kind_string (kind_of t))"

definition some_text :: "('a \<Rightarrow> jsstr) \<Rightarrow> 'a option \<Rightarrow> jsstr list" where
  "some_text f v = (case v of None \<Rightarrow> [] | Some x \<Rightarrow> [f x])"

definition limits_text :: "(js_num \<Rightarrow> jsstr) \<Rightarrow> js_num option \<Rightarrow> js_num option \<Rightarrow> jsstr list" where
  "limits_text num minimum maximum = some_text (\<lambda>n. js ''min '' @ num n) minimum @ some_text (\<lambda>n. js ''max '' @ num n) maximum"

definition with_constraints :: "jsstr \<Rightarrow> jsstr list \<Rightarrow> bool \<Rightarrow> jsstr \<Rightarrow> jsstr" where
  "with_constraints t constraints nullable firstConstraintSeparator =
     t @ (if constraints \<noteq> [] then firstConstraintSeparator @ join_with (js '', '') constraints else [])
       @ (if nullable then js '' | null'' else [])"

fun toKrenalisStringType :: "(js_num \<Rightarrow> jsstr) \<Rightarrow> schema_type \<Rightarrow> bool \<Rightarrow> jsstr \<Rightarrow> jsstr" where
  "toKrenalisStringType num (StringType t) nullable sep =
     with_constraints
       (js ''string'' @ (case st_values t of None \<Rightarrow> []
          | Some vs \<Rightarrow> js '' ('' @ join_with (js '', '') (map (\<lambda>e. js ''\"'' @ e @ js ''\"'') vs) @ js '')''))
       (some_text (\<lambda>p. js ''must match /'' @ p @ js ''/'') (st_pattern t) @
        some_text (\<lambda>n. js ''max '' @ num n @ js '' bytes'') (st_maxBytes t) @
        some_text (\<lambda>n. js ''max '' @ num n @ js '' chars'') (st_maxLength t))
       nullable sep"
| "toKrenalisStringType num (IntType t) nullable sep =
     with_constraints
       ((if it_unsigned t then js ''unsigned int'' else js ''int'') @ js ''('' @ nat_text (it_bitSize t) @ js '')'')
       (limits_text num (it_minimum t) (it_maximum t)) nullable sep"
| "toKrenalisStringType num (FloatType t) nullable sep =
     with_constraints
       (js ''float('' @ nat_text (ft_bitSize t) @ js '')'')
       ((if ft_real t then [js ''real''] else []) @ limits_text num (ft_minimum t) (ft_maximum t)) nullable sep"
| "toKrenalisStringType num (DecimalType t) nullable sep =
     with_constraints
       (js ''decimal('' @ (case dt_precision t of None \<Rightarrow> js ''undefined'' | Some n \<Rightarrow> num n) @ js '','' @
        num (case dt_scale t of None \<Rightarrow> 0 | Some n \<Rightarrow> n) @ js '')'')
       (limits_text num (dt_minimum t) (dt_maximum t)) nullable sep"
| "toKrenalisStringType num (ArrayType b t) nullable sep =
     with_constraints
       (js ''array of '' @ toKrenalisStringType num t False (js '', ''))
       (some_text (\<lambda>n. js ''min '' @ nat_text n @ js '' elements'') (ab_minElements b) @
        some_text (\<lambda>n. js ''max '' @ nat_text n @ js '' elements'') (ab_maxElements b) @
        (if ab_uniqueElements b then [js ''unique elements''] else []))
       nullable sep"
| "toKrenalisStringType num (MapType t) nullable sep =
     with_constraints (js ''map of '' @ toKrenalisStringType num t False (js '', '')) [] nullable sep"
| "toKrenalisStringType num t nullable sep = with_constraints (js (kind_string (kind_of t))) [] nullable sep"

fun toProfileSchemaPhysicalType :: "(js_num \<Rightarrow> jsstr) \<Rightarrow> schema_type \<Rightarrow> jsstr" where
  "toProfileSchemaPhysicalType num (ArrayType _ t) = js ''array of '' @ toProfileSchemaPhysicalType num t"
| "toProfileSchemaPhysicalType num (MapType t) = js ''map of '' @ toProfileSchemaPhysicalType num t"
| "toProfileSchemaPhysicalType num (IntType t) =
     toKrenalisStringType num (IntType (if it_unsigned t \<and> it_minimum t = None then t\<lparr>it_minimum := Some 0\<rparr> else t)) False
       (js '' '' @ [183] @ js '' '')"
| "toProfileSchemaPhysicalType num t = toKrenalisStringType num t False (js '' '' @ [183] @ js '' '')"

fun toSemanticsLabel :: "semantics \<Rightarrow> jsstr" where
  "toSemanticsLabel Phone = js ''phone number''"
| "toSemanticsLabel Url = js ''URL''"
| "toSemanticsLabel Email = js ''email''"
| "toSemanticsLabel Country = js ''country''"
| "toSemanticsLabel Money = js ''money''"
| "toSemanticsLabel Percentage = js ''percentage''"
| "toSemanticsLabel Measurement = js ''measurement''"
| "toSemanticsLabel Duration = js ''duration''"

text \<open>An em dash between two spaces.\<close>

definition em_dash :: jsstr where
  "em_dash = js '' '' @ [8212] @ js '' ''"

definition semantics_detail :: "schema_type \<Rightarrow> semantics \<Rightarrow> jsstr" where
  "semantics_detail valueType sem =
     (if sem = Country then
        em_dash @ (if kind_of valueType = KString \<and> type_format valueType = Some Alpha2 then js ''2'' else js ''3'') @ js ''-letter ISO code''
      else if sem = Money then
        (case type_currency valueType of None \<Rightarrow> [] | Some c \<Rightarrow> em_dash @ c)
      else if sem = Measurement \<or> sem = Duration then
        (case find (\<lambda>option. type_unit valueType = Some (uo_value option)) UNIT_OPTIONS of
           None \<Rightarrow> [] | Some unit \<Rightarrow> em_dash @ uo_symbol unit)
      else [])"

record type_presentation =
  tpr_primary :: jsstr
  tpr_metadata :: "jsstr option"

definition getProfileSchemaTypePresentation :: "(js_num \<Rightarrow> jsstr) \<Rightarrow> schema_type \<Rightarrow> type_presentation" where
  "getProfileSchemaTypePresentation num type =
     (let valueType = getPropertyValueType type in
      case getTypeSemantics (Some valueType) of
        None \<Rightarrow> \<lparr>tpr_primary = toProfileSchemaPhysicalType num type, tpr_metadata = None\<rparr>
      | Some sem \<Rightarrow>
          (let primary = toSemanticsLabel sem @ semantics_detail valueType sem;
               primary = (if kind_of type = KArray \<or> kind_of type = KMap then js (kind_string (kind_of type)) @ js '' of '' @ primary
                          else primary)
           in \<lparr>tpr_primary = primary, tpr_metadata = Some (toProfileSchemaPhysicalType num valueType)\<rparr>))"

subsection \<open>The types of transformation functions\<close>

fun javascript_type :: "schema_type \<Rightarrow> bool \<Rightarrow> jsstr" where
  "javascript_type BooleanType preserveJSON = js ''boolean''"
| "javascript_type (IntType t) preserveJSON = (if it_bitSize t = 64 then js ''bigint'' else js ''number (int)'')"
| "javascript_type (FloatType t) preserveJSON = js ''number''"
| "javascript_type (DecimalType t) preserveJSON = js ''string''"
| "javascript_type DateTimeType preserveJSON = js ''Date''"
| "javascript_type DateType preserveJSON = js ''Date''"
| "javascript_type TimeType preserveJSON = js ''Date''"
| "javascript_type YearType preserveJSON = js ''number''"
| "javascript_type UUIDType preserveJSON = js ''string''"
| "javascript_type JSONType preserveJSON = (if preserveJSON then js ''string (JSON)'' else js ''any'')"
| "javascript_type IPType preserveJSON = js ''string''"
| "javascript_type (StringType t) preserveJSON = js ''string''"
| "javascript_type (ArrayType b t) preserveJSON = javascript_type t preserveJSON @ js ''[]''"
| "javascript_type (ObjectType ps) preserveJSON = js ''object''"
| "javascript_type (MapType t) preserveJSON = js ''object with '' @ javascript_type t preserveJSON @ js '' values''"

definition toJavascriptType :: "schema_type \<Rightarrow> bool \<Rightarrow> bool \<Rightarrow> jsstr" where
  "toJavascriptType type preserveJSON nullable = javascript_type type preserveJSON @ (if nullable then js '' | null'' else [])"

fun python_type :: "schema_type \<Rightarrow> bool \<Rightarrow> jsstr" where
  "python_type BooleanType preserveJSON = js ''bool''"
| "python_type (IntType t) preserveJSON = js ''int''"
| "python_type (FloatType t) preserveJSON = js ''float''"
| "python_type (DecimalType t) preserveJSON = js ''decimal.Decimal''"
| "python_type DateTimeType preserveJSON = js ''datetime.datetime''"
| "python_type DateType preserveJSON = js ''datetime.date''"
| "python_type TimeType preserveJSON = js ''datetime.time''"
| "python_type YearType preserveJSON = js ''int''"
| "python_type UUIDType preserveJSON = js ''uuid.UUID''"
| "python_type JSONType preserveJSON = (if preserveJSON then js ''str (JSON)'' else js ''Any'')"
| "python_type IPType preserveJSON = js ''str''"
| "python_type (StringType t) preserveJSON = js ''str''"
| "python_type (ArrayType b t) preserveJSON = js ''list['' @ python_type t preserveJSON @ js '']''"
| "python_type (ObjectType ps) preserveJSON = js ''dict''"
| "python_type (MapType t) preserveJSON = js ''dict[str, '' @ python_type t preserveJSON @ js '']''"

definition toPythonType :: "schema_type \<Rightarrow> bool \<Rightarrow> bool \<Rightarrow> jsstr" where
  "toPythonType type preserveJSON nullable = python_type type preserveJSON @ (if nullable then js '' | None'' else [])"

subsection \<open>Value types\<close>

lemma getPropertyValueType_replace:
  "kind_of t \<in> {KArray, KMap} \<or> kind_of v \<notin> {KArray, KMap} \<Longrightarrow> getPropertyValueType (replacePropertyValueType t v) = v"
  by (cases t; cases v) simp_all

lemma replacePropertyValueType_same [simp]: "replacePropertyValueType t (getPropertyValueType t) = t"
  by (cases t) simp_all

lemma replacePropertyValueType_twice [simp]:
  "kind_of t \<in> {KArray, KMap} \<or> kind_of v \<notin> {KArray, KMap} \<Longrightarrow>
     replacePropertyValueType (replacePropertyValueType t v) w = replacePropertyValueType t w"
  by (cases t; cases v) simp_all

text \<open>The unit of a type is always found.\<close>

lemma unit_options_complete: "\<exists>option. find (\<lambda>option. u = uo_value option) UNIT_OPTIONS = Some option \<and> uo_value option = u"
  by (cases u) (simp_all add: UNIT_OPTIONS_def option_of_unit_def)

end
