(* ===== verification/Schema_Editor_View.thy ===== *)
theory Schema_Editor_View
  imports Schema_Editor_Saved Type_Text
begin

section \<open>What the schema editor shows and sends (useSchemaEdit.tsx)\<close>

text \<open>
  The changes of a property with respect to the opened schema, the keys that are visible, the validation before the
  preview, and the requests. \<open>stringify\<close> is \<open>JSON.stringify\<close> of a type, \<open>num\<close> the text of a number and \<open>lower\<close>
  \<open>toLocaleLowerCase\<close>, which depends on the locale; an exception is an \<open>Inl\<close>.
\<close>

subsection \<open>Changes\<close>

record field_changes =
  fc_name :: bool
  fc_type :: bool
  fc_displayName :: bool
  fc_description :: bool
  fc_primarySource :: bool
  fc_propertyRole :: bool

definition getPropertyFieldChanges ::
    "(schema_type \<Rightarrow> jsstr) \<Rightarrow> editable_property \<Rightarrow> editable_property \<Rightarrow> jsstr option \<Rightarrow> jsstr option \<Rightarrow>
       profile_role option \<Rightarrow> profile_role option \<Rightarrow> field_changes" where
  "getPropertyFieldChanges stringify property initialProperty primarySource initialPrimarySource propertyRole initialPropertyRole =
     \<lparr>fc_name = (ep_name property \<noteq> ep_name initialProperty),
      fc_type = (stringify (ep_type property) \<noteq> stringify (ep_type initialProperty)),
      fc_displayName = (ep_displayName property \<noteq> ep_displayName initialProperty),
      fc_description = (ep_description property \<noteq> ep_description initialProperty),
      fc_primarySource = (primarySource \<noteq> initialPrimarySource),
      fc_propertyRole = (propertyRole \<noteq> initialPropertyRole)\<rparr>"

definition any_change :: "field_changes \<Rightarrow> bool" where
  "any_change c \<longleftrightarrow> list_ex id [fc_name c, fc_type c, fc_displayName c, fc_description c, fc_primarySource c, fc_propertyRole c]"

datatype change_status = Added | Modified | Reordered

definition property_status ::
    "(schema_type \<Rightarrow> jsstr) \<Rightarrow> editable_schema \<Rightarrow> jsstr obj \<Rightarrow> jsstr obj \<Rightarrow> property_roles \<Rightarrow> property_roles option \<Rightarrow>
       jsstr set \<Rightarrow> jsstr \<Rightarrow> editable_property \<Rightarrow> change_status option" where
  "property_status stringify initialSchema currentSources initialPrimarySources currentRoles initialPropertyRoles reorderedPropertyKeys k property =
     (case obj_get initialSchema k of
        None \<Rightarrow> Some Added
      | Some initialProperty \<Rightarrow>
          if ep_isEditable property then Some Added
          else if any_change (getPropertyFieldChanges stringify property initialProperty (obj_get currentSources k)
                  (obj_get initialPrimarySources k) (getPropertyRole (Some currentRoles) k) (getPropertyRole initialPropertyRoles k))
            then Some Modified
          else if k \<in> reorderedPropertyKeys then Some Reordered
          else None)"

definition getPropertyChangeStatuses ::
    "(schema_type \<Rightarrow> jsstr) \<Rightarrow> editable_schema option \<Rightarrow> editable_schema option \<Rightarrow> jsstr obj \<Rightarrow> jsstr obj option \<Rightarrow>
       property_roles \<Rightarrow> property_roles option \<Rightarrow> jsstr set \<Rightarrow> change_status obj" where
  "getPropertyChangeStatuses stringify schema initialSchema currentSources initialPrimarySources currentRoles initialPropertyRoles reordered =
     (case (schema, initialSchema, initialPrimarySources) of
        (Some s, Some ini, Some iniSources) \<Rightarrow>
          foldl (\<lambda>statuses (k, property).
             case property_status stringify ini currentSources iniSources currentRoles initialPropertyRoles reordered k property of
               None \<Rightarrow> statuses | Some status \<Rightarrow> obj_set statuses k status) [] s
      | _ \<Rightarrow> [])"

definition change_count :: "bool \<Rightarrow> change_status obj \<Rightarrow> jsstr list \<Rightarrow> nat" where
  "change_count hasSchemaChanges statuses deletedKeys =
     (if hasSchemaChanges then max 1 (length (obj_keys statuses) + length deletedKeys) else 0)"

definition object_and_property_count :: "editable_schema option \<Rightarrow> nat \<times> nat" where
  "object_and_property_count schema =
     (let s = (case schema of None \<Rightarrow> [] | Some s \<Rightarrow> s)
      in (length (filter (\<lambda>(k, p). kind_of (ep_type p) = KObject) s), length s))"

definition identifier_positions :: "jsstr list \<Rightarrow> editable_schema option \<Rightarrow> nat obj" where
  "identifier_positions identifiers schema =
     foldl (\<lambda>positions identifier.
        case Option.bind schema (\<lambda>s. obj_get s identifier) of
          None \<Rightarrow> positions
        | Some property \<Rightarrow> if ep_isEditable property then positions else obj_set positions identifier (length positions + 1))
       [] identifiers"

fun editable_paths :: "editable_schema \<Rightarrow> jsstr list \<Rightarrow> jsstr obj \<Rightarrow> (jsstr obj) option" where
  "editable_paths schema [] paths = Some paths"
| "editable_paths schema (k # ks) paths =
     Option.bind (getEditablePropertyPath schema k) (\<lambda>path. editable_paths schema ks (obj_set paths k path))"

definition getEditablePropertyPaths :: "editable_schema option \<Rightarrow> (jsstr obj) option" where
  "getEditablePropertyPaths schema =
     (case schema of None \<Rightarrow> Some [] | Some s \<Rightarrow> editable_paths s (obj_keys s) [])"

subsection \<open>Visible properties\<close>

fun str_includes :: "jsstr \<Rightarrow> jsstr \<Rightarrow> bool" where
  "str_includes [] t = (t = [])"
| "str_includes (c # s) t = (starts_with (c # s) t \<or> str_includes s t)"

fun role_label :: "profile_role \<Rightarrow> jsstr" where
  "role_label FirstName = js ''First name''"
| "role_label LastName = js ''Last name''"
| "role_label EmailRole = js ''Email''"
| "role_label CountryRole = js ''Country''"
| "role_label Photo = js ''Photo''"

definition search_text :: "(js_num \<Rightarrow> jsstr) \<Rightarrow> editable_property \<Rightarrow> profile_role option \<Rightarrow> jsstr" where
  "search_text num property role =
     (let presentation = getProfileSchemaTypePresentation num (ep_type property)
      in join_with (js '' '') (filter (\<lambda>t. t \<noteq> [])
           [ep_name property, ep_displayName property, ep_description property, tpr_primary presentation,
            (case tpr_metadata presentation of None \<Rightarrow> [] | Some t \<Rightarrow> t),
            (case role of None \<Rightarrow> [] | Some r \<Rightarrow> role_label r)]))"

text \<open>\<open>fragments.slice(0, index).join('.')\<close> for the indices from 1.\<close>

definition ancestor_keys :: "jsstr \<Rightarrow> jsstr list" where
  "ancestor_keys k = (let fragments = segments k in map (\<lambda>i. path_of (take i fragments)) [1..<length fragments])"

definition visible_with :: "editable_schema \<Rightarrow> bool \<Rightarrow> jsstr \<Rightarrow> editable_property \<Rightarrow> jsstr set" where
  "visible_with schema searching k property =
     insert k (set (ancestor_keys k)) \<union>
     (if searching \<and> kind_of (ep_type property) = KObject then set (nested_keys schema k) else {})"

definition getVisiblePropertyKeys ::
    "(jsstr \<Rightarrow> jsstr) \<Rightarrow> (js_num \<Rightarrow> jsstr) \<Rightarrow> editable_schema option \<Rightarrow> change_status obj \<Rightarrow> property_roles \<Rightarrow> jsstr option \<Rightarrow>
       bool \<Rightarrow> jsstr option \<Rightarrow> jsstr set" where
  "getVisiblePropertyKeys lower num schema statuses currentRoles search showOnlyChanged alwaysVisible =
     (case schema of
        None \<Rightarrow> {}
      | Some s \<Rightarrow>
          (let term = (case search of None \<Rightarrow> [] | Some t \<Rightarrow> lower (trim t));
               visible = foldl (\<lambda>visible (k, property).
                  if (term = [] \<or> str_includes (lower (search_text num property (getPropertyRole (Some currentRoles) k))) term) \<and>
                     (\<not> showOnlyChanged \<or> obj_get statuses k \<noteq> None)
                  then visible \<union> visible_with s (term \<noteq> []) k property else visible) {} s
           in case alwaysVisible of
                Some k \<Rightarrow> if obj_get s k \<noteq> None then visible \<union> insert k (set (ancestor_keys k)) else visible
              | None \<Rightarrow> visible))"

subsection \<open>Validation and the preview\<close>

fun getTypeByPath :: "schema_type \<Rightarrow> jsstr list \<Rightarrow> schema_type option" where
  "getTypeByPath type [] = Some type"
| "getTypeByPath type (fragment # fragments) =
     (case type of
        ObjectType ps \<Rightarrow>
          (case find (\<lambda>candidate. p_name candidate = fragment) ps of
             None \<Rightarrow> None
           | Some property \<Rightarrow> getTypeByPath (p_type property) fragments)
      | _ \<Rightarrow> None)"

definition empty_object :: "editable_schema \<Rightarrow> jsstr \<times> editable_property \<Rightarrow> bool" where
  "empty_object schema e = (case e of (k, p) \<Rightarrow>
     kind_of (ep_type p) = KObject \<and> \<not> list_ex (\<lambda>candidate. starts_with candidate (k @ js ''.'')) (obj_keys schema))"

text \<open>The names of the fragments of an old path that are still in the schema.\<close>

definition current_path :: "editable_schema \<Rightarrow> jsstr \<Rightarrow> jsstr" where
  "current_path schema oldPath =
     (let fragments = segments oldPath
      in path_of (concat (map (\<lambda>i. case obj_get schema (path_of (take (i + 1) fragments)) of None \<Rightarrow> [] | Some p \<Rightarrow> [ep_name p])
           [0..<length fragments])))"

definition is_object_type :: "schema_type option \<Rightarrow> bool" where
  "is_object_type type \<longleftrightarrow> (case type of None \<Rightarrow> False | Some t \<Rightarrow> kind_of t = KObject)"

definition renamed_object_changed :: "(schema_type \<Rightarrow> jsstr) \<Rightarrow> editable_schema \<Rightarrow> property list \<Rightarrow> property list \<Rightarrow> jsstr \<Rightarrow> bool" where
  "renamed_object_changed stringify schema initialSchema currentSchema oldPath =
     (let initialType = getTypeByPath (ObjectType initialSchema) (segments oldPath);
          currentType = getTypeByPath (ObjectType currentSchema) (segments (current_path schema oldPath))
      in is_object_type initialType \<and> is_object_type currentType \<and> map_option stringify currentType \<noteq> map_option stringify initialType)"

definition validateEditableSchema ::
    "(schema_type \<Rightarrow> jsstr) \<Rightarrow> editable_schema \<Rightarrow> editable_schema option \<Rightarrow> jsstr option obj \<Rightarrow> editor_error + unit" where
  "validateEditableSchema stringify editable initial paths =
     (case find (empty_object editable) editable of
        Some (k, p) \<Rightarrow> Inl (EmptyObject (ep_name p))
      | None \<Rightarrow>
          (case initial of
             None \<Rightarrow> Inr ()
           | Some ini \<Rightarrow>
               (case (normalizeSchema ini, normalizeSchema editable) of
                  (Some initialSchema, Some currentSchema) \<Rightarrow>
                    (case find (\<lambda>old. case old of None \<Rightarrow> False
                         | Some oldPath \<Rightarrow> renamed_object_changed stringify editable initialSchema currentSchema oldPath) (map snd paths) of
                       Some (Some oldPath) \<Rightarrow> Inl (RenamedObjectChanged oldPath)
                     | _ \<Rightarrow> Inr ())
                | _ \<Rightarrow> Inl MissingProperty)))"

record preview_request =
  pr_key :: jsstr
  pr_schema :: "property list"
  pr_rePaths :: "jsstr option obj"

definition buildSchemaPreviewRequest ::
    "(schema_type \<Rightarrow> jsstr) \<Rightarrow> (property_roles \<Rightarrow> property list \<Rightarrow> jsstr option obj \<Rightarrow> jsstr) \<Rightarrow> editable_schema \<Rightarrow>
       editable_schema option \<Rightarrow> property_roles \<Rightarrow> jsstr option obj \<Rightarrow> editor_error + preview_request" where
  "buildSchemaPreviewRequest stringify request_key editable initial roles paths =
     (case validateEditableSchema stringify editable initial paths of
        Inl e \<Rightarrow> Inl e
      | Inr _ \<Rightarrow>
          (case validateProfilePropertyRoles editable roles of
             Inl e \<Rightarrow> Inl e
           | Inr _ \<Rightarrow>
               (case normalizeSchema editable of
                  None \<Rightarrow> Inl MissingProperty
                | Some schema \<Rightarrow>
                    Inr \<lparr>pr_key = request_key roles schema paths, pr_schema = schema, pr_rePaths = paths\<rparr>)))"

subsection \<open>Confirming the changes\<close>

record alter_request =
  ar_schema :: "property list"
  ar_propertyRoles :: property_roles
  ar_primarySources :: "jsstr obj"
  ar_rePaths :: "jsstr option obj"

fun source_paths :: "editable_schema \<Rightarrow> jsstr obj \<Rightarrow> jsstr obj \<Rightarrow> (jsstr obj) option" where
  "source_paths schema [] sources = Some sources"
| "source_paths schema ((k, v) # es) sources =
     Option.bind (getEditablePropertyPath schema k) (\<lambda>path. source_paths schema es (obj_set sources path v))"

text \<open>The request of \<open>onConfirmChanges\<close>; \<open>None\<close> is a \<open>TypeError\<close>.\<close>

definition confirm_request :: "schema_editor \<Rightarrow> alter_request option" where
  "confirm_request st =
     Option.bind (source_paths (editableSchema st) (primarySources st) []) (\<lambda>sources.
     Option.bind (getPropertyRolePaths (editableSchema st) (propertyRoles st)) (\<lambda>roles.
     Option.bind (normalizeSchema (editableSchema st)) (\<lambda>s.
       Some \<lparr>ar_schema = s, ar_propertyRoles = roles, ar_primarySources = sources, ar_rePaths = rePaths st\<rparr>)))"

end
