(* ===== verification/Js_Double.thy ===== *)
theory Js_Double
  imports Filter_Lexical
begin

section \<open>Numbers and their rounding\<close>

text \<open>
  The numbers of JavaScript: doubles, with \<open>0\<close> and \<open>-0\<close> as one value, which the comparisons of the source do not
  tell apart. \<open>Number\<close> reads a text, rounding its value to the nearest double (ties to even);
  \<open>Math.fround\<close> rounds to a 32-bit float. A number is exact as a rational.
\<close>

datatype js_double = NotANumber | PosInfinity | NegInfinity | Finite rat

subsection \<open>Rounding\<close>

text \<open>The number of binary digits.\<close>

fun bit_length :: "nat \<Rightarrow> nat" where
  "bit_length n = (if n = 0 then 0 else Suc (bit_length (n div 2)))"

declare bit_length.simps [simp del]

text \<open>The integer nearest to a rational, the even one of two.\<close>

definition half_even :: "rat \<Rightarrow> int" where
  "half_even x =
     (let n = \<lfloor>x\<rfloor>; r = x - of_int n
      in if r < 1 / 2 then n else if r > 1 / 2 then n + 1 else if even n then n else n + 1)"

text \<open>The exponent of the leading binary digit of a positive rational.\<close>

definition leading_exponent :: "rat \<Rightarrow> int" where
  "leading_exponent x =
     (case quotient_of x of (n, d) \<Rightarrow>
        let e = int (bit_length (nat n)) - int (bit_length (nat d))
        in if x \<ge> 2 powi e then e else e - 1)"

text \<open>Rounding to \<open>p\<close> binary digits, none of a lower exponent than \<open>emin\<close>.\<close>

definition round_positive :: "nat \<Rightarrow> int \<Rightarrow> rat \<Rightarrow> rat" where
  "round_positive p emin x =
     (let e = max (leading_exponent x - (int p - 1)) emin
      in of_int (half_even (x / 2 powi e)) * 2 powi e)"

definition round_rat :: "nat \<Rightarrow> int \<Rightarrow> rat \<Rightarrow> rat" where
  "round_rat p emin x = (if x = 0 then 0 else if x < 0 then - round_positive p emin (- x) else round_positive p emin x)"

definition round_float :: "nat \<Rightarrow> int \<Rightarrow> int \<Rightarrow> rat \<Rightarrow> js_double" where
  "round_float p emin emax x =
     (let r = round_rat p emin x
      in if r \<ge> 2 powi emax then PosInfinity else if r \<le> - (2 powi emax) then NegInfinity else Finite r)"

definition to_double :: "rat \<Rightarrow> js_double" where
  "to_double x = round_float 53 (- 1074) 1024 x"

definition fround :: "rat \<Rightarrow> js_double" where
  "fround x = round_float 24 (- 149) 128 x"

subsection \<open>Comparisons\<close>

fun js_less :: "js_double \<Rightarrow> js_double \<Rightarrow> bool" where
  "js_less (Finite x) (Finite y) = (x < y)"
| "js_less NegInfinity (Finite _) = True"
| "js_less NegInfinity PosInfinity = True"
| "js_less (Finite _) PosInfinity = True"
| "js_less _ _ = False"

fun js_finite :: "js_double \<Rightarrow> bool" where
  "js_finite (Finite _) = True"
| "js_finite _ = False"

text \<open>The difference and the absolute value of two numbers, and the larger of zero and a number.\<close>

fun js_minus :: "js_double \<Rightarrow> js_double \<Rightarrow> js_double" where
  "js_minus (Finite x) (Finite y) = to_double (x - y)"
| "js_minus (Finite x) PosInfinity = NegInfinity"
| "js_minus (Finite x) NegInfinity = PosInfinity"
| "js_minus PosInfinity (Finite y) = PosInfinity"
| "js_minus PosInfinity NegInfinity = PosInfinity"
| "js_minus NegInfinity (Finite y) = NegInfinity"
| "js_minus NegInfinity PosInfinity = NegInfinity"
| "js_minus _ _ = NotANumber"

fun js_abs :: "js_double \<Rightarrow> js_double" where
  "js_abs (Finite x) = Finite \<bar>x\<bar>"
| "js_abs NegInfinity = PosInfinity"
| "js_abs x = x"

fun js_max0 :: "js_double \<Rightarrow> js_double" where
  "js_max0 (Finite x) = Finite (max 0 x)"
| "js_max0 NegInfinity = Finite 0"
| "js_max0 x = x"

subsection \<open>Reading a number\<close>

definition digits_value :: "nat \<Rightarrow> (code_unit \<Rightarrow> bool) \<Rightarrow> jsstr \<Rightarrow> js_double" where
  "digits_value b ok ds =
     (if ds = [] \<or> \<not> list_all ok ds then NotANumber
      else to_double (of_nat (number_of_digits b ds)))"

definition literal_value :: "jsstr \<Rightarrow> rat" where
  "literal_value s =
     (case literal_parts s of (m, e) \<Rightarrow>
        (if starts_with s (js ''-'') then - 1 else 1) * of_nat m * 10 powi e)"

text \<open>\<open>Number(s)\<close>\<close>

definition Number :: "jsstr \<Rightarrow> js_double" where
  "Number s =
     (let t = trim s in
      if t = [] then Finite 0
      else if t = js ''Infinity'' \<or> t = js ''+Infinity'' then PosInfinity
      else if t = js ''-Infinity'' then NegInfinity
      else if starts_with t (js ''0x'') \<or> starts_with t (js ''0X'') then digits_value 16 is_hex_digit (drop 2 t)
      else if starts_with t (js ''0o'') \<or> starts_with t (js ''0O'') then digits_value 8 (\<lambda>c. is_digit c \<and> hex_value c < 8) (drop 2 t)
      else if starts_with t (js ''0b'') \<or> starts_with t (js ''0B'') then digits_value 2 (\<lambda>c. is_digit c \<and> hex_value c < 2) (drop 2 t)
      else if is_number_syntax t then to_double (literal_value t)
      else NotANumber)"

subsection \<open>Rounding and the integers\<close>

lemma bit_length_bounds: "0 < n \<Longrightarrow> 2 ^ (bit_length n - 1) \<le> n \<and> n < 2 ^ bit_length n \<and> 0 < bit_length n"
proof (induction n rule: bit_length.induct)
  case (1 n)
  show ?case
  proof (cases "n div 2 = 0")
    case True
    then have "n = 1" using "1.prems" by simp
    then show ?thesis by (simp add: bit_length.simps)
  next
    case False
    have len: "bit_length n = Suc (bit_length (n div 2))" using "1.prems" by (subst bit_length.simps) simp
    from False "1.IH" "1.prems" have IH: "2 ^ (bit_length (n div 2) - 1) \<le> n div 2" "n div 2 < 2 ^ bit_length (n div 2)" "0 < bit_length (n div 2)" by auto
    obtain b where b: "bit_length (n div 2) = Suc b" using IH(3) by (cases "bit_length (n div 2)") auto
    have "2 * 2 ^ b \<le> n" "n < 4 * 2 ^ b" using IH(1,2) by (simp_all add: b)
    then show ?thesis unfolding len b by simp
  qed
qed

lemma leading_exponent_bounds:
  assumes "0 < x"
  shows "2 powi leading_exponent x \<le> x \<and> x < 2 powi (leading_exponent x + 1)"
proof -
  obtain n d where q: "quotient_of x = (n, d)" by (cases "quotient_of x")
  have d: "0 < d" and x: "x = of_int n / of_int d" using quotient_of_denom_pos [OF q] quotient_of_div [OF q] by auto
  have n: "0 < n" using assms d by (simp add: x zero_less_divide_iff)
  define a b where "a = bit_length (nat n)" and "b = bit_length (nat d)"
  have a: "2 ^ (a - 1) \<le> nat n" "nat n < 2 ^ a" "0 < a" and b: "2 ^ (b - 1) \<le> nat d" "nat d < 2 ^ b" "0 < b"
    using bit_length_bounds [of "nat n"] bit_length_bounds [of "nat d"] n d by (simp_all add: a_def b_def)
  have rat: "(2::rat) ^ k \<le> of_int m" if "2 ^ k \<le> nat m" "0 < m" for k m
  proof -
    have "(of_nat (2 ^ k) :: rat) \<le> of_nat (nat m)" using that(1) by (simp only: of_nat_le_iff)
    then show ?thesis using that(2) by simp
  qed
  have rat': "of_int m < (2::rat) ^ k" if "nat m < 2 ^ k" "0 < m" for k m
  proof -
    have "(of_nat (nat m) :: rat) < of_nat (2 ^ k)" using that(1) by (simp only: of_nat_less_iff)
    then show ?thesis using that(2) by simp
  qed
  have a': "(2::rat) ^ (a - 1) \<le> of_int n" "of_int n < (2::rat) ^ a" and b': "(2::rat) ^ (b - 1) \<le> of_int d" "of_int d < (2::rat) ^ b"
    using rat [OF a(1) n] rat' [OF a(2) n] rat [OF b(1) d] rat' [OF b(2) d] by simp_all
  have d': "(0::rat) < of_int d" using d by simp
  have "2 powi (int a - int b - 1) = (2::rat) ^ (a - 1) / 2 ^ b"
    using a(3) by (cases a) (simp_all add: power_int_diff)
  also have "\<dots> \<le> of_int n / of_int d"
    by (rule frac_le) (use a'(1) b'(2) d' n in auto)
  finally have low: "2 powi (int a - int b - 1) \<le> x" unfolding x .
  have "of_int n / of_int d < (2::rat) ^ a / 2 ^ (b - 1)"
    by (rule frac_less) (use a'(2) b'(1) n in auto)
  also have "\<dots> = 2 powi (int a - int b + 1)"
    using b(3) by (cases b) (simp_all add: power_int_diff power_int_add)
  finally have high: "x < 2 powi (int a - int b + 1)" unfolding x .
  show ?thesis using low high by (simp add: leading_exponent_def q a_def b_def Let_def)
qed

lemma half_even_le: "x \<le> of_int n \<Longrightarrow> half_even x \<le> n"
proof -
  assume x: "x \<le> of_int n"
  have f: "\<lfloor>x\<rfloor> \<le> n" using x by linarith
  show ?thesis
  proof (cases "\<lfloor>x\<rfloor> = n")
    case True
    then have "x - of_int \<lfloor>x\<rfloor> < 1 / 2" using x by linarith
    then show ?thesis using f by (simp add: half_even_def Let_def)
  next
    case False
    then show ?thesis using f by (simp add: half_even_def Let_def)
  qed
qed

lemma half_even_ge: "of_int n \<le> x \<Longrightarrow> n \<le> half_even x"
  by (simp add: half_even_def Let_def le_floor_iff [symmetric] add_increasing2)

lemma half_even_int [simp]: "half_even (of_int n) = n"
  using half_even_le [of "of_int n" n] half_even_ge [of n "of_int n"] by simp

lemma of_int_le_power: "r \<le> 2 ^ p \<Longrightarrow> (of_int r :: rat) \<le> 2 ^ p"
  by (metis of_int_le_iff of_int_numeral of_int_power)

lemma power_le_of_int: "(2::rat) ^ p \<le> of_int r \<Longrightarrow> 2 ^ p \<le> r"
  by (metis of_int_le_iff of_int_numeral of_int_power)

text \<open>Rounding does not cross an integer of at most \<open>p\<close> binary digits.\<close>

lemma round_positive_le:
  assumes x: "0 < x" "x \<le> of_int r" and r: "r \<le> 2 ^ p" and p: "0 < p" "emin \<le> 0"
  shows "round_positive p emin x \<le> of_int r"
proof -
  define e where "e = max (leading_exponent x - (int p - 1)) emin"
  have eq: "round_positive p emin x = of_int (half_even (x / 2 powi e)) * 2 powi e" by (simp add: round_positive_def e_def Let_def)
  note lead = leading_exponent_bounds [OF x(1)]
  show ?thesis
  proof (cases "e \<le> 0")
    case True
    define k where "k = nat (- e)"
    have e: "e = - int k" using True by (simp add: k_def)
    have "x / 2 powi e \<le> of_int (r * 2 ^ k)" using x(2) by (simp add: e power_int_minus divide_inverse mult_right_mono)
    then have "half_even (x / 2 powi e) \<le> r * 2 ^ k" by (rule half_even_le)
    then have "(of_int (half_even (x / 2 powi e)) :: rat) \<le> of_int (r * 2 ^ k)" by (simp only: of_int_le_iff)
    then show ?thesis unfolding eq by (simp add: e power_int_minus field_simps)
  next
    case False
    then have "leading_exponent x \<ge> int p" using p(2) by (simp add: e_def)
    then have "(2::rat) powi int p \<le> 2 powi leading_exponent x" by (rule power_int_increasing) simp
    then have "2 ^ p \<le> x" using lead by simp
    moreover have "(of_int r :: rat) \<le> 2 ^ p" using r by (rule of_int_le_power)
    ultimately have xr: "x = 2 ^ p" "r = 2 ^ p"
      using x(2) r of_int_le_power [OF r] power_le_of_int [of p r] by linarith+
    have lp: "leading_exponent x = int p"
    proof (rule ccontr)
      assume "leading_exponent x \<noteq> int p"
      with \<open>leading_exponent x \<ge> int p\<close> have "(2::rat) powi (int p + 1) \<le> 2 powi leading_exponent x" by (intro power_int_increasing) auto
      with lead xr show False by (simp add: power_int_add)
    qed
    then have e: "e = 1" using p by (simp add: e_def)
    have "x / 2 powi e = of_int (2 ^ (p - 1))" using p(1) by (cases p) (simp_all add: xr e)
    then have "half_even (x / 2 powi e) = 2 ^ (p - 1)" by (simp only: half_even_int)
    then show ?thesis unfolding eq using p(1) by (cases p) (simp_all add: e xr)
  qed
qed

lemma round_positive_ge:
  assumes x: "0 < x" "of_int r \<le> x" and r: "r \<le> 2 ^ p" and p: "0 < p" "emin \<le> 0"
  shows "of_int r \<le> round_positive p emin x"
proof -
  define e where "e = max (leading_exponent x - (int p - 1)) emin"
  have eq: "round_positive p emin x = of_int (half_even (x / 2 powi e)) * 2 powi e" by (simp add: round_positive_def e_def Let_def)
  note lead = leading_exponent_bounds [OF x(1)]
  show ?thesis
  proof (cases "e \<le> 0")
    case True
    define k where "k = nat (- e)"
    have e: "e = - int k" using True by (simp add: k_def)
    have "of_int (r * 2 ^ k) \<le> x / 2 powi e" using x(2) by (simp add: e power_int_minus divide_inverse mult_right_mono)
    then have "r * 2 ^ k \<le> half_even (x / 2 powi e)" by (rule half_even_ge)
    then have "of_int (r * 2 ^ k) \<le> (of_int (half_even (x / 2 powi e)) :: rat)" by (simp only: of_int_le_iff)
    then show ?thesis unfolding eq by (simp add: e power_int_minus field_simps)
  next
    case False
    then have e: "e = leading_exponent x - (int p - 1)" "int p \<le> leading_exponent x" using p(2) by (simp_all add: e_def)
    have "(2::rat) ^ (p - 1) = 2 powi leading_exponent x / 2 powi e"
      using p(1) by (cases p) (simp_all add: e(1) flip: power_int_diff)
    also have "\<dots> \<le> x / 2 powi e" using lead by (simp add: divide_right_mono)
    finally have "2 ^ (p - 1) \<le> half_even (x / 2 powi e)" by (intro half_even_ge) simp
    then have "(of_int (2 ^ (p - 1)) :: rat) \<le> of_int (half_even (x / 2 powi e))" by (simp only: of_int_le_iff)
    then have "(2::rat) ^ (p - 1) * 2 powi e \<le> round_positive p emin x" unfolding eq by (simp add: mult_right_mono)
    moreover have "(2::rat) ^ (p - 1) * 2 powi e = 2 powi leading_exponent x"
      using p(1) by (cases p) (simp_all add: e(1) power_int_diff)
    moreover have "(2::rat) powi int p \<le> 2 powi leading_exponent x" by (rule power_int_increasing [OF e(2)]) simp
    moreover have "(of_int r :: rat) \<le> 2 ^ p" using r by (rule of_int_le_power)
    ultimately show ?thesis by (metis order_trans power_int_of_nat)
  qed
qed

lemma round_rat_le:
  assumes "x \<le> of_int r" "\<bar>r\<bar> \<le> 2 ^ p" "0 < p" "emin \<le> 0"
  shows "round_rat p emin x \<le> of_int r"
proof (cases x "0::rat" rule: linorder_cases)
  case less
  then have "of_int (- r) \<le> round_positive p emin (- x)" using assms by (intro round_positive_ge) auto
  with less show ?thesis by (simp add: round_rat_def)
qed (use assms in \<open>auto simp: round_rat_def intro!: round_positive_le\<close>)

lemma round_rat_ge:
  assumes "of_int r \<le> x" "\<bar>r\<bar> \<le> 2 ^ p" "0 < p" "emin \<le> 0"
  shows "of_int r \<le> round_rat p emin x"
proof (cases x "0::rat" rule: linorder_cases)
  case less
  then have "round_positive p emin (- x) \<le> of_int (- r)" using assms by (intro round_positive_le) auto
  with less show ?thesis by (simp add: round_rat_def)
qed (use assms in \<open>auto simp: round_rat_def intro!: round_positive_ge\<close>)

lemma round_rat_int [simp]:
  "\<bar>r\<bar> \<le> 2 ^ p \<Longrightarrow> 0 < p \<Longrightarrow> emin \<le> 0 \<Longrightarrow> round_rat p emin (of_int r) = of_int r"
  by (intro order_antisym round_rat_le round_rat_ge) simp_all

lemma to_double_int: "\<bar>r\<bar> \<le> 2 ^ 53 \<Longrightarrow> to_double (of_int r) = Finite (of_int r)"
proof -
  assume r: "\<bar>r\<bar> \<le> 2 ^ 53"
  have "\<bar>of_int r :: rat\<bar> \<le> 2 ^ 53" using of_int_le_power [OF r] by simp
  moreover have "(2::rat) ^ 53 < 2 powi 1024" by simp
  ultimately show ?thesis using r by (simp add: to_double_def round_float_def Let_def abs_le_iff)
qed

text \<open>A finite number compares with an integer of at most 53 binary digits as the number that was rounded.\<close>

lemma to_double_FiniteD: "to_double x = Finite y \<Longrightarrow> y = round_rat 53 (- 1074) x"
  by (simp add: to_double_def round_float_def Let_def split: if_splits)

lemma to_double_le:
  assumes "to_double x = Finite y" "x \<le> of_int r" "\<bar>r\<bar> \<le> 2 ^ 53"
  shows "y \<le> of_int r"
  using round_rat_le [OF assms(2,3), of "- 1074"] to_double_FiniteD [OF assms(1)] by simp

lemma to_double_ge:
  assumes "to_double x = Finite y" "of_int r \<le> x" "\<bar>r\<bar> \<le> 2 ^ 53"
  shows "of_int r \<le> y"
  using round_rat_ge [OF assms(2,3), of "- 1074"] to_double_FiniteD [OF assms(1)] by simp

end
