(* ===== verification/Property_Limits.thy ===== *)
theory Property_Limits
  imports Js_Double Type_Text
begin

section \<open>The limits of a type (PropertyForm.tsx)\<close>

text \<open>
  The checks of the numbers the user types for a type: precision and scale of a decimal, the range of a number, the
  length of a text. An input has a text and a flag that the browser sets when the text is not a number. \<open>num\<close> is
  \<open>String(n)\<close> and \<open>exp10\<close> is \<open>10 ** n\<close>, which the standard leaves approximate.
\<close>

definition INT_BITSIZES :: "nat list" where
  "INT_BITSIZES = [8, 16, 24, 32, 64]"

definition FLOAT_BITSIZES :: "nat list" where
  "FLOAT_BITSIZES = [32, 64]"

definition MAX_PRECISION :: js_num where "MAX_PRECISION = 76"
definition MAX_SCALE :: js_num where "MAX_SCALE = 37"
definition MAX_STRING_LENGTH :: js_num where "MAX_STRING_LENGTH = 4294967295"

record decimal_inputs =
  di_precision :: jsstr
  di_precisionBadInput :: bool
  di_scale :: jsstr
  di_scaleBadInput :: bool

record range_input =
  ri_value :: jsstr
  ri_badInput :: bool

record range_inputs =
  minimum_input :: range_input
  maximum_input :: range_input

datatype bound = Minimum | Maximum

datatype type_location = TypeLocation | StringConstraints | DecimalConstraints | NumericRange | MeasurementUnit | DurationUnit

datatype type_message =
    TypeEmpty
  | UnitRequired
  | MaxCharactersRange
  | MaxBytesRange
  | PrecisionNotNumber
  | ScaleNotNumber
  | PrecisionAndScaleEmpty
  | PrecisionRequired
  | ScaleRequired
  | PrecisionRange
  | ScaleRange
  | ScaleAbovePrecision
  | BoundNotNumber bound type_kind
  | BoundNotFinite bound
  | BoundNotInRange bound int int
  | BoundNotFloat bound nat
  | BoundNotDecimal bound "js_num option" js_num
  | MaxBelowMin

type_synonym type_error = "type_location \<times> type_message"

subsection \<open>Decimal types\<close>

text \<open>\<open>Number.isInteger(n)\<close>\<close>

definition is_integer :: "js_num \<Rightarrow> bool" where
  "is_integer n \<longleftrightarrow> of_int \<lfloor>n\<rfloor> = n"

definition scale_or_zero :: "decimal_type \<Rightarrow> js_num" where
  "scale_or_zero type = (case dt_scale type of None \<Rightarrow> 0 | Some s \<Rightarrow> s)"

definition checkDecimalType :: "decimal_type \<Rightarrow> type_message option" where
  "checkDecimalType type =
     (case dt_precision type of
        None \<Rightarrow> Some PrecisionRange
      | Some precision \<Rightarrow>
          if \<not> is_integer precision \<or> precision < 1 \<or> precision > MAX_PRECISION then Some PrecisionRange
          else let scale = scale_or_zero type in
            if \<not> is_integer scale \<or> scale < 0 \<or> scale > MAX_SCALE then Some ScaleRange
            else if scale > precision then Some ScaleAbovePrecision
            else None)"

definition checkDecimalTypeInputs :: "decimal_inputs \<Rightarrow> type_message option" where
  "checkDecimalTypeInputs inputs =
     (if di_precisionBadInput inputs then Some PrecisionNotNumber
      else if di_scaleBadInput inputs then Some ScaleNotNumber
      else if di_precision inputs = [] \<and> di_scale inputs = [] then Some PrecisionAndScaleEmpty
      else if di_precision inputs = [] then Some PrecisionRequired
      else if di_scale inputs = [] then Some ScaleRequired
      else None)"

definition no_decimal_inputs :: decimal_inputs where
  "no_decimal_inputs = \<lparr>di_precision = [], di_precisionBadInput = False, di_scale = [], di_scaleBadInput = False\<rparr>"

definition getDecimalTypeInputs :: "(js_num \<Rightarrow> jsstr) \<Rightarrow> schema_type option \<Rightarrow> decimal_inputs" where
  "getDecimalTypeInputs num type =
     (case map_option getPropertyValueType type of
        Some (DecimalType t) \<Rightarrow>
          no_decimal_inputs\<lparr>di_precision := (case dt_precision t of None \<Rightarrow> [] | Some p \<Rightarrow> num p), di_scale := num (scale_or_zero t)\<rparr>
      | _ \<Rightarrow> no_decimal_inputs)"

subsection \<open>The range of a number\<close>

definition getIntegerTypeRange :: "int_type \<Rightarrow> int \<times> int" where
  "getIntegerTypeRange type =
     (let magnitude = 2 ^ (it_bitSize type - (if it_unsigned type then 0 else 1))
      in if it_unsigned type then (0, magnitude - 1) else (- magnitude, magnitude - 1))"

text \<open>A minus sign, and a comma before each group of three digits.\<close>

definition formatIntegerLimit :: "int \<Rightarrow> jsstr" where
  "formatIntegerLimit limit =
     (let ds = nat_text (nat \<bar>limit\<bar>)
      in (if limit < 0 then [8722] else []) @
         concat (map (\<lambda>i. (if i \<noteq> 0 \<and> (length ds - i) mod 3 = 0 then js '','' else []) @ [ds ! i]) [0..<length ds]))"

text \<open>\<open>/[1-9]/.test(s)\<close>\<close>

definition has_nonzero_digit :: "jsstr \<Rightarrow> bool" where
  "has_nonzero_digit s = list_ex (\<lambda>c. ch CHR ''1'' \<le> c \<and> c \<le> ch CHR ''9'') s"

text \<open>\<open>toLowerCase\<close> on the texts of numbers, which are ASCII.\<close>

definition lower_unit :: "code_unit \<Rightarrow> code_unit" where
  "lower_unit c = (if ch CHR ''A'' \<le> c \<and> c \<le> ch CHR ''Z'' then c + 32 else c)"

definition getDecimalPlaces :: "jsstr \<Rightarrow> js_double" where
  "getDecimalPlaces value =
     (let parts = split_on (ch CHR ''e'') (map lower_unit value);
          coefficient = hd parts;
          exponentText = (if length parts > 1 then parts ! 1 else []);
          digits = remove1 (ch CHR ''.'') (drop_sign coefficient)
      in if \<not> has_nonzero_digit digits then Finite 0
         else let pieces = split_on (ch CHR ''.'') coefficient;
                  fractionalDigits = (if length pieces > 1 then length (pieces ! 1) else 0);
                  decimalPlaces = js_max0 (js_minus (Finite (of_nat fractionalDigits)) (Number (if exponentText = [] then js ''0'' else exponentText)));
                  trailingZeros = length (takeWhile (\<lambda>c. c = ch CHR ''0'') (rev digits))
              in js_max0 (js_minus decimalPlaces (Finite (of_nat trailingZeros))))"

text \<open>The numbers typed, with their texts.\<close>

fun range_values :: "type_kind \<Rightarrow> (bound \<times> range_input) list \<Rightarrow> type_message + (bound \<times> jsstr \<times> rat) list" where
  "range_values kind [] = Inr []"
| "range_values kind ((b, i) # is) =
     (if ri_badInput i then Inl (BoundNotNumber b kind)
      else if ri_value i = [] then range_values kind is
      else (case Number (ri_value i) of
              Finite n \<Rightarrow> map_sum id ((#) (b, ri_value i, n)) (range_values kind is)
            | _ \<Rightarrow> Inl (BoundNotFinite b)))"

definition integer_problem :: "int_type \<Rightarrow> bound \<times> jsstr \<times> rat \<Rightarrow> type_message option" where
  "integer_problem type v =
     (case (getIntegerTypeRange type, v) of
        ((minimum, maximum), (b, input, n)) \<Rightarrow>
          if getDecimalPlaces input \<noteq> Finite 0 \<or> js_less (Finite n) (to_double (of_int minimum)) \<or>
             js_less (to_double (of_int maximum)) (Finite n)
          then Some (BoundNotInRange b minimum maximum) else None)"

definition float_problem :: "float_type \<Rightarrow> bound \<times> jsstr \<times> rat \<Rightarrow> type_message option" where
  "float_problem type v =
     (case v of (b, input, n) \<Rightarrow>
        let represented = (if ft_bitSize type = 32 then fround n else Finite n);
            inputIsZero = (\<not> has_nonzero_digit (takeWhile (\<lambda>c. \<not> is_exponent_mark c) input))
        in if \<not> js_finite represented \<or> (\<not> inputIsZero \<and> represented = Finite 0)
           then Some (BoundNotFloat b (ft_bitSize type)) else None)"

definition decimal_problem :: "(js_double \<Rightarrow> js_double) \<Rightarrow> decimal_type \<Rightarrow> bound \<times> jsstr \<times> rat \<Rightarrow> type_message option" where
  "decimal_problem exp10 type v =
     (case v of (b, input, n) \<Rightarrow>
        let scale = scale_or_zero type;
            precision = (case dt_precision type of None \<Rightarrow> NotANumber | Some p \<Rightarrow> Finite p);
            maximum = js_minus (exp10 (js_minus precision (Finite scale))) (exp10 (Finite (- scale)))
        in if js_less maximum (Finite \<bar>n\<bar>) \<or> js_less (Finite scale) (getDecimalPlaces input)
           then Some (BoundNotDecimal b (dt_precision type) scale) else None)"

fun first_problem :: "('a \<Rightarrow> 'b option) \<Rightarrow> 'a list \<Rightarrow> 'b option" where
  "first_problem f [] = None"
| "first_problem f (x # xs) = (case f x of None \<Rightarrow> first_problem f xs | Some e \<Rightarrow> Some e)"

definition isNumericType :: "schema_type option \<Rightarrow> bool" where
  "isNumericType type \<longleftrightarrow> (case type of None \<Rightarrow> False | Some t \<Rightarrow> kind_of t = KInt \<or> kind_of t = KFloat \<or> kind_of t = KDecimal)"

definition checkNumericRange :: "(js_double \<Rightarrow> js_double) \<Rightarrow> schema_type \<Rightarrow> range_inputs \<Rightarrow> type_message option" where
  "checkNumericRange exp10 type inputs =
     (case range_values (kind_of type) [(Minimum, minimum_input inputs), (Maximum, maximum_input inputs)] of
        Inl e \<Rightarrow> Some e
      | Inr values \<Rightarrow>
          (case first_problem
                  (case type of IntType t \<Rightarrow> integer_problem t | FloatType t \<Rightarrow> float_problem t | DecimalType t \<Rightarrow> decimal_problem exp10 t
                   | _ \<Rightarrow> (\<lambda>_. None)) values of
             Some e \<Rightarrow> Some e
           | None \<Rightarrow>
               if ri_value (minimum_input inputs) \<noteq> [] \<and> ri_value (maximum_input inputs) \<noteq> [] \<and>
                  js_less (Number (ri_value (maximum_input inputs))) (Number (ri_value (minimum_input inputs)))
               then Some MaxBelowMin else None))"

definition limit_input :: "(js_num \<Rightarrow> jsstr) \<Rightarrow> js_num option \<Rightarrow> range_input" where
  "limit_input num limit = \<lparr>ri_value = (case limit of None \<Rightarrow> [] | Some n \<Rightarrow> num n), ri_badInput = False\<rparr>"

definition getNumericRangeInputs :: "(js_num \<Rightarrow> jsstr) \<Rightarrow> schema_type option \<Rightarrow> range_inputs" where
  "getNumericRangeInputs num type =
     (case map_option getPropertyValueType type of
        Some (IntType t) \<Rightarrow> \<lparr>minimum_input = limit_input num (it_minimum t), maximum_input = limit_input num (it_maximum t)\<rparr>
      | Some (FloatType t) \<Rightarrow> \<lparr>minimum_input = limit_input num (ft_minimum t), maximum_input = limit_input num (ft_maximum t)\<rparr>
      | Some (DecimalType t) \<Rightarrow> \<lparr>minimum_input = limit_input num (dt_minimum t), maximum_input = limit_input num (dt_maximum t)\<rparr>
      | _ \<Rightarrow> \<lparr>minimum_input = limit_input num None, maximum_input = limit_input num None\<rparr>)"

definition getNumericTypeError ::
    "(js_double \<Rightarrow> js_double) \<Rightarrow> schema_type \<Rightarrow> decimal_inputs \<Rightarrow> range_inputs \<Rightarrow> type_error option" where
  "getNumericTypeError exp10 type decimalTypeInputs numericRangeInputs =
     (let constraints = (case type of
            DecimalType t \<Rightarrow> (case checkDecimalTypeInputs decimalTypeInputs of None \<Rightarrow> checkDecimalType t | Some e \<Rightarrow> Some e)
          | _ \<Rightarrow> None)
      in case constraints of
           Some e \<Rightarrow> Some (DecimalConstraints, e)
         | None \<Rightarrow> map_option (\<lambda>e. (NumericRange, e)) (checkNumericRange exp10 type numericRangeInputs))"

definition hasSemanticsDecimalRange :: "semantics option \<Rightarrow> bool" where
  "hasSemanticsDecimalRange sem \<longleftrightarrow> sem = Some Money \<or> sem = Some Percentage \<or> sem = Some Measurement"

subsection \<open>The type of a property\<close>

definition length_invalid :: "js_num option \<Rightarrow> bool" where
  "length_invalid limit \<longleftrightarrow> (case limit of None \<Rightarrow> False | Some n \<Rightarrow> \<not> is_integer n \<or> n < 1 \<or> n > MAX_STRING_LENGTH)"

text \<open>A unit that is not chosen yet, the empty text in the source, is \<open>None\<close>.\<close>

definition validatePropertyType ::
    "(js_double \<Rightarrow> js_double) \<Rightarrow> schema_type option \<Rightarrow> decimal_inputs \<Rightarrow> range_inputs \<Rightarrow> type_error option" where
  "validatePropertyType exp10 propertyType decimalTypeInputs numericRangeInputs =
     (case propertyType of
        None \<Rightarrow> Some (TypeLocation, TypeEmpty)
      | Some ptype \<Rightarrow>
          (let type = getPropertyValueType ptype;
               constraints = (case type of
                   StringType t \<Rightarrow>
                     (if length_invalid (st_maxLength t) then Some (StringConstraints, MaxCharactersRange)
                      else if length_invalid (st_maxBytes t) then Some (StringConstraints, MaxBytesRange) else None)
                 | _ \<Rightarrow> if isNumericType (Some type) then getNumericTypeError exp10 type decimalTypeInputs numericRangeInputs else None)
           in if kind_of type = KDecimal \<and> type_semantics type = Some Measurement \<and> type_unit type = None
              then Some (MeasurementUnit, UnitRequired)
              else case constraints of
                     Some e \<Rightarrow> Some e
                   | None \<Rightarrow>
                       if kind_of type = KFloat \<and> type_semantics type = Some Duration \<and> type_unit type = None
                       then Some (DurationUnit, UnitRequired) else None))"

end
