(* ===== verification/Limit_Checks.thy ===== *)
theory Limit_Checks
  imports Property_Limits
begin

section \<open>The limits that the form of a property accepts\<close>

text \<open>
  The limits are checked on the text that was typed and on the double it is read as. The text is a number, which is
  what a number input of a browser gives, and not longer than \<open>2 ^ 52\<close>.
\<close>

subsection \<open>The parts of a number\<close>

lemma digit_units: "is_digit c \<Longrightarrow> lower_unit c = c \<and> c \<noteq> 46 \<and> c \<noteq> 101 \<and> \<not> is_sign c \<and> \<not> is_js_space c \<and> c \<noteq> 120"
  by (auto simp: is_digit_iff lower_unit_def is_sign_def is_js_space_def)

lemma sign_units: "is_sign c \<Longrightarrow> lower_unit c = c \<and> c \<noteq> 46 \<and> c \<noteq> 101 \<and> \<not> is_digit c \<and> \<not> is_js_space c"
  by (auto simp: is_digit_iff lower_unit_def is_sign_def is_js_space_def)

lemma lower_digits: "list_all is_digit ds \<Longrightarrow> map lower_unit ds = ds"
  by (induction ds) (auto simp: digit_units)

lemma plain_digits: "list_all is_digit ds \<Longrightarrow> 46 \<notin> set ds \<and> 101 \<notin> set ds"
  by (induction ds) (auto dest: digit_units)

text \<open>A sign or nothing.\<close>

definition sign_text :: "jsstr \<Rightarrow> bool" where
  "sign_text s \<longleftrightarrow> s = [] \<or> (\<exists>c. s = [c] \<and> is_sign c)"

lemma sign_text_units: "sign_text s \<Longrightarrow> map lower_unit s = s \<and> 46 \<notin> set s \<and> 101 \<notin> set s"
  by (auto simp: sign_text_def dest: sign_units)

lemma drop_sign_text: "sign_text s \<Longrightarrow> r = [] \<or> \<not> is_sign (hd r) \<Longrightarrow> drop_sign (s @ r) = r"
  by (cases r) (auto simp: sign_text_def drop_sign_def)

lemma sign_of: "\<exists>s. sign_text s \<and> v = s @ drop_sign v"
  by (cases v) (auto simp: sign_text_def drop_sign_def)

lemma exponent_shape:
  assumes "is_exponent_part r"
  shows "r = [] \<or> (\<exists>e s ds. r = e # s @ ds \<and> is_exponent_mark e \<and> sign_text s \<and> ds \<noteq> [] \<and> list_all is_digit ds)"
proof (cases r)
  case (Cons e u)
  obtain s where "sign_text s" "u = s @ drop_sign u" using sign_of by blast
  then show ?thesis using assms by (auto simp: Cons is_exponent_part_def)
qed simp

lemma number_shape:
  assumes "is_number_syntax v"
  obtains s whole rest fraction e where "v = s @ whole @ rest @ e" "sign_text s" "list_all is_digit whole" "list_all is_digit fraction"
    "rest = [] \<and> fraction = [] \<or> rest = 46 # fraction" "is_exponent_part e" "whole \<noteq> [] \<or> fraction \<noteq> []"
    "literal_parts v = (decimal_value (whole @ fraction), exponent_value e - int (length fraction))"
proof -
  let ?t = "drop_sign v"
  let ?whole = "takeWhile is_digit ?t"
  let ?r = "dropWhile is_digit ?t"
  obtain s where s: "sign_text s" "v = s @ ?t" using sign_of by blast
  have t: "?t = ?whole @ ?r" by simp
  have whole: "list_all is_digit ?whole" by (auto simp: list_all_iff dest: set_takeWhileD)
  show thesis
  proof (cases "starts_with ?r [46]")
    case True
    then obtain u where u: "?r = 46 # u" by (auto simp: starts_with_iff)
    let ?fraction = "takeWhile is_digit u"
    have eq: "v = s @ ?whole @ (46 # ?fraction) @ dropWhile is_digit u" using s(2) t by (simp add: u)
    have fraction: "list_all is_digit ?fraction" by (auto simp: list_all_iff dest: set_takeWhileD)
    have syn: "is_exponent_part (dropWhile is_digit u)" "?whole \<noteq> [] \<or> ?fraction \<noteq> []"
      using assms by (simp_all add: is_number_syntax_def Let_def u)
    have parts: "literal_parts v = (decimal_value (?whole @ ?fraction), exponent_value (dropWhile is_digit u) - int (length ?fraction))"
      by (simp add: literal_parts_def Let_def u)
    show thesis by (rule that [OF eq s(1) whole fraction _ syn parts]) simp
  next
    case False
    have "v = s @ ?whole @ [] @ ?r" using s(2) t by simp
    then show thesis using that [of s ?whole "[]" ?r "[]"] s(1) whole assms False by (auto simp: is_number_syntax_def literal_parts_def Let_def)
  qed
qed

subsection \<open>The digits\<close>

lemma decimal_value_snoc: "decimal_value (ds @ [c]) = decimal_value ds * 10 + hex_value c"
  by (simp add: number_of_digits_def)

lemma decimal_value_zero: "list_all is_digit ds \<Longrightarrow> decimal_value ds = 0 \<longleftrightarrow> \<not> has_nonzero_digit ds"
proof (induction ds rule: rev_induct)
  case (snoc c ds)
  then show ?case by (auto simp: decimal_value_snoc has_nonzero_digit_def hex_value_def is_digit_iff)
qed (simp add: number_of_digits_def has_nonzero_digit_def)

abbreviation trailing_zeros :: "jsstr \<Rightarrow> nat" where
  "trailing_zeros ds \<equiv> length (takeWhile (\<lambda>c. c = 48) (rev ds))"

lemma decimal_value_trailing:
  "list_all is_digit ds \<Longrightarrow> has_nonzero_digit ds \<Longrightarrow> \<exists>m. decimal_value ds = m * 10 ^ trailing_zeros ds \<and> \<not> 10 dvd m"
proof (induction ds rule: rev_induct)
  case (snoc c ds)
  show ?case
  proof (cases "c = 48")
    case True
    with snoc.prems have "has_nonzero_digit ds" "list_all is_digit ds" by (auto simp: has_nonzero_digit_def)
    then obtain m where m: "decimal_value ds = m * 10 ^ trailing_zeros ds" "\<not> 10 dvd m" using snoc.IH by blast
    have "hex_value 48 = 0" by (simp add: hex_value_def is_digit_iff)
    then show ?thesis using m by (intro exI [of _ m]) (simp add: True decimal_value_snoc)
  next
    case False
    with snoc.prems have "0 < hex_value c" "hex_value c < 10" by (auto simp: hex_value_def is_digit_iff)
    then have "\<not> 10 dvd (decimal_value ds * 10 + hex_value c)" by presburger
    with False show ?thesis by (simp add: decimal_value_snoc)
  qed
qed (simp add: has_nonzero_digit_def)

text \<open>When a decimal number is an integer.\<close>

lemma scaled_integer:
  assumes "\<not> 10 dvd m"
  shows "(of_nat (m * 10 ^ k) * 10 powi e :: rat) \<in> \<int> \<longleftrightarrow> - e \<le> int k"
proof (cases "- e \<le> int k")
  case True
  then obtain j where "int k + e = int j" by (metis nat_0_le add.commute diff_ge_0_iff_ge diff_minus_eq_add)
  then have "(10::rat) ^ k * 10 powi e = 10 ^ j" by (metis power_int_add power_int_of_nat zero_neq_numeral)
  then have "(of_nat (m * 10 ^ k) * 10 powi e :: rat) = of_nat (m * 10 ^ j)" by (simp add: mult.assoc)
  then show ?thesis using True by (metis Ints_of_nat)
next
  case False
  define j where "j = nat (- e - int k - 1)"
  have "- e = int k + int (Suc j)" using False by (simp add: j_def)
  then have e: "e = - (int k + int (Suc j))" by simp
  have "(10::rat) ^ k * 10 powi e = 10 powi (int k + e)" by (simp add: power_int_add)
  also have "\<dots> = 10 powi (- int (Suc j))" by (simp add: e)
  also have "\<dots> = inverse (10 ^ Suc j)" by (simp only: power_int_minus power_int_of_nat)
  finally have scale: "(10::rat) ^ k * 10 powi e = inverse (10 ^ Suc j)" .
  have eq: "(of_nat (m * 10 ^ k) * 10 powi e :: rat) = of_nat m / of_nat (10 ^ Suc j)"
    by (simp add: mult.assoc divide_inverse scale del: power_Suc)
  have "\<not> 10 ^ Suc j dvd m" using assms dvd_trans [of 10 "10 ^ Suc j" m] by auto
  then have "(of_nat m / of_nat (10 ^ Suc j) :: rat) \<notin> \<int>"
    using of_int_div_of_int_in_Ints_iff [of "int m" "int (10 ^ Suc j)", where ?'a = rat] by (metis of_int_of_nat_eq of_nat_eq_0_iff int_dvd_int_iff power_not_zero zero_neq_numeral)
  with False show ?thesis by (simp only: eq)
qed

subsection \<open>Reading numbers\<close>

lemma dropWhile_none: "list_all (\<lambda>c. \<not> P c) t \<Longrightarrow> dropWhile P t = t"
  by (cases t) simp_all

lemma trim_plain: "list_all (\<lambda>c. \<not> is_js_space c) t \<Longrightarrow> trim t = t"
  by (simp add: trim_def trim_start_def dropWhile_none)

lemma number_chars: "is_number_syntax v \<Longrightarrow> list_all (\<lambda>c. is_digit c \<or> is_sign c \<or> c = 46 \<or> is_exponent_mark c) v"
proof -
  assume "is_number_syntax v"
  then obtain s whole rest fraction e where v: "v = s @ whole @ rest @ e" "sign_text s" "list_all is_digit whole" "list_all is_digit fraction"
    "rest = [] \<and> fraction = [] \<or> rest = 46 # fraction" "is_exponent_part e" by (rule number_shape)
  have "list_all (\<lambda>c. is_digit c \<or> is_sign c \<or> c = 46 \<or> is_exponent_mark c) e"
    using exponent_shape [OF v(6)] by (auto simp: list_all_iff sign_text_def)
  then show ?thesis using v by (auto simp: list_all_iff sign_text_def)
qed

lemma Number_literal:
  assumes "is_number_syntax v"
  shows "Number v = to_double (literal_value v)"
proof -
  have chars: "\<forall>c \<in> set v. is_digit c \<or> is_sign c \<or> c = 46 \<or> is_exponent_mark c"
    using number_chars [OF assms] by (simp add: list_all_iff)
  have space: "list_all (\<lambda>c. \<not> is_js_space c) v"
  proof -
    have "\<not> is_js_space c" if "is_digit c \<or> is_sign c \<or> c = 46 \<or> is_exponent_mark c" for c
      using that by (auto simp: is_exponent_mark_def is_js_space_def is_digit_iff is_sign_def)
    then show ?thesis using chars unfolding list_all_iff by blast
  qed
  have nonempty: "v \<noteq> []" using assms by (auto simp: is_number_syntax_def drop_sign_def)
  have free: "x \<notin> set v" if "x \<in> {73, 120, 88, 111, 79, 98, 66}" for x
    using chars that by (auto simp: is_digit_iff is_sign_def is_exponent_mark_def)
  have other: "v \<noteq> w \<and> \<not> starts_with v w" if "x \<in> set w" "x \<in> {73, 120, 88, 111, 79, 98, 66}" for x w
    using free [OF that(2)] that(1) by (auto simp: starts_with_iff)
  have "v \<noteq> js ''Infinity''" "v \<noteq> js ''+Infinity''" "v \<noteq> js ''-Infinity''"
    using other [of 73] by (simp_all add: js_Cons)
  moreover have "\<not> starts_with v (js ''0x'')" "\<not> starts_with v (js ''0X'')" "\<not> starts_with v (js ''0o'')" "\<not> starts_with v (js ''0O'')"
    "\<not> starts_with v (js ''0b'')" "\<not> starts_with v (js ''0B'')"
    using other [of 120] other [of 88] other [of 111] other [of 79] other [of 98] other [of 66] by (simp_all add: js_Cons)
  ultimately show ?thesis using assms nonempty by (simp only: Number_def trim_plain [OF space] Let_def if_False if_True simp_thms)
qed

lemma integer_syntax:
  assumes "sign_text s" "list_all is_digit ds" "ds \<noteq> []"
  shows "is_number_syntax (s @ ds)" "literal_value (s @ ds) = of_int (if s = [45] then - int (decimal_value ds) else int (decimal_value ds))"
proof -
  have t: "drop_sign (s @ ds) = ds" using assms digit_units [of "hd ds"] by (intro drop_sign_text) (cases ds; auto)+
  have d: "takeWhile is_digit ds = ds" "dropWhile is_digit ds = []" using assms(2) by (simp_all add: list_all_iff takeWhile_eq_all_conv)
  show "is_number_syntax (s @ ds)" using assms(3) by (simp add: is_number_syntax_def Let_def t d is_exponent_part_def)
  have "starts_with (s @ ds) [45] \<longleftrightarrow> s = [45]"
    using assms digit_units [of "hd ds"] by (cases ds) (auto simp: sign_text_def starts_with_iff is_sign_def is_digit_iff)
  then show "literal_value (s @ ds) = of_int (if s = [45] then - int (decimal_value ds) else int (decimal_value ds))"
    by (simp add: literal_value_def literal_parts_def Let_def t d exponent_value_def js_Cons)
qed

lemma Number_exponent:
  assumes "sign_text s" "list_all is_digit ds" "ds \<noteq> []"
  shows "Number (s @ ds) = to_double (of_int (exponent_value (e # s @ ds)))"
proof -
  have t: "drop_sign (s @ ds) = ds" using assms digit_units [of "hd ds"] by (intro drop_sign_text) (cases ds; auto)+
  have minus: "starts_with (s @ ds) [ch CHR ''-''] \<longleftrightarrow> s = [45]"
    using assms digit_units [of "hd ds"] by (cases ds) (auto simp: sign_text_def starts_with_iff is_sign_def is_digit_iff)
  have "exponent_value (e # s @ ds) = (if s = [45] then - int (decimal_value ds) else int (decimal_value ds))"
    unfolding exponent_value_def by (simp only: list.case t minus)
  then show ?thesis using integer_syntax [OF assms] by (simp only: Number_literal)
qed

subsection \<open>Decimal places\<close>

lemma getDecimalPlaces_shape:
  assumes v: "v = s @ whole @ rest @ e" "sign_text s" "list_all is_digit whole" "list_all is_digit fraction"
    "rest = [] \<and> fraction = [] \<or> rest = 46 # fraction" "is_exponent_part e" "whole \<noteq> [] \<or> fraction \<noteq> []"
  shows "getDecimalPlaces v =
    (if \<not> has_nonzero_digit (whole @ fraction) then Finite 0
     else js_max0 (js_minus (js_max0 (js_minus (Finite (of_nat (length fraction))) (to_double (of_int (exponent_value e)))))
            (Finite (of_nat (trailing_zeros (whole @ fraction))))))"
proof -
  let ?c = "s @ whole @ rest"
  have c: "map lower_unit ?c = ?c" "101 \<notin> set ?c"
    using v(5) sign_text_units [OF v(2)] lower_digits [OF v(3)] lower_digits [OF v(4)] plain_digits [OF v(3)] plain_digits [OF v(4)]
    by (auto simp: lower_unit_def)
  obtain x where parts: "split_on 101 (map lower_unit v) = (if e = [] then [?c] else [?c, x])"
    and x: "e \<noteq> [] \<Longrightarrow> x \<noteq> [] \<and> Number x = to_double (of_int (exponent_value e))"
  proof (cases e)
    case Nil
    show thesis by (rule that [of "[]"]) (use c in \<open>simp_all add: v(1) Nil split_on_no_sep\<close>)
  next
    case (Cons m u)
    with exponent_shape [OF v(6)] obtain s' ds where e: "e = m # s' @ ds" "is_exponent_mark m" "sign_text s'" "ds \<noteq> []" "list_all is_digit ds"
      by auto
    have m: "lower_unit m = 101" using e(2) by (auto simp: is_exponent_mark_def lower_unit_def)
    have u: "map lower_unit (s' @ ds) = s' @ ds" "101 \<notin> set (s' @ ds)"
      using sign_text_units [OF e(3)] lower_digits [OF e(5)] plain_digits [OF e(5)] by auto
    have "map lower_unit v = ?c @ 101 # s' @ ds" using c(1) u(1) m by (simp add: v(1) e(1))
    then have "split_on 101 (map lower_unit v) = [?c, s' @ ds]" using split_on_append [OF c(2)] split_on_no_sep [OF u(2)] by simp
    then show thesis by (rule_tac that [of "s' @ ds"]) (use e(1,4) Number_exponent [OF e(3,5,4)] in simp_all)
  qed
  have coefficient: "drop_sign ?c = whole @ rest"
    using v(3-5,7) digit_units sign_units by (intro drop_sign_text [OF v(2)]) (cases whole; auto simp: is_sign_def is_digit_iff)
  have plain: "46 \<notin> set s" "46 \<notin> set whole" "46 \<notin> set fraction"
    using sign_text_units [OF v(2)] plain_digits [OF v(3)] plain_digits [OF v(4)] by auto
  have digits: "remove1 46 (drop_sign ?c) = whole @ fraction"
    unfolding coefficient using v(5) plain by (auto simp: remove1_append remove1_idem)
  have pieces: "(if length (split_on 46 ?c) > 1 then length (split_on 46 ?c ! 1) else 0) = length fraction"
    using v(5)
  proof
    assume "rest = [] \<and> fraction = []"
    then show ?thesis using plain by (simp add: split_on_no_sep)
  next
    assume "rest = 46 # fraction"
    then show ?thesis using plain split_on_append [of 46 "s @ whole" fraction] by (simp add: split_on_no_sep)
  qed
  have exponent: "Number (if (if e = [] then [] else x) = [] then [48] else if e = [] then [] else x) = to_double (of_int (exponent_value e))"
  proof (cases "e = []")
    case True
    have "Number ([] @ [48]) = to_double (of_int (exponent_value [0, 48]))"
      using Number_exponent [of "[]" "[48]" 0] by (simp add: sign_text_def is_digit_iff)
    also have "exponent_value [0, 48] = 0" by (simp add: exponent_value_def drop_sign_def is_sign_def starts_with_iff number_of_digits_def hex_value_def is_digit_iff)
    finally show ?thesis by (simp add: True exponent_value_def)
  qed (use x in simp)
  have units: "ch CHR ''e'' = 101" "ch CHR ''.'' = 46" "ch CHR ''0'' = 48" "js ''0'' = [48]" by (simp_all add: js_Cons)
  have first: "hd (split_on 101 (map lower_unit v)) = ?c"
    and second: "(if 1 < length (split_on 101 (map lower_unit v)) then split_on 101 (map lower_unit v) ! 1 else []) = (if e = [] then [] else x)"
    by (simp_all add: parts)
  show ?thesis
    unfolding getDecimalPlaces_def Let_def units first second digits pieces exponent ..
qed

text \<open>Rounding decides like the exact numbers on which side of an integer a number lies.\<close>

lemma below_infinity: "\<bar>r\<bar> \<le> 2 ^ 53 \<Longrightarrow> (of_int r :: rat) < 2 powi 1024 \<and> - (2 powi 1024) < (of_int r :: rat)"
proof -
  assume r: "\<bar>r\<bar> \<le> 2 ^ 53"
  have "\<bar>of_int r :: rat\<bar> \<le> 2 ^ 53" using of_int_le_power [OF r] by simp
  moreover have "(2::rat) ^ 53 < 2 powi 1024" by simp
  ultimately show ?thesis by linarith
qed

lemma to_double_infinite:
  assumes r: "\<bar>r\<bar> \<le> 2 ^ 53"
  shows "to_double x = PosInfinity \<Longrightarrow> of_int r < x" "to_double x = NegInfinity \<Longrightarrow> x < of_int r" "to_double x \<noteq> NotANumber"
  using round_rat_le [of x r 53 "- 1074"] round_rat_ge [of r x 53 "- 1074"] below_infinity [OF r] r
  by (auto simp: to_double_def round_float_def Let_def not_le [symmetric] split: if_splits)

lemma decimal_places_zero:
  assumes "f \<le> 2 ^ 52" "z \<le> (2::nat) ^ 52"
  shows "js_max0 (js_minus (js_max0 (js_minus (Finite (of_nat f)) (to_double (of_int e)))) (Finite (of_nat z))) = Finite 0 \<longleftrightarrow>
    int f - e \<le> int z"
proof -
  have f: "int f \<le> 2 ^ 52" and z: "int z \<le> 2 ^ 52" using assms by (metis of_nat_le_iff of_nat_numeral of_nat_power)+
  define r where "r = int f - int z"
  have r: "\<bar>r\<bar> \<le> 2 ^ 53" "\<bar>r - 1\<bar> \<le> 2 ^ 53" "\<bar>int z\<bar> \<le> 2 ^ 53" "\<bar>int z + 1\<bar> \<le> 2 ^ 53" "\<bar>- int z\<bar> \<le> 2 ^ 53"
    using f z by (auto simp: r_def)
  have rat: "(of_int r :: rat) = of_nat f - of_nat z" by (simp add: r_def)
  have zero: "js_max0 (js_minus (Finite 0) (Finite (of_nat z))) = Finite 0"
    using to_double_int [OF r(5)] by simp
  let ?places = "js_max0 (js_minus (js_max0 (js_minus (Finite (of_nat f)) (to_double (of_int e)))) (Finite (of_nat z)))"
  have small: "?places = Finite 0" if e: "r \<le> e"
  proof (cases "to_double (of_int e)")
    case (Finite y)
    have y: "of_int r \<le> y" by (rule to_double_ge [OF Finite _ r(1)]) (use e in simp)
    then have le: "of_nat f - y \<le> of_int (int z)" using rat by simp
    show ?thesis
    proof (cases "to_double (of_nat f - y)")
      case w: (Finite w)
      have "w \<le> of_int (int z)" by (rule to_double_le [OF w le r(3)])
      then have max: "max 0 w - of_nat z \<le> of_int 0" by simp
      have "\<bar>0::int\<bar> \<le> 2 ^ 53" by simp
      then show ?thesis
        using to_double_le [OF _ max] to_double_infinite [of 0 "max 0 w - of_nat z"] max
        by (cases "to_double (max 0 w - of_nat z)") (auto simp: Finite w)
    qed (use le to_double_infinite [OF r(3), of "of_nat f - y"] zero in \<open>auto simp: Finite\<close>)
  next
    case NegInfinity
    then show ?thesis using to_double_infinite(2) [OF r(1), of "of_int e"] e by simp
  qed (use to_double_infinite(3) [OF r(1), of "of_int e"] zero in auto)
  have large: "?places \<noteq> Finite 0" if e: "e < r"
  proof (cases "to_double (of_int e)")
    case (Finite y)
    have y: "y \<le> of_int (r - 1)" by (rule to_double_le [OF Finite _ r(2)]) (use e in simp)
    then have ge: "of_int (int z + 1) \<le> of_nat f - y" using rat by simp
    show ?thesis
    proof (cases "to_double (of_nat f - y)")
      case w: (Finite w)
      have "of_int (int z + 1) \<le> w" by (rule to_double_ge [OF w ge r(4)])
      then have max: "of_int 1 \<le> max 0 w - of_nat z" by simp
      have "\<bar>1::int\<bar> \<le> 2 ^ 53" by simp
      then show ?thesis
        using to_double_ge [OF _ max] to_double_infinite [of 1 "max 0 w - of_nat z"] max
        by (cases "to_double (max 0 w - of_nat z)") (auto simp: Finite w)
    qed (use ge to_double_infinite [OF r(4), of "of_nat f - y"] in \<open>auto simp: Finite\<close>)
  next
    case PosInfinity
    then show ?thesis using to_double_infinite(1) [OF r(1), of "of_int e"] e by simp
  qed (use to_double_infinite(3) [OF r(1), of "of_int e"] in auto)
  show ?thesis using small large by (cases "r \<le> e") (auto simp: r_def)
qed

lemma getDecimalPlaces_integer:
  assumes "is_number_syntax v" "length v \<le> 2 ^ 52"
  shows "getDecimalPlaces v = Finite 0 \<longleftrightarrow> literal_value v \<in> \<int>"
proof -
  obtain s whole rest fraction e where v: "v = s @ whole @ rest @ e" "sign_text s" "list_all is_digit whole" "list_all is_digit fraction"
    "rest = [] \<and> fraction = [] \<or> rest = 46 # fraction" "is_exponent_part e" "whole \<noteq> [] \<or> fraction \<noteq> []"
    and parts: "literal_parts v = (decimal_value (whole @ fraction), exponent_value e - int (length fraction))"
    using assms(1) by (rule number_shape)
  let ?ds = "whole @ fraction"
  let ?m = "decimal_value ?ds"
  let ?e = "exponent_value e - int (length fraction)"
  have ds: "list_all is_digit ?ds" using v(3,4) by simp
  have literal: "literal_value v \<in> \<int> \<longleftrightarrow> (of_nat ?m * 10 powi ?e :: rat) \<in> \<int>"
    by (simp add: literal_value_def parts minus_in_Ints_iff)
  note places = getDecimalPlaces_shape [OF v]
  show ?thesis
  proof (cases "has_nonzero_digit ?ds")
    case True
    then obtain m where m: "?m = m * 10 ^ trailing_zeros ?ds" "\<not> 10 dvd m" using decimal_value_trailing [OF ds] by blast
    have "trailing_zeros ?ds \<le> length ?ds" by (metis length_rev length_takeWhile_le)
    moreover have "length ?ds \<le> length v" using v(1,5) by auto
    ultimately have short: "length fraction \<le> 2 ^ 52" "trailing_zeros ?ds \<le> 2 ^ 52" using assms(2) by simp_all
    have "getDecimalPlaces v = Finite 0 \<longleftrightarrow> int (length fraction) - exponent_value e \<le> int (trailing_zeros ?ds)"
      using decimal_places_zero [OF short] by (simp only: places True if_False not_True_eq_False)
    moreover have "literal_value v \<in> \<int> \<longleftrightarrow> - ?e \<le> int (trailing_zeros ?ds)"
      using scaled_integer [OF m(2), of "trailing_zeros ?ds" ?e] literal by (simp only: m(1))
    ultimately show ?thesis by simp
  next
    case False
    then have "?m = 0" using decimal_value_zero [OF ds] by simp
    then show ?thesis using False literal by (simp add: places del: takeWhile_append)
  qed
qed

subsection \<open>Integers of at most 32 bits\<close>

definition small_int :: "int_type \<Rightarrow> bool" where
  "small_int t \<longleftrightarrow> it_bitSize t \<in> set INT_BITSIZES \<and> it_bitSize t \<noteq> 64"

text \<open>What the server accepts: an integer, written in any way, in the range of the type.\<close>

definition limit_fits :: "int_type \<Rightarrow> jsstr \<Rightarrow> bool" where
  "limit_fits t v \<longleftrightarrow> (\<exists>i. literal_value v = of_int i \<and> fst (getIntegerTypeRange t) \<le> i \<and> i \<le> snd (getIntegerTypeRange t))"

definition number_text :: "jsstr \<Rightarrow> bool" where
  "number_text v \<longleftrightarrow> is_number_syntax v \<and> length v \<le> 2 ^ 52"

lemma small_range:
  "small_int t \<Longrightarrow> getIntegerTypeRange t = (lo, hi) \<Longrightarrow> \<bar>lo\<bar> \<le> 2 ^ 53 \<and> \<bar>hi\<bar> \<le> 2 ^ 53 \<and> \<bar>lo - 1\<bar> \<le> 2 ^ 53 \<and> \<bar>hi + 1\<bar> \<le> 2 ^ 53 \<and> lo \<le> 0 \<and> 0 \<le> hi"
  by (auto simp: small_int_def INT_BITSIZES_def getIntegerTypeRange_def Let_def split: if_splits)

lemma limit_read:
  assumes "small_int t" "number_text v" "limit_fits t v"
  shows "Number v = Finite (literal_value v)"
proof -
  obtain lo hi where range: "getIntegerTypeRange t = (lo, hi)" by (cases "getIntegerTypeRange t")
  obtain i where i: "literal_value v = of_int i" "lo \<le> i" "i \<le> hi" using assms(3) by (auto simp: limit_fits_def range)
  have "\<bar>i\<bar> \<le> 2 ^ 53" using small_range [OF assms(1) range] i by linarith
  then show ?thesis using Number_literal assms(2) by (simp add: number_text_def i(1) to_double_int)
qed

lemma integer_problem_fits:
  assumes "small_int t" "number_text v" and n: "Number v = Finite n"
  shows "integer_problem t (b, v, n) = None \<longleftrightarrow> limit_fits t v"
proof -
  obtain lo hi where range: "getIntegerTypeRange t = (lo, hi)" by (cases "getIntegerTypeRange t")
  note small = small_range [OF assms(1) range]
  have double: "to_double (literal_value v) = Finite n" using n Number_literal assms(2) by (simp add: number_text_def)
  have bounds: "to_double (of_int lo) = Finite (of_int lo)" "to_double (of_int hi) = Finite (of_int hi)"
    using small by (auto intro: to_double_int)
  have places: "getDecimalPlaces v = Finite 0 \<longleftrightarrow> literal_value v \<in> \<int>"
    using getDecimalPlaces_integer assms(2) by (simp add: number_text_def)
  have within: "of_int lo \<le> n \<and> n \<le> of_int hi \<longleftrightarrow> lo \<le> i \<and> i \<le> hi" if i: "literal_value v = of_int i" for i
  proof
    assume "lo \<le> i \<and> i \<le> hi"
    then show "of_int lo \<le> n \<and> n \<le> of_int hi"
      using to_double_le [OF double, of hi] to_double_ge [OF double, of lo] small unfolding i of_int_le_iff by blast
  next
    assume bound: "of_int lo \<le> n \<and> n \<le> of_int hi"
    show "lo \<le> i \<and> i \<le> hi"
    proof (rule ccontr)
      assume "\<not> (lo \<le> i \<and> i \<le> hi)"
      then have "i \<le> lo - 1 \<or> hi + 1 \<le> i" by linarith
      then have "n \<le> of_int (lo - 1) \<or> of_int (hi + 1) \<le> n"
        using to_double_le [OF double, of "lo - 1"] to_double_ge [OF double, of "hi + 1"] small unfolding i of_int_le_iff by blast
      then show False using bound by auto
    qed
  qed
  have "integer_problem t (b, v, n) = None \<longleftrightarrow> literal_value v \<in> \<int> \<and> of_int lo \<le> n \<and> n \<le> of_int hi"
    using places by (auto simp: integer_problem_def range bounds)
  also have "\<dots> \<longleftrightarrow> limit_fits t v"
    using within by (auto simp: limit_fits_def range elim!: Ints_cases)
  finally show ?thesis .
qed

lemma limit_not_finite:
  assumes "small_int t" "number_text v" "limit_fits t v" "\<And>n. Number v \<noteq> Finite n"
  shows False
  using limit_read [OF assms(1-3)] assms(4) by simp

definition limit_or_none :: "int_type \<Rightarrow> jsstr \<Rightarrow> bool" where
  "limit_or_none t v \<longleftrightarrow> v = [] \<or> limit_fits t v"

lemma range_values_checked:
  assumes "small_int t" "list_all (\<lambda>(b, i). \<not> ri_badInput i \<and> (ri_value i = [] \<or> number_text (ri_value i))) inputs"
  shows "(\<exists>values. range_values KInt inputs = Inr values \<and> first_problem (integer_problem t) values = None) \<longleftrightarrow>
    list_all (\<lambda>(b, i). limit_or_none t (ri_value i)) inputs"
  using assms(2)
proof (induction inputs)
  case (Cons x inputs)
  obtain b i where x: "x = (b, i)" by (cases x)
  with Cons have IH: "(\<exists>values. range_values KInt inputs = Inr values \<and> first_problem (integer_problem t) values = None) \<longleftrightarrow>
      list_all (\<lambda>(b, i). limit_or_none t (ri_value i)) inputs" and i: "\<not> ri_badInput i" "ri_value i = [] \<or> number_text (ri_value i)"
    by simp_all
  show ?case
  proof (cases "ri_value i = []")
    case True
    then show ?thesis using IH i by (simp add: x limit_or_none_def)
  next
    case False
    with i have typed: "number_text (ri_value i)" by simp
    show ?thesis
    proof (cases "Number (ri_value i)")
      case (Finite n)
      have "(\<exists>values. range_values KInt (x # inputs) = Inr values \<and> first_problem (integer_problem t) values = None) \<longleftrightarrow>
          integer_problem t (b, ri_value i, n) = None \<and>
          (\<exists>values. range_values KInt inputs = Inr values \<and> first_problem (integer_problem t) values = None)"
        using False i Finite by (cases "range_values KInt inputs") (auto simp: x split: option.split)
      then show ?thesis using IH integer_problem_fits [OF assms(1) typed Finite] False by (simp add: x limit_or_none_def)
    qed (use False i limit_not_finite [OF assms(1) typed] in \<open>auto simp: x limit_or_none_def\<close>)
  qed
qed simp

text \<open>
  C21: For integers of 8, 16, 24 and 32 bits the check of the limits accepts exactly the integers of the range of the type,
  in whatever notation they are typed, fraction and exponent included, when the minimum is not above the maximum:
  no double in between makes a difference.
\<close>

theorem checkNumericRange_integer:
  assumes t: "small_int t"
    and inputs: "\<forall>i \<in> {minimum_input inputs, maximum_input inputs}. \<not> ri_badInput i \<and> (ri_value i = [] \<or> number_text (ri_value i))"
  shows "checkNumericRange exp10 (IntType t) inputs = None \<longleftrightarrow>
    limit_or_none t (ri_value (minimum_input inputs)) \<and> limit_or_none t (ri_value (maximum_input inputs)) \<and>
    (ri_value (minimum_input inputs) \<noteq> [] \<and> ri_value (maximum_input inputs) \<noteq> [] \<longrightarrow>
       literal_value (ri_value (minimum_input inputs)) \<le> literal_value (ri_value (maximum_input inputs)))"
proof -
  let ?min = "ri_value (minimum_input inputs)"
  let ?max = "ri_value (maximum_input inputs)"
  let ?inputs = "[(Minimum, minimum_input inputs), (Maximum, maximum_input inputs)]"
  have checked: "(\<exists>values. range_values KInt ?inputs = Inr values \<and> first_problem (integer_problem t) values = None) \<longleftrightarrow>
      limit_or_none t ?min \<and> limit_or_none t ?max"
    using range_values_checked [OF t, of ?inputs] inputs by simp
  have read: "Number v = Finite (literal_value v)" if "v \<noteq> []" "v = [] \<or> number_text v" "limit_or_none t v" for v
    using limit_read [OF t] that by (auto simp: limit_or_none_def)
  have less: "js_less (Number ?max) (Number ?min) \<longleftrightarrow> \<not> literal_value ?min \<le> literal_value ?max"
    if "?min \<noteq> []" "?max \<noteq> []" "limit_or_none t ?min" "limit_or_none t ?max"
    using read [of ?min] read [of ?max] that inputs by auto
  have "checkNumericRange exp10 (IntType t) inputs = None \<longleftrightarrow>
      (\<exists>values. range_values KInt ?inputs = Inr values \<and> first_problem (integer_problem t) values = None) \<and>
      \<not> (?min \<noteq> [] \<and> ?max \<noteq> [] \<and> js_less (Number ?max) (Number ?min))"
    by (simp add: checkNumericRange_def del: range_values.simps split: sum.split option.split)
  then show ?thesis using checked less by blast
qed

text \<open>For a signed type of 64 bits the double nearest to the largest integer is one above it.\<close>

lemma leading_exponent_eq:
  assumes "2 powi k \<le> x" "x < 2 powi (k + 1)"
  shows "leading_exponent x = k"
proof -
  have "(0::rat) < 2 powi k" by simp
  then have x: "0 < x" using assms(1) by linarith
  note lead = leading_exponent_bounds [OF x]
  have "\<not> leading_exponent x + 1 \<le> k"
    using lead assms power_int_increasing [of "leading_exponent x + 1" k "2::rat"] by force
  moreover have "\<not> k + 1 \<le> leading_exponent x"
    using lead assms power_int_increasing [of "k + 1" "leading_exponent x" "2::rat"] by force
  ultimately show ?thesis by linarith
qed

lemma to_double_max64: "to_double 9223372036854775807 = Finite 9223372036854775808" "to_double 9223372036854775808 = Finite 9223372036854775808"
proof -
  have e: "leading_exponent 9223372036854775807 = 62" "leading_exponent 9223372036854775808 = 63"
    by (rule leading_exponent_eq; simp)+
  have "\<lfloor>9223372036854775807 / 1024 :: rat\<rfloor> = 9007199254740991" by (rule floor_unique) simp_all
  then show "to_double 9223372036854775807 = Finite 9223372036854775808"
    by (simp add: to_double_def round_float_def round_rat_def round_positive_def e Let_def half_even_def)
  show "to_double 9223372036854775808 = Finite 9223372036854775808"
    by (simp add: to_double_def round_float_def round_rat_def round_positive_def e Let_def half_even_def)
qed

definition signed_int :: "nat \<Rightarrow> int_type" where
  "signed_int n = \<lparr>it_semantics = None, it_unit = None, it_bitSize = n, it_unsigned = False, it_minimum = None, it_maximum = None\<rparr>"

text \<open>A limit that the type cannot have is accepted.\<close>

lemma limit_above_64_bits_accepted:
  "Number (js ''9223372036854775808'') = Finite 9223372036854775808"
  "integer_problem (signed_int 64) (Maximum, js ''9223372036854775808'', 9223372036854775808) = None"
  "getIntegerTypeRange (signed_int 64) = (- 9223372036854775808, 9223372036854775807)"
proof -
  let ?v = "js ''9223372036854775808''"
  have digits: "sign_text []" "list_all is_digit ?v" "?v \<noteq> []" by (simp_all add: sign_text_def js_Cons is_digit_iff)
  have "literal_value ([] @ ?v) = of_int (int (decimal_value ?v))" using integer_syntax(2) [OF digits] by simp
  also have "decimal_value ?v = 9223372036854775808" by (simp add: number_of_digits_def hex_value_def is_digit_iff js_Cons)
  finally have literal: "literal_value ?v = 9223372036854775808" by simp
  have typed: "is_number_syntax ?v" using integer_syntax(1) [OF digits] by simp
  show "Number ?v = Finite 9223372036854775808" using Number_literal [OF typed] by (simp add: literal to_double_max64)
  show range: "getIntegerTypeRange (signed_int 64) = (- 9223372036854775808, 9223372036854775807)"
    by (simp add: getIntegerTypeRange_def signed_int_def Let_def)
  have "length ?v \<le> 2 ^ 52" by (simp add: js_Cons)
  then have "getDecimalPlaces ?v = Finite 0"
    using getDecimalPlaces_integer [OF typed] by (simp add: literal)
  moreover have "to_double (- 9223372036854775808) = Finite (- 9223372036854775808)"
    using to_double_max64(2) by (simp add: to_double_def round_float_def round_rat_def Let_def split: if_splits)
  ultimately show "integer_problem (signed_int 64) (Maximum, ?v, 9223372036854775808) = None"
    by (simp add: integer_problem_def range to_double_max64)
qed

text \<open>The same for a decimal type, whose largest number is rounded up: one digit too many is accepted.\<close>

lemma limit_of_18_digits_accepted:
  assumes "exp10 (Finite 17) = Finite (10 ^ 17)" "exp10 (Finite 0) = Finite 1"
  shows "decimal_problem exp10 (plain \<lparr>dt_precision := Some 17, dt_scale := Some 0\<rparr>) (Maximum, js ''100000000000000000'', 10 ^ 17) = None"
proof -
  let ?v = "js ''100000000000000000''"
  have digits: "sign_text []" "list_all is_digit ?v" "?v \<noteq> []" by (simp_all add: sign_text_def js_Cons is_digit_iff)
  have "literal_value ([] @ ?v) = of_int (int (decimal_value ?v))" using integer_syntax(2) [OF digits] by simp
  also have "decimal_value ?v = 100000000000000000" by (simp add: number_of_digits_def hex_value_def is_digit_iff js_Cons)
  finally have literal: "literal_value ?v = 100000000000000000" by simp
  have typed: "is_number_syntax ?v" using integer_syntax(1) [OF digits] by simp
  have "length ?v \<le> 2 ^ 52" by (simp add: js_Cons)
  then have places: "getDecimalPlaces ?v = Finite 0"
    using getDecimalPlaces_integer [OF typed] by (simp add: literal)
  have e: "leading_exponent 99999999999999999 = 56" by (rule leading_exponent_eq) simp_all
  have "\<lfloor>99999999999999999 / 16 :: rat\<rfloor> = 6249999999999999" by (rule floor_unique) simp_all
  then have "to_double 99999999999999999 = Finite 100000000000000000"
    by (simp add: to_double_def round_float_def round_rat_def round_positive_def e Let_def half_even_def)
  moreover have "to_double 17 = Finite 17" using to_double_int [of 17] by simp
  ultimately show ?thesis using assms by (simp add: decimal_problem_def scale_or_zero_def places)
qed

theorem checkNumericRange_integer_witness:
  "checkNumericRange id (IntType (signed_int 32))
     \<lparr>minimum_input = \<lparr>ri_value = js ''1.5e1'', ri_badInput = False\<rparr>, maximum_input = \<lparr>ri_value = [], ri_badInput = False\<rparr>\<rparr> = None"
proof -
  have t: "small_int (signed_int 32)" by (simp add: small_int_def signed_int_def INT_BITSIZES_def)
  have syn: "number_text (js ''1.5e1'')"
    by (simp add: number_text_def is_number_syntax_def js_Cons drop_sign_def is_sign_def is_digit_iff starts_with_iff is_exponent_part_def
      is_exponent_mark_def Let_def)
  have "literal_parts (js ''1.5e1'') = (15, 0)"
    by (simp add: literal_parts_def js_Cons drop_sign_def is_sign_def is_digit_iff starts_with_iff exponent_value_def number_of_digits_def
      hex_value_def Let_def)
  then have "literal_value (js ''1.5e1'') = of_int 15" by (simp add: literal_value_def starts_with_iff js_Cons)
  then have fits: "limit_or_none (signed_int 32) (js ''1.5e1'')"
    unfolding limit_or_none_def limit_fits_def by (intro disjI2 exI [of _ 15]) (simp add: getIntegerTypeRange_def signed_int_def Let_def)
  show ?thesis
    by (subst checkNumericRange_integer [OF t]) (use syn fits in \<open>simp_all add: limit_or_none_def\<close>)
qed

end
