(* ===== verification/Property_Form.thy ===== *)
theory Property_Form
  imports Property_Limits Property_Parents
begin

section \<open>The form of a property (PropertyForm.tsx, PropertyTypeSelector.tsx)\<close>

text \<open>
  The type selector, the state of the form and its handlers. A browser event is a value of \<open>form_event\<close> with what the
  handler reads of it; \<open>form_enabled\<close> says when its control is shown. The effect that checks the numbers after each
  change of the type or of the inputs is \<open>check_numbers\<close>. \<open>num\<close> is \<open>String(n)\<close> and \<open>exp10\<close> is \<open>10 ** n\<close>.
\<close>

subsection \<open>The type selector\<close>

datatype property_structure = OneValue | ArrayStructure | ObjectStructure | MapStructure

text \<open>The id of an option is a semantics or a kind.\<close>

datatype option_id = SemanticsOption semantics | KindOption type_kind

record type_option =
  to_id :: option_id
  to_kind :: type_kind
  to_create :: schema_type

definition plain_string :: string_type where
  "plain_string = \<lparr>st_semantics = None, st_format = None, st_maxBytes = None, st_maxLength = None, st_pattern = None, st_values = None\<rparr>"

definition string_option :: "semantics \<Rightarrow> country_format option \<Rightarrow> type_option" where
  "string_option sem format =
     \<lparr>to_id = SemanticsOption sem, to_kind = KString, to_create = StringType (plain_string\<lparr>st_semantics := Some sem, st_format := format\<rparr>)\<rparr>"

definition plain_float :: float_type where
  "plain_float = \<lparr>ft_semantics = None, ft_unit = None, ft_bitSize = 64, ft_real = False, ft_minimum = None, ft_maximum = None\<rparr>"

definition plain_decimal :: "js_num \<Rightarrow> js_num \<Rightarrow> decimal_type" where
  "plain_decimal precision scale = \<lparr>dt_semantics = None, dt_currency = None, dt_unit = None, dt_minimum = None, dt_maximum = None,
     dt_precision = Some precision, dt_scale = Some scale\<rparr>"

definition decimal_option :: "semantics \<Rightarrow> type_option" where
  "decimal_option sem =
     \<lparr>to_id = SemanticsOption sem, to_kind = KDecimal, to_create = DecimalType (plain_decimal 18 4\<lparr>dt_semantics := Some sem\<rparr>)\<rparr>"

definition kind_option :: "schema_type \<Rightarrow> type_option" where
  "kind_option type = \<lparr>to_id = KindOption (kind_of type), to_kind = kind_of type, to_create = type\<rparr>"

definition PROPERTY_TYPE_OPTIONS :: "type_option list" where
  "PROPERTY_TYPE_OPTIONS =
    [string_option Email None,
     string_option Phone None,
     string_option Country (Some Alpha2),
     string_option Url None,
     kind_option (StringType plain_string),
     kind_option BooleanType,
     kind_option (IntType \<lparr>it_semantics = None, it_unit = None, it_bitSize = 32, it_unsigned = False, it_minimum = None, it_maximum = None\<rparr>),
     \<lparr>to_id = SemanticsOption Duration, to_kind = KFloat, to_create = FloatType (plain_float\<lparr>ft_real := True, ft_semantics := Some Duration\<rparr>)\<rparr>,
     kind_option (FloatType plain_float),
     decimal_option Money,
     decimal_option Percentage,
     decimal_option Measurement,
     kind_option (DecimalType (plain_decimal 10 0)),
     kind_option DateTimeType,
     kind_option DateType,
     kind_option TimeType,
     kind_option YearType,
     kind_option UUIDType,
     kind_option JSONType,
     kind_option IPType]"

definition getPropertyStructure :: "schema_type option \<Rightarrow> property_structure" where
  "getPropertyStructure type =
     (case type of
        Some (ArrayType _ _) \<Rightarrow> ArrayStructure
      | Some (MapType _) \<Rightarrow> MapStructure
      | Some (ObjectType _) \<Rightarrow> ObjectStructure
      | _ \<Rightarrow> OneValue)"

definition option_id_of :: "schema_type \<Rightarrow> option_id" where
  "option_id_of type = (case type_semantics type of Some sem \<Rightarrow> SemanticsOption sem | None \<Rightarrow> KindOption (kind_of type))"

definition getPropertyTypeOption :: "schema_type option \<Rightarrow> type_option option" where
  "getPropertyTypeOption type =
     (case type of
        None \<Rightarrow> None
      | Some t \<Rightarrow> find (\<lambda>option. to_id option = option_id_of (getPropertyValueType t)) PROPERTY_TYPE_OPTIONS)"

definition wrapPropertyValueType :: "schema_type \<Rightarrow> property_structure \<Rightarrow> schema_type" where
  "wrapPropertyValueType type structure =
     (case structure of
        ArrayStructure \<Rightarrow> ArrayType \<lparr>ab_minElements = None, ab_maxElements = None, ab_uniqueElements = False\<rparr> type
      | MapStructure \<Rightarrow> MapType type
      | _ \<Rightarrow> type)"

text \<open>The type passed to \<open>onChange\<close>, if it is called; the structure is a state of the selector.\<close>

definition onSelectStructure :: "schema_type option \<Rightarrow> property_structure \<Rightarrow> property_structure \<Rightarrow> schema_type option option" where
  "onSelectStructure type structure nextStructure =
     (if nextStructure = structure then None
      else if nextStructure = ObjectStructure then Some (Some (ObjectType []))
      else (case map_option getPropertyValueType type of
              None \<Rightarrow> Some None
            | Some valueType \<Rightarrow>
                if kind_of valueType = KObject then Some None
                else Some (Some (wrapPropertyValueType valueType nextStructure))))"

text \<open>The value type without its semantics and what depends on it.\<close>

fun drop_semantics :: "schema_type \<Rightarrow> schema_type" where
  "drop_semantics (StringType t) = StringType (t\<lparr>st_semantics := None, st_format := None\<rparr>)"
| "drop_semantics (IntType t) = IntType (t\<lparr>it_semantics := None, it_unit := None\<rparr>)"
| "drop_semantics (FloatType t) = FloatType (t\<lparr>ft_semantics := None, ft_unit := None\<rparr>)"
| "drop_semantics (DecimalType t) = DecimalType (t\<lparr>dt_semantics := None, dt_currency := None, dt_unit := None\<rparr>)"
| "drop_semantics t = t"

definition onSelectOption :: "schema_type option \<Rightarrow> property_structure \<Rightarrow> option_id \<Rightarrow> schema_type option" where
  "onSelectOption type structure selectedID =
     (case find (\<lambda>option. to_id option = selectedID) PROPERTY_TYPE_OPTIONS of
        None \<Rightarrow> None
      | Some option \<Rightarrow>
          if map_option to_id (getPropertyTypeOption type) = Some (to_id option) then None
          else let selection = to_create option;
                   valueType = map_option getPropertyValueType type;
                   nextValueType =
                     (case valueType of
                        None \<Rightarrow> selection
                      | Some v \<Rightarrow>
                          if type_semantics selection \<noteq> None \<or> kind_of v \<noteq> to_kind option then selection
                          else if type_semantics v \<noteq> None then drop_semantics v else v)
               in Some (wrapPropertyValueType nextValueType structure))"

subsection \<open>The state of the form\<close>

text \<open>The properties of the component: the property to edit, its key if it has one, and what the form shows with it.\<close>

record form_props =
  fp_key :: "jsstr option"
  fp_property :: property_to_edit
  fp_propertyRole :: "profile_role option"
  fp_propertyRoles :: property_roles
  fp_primarySources :: "jsstr obj"
  fp_parents :: "property_parent list option"

datatype shown_name_error = NameProblem name_problem | SaveFailed editor_error

record property_form =
  pf_property :: property_to_edit
  pf_primarySource :: "jsstr option"
  pf_propertyRole :: "profile_role option"
  pf_descendantRoles :: "profile_role list"
  pf_roleToReassign :: "profile_role option"
  pf_pendingTypeChange :: "(schema_type \<times> profile_role list) option"
  pf_decimalInputs :: decimal_inputs
  pf_rangeInputs :: range_inputs
  pf_nameError :: "shown_name_error option"
  pf_typeError :: "type_error option"

text \<open>\<open>primarySources[key] || null\<close>\<close>

definition source_of :: "jsstr obj \<Rightarrow> jsstr option \<Rightarrow> jsstr option" where
  "source_of sources k = (case Option.bind k (obj_get sources) of None \<Rightarrow> None | Some s \<Rightarrow> if s = [] then None else Some s)"

definition numbers_error :: "(js_double \<Rightarrow> js_double) \<Rightarrow> property_form \<Rightarrow> type_error option" where
  "numbers_error exp10 form =
     (case map_option getPropertyValueType (pe_type (pf_property form)) of
        None \<Rightarrow> None
      | Some t \<Rightarrow>
          if isNumericType (Some t) \<and> (type_semantics t = None \<or> hasSemanticsDecimalRange (type_semantics t))
          then getNumericTypeError exp10 t (pf_decimalInputs form) (pf_rangeInputs form) else None)"

definition check_numbers :: "(js_double \<Rightarrow> js_double) \<Rightarrow> property_form \<Rightarrow> property_form" where
  "check_numbers exp10 form =
     (case pf_typeError form of
        Some (location, _) \<Rightarrow> if location \<noteq> DecimalConstraints \<and> location \<noteq> NumericRange then form else form\<lparr>pf_typeError := numbers_error exp10 form\<rparr>
      | None \<Rightarrow> form\<lparr>pf_typeError := numbers_error exp10 form\<rparr>)"

definition open_form :: "(js_num \<Rightarrow> jsstr) \<Rightarrow> (js_double \<Rightarrow> js_double) \<Rightarrow> form_props \<Rightarrow> property_form" where
  "open_form num exp10 props = check_numbers exp10
     \<lparr>pf_property = fp_property props, pf_primarySource = source_of (fp_primarySources props) (fp_key props),
      pf_propertyRole = fp_propertyRole props, pf_descendantRoles = [], pf_roleToReassign = None, pf_pendingTypeChange = None,
      pf_decimalInputs = getDecimalTypeInputs num (pe_type (fp_property props)),
      pf_rangeInputs = getNumericRangeInputs num (pe_type (fp_property props)),
      pf_nameError = None, pf_typeError = None\<rparr>"

definition form_parent_key :: "form_props \<Rightarrow> property_form \<Rightarrow> jsstr" where
  "form_parent_key props form =
     (case fp_key props of None \<Rightarrow> pe_parentKey (pf_property form) | Some k \<Rightarrow> getParentPropertyKey k)"

definition original_name :: "form_props \<Rightarrow> jsstr option" where
  "original_name props = (case fp_key props of None \<Rightarrow> None | Some _ \<Rightarrow> Some (pe_name (fp_property props)))"

definition form_name_error :: "form_props \<Rightarrow> jsstr \<Rightarrow> jsstr \<Rightarrow> shown_name_error option" where
  "form_name_error props name parentKey =
     map_option NameProblem (getPropertyNameError name parentKey (original_name props) (fp_parents props))"

definition canEditType :: "form_props \<Rightarrow> bool" where
  "canEditType props \<longleftrightarrow> fp_key props = None \<or> pe_isEditable (fp_property props)"

text \<open>What the effect on the dirty state compares.\<close>

definition form_dirty :: "(js_num \<Rightarrow> jsstr) \<Rightarrow> form_props \<Rightarrow> property_form \<Rightarrow> bool" where
  "form_dirty num props form \<longleftrightarrow>
     \<not> (pf_property form = fp_property props \<and> pf_primarySource form = source_of (fp_primarySources props) (fp_key props) \<and>
       pf_decimalInputs form = getDecimalTypeInputs num (pe_type (fp_property props)) \<and>
       pf_rangeInputs form = getNumericRangeInputs num (pe_type (fp_property props)) \<and>
       pf_propertyRole form = fp_propertyRole props \<and> pf_descendantRoles form = [])"

subsection \<open>Handlers\<close>

definition update_property :: "(property_to_edit \<Rightarrow> property_to_edit) \<Rightarrow> property_form \<Rightarrow> property_form" where
  "update_property f form = form\<lparr>pf_property := f (pf_property form)\<rparr>"

definition update_value_type :: "(schema_type \<Rightarrow> schema_type) \<Rightarrow> property_form \<Rightarrow> property_form" where
  "update_value_type f form = update_property (\<lambda>p. p\<lparr>pe_type := map_option (\<lambda>t.
     replacePropertyValueType t (f (getPropertyValueType t))) (pe_type p)\<rparr>) form"

definition onInputName :: "form_props \<Rightarrow> jsstr \<Rightarrow> property_form \<Rightarrow> property_form" where
  "onInputName props name form =
     update_property (\<lambda>p. p\<lparr>pe_name := name\<rparr>) (form\<lparr>pf_nameError := form_name_error props name (form_parent_key props form)\<rparr>)"

definition onChangeParent :: "form_props \<Rightarrow> jsstr \<Rightarrow> property_form \<Rightarrow> property_form" where
  "onChangeParent props parentKey form =
     (case Option.bind (fp_parents props) (find (\<lambda>candidate. pp_key candidate = parentKey)) of
        None \<Rightarrow> form
      | Some parent \<Rightarrow>
          update_property (\<lambda>p. p\<lparr>pe_parentKey := pp_key parent, pe_indentation := pp_indentation parent, pe_root := pp_root parent\<rparr>)
            (if pe_name (pf_property form) \<noteq> []
             then form\<lparr>pf_nameError := form_name_error props (pe_name (pf_property form)) (pp_key parent)\<rparr> else form))"

definition applyTypeChange :: "(js_num \<Rightarrow> jsstr) \<Rightarrow> schema_type option \<Rightarrow> property_form \<Rightarrow> property_form" where
  "applyTypeChange num type form =
     (update_property (\<lambda>p. p\<lparr>pe_type := type\<rparr>) form)
       \<lparr>pf_decimalInputs := getDecimalTypeInputs num type, pf_rangeInputs := getNumericRangeInputs num type,
        pf_primarySource := (case type of
            Some t \<Rightarrow> if kind_of t = KObject \<or> kind_of t = KArray then None else pf_primarySource form
          | None \<Rightarrow> pf_primarySource form),
        pf_typeError := None\<rparr>"

definition roles_lost :: "form_props \<Rightarrow> schema_type \<Rightarrow> property_form \<Rightarrow> profile_role list" where
  "roles_lost props type form =
     remdups
      ((case pf_propertyRole form of
          Some role \<Rightarrow> if \<not> isProfilePropertyRoleCompatible role (Some type) then [role] else []
        | None \<Rightarrow> []) @
       (case fp_key props of
          Some k \<Rightarrow>
            if map_option kind_of (pe_type (fp_property props)) = Some KObject \<and> kind_of type \<noteq> KObject
            then filter (\<lambda>role. starts_with (fp_propertyRoles props role) (k @ js ''.'') \<and> role \<notin> set (pf_descendantRoles form))
                   PROFILE_PROPERTY_ROLES
            else []
        | None \<Rightarrow> []))"

definition onChangeType :: "(js_num \<Rightarrow> jsstr) \<Rightarrow> form_props \<Rightarrow> schema_type option \<Rightarrow> property_form \<Rightarrow> property_form" where
  "onChangeType num props type form =
     (case type of
        None \<Rightarrow> applyTypeChange num None form
      | Some t \<Rightarrow>
          let lost = roles_lost props t form in
          if lost = []
          then applyTypeChange num type (if kind_of t = KObject then form\<lparr>pf_descendantRoles := []\<rparr> else form)
          else form\<lparr>pf_pendingTypeChange := Some (t, lost)\<rparr>)"

definition onConfirmTypeChange :: "(js_num \<Rightarrow> jsstr) \<Rightarrow> property_form \<Rightarrow> property_form" where
  "onConfirmTypeChange num form =
     (case pf_pendingTypeChange form of
        None \<Rightarrow> form
      | Some (type, lost) \<Rightarrow>
          let role = pf_propertyRole form;
              rolesToUnassign = filter (\<lambda>r. Some r \<noteq> role) lost
          in (applyTypeChange num (Some type)
                (form\<lparr>pf_propertyRole := (case role of Some r \<Rightarrow> if r \<in> set lost then None else role | None \<Rightarrow> None),
                      pf_descendantRoles := (if kind_of type = KObject then [] else remdups (pf_descendantRoles form @ rolesToUnassign))\<rparr>))
             \<lparr>pf_pendingTypeChange := None\<rparr>)"

definition onChangePropertyRole :: "form_props \<Rightarrow> profile_role option \<Rightarrow> property_form \<Rightarrow> property_form" where
  "onChangePropertyRole props role form =
     (case role of
        None \<Rightarrow> form\<lparr>pf_propertyRole := None\<rparr>
      | Some r \<Rightarrow>
          if role = pf_propertyRole form then form
          else if fp_propertyRoles props r \<noteq> [] \<and> Some (fp_propertyRoles props r) \<noteq> fp_key props
            then form\<lparr>pf_roleToReassign := Some r\<rparr>
          else form\<lparr>pf_propertyRole := Some r\<rparr>)"

definition onConfirmReassign :: "property_form \<Rightarrow> property_form" where
  "onConfirmReassign form = form\<lparr>pf_propertyRole := pf_roleToReassign form, pf_roleToReassign := None\<rparr>"

fun set_bit_size :: "nat \<Rightarrow> schema_type \<Rightarrow> schema_type" where
  "set_bit_size n (IntType t) = IntType (t\<lparr>it_bitSize := n\<rparr>)"
| "set_bit_size n (FloatType t) = FloatType (t\<lparr>ft_bitSize := n\<rparr>)"
| "set_bit_size n t = t"

text \<open>The number a number input gives, whose text the browser has checked.\<close>

definition input_number :: "jsstr \<Rightarrow> js_num option" where
  "input_number value = (case Number value of Finite n \<Rightarrow> Some n | _ \<Rightarrow> None)"

fun set_precision :: "js_num option \<Rightarrow> schema_type \<Rightarrow> schema_type" where
  "set_precision n (DecimalType t) = DecimalType (t\<lparr>dt_precision := n\<rparr>)"
| "set_precision n t = t"

fun set_scale :: "js_num option \<Rightarrow> schema_type \<Rightarrow> schema_type" where
  "set_scale n (DecimalType t) = DecimalType (t\<lparr>dt_scale := n\<rparr>)"
| "set_scale n t = t"

definition onInputPrecision :: "jsstr \<Rightarrow> bool \<Rightarrow> property_form \<Rightarrow> property_form" where
  "onInputPrecision value badInput form =
     (let form = form\<lparr>pf_decimalInputs := (pf_decimalInputs form)\<lparr>di_precision := value, di_precisionBadInput := badInput\<rparr>\<rparr>
      in if value = [] then form else update_value_type (set_precision (input_number value)) form)"

definition onInputScale :: "jsstr \<Rightarrow> bool \<Rightarrow> property_form \<Rightarrow> property_form" where
  "onInputScale value badInput form =
     (let form = form\<lparr>pf_decimalInputs := (pf_decimalInputs form)\<lparr>di_scale := value, di_scaleBadInput := badInput\<rparr>\<rparr>
      in if value = [] then form else update_value_type (set_scale (input_number value)) form)"

fun set_limit :: "bound \<Rightarrow> js_num option \<Rightarrow> schema_type \<Rightarrow> schema_type" where
  "set_limit Minimum n (IntType t) = IntType (t\<lparr>it_minimum := n\<rparr>)"
| "set_limit Minimum n (FloatType t) = FloatType (t\<lparr>ft_minimum := n\<rparr>)"
| "set_limit Minimum n (DecimalType t) = DecimalType (t\<lparr>dt_minimum := n\<rparr>)"
| "set_limit Maximum n (IntType t) = IntType (t\<lparr>it_maximum := n\<rparr>)"
| "set_limit Maximum n (FloatType t) = FloatType (t\<lparr>ft_maximum := n\<rparr>)"
| "set_limit Maximum n (DecimalType t) = DecimalType (t\<lparr>dt_maximum := n\<rparr>)"
| "set_limit _ n t = t"

definition onInputNumericRange :: "bound \<Rightarrow> range_input \<Rightarrow> property_form \<Rightarrow> property_form" where
  "onInputNumericRange b input form =
     (let form = form\<lparr>pf_rangeInputs := (case b of
            Minimum \<Rightarrow> (pf_rangeInputs form)\<lparr>minimum_input := input\<rparr>
          | Maximum \<Rightarrow> (pf_rangeInputs form)\<lparr>maximum_input := input\<rparr>)\<rparr>
      in if ri_badInput input then form
         else update_value_type (set_limit b (if ri_value input = [] then None else input_number (ri_value input))) form)"

fun toggle_real :: "schema_type \<Rightarrow> schema_type" where
  "toggle_real (FloatType t) = FloatType (t\<lparr>ft_real := \<not> ft_real t\<rparr>)"
| "toggle_real t = t"

fun set_unsigned :: "bool \<Rightarrow> bool \<Rightarrow> schema_type \<Rightarrow> schema_type" where
  "set_unsigned unsigned clearMinimum (IntType t) =
     IntType (t\<lparr>it_unsigned := unsigned, it_minimum := (if clearMinimum then None else it_minimum t)\<rparr>)"
| "set_unsigned _ _ t = t"

definition onUnsignedChange :: "bool \<Rightarrow> property_form \<Rightarrow> property_form" where
  "onUnsignedChange unsigned form =
     (let m = minimum_input (pf_rangeInputs form);
          clearMinimum = (unsigned \<and> \<not> ri_badInput m \<and> starts_with (ri_value m) (js ''-''))
      in update_value_type (set_unsigned unsigned clearMinimum)
           (if clearMinimum
            then form\<lparr>pf_rangeInputs := (pf_rangeInputs form)\<lparr>minimum_input := \<lparr>ri_value = [], ri_badInput = False\<rparr>\<rparr>\<rparr> else form))"

fun set_max_bytes :: "js_num option \<Rightarrow> schema_type \<Rightarrow> schema_type" where
  "set_max_bytes n (StringType t) = StringType (t\<lparr>st_maxBytes := n\<rparr>)"
| "set_max_bytes n t = t"

fun set_max_length :: "js_num option \<Rightarrow> schema_type \<Rightarrow> schema_type" where
  "set_max_length n (StringType t) = StringType (t\<lparr>st_maxLength := n\<rparr>)"
| "set_max_length n t = t"

definition onInputMaxBytes :: "jsstr \<Rightarrow> property_form \<Rightarrow> property_form" where
  "onInputMaxBytes value form =
     (update_value_type (set_max_bytes (if value = [] then None else input_number value)) form)\<lparr>pf_typeError := None\<rparr>"

definition onInputMaxLength :: "jsstr \<Rightarrow> property_form \<Rightarrow> property_form" where
  "onInputMaxLength value form =
     (update_value_type (set_max_length (if value = [] then None else input_number value)) form)\<lparr>pf_typeError := None\<rparr>"

fun set_currency :: "jsstr option \<Rightarrow> schema_type \<Rightarrow> schema_type" where
  "set_currency c (DecimalType t) = (if dt_semantics t = Some Money then DecimalType (t\<lparr>dt_currency := c\<rparr>) else DecimalType t)"
| "set_currency c t = t"

fun set_measurement_unit :: "measure_unit \<Rightarrow> schema_type \<Rightarrow> schema_type" where
  "set_measurement_unit u (DecimalType t) = (if dt_semantics t = Some Measurement then DecimalType (t\<lparr>dt_unit := Some u\<rparr>) else DecimalType t)"
| "set_measurement_unit u t = t"

fun set_duration_unit :: "measure_unit \<Rightarrow> schema_type \<Rightarrow> schema_type" where
  "set_duration_unit u (FloatType t) = (if ft_semantics t = Some Duration then FloatType (t\<lparr>ft_unit := Some u\<rparr>) else FloatType t)"
| "set_duration_unit u t = t"

definition clear_error_at :: "type_location \<Rightarrow> property_form \<Rightarrow> property_form" where
  "clear_error_at location form = (if map_option fst (pf_typeError form) = Some location then form\<lparr>pf_typeError := None\<rparr> else form)"

subsection \<open>Events\<close>

datatype form_event =
    InputName jsstr
  | ChangeParent jsstr
  | SelectStructure property_structure property_structure
  | SelectOption option_id property_structure
  | ConfirmTypeChange
  | CloseTypeChange
  | ChangePropertyRole "profile_role option"
  | ConfirmReassign
  | CloseReassign
  | ChangeBitSize nat
  | InputPrecision jsstr bool
  | InputScale jsstr bool
  | InputNumericRange bound range_input
  | RealChange
  | UnsignedChange bool
  | InputMaxBytes jsstr
  | InputMaxLength jsstr
  | InputDescription jsstr
  | InputDisplayName jsstr
  | ChangeCurrency "jsstr option"
  | ChangeMeasurementUnit measure_unit
  | ChangeDurationUnit measure_unit
  | ChangePrimarySource "jsstr option"

text \<open>The dialogs are modal: while one is open only its buttons act.\<close>

definition form_modal :: "property_form \<Rightarrow> bool" where
  "form_modal form \<longleftrightarrow> pf_pendingTypeChange form \<noteq> None \<or> pf_roleToReassign form \<noteq> None"

definition form_value_kind :: "property_form \<Rightarrow> type_kind option" where
  "form_value_kind form = map_option (kind_of \<circ> getPropertyValueType) (pe_type (pf_property form))"

definition form_value_semantics :: "property_form \<Rightarrow> semantics option" where
  "form_value_semantics form = getTypeSemantics (map_option getPropertyValueType (pe_type (pf_property form)))"

fun form_enabled :: "form_props \<Rightarrow> property_form \<Rightarrow> form_event \<Rightarrow> bool" where
  "form_enabled props form ConfirmTypeChange = (pf_pendingTypeChange form \<noteq> None)"
| "form_enabled props form CloseTypeChange = (pf_pendingTypeChange form \<noteq> None)"
| "form_enabled props form ConfirmReassign = (pf_roleToReassign form \<noteq> None)"
| "form_enabled props form CloseReassign = (pf_roleToReassign form \<noteq> None)"
| "form_enabled props form (ChangeParent _) = (\<not> form_modal form \<and> fp_key props = None)"
| "form_enabled props form (SelectStructure structure _) =
     (\<not> form_modal form \<and> canEditType props \<and> (pe_type (pf_property form) \<noteq> None \<longrightarrow> structure = getPropertyStructure (pe_type (pf_property form))))"
| "form_enabled props form (SelectOption _ structure) =
     (\<not> form_modal form \<and> canEditType props \<and> structure \<noteq> ObjectStructure \<and>
      (pe_type (pf_property form) \<noteq> None \<longrightarrow> structure = getPropertyStructure (pe_type (pf_property form))))"
| "form_enabled props form (ChangePropertyRole role) =
     (\<not> form_modal form \<and> (case role of None \<Rightarrow> True | Some r \<Rightarrow> r \<in> set (getCompatibleProfilePropertyRoles (pe_type (pf_property form)))))"
| "form_enabled props form (ChangeBitSize n) =
     (\<not> form_modal form \<and> canEditType props \<and> form_value_semantics form = None \<and>
      (form_value_kind form = Some KInt \<and> n \<in> set INT_BITSIZES \<or> form_value_kind form = Some KFloat \<and> n \<in> set FLOAT_BITSIZES))"
| "form_enabled props form (InputPrecision _ _) =
     (\<not> form_modal form \<and> canEditType props \<and> form_value_kind form = Some KDecimal \<and> form_value_semantics form = None)"
| "form_enabled props form (InputScale _ _) =
     (\<not> form_modal form \<and> canEditType props \<and> form_value_kind form = Some KDecimal \<and> form_value_semantics form = None)"
| "form_enabled props form (InputNumericRange _ _) =
     (\<not> form_modal form \<and> canEditType props \<and>
      (form_value_semantics form = None \<and> form_value_kind form \<in> {Some KInt, Some KFloat, Some KDecimal} \<or>
       form_value_kind form = Some KDecimal \<and> hasSemanticsDecimalRange (form_value_semantics form)))"
| "form_enabled props form RealChange =
     (\<not> form_modal form \<and> canEditType props \<and> form_value_kind form = Some KFloat \<and> form_value_semantics form = None)"
| "form_enabled props form (UnsignedChange _) =
     (\<not> form_modal form \<and> canEditType props \<and> form_value_kind form = Some KInt \<and> form_value_semantics form = None)"
| "form_enabled props form (InputMaxBytes _) =
     (\<not> form_modal form \<and> canEditType props \<and> form_value_kind form = Some KString \<and> form_value_semantics form \<notin> {Some Country, Some Phone})"
| "form_enabled props form (InputMaxLength _) =
     (\<not> form_modal form \<and> canEditType props \<and> form_value_kind form = Some KString \<and> form_value_semantics form \<notin> {Some Country, Some Phone})"
| "form_enabled props form (ChangeCurrency _) =
     (\<not> form_modal form \<and> canEditType props \<and> form_value_kind form = Some KDecimal \<and> form_value_semantics form = Some Money)"
| "form_enabled props form (ChangeMeasurementUnit _) =
     (\<not> form_modal form \<and> canEditType props \<and> form_value_kind form = Some KDecimal \<and> form_value_semantics form = Some Measurement)"
| "form_enabled props form (ChangeDurationUnit _) =
     (\<not> form_modal form \<and> canEditType props \<and> form_value_kind form = Some KFloat \<and> form_value_semantics form = Some Duration)"
| "form_enabled props form (ChangePrimarySource _) =
     (\<not> form_modal form \<and> (case pe_type (pf_property form) of None \<Rightarrow> True | Some t \<Rightarrow> kind_of t \<noteq> KObject \<and> kind_of t \<noteq> KArray))"
| "form_enabled props form _ = (\<not> form_modal form)"

fun form_handle :: "(js_num \<Rightarrow> jsstr) \<Rightarrow> (js_double \<Rightarrow> js_double) \<Rightarrow> form_props \<Rightarrow> form_event \<Rightarrow> property_form \<Rightarrow> property_form" where
  "form_handle num exp10 props (InputName name) form = check_numbers exp10 (onInputName props name form)"
| "form_handle num exp10 props (ChangeParent k) form = check_numbers exp10 (onChangeParent props k form)"
| "form_handle num exp10 props (SelectStructure structure next) form =
     (case onSelectStructure (pe_type (pf_property form)) structure next of
        None \<Rightarrow> form | Some type \<Rightarrow> check_numbers exp10 (onChangeType num props type form))"
| "form_handle num exp10 props (SelectOption selected structure) form =
     (case onSelectOption (pe_type (pf_property form)) structure selected of
        None \<Rightarrow> form | Some type \<Rightarrow> check_numbers exp10 (onChangeType num props (Some type) form))"
| "form_handle num exp10 props ConfirmTypeChange form = check_numbers exp10 (onConfirmTypeChange num form)"
| "form_handle num exp10 props CloseTypeChange form = form\<lparr>pf_pendingTypeChange := None\<rparr>"
| "form_handle num exp10 props (ChangePropertyRole role) form = onChangePropertyRole props role form"
| "form_handle num exp10 props ConfirmReassign form = onConfirmReassign form"
| "form_handle num exp10 props CloseReassign form = form\<lparr>pf_roleToReassign := None\<rparr>"
| "form_handle num exp10 props (ChangeBitSize n) form = check_numbers exp10 (update_value_type (set_bit_size n) form)"
| "form_handle num exp10 props (InputPrecision value bad) form = check_numbers exp10 (onInputPrecision value bad form)"
| "form_handle num exp10 props (InputScale value bad) form = check_numbers exp10 (onInputScale value bad form)"
| "form_handle num exp10 props (InputNumericRange b input) form = check_numbers exp10 (onInputNumericRange b input form)"
| "form_handle num exp10 props RealChange form = check_numbers exp10 (update_value_type toggle_real form)"
| "form_handle num exp10 props (UnsignedChange unsigned) form = check_numbers exp10 (onUnsignedChange unsigned form)"
| "form_handle num exp10 props (InputMaxBytes value) form = check_numbers exp10 (onInputMaxBytes value form)"
| "form_handle num exp10 props (InputMaxLength value) form = check_numbers exp10 (onInputMaxLength value form)"
| "form_handle num exp10 props (InputDescription d) form = check_numbers exp10 (update_property (\<lambda>p. p\<lparr>pe_description := d\<rparr>) form)"
| "form_handle num exp10 props (InputDisplayName d) form = check_numbers exp10 (update_property (\<lambda>p. p\<lparr>pe_displayName := d\<rparr>) form)"
| "form_handle num exp10 props (ChangeCurrency c) form = check_numbers exp10 (update_value_type (set_currency c) form)"
| "form_handle num exp10 props (ChangeMeasurementUnit u) form =
     check_numbers exp10 (clear_error_at MeasurementUnit (update_value_type (set_measurement_unit u) form))"
| "form_handle num exp10 props (ChangeDurationUnit u) form =
     check_numbers exp10 (clear_error_at DurationUnit (update_value_type (set_duration_unit u) form))"
| "form_handle num exp10 props (ChangePrimarySource source) form = form\<lparr>pf_primarySource := source\<rparr>"

subsection \<open>Submitting\<close>

text \<open>The checks of \<open>onSubmit\<close>: the form with the error, or nothing when \<open>onSave\<close> is called.\<close>

definition submit_error :: "(js_double \<Rightarrow> js_double) \<Rightarrow> form_props \<Rightarrow> property_form \<Rightarrow> property_form option" where
  "submit_error exp10 props form =
     (case form_name_error props (pe_name (pf_property form)) (form_parent_key props form) of
        Some e \<Rightarrow> Some (form\<lparr>pf_nameError := Some e\<rparr>)
      | None \<Rightarrow>
          (case validatePropertyType exp10 (pe_type (pf_property form)) (pf_decimalInputs form) (pf_rangeInputs form) of
             Some e \<Rightarrow> Some (form\<lparr>pf_typeError := Some e\<rparr>)
           | None \<Rightarrow> None))"

end
