(* ===== verification/Type_Selection.thy ===== *)
theory Type_Selection
  imports Property_Form
begin

section \<open>Choosing a type (PropertyTypeSelector.tsx)\<close>

text \<open>
  The selector offers a list of value types by an id, the semantics or the kind. What the user chooses is what the
  selector shows afterwards, inside the structure that was chosen before.
\<close>

definition is_value_kind :: "type_kind \<Rightarrow> bool" where
  "is_value_kind k \<longleftrightarrow> k \<noteq> KArray \<and> k \<noteq> KMap \<and> k \<noteq> KObject"

lemma options_consistent:
  "list_all (\<lambda>option. option_id_of (to_create option) = to_id option \<and> kind_of (to_create option) = to_kind option \<and>
     is_value_kind (to_kind option) \<and> (type_semantics (to_create option) = None \<longrightarrow> to_id option = KindOption (to_kind option)))
   PROPERTY_TYPE_OPTIONS"
  by (simp add: PROPERTY_TYPE_OPTIONS_def string_option_def decimal_option_def kind_option_def option_id_of_def plain_string_def
    plain_float_def plain_decimal_def is_value_kind_def)

lemma find_id:
  "find (\<lambda>option. to_id option = i) options = Some option \<Longrightarrow> to_id option = i \<and> option \<in> set options"
  by (auto simp: find_Some_iff)

lemma drop_semantics_id: "type_semantics (drop_semantics t) = None" "kind_of (drop_semantics t) = kind_of t"
  by (cases t; simp)+

lemma value_kind_structure: "is_value_kind (kind_of t) \<Longrightarrow> getPropertyStructure (Some t) = OneValue \<and> getPropertyValueType t = t"
  by (cases t) (auto simp: is_value_kind_def getPropertyStructure_def)

lemma wrapped:
  assumes "is_value_kind (kind_of t)" "structure \<noteq> ObjectStructure"
  shows "getPropertyValueType (wrapPropertyValueType t structure) = t" "getPropertyStructure (Some (wrapPropertyValueType t structure)) = structure"
  using assms value_kind_structure [OF assms(1)] by (cases "structure"; simp add: wrapPropertyValueType_def getPropertyStructure_def)+

text \<open>The value type that replaces the one of the property.\<close>

lemma next_value_type:
  assumes "onSelectOption type structure selected = Some t"
  obtains v option where "t = wrapPropertyValueType v structure" "option_id_of v = selected" "is_value_kind (kind_of v)"
    "find (\<lambda>option. to_id option = selected) PROPERTY_TYPE_OPTIONS = Some option"
proof -
  obtain option where option: "find (\<lambda>option. to_id option = selected) PROPERTY_TYPE_OPTIONS = Some option"
    using assms by (auto simp: onSelectOption_def split: option.splits)
  note found = find_id [OF option]
  have consistent: "option_id_of (to_create option) = selected" "kind_of (to_create option) = to_kind option" "is_value_kind (to_kind option)"
    "type_semantics (to_create option) = None \<Longrightarrow> selected = KindOption (to_kind option)"
    using options_consistent found unfolding list_all_iff by blast+
  define v where "v = (case map_option getPropertyValueType type of
                        None \<Rightarrow> to_create option
                      | Some v \<Rightarrow>
                          if type_semantics (to_create option) \<noteq> None \<or> kind_of v \<noteq> to_kind option then to_create option
                          else if type_semantics v \<noteq> None then drop_semantics v else v)"
  have "t = wrapPropertyValueType v structure"
    using assms by (simp add: onSelectOption_def option v_def Let_def split: if_splits)
  moreover have "option_id_of v = selected \<and> is_value_kind (kind_of v)"
    using consistent by (auto simp: v_def option_id_of_def drop_semantics_id split: option.split)
  ultimately show thesis using that option by blast
qed

text \<open>
  When a type is chosen, the selector shows the chosen option for the new type, in the structure that was shown: a
  value, a list or a map of it.
\<close>

theorem onSelectOption_selects:
  assumes "onSelectOption type structure selected = Some t" "structure \<noteq> ObjectStructure"
  shows "map_option to_id (getPropertyTypeOption (Some t)) = Some selected \<and> getPropertyStructure (Some t) = structure"
proof -
  obtain v option where v: "t = wrapPropertyValueType v structure" "option_id_of v = selected" "is_value_kind (kind_of v)"
    and option: "find (\<lambda>option. to_id option = selected) PROPERTY_TYPE_OPTIONS = Some option"
    by (rule next_value_type [OF assms(1)])
  then show ?thesis
    using find_id [OF option] wrapped [OF v(3) assms(2)] by (simp add: getPropertyTypeOption_def)
qed

theorem onSelectOption_selects_witness:
  "map_option to_id (getPropertyTypeOption (onSelectOption (Some (MapType (StringType plain_string))) MapStructure (SemanticsOption Money))) =
     Some (SemanticsOption Money)"
proof -
  have "\<exists>t. onSelectOption (Some (MapType (StringType plain_string))) MapStructure (SemanticsOption Money) = Some t"
    by (simp add: onSelectOption_def PROPERTY_TYPE_OPTIONS_def string_option_def decimal_option_def kind_option_def getPropertyTypeOption_def
      option_id_of_def plain_string_def plain_decimal_def Let_def)
  then obtain t where "onSelectOption (Some (MapType (StringType plain_string))) MapStructure (SemanticsOption Money) = Some t" by blast
  with onSelectOption_selects [OF this] show ?thesis by simp
qed

end
