(* ===== verification/Schema_Edit_Page.thy ===== *)
theory Schema_Edit_Page
  imports Property_Form Schema_Editor_Order
begin

section \<open>The page of the schema editor (SchemaEdit.tsx, PropertyPanel.tsx)\<close>

text \<open>
  The page composes the editor with the form: it selects the property of the panel, opens the form on it, and passes
  what the form saves to the editor. The form is opened again, with new properties, whenever the property to edit is
  set. Focus, animation and navigation are left out.
\<close>

text \<open>The property to edit, with its key if it is in the schema.\<close>

type_synonym edit_target = "jsstr option \<times> property_to_edit"

record schema_page =
  sp_editor :: schema_editor
  sp_target :: "edit_target option"
  sp_beforeAdd :: "edit_target option"
  sp_form :: "property_form option"
  sp_removing :: "jsstr option"

text \<open>\<open>{ key, ...property }\<close>\<close>

definition to_edit :: "editable_property \<Rightarrow> property_to_edit" where
  "to_edit p = \<lparr>pe_parentKey = [], pe_indentation = ep_indentation p, pe_root = ep_root p, pe_name = ep_name p,
     pe_nullable = ep_nullable p, pe_type = Some (ep_type p), pe_displayName = ep_displayName p,
     pe_description = ep_description p, pe_isEditable = ep_isEditable p\<rparr>"

definition target_key :: "edit_target option \<Rightarrow> jsstr option" where
  "target_key target = Option.bind target fst"

definition page_props :: "schema_editor \<Rightarrow> edit_target \<Rightarrow> form_props" where
  "page_props st target =
     \<lparr>fp_key = fst target, fp_property = snd target,
      fp_propertyRole = Option.bind (fst target) (getPropertyRole (Some (propertyRoles st))),
      fp_propertyRoles = propertyRoles st, fp_primarySources = primarySources st,
      fp_parents = getPropertyParents (Some (editableSchema st))\<rparr>"

text \<open>\<open>setPropertyToEdit\<close>, and the effect of the form.\<close>

definition set_target :: "(js_num \<Rightarrow> jsstr) \<Rightarrow> (js_double \<Rightarrow> js_double) \<Rightarrow> edit_target option \<Rightarrow> schema_page \<Rightarrow> schema_page" where
  "set_target num exp10 target page =
     page\<lparr>sp_target := target, sp_form := map_option (\<lambda>t. open_form num exp10 (page_props (sp_editor page) t)) target\<rparr>"

definition has_unsaved_changes :: "(js_num \<Rightarrow> jsstr) \<Rightarrow> schema_page \<Rightarrow> bool" where
  "has_unsaved_changes num page \<longleftrightarrow>
     (case (sp_target page, sp_form page) of
        (Some target, Some form) \<Rightarrow> form_dirty num (page_props (sp_editor page) target) form
      | _ \<Rightarrow> False)"

subsection \<open>Handlers\<close>

definition onSelectProperty ::
    "(js_num \<Rightarrow> jsstr) \<Rightarrow> (js_double \<Rightarrow> js_double) \<Rightarrow> jsstr \<Rightarrow> editable_property \<Rightarrow> schema_page \<Rightarrow> schema_page" where
  "onSelectProperty num exp10 k property page =
     (if target_key (sp_target page) = Some k \<or> has_unsaved_changes num page then page
      else set_target num exp10 (Some (Some k, to_edit property)) (page\<lparr>sp_beforeAdd := None\<rparr>))"

text \<open>The effect that runs when the selected property is not visible and no other is.\<close>

definition clear_selection :: "(js_num \<Rightarrow> jsstr) \<Rightarrow> (js_double \<Rightarrow> js_double) \<Rightarrow> schema_page \<Rightarrow> schema_page" where
  "clear_selection num exp10 page =
     (if (sp_target page \<noteq> None \<and> target_key (sp_target page) = None) \<or> has_unsaved_changes num page then page
      else set_target num exp10 None (page\<lparr>sp_beforeAdd := None\<rparr>))"

definition parent_for_new :: "property_parent list \<Rightarrow> edit_target option \<Rightarrow> property_parent" where
  "parent_for_new parents contextual =
     (case contextual of
        Some (Some k, p) \<Rightarrow>
          (let parentKey = (if map_option kind_of (pe_type p) = Some KObject then k else getParentPropertyKey k)
           in case find (\<lambda>candidate. pp_key candidate = parentKey) parents of Some q \<Rightarrow> q | None \<Rightarrow> hd parents)
      | _ \<Rightarrow> hd parents)"

definition onAddClick :: "(js_num \<Rightarrow> jsstr) \<Rightarrow> (js_double \<Rightarrow> js_double) \<Rightarrow> schema_page \<Rightarrow> schema_page" where
  "onAddClick num exp10 page =
     (if has_unsaved_changes num page then page
      else let contextual = (if target_key (sp_target page) = None then sp_beforeAdd page else sp_target page);
               parents = (case getPropertyParents (Some (editableSchema (sp_editor page))) of Some ps \<Rightarrow> ps | None \<Rightarrow> []);
               parent = parent_for_new parents contextual
           in set_target num exp10 (Some (None, newPropertyToEdit (pp_key parent) (pp_indentation parent) (pp_root parent)))
                (page\<lparr>sp_beforeAdd := (if target_key (sp_target page) = None then sp_beforeAdd page else sp_target page)\<rparr>))"

definition save_failed :: "property_form \<Rightarrow> editor_error \<Rightarrow> schema_page \<Rightarrow> schema_page" where
  "save_failed form e page = page\<lparr>sp_form := Some (form\<lparr>pf_nameError := Some (SaveFailed e)\<rparr>)\<rparr>"

text \<open>\<open>onSaveProperty\<close> with the values of the form, and the \<open>catch\<close> of its caller.\<close>

definition onSaveProperty ::
    "(js_num \<Rightarrow> jsstr) \<Rightarrow> (js_double \<Rightarrow> js_double) \<Rightarrow> jsstr option \<Rightarrow> property_form \<Rightarrow> schema_page \<Rightarrow> schema_page" where
  "onSaveProperty num exp10 k form page =
     (case k of
        None \<Rightarrow>
          (case onAddProperty (sp_editor page) (pf_property form) (pf_primarySource form) (pf_propertyRole form)
                  (target_key (sp_beforeAdd page)) of
             Inl e \<Rightarrow> save_failed form e page
           | Inr (st, newKey) \<Rightarrow>
               set_target num exp10 (map_option (\<lambda>p. (Some newKey, to_edit p)) (obj_get (editableSchema st) newKey))
                 (page\<lparr>sp_editor := st, sp_beforeAdd := None\<rparr>))
      | Some editedKey \<Rightarrow>
          (case onEditProperty (sp_editor page) editedKey (pf_property form) (pf_primarySource form) (pf_propertyRole form)
                  (pf_descendantRoles form) of
             Inl e \<Rightarrow> save_failed form e page
           | Inr st \<Rightarrow> set_target num exp10 (Some (Some editedKey, pf_property form)) (page\<lparr>sp_editor := st\<rparr>)))"

definition onSubmit :: "(js_num \<Rightarrow> jsstr) \<Rightarrow> (js_double \<Rightarrow> js_double) \<Rightarrow> schema_page \<Rightarrow> schema_page" where
  "onSubmit num exp10 page =
     (case (sp_target page, sp_form page) of
        (Some target, Some form) \<Rightarrow>
          (case submit_error exp10 (page_props (sp_editor page) target) form of
             Some form' \<Rightarrow> page\<lparr>sp_form := Some form'\<rparr>
           | None \<Rightarrow> onSaveProperty num exp10 (fst target) form page)
      | _ \<Rightarrow> page)"

definition onCancelProperty :: "(js_num \<Rightarrow> jsstr) \<Rightarrow> (js_double \<Rightarrow> js_double) \<Rightarrow> schema_page \<Rightarrow> schema_page" where
  "onCancelProperty num exp10 page =
     (if target_key (sp_target page) = None
      then set_target num exp10 (sp_beforeAdd page) (page\<lparr>sp_beforeAdd := None\<rparr>)
      else set_target num exp10 (sp_target page) page)"

definition onRemoveClick :: "jsstr \<Rightarrow> schema_page \<Rightarrow> schema_page" where
  "onRemoveClick k page = page\<lparr>sp_removing := Some k\<rparr>"

definition onConfirmRemove :: "(js_num \<Rightarrow> jsstr) \<Rightarrow> (js_double \<Rightarrow> js_double) \<Rightarrow> bool \<Rightarrow> schema_page \<Rightarrow> schema_page" where
  "onConfirmRemove num exp10 isFiltered page =
     (case sp_removing page of
        None \<Rightarrow> page
      | Some k \<Rightarrow>
          (case onRemoveProperty (sp_editor page) k isFiltered of
             Inl _ \<Rightarrow> page
           | Inr (st, next) \<Rightarrow>
               (let schema = editableSchema (sp_editor page);
                    nextProperty = Option.bind next (\<lambda>n. map_option (\<lambda>p. (Some n, to_edit p)) (obj_get schema n));
                    page' = page\<lparr>sp_editor := st, sp_removing := None\<rparr>
                in if target_key (sp_target page) = Some k
                   then set_target num exp10 nextProperty (page'\<lparr>sp_beforeAdd := None\<rparr>) else page')))"

text \<open>\<open>onReviewChangesClick\<close>, up to the request of the preview.\<close>

definition onReviewChangesClick :: "(js_num \<Rightarrow> jsstr) \<Rightarrow> (js_double \<Rightarrow> js_double) \<Rightarrow> schema_page \<Rightarrow> schema_page" where
  "onReviewChangesClick num exp10 page =
     (if has_unsaved_changes num page then page
      else if target_key (sp_target page) = None then onCancelProperty num exp10 page
      else page)"

definition open_page ::
    "(js_num \<Rightarrow> jsstr) \<Rightarrow> (js_double \<Rightarrow> js_double) \<Rightarrow> property list \<Rightarrow> property_roles option \<Rightarrow> jsstr obj \<Rightarrow> jsstr option \<Rightarrow> schema_page" where
  "open_page num exp10 ps roles sources initialPropertyKey =
     (let st = open_editor ps roles sources;
          schema = editableSchema st;
          k = (case Option.bind initialPropertyKey (obj_get schema) of
                 Some _ \<Rightarrow> initialPropertyKey
               | None \<Rightarrow> (case obj_keys schema of [] \<Rightarrow> None | k # _ \<Rightarrow> Some k))
      in set_target num exp10 (Option.bind k (\<lambda>k. map_option (\<lambda>p. (Some k, to_edit p)) (obj_get schema k)))
           \<lparr>sp_editor = st, sp_target = None, sp_beforeAdd = None, sp_form = None, sp_removing = None\<rparr>)"

subsection \<open>The states of the page\<close>

text \<open>No dialog is open.\<close>

definition page_idle :: "schema_page \<Rightarrow> bool" where
  "page_idle page \<longleftrightarrow> sp_removing page = None \<and> (case sp_form page of None \<Rightarrow> True | Some form \<Rightarrow> \<not> form_modal form)"

text \<open>The button that removes a property is shown for a property of the schema without unsaved changes.\<close>

definition can_remove :: "(js_num \<Rightarrow> jsstr) \<Rightarrow> schema_page \<Rightarrow> jsstr \<Rightarrow> bool" where
  "can_remove num page k \<longleftrightarrow> target_key (sp_target page) = Some k \<and> \<not> has_unsaved_changes num page"

inductive page_reachable ::
    "(js_num \<Rightarrow> jsstr) \<Rightarrow> (js_double \<Rightarrow> js_double) \<Rightarrow> property list \<Rightarrow> property_roles option \<Rightarrow> jsstr obj \<Rightarrow> schema_page \<Rightarrow> bool"
  for num :: "js_num \<Rightarrow> jsstr" and exp10 :: "js_double \<Rightarrow> js_double" and ps :: "property list" and roles :: "property_roles option"
    and sources :: "jsstr obj" where
  page_opened: "page_reachable num exp10 ps roles sources (open_page num exp10 ps roles sources initialPropertyKey)"
| page_selected: "page_reachable num exp10 ps roles sources page \<Longrightarrow> page_idle page \<Longrightarrow>
    obj_get (editableSchema (sp_editor page)) k = Some p \<Longrightarrow> page_reachable num exp10 ps roles sources (onSelectProperty num exp10 k p page)"
| page_cleared: "page_reachable num exp10 ps roles sources page \<Longrightarrow> page_idle page \<Longrightarrow>
    page_reachable num exp10 ps roles sources (clear_selection num exp10 page)"
| page_add: "page_reachable num exp10 ps roles sources page \<Longrightarrow> page_idle page \<Longrightarrow>
    page_reachable num exp10 ps roles sources (onAddClick num exp10 page)"
| page_form: "page_reachable num exp10 ps roles sources page \<Longrightarrow> sp_removing page = None \<Longrightarrow> sp_target page = Some target \<Longrightarrow>
    sp_form page = Some form \<Longrightarrow> form_enabled (page_props (sp_editor page) target) form e \<Longrightarrow>
    page_reachable num exp10 ps roles sources (page\<lparr>sp_form := Some (form_handle num exp10 (page_props (sp_editor page) target) e form)\<rparr>)"
| page_submitted: "page_reachable num exp10 ps roles sources page \<Longrightarrow> page_idle page \<Longrightarrow>
    page_reachable num exp10 ps roles sources (onSubmit num exp10 page)"
| page_cancelled: "page_reachable num exp10 ps roles sources page \<Longrightarrow> page_idle page \<Longrightarrow>
    page_reachable num exp10 ps roles sources (onCancelProperty num exp10 page)"
| page_remove: "page_reachable num exp10 ps roles sources page \<Longrightarrow> page_idle page \<Longrightarrow> can_remove num page k \<Longrightarrow>
    page_reachable num exp10 ps roles sources (onRemoveClick k page)"
| page_keep: "page_reachable num exp10 ps roles sources page \<Longrightarrow> page_reachable num exp10 ps roles sources (page\<lparr>sp_removing := None\<rparr>)"
| page_removed: "page_reachable num exp10 ps roles sources page \<Longrightarrow> page_reachable num exp10 ps roles sources (onConfirmRemove num exp10 isFiltered page)"
| page_sorted: "page_reachable num exp10 ps roles sources page \<Longrightarrow> page_idle page \<Longrightarrow>
    page_reachable num exp10 ps roles sources (page\<lparr>sp_editor := onSortRow overRow moved (sp_editor page)\<rparr>)"
| page_reviewed: "page_reachable num exp10 ps roles sources page \<Longrightarrow> page_idle page \<Longrightarrow>
    page_reachable num exp10 ps roles sources (onReviewChangesClick num exp10 page)"

end
