(* ===== verification/Form_Invariant.thy ===== *)
theory Form_Invariant
  imports Property_Form
begin

section \<open>The invariant of the form of a property\<close>

text \<open>
  Whatever the user does, the form keeps a parent of the schema for a new property, a role that its type can have, the
  type of a property that cannot change it, and, for an object that becomes another type, the roles its properties lose.
\<close>

subsection \<open>Changes of the value type\<close>

text \<open>What a role and the guards of the steps read of a type.\<close>

definition same_shape :: "schema_type option \<Rightarrow> schema_type option \<Rightarrow> bool" where
  "same_shape a b \<longleftrightarrow> map_option (\<lambda>t. (kind_of t, type_semantics t)) a = map_option (\<lambda>t. (kind_of t, type_semantics t)) b"

lemma same_shape_refl [simp]: "same_shape a a"
  by (simp add: same_shape_def)

lemma same_shape_role: "same_shape a b \<Longrightarrow> isProfilePropertyRoleCompatible r a = isProfilePropertyRoleCompatible r b"
  by (cases a; cases b) (auto simp: same_shape_def isProfilePropertyRoleCompatible_def Let_def)

lemma same_shape_object: "same_shape a b \<Longrightarrow> (\<exists>t. a = Some t \<and> kind_of t \<noteq> KObject) = (\<exists>t. b = Some t \<and> kind_of t \<noteq> KObject)"
  by (cases a; cases b) (auto simp: same_shape_def)

definition keeps_shape :: "(schema_type \<Rightarrow> schema_type) \<Rightarrow> bool" where
  "keeps_shape f \<longleftrightarrow> (\<forall>t. kind_of (f t) = kind_of t \<and> type_semantics (f t) = type_semantics t)"

lemma replace_same_shape:
  "keeps_shape f \<Longrightarrow> same_shape (map_option (\<lambda>t. replacePropertyValueType t (f (getPropertyValueType t))) a) a"
  by (cases a; simp add: same_shape_def; rename_tac t; case_tac t) (simp_all add: keeps_shape_def)

lemma setters_keep_shape [simp]:
  "keeps_shape (set_bit_size n)" "keeps_shape (set_precision v)" "keeps_shape (set_scale v)" "keeps_shape (set_limit b v)"
  "keeps_shape toggle_real" "keeps_shape (set_unsigned u c)" "keeps_shape (set_max_bytes v)" "keeps_shape (set_max_length v)"
  "keeps_shape (set_currency y)" "keeps_shape (set_measurement_unit m)" "keeps_shape (set_duration_unit m)"
  by (cases b; simp add: keeps_shape_def; intro allI; rename_tac t; case_tac t; simp)+

lemma no_role_of_object: "kind_of t = KObject \<Longrightarrow> \<not> isProfilePropertyRoleCompatible r (Some t)"
  by (cases r) (auto simp: isProfilePropertyRoleCompatible_def Let_def)

lemma no_role_of_no_type [simp]: "\<not> isProfilePropertyRoleCompatible r None"
  by (cases r) (auto simp: isProfilePropertyRoleCompatible_def Let_def)

lemma compatible_role [simp]: "r \<in> set (getCompatibleProfilePropertyRoles type) \<longleftrightarrow> isProfilePropertyRoleCompatible r type"
  by (simp add: getCompatibleProfilePropertyRoles_def)

subsection \<open>The invariant\<close>

definition nested_roles :: "form_props \<Rightarrow> profile_role set" where
  "nested_roles props = {r. \<exists>k. fp_key props = Some k \<and> starts_with (fp_propertyRoles props r) (k @ js ''.'')}"

definition edits_object :: "form_props \<Rightarrow> bool" where
  "edits_object props \<longleftrightarrow> fp_key props \<noteq> None \<and> map_option kind_of (pe_type (fp_property props)) = Some KObject"

definition form_ok :: "editable_schema \<Rightarrow> form_props \<Rightarrow> property_form \<Rightarrow> bool" where
  "form_ok s props form \<longleftrightarrow>
     (fp_key props = None \<longrightarrow> parent_chosen s (pf_property form)) \<and>
     (\<forall>t r. pe_type (pf_property form) = Some t \<and> pf_propertyRole form = Some r \<longrightarrow> isProfilePropertyRoleCompatible r (Some t)) \<and>
     (edits_object props \<and> (pf_propertyRole form \<noteq> None \<or> (\<exists>t. pe_type (pf_property form) = Some t \<and> kind_of t \<noteq> KObject))
        \<longrightarrow> nested_roles props \<subseteq> set (pf_descendantRoles form)) \<and>
     (\<forall>t lost. pf_pendingTypeChange form = Some (t, lost) \<longrightarrow>
        lost = roles_lost props t form \<and> canEditType props \<and> pf_roleToReassign form = None) \<and>
     (\<forall>r. pf_roleToReassign form = Some r \<longrightarrow> isProfilePropertyRoleCompatible r (pe_type (pf_property form))) \<and>
     pe_isEditable (pf_property form) = pe_isEditable (fp_property props) \<and>
     (\<not> canEditType props \<longrightarrow> pe_type (pf_property form) = pe_type (fp_property props)) \<and>
     (\<forall>e. pf_nameError form \<noteq> Some (SaveFailed e))"

lemma parent_chosen_cong:
  assumes get: "\<And>x. obj_get s x = obj_get s' x"
    and same: "pe_parentKey p = pe_parentKey q" "pe_indentation p = pe_indentation q"
  shows "parent_chosen s p = parent_chosen s' q"
  unfolding parent_chosen_def get same ..

lemma roles_lost_cong:
  assumes same: "pf_propertyRole f = pf_propertyRole f'" "pf_descendantRoles f = pf_descendantRoles f'"
  shows "roles_lost props t f = roles_lost props t f'"
  unfolding roles_lost_def same ..

lemma roles_lost_parents [simp]: "roles_lost (props\<lparr>fp_parents := ps\<rparr>) t form = roles_lost props t form"
proof -
  have same: "fp_key (props\<lparr>fp_parents := ps\<rparr>) = fp_key props" "fp_property (props\<lparr>fp_parents := ps\<rparr>) = fp_property props"
    "fp_propertyRoles (props\<lparr>fp_parents := ps\<rparr>) = fp_propertyRoles props"
    by simp_all
  show ?thesis unfolding roles_lost_def same ..
qed

lemma form_ok_schema:
  "(\<And>x. obj_get s' x = obj_get s x) \<Longrightarrow> form_ok s' (props\<lparr>fp_parents := ps\<rparr>) form = form_ok s props form"
  unfolding form_ok_def using parent_chosen_cong [of s' s "pf_property form" "pf_property form"]
  by (simp add: edits_object_def nested_roles_def canEditType_def)

text \<open>A step that leaves roles, dialogs, parent and shape of the type as they are.\<close>

lemma form_ok_keep:
  assumes "form_ok s props form"
    and "pf_propertyRole form' = pf_propertyRole form" "pf_descendantRoles form' = pf_descendantRoles form"
    and "pf_roleToReassign form' = pf_roleToReassign form \<or> pf_roleToReassign form' = None"
    and "pf_pendingTypeChange form' = pf_pendingTypeChange form \<or> pf_pendingTypeChange form' = None"
    and "fp_key props = None \<Longrightarrow> parent_chosen s (pf_property form) \<Longrightarrow> parent_chosen s (pf_property form')"
    and "pe_isEditable (pf_property form') = pe_isEditable (pf_property form)"
    and shape: "same_shape (pe_type (pf_property form')) (pe_type (pf_property form))"
    and "canEditType props \<or> pe_type (pf_property form') = pe_type (pf_property form)"
    and "\<And>e. pf_nameError form \<noteq> Some (SaveFailed e) \<Longrightarrow> pf_nameError form' \<noteq> Some (SaveFailed e)"
  shows "form_ok s props form'"
proof -
  have role: "isProfilePropertyRoleCompatible r (Some t)"
    if t: "pe_type (pf_property form') = Some t" and r: "pf_propertyRole form = Some r" for r t
  proof -
    obtain t' where t': "pe_type (pf_property form) = Some t'"
      using shape t by (cases "pe_type (pf_property form)") (simp_all add: same_shape_def)
    then have "isProfilePropertyRoleCompatible r (Some t')" using assms(1) r unfolding form_ok_def by blast
    then show ?thesis using same_shape_role [OF shape, of r] t t' by simp
  qed
  have lost: "roles_lost props t form' = roles_lost props t form" for t
    using assms(2,3) by (rule roles_lost_cong)
  show ?thesis
    using assms(1)
    unfolding form_ok_def same_shape_object [OF shape] same_shape_role [OF shape] lost assms(2,3,7)
    apply (elim conjE)
    apply (intro conjI)
    subgoal using assms(6) by blast
    subgoal using role by blast
    subgoal by assumption
    subgoal using assms(4,5) by (elim disjE) simp_all
    subgoal using assms(4) by (elim disjE) simp_all
    subgoal by assumption
    subgoal using assms(9) by metis
    subgoal using assms(10) by blast
    done
qed

lemma check_numbers_same [simp]:
  "pf_property (check_numbers exp10 form) = pf_property form" "pf_propertyRole (check_numbers exp10 form) = pf_propertyRole form"
  "pf_descendantRoles (check_numbers exp10 form) = pf_descendantRoles form"
  "pf_roleToReassign (check_numbers exp10 form) = pf_roleToReassign form"
  "pf_pendingTypeChange (check_numbers exp10 form) = pf_pendingTypeChange form" "pf_nameError (check_numbers exp10 form) = pf_nameError form"
  "pf_primarySource (check_numbers exp10 form) = pf_primarySource form"
  by (simp_all add: check_numbers_def split: option.split)

lemma form_ok_check [simp]: "form_ok s props (check_numbers exp10 form) = form_ok s props form"
  unfolding form_ok_def using roles_lost_cong [of "check_numbers exp10 form" form] by simp

lemma form_ok_value_type:
  assumes "form_ok s props form" "keeps_shape f" "canEditType props"
  shows "form_ok s props (update_value_type f form)"
proof (rule form_ok_keep [OF assms(1)])
  show "parent_chosen s (pf_property (update_value_type f form))" if "parent_chosen s (pf_property form)"
    using that parent_chosen_cong [OF refl, of "pf_property (update_value_type f form)" "pf_property form" s]
    by (simp add: update_value_type_def update_property_def)
  show "same_shape (pe_type (pf_property (update_value_type f form))) (pe_type (pf_property form))"
    using replace_same_shape [OF assms(2)] by (simp add: update_value_type_def update_property_def)
qed (use assms(3) in \<open>simp_all add: update_value_type_def update_property_def\<close>)

subsection \<open>Names and parents\<close>

lemma form_name_error_not_saved: "form_name_error props name parentKey \<noteq> Some (SaveFailed e)"
  by (simp add: form_name_error_def)

lemma form_ok_name:
  assumes "form_ok s props form"
  shows "form_ok s props (onInputName props name form)"
proof (rule form_ok_keep [OF assms])
  show "parent_chosen s (pf_property (onInputName props name form))" if "parent_chosen s (pf_property form)"
    using that parent_chosen_cong [OF refl, of "pf_property (onInputName props name form)" "pf_property form" s]
    by (simp add: onInputName_def update_property_def)
qed (simp_all add: onInputName_def update_property_def form_name_error_not_saved)

lemma form_ok_text:
  assumes "form_ok s props form"
  shows "form_ok s props (update_property (\<lambda>p. p\<lparr>pe_description := d\<rparr>) form)"
    "form_ok s props (update_property (\<lambda>p. p\<lparr>pe_displayName := d\<rparr>) form)"
  using assms parent_chosen_cong [OF refl, of "pf_property form\<lparr>pe_description := d\<rparr>" "pf_property form" s]
    parent_chosen_cong [OF refl, of "pf_property form\<lparr>pe_displayName := d\<rparr>" "pf_property form" s]
  by (auto simp: update_property_def intro!: form_ok_keep [OF assms])

text \<open>The parents that the form offers.\<close>

definition parents_ok :: "editable_schema \<Rightarrow> form_props \<Rightarrow> bool" where
  "parents_ok s props \<longleftrightarrow>
     (\<forall>ps q p. fp_parents props = Some ps \<and> q \<in> set ps \<and> pe_parentKey p = pp_key q \<and> pe_indentation p = pp_indentation q \<longrightarrow>
        parent_chosen s p)"

lemma form_ok_parent:
  assumes "form_ok s props form" "parents_ok s props"
  shows "form_ok s props (onChangeParent props k form)"
proof (cases "Option.bind (fp_parents props) (find (\<lambda>candidate. pp_key candidate = k))")
  case (Some q)
  then obtain ps where "fp_parents props = Some ps" "q \<in> set ps"
    by (auto simp: bind_eq_Some_conv find_Some_iff)
  then have "parent_chosen s (pf_property form\<lparr>pe_parentKey := pp_key q, pe_indentation := pp_indentation q, pe_root := pp_root q\<rparr>)"
    using assms(2) unfolding parents_ok_def by simp
  then show ?thesis
    by (intro form_ok_keep [OF assms(1)]) (simp_all add: onChangeParent_def Some update_property_def form_name_error_not_saved)
qed (simp add: onChangeParent_def assms(1))

subsection \<open>Types and roles\<close>

lemma applyTypeChange_fields:
  "pe_type (pf_property (applyTypeChange num type form)) = type"
  "pe_parentKey (pf_property (applyTypeChange num type form)) = pe_parentKey (pf_property form)"
  "pe_indentation (pf_property (applyTypeChange num type form)) = pe_indentation (pf_property form)"
  "pe_isEditable (pf_property (applyTypeChange num type form)) = pe_isEditable (pf_property form)"
  "pf_propertyRole (applyTypeChange num type form) = pf_propertyRole form"
  "pf_descendantRoles (applyTypeChange num type form) = pf_descendantRoles form"
  "pf_roleToReassign (applyTypeChange num type form) = pf_roleToReassign form"
  "pf_pendingTypeChange (applyTypeChange num type form) = pf_pendingTypeChange form"
  "pf_nameError (applyTypeChange num type form) = pf_nameError form"
  by (simp_all add: applyTypeChange_def update_property_def)

text \<open>The roles a change of type takes away.\<close>

lemma roles_lost_iff:
  "r \<in> set (roles_lost props t form) \<longleftrightarrow>
     (pf_propertyRole form = Some r \<and> \<not> isProfilePropertyRoleCompatible r (Some t)) \<or>
     (edits_object props \<and> kind_of t \<noteq> KObject \<and> r \<in> nested_roles props \<and> r \<notin> set (pf_descendantRoles form))"
  by (cases "fp_key props"; cases "pf_propertyRole form") (auto simp: roles_lost_def edits_object_def nested_roles_def)

lemma form_ok_type:
  assumes ok: "form_ok s props form" and free: "pf_pendingTypeChange form = None" "pf_roleToReassign form = None" and edit: "canEditType props"
  shows "form_ok s props (onChangeType num props type form)"
proof (cases type)
  case None
  then have "onChangeType num props type form = applyTypeChange num None form" by (simp add: onChangeType_def)
  moreover have "parent_chosen s (pf_property (applyTypeChange num None form)) = parent_chosen s (pf_property form)"
    by (rule parent_chosen_cong) (simp_all add: applyTypeChange_fields)
  ultimately show ?thesis using ok free edit unfolding form_ok_def by (simp add: applyTypeChange_fields)
next
  case (Some t)
  let ?lost = "roles_lost props t form"
  show ?thesis
  proof (cases "?lost = []")
    case True
    let ?form = "if kind_of t = KObject then form\<lparr>pf_descendantRoles := []\<rparr> else form"
    have eq: "onChangeType num props type form = applyTypeChange num (Some t) ?form"
      using Some True by (simp add: onChangeType_def)
    have none: "\<not> (pf_propertyRole form = Some r \<and> \<not> isProfilePropertyRoleCompatible r (Some t))"
      "\<not> (edits_object props \<and> kind_of t \<noteq> KObject \<and> r \<in> nested_roles props \<and> r \<notin> set (pf_descendantRoles form))" for r
      using True roles_lost_iff [of r props t form] by auto
    have object: "kind_of t = KObject \<Longrightarrow> pf_propertyRole form = None"
      using none(1) no_role_of_object by (cases "pf_propertyRole form") auto
    have fields: "pf_property ?form = pf_property form" "pf_propertyRole ?form = pf_propertyRole form"
      "pf_roleToReassign ?form = None" "pf_pendingTypeChange ?form = None" "pf_nameError ?form = pf_nameError form"
      using free by simp_all
    have "parent_chosen s (pf_property (applyTypeChange num (Some t) ?form)) = parent_chosen s (pf_property form)"
      by (rule parent_chosen_cong) (simp_all add: applyTypeChange_fields)
    moreover have "nested_roles props \<subseteq> set (pf_descendantRoles ?form)" if "edits_object props" "pf_propertyRole form \<noteq> None \<or> kind_of t \<noteq> KObject"
      using that none(2) object by auto
    ultimately show ?thesis
      using ok none(1) edit unfolding eq form_ok_def applyTypeChange_fields fields by auto
  next
    case False
    then have eq: "onChangeType num props type form = form\<lparr>pf_pendingTypeChange := Some (t, ?lost)\<rparr>"
      using Some by (simp add: onChangeType_def)
    have "roles_lost props t (form\<lparr>pf_pendingTypeChange := x\<rparr>) = ?lost" for x by (rule roles_lost_cong) simp_all
    then show ?thesis using ok edit free unfolding eq form_ok_def by simp
  qed
qed

lemma form_ok_confirm_type:
  assumes ok: "form_ok s props form"
  shows "form_ok s props (onConfirmTypeChange num form)"
proof (cases "pf_pendingTypeChange form")
  case (Some change)
  then obtain t lost where change: "pf_pendingTypeChange form = Some (t, lost)" by (cases change) auto
  then have lost: "lost = roles_lost props t form" and edit: "canEditType props" and free: "pf_roleToReassign form = None"
    using ok unfolding form_ok_def by blast+
  let ?role = "case pf_propertyRole form of Some r \<Rightarrow> if r \<in> set lost then None else pf_propertyRole form | None \<Rightarrow> None"
  let ?un = "if kind_of t = KObject then [] else remdups (pf_descendantRoles form @ filter (\<lambda>r. Some r \<noteq> pf_propertyRole form) lost)"
  let ?form = "onConfirmTypeChange num form"
  have fields: "pe_type (pf_property ?form) = Some t" "pf_propertyRole ?form = ?role" "pf_descendantRoles ?form = ?un"
    "pf_roleToReassign ?form = None" "pf_pendingTypeChange ?form = None" "pf_nameError ?form = pf_nameError form"
    "pe_isEditable (pf_property ?form) = pe_isEditable (pf_property form)"
    using change free by (simp_all add: onConfirmTypeChange_def Let_def applyTypeChange_fields)
  have "parent_chosen s (pf_property ?form) = parent_chosen s (pf_property form)"
    by (rule parent_chosen_cong) (simp_all add: onConfirmTypeChange_def change Let_def applyTypeChange_fields)
  moreover have role: "isProfilePropertyRoleCompatible r (Some t)" if "?role = Some r" for r
    using that roles_lost_iff [of r props t form] by (auto simp: lost split: option.splits if_splits)
  moreover have "nested_roles props \<subseteq> set ?un" if object: "edits_object props" and cases: "?role \<noteq> None \<or> kind_of t \<noteq> KObject"
  proof
    fix r assume r: "r \<in> nested_roles props"
    have t: "kind_of t \<noteq> KObject" using cases role no_role_of_object by blast
    have "nested_roles props \<subseteq> set (pf_descendantRoles form)" if "pf_propertyRole form \<noteq> None"
      using ok object that unfolding form_ok_def by blast
    then show "r \<in> set ?un"
      using t r object roles_lost_iff [of r props t form] by (cases "pf_propertyRole form") (auto simp: lost)
  qed
  ultimately show ?thesis using ok edit unfolding form_ok_def fields by auto
qed (simp add: onConfirmTypeChange_def ok)

lemma form_ok_role:
  assumes ok: "form_ok s props form" and free: "\<not> form_modal form"
    and role: "\<And>r. role = Some r \<Longrightarrow> isProfilePropertyRoleCompatible r (pe_type (pf_property form))"
  shows "form_ok s props (onChangePropertyRole props role form)"
proof (cases role)
  case None
  then show ?thesis using ok free unfolding form_ok_def by (simp add: onChangePropertyRole_def form_modal_def)
next
  case (Some r)
  then have r: "isProfilePropertyRoleCompatible r (pe_type (pf_property form))" using role by blast
  then obtain t where t: "pe_type (pf_property form) = Some t" "kind_of t \<noteq> KObject"
    using no_role_of_object by (cases "pe_type (pf_property form)") auto
  show ?thesis using ok free r t unfolding form_ok_def
    by (simp add: onChangePropertyRole_def form_modal_def Some)
qed

lemma not_modal: "\<not> form_modal form \<Longrightarrow> pf_pendingTypeChange form = None \<and> pf_roleToReassign form = None"
  unfolding form_modal_def by blast

lemma form_ok_reassign:
  assumes ok: "form_ok s props form" and shown: "pf_roleToReassign form \<noteq> None"
  shows "form_ok s props (onConfirmReassign form)"
proof -
  obtain r where Some: "pf_roleToReassign form = Some r" using shown by blast
  then have r: "isProfilePropertyRoleCompatible r (pe_type (pf_property form))" using ok unfolding form_ok_def by blast
  have pending: "pf_pendingTypeChange form = None"
  proof (rule ccontr)
    assume "pf_pendingTypeChange form \<noteq> None"
    then obtain t lost where "pf_pendingTypeChange form = Some (t, lost)" by auto
    then show False using ok Some unfolding form_ok_def by fastforce
  qed
  obtain t where t: "pe_type (pf_property form) = Some t" "kind_of t \<noteq> KObject"
    using r no_role_of_object by (cases "pe_type (pf_property form)") auto
  show ?thesis using ok r t pending unfolding form_ok_def by (simp add: onConfirmReassign_def Some)
qed

subsection \<open>Every event\<close>

lemma form_ok_precision:
  assumes "form_ok s props form" "canEditType props"
  shows "form_ok s props (onInputPrecision value bad form)" "form_ok s props (onInputScale value bad form)"
    "form_ok s props (onInputNumericRange b input form)" "form_ok s props (onUnsignedChange u form)"
    "form_ok s props (onInputMaxBytes value form)" "form_ok s props (onInputMaxLength value form)"
proof -
  have same: "form_ok s props (form\<lparr>pf_decimalInputs := d\<rparr>)" "form_ok s props (form\<lparr>pf_rangeInputs := i\<rparr>)" for d i
    by (rule form_ok_keep [OF assms(1)]; simp)+
  have error: "form_ok s props (f\<lparr>pf_typeError := e\<rparr>)" if "form_ok s props f" for f e
    by (rule form_ok_keep [OF that]) simp_all
  show "form_ok s props (onInputPrecision value bad form)" "form_ok s props (onInputScale value bad form)"
    using same form_ok_value_type [OF _ _ assms(2)] by (simp_all add: onInputPrecision_def onInputScale_def Let_def)
  show "form_ok s props (onInputNumericRange b input form)"
    using same form_ok_value_type [OF _ _ assms(2)] by (cases b) (simp_all add: onInputNumericRange_def Let_def)
  show "form_ok s props (onUnsignedChange u form)"
    using same form_ok_value_type [OF _ _ assms(2)] assms(1) by (simp add: onUnsignedChange_def Let_def)
  show "form_ok s props (onInputMaxBytes value form)" "form_ok s props (onInputMaxLength value form)"
    using form_ok_value_type [OF assms(1) _ assms(2)] by (simp_all add: onInputMaxBytes_def onInputMaxLength_def error)
qed

lemma form_ok_clear_error: "form_ok s props form \<Longrightarrow> form_ok s props (clear_error_at location form)"
  unfolding clear_error_at_def by (simp add: form_ok_keep)

lemma form_ok_close:
  assumes "form_ok s props form"
  shows "form_ok s props (form\<lparr>pf_pendingTypeChange := None\<rparr>)" "form_ok s props (form\<lparr>pf_roleToReassign := None\<rparr>)"
    "form_ok s props (form\<lparr>pf_primarySource := source\<rparr>)"
  by (rule form_ok_keep [OF assms]; simp)+

lemma form_ok_handle:
  assumes ok: "form_ok s props form" and parents: "parents_ok s props" and enabled: "form_enabled props form e"
  shows "form_ok s props (form_handle num exp10 props e form)"
proof (cases e)
  case (SelectStructure a b)
  with enabled have "\<not> form_modal form" "canEditType props" by simp_all
  then have "form_ok s props (onChangeType num props type form)" for type by (intro form_ok_type [OF ok]) (auto dest: not_modal)
  then show ?thesis by (simp add: SelectStructure ok split: option.split)
next
  case (SelectOption a b)
  with enabled have "\<not> form_modal form" "canEditType props" by simp_all
  then have "form_ok s props (onChangeType num props type form)" for type by (intro form_ok_type [OF ok]) (auto dest: not_modal)
  then show ?thesis by (simp add: SelectOption ok split: option.split)
next
  case (ChangePropertyRole role)
  with enabled show ?thesis by (auto intro!: form_ok_role [OF ok] split: option.splits)
qed (use enabled in \<open>auto simp: ok parents form_ok_name form_ok_text form_ok_parent form_ok_confirm_type form_ok_reassign form_ok_close
      form_ok_precision form_ok_value_type form_ok_clear_error\<close>)

lemma form_ok_open:
  assumes "fp_key props = None \<Longrightarrow> parent_chosen s (fp_property props)"
    and "\<And>r t. fp_propertyRole props = Some r \<Longrightarrow> pe_type (fp_property props) = Some t \<Longrightarrow> isProfilePropertyRoleCompatible r (Some t)"
  shows "form_ok s props (open_form num exp10 props)"
proof -
  have "fp_propertyRole props = None" if "edits_object props"
    using that assms(2) no_role_of_object unfolding edits_object_def by (cases "fp_propertyRole props") auto
  then show ?thesis using assms by (auto simp: open_form_def form_ok_def edits_object_def)
qed

end
