(* ===== verification/Schema_Page_Steps.thy ===== *)
theory Schema_Page_Steps
  imports Schema_Edit_Page Form_Invariant
begin

section \<open>The steps of the page of the schema editor\<close>

text \<open>
  What saving a form, adding, editing and removing do to the roles and to the types of the properties, and the
  invariant of the page. The roles are those the profile had, so they are valid when the page is opened.
\<close>

subsection \<open>Roles\<close>

abbreviation roles_valid :: "schema_editor \<Rightarrow> bool" where
  "roles_valid st \<equiv> validateProfilePropertyRoles (editableSchema st) (propertyRoles st) = Inr ()"

lemma editable_ok_key: "editable_ok s \<Longrightarrow> obj_get s k = Some q \<Longrightarrow> k \<noteq> []"
  by (simp add: editable_ok_def names_plain_def)

lemma roles_valid_add:
  assumes ok: "editable_ok (editableSchema st)" and valid: "roles_valid st"
    and step: "onAddProperty st p source role sel = Inr (st', k)"
    and compatible: "\<And>t r. pe_type p = Some t \<Longrightarrow> role = Some r \<Longrightarrow> isProfilePropertyRoleCompatible r (Some t)"
  shows "roles_valid st'"
  unfolding validateProfilePropertyRoles_iff
proof (intro allI impI)
  fix r assume some: "propertyRoles st' r \<noteq> []"
  note spec = onAddProperty_spec [OF step editable_ok_distinct [OF ok]]
  obtain t where t: "pe_type p = Some t"
    and get: "\<And>x. obj_get (editableSchema st') x = (if x = k then Some (added_property p t) else obj_get (editableSchema st) x)"
    using spec(4) by blast
  note old = valid [unfolded validateProfilePropertyRoles_iff, rule_format]
  have free: "propertyRoles st s \<noteq> k" if "propertyRoles st s \<noteq> []" for s
    using old [OF that] spec(1) by (auto simp: in_obj_keys)
  have eq: "propertyRoles st' s = (if role = Some s then k else if propertyRoles st s = k then [] else propertyRoles st s)" for s
    using spec(11) by (simp add: updateProfilePropertyRoleAssignment_eq)
  show "(\<exists>q. obj_get (editableSchema st') (propertyRoles st' r) = Some q \<and> isProfilePropertyRoleCompatible r (Some (ep_type q))) \<and>
      (\<forall>s. s \<noteq> r \<longrightarrow> propertyRoles st' s \<noteq> propertyRoles st' r)"
  proof (cases "role = Some r")
    case True
    then show ?thesis using some compatible [OF t] free by (auto simp: eq get added_property_def)
  next
    case False
    then have r: "propertyRoles st' r = propertyRoles st r" "propertyRoles st r \<noteq> []" using some by (auto simp: eq split: if_splits)
    then show ?thesis using old [OF r(2)] free [OF r(2)] by (auto simp: eq get)
  qed
qed

lemma roles_valid_edit:
  assumes ok: "editable_ok (editableSchema st)" and valid: "roles_valid st"
    and step: "onEditProperty st k p source role un = Inr st'" and unassigned: "descendant_roles_unassigned st k p un"
    and compatible: "\<And>t r. pe_type p = Some t \<Longrightarrow> role = Some r \<Longrightarrow> isProfilePropertyRoleCompatible r (Some t)"
  shows "roles_valid st'"
  unfolding validateProfilePropertyRoles_iff
proof (intro allI impI)
  fix r assume some: "propertyRoles st' r \<noteq> []"
  note old = valid [unfolded validateProfilePropertyRoles_iff, rule_format]
  from step show "(\<exists>q. obj_get (editableSchema st') (propertyRoles st' r) = Some q \<and> isProfilePropertyRoleCompatible r (Some (ep_type q))) \<and>
      (\<forall>s. s \<noteq> r \<longrightarrow> propertyRoles st' s \<noteq> propertyRoles st' r)"
  proof (rule onEditProperty_spec)
    fix current t nested
    assume t: "pe_type p = Some t"
      and nested: "nested = (if kind_of (ep_type current) = KObject \<and> kind_of t \<noteq> KObject
               then filter (\<lambda>d. starts_with d (k @ [46])) (obj_keys (editableSchema st)) else [])"
      and get: "\<And>x. obj_get (editableSchema st') x =
       (if x \<in> set nested then None else if x = k then Some (edited_property current p t)
        else map_option (\<lambda>q. if pe_name p \<noteq> ep_name current \<and> kind_of t = KObject \<and> ep_root q = ep_name current
                             then q\<lparr>ep_root := pe_name p\<rparr> else q) (obj_get (editableSchema st) x))"
      and roles: "propertyRoles st' = updateProfilePropertyRoleAssignment (propertyRoles st) k role un"
    have eq: "propertyRoles st' s = (if role = Some s then k else if propertyRoles st s = k \<or> s \<in> set un then [] else propertyRoles st s)" for s
      by (simp add: roles updateProfilePropertyRoleAssignment_eq)
    show ?thesis
    proof (cases "role = Some r")
      case True
      have "k \<notin> set nested" by (auto simp: nested starts_with_iff)
      then show ?thesis using True some compatible [OF t] by (auto simp: eq get edited_property_def)
    next
      case False
      then have r: "propertyRoles st' r = propertyRoles st r" "propertyRoles st r \<noteq> []" "propertyRoles st r \<noteq> k" "r \<notin> set un"
        using some by (auto simp: eq split: if_splits)
      have "propertyRoles st r \<notin> set nested"
        using unassigned r(4) by (auto simp: nested descendant_roles_unassigned_def t list_all_iff js_Cons)
      moreover obtain q where q: "obj_get (editableSchema st) (propertyRoles st r) = Some q" "isProfilePropertyRoleCompatible r (Some (ep_type q))"
        using old [OF r(2)] by blast
      ultimately have "map_option ep_type (obj_get (editableSchema st') (propertyRoles st r)) = Some (ep_type q)"
        using r(3) by (simp add: get)
      then have "\<exists>q'. obj_get (editableSchema st') (propertyRoles st r) = Some q' \<and> isProfilePropertyRoleCompatible r (Some (ep_type q'))"
        using q(2) by auto
      moreover have "\<forall>s. s \<noteq> r \<longrightarrow> propertyRoles st' s \<noteq> propertyRoles st r" using old [OF r(2)] r(2,3) by (auto simp: eq)
      ultimately show ?thesis by (simp add: r(1))
    qed
  qed
qed

lemma roles_valid_remove:
  assumes valid: "roles_valid st" and step: "onRemoveProperty st k isFiltered = Inr (st', next)"
  shows "roles_valid st'"
  using step
proof (rule onRemoveProperty_spec)
  fix current nested
  assume nested: "nested = (if kind_of (ep_type current) = KObject then filter (\<lambda>d. starts_with d (k @ [46])) (obj_keys (editableSchema st)) else [])"
    and get: "\<And>x. obj_get (editableSchema st') x = (if x = k \<or> x \<in> set nested then None else obj_get (editableSchema st) x)"
    and roles: "propertyRoles st' = clearProfilePropertyRoles (propertyRoles st) k"
  show ?thesis
    unfolding validateProfilePropertyRoles_iff
  proof (intro allI impI)
    fix r assume "propertyRoles st' r \<noteq> []"
    then have r: "propertyRoles st' r = propertyRoles st r" "propertyRoles st r \<noteq> []" "propertyRoles st r \<noteq> k"
      "\<not> starts_with (propertyRoles st r) (k @ js ''.'')"
      by (auto simp: roles clearProfilePropertyRoles_eq split: if_splits)
    have "propertyRoles st r \<notin> set nested" using r(4) by (auto simp: nested js_Cons)
    then show "(\<exists>q. obj_get (editableSchema st') (propertyRoles st' r) = Some q \<and> isProfilePropertyRoleCompatible r (Some (ep_type q))) \<and>
        (\<forall>s. s \<noteq> r \<longrightarrow> propertyRoles st' s \<noteq> propertyRoles st' r)"
      using valid [unfolded validateProfilePropertyRoles_iff, rule_format, OF r(2)] r
      by (auto simp: get roles clearProfilePropertyRoles_eq)
  qed
qed

text \<open>The role that the panel shows for a property.\<close>

lemma getPropertyRole_Some: "getPropertyRole (Some a) k = Some r \<Longrightarrow> a r = k"
  by (auto simp: getPropertyRole_def find_Some_iff)

lemma getPropertyRole_unique:
  "role = None \<and> (\<forall>r. a r \<noteq> k) \<or> (\<exists>r. role = Some r \<and> a r = k \<and> (\<forall>s. s \<noteq> r \<longrightarrow> a s \<noteq> k)) \<Longrightarrow> getPropertyRole (Some a) k = role"
proof (cases "getPropertyRole (Some a) k")
  case None
  assume "role = None \<and> (\<forall>r. a r \<noteq> k) \<or> (\<exists>r. role = Some r \<and> a r = k \<and> (\<forall>s. s \<noteq> r \<longrightarrow> a s \<noteq> k))"
  then show ?thesis using None by (auto simp: getPropertyRole_def find_None_iff)
next
  case (Some r)
  assume "role = None \<and> (\<forall>r. a r \<noteq> k) \<or> (\<exists>r. role = Some r \<and> a r = k \<and> (\<forall>s. s \<noteq> r \<longrightarrow> a s \<noteq> k))"
  then show ?thesis using Some getPropertyRole_Some [OF Some] by auto
qed

lemma assigned_role:
  assumes "k \<noteq> []"
  shows "getPropertyRole (Some (updateProfilePropertyRoleAssignment a k role un)) k = role"
proof (rule getPropertyRole_unique)
  show "role = None \<and> (\<forall>r. updateProfilePropertyRoleAssignment a k role un r \<noteq> k) \<or>
    (\<exists>r. role = Some r \<and> updateProfilePropertyRoleAssignment a k role un r = k \<and>
       (\<forall>s. s \<noteq> r \<longrightarrow> updateProfilePropertyRoleAssignment a k role un s \<noteq> k))"
    using assms by (cases role) (auto simp: updateProfilePropertyRoleAssignment_eq)
qed

subsection \<open>Types of the properties of the warehouse\<close>

text \<open>A property of the warehouse, whose type cannot change, is shown with the type it has there.\<close>

definition types_kept :: "property list \<Rightarrow> editable_schema \<Rightarrow> bool" where
  "types_kept ps s \<longleftrightarrow>
     (\<forall>k q. obj_get s k = Some q \<and> \<not> ep_isEditable q \<longrightarrow> (\<exists>q0. obj_get (opened_schema ps) k = Some q0 \<and> ep_type q = ep_type q0))"

lemma types_kept_add:
  assumes "types_kept ps (editableSchema st)" "onAddProperty st p source role sel = Inr (st', k)" "distinct (obj_keys (editableSchema st))"
  shows "types_kept ps (editableSchema st')"
proof -
  obtain t where get: "\<And>x. obj_get (editableSchema st') x = (if x = k then Some (added_property p t) else obj_get (editableSchema st) x)"
    using onAddProperty_spec(4) [OF assms(2,3)] by blast
  have "ep_isEditable (added_property p t)" by (simp add: added_property_def)
  then show ?thesis using assms(1) by (auto simp: types_kept_def get split: if_splits)
qed

lemma types_kept_edit:
  assumes "types_kept ps (editableSchema st)" "onEditProperty st k p source role un = Inr st'"
    and same: "\<And>current. obj_get (editableSchema st) k = Some current \<Longrightarrow> \<not> ep_isEditable current \<Longrightarrow> pe_type p = Some (ep_type current)"
  shows "types_kept ps (editableSchema st')"
  using assms(2)
proof (rule onEditProperty_spec)
  fix current t nested
  assume k: "obj_get (editableSchema st) k = Some current" and t: "pe_type p = Some t"
    and get: "\<And>x. obj_get (editableSchema st') x =
       (if x \<in> set nested then None else if x = k then Some (edited_property current p t)
        else map_option (\<lambda>q. if pe_name p \<noteq> ep_name current \<and> kind_of t = KObject \<and> ep_root q = ep_name current
                             then q\<lparr>ep_root := pe_name p\<rparr> else q) (obj_get (editableSchema st) x))"
  show ?thesis
    unfolding types_kept_def
  proof (intro allI impI, elim conjE)
    fix x q assume x: "obj_get (editableSchema st') x = Some q" and fixed: "\<not> ep_isEditable q"
    then obtain q' where q': "obj_get (editableSchema st) x = Some q'" "\<not> ep_isEditable q'" "ep_type q = ep_type q'"
      using k same [OF k] t by (auto simp: get edited_property_def split: if_splits)
    then show "\<exists>q0. obj_get (opened_schema ps) x = Some q0 \<and> ep_type q = ep_type q0"
      using assms(1) unfolding types_kept_def by metis
  qed
qed

lemma types_kept_remove:
  assumes "types_kept ps (editableSchema st)" "onRemoveProperty st k isFiltered = Inr (st', next)"
  shows "types_kept ps (editableSchema st')"
  using assms(2) by (rule onRemoveProperty_spec) (use assms(1) in \<open>auto simp: types_kept_def\<close>)

subsection \<open>The invariant of the page\<close>

text \<open>The panel shows a property of the schema as it is there, or a new property inside an object.\<close>

definition shown_ok :: "editable_schema \<Rightarrow> edit_target \<Rightarrow> bool" where
  "shown_ok s target \<longleftrightarrow>
     (case target of
        (None, p) \<Rightarrow> parent_chosen s p \<and> pe_isEditable p
      | (Some k, p) \<Rightarrow> (\<exists>q. obj_get s k = Some q \<and> pe_name p = ep_name q \<and> pe_type p = Some (ep_type q) \<and> pe_isEditable p = ep_isEditable q))"

definition panel_ok :: "schema_page \<Rightarrow> bool" where
  "panel_ok page \<longleftrightarrow>
     (case (sp_target page, sp_form page) of
        (None, None) \<Rightarrow> True
      | (Some target, Some form) \<Rightarrow>
          shown_ok (editableSchema (sp_editor page)) target \<and>
          form_ok (editableSchema (sp_editor page)) (page_props (sp_editor page) target) form
      | _ \<Rightarrow> False)"

definition editor_ok :: "property list \<Rightarrow> property_roles option \<Rightarrow> jsstr obj \<Rightarrow> schema_editor \<Rightarrow> bool" where
  "editor_ok ps roles sources st \<longleftrightarrow>
     schema_editor_reachable False ps roles sources st \<and> editable_ok (editableSchema st) \<and> roles_valid st \<and>
     types_kept ps (editableSchema st)"

definition page_ok :: "property list \<Rightarrow> property_roles option \<Rightarrow> jsstr obj \<Rightarrow> schema_page \<Rightarrow> bool" where
  "page_ok ps roles sources page \<longleftrightarrow>
     editor_ok ps roles sources (sp_editor page) \<and> panel_ok page \<and>
     (\<forall>target. sp_beforeAdd page = Some target \<longrightarrow>
        fst target \<noteq> None \<and> shown_ok (editableSchema (sp_editor page)) target \<and> sp_target page \<noteq> None \<and> target_key (sp_target page) = None) \<and>
     (\<forall>k. sp_removing page = Some k \<longrightarrow> target_key (sp_target page) = Some k)"

lemma shown_ok_cong: "(\<And>x. obj_get s' x = obj_get s x) \<Longrightarrow> shown_ok s' target = shown_ok s target"
  using parent_chosen_cong [of s' s] by (auto simp: shown_ok_def split: option.splits prod.splits)

lemma shown_to_edit: "obj_get s k = Some q \<Longrightarrow> shown_ok s (Some k, to_edit q)"
  by (simp add: shown_ok_def to_edit_def)

lemma parents_ok_page:
  assumes ok: "editable_ok (editableSchema st)"
  shows "parents_ok (editableSchema st) (page_props st target)"
  unfolding parents_ok_def
proof (intro allI impI, elim conjE)
  fix parents q and p :: property_to_edit
  let ?s = "editableSchema st"
  assume "fp_parents (page_props st target) = Some parents" "q \<in> set parents"
    and p: "pe_parentKey p = pp_key q" "pe_indentation p = pp_indentation q"
  then have "q = top_parent (names_or_empty (names_by_parent ?s) []) \<or> q \<in> set (listed_objects ?s)"
    by (auto simp: page_props_def getPropertyParents_eq [OF ok])
  then show "parent_chosen ?s p"
  proof
    assume "q \<in> set (listed_objects ?s)"
    then obtain r where r: "pp_key q \<noteq> []" "obj_get ?s (pp_key q) = Some r" "kind_of (ep_type r) = KObject" "q = parent_of_object ?s (pp_key q) r"
      using listed_child child_object [OF ok] by blast
    then have "pp_indentation q = ep_indentation r + 1" by (metis parent_of_object_def property_parent.select_convs(3))
    then show ?thesis using r(1-3) p by (simp add: parent_chosen_def)
  qed (use p in \<open>simp add: parent_chosen_def top_parent_def\<close>)
qed

lemma opened_form_ok:
  assumes ok: "editor_ok ps roles sources st" and shown: "shown_ok (editableSchema st) target"
  shows "form_ok (editableSchema st) (page_props st target) (open_form num exp10 (page_props st target))"
proof (rule form_ok_open)
  show "parent_chosen (editableSchema st) (fp_property (page_props st target))" if "fp_key (page_props st target) = None"
    using that shown by (cases target) (simp add: page_props_def shown_ok_def)
next
  fix r t assume role: "fp_propertyRole (page_props st target) = Some r" and t: "pe_type (fp_property (page_props st target)) = Some t"
  obtain k p where target: "target = (Some k, p)" "propertyRoles st r = k"
    using role getPropertyRole_Some by (cases target; cases "fst target") (auto simp: page_props_def)
  then obtain q where q: "obj_get (editableSchema st) k = Some q" "t = ep_type q" using shown t by (auto simp: shown_ok_def page_props_def)
  have "editable_ok (editableSchema st)" "roles_valid st" using ok by (simp_all add: editor_ok_def)
  then show "isProfilePropertyRoleCompatible r (Some t)"
    using editable_ok_key [OF _ q(1)] q target(2) by (fastforce simp: validateProfilePropertyRoles_iff)
qed

text \<open>\<open>setPropertyToEdit\<close> opens a form that is well formed.\<close>

lemma page_ok_set:
  assumes "editor_ok ps roles sources (sp_editor page)"
    and "\<And>t. target = Some t \<Longrightarrow> shown_ok (editableSchema (sp_editor page)) t"
    and "\<And>t. sp_beforeAdd page = Some t \<Longrightarrow>
      fst t \<noteq> None \<and> shown_ok (editableSchema (sp_editor page)) t \<and> target \<noteq> None \<and> target_key target = None"
    and "sp_removing page = None"
  shows "page_ok ps roles sources (set_target num exp10 target page)"
  using assms opened_form_ok [OF assms(1)]
  by (cases target) (auto simp: page_ok_def set_target_def panel_ok_def)

lemma panel_ok_removing [simp]: "panel_ok (page\<lparr>sp_removing := r\<rparr>) = panel_ok page"
  by (cases "sp_target page"; cases "sp_form page") (simp_all add: panel_ok_def)

lemma panel_target: "panel_ok page \<Longrightarrow> sp_target page = Some t \<Longrightarrow> shown_ok (editableSchema (sp_editor page)) t"
  by (auto simp: panel_ok_def split: option.splits)

lemma page_ok_select:
  assumes ok: "page_ok ps roles sources page" and idle: "page_idle page" and p: "obj_get (editableSchema (sp_editor page)) k = Some p"
  shows "page_ok ps roles sources (onSelectProperty num exp10 k p page)"
  using ok idle shown_to_edit [OF p]
  by (auto simp: onSelectProperty_def page_ok_def [of _ _ _ page] page_idle_def intro!: page_ok_set)

lemma page_ok_clear:
  assumes ok: "page_ok ps roles sources page" and idle: "page_idle page"
  shows "page_ok ps roles sources (clear_selection num exp10 page)"
  using ok idle by (auto simp: clear_selection_def page_ok_def [of _ _ _ page] page_idle_def intro!: page_ok_set)

lemma page_ok_cancel:
  assumes ok: "page_ok ps roles sources page" and idle: "page_idle page"
  shows "page_ok ps roles sources (onCancelProperty num exp10 page)"
  using ok idle panel_target [of page]
  by (auto simp: onCancelProperty_def page_ok_def [of _ _ _ page] page_idle_def intro!: page_ok_set)

lemma page_ok_review:
  assumes ok: "page_ok ps roles sources page" and idle: "page_idle page"
  shows "page_ok ps roles sources (onReviewChangesClick num exp10 page)"
  using ok page_ok_cancel [OF ok idle] by (simp add: onReviewChangesClick_def)

lemma found_mem: "ps \<noteq> [] \<Longrightarrow> (case find P ps of Some q \<Rightarrow> q | None \<Rightarrow> hd ps) \<in> set ps"
  by (auto simp: find_Some_iff split: option.split)

lemma parent_for_new_mem: "ps \<noteq> [] \<Longrightarrow> parent_for_new ps contextual \<in> set ps"
  by (simp add: parent_for_new_def Let_def found_mem split: option.split prod.split)

lemma page_ok_add_click:
  assumes ok: "page_ok ps roles sources page" and idle: "page_idle page"
  shows "page_ok ps roles sources (onAddClick num exp10 page)"
proof -
  let ?s = "editableSchema (sp_editor page)"
  have s: "editable_ok ?s" using ok by (simp add: page_ok_def editor_ok_def)
  let ?parents = "top_parent (names_or_empty (names_by_parent ?s) []) # listed_objects ?s"
  let ?before = "if target_key (sp_target page) = None then sp_beforeAdd page else sp_target page"
  let ?parent = "parent_for_new ?parents ?before"
  have "?parent \<in> set ?parents"
    by (rule parent_for_new_mem) simp
  then have parent: "shown_ok ?s (None, newPropertyToEdit (pp_key ?parent) (pp_indentation ?parent) (pp_root ?parent))"
    using parents_ok_page [OF s, of "(None, undefined)"]
    by (simp add: shown_ok_def parents_ok_def page_props_def getPropertyParents_eq [OF s] newPropertyToEdit_def)
  have before: "fst t \<noteq> None \<and> shown_ok ?s t" if "?before = Some t" for t
    using that ok panel_target [of page t] unfolding page_ok_def target_key_def by (auto split: if_splits simp del: split_paired_All)
  let ?target = "Some (None, newPropertyToEdit (pp_key ?parent) (pp_indentation ?parent) (pp_root ?parent))"
  have eq: "onAddClick num exp10 page =
      (if has_unsaved_changes num page then page else set_target num exp10 ?target (page\<lparr>sp_beforeAdd := ?before\<rparr>))"
    by (simp only: onAddClick_def Let_def getPropertyParents_eq [OF s] option.case)
  have "page_ok ps roles sources (set_target num exp10 ?target (page\<lparr>sp_beforeAdd := ?before\<rparr>))"
  proof (rule page_ok_set, goal_cases)
    case 1
    then show ?case using ok by (simp add: page_ok_def)
  next
    case (2 t)
    then show ?case using parent by simp
  next
    case (3 t)
    then have "?before = Some t" by simp
    from before [OF this] show ?case by (simp add: target_key_def)
  next
    case 4
    then show ?case using idle by (simp add: page_idle_def)
  qed
  then show ?thesis using ok unfolding eq by simp
qed

subsection \<open>Saving\<close>

lemma form_name_free:
  assumes ok: "editable_ok s" and parents: "fp_parents props = getPropertyParents (Some s)"
    and parent: "parentKey = [] \<or> is_object_key s parentKey" and none: "form_name_error props name parentKey = None"
  shows "validatePropertyName name = Inr ()" "original_name props = Some name \<or> \<not> name_taken s parentKey name"
proof -
  obtain list where list: "getPropertyParents (Some s) = Some list" using parents_listed [OF ok] by blast
  have error: "getPropertyNameError name parentKey (original_name props) (Some list) = None"
    using none by (simp add: form_name_error_def parents list)
  show valid: "validatePropertyName name = Inr ()"
    using error by (cases "validatePropertyName name") (simp_all add: getPropertyNameError_def)
  show "original_name props = Some name \<or> \<not> name_taken s parentKey name"
    using error valid form_finds_name [OF ok list parent, of name] by (auto simp: getPropertyNameError_def)
qed

lemma submit_checked:
  assumes "submit_error exp10 props form = None"
  shows "form_name_error props (pe_name (pf_property form)) (form_parent_key props form) = None"
    "\<exists>t. pe_type (pf_property form) = Some t"
  using assms by (auto simp: submit_error_def validatePropertyType_def split: option.splits)

text \<open>A form that passes its checks is saved; \<open>k\<close> is the key of the property then.\<close>

definition saved_as :: "schema_editor \<Rightarrow> jsstr \<Rightarrow> property_form \<Rightarrow> bool" where
  "saved_as st k form \<longleftrightarrow>
     (\<exists>q. obj_get (editableSchema st) k = Some q \<and> ep_name q = pe_name (pf_property form) \<and>
        pe_type (pf_property form) = Some (ep_type q) \<and> pe_isEditable (pf_property form) = ep_isEditable q) \<and>
     getPropertyRole (Some (propertyRoles st)) k = pf_propertyRole form"

lemma new_property_saved:
  assumes ok: "editor_ok ps roles sources st" and form: "form_ok (editableSchema st) (page_props st (None, p)) form"
    and editable: "pe_isEditable p" and checked: "submit_error exp10 (page_props st (None, p)) form = None"
  shows "\<exists>st' k. onAddProperty st (pf_property form) (pf_primarySource form) (pf_propertyRole form) sel = Inr (st', k) \<and>
    editor_ok ps roles sources st' \<and> saved_as st' k form"
proof -
  let ?p = "pf_property form"
  let ?props = "page_props st (None, p)"
  have s: "editable_ok (editableSchema st)" "roles_valid st" "types_kept ps (editableSchema st)" "schema_editor_reachable False ps roles sources st"
    using ok by (simp_all add: editor_ok_def)
  have chosen: "parent_chosen (editableSchema st) ?p" and role: "\<And>t r. pe_type ?p = Some t \<Longrightarrow> pf_propertyRole form = Some r \<Longrightarrow> isProfilePropertyRoleCompatible r (Some t)"
    and edit: "pe_isEditable ?p"
    using form editable unfolding form_ok_def by (auto simp: page_props_def)
  obtain t where t: "pe_type ?p = Some t" using submit_checked(2) [OF checked] by blast
  have key: "form_parent_key ?props form = pe_parentKey ?p" by (simp add: form_parent_key_def page_props_def)
  have name: "validatePropertyName (pe_name ?p) = Inr ()" "\<not> name_taken (editableSchema st) (pe_parentKey ?p) (pe_name ?p)"
    using form_name_free [OF s(1) _ parent_chosenD [OF chosen] submit_checked(1) [OF checked, unfolded key]]
    by (simp_all add: page_props_def original_name_def)
  obtain st' k where step: "onAddProperty st ?p (pf_primarySource form) (pf_propertyRole form) sel = Inr (st', k)"
    and new: "obj_get (editableSchema st) k = None" "obj_get (editableSchema st') k = Some (added_property ?p t)"
    using onAddProperty_succeeds [OF editable_ok_distinct [OF s(1)] validatePropertyName_not_meta [OF name(1)] t name(2)] by blast
  have reach: "schema_editor_reachable False ps roles sources st'" by (rule added [OF s(4) name(1) chosen step])
  have "editor_ok ps roles sources st'"
    using reach onAddProperty_ok(1) [OF s(1) name(1) parent_chosenD [OF chosen] step] roles_valid_add [OF s(1,2) step role]
      types_kept_add [OF s(3) step editable_ok_distinct [OF s(1)]]
    by (simp add: editor_ok_def)
  moreover from this have "k \<noteq> []" using editable_ok_key [OF _ new(2)] by (simp add: editor_ok_def)
  ultimately show ?thesis
    using step new t edit onAddProperty_spec(11) [OF step editable_ok_distinct [OF s(1)]] assigned_role
    by (auto simp: saved_as_def added_property_def)
qed

lemma edited_property_saved:
  assumes ok: "editor_ok ps roles sources st" and form: "form_ok (editableSchema st) (page_props st (Some k, p)) form"
    and shown: "shown_ok (editableSchema st) (Some k, p)" and checked: "submit_error exp10 (page_props st (Some k, p)) form = None"
  shows "\<exists>st'. onEditProperty st k (pf_property form) (pf_primarySource form) (pf_propertyRole form) (pf_descendantRoles form) = Inr st' \<and>
    editor_ok ps roles sources st' \<and> saved_as st' k form"
proof -
  let ?p = "pf_property form"
  let ?props = "page_props st (Some k, p)"
  have s: "editable_ok (editableSchema st)" "roles_valid st" "types_kept ps (editableSchema st)" "schema_editor_reachable False ps roles sources st"
    using ok by (simp_all add: editor_ok_def)
  obtain q where q: "obj_get (editableSchema st) k = Some q" "pe_name p = ep_name q" "pe_type p = Some (ep_type q)" "pe_isEditable p = ep_isEditable q"
    using shown by (auto simp: shown_ok_def)
  obtain t where t: "pe_type ?p = Some t" using submit_checked(2) [OF checked] by blast
  have role: "isProfilePropertyRoleCompatible r (Some t)" if "pe_type ?p = Some t" "pf_propertyRole form = Some r" for t r
    using form that unfolding form_ok_def by blast
  have edit: "pe_isEditable ?p = ep_isEditable q" and fixed: "\<not> ep_isEditable q \<Longrightarrow> pe_type ?p = Some (ep_type q)"
    using form q unfolding form_ok_def by (simp_all add: page_props_def canEditType_def)
  have parent: "getParentPropertyKey k = [] \<or> is_object_key (editableSchema st) (getParentPropertyKey k)"
    using editable_ok_parent [OF s(1), of k] q(1) parent_plain [of k] by (cases "46 \<in> set k") (auto simp: in_obj_keys is_object_key_def)
  have key: "form_parent_key ?props form = getParentPropertyKey k" by (simp add: form_parent_key_def page_props_def)
  have name: "validatePropertyName (pe_name ?p) = Inr ()"
    "pe_name ?p = ep_name q \<or> \<not> name_taken (editableSchema st) (getParentPropertyKey k) (pe_name ?p)"
    using form_name_free [OF s(1) _ parent submit_checked(1) [OF checked, unfolded key]] q(2)
    by (auto simp: page_props_def original_name_def)
  have "kind_of (ep_type q) = KObject" if "starts_with (propertyRoles st r) (k @ js ''.'')" for r
  proof -
    have "propertyRoles st r \<noteq> []" using that by (auto simp: starts_with_iff js_Cons)
    then have "propertyRoles st r \<in> set (obj_keys (editableSchema st))"
      using s(2) unfolding validateProfilePropertyRoles_iff by (force simp: in_obj_keys)
    then show ?thesis using object_of_nested [OF s(1)] that q(1) by (force simp: js_Cons)
  qed
  then have unassigned: "descendant_roles_unassigned st k ?p (pf_descendantRoles form)"
    using form t q(3) unfolding form_ok_def
    by (auto simp: descendant_roles_unassigned_def list_all_iff edits_object_def nested_roles_def page_props_def)
  obtain st' where step: "onEditProperty st k ?p (pf_primarySource form) (pf_propertyRole form) (pf_descendantRoles form) = Inr st'"
    and new: "obj_get (editableSchema st') k = Some (edited_property q ?p t)"
    using onEditProperty_succeeds [OF s(1) q(1) t name(2)] by blast
  have accepted: "name_accepted st k ?p" using name(1) by (simp add: name_accepted_def)
  have reach: "schema_editor_reachable False ps roles sources st'" by (rule edited [OF s(4) accepted unassigned _ step]) simp
  have okay: "editor_ok ps roles sources st'"
    using reach onEditProperty_ok [OF s(1) accepted step] roles_valid_edit [OF s(1,2) step unassigned role] types_kept_edit [OF s(3) step] q(1) fixed
    by (auto simp: editor_ok_def)
  have "propertyRoles st' = updateProfilePropertyRoleAssignment (propertyRoles st) k (pf_propertyRole form) (pf_descendantRoles form)"
    using step by (rule onEditProperty_spec)
  then have "getPropertyRole (Some (propertyRoles st')) k = pf_propertyRole form"
    using assigned_role [OF editable_ok_key [OF s(1) q(1)]] by simp
  with step okay new t edit show ?thesis by (auto simp: saved_as_def edited_property_def)
qed

lemma page_ok_submit:
  assumes ok: "page_ok ps roles sources page" and idle: "page_idle page"
    and target: "sp_target page = Some target" and form: "sp_form page = Some form"
    and checked: "submit_error exp10 (page_props (sp_editor page) target) form = None"
  shows "page_ok ps roles sources (onSubmit num exp10 page) \<and>
    (\<exists>k p. sp_target (onSubmit num exp10 page) = Some (Some k, p) \<and> saved_as (sp_editor (onSubmit num exp10 page)) k form \<and>
       (fst target = None \<or> fst target = Some k))"
proof -
  have ed: "editor_ok ps roles sources (sp_editor page)"
    and panel: "shown_ok (editableSchema (sp_editor page)) target" "form_ok (editableSchema (sp_editor page)) (page_props (sp_editor page) target) form"
    and before: "fst target \<noteq> None \<Longrightarrow> sp_beforeAdd page = None"
    using ok target form by (cases "sp_beforeAdd page"; auto simp: page_ok_def panel_ok_def target_key_def)+
  have idle: "sp_removing page = None" using idle by (simp add: page_idle_def)
  obtain key p where t: "target = (key, p)" by (cases target)
  show ?thesis
  proof (cases key)
    case None
    with t panel have "pe_isEditable p" by (simp add: shown_ok_def)
    with ed panel(2) checked t None obtain st' k where step:
        "onAddProperty (sp_editor page) (pf_property form) (pf_primarySource form) (pf_propertyRole form) (target_key (sp_beforeAdd page)) = Inr (st', k)"
      and saved: "editor_ok ps roles sources st'" "saved_as st' k form"
      using new_property_saved [OF ed, of p form exp10 "target_key (sp_beforeAdd page)"] by auto
    obtain q where q: "obj_get (editableSchema st') k = Some q" using saved(2) by (auto simp: saved_as_def)
    have eq: "onSubmit num exp10 page = set_target num exp10 (Some (Some k, to_edit q)) (page\<lparr>sp_editor := st', sp_beforeAdd := None\<rparr>)"
      using target form checked by (simp add: onSubmit_def onSaveProperty_def t None step q)
    have "page_ok ps roles sources (onSubmit num exp10 page)"
      unfolding eq by (rule page_ok_set) (use saved q idle shown_to_edit in auto)
    moreover have "sp_target (onSubmit num exp10 page) = Some (Some k, to_edit q)" "sp_editor (onSubmit num exp10 page) = st'"
      by (simp_all add: eq set_target_def)
    ultimately show ?thesis using saved(2) t None by auto
  next
    case (Some k)
    with ed panel checked t obtain st' where step:
        "onEditProperty (sp_editor page) k (pf_property form) (pf_primarySource form) (pf_propertyRole form) (pf_descendantRoles form) = Inr st'"
      and saved: "editor_ok ps roles sources st'" "saved_as st' k form"
      using edited_property_saved [OF ed, of k p form exp10] by auto
    have eq: "onSubmit num exp10 page = set_target num exp10 (Some (Some k, pf_property form)) (page\<lparr>sp_editor := st'\<rparr>)"
      using target form checked by (simp add: onSubmit_def onSaveProperty_def t Some step)
    have shown: "shown_ok (editableSchema st') (Some k, pf_property form)" using saved(2) by (auto simp: saved_as_def shown_ok_def)
    have "page_ok ps roles sources (onSubmit num exp10 page)"
      unfolding eq by (rule page_ok_set) (use saved shown idle before t Some in auto)
    moreover have "sp_target (onSubmit num exp10 page) = Some (Some k, pf_property form)" "sp_editor (onSubmit num exp10 page) = st'"
      by (simp_all add: eq set_target_def)
    ultimately show ?thesis using saved(2) t Some by auto
  qed
qed

lemma submit_error_form:
  assumes ok: "form_ok s props form" and error: "submit_error exp10 props form = Some form'"
  shows "form_ok s props form'"
proof -
  obtain e1 e2 where "form' = form\<lparr>pf_nameError := Some e1\<rparr> \<and> form_name_error props (pe_name (pf_property form)) (form_parent_key props form) = Some e1 \<or>
      form' = form\<lparr>pf_typeError := Some e2\<rparr>"
    using error by (auto simp: submit_error_def split: option.splits)
  then show ?thesis
    using form_name_error_not_saved by (elim disjE conjE; intro form_ok_keep [OF ok]) (simp_all, metis+)
qed

text \<open>The form of the panel changes.\<close>

lemma page_ok_form:
  assumes "page_ok ps roles sources page" "sp_target page = Some target" "sp_form page = Some form"
    and "form_ok (editableSchema (sp_editor page)) (page_props (sp_editor page) target) form \<Longrightarrow>
      form_ok (editableSchema (sp_editor page)) (page_props (sp_editor page) target) form'"
  shows "page_ok ps roles sources (page\<lparr>sp_form := Some form'\<rparr>)"
  using assms by (simp add: page_ok_def panel_ok_def)

lemma page_ok_submitted:
  assumes ok: "page_ok ps roles sources page" and idle: "page_idle page"
  shows "page_ok ps roles sources (onSubmit num exp10 page)"
proof (cases "sp_target page"; cases "sp_form page")
  fix target form assume target: "sp_target page = Some target" and form: "sp_form page = Some form"
  show ?thesis
  proof (cases "submit_error exp10 (page_props (sp_editor page) target) form")
    case None
    then show ?thesis using page_ok_submit [OF ok idle target form] by blast
  next
    case (Some form')
    then show ?thesis
      using page_ok_form [OF ok target form submit_error_form] by (simp add: onSubmit_def target form)
  qed
qed (use ok in \<open>simp_all add: onSubmit_def\<close>)

subsection \<open>Removing and sorting\<close>

lemma selection_after_removal:
  "getPropertySelectionAfterRemoval s k = Some n \<Longrightarrow> \<not> is_removed k n"
  by (auto simp: getPropertySelectionAfterRemoval_def Let_def find_Some_iff split: option.splits)

lemma page_ok_removed:
  assumes ok: "page_ok ps roles sources page"
  shows "page_ok ps roles sources (onConfirmRemove num exp10 isFiltered page)"
proof (cases "sp_removing page")
  case (Some k)
  let ?st = "sp_editor page"
  have target: "target_key (sp_target page) = Some k" using ok Some by (simp add: page_ok_def)
  have ed: "editor_ok ps roles sources ?st" using ok by (simp add: page_ok_def)
  show ?thesis
  proof (cases "onRemoveProperty ?st k isFiltered")
    case (Inr res)
    obtain st' n where step: "onRemoveProperty ?st k isFiltered = Inr (st', n)" using Inr by (cases res) auto
    have st': "editor_ok ps roles sources st'"
      using ed removed [OF _ step] onRemoveProperty_ok [OF _ step] roles_valid_remove [OF _ step] types_kept_remove [OF _ step]
      by (simp add: editor_ok_def)
    let ?next = "Option.bind n (\<lambda>n. map_option (\<lambda>p. (Some n, to_edit p)) (obj_get (editableSchema ?st) n))"
    have eq: "onConfirmRemove num exp10 isFiltered page =
        set_target num exp10 ?next (page\<lparr>sp_editor := st', sp_removing := None, sp_beforeAdd := None\<rparr>)"
      by (simp add: onConfirmRemove_def Some step target Let_def)
    have shown: "shown_ok (editableSchema st') t" if next_t: "?next = Some t" for t
    proof -
      obtain m p where m: "n = Some m" "obj_get (editableSchema ?st) m = Some p" "t = (Some m, to_edit p)"
        using next_t by (auto simp: bind_eq_Some_conv)
      have "getPropertySelectionAfterRemoval (editableSchema ?st) k = Some m"
        using step m(1) by (auto simp: onRemoveProperty_def Let_def split: option.splits if_splits)
      then have kept: "\<not> is_removed k m" by (rule selection_after_removal)
      from step have "obj_get (editableSchema st') m = Some p"
        by (rule onRemoveProperty_spec) (use kept m(2) in \<open>auto simp: is_removed_def js_Cons\<close>)
      then show ?thesis using shown_to_edit m(3) by blast
    qed
    show ?thesis unfolding eq by (rule page_ok_set) (use st' shown in auto)
  qed (use ok Some in \<open>simp add: onConfirmRemove_def\<close>)
qed (use ok in \<open>simp add: onConfirmRemove_def\<close>)

lemma page_ok_sorted:
  assumes ok: "page_ok ps roles sources page"
  shows "page_ok ps roles sources (page\<lparr>sp_editor := onSortRow overRow moved (sp_editor page)\<rparr>)"
proof -
  let ?st = "sp_editor page"
  let ?st' = "onSortRow overRow moved ?st"
  have ed: "editor_ok ps roles sources ?st" using ok by (simp add: page_ok_def)
  then have d: "distinct (obj_keys (editableSchema ?st))" by (auto simp: editor_ok_def dest: editable_ok_distinct)
  have get: "obj_get (editableSchema ?st') x = obj_get (editableSchema ?st) x" and same: "propertyRoles ?st' = propertyRoles ?st"
    "primarySources ?st' = primarySources ?st" for x
    using onSortRow_spec [OF d, of overRow moved] by auto
  have reach: "schema_editor_reachable False ps roles sources ?st'" using ed by (auto simp: editor_ok_def intro: sorted)
  have "editable_ok (editableSchema ?st')" using ed onSortRow_ok [of ?st] by (simp add: editor_ok_def)
  with reach ed have st': "editor_ok ps roles sources ?st'"
    unfolding editor_ok_def types_kept_def validateProfilePropertyRoles_iff by (simp add: get same)
  have props: "page_props ?st' target = (page_props ?st target)\<lparr>fp_parents := getPropertyParents (Some (editableSchema ?st'))\<rparr>" for target
    by (simp add: page_props_def same)
  have "panel_ok (page\<lparr>sp_editor := ?st'\<rparr>) = panel_ok page"
    by (cases "sp_target page"; cases "sp_form page") (simp_all add: panel_ok_def shown_ok_cong [OF get] props form_ok_schema [OF get])
  then show ?thesis using ok st' by (simp add: page_ok_def shown_ok_cong [OF get])
qed

subsection \<open>Every reachable page\<close>

lemma page_ok_opened:
  assumes wf: "wf_properties ps" "names_nonempty ps"
    and roles: "validateProfilePropertyRoles (opened_schema ps) (copyProfilePropertyRoles roles) = Inr ()"
  shows "page_ok ps roles sources (open_page num exp10 ps roles sources initialPropertyKey)"
proof -
  let ?st = "open_editor ps roles sources"
  have "types_kept ps (editableSchema ?st)" by (auto simp: types_kept_def open_editor_fields(1) [OF wf(1)])
  then have ed: "editor_ok ps roles sources ?st"
    using opened [of False ps roles sources] opened_ok [OF wf] roles by (simp add: editor_ok_def open_editor_fields(1) [OF wf(1)] open_editor_fields(6))
  let ?k = "case Option.bind initialPropertyKey (obj_get (editableSchema ?st)) of
                 Some _ \<Rightarrow> initialPropertyKey
               | None \<Rightarrow> (case obj_keys (editableSchema ?st) of [] \<Rightarrow> None | k # _ \<Rightarrow> Some k)"
  have "shown_ok (editableSchema ?st) t" if "Option.bind k (\<lambda>k. map_option (\<lambda>p. (Some k, to_edit p)) (obj_get (editableSchema ?st) k)) = Some t" for k t
    using that shown_to_edit by (auto simp: bind_eq_Some_conv)
  then show ?thesis unfolding open_page_def Let_def by (intro page_ok_set) (use ed in simp_all)
qed

lemma reachable_page_ok:
  assumes "page_reachable num exp10 ps roles sources page" and wf: "wf_properties ps" "names_nonempty ps"
    and roles: "validateProfilePropertyRoles (opened_schema ps) (copyProfilePropertyRoles roles) = Inr ()"
  shows "page_ok ps roles sources page"
  using assms(1)
proof induction
  case (page_form page target form e)
  then have "parents_ok (editableSchema (sp_editor page)) (page_props (sp_editor page) target)"
    by (intro parents_ok_page) (simp add: page_ok_def editor_ok_def)
  then show ?case
    using form_ok_handle [OF _ _ page_form.hyps(5)] by (intro page_ok_form [OF page_form.IH page_form.hyps(3,4)]) blast
next
  case (page_remove page k)
  then show ?case by (auto simp: page_ok_def onRemoveClick_def can_remove_def)
next
  case (page_keep page)
  then show ?case by (auto simp: page_ok_def)
qed (rule page_ok_opened [OF wf roles] page_ok_select page_ok_clear page_ok_add_click page_ok_submitted page_ok_cancel
      page_ok_removed page_ok_sorted page_ok_review; assumption)+

lemma opened_not_dirty: "\<not> form_dirty num props (open_form num exp10 props)"
  by (simp add: form_dirty_def open_form_def check_numbers_def split: option.split)

lemma set_target_clean: "\<not> has_unsaved_changes num (set_target num exp10 target page)"
  by (cases target) (simp_all add: has_unsaved_changes_def set_target_def opened_not_dirty)

end
