(* ===== verification/Schema_Page_Invariants.thy ===== *)
theory Schema_Page_Invariants
  imports Schema_Page_Steps
begin

section \<open>What the page of the schema editor guarantees\<close>

text \<open>
  The page is opened on a profile whose roles are valid. Then the user selects, adds, edits, removes and sorts
  properties in any order, through the controls that are shown.
\<close>

text \<open>
  C6: The page only drives the editor through the steps whose guards are those of its states: in every reachable page the
  editor is in a reachable state, and the panel shows a property that exists, with the name and the type it has.
\<close>

theorem page_refines_editor:
  assumes "page_reachable num exp10 ps roles sources page" "wf_properties ps" "names_nonempty ps"
    and "validateProfilePropertyRoles (opened_schema ps) (copyProfilePropertyRoles roles) = Inr ()"
  shows "schema_editor_reachable False ps roles sources (sp_editor page) \<and>
    (\<forall>k p. sp_target page = Some (Some k, p) \<longrightarrow>
       (\<exists>q. obj_get (editableSchema (sp_editor page)) k = Some q \<and> pe_name p = ep_name q \<and> pe_type p = Some (ep_type q)))"
proof -
  have ok: "page_ok ps roles sources page" by (rule reachable_page_ok [OF assms])
  have "shown_ok (editableSchema (sp_editor page)) (Some k, p)" if "sp_target page = Some (Some k, p)" for k p
    using ok panel_target [OF _ that] by (simp add: page_ok_def)
  then show ?thesis using ok by (fastforce simp: page_ok_def editor_ok_def shown_ok_def)
qed

text \<open>
  C4: In every reachable page without an open dialog, a form that passes its own checks is saved: the property is in the
  schema with the name, the type and the role of the form, under its own key or, if it is new, under a new one, it is the
  property of the panel, and no unsaved change is left.
\<close>

theorem page_saves_form:
  assumes "page_reachable num exp10 ps roles sources page" "wf_properties ps" "names_nonempty ps"
    and "validateProfilePropertyRoles (opened_schema ps) (copyProfilePropertyRoles roles) = Inr ()"
    and idle: "page_idle page" and target: "sp_target page = Some target" and form: "sp_form page = Some form"
    and checked: "submit_error exp10 (page_props (sp_editor page) target) form = None"
  shows "\<exists>k. target_key (sp_target (onSubmit num exp10 page)) = Some k \<and> (fst target = None \<or> fst target = Some k) \<and>
    saved_as (sp_editor (onSubmit num exp10 page)) k form \<and> \<not> has_unsaved_changes num (onSubmit num exp10 page)"
proof -
  have ok: "page_ok ps roles sources page" by (rule reachable_page_ok [OF assms(1-4)])
  obtain k p where saved: "sp_target (onSubmit num exp10 page) = Some (Some k, p)" "saved_as (sp_editor (onSubmit num exp10 page)) k form"
      "fst target = None \<or> fst target = Some k" and page: "page_ok ps roles sources (onSubmit num exp10 page)"
    using page_ok_submit [OF ok idle target form checked] by blast
  have "onSubmit num exp10 page = onSaveProperty num exp10 (fst target) form page"
    using target form checked by (simp add: onSubmit_def)
  moreover have "\<exists>t p. onSaveProperty num exp10 (fst target) form page = set_target num exp10 t p \<or>
      (\<exists>e. onSaveProperty num exp10 (fst target) form page = save_failed form e page)"
    by (auto simp: onSaveProperty_def split: option.split sum.split)
  ultimately consider t p where "onSubmit num exp10 page = set_target num exp10 t p" | e where "onSubmit num exp10 page = save_failed form e page"
    by metis
  then have "\<not> has_unsaved_changes num (onSubmit num exp10 page)"
  proof cases
    case 1
    then show ?thesis by (simp add: set_target_clean)
  next
    case 2
    then have "\<exists>t. sp_target page = Some t \<and> form_ok (editableSchema (sp_editor page)) (page_props (sp_editor page) t) (form\<lparr>pf_nameError := Some (SaveFailed e)\<rparr>)"
      using page target by (auto simp: page_ok_def panel_ok_def save_failed_def)
    then show ?thesis by (simp add: form_ok_def)
  qed
  with saved show ?thesis by (auto simp: target_key_def)
qed

text \<open>
  C9: In every reachable page the roles are valid: each one belongs to a property that exists and can have it, and a
  property has at most one. So the check that precedes the preview of the changes never raises its error, and the form
  never shows an error of the editor.
\<close>

theorem page_roles_valid:
  assumes "page_reachable num exp10 ps roles sources page" "wf_properties ps" "names_nonempty ps"
    and "validateProfilePropertyRoles (opened_schema ps) (copyProfilePropertyRoles roles) = Inr ()"
  shows "validateProfilePropertyRoles (editableSchema (sp_editor page)) (propertyRoles (sp_editor page)) = Inr () \<and>
    (\<forall>form e. sp_form page = Some form \<longrightarrow> pf_nameError form \<noteq> Some (SaveFailed e))"
proof -
  have ok: "page_ok ps roles sources page" by (rule reachable_page_ok [OF assms])
  have "pf_nameError form \<noteq> Some (SaveFailed e)" if "sp_form page = Some form" for form e
    using ok that by (auto simp: page_ok_def panel_ok_def form_ok_def split: option.splits)
  then show ?thesis using ok by (simp add: page_ok_def editor_ok_def)
qed

text \<open>
  C10: No sequence of actions changes the type of a property of the warehouse: in every reachable page a property that
  was not added in the editor has the type that the schema had for its key when the page was opened.
\<close>

theorem page_keeps_types:
  assumes "page_reachable num exp10 ps roles sources page" "wf_properties ps" "names_nonempty ps"
    and "validateProfilePropertyRoles (opened_schema ps) (copyProfilePropertyRoles roles) = Inr ()"
    and "obj_get (editableSchema (sp_editor page)) k = Some q" "\<not> ep_isEditable q"
  shows "\<exists>q0. obj_get (opened_schema ps) k = Some q0 \<and> ep_type q = ep_type q0"
  using reachable_page_ok [OF assms(1-4)] assms(5,6) unfolding page_ok_def editor_ok_def types_kept_def by blast

subsection \<open>A profile whose email is renamed\<close>

definition name_roles :: property_roles where
  "name_roles r = (if r = FirstName then js ''email'' else [])"

definition no_text :: "js_num \<Rightarrow> jsstr" where
  "no_text n = []"

abbreviation email_property :: editable_property where
  "email_property \<equiv> editableProperty (plain_property (js ''email'') string_kind) 0 (js ''email'')"

abbreviation opened_page :: schema_page where
  "opened_page \<equiv> open_page no_text id example_schema (Some name_roles) [] (Some (js ''email''))"

lemma example_email: "obj_get (opened_schema example_schema) (js ''email'') = Some email_property"
  by (simp add: opened_properties_def is_meta_property_def example_schema_simps js_simps obj_get_def)

lemma name_roles_valid: "validateProfilePropertyRoles (opened_schema example_schema) (copyProfilePropertyRoles (Some name_roles)) = Inr ()"
  unfolding validateProfilePropertyRoles_iff using example_email
  by (simp add: copyProfilePropertyRoles_def name_roles_def editableProperty_def plain_property_def
    isProfilePropertyRoleCompatible_def string_kind_def js_Cons)

abbreviation email_target :: edit_target where
  "email_target \<equiv> (Some (js ''email''), to_edit email_property)"

abbreviation email_props :: form_props where
  "email_props \<equiv> page_props (open_editor example_schema (Some name_roles) []) email_target"

abbreviation renamed_form :: property_form where
  "renamed_form \<equiv> form_handle no_text id email_props (InputName (js ''mail'')) (open_form no_text id email_props)"

lemma opened_page_fields:
  "sp_editor opened_page = open_editor example_schema (Some name_roles) []" "sp_target opened_page = Some email_target"
  "sp_form opened_page = Some (open_form no_text id email_props)" "sp_removing opened_page = None"
  using example_email by (simp_all add: open_page_def Let_def open_editor_fields(1) [OF example_schema_wf] set_target_def)

abbreviation renamed_page :: schema_page where
  "renamed_page \<equiv> opened_page\<lparr>sp_form := Some renamed_form\<rparr>"

lemma renamed_page_reachable: "page_reachable no_text id example_schema (Some name_roles) [] renamed_page"
proof -
  have "form_enabled email_props (open_form no_text id email_props) (InputName (js ''mail''))"
    by (simp add: form_modal_def open_form_def)
  moreover have "page_reachable no_text id example_schema (Some name_roles) [] opened_page" by (rule page_opened)
  ultimately show ?thesis
    using page_form [OF _ opened_page_fields(4,2,3), of no_text id example_schema "Some name_roles" "[]" "InputName (js ''mail'')"]
    by (simp add: opened_page_fields(1))
qed

lemma renamed_form_passes: "submit_error id email_props renamed_form = None"
proof -
  let ?s = "opened_schema example_schema"
  have ok: "editable_ok ?s" by (rule opened_ok [OF example_schema_wf example_schema_names])
  obtain parents where parents: "getPropertyParents (Some ?s) = Some parents" using parents_listed [OF ok] by blast
  have name: "validatePropertyName (js ''mail'') = Inr ()"
    by (simp add: validatePropertyName_def is_js_space_def is_digit_def is_letter_def is_word_char_def js_Cons)
  have plain: "getParentPropertyKey (js ''email'') = []" by (simp add: parent_plain js_Cons)
  have free: "\<not> name_taken ?s [] (js ''mail'')"
    using opened_profile_email(2) by (simp add: open_editor_fields(1) [OF example_schema_wf])
  have none: "getPropertyNameError (js ''mail'') [] (Some (js ''email'')) (Some parents) = None"
    using form_finds_name [OF ok parents, of "[]" "js ''mail''"] free name by (auto simp: getPropertyNameError_def)
  have form: "pe_name (pf_property renamed_form) = js ''mail''" "pe_type (pf_property renamed_form) = Some string_kind"
    by (simp_all add: onInputName_def update_property_def open_form_def page_props_def to_edit_def editableProperty_def plain_property_def)
  have props: "form_parent_key email_props renamed_form = []" "original_name email_props = Some (js ''email'')" "fp_parents email_props = Some parents"
    using parents
    by (simp_all add: form_parent_key_def original_name_def page_props_def plain to_edit_def editableProperty_def plain_property_def
      open_editor_fields(1) [OF example_schema_wf])
  have "form_name_error email_props (js ''mail'') [] = None" by (simp only: form_name_error_def props none option.map)
  then show ?thesis
    unfolding submit_error_def form props by (simp add: validatePropertyType_def string_kind_def Let_def length_invalid_def)
qed

theorem page_refines_editor_witness:
  "schema_editor_reachable False example_schema (Some name_roles) [] (sp_editor renamed_page)"
  using page_refines_editor [OF renamed_page_reachable example_schema_wf example_schema_names name_roles_valid] by blast

theorem page_saves_form_witness:
  "saved_as (sp_editor (onSubmit no_text id renamed_page)) (js ''email'') renamed_form"
proof -
  have "page_idle renamed_page"
    by (simp add: page_idle_def opened_page_fields(4) form_modal_def onInputName_def update_property_def open_form_def)
  moreover have "sp_target renamed_page = Some email_target" by (simp add: opened_page_fields(2))
  moreover have "sp_form renamed_page = Some renamed_form" by simp
  moreover have "submit_error id (page_props (sp_editor renamed_page) email_target) renamed_form = None"
  proof -
    have "sp_editor renamed_page = open_editor example_schema (Some name_roles) []" by (simp add: opened_page_fields(1))
    then show ?thesis by (simp only: renamed_form_passes)
  qed
  ultimately have "\<exists>k. target_key (sp_target (onSubmit no_text id renamed_page)) = Some k \<and> (fst email_target = None \<or> fst email_target = Some k) \<and>
      saved_as (sp_editor (onSubmit no_text id renamed_page)) k renamed_form \<and> \<not> has_unsaved_changes no_text (onSubmit no_text id renamed_page)"
    by (rule page_saves_form [OF renamed_page_reachable example_schema_wf example_schema_names name_roles_valid])
  then obtain k where "saved_as (sp_editor (onSubmit no_text id renamed_page)) k renamed_form" "k = js ''email''"
    by (elim exE conjE disjE) (simp, metis fst_conv option.inject)
  then show ?thesis by metis
qed

theorem page_roles_valid_witness:
  "validateProfilePropertyRoles (editableSchema (sp_editor renamed_page)) (propertyRoles (sp_editor renamed_page)) = Inr ()"
  using page_roles_valid [OF renamed_page_reachable example_schema_wf example_schema_names name_roles_valid] by blast

theorem page_keeps_types_witness:
  "\<exists>q0. obj_get (opened_schema example_schema) (js ''email'') = Some q0 \<and> string_kind = ep_type q0"
proof -
  have "obj_get (editableSchema (sp_editor renamed_page)) (js ''email'') = Some email_property" "\<not> ep_isEditable email_property"
    "ep_type email_property = string_kind"
    using example_email by (simp_all add: opened_page_fields(1) open_editor_fields(1) [OF example_schema_wf] editableProperty_def plain_property_def)
  then show ?thesis
    using page_keeps_types [OF renamed_page_reachable example_schema_wf example_schema_names name_roles_valid] by metis
qed

end
