(* ===== verification/Applied_Changes.thy ===== *)
theory Applied_Changes
  imports Schema_Editor_View
begin

section \<open>The request that applies the changes (useSchemaEdit.tsx)\<close>

text \<open>
  In the editor roles and primary sources are kept by the key of the property; the request has them by the path of the
  property, the names of the property and of the objects it is in. In every state of the editor the request can be built, and
  its paths are those of properties of the schema it sends.
\<close>

subsection \<open>The primary sources are an object\<close>

lemma distinct_set: "distinct (obj_keys m) \<Longrightarrow> distinct (obj_keys (obj_set m k v))"
  by (simp add: obj_keys_set)

lemma distinct_delete: "distinct (obj_keys m) \<Longrightarrow> distinct (obj_keys (obj_delete m k))"
  unfolding obj_delete_def obj_keys_def by (simp add: distinct_map_filter)

lemma distinct_deletes: "distinct (obj_keys m) \<Longrightarrow> distinct (obj_keys (foldl obj_delete m ks))"
  by (induction ks arbitrary: m) (simp_all add: distinct_delete)

lemma distinct_set_source: "distinct (obj_keys m) \<Longrightarrow> distinct (obj_keys (set_source source k m))"
  by (simp add: set_source_def distinct_set split: option.split)

lemma distinct_drop_source: "distinct (obj_keys m) \<Longrightarrow> distinct (obj_keys (drop_source k m))"
  by (simp add: drop_source_def distinct_delete split: option.split)

lemma distinct_drop_sources: "distinct (obj_keys m) \<Longrightarrow> distinct (obj_keys (foldl (\<lambda>m d. drop_source d m) m ks))"
  by (induction ks arbitrary: m) (simp_all add: distinct_drop_source)

lemma reachable_sources_distinct:
  assumes "schema_editor_reachable careful ps roles sources st" "distinct (obj_keys sources)"
  shows "distinct (obj_keys (primarySources st))"
  using assms
proof (induction rule: schema_editor_reachable.induct)
  case opened
  then show ?case by (simp add: open_editor_def)
next
  case (added st p source role selected st' k)
  then show ?case by (auto simp: onAddProperty_def Let_def distinct_set_source split: if_splits option.splits)
next
  case (edited st k p un source role st')
  then show ?case
    by (auto simp: onEditProperty_def Let_def distinct_deletes distinct_drop_source distinct_set_source split: if_splits option.splits)
next
  case (removed st k isFiltered st' "next")
  then show ?case
    by (auto simp: onRemoveProperty_def Let_def distinct_drop_sources distinct_drop_source split: if_splits option.splits)
next
  case (sorted st overRow moved)
  then show ?case by (simp add: onSortRow_def Let_def split: option.split)
qed

subsection \<open>Paths\<close>

lemma key_path:
  assumes "editable_ok s" "obj_get s k \<noteq> None"
  shows "getEditablePropertyPath s k = Some (path_of (property_names s k))"
  using names_of_key(1) [OF assms(1)] assms(2) by (auto simp: getEditablePropertyPath_def)

lemma role_paths_built:
  assumes "\<And>r. r \<in> set roles \<Longrightarrow> paths r \<noteq> [] \<Longrightarrow> getEditablePropertyPath s (paths r) = Some (f (paths r))" "distinct roles"
  shows "role_paths s paths roles = Some (\<lambda>r. if r \<in> set roles \<and> paths r \<noteq> [] then f (paths r) else paths r)"
  using assms
proof (induction roles arbitrary: paths)
  case (Cons role roles)
  show ?case
  proof (cases "paths role = []")
    case True
    then show ?thesis using Cons by (auto simp: fun_eq_iff)
  next
    case False
    have "role_paths s (paths(role := f (paths role))) roles =
        Some (\<lambda>r. if r \<in> set roles \<and> (paths(role := f (paths role))) r \<noteq> [] then f ((paths(role := f (paths role))) r) else (paths(role := f (paths role))) r)"
      using Cons.prems by (intro Cons.IH) (auto split: if_splits)
    moreover have "getEditablePropertyPath s (paths role) = Some (f (paths role))" using Cons.prems(1) False by simp
    ultimately show ?thesis using Cons.prems(2) False by (auto simp: fun_eq_iff)
  qed
qed simp

lemma source_paths_built:
  assumes "\<And>k. k \<in> set (obj_keys entries) \<Longrightarrow> getEditablePropertyPath s k = Some (f k)"
    and "inj_on f (set (obj_keys entries))" "distinct (obj_keys entries)" "\<And>k. k \<in> set (obj_keys entries) \<Longrightarrow> f k \<notin> set (obj_keys sources)"
  shows "source_paths s entries sources = Some (sources @ map (\<lambda>(k, v). (f k, v)) entries)"
  using assms
proof (induction entries arbitrary: sources)
  case (Cons e entries)
  obtain k v where e: "e = (k, v)" by (cases e)
  have new: "f k \<notin> set (obj_keys sources)" using Cons.prems(4) by (simp add: e)
  have "source_paths s entries (sources @ [(f k, v)]) = Some ((sources @ [(f k, v)]) @ map (\<lambda>(k, v). (f k, v)) entries)"
  proof (rule Cons.IH)
    fix x assume x: "x \<in> set (obj_keys entries)"
    then have "f x \<noteq> f k" using Cons.prems(2,3) by (auto simp: e inj_on_def)
    then show "f x \<notin> set (obj_keys (sources @ [(f k, v)]))" using Cons.prems(4) x by (simp add: e)
  qed (use Cons.prems in \<open>simp_all add: e\<close>)
  then show ?case using Cons.prems(1) [of k] by (simp add: e obj_set_new [OF new])
qed simp

lemma renamed_entries:
  assumes "inj_on f (insert k (set (obj_keys m)))"
  shows "obj_get (map (\<lambda>(k, v). (f k, v)) m) (f k) = obj_get m k"
  using assms by (induction m) (auto simp: inj_on_def)

lemma renamed_keys: "obj_keys (map (\<lambda>(k, v). (f k, v)) m) = map f (obj_keys m)"
  by (induction m) auto

text \<open>
  C8: In every state of the schema editor the request that applies the changes can be built. It sends the schema of the editor
  and its re-paths; the property of each role, and each property with a primary source, is referred to by the path of its names,
  which is the path of a property of the schema that is sent; the request has the same roles and the same primary sources as the
  editor, and no others.
\<close>

theorem confirm_request_built:
  assumes "schema_editor_reachable careful ps roles sources st" "wf_properties ps" "names_nonempty ps"
    and "references_ok (open_editor ps roles sources)" "distinct (obj_keys sources)"
  defines "path k \<equiv> path_of (property_names (editableSchema st) k)"
  shows "\<exists>req. confirm_request st = Some req \<and> normalizeSchema (editableSchema st) = Some (ar_schema req) \<and> ar_rePaths req = rePaths st \<and>
    (\<forall>r. ar_propertyRoles req r = (if propertyRoles st r = [] then [] else path (propertyRoles st r))) \<and>
    (\<forall>k. obj_get (primarySources st) k \<noteq> None \<longrightarrow> obj_get (ar_primarySources req) (path k) = obj_get (primarySources st) k) \<and>
    (\<forall>x. obj_get (ar_primarySources req) x \<noteq> None \<longrightarrow> (\<exists>k. obj_get (primarySources st) k \<noteq> None \<and> x = path k)) \<and>
    (\<forall>k. k \<in> range (propertyRoles st) - {[]} \<union> set (obj_keys (primarySources st)) \<longrightarrow>
      lookup_path (ar_schema req) (property_names (editableSchema st) k) \<noteq> None)"
proof -
  let ?s = "editableSchema st" and ?m = "primarySources st"
  note reach = assms(1-3)
  have ok: "editable_ok ?s" by (rule reachable_editable_ok [OF reach])
  have refs: "references_ok st" by (rule reachable_references [OF reach assms(4)])
  obtain qs where qs: "normalizeSchema ?s = Some qs" "wf_properties qs"
    and names: "bij_betw (property_names ?s) (set (obj_keys ?s)) {ns. lookup_path qs ns \<noteq> None}"
    using reachable_normalized [OF reach] by blast
  have found: "lookup_path qs (property_names ?s k) \<noteq> None" if "obj_get ?s k \<noteq> None" for k
    using names that by (auto simp: bij_betw_def in_obj_keys)
  have inj: "inj_on path (set (obj_keys ?s))"
  proof (rule inj_onI)
    fix a b assume ab: "a \<in> set (obj_keys ?s)" "b \<in> set (obj_keys ?s)" "path a = path b"
    then have "no_dots (property_names ?s x) \<and> property_names ?s x \<noteq> []" if "x = a \<or> x = b" for x
      using that found lookup_path_names [OF _ qs(2)] by (auto simp: in_obj_keys)
    then have "property_names ?s a = property_names ?s b" using ab(3) path_of_inj unfolding path_def by blast
    then show "a = b" using names ab(1,2) by (auto simp: bij_betw_def inj_on_def)
  qed
  have keys: "set (obj_keys ?m) \<subseteq> set (obj_keys ?s)" using refs by (auto simp: references_ok_def in_obj_keys)
  have at_key: "getEditablePropertyPath ?s k = Some (path k)" if "k \<in> set (obj_keys ?s)" for k
    unfolding path_def using key_path [OF ok] that by (simp add: in_obj_keys)
  have role: "propertyRoles st r \<in> set (obj_keys ?s)" if "propertyRoles st r \<noteq> []" for r
    using refs that by (simp add: references_ok_def in_obj_keys)
  have "source_paths ?s ?m [] = Some ([] @ map (\<lambda>(k, v). (path k, v)) ?m)"
    by (rule source_paths_built)
      (use at_key keys inj_on_subset [OF inj keys] reachable_sources_distinct [OF reach(1) assms(5)] in auto)
  moreover have "getPropertyRolePaths ?s (propertyRoles st) =
      Some (\<lambda>r. if r \<in> set PROFILE_PROPERTY_ROLES \<and> propertyRoles st r \<noteq> [] then path (propertyRoles st r) else propertyRoles st r)"
    unfolding getPropertyRolePaths_def copyProfilePropertyRoles_def option.case
    by (rule role_paths_built) (use at_key role distinct_roles in auto)
  ultimately have req: "confirm_request st = Some \<lparr>ar_schema = qs,
      ar_propertyRoles = (\<lambda>r. if propertyRoles st r \<noteq> [] then path (propertyRoles st r) else propertyRoles st r),
      ar_primarySources = map (\<lambda>(k, v). (path k, v)) ?m, ar_rePaths = rePaths st\<rparr>"
    unfolding confirm_request_def by (simp add: qs(1))
  have "obj_get (map (\<lambda>(k, v). (path k, v)) ?m) (path k) = obj_get ?m k" if "obj_get ?m k \<noteq> None" for k
    by (rule renamed_entries) (rule inj_on_subset [OF inj], use keys that in \<open>auto simp: in_obj_keys [symmetric] simp del: not_None_eq\<close>)
  moreover have "\<exists>k. obj_get ?m k \<noteq> None \<and> x = path k" if "obj_get (map (\<lambda>(k, v). (path k, v)) ?m) x \<noteq> None" for x
    using that unfolding in_obj_keys [symmetric] renamed_keys by auto
  moreover have "lookup_path qs (property_names ?s k) \<noteq> None" if "k \<in> range (propertyRoles st) - {[]} \<union> set (obj_keys ?m)" for k
    by (rule found) (use that role keys in \<open>auto simp: in_obj_keys [symmetric] simp del: not_None_eq\<close>)
  ultimately show ?thesis unfolding req by (auto simp: qs(1))
qed

theorem confirm_request_built_witness:
  "\<exists>req. confirm_request opened_profile = Some req \<and> ar_propertyRoles req EmailRole = js ''email'' \<and>
    obj_get (ar_primarySources req) (js ''email'') = Some (js ''7'')"
proof -
  have reach: "schema_editor_reachable True example_schema (Some profile_roles) [(js ''email'', js ''7'')] opened_profile" by (rule opened)
  have names: "property_names (editableSchema opened_profile) (js ''email'') = [js ''email'']"
    using names_of_key(2) [OF reachable_editable_ok [OF reach example_schema_wf example_schema_names] opened_profile_email(1)]
    by (simp add: editableProperty_def plain_property_def js_Cons)
  have here: "propertyRoles opened_profile EmailRole = js ''email''" "obj_get (primarySources opened_profile) (js ''email'') = Some (js ''7'')"
    by (simp_all add: open_editor_fields copyProfilePropertyRoles_def profile_roles_def)
  obtain req where req: "confirm_request opened_profile = Some req"
    "\<forall>r. ar_propertyRoles req r = (if propertyRoles opened_profile r = [] then []
       else path_of (property_names (editableSchema opened_profile) (propertyRoles opened_profile r)))"
    "\<forall>k. obj_get (primarySources opened_profile) k \<noteq> None \<longrightarrow>
       obj_get (ar_primarySources req) (path_of (property_names (editableSchema opened_profile) k)) = obj_get (primarySources opened_profile) k"
    using confirm_request_built [OF reach example_schema_wf example_schema_names references_opened] by auto
  have "path_of (property_names (editableSchema opened_profile) (js ''email'')) = js ''email''" unfolding names by simp
  then have "ar_propertyRoles req EmailRole = js ''email''" "obj_get (ar_primarySources req) (js ''email'') = Some (js ''7'')"
    using spec [OF req(2), of EmailRole] spec [OF req(3), of "js ''email''"] unfolding here by (simp_all add: js_Cons)
  with req(1) show ?thesis by blast
qed

end
