(* ===== verification/Schema_Review.thy ===== *)
theory Schema_Review
  imports Schema_Editor_View
begin

section \<open>Reviewing and applying the changes (useSchemaEdit.tsx)\<close>

text \<open>
  The user asks for a review; the server answers with the queries of the change, which a modal dialog shows; then the
  user applies the change or cancels. Answers come at any time, and are shown 300 milliseconds later, so an answer can be of a
  review that was cancelled: each review has a number. A request that is in flight is not sent again. \<open>request_key\<close> is
  \<open>JSON.stringify\<close>.

  A promise is the place of its request in \<open>rv_requests\<close>; \<open>rv_settled\<close> has the answers, \<open>rv_waiting\<close> the
  calls of \<open>onApplyChanges\<close> that wait for one, with their numbers, and \<open>rv_timers\<close> the timers that are set.
  \<open>rv_altered\<close> records the changes that were sent, with the queries that were shown.
\<close>

datatype review_timer = ShowQueries nat "jsstr list" | PreviewFailed nat | ConfirmFailed | ConfirmDone

record review =
  rv_editor :: schema_editor
  rv_queries :: "jsstr list option"
  rv_loading :: bool
  rv_confirming :: bool
  rv_outdated :: bool
  rv_sequence :: nat
  rv_inFlight :: "(jsstr \<times> nat) option"
  rv_requests :: "preview_request list"
  rv_settled :: "(nat \<times> jsstr list option) list"
  rv_waiting :: "(nat \<times> nat) list"
  rv_timers :: "review_timer list"
  rv_altered :: "(alter_request \<times> jsstr list) list"

text \<open>\<open>isReviewDialogOpen\<close>\<close>

definition review_open :: "review \<Rightarrow> bool" where
  "review_open rv \<longleftrightarrow> rv_loading rv \<or> rv_queries rv \<noteq> None"

definition requestSchemaPreview :: "preview_request \<Rightarrow> review \<Rightarrow> review \<times> nat" where
  "requestSchemaPreview request rv =
     (let promise = length (rv_requests rv);
          sent = rv\<lparr>rv_requests := rv_requests rv @ [request], rv_inFlight := Some (pr_key request, promise)\<rparr>
      in case rv_inFlight rv of
           Some (k, p) \<Rightarrow> if k = pr_key request then (rv, p) else (sent, promise)
         | None \<Rightarrow> (sent, promise))"

definition onApplyChanges ::
    "(schema_type \<Rightarrow> jsstr) \<Rightarrow> (property_roles \<Rightarrow> property list \<Rightarrow> jsstr option obj \<Rightarrow> jsstr) \<Rightarrow> editable_schema option \<Rightarrow> review \<Rightarrow> review" where
  "onApplyChanges stringify request_key initial rv =
     (if rv_outdated rv then rv
      else let requestSequence = rv_sequence rv + 1;
               st = rv_editor rv;
               rv = rv\<lparr>rv_sequence := requestSequence\<rparr>
           in case buildSchemaPreviewRequest stringify request_key (editableSchema st) initial (propertyRoles st) (rePaths st) of
                Inl _ \<Rightarrow> rv
              | Inr request \<Rightarrow>
                  (case requestSchemaPreview request (rv\<lparr>rv_loading := True\<rparr>) of
                     (rv, promise) \<Rightarrow> rv\<lparr>rv_waiting := rv_waiting rv @ [(requestSequence, promise)]\<rparr>))"

text \<open>A request is answered, with queries or with an error: the calls that wait for it go on.\<close>

definition resumed :: "nat \<Rightarrow> nat \<Rightarrow> jsstr list option \<Rightarrow> nat \<times> nat \<Rightarrow> review_timer list" where
  "resumed sequence promise outcome call =
     (case call of (requestSequence, p) \<Rightarrow>
        if p \<noteq> promise then []
        else (case outcome of
                Some queries \<Rightarrow> [ShowQueries requestSequence queries]
              | None \<Rightarrow> if requestSequence \<noteq> sequence then [] else [PreviewFailed requestSequence]))"

definition settle_preview :: "nat \<Rightarrow> jsstr list option \<Rightarrow> review \<Rightarrow> review" where
  "settle_preview promise outcome rv =
     rv\<lparr>rv_settled := (promise, outcome) # rv_settled rv,
        rv_inFlight := (if map_option snd (rv_inFlight rv) = Some promise then None else rv_inFlight rv),
        rv_waiting := filter (\<lambda>(_, p). p \<noteq> promise) (rv_waiting rv),
        rv_timers := rv_timers rv @ concat (map (resumed (rv_sequence rv) promise outcome) (rv_waiting rv))\<rparr>"

fun run_timer :: "review_timer \<Rightarrow> review \<Rightarrow> review" where
  "run_timer (ShowQueries requestSequence queries) rv =
     (if requestSequence \<noteq> rv_sequence rv then rv else rv\<lparr>rv_queries := Some queries, rv_loading := False\<rparr>)"
| "run_timer (PreviewFailed requestSequence) rv =
     (if requestSequence \<noteq> rv_sequence rv then rv else rv\<lparr>rv_queries := None, rv_loading := False\<rparr>)"
| "run_timer ConfirmFailed rv = rv\<lparr>rv_queries := None, rv_confirming := False\<rparr>"
| "run_timer ConfirmDone rv = rv\<lparr>rv_queries := None, rv_confirming := False, rv_outdated := True\<rparr>"

definition onConfirmChanges :: "review \<Rightarrow> review" where
  "onConfirmChanges rv =
     (if rv_outdated rv then rv
      else (case confirm_request (rv_editor rv) of
              None \<Rightarrow> rv
            | Some request \<Rightarrow>
                rv\<lparr>rv_confirming := True,
                   rv_altered := (request, case rv_queries rv of None \<Rightarrow> [] | Some queries \<Rightarrow> queries) # rv_altered rv\<rparr>))"

definition settle_alter :: "bool \<Rightarrow> review \<Rightarrow> review" where
  "settle_alter succeeded rv = rv\<lparr>rv_timers := rv_timers rv @ [if succeeded then ConfirmDone else ConfirmFailed]\<rparr>"

definition onCancelChanges :: "review \<Rightarrow> review" where
  "onCancelChanges rv = rv\<lparr>rv_sequence := rv_sequence rv + 1, rv_queries := None, rv_loading := False\<rparr>"

text \<open>The user asks to close the dialog.\<close>

definition onReviewDialogRequestClose :: "review \<Rightarrow> review" where
  "onReviewDialogRequestClose rv = (if \<not> review_open rv \<or> rv_confirming rv then rv else onCancelChanges rv)"

text \<open>The effect that closes the dialog when the schema is altered by someone else.\<close>

definition outdated_effect :: "review \<Rightarrow> review" where
  "outdated_effect rv =
     (if \<not> rv_outdated rv \<or> rv_confirming rv then rv
      else rv\<lparr>rv_sequence := rv_sequence rv + 1, rv_queries := None, rv_loading := False\<rparr>)"

definition open_review :: "schema_editor \<Rightarrow> review" where
  "open_review st =
     \<lparr>rv_editor = st, rv_queries = None, rv_loading = False, rv_confirming = False, rv_outdated = False, rv_sequence = 0,
      rv_inFlight = None, rv_requests = [], rv_settled = [], rv_waiting = [], rv_timers = [], rv_altered = []\<rparr>"

subsection \<open>The states of the review\<close>

text \<open>
  The editor changes only while no dialog is shown, to another of its states (\<open>editors\<close>). Answers and timers come in any order.
\<close>

inductive review_reachable ::
    "(schema_type \<Rightarrow> jsstr) \<Rightarrow> (property_roles \<Rightarrow> property list \<Rightarrow> jsstr option obj \<Rightarrow> jsstr) \<Rightarrow> editable_schema option \<Rightarrow>
      (schema_editor \<Rightarrow> bool) \<Rightarrow> review \<Rightarrow> bool"
  for stringify :: "schema_type \<Rightarrow> jsstr" and request_key :: "property_roles \<Rightarrow> property list \<Rightarrow> jsstr option obj \<Rightarrow> jsstr"
    and initial :: "editable_schema option" and editors :: "schema_editor \<Rightarrow> bool" where
  review_opened: "editors st \<Longrightarrow> review_reachable stringify request_key initial editors (open_review st)"
| review_edited: "review_reachable stringify request_key initial editors rv \<Longrightarrow> \<not> review_open rv \<Longrightarrow> editors st \<Longrightarrow>
    review_reachable stringify request_key initial editors (rv\<lparr>rv_editor := st\<rparr>)"
| review_asked: "review_reachable stringify request_key initial editors rv \<Longrightarrow> \<not> review_open rv \<Longrightarrow>
    review_reachable stringify request_key initial editors (onApplyChanges stringify request_key initial rv)"
| review_answered: "review_reachable stringify request_key initial editors rv \<Longrightarrow> promise < length (rv_requests rv) \<Longrightarrow>
    promise \<notin> fst ` set (rv_settled rv) \<Longrightarrow>
    review_reachable stringify request_key initial editors (settle_preview promise outcome rv)"
| review_timer: "review_reachable stringify request_key initial editors rv \<Longrightarrow> rv_timers rv = before @ timer # after \<Longrightarrow>
    review_reachable stringify request_key initial editors (run_timer timer (rv\<lparr>rv_timers := before @ after\<rparr>))"
| review_confirmed: "review_reachable stringify request_key initial editors rv \<Longrightarrow> \<not> rv_loading rv \<Longrightarrow> rv_queries rv \<noteq> None \<Longrightarrow>
    \<not> rv_confirming rv \<Longrightarrow> review_reachable stringify request_key initial editors (onConfirmChanges rv)"
| review_altered: "review_reachable stringify request_key initial editors rv \<Longrightarrow> rv_confirming rv \<Longrightarrow>
    review_reachable stringify request_key initial editors (settle_alter succeeded rv)"
| review_cancelled: "review_reachable stringify request_key initial editors rv \<Longrightarrow>
    review_reachable stringify request_key initial editors (onCancelChanges rv)"
| review_closed: "review_reachable stringify request_key initial editors rv \<Longrightarrow>
    review_reachable stringify request_key initial editors (onReviewDialogRequestClose rv)"
| review_outdated: "review_reachable stringify request_key initial editors rv \<Longrightarrow>
    review_reachable stringify request_key initial editors (rv\<lparr>rv_outdated := outdated\<rparr>)"
| review_effect: "review_reachable stringify request_key initial editors rv \<Longrightarrow>
    review_reachable stringify request_key initial editors (outdated_effect rv)"

end
