(* ===== verification/Review_Invariant.thy ===== *)
theory Review_Invariant
  imports Schema_Review
begin

section \<open>The invariant of a review\<close>

text \<open>
  What is shown is the answer for the schema in the editor, although answers come late and one request can serve two
  reviews. \<open>faithful_key\<close> is what the code relies on in \<open>JSON.stringify\<close>.
\<close>

subsection \<open>The invariant\<close>

text \<open>The request is that of the schema in the editor.\<close>

definition request_of :: "preview_request \<Rightarrow> schema_editor \<Rightarrow> bool" where
  "request_of request st \<longleftrightarrow> normalizeSchema (editableSchema st) = Some (pr_schema request) \<and> pr_rePaths request = rePaths st"

text \<open>The request, with its key, that is built in a state.\<close>

definition built_for :: "(property_roles \<Rightarrow> property list \<Rightarrow> jsstr option obj \<Rightarrow> jsstr) \<Rightarrow> preview_request \<Rightarrow> schema_editor \<Rightarrow> bool" where
  "built_for request_key request st \<longleftrightarrow>
     request_of request st \<and> pr_key request = request_key (propertyRoles st) (pr_schema request) (pr_rePaths request)"

definition answered_for :: "review \<Rightarrow> jsstr list \<Rightarrow> schema_editor \<Rightarrow> bool" where
  "answered_for rv queries st \<longleftrightarrow>
     (\<exists>p < length (rv_requests rv). (p, Some queries) \<in> set (rv_settled rv) \<and> request_of (rv_requests rv ! p) st)"

fun timer_sequence :: "review_timer \<Rightarrow> nat option" where
  "timer_sequence (ShowQueries s _) = Some s"
| "timer_sequence (PreviewFailed s) = Some s"
| "timer_sequence _ = None"

text \<open>What is pending of the review with a number.\<close>

definition pending :: "nat \<Rightarrow> review \<Rightarrow> nat" where
  "pending s rv = length (filter (\<lambda>c. fst c = s) (rv_waiting rv)) + length (filter (\<lambda>t. timer_sequence t = Some s) (rv_timers rv))"

definition review_ok ::
    "(property_roles \<Rightarrow> property list \<Rightarrow> jsstr option obj \<Rightarrow> jsstr) \<Rightarrow> (schema_editor \<Rightarrow> bool) \<Rightarrow> review \<Rightarrow> bool" where
  "review_ok request_key editors rv \<longleftrightarrow>
     editors (rv_editor rv) \<and>
     (\<forall>s. rv_sequence rv < s \<longrightarrow> pending s rv = 0) \<and>
     pending (rv_sequence rv) rv = (if rv_loading rv then 1 else 0) \<and>
     (\<forall>s p. (s, p) \<in> set (rv_waiting rv) \<longrightarrow> p < length (rv_requests rv) \<and> p \<notin> fst ` set (rv_settled rv) \<and>
        (s = rv_sequence rv \<longrightarrow> request_of (rv_requests rv ! p) (rv_editor rv))) \<and>
     (\<forall>qs. ShowQueries (rv_sequence rv) qs \<in> set (rv_timers rv) \<longrightarrow> answered_for rv qs (rv_editor rv)) \<and>
     (\<forall>qs. rv_queries rv = Some qs \<longrightarrow> answered_for rv qs (rv_editor rv)) \<and>
     (\<forall>k p. rv_inFlight rv = Some (k, p) \<longrightarrow> p < length (rv_requests rv) \<and> p \<notin> fst ` set (rv_settled rv) \<and> pr_key (rv_requests rv ! p) = k) \<and>
     (\<forall>r \<in> set (rv_requests rv). \<exists>st. editors st \<and> built_for request_key r st) \<and>
     (\<forall>(req, qs) \<in> set (rv_altered rv). \<exists>p < length (rv_requests rv). (p, Some qs) \<in> set (rv_settled rv) \<and>
        pr_schema (rv_requests rv ! p) = ar_schema req \<and> pr_rePaths (rv_requests rv ! p) = ar_rePaths req) \<and>
     (\<forall>(p, outcome) \<in> set (rv_settled rv). p < length (rv_requests rv))"

lemma resumed_count:
  "length (filter (\<lambda>c. fst c = s) ws) =
    length (filter (\<lambda>c. fst c = s) (filter (\<lambda>(_, p). p \<noteq> promise) ws)) +
    length (filter (\<lambda>t. timer_sequence t = Some s) (concat (map (resumed s promise outcome) ws)))"
  by (induction ws) (auto simp: resumed_def split: option.split)

lemma resumed_bound:
  "length (filter (\<lambda>t. timer_sequence t = Some s) (concat (map (resumed n promise outcome) ws))) +
   length (filter (\<lambda>c. fst c = s) (filter (\<lambda>(_, p). p \<noteq> promise) ws)) \<le> length (filter (\<lambda>c. fst c = s) ws)"
  by (induction ws) (auto simp: resumed_def split: option.split)

lemma pending_settle:
  "pending (rv_sequence rv) (settle_preview promise outcome rv) = pending (rv_sequence rv) rv"
  "pending s (settle_preview promise outcome rv) \<le> pending s rv"
  using resumed_count [of "rv_sequence rv" "rv_waiting rv" promise outcome]
    resumed_bound [of s "rv_sequence rv" promise outcome "rv_waiting rv"]
  by (simp_all add: pending_def settle_preview_def)

lemma pending_timer:
  "rv_timers rv = before @ timer # after \<Longrightarrow>
     pending s rv = pending s (rv\<lparr>rv_timers := before @ after\<rparr>) + (if timer_sequence timer = Some s then 1 else 0)"
  by (simp add: pending_def)

lemma pending_none: "pending s rv = 0 \<longleftrightarrow> (\<forall>c \<in> set (rv_waiting rv). fst c \<noteq> s) \<and> (\<forall>t \<in> set (rv_timers rv). timer_sequence t \<noteq> Some s)"
  by (auto simp: pending_def filter_empty_conv)

lemma pending_same:
  "rv_waiting rv' = rv_waiting rv \<Longrightarrow> rv_timers rv' = rv_timers rv \<Longrightarrow> pending s rv' = pending s rv"
  by (simp add: pending_def)

text \<open>What keeps an answer.\<close>

lemma answered_mono:
  assumes "answered_for rv qs st" "\<exists>more. rv_requests rv' = rv_requests rv @ more" "set (rv_settled rv) \<subseteq> set (rv_settled rv')"
  shows "answered_for rv' qs st"
proof -
  obtain p more where "p < length (rv_requests rv)" "(p, Some qs) \<in> set (rv_settled rv)" "request_of (rv_requests rv ! p) st"
    "rv_requests rv' = rv_requests rv @ more"
    using assms(1,2) by (auto simp: answered_for_def)
  then show ?thesis using assms(3) unfolding answered_for_def by (intro exI [of _ p]) (auto simp: nth_append)
qed

lemma answered_same:
  "rv_requests rv' = rv_requests rv \<Longrightarrow> rv_settled rv' = rv_settled rv \<Longrightarrow> answered_for rv' qs st = answered_for rv qs st"
  by (simp add: answered_for_def)

text \<open>A step that moves to the next number leaves nothing pending.\<close>

lemma review_ok_next:
  assumes ok: "review_ok request_key editors rv"
    and same: "rv' = rv\<lparr>rv_sequence := rv_sequence rv + 1, rv_queries := None, rv_loading := False\<rparr>"
  shows "review_ok request_key editors rv'"
proof -
  have p: "pending s rv' = pending s rv" for s by (rule pending_same) (simp_all add: same)
  have none: "pending (rv_sequence rv + 1) rv = 0" using ok by (simp add: review_ok_def)
  then have "\<forall>c \<in> set (rv_waiting rv). fst c \<noteq> rv_sequence rv + 1" "\<forall>t \<in> set (rv_timers rv). timer_sequence t \<noteq> Some (rv_sequence rv + 1)"
    unfolding pending_none by blast+
  then show ?thesis using ok none unfolding review_ok_def p by (auto simp: same)
qed

lemma review_ok_edited:
  assumes ok: "review_ok request_key editors rv" and closed: "\<not> review_open rv" and st: "editors st"
  shows "review_ok request_key editors (rv\<lparr>rv_editor := st\<rparr>)"
proof -
  have p: "pending s (rv\<lparr>rv_editor := st\<rparr>) = pending s rv" for s by (rule pending_same) simp_all
  have "pending (rv_sequence rv) rv = 0" "rv_queries rv = None" "\<not> rv_loading rv"
    using ok closed by (simp_all add: review_ok_def review_open_def)
  moreover from this have "\<forall>c \<in> set (rv_waiting rv). fst c \<noteq> rv_sequence rv" "\<forall>t \<in> set (rv_timers rv). timer_sequence t \<noteq> Some (rv_sequence rv)"
    unfolding pending_none by blast+
  ultimately show ?thesis using ok st unfolding review_ok_def p by (auto simp: answered_for_def)
qed

lemma review_ok_answered:
  assumes ok: "review_ok request_key editors rv" and p: "promise < length (rv_requests rv)" "promise \<notin> fst ` set (rv_settled rv)"
  shows "review_ok request_key editors (settle_preview promise outcome rv)"
proof -
  let ?rv = "settle_preview promise outcome rv"
  have fields: "rv_sequence ?rv = rv_sequence rv" "rv_loading ?rv = rv_loading rv" "rv_queries ?rv = rv_queries rv"
    "rv_requests ?rv = rv_requests rv" "rv_settled ?rv = (promise, outcome) # rv_settled rv" "rv_editor ?rv = rv_editor rv"
    "rv_altered ?rv = rv_altered rv" "rv_waiting ?rv = filter (\<lambda>(_, p). p \<noteq> promise) (rv_waiting rv)"
    "rv_inFlight ?rv = (if map_option snd (rv_inFlight rv) = Some promise then None else rv_inFlight rv)"
    "rv_timers ?rv = rv_timers rv @ concat (map (resumed (rv_sequence rv) promise outcome) (rv_waiting rv))"
    by (simp_all add: settle_preview_def)
  have mono: "answered_for rv qs st \<Longrightarrow> answered_for ?rv qs st" for qs st
    by (rule answered_mono) (auto simp: fields)
  have waited: "answered_for ?rv qs (rv_editor rv)"
    if "ShowQueries (rv_sequence rv) qs \<in> set (concat (map (resumed (rv_sequence rv) promise outcome) (rv_waiting rv)))" for qs
  proof -
    have "outcome = Some qs" "(rv_sequence rv, promise) \<in> set (rv_waiting rv)"
      using that by (auto simp: resumed_def split: if_splits option.splits)
    moreover from this(2) have "request_of (rv_requests rv ! promise) (rv_editor rv)" using ok by (simp add: review_ok_def)
    ultimately show ?thesis using p(1) unfolding answered_for_def fields by auto
  qed
  have "pending s ?rv = 0" if "rv_sequence rv < s" for s
    using ok that pending_settle(2) [where s = s and rv = rv and promise = promise and outcome = outcome] by (simp add: review_ok_def)
  moreover have "\<forall>qs. ShowQueries (rv_sequence rv) qs \<in> set (rv_timers ?rv) \<longrightarrow> answered_for ?rv qs (rv_editor rv)"
    using ok mono waited by (auto simp: review_ok_def fields)
  moreover have "\<forall>qs. rv_queries rv = Some qs \<longrightarrow> answered_for ?rv qs (rv_editor rv)"
    using ok mono by (auto simp: review_ok_def)
  moreover have "pending (rv_sequence rv) ?rv = (if rv_loading rv then 1 else 0)"
    using ok pending_settle(1) [where rv = rv and promise = promise and outcome = outcome] by (simp add: review_ok_def)
  moreover have "\<forall>s q. (s, q) \<in> set (rv_waiting ?rv) \<longrightarrow> q < length (rv_requests rv) \<and> q \<notin> fst ` set (rv_settled ?rv) \<and>
      (s = rv_sequence rv \<longrightarrow> request_of (rv_requests rv ! q) (rv_editor rv))"
  proof -
    have "\<forall>s q. (s, q) \<in> set (rv_waiting rv) \<longrightarrow> q < length (rv_requests rv) \<and> q \<notin> fst ` set (rv_settled rv) \<and>
        (s = rv_sequence rv \<longrightarrow> request_of (rv_requests rv ! q) (rv_editor rv))"
      using ok unfolding review_ok_def by blast
    then show ?thesis by (auto simp: fields)
  qed
  moreover have "\<forall>k q. rv_inFlight ?rv = Some (k, q) \<longrightarrow> q < length (rv_requests rv) \<and> q \<notin> fst ` set (rv_settled ?rv) \<and> pr_key (rv_requests rv ! q) = k"
  proof -
    have "\<forall>k q. rv_inFlight rv = Some (k, q) \<longrightarrow> q < length (rv_requests rv) \<and> q \<notin> fst ` set (rv_settled rv) \<and> pr_key (rv_requests rv ! q) = k"
      using ok unfolding review_ok_def by blast
    then show ?thesis by (auto simp: fields split: if_splits)
  qed
  moreover have "editors (rv_editor rv) \<and> (\<forall>r \<in> set (rv_requests rv). \<exists>st. editors st \<and> built_for request_key r st)"
    using ok unfolding review_ok_def by blast
  moreover have "\<forall>(req, qs) \<in> set (rv_altered rv). \<exists>q < length (rv_requests rv). (q, Some qs) \<in> set (rv_settled ?rv) \<and>
      pr_schema (rv_requests rv ! q) = ar_schema req \<and> pr_rePaths (rv_requests rv ! q) = ar_rePaths req"
  proof -
    have "\<forall>(req, qs) \<in> set (rv_altered rv). \<exists>q < length (rv_requests rv). (q, Some qs) \<in> set (rv_settled rv) \<and>
        pr_schema (rv_requests rv ! q) = ar_schema req \<and> pr_rePaths (rv_requests rv ! q) = ar_rePaths req"
      using ok unfolding review_ok_def by blast
    moreover have "set (rv_settled rv) \<subseteq> set (rv_settled ?rv)" by (auto simp: fields)
    ultimately show ?thesis by fast
  qed
  moreover have "\<forall>(q, outcome) \<in> set (rv_settled ?rv). q < length (rv_requests rv)"
    using ok p(1) by (auto simp: review_ok_def fields)
  ultimately show ?thesis unfolding review_ok_def fields(1-4,6,7) by blast
qed

lemma review_ok_timer:
  assumes ok: "review_ok request_key editors rv" and timers: "rv_timers rv = before @ timer # after"
  shows "review_ok request_key editors (run_timer timer (rv\<lparr>rv_timers := before @ after\<rparr>))"
proof -
  let ?rv = "rv\<lparr>rv_timers := before @ after\<rparr>"
  note count = pending_timer [OF timers]
  have zero: "rv_sequence rv < s \<Longrightarrow> pending s ?rv = 0" for s using ok count [of s] by (simp add: review_ok_def)
  have one: "pending (rv_sequence rv) ?rv + (if timer_sequence timer = Some (rv_sequence rv) then 1 else 0) = (if rv_loading rv then 1 else 0)"
    using ok count [of "rv_sequence rv"] by (simp add: review_ok_def)
  have answered: "answered_for ?rv qs st = answered_for rv qs st" for qs st by (rule answered_same) simp_all
  have rest: "set (before @ after) \<subseteq> set (rv_timers rv)" using timers by auto
  show ?thesis
  proof (cases "timer_sequence timer = Some (rv_sequence rv)")
    case True
    then have none: "pending (rv_sequence rv) ?rv = 0" using one by (simp split: if_splits)
    obtain queries where run: "run_timer timer ?rv = ?rv\<lparr>rv_queries := queries, rv_loading := False\<rparr>"
      and shown: "\<And>qs. queries = Some qs \<Longrightarrow> answered_for rv qs (rv_editor rv)"
    proof (cases timer)
      case (ShowQueries s qs)
      then have "answered_for rv qs (rv_editor rv)" using ok True timers by (auto simp: review_ok_def)
      then show thesis using ShowQueries True by (intro that [of "Some qs"]) simp_all
    next
      case (PreviewFailed s)
      then show thesis using True by (intro that [of None]) simp_all
    qed (use True in simp_all)
    have same: "pending s (?rv\<lparr>rv_queries := queries, rv_loading := False\<rparr>) = pending s ?rv" for s by (rule pending_same) simp_all
    have answered': "answered_for (?rv\<lparr>rv_queries := queries, rv_loading := False\<rparr>) qs st = answered_for rv qs st" for qs st
      unfolding answered_for_def by simp
    show ?thesis using ok zero none shown rest unfolding run review_ok_def same answered' by auto
  next
    case False
    then have one': "pending (rv_sequence rv) ?rv = (if rv_loading rv then 1 else 0)" using one by simp
    have kept: "review_ok request_key editors ?rv"
      using ok zero one' rest unfolding review_ok_def answered by auto
    have closed: "review_ok request_key editors (?rv\<lparr>rv_queries := None, rv_confirming := c, rv_outdated := b\<rparr>)" for b c
    proof -
      have same: "pending s (?rv\<lparr>rv_queries := None, rv_confirming := c, rv_outdated := b\<rparr>) = pending s ?rv" for s by (rule pending_same) simp_all
      have answered': "answered_for (?rv\<lparr>rv_queries := None, rv_confirming := c, rv_outdated := b\<rparr>) qs st = answered_for ?rv qs st" for qs st
        unfolding answered_for_def by simp
      show ?thesis using kept unfolding review_ok_def same answered' by simp
    qed
    show ?thesis
    proof (cases timer)
      case ConfirmFailed
      have "?rv\<lparr>rv_queries := None, rv_confirming := False, rv_outdated := rv_outdated rv\<rparr> = ?rv\<lparr>rv_queries := None, rv_confirming := False\<rparr>"
        by (cases rv) simp
      then show ?thesis using ConfirmFailed closed [where c = False and b = "rv_outdated rv"] by simp
    next
      case ConfirmDone
      then show ?thesis using closed [where c = False and b = True] by simp
    qed (use kept False in simp_all)
  qed
qed

lemma review_ok_flags:
  assumes "review_ok request_key editors rv"
  shows "review_ok request_key editors (rv\<lparr>rv_outdated := b\<rparr>)" "review_ok request_key editors (settle_alter b rv)"
proof -
  have "pending s (rv\<lparr>rv_outdated := b\<rparr>) = pending s rv" "pending s (settle_alter b rv) = pending s rv" for s
    by (simp_all add: pending_def settle_alter_def)
  moreover have "answered_for (rv\<lparr>rv_outdated := b\<rparr>) qs st = answered_for rv qs st" "answered_for (settle_alter b rv) qs st = answered_for rv qs st" for qs st
    by (simp_all add: answered_for_def settle_alter_def)
  ultimately show "review_ok request_key editors (rv\<lparr>rv_outdated := b\<rparr>)" "review_ok request_key editors (settle_alter b rv)"
    using assms by (simp_all add: review_ok_def settle_alter_def split: if_splits)
qed

lemma confirmed_request:
  "confirm_request st = Some req \<Longrightarrow> normalizeSchema (editableSchema st) = Some (ar_schema req) \<and> ar_rePaths req = rePaths st"
  by (auto simp: confirm_request_def bind_eq_Some_conv)

lemma review_ok_confirmed:
  assumes ok: "review_ok request_key editors rv" and shown: "rv_queries rv = Some qs"
  shows "review_ok request_key editors (onConfirmChanges rv)"
proof (cases "rv_outdated rv \<or> confirm_request (rv_editor rv) = None")
  case True
  then show ?thesis using ok by (auto simp: onConfirmChanges_def split: option.split)
next
  case False
  then obtain req where req: "confirm_request (rv_editor rv) = Some req" by auto
  have eq: "onConfirmChanges rv = rv\<lparr>rv_confirming := True, rv_altered := (req, qs) # rv_altered rv\<rparr>"
    using False by (simp add: onConfirmChanges_def req shown)
  have same: "pending s (onConfirmChanges rv) = pending s rv" for s by (rule pending_same) (simp_all add: eq)
  have answered: "answered_for (onConfirmChanges rv) q st = answered_for rv q st" for q st by (rule answered_same) (simp_all add: eq)
  obtain p where p: "p < length (rv_requests rv)" "(p, Some qs) \<in> set (rv_settled rv)" "request_of (rv_requests rv ! p) (rv_editor rv)"
    using ok shown by (auto simp: review_ok_def answered_for_def)
  have "pr_schema (rv_requests rv ! p) = ar_schema req" "pr_rePaths (rv_requests rv ! p) = ar_rePaths req"
    using p(3) confirmed_request [OF req] by (simp_all add: request_of_def)
  then show ?thesis using ok p(1,2) unfolding review_ok_def same answered by (auto simp: eq)
qed

lemma build_request:
  "buildSchemaPreviewRequest stringify request_key editable initial roles paths = Inr r \<Longrightarrow>
     normalizeSchema editable = Some (pr_schema r) \<and> pr_rePaths r = paths \<and> pr_key r = request_key roles (pr_schema r) paths"
  by (auto simp: buildSchemaPreviewRequest_def split: sum.splits option.splits)

text \<open>The key of a request tells its schema and re-paths, among the requests of the states of the editor.\<close>

definition faithful_key ::
    "(property_roles \<Rightarrow> property list \<Rightarrow> jsstr option obj \<Rightarrow> jsstr) \<Rightarrow> (schema_editor \<Rightarrow> bool) \<Rightarrow> bool" where
  "faithful_key request_key editors \<longleftrightarrow>
     (\<forall>r st r' st'. editors st \<and> editors st' \<and> built_for request_key r st \<and> built_for request_key r' st' \<and> pr_key r = pr_key r' \<longrightarrow>
        pr_schema r = pr_schema r' \<and> pr_rePaths r = pr_rePaths r')"

lemma review_ok_asked:
  assumes ok: "review_ok request_key editors rv" and closed: "\<not> review_open rv" and key: "faithful_key request_key editors"
  shows "review_ok request_key editors (onApplyChanges stringify request_key initial rv)"
proof -
  let ?n = "rv_sequence rv + 1"
  have closed: "rv_queries rv = None" "\<not> rv_loading rv" using closed by (simp_all add: review_open_def)
  have none: "pending s rv = 0" if "?n \<le> s" for s using ok that by (simp add: review_ok_def)
  have free: "\<forall>c \<in> set (rv_waiting rv). fst c \<noteq> ?n" "\<forall>t \<in> set (rv_timers rv). timer_sequence t \<noteq> Some ?n"
    using none [of ?n] unfolding pending_none by blast+
  let ?build = "buildSchemaPreviewRequest stringify request_key (editableSchema (rv_editor rv)) initial (propertyRoles (rv_editor rv)) (rePaths (rv_editor rv))"
  show ?thesis
  proof (cases "rv_outdated rv \<or> (\<exists>e. ?build = Inl e)")
    case True
    have "rv\<lparr>rv_sequence := ?n\<rparr> = rv\<lparr>rv_sequence := ?n, rv_queries := None, rv_loading := False\<rparr>"
      using closed by (cases rv) simp
    then have "review_ok request_key editors (rv\<lparr>rv_sequence := ?n\<rparr>)" by (rule review_ok_next [OF ok])
    then show ?thesis using True ok by (auto simp: onApplyChanges_def Let_def)
  next
    case False
    then obtain r where r: "?build = Inr r" by (cases ?build) auto
    have built: "built_for request_key r (rv_editor rv)" using build_request [OF r] by (simp add: built_for_def request_of_def)
    have here: "editors (rv_editor rv)" using ok by (simp add: review_ok_def)
    let ?start = "rv\<lparr>rv_sequence := ?n, rv_loading := True\<rparr>"
    obtain requests inFlight p where sent: "requestSchemaPreview r ?start = (?start\<lparr>rv_requests := requests, rv_inFlight := inFlight\<rparr>, p)"
      and p: "p < length requests" "p \<notin> fst ` set (rv_settled rv)" "request_of (requests ! p) (rv_editor rv)"
      and more: "requests = rv_requests rv \<or> requests = rv_requests rv @ [r]"
      and flight: "\<forall>k q. inFlight = Some (k, q) \<longrightarrow> q < length requests \<and> q \<notin> fst ` set (rv_settled rv) \<and> pr_key (requests ! q) = k"
    proof (cases "\<exists>q. rv_inFlight rv = Some (pr_key r, q)")
      case True
      then obtain q where q: "rv_inFlight rv = Some (pr_key r, q)" by blast
      then have q': "q < length (rv_requests rv)" "q \<notin> fst ` set (rv_settled rv)" "pr_key (rv_requests rv ! q) = pr_key r"
        using ok by (simp_all add: review_ok_def)
      have "\<forall>r \<in> set (rv_requests rv). \<exists>st. editors st \<and> built_for request_key r st"
        using ok unfolding review_ok_def by blast
      then obtain st where st: "editors st" "built_for request_key (rv_requests rv ! q) st" using nth_mem [OF q'(1)] by blast
      have "pr_schema (rv_requests rv ! q) = pr_schema r \<and> pr_rePaths (rv_requests rv ! q) = pr_rePaths r"
        using key st here built q'(3) unfolding faithful_key_def by blast
      then have "request_of (rv_requests rv ! q) (rv_editor rv)" using built by (simp add: request_of_def built_for_def)
      then show thesis
        using q q' by (intro that [where requests = "rv_requests rv" and inFlight = "rv_inFlight rv" and p = q]) (simp_all add: requestSchemaPreview_def Let_def)
    next
      case False
      have "\<forall>(q, outcome) \<in> set (rv_settled rv). q < length (rv_requests rv)" using ok by (simp add: review_ok_def)
      then have "length (rv_requests rv) \<notin> fst ` set (rv_settled rv)" by auto
      then show thesis
        using False built
        by (intro that [where requests = "rv_requests rv @ [r]" and inFlight = "Some (pr_key r, length (rv_requests rv))" and p = "length (rv_requests rv)"])
          (auto simp: requestSchemaPreview_def Let_def built_for_def split: option.splits)
    qed
    let ?rv = "?start\<lparr>rv_requests := requests, rv_inFlight := inFlight, rv_waiting := rv_waiting rv @ [(?n, p)]\<rparr>"
    have eq: "onApplyChanges stringify request_key initial rv = ?rv"
      using False sent by (simp add: onApplyChanges_def Let_def r)
    have count: "pending s ?rv = pending s rv + (if s = ?n then 1 else 0)" for s by (simp add: pending_def)
    have old: "requests ! q = rv_requests rv ! q" "q < length requests" if "q < length (rv_requests rv)" for q
      using more that by (auto simp: nth_append)
    have waiting: "\<forall>s q. (s, q) \<in> set (rv_waiting ?rv) \<longrightarrow> q < length requests \<and> q \<notin> fst ` set (rv_settled rv) \<and>
        (s = ?n \<longrightarrow> request_of (requests ! q) (rv_editor rv))"
      using ok p free(1) old(2) by (auto simp: review_ok_def)
    have keys: "\<forall>r \<in> set requests. \<exists>st. editors st \<and> built_for request_key r st"
    proof
      fix x assume "x \<in> set requests"
      then have "x \<in> set (rv_requests rv) \<or> x = r" using more by auto
      then show "\<exists>st. editors st \<and> built_for request_key x st"
        using ok built here unfolding review_ok_def by blast
    qed
    have altered: "\<forall>(req, qs) \<in> set (rv_altered rv). \<exists>q < length requests. (q, Some qs) \<in> set (rv_settled rv) \<and>
        pr_schema (requests ! q) = ar_schema req \<and> pr_rePaths (requests ! q) = ar_rePaths req"
      using ok old by (fastforce simp: review_ok_def)
    have settled: "\<forall>(q, outcome) \<in> set (rv_settled rv). q < length requests"
      using ok old(2) by (auto simp: review_ok_def)
    have "ShowQueries ?n qs \<notin> set (rv_timers rv)" for qs using free(2) by fastforce
    then show ?thesis
      using here none waiting keys altered settled flight closed(1) unfolding eq review_ok_def count by simp
  qed
qed

lemma reachable_review_ok:
  assumes "review_reachable stringify request_key initial editors rv" and key: "faithful_key request_key editors"
  shows "review_ok request_key editors rv"
  using assms(1)
proof induction
  case (review_opened st)
  then show ?case by (simp add: review_ok_def open_review_def pending_def)
next
  case (review_edited rv st)
  then show ?case by (intro review_ok_edited)
next
  case (review_asked rv)
  then show ?case by (intro review_ok_asked key)
next
  case (review_confirmed rv)
  then show ?case by (auto intro: review_ok_confirmed)
next
  case (review_effect rv)
  then show ?case by (auto simp: outdated_effect_def intro: review_ok_next)
next
  case (review_cancelled rv)
  then show ?case by (auto simp: onCancelChanges_def intro: review_ok_next)
next
  case (review_closed rv)
  then show ?case by (auto simp: onReviewDialogRequestClose_def onCancelChanges_def intro: review_ok_next)
qed (auto intro: review_ok_answered review_ok_timer review_ok_flags)

subsection \<open>What is applied was reviewed\<close>

text \<open>
  C7: The queries in the dialog are those the server computed for the schema and the re-paths in the editor, whatever
  answers of earlier reviews arrive late; and every change that was sent to the server had been reviewed: the server had
  answered a request with the same schema and the same re-paths with the queries that were shown.
\<close>

theorem applied_changes_were_reviewed:
  assumes "review_reachable stringify request_key initial editors rv" "faithful_key request_key editors"
  shows "(\<forall>qs. rv_queries rv = Some qs \<longrightarrow> answered_for rv qs (rv_editor rv)) \<and>
    (\<forall>(req, qs) \<in> set (rv_altered rv). \<exists>p < length (rv_requests rv). (p, Some qs) \<in> set (rv_settled rv) \<and>
       pr_schema (rv_requests rv ! p) = ar_schema req \<and> pr_rePaths (rv_requests rv ! p) = ar_rePaths req)"
  using reachable_review_ok [OF assms] unfolding review_ok_def by blast

text \<open>
  While the dialog is loading the present review waits for an answer that its request has not had yet, and whatever the
  answer is a timer of this review is set then; or such a timer is already set, and the dialog stops loading when it fires.
\<close>

theorem review_waits_for_something:
  assumes "review_reachable stringify request_key initial editors rv" "faithful_key request_key editors" "rv_loading rv"
  shows "(\<exists>p < length (rv_requests rv). (rv_sequence rv, p) \<in> set (rv_waiting rv) \<and> p \<notin> fst ` set (rv_settled rv) \<and>
      (\<forall>outcome. \<exists>t \<in> set (rv_timers (settle_preview p outcome rv)). timer_sequence t = Some (rv_sequence rv))) \<or>
    (\<exists>t \<in> set (rv_timers rv). timer_sequence t = Some (rv_sequence rv) \<and> \<not> rv_loading (run_timer t rv))"
proof -
  have ok: "review_ok request_key editors rv" by (rule reachable_review_ok [OF assms(1,2)])
  then have "pending (rv_sequence rv) rv \<noteq> 0" using assms(3) by (simp add: review_ok_def)
  then consider p where "(rv_sequence rv, p) \<in> set (rv_waiting rv)" | t where "t \<in> set (rv_timers rv)" "timer_sequence t = Some (rv_sequence rv)"
    unfolding pending_none by force
  then show ?thesis
  proof cases
    case 1
    then have "p < length (rv_requests rv)" "p \<notin> fst ` set (rv_settled rv)" using ok by (simp_all add: review_ok_def)
    moreover have "\<exists>t \<in> set (rv_timers (settle_preview p outcome rv)). timer_sequence t = Some (rv_sequence rv)" for outcome
      using 1 by (cases outcome) (force simp: settle_preview_def resumed_def)+
    ultimately show ?thesis using 1 by blast
  next
    case 2
    have "\<not> rv_loading (run_timer t rv)" using 2(2) by (cases t) simp_all
    then show ?thesis using 2 by blast
  qed
qed

subsection \<open>A review of an example\<close>

abbreviation example_editor :: schema_editor where
  "example_editor \<equiv> open_editor example_schema None []"

definition one_key :: "property_roles \<Rightarrow> property list \<Rightarrow> jsstr option obj \<Rightarrow> jsstr" where
  "one_key roles schema paths = js ''request''"

lemma one_key_faithful: "faithful_key one_key (\<lambda>st. st = example_editor)"
  by (auto simp: faithful_key_def built_for_def request_of_def)

lemma example_editor_valid:
  "find (empty_object (editableSchema example_editor)) (editableSchema example_editor) = None"
  "validateProfilePropertyRoles (editableSchema example_editor) (propertyRoles example_editor) = Inr ()"
  unfolding open_editor_fields(1) [OF example_schema_wf]
  by (simp_all add: opened_properties_def is_meta_property_def example_schema_simps js_simps empty_object_def
    editableProperty_def starts_with_iff validateProfilePropertyRoles_iff open_editor_fields copyProfilePropertyRoles_def)

lemma example_request:
  "\<exists>r. buildSchemaPreviewRequest stringify one_key (editableSchema example_editor) None (propertyRoles example_editor) (rePaths example_editor) = Inr r"
proof -
  obtain qs where "normalizeSchema (editableSchema example_editor) = Some qs"
    using reachable_normalized [OF opened [of True example_schema None "[]"] example_schema_wf example_schema_names] by blast
  then show ?thesis
    using example_editor_valid by (simp add: buildSchemaPreviewRequest_def validateEditableSchema_def)
qed

lemma asked_review:
  "\<exists>rv. review_reachable stringify one_key None (\<lambda>st. st = example_editor) rv \<and> rv_loading rv \<and>
    rv_sequence rv = 1 \<and> rv_waiting rv = [(1, 0)] \<and> length (rv_requests rv) = 1 \<and> rv_settled rv = [] \<and> rv_timers rv = []"
proof -
  let ?start = "open_review example_editor"
  have reach: "review_reachable stringify one_key None (\<lambda>st. st = example_editor) ?start" by (rule review_opened) simp
  have closed: "\<not> review_open ?start" by (simp add: review_open_def open_review_def)
  obtain r where "buildSchemaPreviewRequest stringify one_key (editableSchema example_editor) None (propertyRoles example_editor) (rePaths example_editor) = Inr r"
    using example_request by blast
  then show ?thesis
    using review_asked [OF reach closed]
    by (intro exI [of _ "onApplyChanges stringify one_key None ?start"])
      (simp add: onApplyChanges_def open_review_def requestSchemaPreview_def)
qed

theorem applied_changes_were_reviewed_witness:
  "\<exists>rv :: review. rv_queries rv = Some [js ''ALTER''] \<and> answered_for rv [js ''ALTER''] (rv_editor rv) \<and> rv_editor rv = example_editor"
proof -
  obtain rv where rv: "review_reachable (\<lambda>_. []) one_key None (\<lambda>st. st = example_editor) rv" "rv_sequence rv = 1"
    "rv_waiting rv = [(1, 0)]" "length (rv_requests rv) = 1" "rv_settled rv = []" "rv_timers rv = []"
    using asked_review by blast
  let ?answered = "settle_preview 0 (Some [js ''ALTER'']) rv"
  have reach: "review_reachable (\<lambda>_. []) one_key None (\<lambda>st. st = example_editor) ?answered"
    by (rule review_answered) (simp_all add: rv)
  have timer: "rv_timers ?answered = [] @ ShowQueries 1 [js ''ALTER''] # []" by (simp add: settle_preview_def resumed_def rv)
  let ?shown = "run_timer (ShowQueries 1 [js ''ALTER'']) (?answered\<lparr>rv_timers := [] @ []\<rparr>)"
  have shown: "review_reachable (\<lambda>_. []) one_key None (\<lambda>st. st = example_editor) ?shown" by (rule review_timer [OF reach timer])
  have queries: "rv_queries ?shown = Some [js ''ALTER'']" by (simp add: settle_preview_def rv)
  have "rv_editor ?shown = example_editor" using reachable_review_ok [OF shown one_key_faithful] by (simp only: review_ok_def)
  with queries show ?thesis using applied_changes_were_reviewed [OF shown one_key_faithful] by blast
qed

theorem review_waits_for_something_witness:
  "\<exists>rv :: review. rv_loading rv \<and> (rv_sequence rv, 0) \<in> set (rv_waiting rv) \<and> 0 \<notin> fst ` set (rv_settled rv)"
proof -
  obtain rv where rv: "review_reachable (\<lambda>_. []) one_key None (\<lambda>st. st = example_editor) rv" "rv_loading rv" "rv_sequence rv = 1"
    "rv_waiting rv = [(1, 0)]" "length (rv_requests rv) = 1" "rv_timers rv = []"
    using asked_review by blast
  have "(1, 0) \<in> set (rv_waiting rv)" "0 \<notin> fst ` set (rv_settled rv)"
    using review_waits_for_something [OF rv(1) one_key_faithful rv(2)] rv(3-) by auto
  with rv(2,3) show ?thesis by auto
qed

end
