(* ===== verification/Url_Scrubbing.thy ===== *)
theory Url_Scrubbing
  imports Js_Prelude
begin

section \<open>The addresses that are reported (scrubURL.ts)\<close>

text \<open>
  What is sent to the service that collects errors, instead of the address of a page or of a request: the pattern the path
  matches, the values of its placeholders, and the parameters without the values of the sensitive ones. A segment of a pattern that
  begins with a colon is a placeholder, one that begins with an exclamation mark is a secret. \<open>url\<close> is the parsed address.
\<close>

record url =
  url_origin :: jsstr
  url_pathname :: jsstr
  url_searchParams :: "(jsstr \<times> jsstr) list"

definition UI_BASE_PATH :: jsstr where
  "UI_BASE_PATH = js ''/admin/''"

definition API_BASE_PATH :: jsstr where
  "API_BASE_PATH = js ''/v1''"

definition ROUTE_SENSITIVE_QUERIES :: "jsstr list" where
  "ROUTE_SENSITIVE_QUERIES = [js ''code'', js ''authToken'']"

definition ROUTE_PATTERNS :: "jsstr list" where
  "ROUTE_PATTERNS =
    [js ''/connections'', js ''/connections/:id'', js ''/connections/:id/events'', js ''/connections/:id/identities'',
     js ''/connections/:id/metrics'', js ''/connections/:id/pipelines'',
     js ''/connections/:id/pipelines/add/:pipelineTarget'', js ''/connections/:id/pipelines/add/event'',
     js ''/connections/:id/pipelines/add/event/:eventType'', js ''/connections/:id/pipelines/edit/:pipeline'',
     js ''/connections/:id/settings'', js ''/connections/destinations'', js ''/connections/sources'', js ''/connectors'',
     js ''/connectors/:code'', js ''/connectors/file/:code'', js ''/oauth/authorize'', js ''/organization'',
     js ''/organization/access-keys'', js ''/organization/members'', js ''/organization/members/add'',
     js ''/organization/members/current'', js ''/profile-unification'', js ''/profile-unification/profiles'',
     js ''/profile-unification/rules'', js ''/profile-unification/schema'', js ''/profile-unification/schema/edit'',
     js ''/reset-password'', js ''/reset-password/!token'', js ''/settings'', js ''/settings/data-warehouse'',
     js ''/settings/general'', js ''/sign-up/!token'', js ''/workspaces'', js ''/workspaces/create'']"

definition REQUEST_SENSITIVE_QUERIES :: "jsstr list" where
  "REQUEST_SENSITIVE_QUERIES =
    [js ''authCode'', js ''cursor'', js ''filter'', js ''formatSettings'', js ''name'', js ''order'', js ''path'',
     js ''properties'', js ''redirectURI'', js ''schema'', js ''sheet'', js ''type'']"

definition REQUEST_PATTERNS :: "jsstr list" where
  "REQUEST_PATTERNS =
    [js ''/connections'', js ''/connections/:id'', js ''/connections/:id/event-write-keys'',
     js ''/connections/:id/event-write-keys/!key'', js ''/connections/:id/files'', js ''/connections/:id/files/absolute'',
     js ''/connections/:id/files/sheets'', js ''/connections/:id/identities'', js ''/connections/:id/pipeline-types'',
     js ''/connections/:id/pipelines/schemas/:target'', js ''/connections/:id/pipelines/schemas/Events'',
     js ''/connections/:id/preview-send-event'', js ''/connections/:id/query'', js ''/connections/:id/schemas/event'',
     js ''/connections/:id/schemas/user'', js ''/connections/:id/tables'', js ''/connections/:id/ui'',
     js ''/connections/:id/ui-event'', js ''/connections/:id/users'', js ''/connections/:src/links/:dst'',
     js ''/connections/auth-token'', js ''/connections/auth-url'', js ''/connectors'', js ''/connectors/:code'',
     js ''/events'', js ''/events/:type'', js ''/events/listeners'', js ''/events/listeners/:id'', js ''/events/schema'',
     js ''/events/settings/!write-key'', js ''/expressions-properties'', js ''/identity-resolution/latest'',
     js ''/identity-resolution/runs'', js ''/identity-resolution/settings'', js ''/identity-resolution/start'',
     js ''/keys'', js ''/keys/:key'', js ''/members'', js ''/members/:id'', js ''/members/current'',
     js ''/members/invitations'', js ''/members/invitations/!token'', js ''/members/login'', js ''/members/logout'',
     js ''/members/reset-password'', js ''/members/reset-password/!token'', js ''/metrics/identities/dates/:start/:end'',
     js ''/metrics/identities/latest'', js ''/metrics/identities/refresh'',
     js ''/metrics/identity-resolution/dates/:start/:end'', js ''/metrics/identity-resolution/latest'',
     js ''/metrics/usage/dates/:start/:end'', js ''/pipelines'', js ''/pipelines/:id'', js ''/pipelines/:id/runs'',
     js ''/pipelines/:id/schedule'', js ''/pipelines/:id/status'', js ''/pipelines/:id/ui-event'',
     js ''/pipelines/errors/:start/:end'', js ''/pipelines/metrics/dates/:start/:end'',
     js ''/pipelines/metrics/days/:days'', js ''/pipelines/metrics/hours/:hours'',
     js ''/pipelines/metrics/minutes/:minutes'', js ''/pipelines/runs'', js ''/pipelines/runs/:id'', js ''/profiles'',
     js ''/profiles/!kpid/attributes'', js ''/profiles/!kpid/events'', js ''/profiles/!kpid/identities'',
     js ''/profiles/schema'', js ''/profiles/schema/latest-alter'', js ''/profiles/schema/preview'',
     js ''/profiles/schema/suitable-as-identifiers'', js ''/signup'', js ''/system/transformations/languages'',
     js ''/transformations'', js ''/ui'', js ''/ui-event'', js ''/validate-expression'', js ''/warehouse'',
     js ''/warehouse/mode'', js ''/warehouse/platforms'', js ''/warehouse/repair'', js ''/warehouse/test'',
     js ''/workspaces'', js ''/workspaces/current'', js ''/workspaces/test'', js ''/connections/:id/identities'',
     js ''/connections/:id'', js ''/connectors/:code/documentation'', js ''/public/metadata'']"

subsection \<open>Patterns\<close>

text \<open>
  The regular expression of a pattern: its literal segments, which have only letters, digits, hyphens and underscores
  (\<open>literals_plain\<close>), and \<open>([^/]+)\<close>. It is the key of the pattern.
\<close>

datatype regex_part = Literal jsstr | AnySegment

record pattern_info =
  pi_pattern :: jsstr
  pi_placeholders :: "jsstr list"
  pi_sensitiveData :: "jsstr list"

definition pattern_segments :: "jsstr \<Rightarrow> jsstr list" where
  "pattern_segments pattern = filter (\<lambda>s. s \<noteq> []) (split_on (ch CHR ''/'') pattern)"

definition is_placeholder :: "jsstr \<Rightarrow> bool" where
  "is_placeholder segment \<longleftrightarrow> starts_with segment (js '':'')"

definition is_secret :: "jsstr \<Rightarrow> bool" where
  "is_secret segment \<longleftrightarrow> starts_with segment (js ''!'')"

definition regex_part_of :: "jsstr \<Rightarrow> regex_part" where
  "regex_part_of segment = (if is_placeholder segment \<or> is_secret segment then AnySegment else Literal segment)"

definition pattern_regex :: "jsstr \<Rightarrow> regex_part list" where
  "pattern_regex pattern = map regex_part_of (pattern_segments pattern)"

definition pattern_info_of :: "jsstr \<Rightarrow> pattern_info" where
  "pattern_info_of pattern =
     \<lparr>pi_pattern = map (\<lambda>c. if c = ch CHR ''!'' then ch CHR '':'' else c) pattern,
      pi_placeholders = map (drop 1) (filter is_placeholder (pattern_segments pattern)),
      pi_sensitiveData = map (drop 1) (filter is_secret (pattern_segments pattern))\<rparr>"

definition buildPatternsMap :: "jsstr list \<Rightarrow> (regex_part list, pattern_info) omap" where
  "buildPatternsMap patterns = foldl (\<lambda>output pattern. obj_set output (pattern_regex pattern) (pattern_info_of pattern)) [] patterns"

text \<open>The groups of a match.\<close>

fun match_parts :: "regex_part list \<Rightarrow> jsstr list \<Rightarrow> jsstr list option" where
  "match_parts [] [] = Some []"
| "match_parts (Literal s # parts) (w # ws) = (if s = w then match_parts parts ws else None)"
| "match_parts (AnySegment # parts) (w # ws) = (if w = [] then None else map_option (Cons w) (match_parts parts ws))"
| "match_parts _ _ = None"

definition match_regex :: "regex_part list \<Rightarrow> jsstr \<Rightarrow> jsstr list option" where
  "match_regex parts path =
     (case split_on (ch CHR ''/'') path of
        [] # ws \<Rightarrow> if parts = [] then (if ws = [[]] then Some [] else None) else match_parts parts ws
      | _ \<Rightarrow> None)"

subsection \<open>Scrubbing\<close>

text \<open>\<open>String.replace\<close> of a string by the empty one: its first occurrence.\<close>

fun remove_base :: "jsstr \<Rightarrow> jsstr \<Rightarrow> jsstr" where
  "remove_base [] p = []"
| "remove_base (c # s) p = (if starts_with (c # s) p then drop (length p) (c # s) else c # remove_base s p)"

definition scrub_extras :: "bool \<Rightarrow> pattern_info \<Rightarrow> jsstr list \<Rightarrow> jsstr obj" where
  "scrub_extras isRequest info groups =
     foldl (\<lambda>extras (placeholder, v).
       if placeholder \<in> set (pi_sensitiveData info) then extras
       else obj_set extras (if isRequest then js ''request['' @ placeholder @ js '']'' else placeholder) v)
       [] (zip (pi_placeholders info) groups)"

definition scrub_param :: "jsstr list \<Rightarrow> jsstr \<times> jsstr \<Rightarrow> jsstr" where
  "scrub_param sensitiveQueries param =
     (case param of (k, v) \<Rightarrow> k @ js ''='' @ (if k \<in> set sensitiveQueries then js ''[REDACTED]'' else v))"

definition scrubURL :: "url \<Rightarrow> bool \<Rightarrow> jsstr \<times> jsstr obj" where
  "scrubURL urlObj isRequest =
     (let patternsMap = buildPatternsMap (if isRequest then REQUEST_PATTERNS else ROUTE_PATTERNS);
          basePath = (if isRequest then API_BASE_PATH else butlast UI_BASE_PATH);
          sensitiveQueries = (if isRequest then REQUEST_SENSITIVE_QUERIES else ROUTE_SENSITIVE_QUERIES);
          path = remove_base (url_pathname urlObj) basePath;
          (scrubbedPath, extras) =
            (case find (\<lambda>(regex, _). match_regex regex path \<noteq> None) patternsMap of
               None \<Rightarrow> (path, [])
             | Some (regex, info) \<Rightarrow>
                 (pi_pattern info,
                  scrub_extras isRequest info (case match_regex regex path of None \<Rightarrow> [] | Some groups \<Rightarrow> groups)));
          scrubbedParams = join_with (js ''&'') (map (scrub_param sensitiveQueries) (url_searchParams urlObj))
      in (url_origin urlObj @ basePath @
            (if scrubbedParams \<noteq> [] then scrubbedPath @ js ''?'' @ scrubbedParams else scrubbedPath), extras))"

end
