(* ===== verification/Url_Secrets.thy ===== *)
theory Url_Secrets
  imports Url_Scrubbing
begin

section \<open>What is reported does not depend on the secrets\<close>

text \<open>
  The report of an address is the same whatever its secrets are: the segments a pattern marks and the values of the
  sensitive parameters. The pattern that is found must be the one of the path: \<open>clash\<close> compares it with all the others.
\<close>

subsection \<open>The regular expressions of the patterns\<close>

fun cut_at_slash :: "string \<Rightarrow> string \<Rightarrow> string list" where
  "cut_at_slash w [] = [rev w]"
| "cut_at_slash w (c # cs) = (if c = CHR ''/'' then rev w # cut_at_slash [] cs else cut_at_slash (c # w) cs)"

lemma ch_eq: "ch c = 47 \<longleftrightarrow> c = CHR ''/''" "ch c = 58 \<longleftrightarrow> c = CHR '':''" "ch c = 33 \<longleftrightarrow> c = CHR ''!''"
proof -
  have "ch c = ch CHR ''/'' \<longleftrightarrow> c = CHR ''/''" "ch c = ch CHR '':'' \<longleftrightarrow> c = CHR '':''" "ch c = ch CHR ''!'' \<longleftrightarrow> c = CHR ''!''"
    by (simp_all only: of_char_eq_iff)
  then show "ch c = 47 \<longleftrightarrow> c = CHR ''/''" "ch c = 58 \<longleftrightarrow> c = CHR '':''" "ch c = 33 \<longleftrightarrow> c = CHR ''!''" by simp_all
qed

lemma cut_at_slash_split:
  "\<exists>v vs. split_on 47 (js s) = v # vs \<and> map js (cut_at_slash w s) = (js (rev w) @ v) # vs"
proof (induction s arbitrary: w)
  case (Cons c s)
  show ?case using Cons.IH [of "[]"] Cons.IH [of "c # w"] by (auto simp: js_Cons js_append ch_eq)
qed simp

lemma segments_js: "pattern_segments (js s) = map js (filter (\<lambda>w. w \<noteq> []) (cut_at_slash [] s))"
proof -
  have "split_on 47 (js s) = map js (cut_at_slash [] s)" using cut_at_slash_split [of s "[]"] by auto
  then have "pattern_segments (js s) = filter (\<lambda>w. w \<noteq> []) (map js (cut_at_slash [] s))" by (simp add: pattern_segments_def)
  then show ?thesis by (simp add: filter_map o_def)
qed

lemma segment_js:
  "is_placeholder (js (c # s)) \<longleftrightarrow> c = CHR '':''" "is_secret (js (c # s)) \<longleftrightarrow> c = CHR ''!''"
  by (simp_all add: is_placeholder_def is_secret_def js_Cons ch_eq)

lemma regex_part_js: "regex_part_of (js (c # s)) = (if c = CHR '':'' \<or> c = CHR ''!'' then AnySegment else Literal (js (c # s)))"
  by (simp add: regex_part_of_def segment_js)

lemmas pattern_simps = pattern_regex_def segments_js regex_part_js segment_js

lemma route_regexes:
  "map pattern_regex ROUTE_PATTERNS =
    [[Literal (js ''connections'')], [Literal (js ''connections''), AnySegment],
     [Literal (js ''connections''), AnySegment, Literal (js ''events'')],
     [Literal (js ''connections''), AnySegment, Literal (js ''identities'')],
     [Literal (js ''connections''), AnySegment, Literal (js ''metrics'')],
     [Literal (js ''connections''), AnySegment, Literal (js ''pipelines'')],
     [Literal (js ''connections''), AnySegment, Literal (js ''pipelines''), Literal (js ''add''), AnySegment],
     [Literal (js ''connections''), AnySegment, Literal (js ''pipelines''), Literal (js ''add''), Literal (js ''event'')],
     [Literal (js ''connections''), AnySegment, Literal (js ''pipelines''), Literal (js ''add''), Literal (js ''event''), AnySegment],
     [Literal (js ''connections''), AnySegment, Literal (js ''pipelines''), Literal (js ''edit''), AnySegment],
     [Literal (js ''connections''), AnySegment, Literal (js ''settings'')],
     [Literal (js ''connections''), Literal (js ''destinations'')], [Literal (js ''connections''), Literal (js ''sources'')],
     [Literal (js ''connectors'')], [Literal (js ''connectors''), AnySegment],
     [Literal (js ''connectors''), Literal (js ''file''), AnySegment], [Literal (js ''oauth''), Literal (js ''authorize'')],
     [Literal (js ''organization'')], [Literal (js ''organization''), Literal (js ''access-keys'')],
     [Literal (js ''organization''), Literal (js ''members'')],
     [Literal (js ''organization''), Literal (js ''members''), Literal (js ''add'')],
     [Literal (js ''organization''), Literal (js ''members''), Literal (js ''current'')], [Literal (js ''profile-unification'')],
     [Literal (js ''profile-unification''), Literal (js ''profiles'')],
     [Literal (js ''profile-unification''), Literal (js ''rules'')],
     [Literal (js ''profile-unification''), Literal (js ''schema'')],
     [Literal (js ''profile-unification''), Literal (js ''schema''), Literal (js ''edit'')], [Literal (js ''reset-password'')],
     [Literal (js ''reset-password''), AnySegment], [Literal (js ''settings'')],
     [Literal (js ''settings''), Literal (js ''data-warehouse'')], [Literal (js ''settings''), Literal (js ''general'')],
     [Literal (js ''sign-up''), AnySegment], [Literal (js ''workspaces'')], [Literal (js ''workspaces''), Literal (js ''create'')]]"
  by (simp add: ROUTE_PATTERNS_def pattern_simps)

lemma request_regexes:
  "map pattern_regex REQUEST_PATTERNS =
    [[Literal (js ''connections'')], [Literal (js ''connections''), AnySegment],
     [Literal (js ''connections''), AnySegment, Literal (js ''event-write-keys'')],
     [Literal (js ''connections''), AnySegment, Literal (js ''event-write-keys''), AnySegment],
     [Literal (js ''connections''), AnySegment, Literal (js ''files'')],
     [Literal (js ''connections''), AnySegment, Literal (js ''files''), Literal (js ''absolute'')],
     [Literal (js ''connections''), AnySegment, Literal (js ''files''), Literal (js ''sheets'')],
     [Literal (js ''connections''), AnySegment, Literal (js ''identities'')],
     [Literal (js ''connections''), AnySegment, Literal (js ''pipeline-types'')],
     [Literal (js ''connections''), AnySegment, Literal (js ''pipelines''), Literal (js ''schemas''), AnySegment],
     [Literal (js ''connections''), AnySegment, Literal (js ''pipelines''), Literal (js ''schemas''), Literal (js ''Events'')],
     [Literal (js ''connections''), AnySegment, Literal (js ''preview-send-event'')],
     [Literal (js ''connections''), AnySegment, Literal (js ''query'')],
     [Literal (js ''connections''), AnySegment, Literal (js ''schemas''), Literal (js ''event'')],
     [Literal (js ''connections''), AnySegment, Literal (js ''schemas''), Literal (js ''user'')],
     [Literal (js ''connections''), AnySegment, Literal (js ''tables'')],
     [Literal (js ''connections''), AnySegment, Literal (js ''ui'')],
     [Literal (js ''connections''), AnySegment, Literal (js ''ui-event'')],
     [Literal (js ''connections''), AnySegment, Literal (js ''users'')],
     [Literal (js ''connections''), AnySegment, Literal (js ''links''), AnySegment],
     [Literal (js ''connections''), Literal (js ''auth-token'')], [Literal (js ''connections''), Literal (js ''auth-url'')],
     [Literal (js ''connectors'')], [Literal (js ''connectors''), AnySegment], [Literal (js ''events'')],
     [Literal (js ''events''), AnySegment], [Literal (js ''events''), Literal (js ''listeners'')],
     [Literal (js ''events''), Literal (js ''listeners''), AnySegment], [Literal (js ''events''), Literal (js ''schema'')],
     [Literal (js ''events''), Literal (js ''settings''), AnySegment], [Literal (js ''expressions-properties'')],
     [Literal (js ''identity-resolution''), Literal (js ''latest'')],
     [Literal (js ''identity-resolution''), Literal (js ''runs'')],
     [Literal (js ''identity-resolution''), Literal (js ''settings'')],
     [Literal (js ''identity-resolution''), Literal (js ''start'')], [Literal (js ''keys'')],
     [Literal (js ''keys''), AnySegment], [Literal (js ''members'')], [Literal (js ''members''), AnySegment],
     [Literal (js ''members''), Literal (js ''current'')], [Literal (js ''members''), Literal (js ''invitations'')],
     [Literal (js ''members''), Literal (js ''invitations''), AnySegment], [Literal (js ''members''), Literal (js ''login'')],
     [Literal (js ''members''), Literal (js ''logout'')], [Literal (js ''members''), Literal (js ''reset-password'')],
     [Literal (js ''members''), Literal (js ''reset-password''), AnySegment],
     [Literal (js ''metrics''), Literal (js ''identities''), Literal (js ''dates''), AnySegment, AnySegment],
     [Literal (js ''metrics''), Literal (js ''identities''), Literal (js ''latest'')],
     [Literal (js ''metrics''), Literal (js ''identities''), Literal (js ''refresh'')],
     [Literal (js ''metrics''), Literal (js ''identity-resolution''), Literal (js ''dates''), AnySegment, AnySegment],
     [Literal (js ''metrics''), Literal (js ''identity-resolution''), Literal (js ''latest'')],
     [Literal (js ''metrics''), Literal (js ''usage''), Literal (js ''dates''), AnySegment, AnySegment],
     [Literal (js ''pipelines'')], [Literal (js ''pipelines''), AnySegment],
     [Literal (js ''pipelines''), AnySegment, Literal (js ''runs'')],
     [Literal (js ''pipelines''), AnySegment, Literal (js ''schedule'')],
     [Literal (js ''pipelines''), AnySegment, Literal (js ''status'')],
     [Literal (js ''pipelines''), AnySegment, Literal (js ''ui-event'')],
     [Literal (js ''pipelines''), Literal (js ''errors''), AnySegment, AnySegment],
     [Literal (js ''pipelines''), Literal (js ''metrics''), Literal (js ''dates''), AnySegment, AnySegment],
     [Literal (js ''pipelines''), Literal (js ''metrics''), Literal (js ''days''), AnySegment],
     [Literal (js ''pipelines''), Literal (js ''metrics''), Literal (js ''hours''), AnySegment],
     [Literal (js ''pipelines''), Literal (js ''metrics''), Literal (js ''minutes''), AnySegment],
     [Literal (js ''pipelines''), Literal (js ''runs'')], [Literal (js ''pipelines''), Literal (js ''runs''), AnySegment],
     [Literal (js ''profiles'')], [Literal (js ''profiles''), AnySegment, Literal (js ''attributes'')],
     [Literal (js ''profiles''), AnySegment, Literal (js ''events'')],
     [Literal (js ''profiles''), AnySegment, Literal (js ''identities'')], [Literal (js ''profiles''), Literal (js ''schema'')],
     [Literal (js ''profiles''), Literal (js ''schema''), Literal (js ''latest-alter'')],
     [Literal (js ''profiles''), Literal (js ''schema''), Literal (js ''preview'')],
     [Literal (js ''profiles''), Literal (js ''schema''), Literal (js ''suitable-as-identifiers'')], [Literal (js ''signup'')],
     [Literal (js ''system''), Literal (js ''transformations''), Literal (js ''languages'')], [Literal (js ''transformations'')],
     [Literal (js ''ui'')], [Literal (js ''ui-event'')], [Literal (js ''validate-expression'')], [Literal (js ''warehouse'')],
     [Literal (js ''warehouse''), Literal (js ''mode'')], [Literal (js ''warehouse''), Literal (js ''platforms'')],
     [Literal (js ''warehouse''), Literal (js ''repair'')], [Literal (js ''warehouse''), Literal (js ''test'')],
     [Literal (js ''workspaces'')], [Literal (js ''workspaces''), Literal (js ''current'')],
     [Literal (js ''workspaces''), Literal (js ''test'')],
     [Literal (js ''connections''), AnySegment, Literal (js ''identities'')], [Literal (js ''connections''), AnySegment],
     [Literal (js ''connectors''), AnySegment, Literal (js ''documentation'')],
     [Literal (js ''public''), Literal (js ''metadata'')]]"
  by (simp add: REQUEST_PATTERNS_def pattern_simps)

text \<open>The literal segments are matched as they are: no character of theirs has a meaning in a regular expression.\<close>

definition plain_part :: "regex_part \<Rightarrow> bool" where
  "plain_part r = (case r of AnySegment \<Rightarrow> True | Literal s \<Rightarrow> list_all (\<lambda>c. is_letter c \<or> is_digit c \<or> c = ch CHR ''-'') s)"

lemma literals_plain: "list_all (list_all plain_part) (map pattern_regex ROUTE_PATTERNS)" "list_all (list_all plain_part) (map pattern_regex REQUEST_PATTERNS)"
  unfolding route_regexes request_regexes by (simp_all add: plain_part_def js_Cons is_letter_def is_digit_def)

subsection \<open>The pattern of a path\<close>

text \<open>Two regular expressions of which no path matches both.\<close>

fun clash :: "regex_part list \<Rightarrow> regex_part list \<Rightarrow> bool" where
  "clash [] [] = False"
| "clash (Literal s # q) (Literal t # p) = (s \<noteq> t \<or> clash q p)"
| "clash (_ # q) (_ # p) = clash q p"
| "clash _ _ = True"

text \<open>A pattern with secrets clashes with every other, and its secrets come after its placeholders.\<close>

definition has_secret :: "jsstr \<Rightarrow> bool" where
  "has_secret pattern \<longleftrightarrow> list_ex is_secret (pattern_segments pattern)"

definition secrets_last :: "jsstr list \<Rightarrow> bool" where
  "secrets_last segs \<longleftrightarrow> filter (\<lambda>s. is_placeholder s \<or> is_secret s) segs = filter is_placeholder segs @ filter is_secret segs"

definition distinguished :: "jsstr list \<Rightarrow> jsstr \<Rightarrow> bool" where
  "distinguished patterns pattern \<longleftrightarrow>
     list_all2 (\<lambda>q r. q = pattern \<or> clash r (pattern_regex pattern)) patterns (map pattern_regex patterns) \<and>
     secrets_last (pattern_segments pattern)"

lemmas has_secret_simps = has_secret_def segments_js segment_js

lemma route_secrets: "filter has_secret ROUTE_PATTERNS = [js ''/reset-password/!token'', js ''/sign-up/!token'']"
  by (simp add: ROUTE_PATTERNS_def has_secret_simps)

lemma request_secrets:
  "filter has_secret REQUEST_PATTERNS =
    [js ''/connections/:id/event-write-keys/!key'', js ''/events/settings/!write-key'', js ''/members/invitations/!token'',
     js ''/members/reset-password/!token'', js ''/profiles/!kpid/attributes'', js ''/profiles/!kpid/events'',
     js ''/profiles/!kpid/identities'']"
  by (simp add: REQUEST_PATTERNS_def has_secret_simps)

lemma routes_distinguished: "list_all (distinguished ROUTE_PATTERNS) (filter has_secret ROUTE_PATTERNS)"
  unfolding route_secrets
  by (simp add: distinguished_def route_regexes) (simp add: ROUTE_PATTERNS_def pattern_simps secrets_last_def)

lemma requests_distinguished:
  "list_all (distinguished REQUEST_PATTERNS) (filter has_secret REQUEST_PATTERNS)"
  unfolding request_secrets
  by (simp add: distinguished_def request_regexes) (simp add: REQUEST_PATTERNS_def pattern_simps secrets_last_def)

subsection \<open>Paths\<close>

text \<open>The path of a pattern with values for its segments; a value is not empty and has no slash.\<close>

definition segment_value :: "jsstr \<Rightarrow> jsstr \<Rightarrow> jsstr" where
  "segment_value s v = (if is_placeholder s \<or> is_secret s then v else s)"

definition filled :: "jsstr \<Rightarrow> jsstr list \<Rightarrow> jsstr" where
  "filled pattern vs = concat (map2 (\<lambda>s v. js ''/'' @ segment_value s v) (pattern_segments pattern) vs)"

definition good_value :: "jsstr \<Rightarrow> bool" where
  "good_value v \<longleftrightarrow> v \<noteq> [] \<and> ch CHR ''/'' \<notin> set v"

text \<open>The values of two paths that differ in the secrets only.\<close>

definition same_public :: "jsstr list \<Rightarrow> jsstr list \<Rightarrow> jsstr list \<Rightarrow> bool" where
  "same_public segs vs vs' \<longleftrightarrow>
     length vs = length segs \<and> length vs' = length segs \<and> list_all good_value vs \<and> list_all good_value vs' \<and>
     (\<forall>i < length segs. is_placeholder (segs ! i) \<longrightarrow> vs ! i = vs' ! i)"

lemma same_public_Cons:
  "same_public (s # segs) vs vs' \<longleftrightarrow> (\<exists>v ws v' ws'. vs = v # ws \<and> vs' = v' # ws' \<and> good_value v \<and> good_value v' \<and>
     (is_placeholder s \<longrightarrow> v = v') \<and> same_public segs ws ws')"
  by (cases vs; cases vs') (auto simp: same_public_def less_Suc_eq_0_disj)

lemma same_public_Nil: "same_public [] vs vs' \<longleftrightarrow> vs = [] \<and> vs' = []"
  by (auto simp: same_public_def)

lemma segment_no_slash: "s \<in> set (pattern_segments pattern) \<Longrightarrow> good_value s"
  using split_on_pieces by (auto simp: pattern_segments_def good_value_def)

lemma split_filled:
  assumes "length vs = length segs" "list_all good_value vs" "list_all good_value segs"
  shows "split_on 47 (concat (map2 (\<lambda>s v. js ''/'' @ segment_value s v) segs vs)) = [] # map2 segment_value segs vs"
proof -
  have "\<exists>ws. split_on 47 (a @ concat (map2 (\<lambda>s v. js ''/'' @ segment_value s v) segs vs)) = a # map2 segment_value segs vs"
    if "47 \<notin> set a" for a
    using assms that
  proof (induction vs segs arbitrary: a rule: list_induct2)
    case Nil
    then show ?case by (simp add: split_on_no_sep)
  next
    case (Cons v vs s segs)
    then have "47 \<notin> set (segment_value s v)" by (auto simp: segment_value_def good_value_def)
    then show ?case using Cons by (simp add: js_Cons split_on_append)
  qed
  from this [of "[]"] show ?thesis by simp
qed

text \<open>The groups are the values of the placeholders and of the secrets.\<close>

definition group_values :: "jsstr list \<Rightarrow> jsstr list \<Rightarrow> (jsstr \<times> jsstr) list" where
  "group_values segs vs = filter (\<lambda>(s, _). is_placeholder s \<or> is_secret s) (zip segs vs)"

lemma match_own:
  assumes "length vs = length segs" "list_all good_value vs"
  shows "match_parts (map regex_part_of segs) (map2 segment_value segs vs) = Some (map snd (group_values segs vs))"
  using assms
  by (induction vs segs rule: list_induct2) (auto simp: group_values_def regex_part_of_def segment_value_def good_value_def)

lemma match_clash:
  assumes "length vs = length segs" "clash q (map regex_part_of segs)"
  shows "match_parts q (map2 segment_value segs vs) = None"
  using assms
proof (induction vs segs arbitrary: q rule: list_induct2)
  case Nil
  then show ?case by (cases q rule: list.exhaust; (cases "hd q")?) simp_all
next
  case (Cons v vs s segs)
  show ?case
  proof (cases q)
    case (Cons r rs)
    then show ?thesis using Cons.prems Cons.IH
      by (cases r) (auto simp: regex_part_of_def segment_value_def split: if_splits)
  qed simp
qed

lemma match_filled:
  assumes vs: "length vs = length (pattern_segments pattern)" "list_all good_value vs" and ne: "pattern_segments pattern \<noteq> []"
  shows "match_regex (pattern_regex pattern) (filled pattern vs) = Some (map snd (group_values (pattern_segments pattern) vs))"
    and "q \<noteq> [] \<Longrightarrow> clash q (pattern_regex pattern) \<Longrightarrow> match_regex q (filled pattern vs) = None"
proof -
  have split: "split_on 47 (filled pattern vs) = [] # map2 segment_value (pattern_segments pattern) vs"
    unfolding filled_def by (rule split_filled) (use vs segment_no_slash in \<open>auto simp: list_all_iff\<close>)
  show "match_regex (pattern_regex pattern) (filled pattern vs) = Some (map snd (group_values (pattern_segments pattern) vs))"
    using match_own [OF vs] ne by (simp add: match_regex_def split pattern_regex_def)
  show "match_regex q (filled pattern vs) = None" if "q \<noteq> []" "clash q (pattern_regex pattern)"
    using match_clash [OF vs(1)] that by (simp add: match_regex_def split pattern_regex_def)
qed

subsection \<open>The pattern that is found\<close>

lemma patterns_map:
  "set (buildPatternsMap ps) \<subseteq> (\<lambda>p. (pattern_regex p, pattern_info_of p)) ` set ps"
  "p \<in> set ps \<Longrightarrow> pattern_regex p \<in> set (obj_keys (buildPatternsMap ps))"
proof -
  have "set (foldl (\<lambda>output p. obj_set output (pattern_regex p) (pattern_info_of p)) m ps) \<subseteq>
      set m \<union> (\<lambda>p. (pattern_regex p, pattern_info_of p)) ` set ps" for m
  proof (induction ps arbitrary: m)
    case (Cons p ps)
    have "set (obj_set m k v) \<subseteq> insert (k, v) (set m)" for k :: "regex_part list" and v :: pattern_info
      by (induction m k v rule: obj_set.induct) auto
    then show ?case using Cons.IH [of "obj_set m (pattern_regex p) (pattern_info_of p)"] by fastforce
  qed simp
  from this [of "[]"] show "set (buildPatternsMap ps) \<subseteq> (\<lambda>p. (pattern_regex p, pattern_info_of p)) ` set ps"
    by (simp add: buildPatternsMap_def)
  have keys: "set (obj_keys (foldl (\<lambda>output p. obj_set output (pattern_regex p) (pattern_info_of p)) m ps)) =
      set (obj_keys m) \<union> pattern_regex ` set ps" for m
    by (induction ps arbitrary: m) (auto simp: obj_keys_set)
  show "pattern_regex p \<in> set (obj_keys (buildPatternsMap ps))" if "p \<in> set ps"
    using keys [of "[]"] that by (simp add: buildPatternsMap_def)
qed

lemma find_only:
  assumes "\<exists>x \<in> set xs. P x" "\<And>x. x \<in> set xs \<Longrightarrow> P x \<Longrightarrow> x = y"
  shows "find P xs = Some y"
  using assms by (induction xs) auto

lemma find_distinguished:
  assumes p: "p \<in> set ps" "distinguished ps p" and ne: "\<And>q. q \<in> set ps \<Longrightarrow> pattern_segments q \<noteq> []"
    and vs: "length vs = length (pattern_segments p)" "list_all good_value vs"
  shows "find (\<lambda>(regex, _). match_regex regex (filled p vs) \<noteq> None) (buildPatternsMap ps) = Some (pattern_regex p, pattern_info_of p)"
proof (rule find_only)
  have own: "match_regex (pattern_regex p) (filled p vs) \<noteq> None" using match_filled(1) [OF vs ne [OF p(1)]] by simp
  obtain info where "(pattern_regex p, info) \<in> set (buildPatternsMap ps)"
    using patterns_map(2) [OF p(1)] by (auto simp: obj_keys_def)
  then show "\<exists>x \<in> set (buildPatternsMap ps). case x of (regex, _) \<Rightarrow> match_regex regex (filled p vs) \<noteq> None"
    using own by force
  fix x assume x: "x \<in> set (buildPatternsMap ps)" "case x of (regex, _) \<Rightarrow> match_regex regex (filled p vs) \<noteq> None"
  obtain q where q: "q \<in> set ps" "x = (pattern_regex q, pattern_info_of q)" using patterns_map(1) x(1) by blast
  have "q = p \<or> clash (pattern_regex q) (pattern_regex p)"
    using p(2) q(1) by (force simp: distinguished_def list_all2_map2 list_all2_same)
  then show "x = (pattern_regex p, pattern_info_of p)"
    using match_filled(2) [OF vs ne [OF p(1)], of "pattern_regex q"] x(2) q ne [OF q(1)] by (auto simp: pattern_regex_def)
qed

subsection \<open>What is reported\<close>

lemma groups_agree:
  assumes "same_public segs vs vs'"
  shows "list_all2 (\<lambda>x y. fst x = fst y \<and> (is_placeholder (fst x) \<longrightarrow> snd x = snd y)) (group_values segs vs) (group_values segs vs')"
  using assms
  by (induction segs arbitrary: vs vs') (auto simp: group_values_def same_public_Cons same_public_Nil)

lemma group_names:
  "length vs = length segs \<Longrightarrow> map fst (group_values segs vs) = filter (\<lambda>s. is_placeholder s \<or> is_secret s) segs"
  by (induction vs segs rule: list_induct2) (auto simp: group_values_def)

lemma same_zip:
  assumes "list_all2 (\<lambda>x y. fst x = fst y \<and> (is_placeholder (fst x) \<longrightarrow> snd x = snd y)) xs ys"
    "map fst xs = ps @ rest" "list_all is_placeholder ps"
  shows "zip (map f ps) (map snd xs) = zip (map f ps) (map snd ys)"
  using assms
proof (induction xs ys arbitrary: ps rule: list_all2_induct)
  case (Cons x xs y ys)
  then show ?case by (cases ps) auto
qed simp

lemma same_extras:
  assumes "same_public (pattern_segments p) vs vs'" "secrets_last (pattern_segments p)"
  shows "scrub_extras isRequest (pattern_info_of p) (map snd (group_values (pattern_segments p) vs)) =
    scrub_extras isRequest (pattern_info_of p) (map snd (group_values (pattern_segments p) vs'))"
proof -
  have "zip (pi_placeholders (pattern_info_of p)) (map snd (group_values (pattern_segments p) vs)) =
      zip (pi_placeholders (pattern_info_of p)) (map snd (group_values (pattern_segments p) vs'))"
    unfolding pattern_info_of_def pattern_info.simps
  proof (rule same_zip [OF groups_agree [OF assms(1)]])
    show "map fst (group_values (pattern_segments p) vs) = filter is_placeholder (pattern_segments p) @ filter is_secret (pattern_segments p)"
      using assms group_names [of vs "pattern_segments p"] by (simp add: same_public_def secrets_last_def)
  qed (simp add: list_all_iff)
  then show ?thesis by (simp add: scrub_extras_def)
qed

lemma same_filled:
  assumes "same_public segs vs vs'" "\<not> list_ex is_secret segs"
  shows "map2 (\<lambda>s v. js ''/'' @ segment_value s v) segs vs = map2 (\<lambda>s v. js ''/'' @ segment_value s v) segs vs'"
  using assms by (induction segs arbitrary: vs vs') (auto simp: same_public_Cons same_public_Nil segment_value_def)

lemma remove_base_prefix: "p \<noteq> [] \<Longrightarrow> remove_base (p @ s) p = s"
  by (cases p) auto

lemma patterns_nonempty: "q \<in> set (if isRequest then REQUEST_PATTERNS else ROUTE_PATTERNS) \<Longrightarrow> pattern_segments q \<noteq> []"
proof -
  have "[] \<notin> set (map pattern_regex ROUTE_PATTERNS)" "[] \<notin> set (map pattern_regex REQUEST_PATTERNS)"
    unfolding route_regexes request_regexes by simp_all
  then have "\<forall>q \<in> set ROUTE_PATTERNS. pattern_segments q \<noteq> []" "\<forall>q \<in> set REQUEST_PATTERNS. pattern_segments q \<noteq> []"
    by (auto simp: pattern_regex_def)
  then show "q \<in> set (if isRequest then REQUEST_PATTERNS else ROUTE_PATTERNS) \<Longrightarrow> pattern_segments q \<noteq> []" by (auto split: if_splits)
qed

lemma secrets_distinguished:
  assumes "q \<in> set (if isRequest then REQUEST_PATTERNS else ROUTE_PATTERNS)" "has_secret q"
  shows "distinguished (if isRequest then REQUEST_PATTERNS else ROUTE_PATTERNS) q"
  using assms routes_distinguished requests_distinguished by (auto simp: list_all_iff split: if_splits)

definition base_path :: "bool \<Rightarrow> jsstr" where
  "base_path isRequest = (if isRequest then API_BASE_PATH else butlast UI_BASE_PATH)"

definition sensitive_queries :: "bool \<Rightarrow> jsstr list" where
  "sensitive_queries isRequest = (if isRequest then REQUEST_SENSITIVE_QUERIES else ROUTE_SENSITIVE_QUERIES)"

definition same_params :: "jsstr list \<Rightarrow> (jsstr \<times> jsstr) list \<Rightarrow> (jsstr \<times> jsstr) list \<Rightarrow> bool" where
  "same_params sensitive = list_all2 (\<lambda>(k, v) (k', v'). k = k' \<and> (k \<in> set sensitive \<or> v = v'))"

lemma same_scrubbed: "same_params sensitive xs ys \<Longrightarrow> map (scrub_param sensitive) xs = map (scrub_param sensitive) ys"
  unfolding same_params_def by (induction rule: list_all2_induct) (auto simp: scrub_param_def)

text \<open>
  C11: The report of an address does not depend on its secrets. Take a pattern of the pages or of the requests, two
  addresses with the same origin whose paths are that pattern with values that agree on the placeholders, and whose parameters agree
  but for the values of the sensitive ones: the same address and the same data are reported of both.
\<close>

theorem scrubURL_hides_secrets:
  assumes "pattern \<in> set (if isRequest then REQUEST_PATTERNS else ROUTE_PATTERNS)"
    and "same_public (pattern_segments pattern) vs vs'"
    and "url_pathname u = base_path isRequest @ filled pattern vs" "url_pathname u' = base_path isRequest @ filled pattern vs'"
    and "same_params (sensitive_queries isRequest) (url_searchParams u) (url_searchParams u')" "url_origin u = url_origin u'"
  shows "scrubURL u isRequest = scrubURL u' isRequest"
proof -
  let ?ps = "if isRequest then REQUEST_PATTERNS else ROUTE_PATTERNS"
  let ?find = "\<lambda>path. case find (\<lambda>(regex, _). match_regex regex path \<noteq> None) (buildPatternsMap ?ps) of
      None \<Rightarrow> (path, [])
    | Some (regex, info) \<Rightarrow>
        (pi_pattern info, scrub_extras isRequest info (case match_regex regex path of None \<Rightarrow> [] | Some groups \<Rightarrow> groups))"
  have "base_path isRequest \<noteq> []" by (simp add: base_path_def API_BASE_PATH_def UI_BASE_PATH_def js_def)
  then have path: "remove_base (url_pathname u) (base_path isRequest) = filled pattern vs"
    "remove_base (url_pathname u') (base_path isRequest) = filled pattern vs'"
    using assms(3,4) remove_base_prefix by simp_all
  have "?find (filled pattern vs) = ?find (filled pattern vs')"
  proof (cases "has_secret pattern")
    case True
    have dist: "distinguished ?ps pattern" by (rule secrets_distinguished [OF assms(1) True])
    note ne = patterns_nonempty [where isRequest = isRequest]
    have good: "length vs = length (pattern_segments pattern)" "list_all good_value vs"
      "length vs' = length (pattern_segments pattern)" "list_all good_value vs'"
      using assms(2) by (simp_all add: same_public_def)
    have "scrub_extras isRequest (pattern_info_of pattern) (map snd (group_values (pattern_segments pattern) vs)) =
        scrub_extras isRequest (pattern_info_of pattern) (map snd (group_values (pattern_segments pattern) vs'))"
      by (rule same_extras [OF assms(2)]) (use dist in \<open>simp add: distinguished_def\<close>)
    then show ?thesis
      by (simp only: find_distinguished [OF assms(1) dist ne good(1,2)] find_distinguished [OF assms(1) dist ne good(3,4)]
        match_filled(1) [OF good(1,2) ne [OF assms(1)]] match_filled(1) [OF good(3,4) ne [OF assms(1)]] option.case prod.case)
  next
    case False
    then have "filled pattern vs = filled pattern vs'" using same_filled [OF assms(2)] by (simp add: filled_def has_secret_def)
    then show ?thesis by (simp only:)
  qed
  then show ?thesis
    unfolding scrubURL_def base_path_def [symmetric] sensitive_queries_def [symmetric] Let_def path
      same_scrubbed [OF assms(5)] assms(6) by (simp only:)
qed

definition example_url :: "jsstr \<Rightarrow> jsstr \<Rightarrow> url" where
  "example_url token code =
     \<lparr>url_origin = js ''https://example.com'', url_pathname = js ''/admin/sign-up/'' @ token,
      url_searchParams = [(js ''code'', code), (js ''lang'', js ''en'')]\<rparr>"

lemma sign_up_segments: "pattern_segments (js ''/sign-up/!token'') = [js ''sign-up'', js ''!token'']"
  by (simp add: segments_js)

theorem scrubURL_hides_secrets_witness:
  "scrubURL (example_url (js ''secret'') (js ''1'')) False = scrubURL (example_url (js ''other'') (js ''2'')) False"
proof (rule scrubURL_hides_secrets)
  show "js ''/sign-up/!token'' \<in> set (if False then REQUEST_PATTERNS else ROUTE_PATTERNS)"
    by (simp add: ROUTE_PATTERNS_def)
  show "same_public (pattern_segments (js ''/sign-up/!token'')) [js ''x'', js ''secret''] [js ''x'', js ''other'']"
    unfolding sign_up_segments by (simp add: same_public_Cons same_public_Nil is_placeholder_def good_value_def js_Cons)
  show "url_pathname (example_url (js ''secret'') (js ''1'')) = base_path False @ filled (js ''/sign-up/!token'') [js ''x'', js ''secret'']"
    "url_pathname (example_url (js ''other'') (js ''2'')) = base_path False @ filled (js ''/sign-up/!token'') [js ''x'', js ''other'']"
    unfolding filled_def sign_up_segments
    by (simp_all add: example_url_def base_path_def UI_BASE_PATH_def segment_value_def is_placeholder_def is_secret_def js_Cons)
qed (simp_all add: example_url_def same_params_def sensitive_queries_def ROUTE_SENSITIVE_QUERIES_def)

subsection \<open>A pattern that is never found\<close>

text \<open>
  The first regular expression that matches is taken: the page of the destinations is reported as the page of a connection with
  the identifier \<open>destinations\<close>, because \<open>/connections/:id\<close> comes before \<open>/connections/destinations\<close>.
\<close>

lemma find_set:
  "find (\<lambda>(r, _). P r) m = Some (r, i) \<Longrightarrow> find (\<lambda>(r, _). P r) (obj_set m k v) = Some (r, if k = r then v else i)"
proof -
  assume found: "find (\<lambda>(r, _). P r) m = Some (r, i)"
  then have "P r" by (auto simp: find_Some_iff)
  with found show ?thesis by (induction m k v rule: obj_set.induct) (auto split: if_splits)
qed

lemma find_set_new:
  "find (\<lambda>(r, _). P r) m = None \<Longrightarrow> P k \<Longrightarrow> find (\<lambda>(r, _). P r) (obj_set m k v) = Some (k, v)"
  by (induction m k v rule: obj_set.induct) (auto split: if_splits)

lemma find_first_pattern:
  assumes "ps = before @ p # after" "list_all (\<lambda>r. \<not> P r) (map pattern_regex before)" "P (pattern_regex p)"
    and only: "\<And>q. q \<in> set after \<Longrightarrow> pattern_regex q \<noteq> pattern_regex p"
  shows "find (\<lambda>(r, _). P r) (buildPatternsMap ps) = Some (pattern_regex p, pattern_info_of p)"
proof -
  let ?put = "\<lambda>output q. obj_set output (pattern_regex q) (pattern_info_of q)"
  have "find (\<lambda>(r, _). P r) (buildPatternsMap before) = None"
    using patterns_map(1) [of before] assms(2) by (fastforce simp: find_None_iff list_all_iff)
  then have first: "find (\<lambda>(r, _). P r) (?put (buildPatternsMap before) p) = Some (pattern_regex p, pattern_info_of p)"
    using assms(3) by (rule find_set_new)
  have "find (\<lambda>(r, _). P r) (foldl ?put m after) = Some (pattern_regex p, pattern_info_of p)"
    if "find (\<lambda>(r, _). P r) m = Some (pattern_regex p, pattern_info_of p)" for m
    using only that by (induction after arbitrary: m) (simp_all add: find_set)
  from this [OF first] show ?thesis by (simp add: buildPatternsMap_def assms(1))
qed

lemma destinations_reported_as_connection:
  "scrubURL \<lparr>url_origin = js ''https://example.com'', url_pathname = js ''/admin/connections/destinations'', url_searchParams = []\<rparr> False =
    (js ''https://example.com/admin/connections/:id'', [(js ''id'', js ''destinations'')])"
proof -
  let ?path = "js ''/connections/destinations''" and ?id = "js ''/connections/:id''"
  have regex: "pattern_regex ?id = [Literal (js ''connections''), AnySegment]" by (simp add: pattern_simps)
  have split: "split_on 47 ?path = [[], js ''connections'', js ''destinations'']"
    using cut_at_slash_split [of "''/connections/destinations''" "[]"] by auto
  have patterns: "ROUTE_PATTERNS = [js ''/connections''] @ ?id # drop 2 ROUTE_PATTERNS" by (simp add: ROUTE_PATTERNS_def)
  have "[Literal (js ''connections''), AnySegment] \<notin> set (map pattern_regex (drop 2 ROUTE_PATTERNS))"
    unfolding drop_map [symmetric] route_regexes by simp
  then have only: "q \<in> set (drop 2 ROUTE_PATTERNS) \<Longrightarrow> pattern_regex q \<noteq> pattern_regex ?id" for q
    unfolding regex by force
  have "find (\<lambda>(r, _). match_regex r ?path \<noteq> None) (buildPatternsMap ROUTE_PATTERNS) = Some (pattern_regex ?id, pattern_info_of ?id)"
  proof (rule find_first_pattern [OF patterns])
    show "list_all (\<lambda>r. \<not> match_regex r ?path \<noteq> None) (map pattern_regex [js ''/connections''])"
      by (simp add: pattern_simps match_regex_def split)
  qed (rule only | simp add: regex match_regex_def split; fail)+
  moreover have "match_regex (pattern_regex ?id) ?path = Some [js ''destinations'']" by (simp add: regex match_regex_def split)
  moreover have "remove_base (js ''/admin/connections/destinations'') (js ''/admin'') = ?path"
    using remove_base_prefix [of "js ''/admin''" ?path] by (simp add: js_Cons)
  moreover have "butlast UI_BASE_PATH = js ''/admin''" by (simp add: UI_BASE_PATH_def js_Cons)
  ultimately show ?thesis
    by (simp add: scrubURL_def scrub_extras_def pattern_info_of_def segments_js segment_js js_Cons [symmetric] js_append [symmetric])
      (simp add: js_Cons)
qed

end
