(* ===== verification/Day_Keys.thy ===== *)
theory Day_Keys
  imports Js_Date
begin

section \<open>Keys of days (IdentityOverview.helpers.ts)\<close>

text \<open>
  The dashboard of the identities names a day by the first ten characters of its date in ISO format and compares the names as
  strings. A \<open>Date\<close> is the number of its day, at most 100000000 days from 1970 to either side
  (\<open>time_clip\<close>); an instant its milliseconds. An invalid \<open>Date\<close>, and the \<open>RangeError\<close> that \<open>toISOString\<close> raises
  on it, is \<open>None\<close>. The keys are dates: a key of another shape is not a date and gives \<open>None\<close>.
\<close>

text \<open>The last \<open>k\<close> digits of a number.\<close>

fun pad_digits :: "nat \<Rightarrow> nat \<Rightarrow> jsstr" where
  "pad_digits 0 n = []"
| "pad_digits (Suc k) n = pad_digits k (n div 10) @ [ch CHR ''0'' + n mod 10]"

text \<open>\<open>toISOString\<close>, up to the time: years that have not four digits have a sign and six.\<close>

definition iso_date :: "int \<Rightarrow> jsstr" where
  "iso_date n =
     (let c = civil_from_day n; y = civil_year c in
      (if 0 \<le> y \<and> y \<le> 9999 then pad_digits 4 (nat y)
       else (if y < 0 then ch CHR ''-'' else ch CHR ''+'') # pad_digits 6 (nat \<bar>y\<bar>)) @
      ch CHR ''-'' # pad_digits 2 (civil_month c) @ ch CHR ''-'' # pad_digits 2 (civil_day c))"

definition date_key :: "int \<Rightarrow> jsstr" where
  "date_key n = take 10 (iso_date n)"

definition numeric_part :: "jsstr \<Rightarrow> nat option" where
  "numeric_part s = (if s \<noteq> [] \<and> list_all is_digit s then Some (decimal_value s) else None)"

definition MAX_DATE_DAYS :: int where
  "MAX_DATE_DAYS = 100000000"

definition time_clip :: "int \<Rightarrow> int option" where
  "time_clip n = (if \<bar>n\<bar> \<le> MAX_DATE_DAYS then Some n else None)"

text \<open>\<open>Date.UTC\<close> counts the years below 100 from 1900.\<close>

definition dateKeyToUTCDate :: "jsstr \<Rightarrow> int option" where
  "dateKeyToUTCDate dateKey =
     (case map numeric_part (split_on (ch CHR ''-'') dateKey) of
        Some y # Some m # Some d # _ \<Rightarrow>
          if 1 \<le> m \<and> m \<le> 12 then time_clip (make_day (if y \<le> 99 then 1900 + int y else int y) m d) else None
      | _ \<Rightarrow> None)"

definition DAY_MS :: int where
  "DAY_MS = 24 * 60 * 60 * 1000"

definition instantToDateKey :: "int \<Rightarrow> jsstr" where
  "instantToDateKey instant = date_key (instant div DAY_MS)"

definition addUTCDays :: "jsstr \<Rightarrow> int \<Rightarrow> jsstr option" where
  "addUTCDays dateKey days = Option.bind (dateKeyToUTCDate dateKey) (\<lambda>date. map_option date_key (time_clip (date + days)))"

definition daysBetween :: "jsstr \<Rightarrow> jsstr \<Rightarrow> int option" where
  "daysBetween start stop =
     Option.bind (dateKeyToUTCDate stop) (\<lambda>e. Option.bind (dateKeyToUTCDate start) (\<lambda>s. Some (e - s)))"

text \<open>The days a loop goes through, one after the other, as long as its condition holds.\<close>

partial_function (option) days_while :: "(jsstr \<Rightarrow> bool) \<Rightarrow> jsstr \<Rightarrow> jsstr list option" where
  "days_while continues day =
     (if continues day
      then Option.bind (addUTCDays day 1) (\<lambda>next_day. Option.bind (days_while continues next_day) (\<lambda>days. Some (day # days)))
      else Some [])"

subsection \<open>The calendar\<close>

lemma make_day_civil: "make_day (civil_year (civil_from_day n)) (civil_month (civil_from_day n)) (civil_day (civil_from_day n)) = n"
proof -
  let ?y = "year_from_day n"
  let ?ls = "month_lengths (is_leap ?y)"
  obtain k d where kd: "locate ?ls (nat (n - DayFromYear ?y)) = (k, d)" by (cases "locate ?ls (nat (n - DayFromYear ?y))")
  have "nat (n - DayFromYear ?y) < sum_list ?ls"
    using year_from_day_bounds [of n] by (auto simp: sum_month_lengths DayFromYear_Suc split: if_splits)
  from locate_bounds [OF this kd] have "nat (n - DayFromYear ?y) = sum_list (take k ?ls) + d" by simp
  moreover have "DayFromYear ?y \<le> n" using year_from_day_bounds [of n] by simp
  moreover have "civil_from_day n = Civil ?y (Suc k) (Suc d)" unfolding civil_from_day_def Let_def kd by simp
  ultimately show ?thesis by (simp add: make_day_def)
qed

lemma sum_take_mono: "i \<le> j \<Longrightarrow> sum_list (take i ls) \<le> (sum_list (take j ls) :: nat)"
proof (induction ls arbitrary: i j)
  case (Cons l ls)
  then show ?case by (cases i; cases j) auto
qed simp

lemma make_day_less:
  assumes a: "valid_civil (Civil y m d)" and b: "valid_civil (Civil y' m' d')" and less: "Civil y m d < Civil y' m' d'"
  shows "make_day y m d < make_day y' m' d'"
proof -
  have inside: "sum_list (take (m - 1) (month_lengths (is_leap y))) + d \<le> sum_list (take m (month_lengths (is_leap y)))" "1 \<le> m" "m \<le> 12"
  proof -
    have m: "1 \<le> m" "m \<le> 12" "d \<le> month_lengths (is_leap y) ! (m - 1)" using a by (auto simp: valid_civil_def days_in_month_def)
    then have "take m (month_lengths (is_leap y)) = take (m - 1) (month_lengths (is_leap y)) @ [month_lengths (is_leap y) ! (m - 1)]"
      using take_Suc_conv_app_nth [of "m - 1" "month_lengths (is_leap y)"] by simp
    then show "sum_list (take (m - 1) (month_lengths (is_leap y))) + d \<le> sum_list (take m (month_lengths (is_leap y)))" "1 \<le> m" "m \<le> 12"
      using m by simp_all
  qed
  show ?thesis
  proof (cases "y < y'")
    case True
    have "sum_list (take m (month_lengths (is_leap y))) \<le> sum_list (take 12 (month_lengths (is_leap y)))"
      by (rule sum_take_mono) (use inside in simp)
    then have "make_day y m d < DayFromYear (y + 1)" using inside by (simp add: make_day_def DayFromYear_Suc sum_month_lengths split: if_splits)
    moreover have "DayFromYear (y + 1) \<le> DayFromYear y'" using True by (intro DayFromYear_mono) simp
    moreover have "DayFromYear y' \<le> make_day y' m' d'" using b by (simp add: make_day_def valid_civil_def)
    ultimately show ?thesis by linarith
  next
    case False
    then have y: "y' = y" and md: "m < m' \<or> m = m' \<and> d < d'"
      using less unfolding less_civil_def less_eq_civil_def civil.sel by linarith+
    have "sum_list (take m (month_lengths (is_leap y))) \<le> sum_list (take (m' - 1) (month_lengths (is_leap y)))" if "m < m'"
      by (rule sum_take_mono) (use that in simp)
    then show ?thesis using md inside b by (auto simp: y make_day_def valid_civil_def)
  qed
qed

lemma civil_from_day_less: "civil_from_day a < civil_from_day b \<longleftrightarrow> a < b"
proof -
  have up: "a < b" if "civil_from_day a < civil_from_day b" for a b
    using make_day_less [of "civil_year (civil_from_day a)" "civil_month (civil_from_day a)" "civil_day (civil_from_day a)"
        "civil_year (civil_from_day b)" "civil_month (civil_from_day b)" "civil_day (civil_from_day b)"]
      valid_civil_from_day [of a] valid_civil_from_day [of b] that
    unfolding make_day_civil civil.collapse by blast
  have "civil_from_day a = civil_from_day b \<Longrightarrow> a = b" for a b by (metis make_day_civil)
  then show ?thesis using up by (metis less_irrefl linorder_less_linear not_less_iff_gr_or_eq)
qed

subsection \<open>The keys\<close>

lemma length_pad [simp]: "length (pad_digits k n) = k"
  by (induction k arbitrary: n) simp_all

lemma pad_digits_digits: "c \<in> set (pad_digits k n) \<Longrightarrow> is_digit c"
  by (induction k arbitrary: n) (auto simp: is_digit_iff)

lemma decimal_pad: "n < 10 ^ k \<Longrightarrow> decimal_value (pad_digits k n) = n"
  by (induction k arbitrary: n) (auto simp: number_of_digits_def hex_value_def is_digit_iff)

lemma pad_inject: "n < 10 ^ k \<Longrightarrow> m < 10 ^ k \<Longrightarrow> pad_digits k n = pad_digits k m \<longleftrightarrow> n = m"
  using decimal_pad by metis

lemma append_less:
  "length a = length c \<Longrightarrow> a @ b < c @ d \<longleftrightarrow> a < c \<or> a = c \<and> b < (d :: jsstr)"
  by (induction a c rule: list_induct2) auto

lemma tens_less: "r < 10 \<Longrightarrow> r' < 10 \<Longrightarrow> q < q' \<or> q = q' \<and> r < r' \<longleftrightarrow> 10 * q + r < 10 * q' + (r' :: nat)"
  by linarith

lemma pad_less: "n < 10 ^ k \<Longrightarrow> m < 10 ^ k \<Longrightarrow> pad_digits k n < pad_digits k m \<longleftrightarrow> n < m"
proof (induction k arbitrary: n m)
  case (Suc k)
  have small: "n div 10 < 10 ^ k" "m div 10 < 10 ^ k" using Suc.prems by (simp_all add: less_mult_imp_div_less mult.commute)
  have "pad_digits (Suc k) n < pad_digits (Suc k) m \<longleftrightarrow> n div 10 < m div 10 \<or> n div 10 = m div 10 \<and> n mod 10 < m mod 10"
    by (simp add: append_less Suc.IH [OF small] pad_inject [OF small])
  also have "\<dots> \<longleftrightarrow> n < m"
    using tens_less [of "n mod 10" "m mod 10" "n div 10" "m div 10"] by (simp only: mult_div_mod_eq)
  finally show ?case .
qed simp

text \<open>The days of the years 100 to 9999.\<close>

definition key_day :: "int \<Rightarrow> bool" where
  "key_day n \<longleftrightarrow> DayFromYear 100 \<le> n \<and> n < DayFromYear 10000"

lemma key_day_year: "key_day n \<longleftrightarrow> 100 \<le> year_from_day n \<and> year_from_day n \<le> 9999"
  using year_from_day_le_iff [of 100 n] year_from_day_le_iff [of 10000 n] by (auto simp: key_day_def)

lemma time_clip_key [simp]: "key_day n \<Longrightarrow> time_clip n = Some n"
  by (auto simp: key_day_def time_clip_def MAX_DATE_DAYS_def DayFromYear_def abs_le_iff)

lemma key_day_between: "key_day a \<Longrightarrow> key_day b \<Longrightarrow> a \<le> n \<Longrightarrow> n \<le> b \<Longrightarrow> key_day n"
  by (auto simp: key_day_def)

lemma month_day_bounds: "civil_month (civil_from_day n) < 100" "civil_day (civil_from_day n) < 100"
  "1 \<le> civil_month (civil_from_day n)" "civil_month (civil_from_day n) \<le> 12"
proof -
  have "valid_civil (civil_from_day n)" by (rule valid_civil_from_day)
  then show "civil_month (civil_from_day n) < 100" "civil_day (civil_from_day n) < 100"
    "1 \<le> civil_month (civil_from_day n)" "civil_month (civil_from_day n) \<le> 12"
    using days_in_month_le [of "civil_month (civil_from_day n)" "civil_year (civil_from_day n)"] by (auto simp: valid_civil_def)
qed

lemma date_key_eq:
  assumes "key_day n"
  shows "date_key n = pad_digits 4 (nat (year_from_day n)) @ 45 # pad_digits 2 (civil_month (civil_from_day n)) @ 45 # pad_digits 2 (civil_day (civil_from_day n))"
  using assms by (simp add: date_key_def iso_date_def Let_def key_day_year)

lemma dateKeyToUTCDate_key:
  assumes "key_day n"
  shows "dateKeyToUTCDate (date_key n) = Some n"
proof -
  have no: "45 \<notin> set (pad_digits k m)" for k m using pad_digits_digits [of 45 k m] by (auto simp: is_digit_iff)
  have part: "numeric_part (pad_digits k m) = Some m" if "0 < k" "m < 10 ^ k" for k m
    using that pad_digits_digits length_pad [of k m] by (auto simp: numeric_part_def list_all_iff decimal_pad simp del: length_pad)
  have year: "nat (year_from_day n) < 10 ^ 4" "\<not> nat (year_from_day n) \<le> 99" using assms by (auto simp: key_day_year)
  have "map numeric_part (split_on 45 (date_key n)) =
      [Some (nat (year_from_day n)), Some (civil_month (civil_from_day n)), Some (civil_day (civil_from_day n))]"
    unfolding date_key_eq [OF assms] using year month_day_bounds [of n]
    by (simp add: split_on_append [OF no] split_on_no_sep [OF no] part del: pad_digits.simps)
  moreover have "make_day (int (nat (year_from_day n))) (civil_month (civil_from_day n)) (civil_day (civil_from_day n)) = n"
    using make_day_civil [of n] assms by (simp add: key_day_year)
  ultimately show ?thesis using year month_day_bounds [of n] assms by (simp add: dateKeyToUTCDate_def)
qed

lemma date_key_less:
  assumes "key_day a" "key_day b"
  shows "date_key a < date_key b \<longleftrightarrow> a < b"
proof -
  let ?a = "civil_from_day a" and ?b = "civil_from_day b"
  have year: "pad_digits 4 (nat (year_from_day a)) < pad_digits 4 (nat (year_from_day b)) \<longleftrightarrow> year_from_day a < year_from_day b"
    "pad_digits 4 (nat (year_from_day a)) = pad_digits 4 (nat (year_from_day b)) \<longleftrightarrow> year_from_day a = year_from_day b"
    using assms unfolding key_day_year by (subst pad_less pad_inject; auto)+
  have month: "pad_digits 2 (civil_month ?a) < pad_digits 2 (civil_month ?b) \<longleftrightarrow> civil_month ?a < civil_month ?b"
    "pad_digits 2 (civil_month ?a) = pad_digits 2 (civil_month ?b) \<longleftrightarrow> civil_month ?a = civil_month ?b"
    "pad_digits 2 (civil_day ?a) < pad_digits 2 (civil_day ?b) \<longleftrightarrow> civil_day ?a < civil_day ?b"
    using month_day_bounds [of a] month_day_bounds [of b] by (simp_all add: pad_less pad_inject)
  have "date_key a < date_key b \<longleftrightarrow> year_from_day a < year_from_day b \<or> year_from_day a = year_from_day b \<and>
      (civil_month ?a < civil_month ?b \<or> civil_month ?a = civil_month ?b \<and> civil_day ?a < civil_day ?b)"
    unfolding date_key_eq [OF assms(1)] date_key_eq [OF assms(2)] by (simp add: append_less year month)
  also have "\<dots> \<longleftrightarrow> ?a < ?b" unfolding less_civil_def less_eq_civil_def civil_year_from_day by auto
  finally show ?thesis by (simp add: civil_from_day_less)
qed

lemma date_key_le: "key_day a \<Longrightarrow> key_day b \<Longrightarrow> date_key a \<le> date_key b \<longleftrightarrow> a \<le> b"
  using date_key_less [of b a] by (auto simp: not_less [symmetric])

lemma date_key_inject: "key_day a \<Longrightarrow> key_day b \<Longrightarrow> date_key a = date_key b \<longleftrightarrow> a = b"
  using dateKeyToUTCDate_key by (metis option.inject)

lemma addUTCDays_clip: "key_day n \<Longrightarrow> addUTCDays (date_key n) k = map_option date_key (time_clip (n + k))"
  by (simp add: addUTCDays_def dateKeyToUTCDate_key)

lemma addUTCDays_key: "key_day n \<Longrightarrow> key_day (n + k) \<Longrightarrow> addUTCDays (date_key n) k = Some (date_key (n + k))"
  by (simp add: addUTCDays_clip)

lemma daysBetween_key: "key_day a \<Longrightarrow> key_day b \<Longrightarrow> daysBetween (date_key a) (date_key b) = Some (b - a)"
  by (simp add: daysBetween_def dateKeyToUTCDate_key)

lemma days_while_keys:
  assumes "a \<le> b" "\<And>n. a \<le> n \<Longrightarrow> n \<le> b \<Longrightarrow> key_day n \<and> (continues (date_key n) \<longleftrightarrow> n < b)"
  shows "days_while continues (date_key a) = Some (map date_key [a..b - 1])"
  using assms
proof (induction "nat (b - a)" arbitrary: a)
  case 0
  then show ?case by (subst days_while.simps) simp
next
  case (Suc n)
  then have "days_while continues (date_key (a + 1)) = Some (map date_key [a + 1..b - 1])"
    by (intro Suc.hyps(1)) simp_all
  moreover have "[a..b - 1] = a # [a + 1..b - 1]" using Suc.hyps by (intro upto_rec1) simp
  moreover have "key_day a" "key_day (a + 1)" "continues (date_key a)"
    using Suc.prems(2) [of a] Suc.prems(2) [of "a + 1"] Suc.hyps(2) by simp_all
  ultimately show ?case by (subst days_while.simps) (simp add: addUTCDays_key)
qed

lemma days_before:
  assumes "key_day a" "key_day b"
  shows "days_while (\<lambda>day. day < date_key b) (date_key a) = Some (map date_key [a..b - 1])"
proof (cases "a \<le> b")
  case True
  then show ?thesis by (rule days_while_keys) (use assms key_day_between date_key_less in blast)
next
  case False
  then show ?thesis using assms by (subst days_while.simps) (simp add: date_key_less)
qed

lemma days_upto:
  assumes "key_day a" "key_day (b + 1)" "a \<le> b"
  shows "days_while (\<lambda>day. day \<le> date_key b) (date_key a) = Some (map date_key [a..b])"
proof -
  have keys: "key_day n" if "a \<le> n" "n \<le> b + 1" for n using that assms by (auto simp: key_day_def)
  have "days_while (\<lambda>day. day \<le> date_key b) (date_key a) = Some (map date_key [a..b + 1 - 1])"
  proof (rule days_while_keys)
    fix n assume n: "a \<le> n" "n \<le> b + 1"
    have "date_key n \<le> date_key b \<longleftrightarrow> n \<le> b" using keys n assms(3) by (intro date_key_le) simp_all
    then show "key_day n \<and> (date_key n \<le> date_key b \<longleftrightarrow> n < b + 1)" using keys n by auto
  qed (use assms(3) in simp)
  then show ?thesis by simp
qed

text \<open>
  C23: For days of the years 100 to 9999, whose keys have ten characters, arithmetic on keys is arithmetic on days and
  the comparison of keys as strings is that of days. Adding days to the key of a day gives the key of that many days
  later when this day is in the range of Date, 100000000 days from 1970 to either side, and raises an exception
  otherwise; the key is read back as its day when this is in the years 100 to 9999 too. The days between two keys are
  the difference, and a loop from one key to another that adds one goes through the days between them, each once, in
  order, and ends.
\<close>

theorem date_keys_are_days:
  assumes "key_day a" "key_day b"
  shows "addUTCDays (date_key a) k = (if \<bar>a + k\<bar> \<le> 100000000 then Some (date_key (a + k)) else None) \<and>
    (key_day (a + k) \<longrightarrow> Option.bind (addUTCDays (date_key a) k) dateKeyToUTCDate = Some (a + k)) \<and>
    daysBetween (date_key a) (date_key b) = Some (b - a) \<and>
    (date_key a < date_key b \<longleftrightarrow> a < b) \<and> (date_key a = date_key b \<longleftrightarrow> a = b) \<and>
    days_while (\<lambda>day. day < date_key b) (date_key a) = Some (map date_key [a..b - 1])"
proof -
  have "addUTCDays (date_key a) k = (if \<bar>a + k\<bar> \<le> 100000000 then Some (date_key (a + k)) else None)"
    by (simp add: addUTCDays_clip assms time_clip_def MAX_DATE_DAYS_def)
  moreover have "key_day (a + k) \<longrightarrow> Option.bind (addUTCDays (date_key a) k) dateKeyToUTCDate = Some (a + k)"
    by (simp add: addUTCDays_key assms dateKeyToUTCDate_key)
  ultimately show ?thesis by (simp add: daysBetween_key date_key_less date_key_inject days_before assms)
qed

theorem date_keys_are_days_witness:
  "date_key 19782 = js ''2024-02-29'' \<and> addUTCDays (js ''2024-02-29'') 1 = Some (js ''2024-03-01'')"
proof -
  have keys: "key_day 19782" by (simp add: key_day_def DayFromYear_def)
  have dates: "date_key 19782 = js ''2024-02-29''" "date_key 19783 = js ''2024-03-01''" by code_simp+
  show ?thesis using date_keys_are_days [OF keys keys, of 1] by (simp add: dates)
qed

end
