(* ===== verification/Identity_Metrics.thy ===== *)
theory Identity_Metrics
  imports Day_Keys Js_Double Stationary_Sequence
begin

section \<open>The dashboard of the identities (IdentityOverview.helpers.ts)\<close>

text \<open>
  What the dashboard fetches and computes of the metrics of identities. Counts are integers below \<open>2 ^ 53\<close>, whose sums
  are exact, and are \<open>int\<close> here; values of a trend are finite doubles, their quotients rounded. An instant is its
  milliseconds; an exception is \<open>None\<close>. \<open>history\<close> is the request of the days before the latest one. On the keys of days
  \<open>localeCompare\<close> is the order of the strings; of names it is \<open>before\<close>.
\<close>

record display_range =
  dr_start :: jsstr
  dr_end :: jsstr

record metric_day =
  md_day :: jsstr
  md_total :: int
  md_anonymous :: int
  md_recognized :: int

record connection_metric =
  cm_connection :: jsstr
  cm_anonymous :: int
  cm_recognized :: int
  cm_withoutProfile :: int

record identity_metric =
  im_observedAt :: int
  im_total :: int
  im_anonymous :: int
  im_recognized :: int
  im_withoutProfile :: int
  im_connections :: "connection_metric list"

record chart_day =
  cd_day :: jsstr
  cd_total :: "int option"
  cd_anonymous :: "int option"
  cd_recognized :: "int option"

datatype date_preset = Last7Days | Last30Days | Last90Days

definition DELETED_CONNECTION_SCOPE :: jsstr where
  "DELETED_CONNECTION_SCOPE = js ''deleted''"

definition DELETED_CONNECTION_LABEL :: jsstr where
  "DELETED_CONNECTION_LABEL = js ''Removed connections''"

definition MIN_METRICS_DATE :: jsstr where
  "MIN_METRICS_DATE = js ''1970-01-01''"

subsection \<open>Ranges\<close>

definition displayRangeForPreset :: "date_preset \<Rightarrow> jsstr \<Rightarrow> display_range option" where
  "displayRangeForPreset preset stop =
     (let days = (if preset = Last7Days then 7 else if preset = Last30Days then 30 else 90)
      in map_option (\<lambda>start. \<lparr>dr_start = start, dr_end = stop\<rparr>) (addUTCDays stop (- (days - 1))))"

definition computeFetchRange :: "display_range \<Rightarrow> jsstr \<Rightarrow> display_range option" where
  "computeFetchRange displayRange fixedTrendEnd =
     Option.bind (addUTCDays fixedTrendEnd (- 59)) (\<lambda>trendStart.
     Option.bind (daysBetween (dr_start displayRange) (dr_end displayRange)) (\<lambda>between.
     Option.bind (addUTCDays (dr_start displayRange) (- (between + 1))) (\<lambda>comparisonStart.
       let start = (if comparisonStart < trendStart then comparisonStart else trendStart) in
     Option.bind (addUTCDays (if fixedTrendEnd < dr_end displayRange then dr_end displayRange else fixedTrendEnd) 1) (\<lambda>stop.
       Some \<lparr>dr_start = (if start < MIN_METRICS_DATE then MIN_METRICS_DATE else start), dr_end = stop\<rparr>))))"

text \<open>\<open>latestIdentityDay\<close> and \<open>shouldShowLatestResolutionComparison\<close>\<close>

definition buildTemporalSemantics :: "display_range \<Rightarrow> int option \<Rightarrow> int option \<Rightarrow> jsstr option \<times> bool" where
  "buildTemporalSemantics displayRange identityObservedAt resolutionObservedAt =
     (let latestIdentityDay = map_option instantToDateKey identityObservedAt;
          latestAvailableDay = (case latestIdentityDay of None \<Rightarrow> map_option instantToDateKey resolutionObservedAt | Some d \<Rightarrow> Some d)
      in (latestIdentityDay, latestAvailableDay = Some (dr_end displayRange)))"

subsection \<open>Days\<close>

definition deleted_counts :: "connection_metric list \<Rightarrow> int \<times> int \<times> int" where
  "deleted_counts connections =
     foldl (\<lambda>(a, r, w) c. (a + cm_anonymous c, r + cm_recognized c, w + cm_withoutProfile c)) (0, 0, 0) connections"

definition buildDeletedConnectionMetric :: "identity_metric option \<Rightarrow> connection_metric option" where
  "buildDeletedConnectionMetric latest =
     (case latest of
        None \<Rightarrow> None
      | Some l \<Rightarrow>
          (case deleted_counts (im_connections l) of
             (a, r, w) \<Rightarrow> Some \<lparr>cm_connection = DELETED_CONNECTION_SCOPE, cm_anonymous = im_anonymous l - a,
                            cm_recognized = im_recognized l - r, cm_withoutProfile = im_withoutProfile l - w\<rparr>))"

text \<open>The counts of the latest state of what is selected: \<open>anonymous\<close> and \<open>recognized\<close>.\<close>

definition anchored_counts :: "identity_metric \<Rightarrow> jsstr option \<Rightarrow> int \<times> int" where
  "anchored_counts latest connectionSelection =
     (case connectionSelection of
        None \<Rightarrow> (im_anonymous latest, im_recognized latest)
      | Some c \<Rightarrow>
          if c = DELETED_CONNECTION_SCOPE
          then (case buildDeletedConnectionMetric (Some latest) of
                  None \<Rightarrow> (0, 0) | Some d \<Rightarrow> (cm_anonymous d, cm_recognized d))
          else (case find (\<lambda>m. cm_connection m = c) (im_connections latest) of
                  None \<Rightarrow> (0, 0) | Some m \<Rightarrow> (cm_anonymous m, cm_recognized m)))"

text \<open>The days a loop adds, and the days of the history that are kept.\<close>

definition anchored_days :: "jsstr \<Rightarrow> display_range \<Rightarrow> jsstr list option" where
  "anchored_days latestDay window =
     days_while (\<lambda>day. day < dr_end window) (if latestDay < dr_start window then dr_start window else latestDay)"

definition in_history :: "jsstr \<Rightarrow> display_range \<Rightarrow> jsstr \<Rightarrow> bool" where
  "in_history latestDay window day \<longleftrightarrow> dr_start window \<le> day \<and> day < dr_end window \<and> day < latestDay"

definition completeIdentityMetricDays ::
    "metric_day list \<Rightarrow> identity_metric \<Rightarrow> display_range \<Rightarrow> jsstr option \<Rightarrow> metric_day list option" where
  "completeIdentityMetricDays days latest window connectionSelection =
     (case anchored_counts latest connectionSelection of
        (anonymous, recognized) \<Rightarrow>
          let latestDay = instantToDateKey (im_observedAt latest);
              result = filter (\<lambda>day. in_history latestDay window (md_day day)) days
          in map_option (\<lambda>added. result @ map (\<lambda>day. \<lparr>md_day = day, md_total = anonymous + recognized, md_anonymous = anonymous,
                 md_recognized = recognized\<rparr>) added) (anchored_days latestDay window))"

definition fetchIdentityMetricDays ::
    "(jsstr \<Rightarrow> jsstr \<Rightarrow> jsstr option \<Rightarrow> metric_day list) \<Rightarrow> identity_metric \<Rightarrow> display_range \<Rightarrow> jsstr option \<Rightarrow> metric_day list option" where
  "fetchIdentityMetricDays history latest requestedRange connectionSelection =
     (let latestDay = instantToDateKey (im_observedAt latest) in
      Option.bind (computeFetchRange requestedRange latestDay) (\<lambda>fetchRange.
        completeIdentityMetricDays
          (if dr_start fetchRange < latestDay then history (dr_start fetchRange) latestDay connectionSelection else [])
          latest fetchRange connectionSelection))"

definition chart_day_of :: "metric_day obj \<Rightarrow> jsstr \<Rightarrow> chart_day" where
  "chart_day_of metricsByDay day =
     (case obj_get metricsByDay day of
        Some m \<Rightarrow> \<lparr>cd_day = day, cd_total = Some (md_total m), cd_anonymous = Some (md_anonymous m), cd_recognized = Some (md_recognized m)\<rparr>
      | None \<Rightarrow> \<lparr>cd_day = day, cd_total = None, cd_anonymous = None, cd_recognized = None\<rparr>)"

definition buildIdentityMetricChartDays :: "metric_day list \<Rightarrow> display_range \<Rightarrow> chart_day list option" where
  "buildIdentityMetricChartDays days window =
     map_option (map (chart_day_of (obj_spread [] (map (\<lambda>day. (md_day day, day)) days))))
       (days_while (\<lambda>day. day \<le> dr_end window) (dr_start window))"

subsection \<open>Trends\<close>

record trend_point =
  tp_day :: jsstr
  tp_total :: "rat option"

record identity_trend =
  it_changePercent :: "js_double option"
  it_currentValue :: "rat option"
  it_referenceValue :: "rat option"
  it_currentDay :: jsstr
  it_referenceDay :: jsstr
  it_points :: "trend_point list"

definition sliceDays :: "trend_point list \<Rightarrow> display_range \<Rightarrow> trend_point list" where
  "sliceDays days window = sort_key tp_day (filter (\<lambda>day. dr_start window \<le> tp_day day \<and> tp_day day \<le> dr_end window) days)"

definition valueAsOf :: "trend_point list \<Rightarrow> jsstr \<Rightarrow> rat option" where
  "valueAsOf days targetDay =
     snd (foldl (\<lambda>(selectedDay, selectedValue) point.
       if tp_day point \<le> targetDay \<and> selectedDay \<le> tp_day point \<and> tp_total point \<noteq> None
       then (tp_day point, tp_total point) else (selectedDay, selectedValue)) ([], None) days)"

text \<open>An operation on doubles; its operands are finite here.\<close>

definition double_op :: "(rat \<Rightarrow> rat \<Rightarrow> rat) \<Rightarrow> js_double \<Rightarrow> js_double \<Rightarrow> js_double" where
  "double_op f a b = (case (a, b) of (Finite x, Finite y) \<Rightarrow> to_double (f x y) | _ \<Rightarrow> NotANumber)"

definition change_percent :: "rat option \<Rightarrow> rat option \<Rightarrow> js_double option" where
  "change_percent current reference =
     (case (current, reference) of
        (Some c, Some r) \<Rightarrow>
          if r = 0 then None
          else Some (double_op (*) (double_op (/) (double_op (-) (Finite c) (Finite r)) (Finite r)) (Finite 100))
      | _ \<Rightarrow> None)"

definition calculateIdentityTrend :: "trend_point list \<Rightarrow> jsstr \<Rightarrow> int \<Rightarrow> identity_trend option" where
  "calculateIdentityTrend days stop trendLength =
     Option.bind (addUTCDays stop (- (trendLength - 1))) (\<lambda>currentStart.
     Option.bind (addUTCDays stop (- trendLength)) (\<lambda>referenceDay.
       let currentValue = valueAsOf days stop; referenceValue = valueAsOf days referenceDay in
       Some \<lparr>it_changePercent = change_percent currentValue referenceValue, it_currentValue = currentValue,
             it_referenceValue = referenceValue, it_currentDay = stop, it_referenceDay = referenceDay,
             it_points = sliceDays days \<lparr>dr_start = currentStart, dr_end = stop\<rparr>\<rparr>))"

definition trend_point_of :: "metric_day \<Rightarrow> trend_point" where
  "trend_point_of day = \<lparr>tp_day = md_day day, tp_total = Some (of_int (md_total day))\<rparr>"

definition calculateIdentityChangeSinceResolution :: "int option \<Rightarrow> int option \<Rightarrow> int option" where
  "calculateIdentityChangeSinceResolution currentIdentities processedIdentities =
     (case (currentIdentities, processedIdentities) of (Some c, Some p) \<Rightarrow> Some (c - p) | _ \<Rightarrow> None)"

subsection \<open>Connections\<close>

record connection_bar =
  cb_connection :: jsstr
  cb_name :: jsstr
  cb_recognized :: int
  cb_anonymous :: int
  cb_total :: int

definition add_connection :: "(int \<times> int) obj \<Rightarrow> connection_metric \<Rightarrow> (int \<times> int) obj" where
  "add_connection totals c =
     (case (case obj_get totals (cm_connection c) of None \<Rightarrow> (0, 0) | Some t \<Rightarrow> t) of
        (recognized, anonymous) \<Rightarrow> obj_set totals (cm_connection c) (recognized + cm_recognized c, anonymous + cm_anonymous c))"

definition bar_of :: "jsstr obj \<Rightarrow> jsstr \<times> int \<times> int \<Rightarrow> connection_bar" where
  "bar_of names entry =
     (case entry of
        (connection, recognized, anonymous) \<Rightarrow>
          \<lparr>cb_connection = connection, cb_name = (case obj_get names connection of None \<Rightarrow> connection | Some name \<Rightarrow> name),
           cb_recognized = recognized, cb_anonymous = anonymous, cb_total = recognized + anonymous\<rparr>)"

text \<open>The comparison is at most zero.\<close>

definition bar_le :: "(jsstr \<Rightarrow> jsstr \<Rightarrow> bool) \<Rightarrow> connection_bar \<Rightarrow> connection_bar \<Rightarrow> bool" where
  "bar_le before left right \<longleftrightarrow>
     cb_total right < cb_total left \<or> cb_total right = cb_total left \<and> \<not> before (cb_connection right) (cb_connection left)"

definition aggregateConnections ::
    "(jsstr \<Rightarrow> jsstr \<Rightarrow> bool) \<Rightarrow> connection_metric list \<Rightarrow> jsstr obj \<Rightarrow> nat \<Rightarrow> connection_bar list" where
  "aggregateConnections before connections names limit =
     (let bars = sort_by (bar_le before) (map (bar_of names) (foldl add_connection [] connections)) in
      if list_all (\<lambda>c. cb_total c = 0) bars then []
      else if length bars \<le> limit + 1 then bars
      else take limit bars @
        [\<lparr>cb_connection = js ''__other__'', cb_name = js ''Other'', cb_recognized = sum_list (map cb_recognized (drop limit bars)),
          cb_anonymous = sum_list (map cb_anonymous (drop limit bars)), cb_total = sum_list (map cb_total (drop limit bars))\<rparr>])"

text \<open>\<open>latestConnectionMetrics\<close> of the page: the removed connections are added when they have identities.\<close>

definition latest_connection_metrics :: "identity_metric \<Rightarrow> connection_metric list" where
  "latest_connection_metrics latest =
     (case buildDeletedConnectionMetric (Some latest) of
        None \<Rightarrow> im_connections latest
      | Some d \<Rightarrow> if 0 < cm_anonymous d + cm_recognized d then im_connections latest @ [d] else im_connections latest)"

text \<open>A connection is its identifier, its name and whether it is a source.\<close>

definition buildIdentityConnectionOptions ::
    "(jsstr \<Rightarrow> jsstr \<Rightarrow> bool) \<Rightarrow> (jsstr \<times> jsstr \<times> bool) list \<Rightarrow> connection_metric list \<Rightarrow> (jsstr \<times> jsstr) list" where
  "buildIdentityConnectionOptions before connections metrics =
     (let sources = foldl (\<lambda>options (i, name, source). if source then obj_set options i (if name \<noteq> [] then name else i) else options)
                      [] connections;
          deleted = obj_set sources DELETED_CONNECTION_SCOPE DELETED_CONNECTION_LABEL;
          options = foldl (\<lambda>options m.
              if cm_connection m = DELETED_CONNECTION_SCOPE then options
              else if obj_get options (cm_connection m) = None then obj_set options (cm_connection m) (cm_connection m)
              else options) deleted metrics
      in sort_by (\<lambda>(i, name) (j, name').
           if (i = DELETED_CONNECTION_SCOPE) \<noteq> (j = DELETED_CONNECTION_SCOPE) then j = DELETED_CONNECTION_SCOPE
           else before name name' \<or> \<not> before name' name \<and> \<not> before j i) options)"

end
