(* ===== verification/Identity_Dashboard.thy ===== *)
theory Identity_Dashboard
  imports Identity_Metrics
begin

section \<open>What the dashboard of the identities shows\<close>

text \<open>
  The chart shows every day of the displayed range once: the latest state from the day it was observed on, the history
  before. The trends compare that state with the history, and the bars of the connections account for all identities.
\<close>

subsection \<open>The fetched days\<close>

lemma min_date_key: "MIN_METRICS_DATE = date_key 0" "key_day 0"
proof -
  show "MIN_METRICS_DATE = date_key 0" by code_simp
  show "key_day 0" by (simp add: key_day_def DayFromYear_def)
qed

definition fetch_start :: "int \<Rightarrow> int \<Rightarrow> int \<Rightarrow> int" where
  "fetch_start a b latest = max 0 (min (2 * a - b - 1) (latest - 59))"

text \<open>The days the dates of the dashboard are in.\<close>

definition dashboard_days :: "int \<Rightarrow> int \<Rightarrow> int \<Rightarrow> bool" where
  "dashboard_days a b latest \<longleftrightarrow>
     0 \<le> a \<and> a \<le> b \<and> 0 \<le> latest \<and> key_day (2 * a - b - 1) \<and> key_day (latest - 59) \<and> key_day (max b latest + 1)"

lemma dashboard_key_days:
  assumes "dashboard_days a b latest"
  shows "key_day (2 * a - b - 1)" "key_day (latest - 59)" "key_day (max b latest + 1)" "key_day (fetch_start a b latest)"
    and "n \<le> max b latest + 1 \<Longrightarrow> 2 * a - b - 1 \<le> n \<or> latest - 59 \<le> n \<Longrightarrow> key_day n"
  using assms by (auto simp: dashboard_days_def key_day_def fetch_start_def DayFromYear_def)

lemma computeFetchRange_keys:
  assumes "dashboard_days a b latest"
  shows "computeFetchRange \<lparr>dr_start = date_key a, dr_end = date_key b\<rparr> (date_key latest) =
    Some \<lparr>dr_start = date_key (fetch_start a b latest), dr_end = date_key (max b latest + 1)\<rparr>"
proof -
  note days = dashboard_key_days [OF assms]
  have ab: "0 \<le> a" "a \<le> b" using assms by (simp_all add: dashboard_days_def)
  have keys: "key_day a" "key_day b" "key_day latest" by (rule days(5); use ab in simp)+
  have start: "(if date_key (2 * a - b - 1) < date_key (latest - 59) then date_key (2 * a - b - 1) else date_key (latest - 59)) =
      date_key (min (2 * a - b - 1) (latest - 59))"
    using date_key_less [OF days(1,2)] by (auto simp: min_def)
  have m: "key_day (min (2 * a - b - 1) (latest - 59))" using days(1,2) by (simp add: min_def)
  have clamp: "(if date_key (min (2 * a - b - 1) (latest - 59)) < MIN_METRICS_DATE then MIN_METRICS_DATE
        else date_key (min (2 * a - b - 1) (latest - 59))) = date_key (fetch_start a b latest)"
    using date_key_less [OF m min_date_key(2)] by (auto simp: min_date_key(1) fetch_start_def max_def)
  have stop: "(if date_key latest < date_key b then date_key b else date_key latest) = date_key (max b latest)"
    using date_key_less [OF keys(3,2)] by (auto simp: max_def)
  have moved: "addUTCDays (date_key latest) (- 59) = Some (date_key (latest - 59))"
    "addUTCDays (date_key a) (- (b - a + 1)) = Some (date_key (2 * a - b - 1))"
    "addUTCDays (date_key (max b latest)) 1 = Some (date_key (max b latest + 1))"
    using addUTCDays_key [OF keys(3), of "- 59"] addUTCDays_key [OF keys(1), of "- (b - a + 1)"]
      addUTCDays_key [of "max b latest" 1] keys days(1-3) by (simp_all add: max_def algebra_simps)
  show ?thesis
    unfolding computeFetchRange_def Let_def display_range.simps daysBetween_key [OF keys(1,2)] Option.bind.simps moved stop
      start clamp ..
qed

definition anchored_day :: "int \<times> int \<Rightarrow> jsstr \<Rightarrow> metric_day" where
  "anchored_day counts day =
     \<lparr>md_day = day, md_total = fst counts + snd counts, md_anonymous = fst counts, md_recognized = snd counts\<rparr>"

definition kept_history ::
    "(jsstr \<Rightarrow> jsstr \<Rightarrow> jsstr option \<Rightarrow> metric_day list) \<Rightarrow> int \<Rightarrow> int \<Rightarrow> jsstr option \<Rightarrow> metric_day list" where
  "kept_history history start latest connectionSelection =
     filter (\<lambda>m. date_key start \<le> md_day m \<and> md_day m < date_key latest)
       (if start < latest then history (date_key start) (date_key latest) connectionSelection else [])"

lemma fetched_days:
  assumes days: "dashboard_days a b (im_observedAt latest div DAY_MS)"
  defines "L \<equiv> im_observedAt latest div DAY_MS" and "start \<equiv> fetch_start a b (im_observedAt latest div DAY_MS)"
  shows "fetchIdentityMetricDays history latest \<lparr>dr_start = date_key a, dr_end = date_key b\<rparr> sel =
    Some (kept_history history start L sel @
      map (\<lambda>n. anchored_day (anchored_counts latest sel) (date_key n)) [max start L..max b L])"
proof -
  note days = days [folded L_def] dashboard_key_days [OF days, folded L_def start_def]
  have L: "key_day L" "key_day (max start L)" and start: "start \<le> L"
    using days by (auto simp: dashboard_days_def start_def L_def [symmetric] fetch_start_def intro!: days(6)) 
  have first: "(if date_key L < date_key start then date_key start else date_key L) = date_key (max start L)"
    using date_key_less [OF L(1) days(5)] by (auto simp: max_def)
  have added: "anchored_days (date_key L) \<lparr>dr_start = date_key start, dr_end = date_key (max b L + 1)\<rparr> =
      Some (map date_key [max start L..max b L])"
    unfolding anchored_days_def display_range.simps first using days_before [OF L(2) days(4)] by simp
  have range: "computeFetchRange \<lparr>dr_start = date_key a, dr_end = date_key b\<rparr> (date_key L) =
      Some \<lparr>dr_start = date_key start, dr_end = date_key (max b L + 1)\<rparr>"
    unfolding start_def L_def by (rule computeFetchRange_keys [OF days(1) [unfolded L_def]])
  have "date_key L < date_key (max b L + 1)" using date_key_less [OF L(1) days(4)] by simp
  then have kept: "filter (\<lambda>m. in_history (date_key L) \<lparr>dr_start = date_key start, dr_end = date_key (max b L + 1)\<rparr> (md_day m)) xs =
      filter (\<lambda>m. date_key start \<le> md_day m \<and> md_day m < date_key L) xs" for xs
    by (intro filter_cong) (auto simp: in_history_def)
  obtain x y where counts: "anchored_counts latest sel = (x, y)" by (cases "anchored_counts latest sel")
  show ?thesis
    unfolding fetchIdentityMetricDays_def instantToDateKey_def L_def [symmetric] Let_def range Option.bind.simps(2)
      completeIdentityMetricDays_def counts prod.case added kept display_range.simps
    by (simp add: kept_history_def date_key_less [OF days(5) L(1)] anchored_day_def o_def)
qed

subsection \<open>The chart\<close>

lemma obj_get_entries: "obj_get (obj_spread [] kvs) k = map_of (rev kvs) k"
  by (simp add: obj_spread_put_all objs.get_put_all split: option.split)

lemma map_of_rev_append: "map_of (rev (xs @ ys)) k = (case map_of (rev ys) k of None \<Rightarrow> map_of (rev xs) k | Some v \<Rightarrow> Some v)"
  by (simp add: map_add_def split: option.split)

lemma map_of_rev_keys: "map_of (rev (map (\<lambda>k. (k, e k)) ks)) k = (if k \<in> set ks then Some (e k) else None)"
  by (simp add: rev_map map_of_map_restrict restrict_map_def)

lemma map_of_rev_filter:
  assumes "P k"
  shows "map_of (rev (map (\<lambda>m. (md_day m, m)) (filter (\<lambda>m. P (md_day m)) ms))) k = map_of (rev (map (\<lambda>m. (md_day m, m)) ms)) k"
  using assms by (induction ms) (auto simp: map_add_def split: option.split)

text \<open>
  C12: The chart shows every day of the displayed range, once and in order. From the day of the latest observation on it
  shows the latest counts of what is selected; before it the counts the history has for the day, and no data where it has none.
  The fetched range is enough for that, however the displayed range and the latest day lie.
\<close>

theorem chart_shows_history:
  fixes sel :: "jsstr option" and history :: "jsstr \<Rightarrow> jsstr \<Rightarrow> jsstr option \<Rightarrow> metric_day list"
  assumes "dashboard_days a b (im_observedAt latest div DAY_MS)"
  defines "L \<equiv> im_observedAt latest div DAY_MS" and "counts \<equiv> anchored_counts latest sel"
  shows "\<exists>days. fetchIdentityMetricDays history latest \<lparr>dr_start = date_key a, dr_end = date_key b\<rparr> sel = Some days \<and>
    buildIdentityMetricChartDays days \<lparr>dr_start = date_key a, dr_end = date_key b\<rparr> =
      Some (map (\<lambda>n.
        if L \<le> n then \<lparr>cd_day = date_key n, cd_total = Some (fst counts + snd counts), cd_anonymous = Some (fst counts),
                       cd_recognized = Some (snd counts)\<rparr>
        else chart_day_of (obj_spread [] (map (\<lambda>m. (md_day m, m)) (history (date_key (fetch_start a b L)) (date_key L) sel)))
               (date_key n)) [a..b])"
proof -
  let ?start = "fetch_start a b L"
  let ?added = "map (\<lambda>n. anchored_day counts (date_key n)) [max ?start L..max b L]"
  let ?days = "kept_history history ?start L sel @ ?added"
  let ?m = "obj_spread [] (map (\<lambda>m. (md_day m, m)) ?days)"
  note dash = assms(1) [folded L_def]
  note days = dashboard_key_days [OF dash]
  have ab: "0 \<le> a" "a \<le> b" "0 \<le> L" using dash by (simp_all add: dashboard_days_def)
  have keys: "key_day n" if "0 \<le> n" "n \<le> max b L" for n
    using that days(3,4) min_date_key(2) by (auto simp: key_day_def)
  have get: "obj_get ?m k = (case (if k \<in> date_key ` {max ?start L..max b L} then Some (anchored_day counts k) else None) of
      None \<Rightarrow> map_of (rev (map (\<lambda>m. (md_day m, m)) (kept_history history ?start L sel))) k | Some m \<Rightarrow> Some m)" for k
  proof -
    have eq: "map (\<lambda>m. (md_day m, m)) ?added = map (\<lambda>k. (k, anchored_day counts k)) (map date_key [max ?start L..max b L])"
      by (simp add: anchored_day_def o_def)
    show ?thesis unfolding obj_get_entries map_append map_of_rev_append eq map_of_rev_keys by simp
  qed
  have "chart_day_of ?m (date_key n) =
      (if L \<le> n then \<lparr>cd_day = date_key n, cd_total = Some (fst counts + snd counts), cd_anonymous = Some (fst counts),
                     cd_recognized = Some (snd counts)\<rparr>
       else chart_day_of (obj_spread [] (map (\<lambda>m. (md_day m, m)) (history (date_key ?start) (date_key L) sel))) (date_key n))"
    if n: "a \<le> n" "n \<le> b" for n
  proof (cases "L \<le> n")
    case True
    have "?start \<le> n" using n ab by (auto simp: fetch_start_def)
    then have "date_key n \<in> date_key ` {max ?start L..max b L}" using True n by auto
    then have "obj_get ?m (date_key n) = Some (anchored_day counts (date_key n))" unfolding get by simp
    then show ?thesis using True by (simp add: chart_day_of_def anchored_day_def)
  next
    case False
    have start: "0 \<le> ?start" "?start \<le> n" "?start < L" using n ab False by (auto simp: fetch_start_def)
    have key: "key_day n" "key_day ?start" "key_day L" using n ab False start by (auto intro!: keys)
    have new: "date_key n \<notin> date_key ` {max ?start L..max b L}"
    proof
      assume "date_key n \<in> date_key ` {max ?start L..max b L}"
      then obtain k where k: "date_key n = date_key k" "L \<le> k" "k \<le> max b L" by auto
      then have "n = k" using date_key_inject [OF key(1) keys [of k]] ab by simp
      then show False using k(2) False by simp
    qed
    let ?h = "history (date_key ?start) (date_key L) sel" and ?entries = "\<lambda>ms. map (\<lambda>m. (md_day m, m)) ms"
    have inside: "date_key ?start \<le> date_key n \<and> date_key n < date_key L"
      using date_key_le [OF key(2,1)] date_key_less [OF key(1,3)] start False by simp
    have "obj_get ?m (date_key n) = map_of (rev (?entries (kept_history history ?start L sel))) (date_key n)"
      by (simp only: get new if_False option.case)
    also have "\<dots> = map_of (rev (?entries (filter (\<lambda>m. date_key ?start \<le> md_day m \<and> md_day m < date_key L) ?h))) (date_key n)"
      using start(3) by (simp only: kept_history_def if_True)
    also have "\<dots> = map_of (rev (?entries ?h)) (date_key n)"
      by (rule map_of_rev_filter [of "\<lambda>d. date_key ?start \<le> d \<and> d < date_key L", OF inside])
    finally have "obj_get ?m (date_key n) = map_of (rev (?entries ?h)) (date_key n)" .
    then show ?thesis using False by (simp add: chart_day_of_def obj_get_entries)
  qed
  moreover have "days_while (\<lambda>day. day \<le> date_key b) (date_key a) = Some (map date_key [a..b])"
  proof (rule days_upto)
    show "key_day (b + 1)" by (rule days(5)) (use ab in simp_all)
    show "key_day a" by (rule keys) (use ab in simp_all)
  qed (use ab in simp)
  ultimately have "buildIdentityMetricChartDays ?days \<lparr>dr_start = date_key a, dr_end = date_key b\<rparr> =
      Some (map (\<lambda>n.
        if L \<le> n then \<lparr>cd_day = date_key n, cd_total = Some (fst counts + snd counts), cd_anonymous = Some (fst counts),
                       cd_recognized = Some (snd counts)\<rparr>
        else chart_day_of (obj_spread [] (map (\<lambda>m. (md_day m, m)) (history (date_key ?start) (date_key L) sel))) (date_key n)) [a..b])"
    unfolding buildIdentityMetricChartDays_def display_range.simps by (simp cong: map_cong)
  then show ?thesis using fetched_days [OF assms(1), of history sel] unfolding L_def [symmetric] counts_def [symmetric] by blast
qed

subsection \<open>The trends\<close>

lemma valueAsOf_spec:
  "(valueAsOf days target = None \<longrightarrow> (\<forall>p \<in> set days. tp_day p \<le> target \<longrightarrow> tp_total p = None)) \<and>
   (\<forall>v. valueAsOf days target = Some v \<longrightarrow>
     (\<exists>p \<in> set days. tp_day p \<le> target \<and> tp_total p = Some v \<and> (\<forall>q \<in> set days. tp_day q \<le> target \<and> tp_total q \<noteq> None \<longrightarrow> tp_day q \<le> tp_day p)))"
proof -
  let ?step = "\<lambda>(d, v) point. if tp_day point \<le> target \<and> d \<le> tp_day point \<and> tp_total point \<noteq> None
       then (tp_day point, tp_total point) else (d, v)"
  let ?ok = "\<lambda>days (d, v). case v of
        None \<Rightarrow> d = [] \<and> (\<forall>p \<in> set days. tp_day p \<le> target \<longrightarrow> tp_total p = None)
      | Some x \<Rightarrow> \<exists>p \<in> set days. tp_day p \<le> target \<and> tp_total p = Some x \<and> d = tp_day p \<and>
          (\<forall>q \<in> set days. tp_day q \<le> target \<and> tp_total q \<noteq> None \<longrightarrow> tp_day q \<le> d)"
  have "?ok days (foldl ?step ([], None) days)"
  proof (induction days rule: rev_induct)
    case (snoc p days)
    obtain d v where dv: "foldl ?step ([], None) days = (d, v)" by (cases "foldl ?step ([], None) days")
    then have ok: "?ok days (d, v)" using snoc by (simp only:)
    have eq: "foldl ?step ([], None) (days @ [p]) =
        (if tp_day p \<le> target \<and> d \<le> tp_day p \<and> tp_total p \<noteq> None then (tp_day p, tp_total p) else (d, v))"
      by (simp only: foldl_append foldl_Cons foldl_Nil dv prod.case)
    have "?ok (days @ [p]) (if tp_day p \<le> target \<and> d \<le> tp_day p \<and> tp_total p \<noteq> None then (tp_day p, tp_total p) else (d, v))"
    proof (cases "tp_day p \<le> target \<and> d \<le> tp_day p \<and> tp_total p \<noteq> None")
      case True
      then obtain x where x: "tp_total p = Some x" by auto
      have "tp_day q \<le> tp_day p" if "q \<in> set days" "tp_day q \<le> target" "tp_total q \<noteq> None" for q
        using ok True that by (cases v) (auto intro: order_trans)
      then show ?thesis using True x by auto
    next
      case False
      show ?thesis
      proof (cases v)
        case None
        then show ?thesis using ok False by auto
      next
        case (Some x)
        then obtain q where "q \<in> set days" "tp_day q \<le> target" "tp_total q = Some x" "d = tp_day q"
          "\<forall>q \<in> set days. tp_day q \<le> target \<and> tp_total q \<noteq> None \<longrightarrow> tp_day q \<le> d" using ok by auto
        then show ?thesis using False Some by (auto intro!: bexI [of _ q])
      qed
    qed
    then show ?case by (simp only: eq)
  qed simp
  moreover obtain d v where dv: "foldl ?step ([], None) days = (d, v)" by (cases "foldl ?step ([], None) days")
  ultimately have ok: "?ok days (d, v)" by (simp only:)
  have val: "valueAsOf days target = v" by (simp only: valueAsOf_def dv snd_conv)
  show ?thesis
  proof (cases v)
    case None
    then show ?thesis using ok by (simp add: val)
  next
    case (Some x)
    then obtain p where "p \<in> set days" "tp_day p \<le> target" "tp_total p = Some x"
      "\<forall>q \<in> set days. tp_day q \<le> target \<and> tp_total q \<noteq> None \<longrightarrow> tp_day q \<le> tp_day p" using ok by auto
    then show ?thesis unfolding val Some by blast
  qed
qed

lemma valueAsOf_days:
  "case valueAsOf (map trend_point_of ms) target of
     None \<Rightarrow> \<forall>m \<in> set ms. \<not> md_day m \<le> target
   | Some v \<Rightarrow> \<exists>m \<in> set ms. md_day m \<le> target \<and> v = of_int (md_total m) \<and> (\<forall>m' \<in> set ms. md_day m' \<le> target \<longrightarrow> md_day m' \<le> md_day m)"
proof -
  have points: "tp_day (trend_point_of m) = md_day m" "tp_total (trend_point_of m) = Some (of_int (md_total m))" for m
    by (simp_all add: trend_point_of_def)
  show ?thesis using valueAsOf_spec [of "map trend_point_of ms" target] by (auto simp: points split: option.split)
qed

text \<open>
  A trend compares the latest state with the history: its present value is the latest count of identities of the
  workspace, its reference day lies its length before the latest day, and its reference value is the count of the most recent day the
  history has up to the reference day, within the range that was fetched, or unknown when there is none.
\<close>

theorem trend_of_latest:
  fixes history :: "jsstr \<Rightarrow> jsstr \<Rightarrow> jsstr option \<Rightarrow> metric_day list"
  assumes "dashboard_days a b (im_observedAt latest div DAY_MS)" "1 \<le> trendLength" "trendLength \<le> 59"
  defines "L \<equiv> im_observedAt latest div DAY_MS"
  defines "kept \<equiv> kept_history history (fetch_start a b L) L None"
  shows "\<exists>days t. fetchIdentityMetricDays history latest \<lparr>dr_start = date_key a, dr_end = date_key b\<rparr> None = Some days \<and>
    calculateIdentityTrend (map trend_point_of days) (date_key L) trendLength = Some t \<and>
    it_currentValue t = Some (of_int (im_anonymous latest + im_recognized latest)) \<and> it_referenceDay t = date_key (L - trendLength) \<and>
    (case it_referenceValue t of
       None \<Rightarrow> \<forall>m \<in> set kept. \<not> md_day m \<le> date_key (L - trendLength)
     | Some v \<Rightarrow> \<exists>m \<in> set kept. md_day m \<le> date_key (L - trendLength) \<and> v = of_int (md_total m) \<and>
         (\<forall>m' \<in> set kept. md_day m' \<le> date_key (L - trendLength) \<longrightarrow> md_day m' \<le> md_day m))"
proof -
  let ?start = "fetch_start a b L" and ?counts = "(im_anonymous latest, im_recognized latest)"
  let ?added = "map (\<lambda>n. anchored_day ?counts (date_key n)) [max ?start L..max b L]"
  let ?days = "kept @ ?added" and ?ref = "date_key (L - trendLength)"
  note dash = assms(1) [folded L_def]
  have ab: "0 \<le> a" "a \<le> b" "0 \<le> L" using dash by (simp_all add: dashboard_days_def)
  have start: "max ?start L = L" using ab by (simp add: fetch_start_def)
  have key: "key_day n" if "L - 59 \<le> n" "n \<le> max b L + 1" for n by (rule dashboard_key_days(5) [OF dash that(2)]) (use that in simp)
  have L: "key_day L" "key_day (L - trendLength)" using assms(2,3) by (auto intro!: key)
  have fetched: "fetchIdentityMetricDays history latest \<lparr>dr_start = date_key a, dr_end = date_key b\<rparr> None = Some ?days"
    using fetched_days [OF assms(1), of history None] unfolding L_def [symmetric] kept_def by (simp add: anchored_counts_def)
  have before: "md_day m < date_key L" if "m \<in> set kept" for m using that by (auto simp: kept_def kept_history_def)
  have added: "date_key L \<le> md_day m \<and> (md_day m \<le> date_key L \<longrightarrow> md_day m = date_key L \<and> md_total m = im_anonymous latest + im_recognized latest)"
    if m: "m \<in> set ?added" for m
  proof -
    obtain n where n: "m = anchored_day ?counts (date_key n)" "L \<le> n" "n \<le> max b L" using m start by auto
    have "key_day n" using n by (intro key) simp_all
    then show ?thesis using date_key_le [OF L(1), of n] n by (simp add: anchored_day_def)
  qed
  have own: "anchored_day ?counts (date_key L) \<in> set ?added" using start by simp
  define ms where "ms = ?days"
  have ms: "m \<in> set ms \<longleftrightarrow> m \<in> set kept \<or> m \<in> set ?added" for m unfolding ms_def by (simp only: set_append Un_iff)
  have current: "valueAsOf (map trend_point_of ms) (date_key L) = Some (of_int (im_anonymous latest + im_recognized latest))"
  proof (cases "valueAsOf (map trend_point_of ms) (date_key L)")
    case None
    then have "\<not> md_day (anchored_day ?counts (date_key L)) \<le> date_key L" using valueAsOf_days [of ms "date_key L"] own ms by auto
    then show ?thesis by (simp add: anchored_day_def)
  next
    case (Some v)
    then obtain m where m: "m \<in> set ms" "md_day m \<le> date_key L" "v = of_int (md_total m)"
      "\<forall>m' \<in> set ms. md_day m' \<le> date_key L \<longrightarrow> md_day m' \<le> md_day m"
      using valueAsOf_days [of ms "date_key L"] by auto
    have "anchored_day ?counts (date_key L) \<in> set ms" using own ms by blast
    then have "date_key L \<le> md_day m" using m(4) by (auto simp: anchored_day_def)
    then have "m \<notin> set kept" using before [of m] by auto
    then have "m \<in> set ?added" using m(1) ms [of m] by blast
    from added [OF this] m(2) have "md_total m = im_anonymous latest + im_recognized latest" by blast
    then show ?thesis by (simp only: Some m(3))
  qed
  have low: "?ref < date_key L" using date_key_less [OF L(2,1)] assms(2) by simp
  have only: "m \<in> set ms \<and> md_day m \<le> ?ref \<longleftrightarrow> m \<in> set kept \<and> md_day m \<le> ?ref" for m
    using added [of m] low ms [of m] by (meson leD order_less_le_trans)
  have reference: "case valueAsOf (map trend_point_of ms) ?ref of
       None \<Rightarrow> \<forall>m \<in> set kept. \<not> md_day m \<le> ?ref
     | Some v \<Rightarrow> \<exists>m \<in> set kept. md_day m \<le> ?ref \<and> v = of_int (md_total m) \<and>
         (\<forall>m' \<in> set kept. md_day m' \<le> ?ref \<longrightarrow> md_day m' \<le> md_day m)"
  proof (cases "valueAsOf (map trend_point_of ms) ?ref")
    case None
    then have "\<forall>m \<in> set ms. \<not> md_day m \<le> ?ref" using valueAsOf_days [of ms ?ref] by (simp only: option.case)
    then show ?thesis using only unfolding None by auto
  next
    case (Some v)
    then obtain m where "m \<in> set ms" "md_day m \<le> ?ref" "v = of_int (md_total m)"
      "\<forall>m' \<in> set ms. md_day m' \<le> ?ref \<longrightarrow> md_day m' \<le> md_day m"
      using valueAsOf_days [of ms ?ref] by auto
    then show ?thesis using only unfolding Some option.case by blast
  qed
  let ?t = "\<lparr>it_changePercent = change_percent (valueAsOf (map trend_point_of ms) (date_key L)) (valueAsOf (map trend_point_of ms) ?ref),
    it_currentValue = valueAsOf (map trend_point_of ms) (date_key L), it_referenceValue = valueAsOf (map trend_point_of ms) ?ref,
    it_currentDay = date_key L, it_referenceDay = ?ref,
    it_points = sliceDays (map trend_point_of ms) \<lparr>dr_start = date_key (L - (trendLength - 1)), dr_end = date_key L\<rparr>\<rparr>"
  have "calculateIdentityTrend (map trend_point_of ms) (date_key L) trendLength = Some ?t"
    using addUTCDays_key [OF L(1), of "- (trendLength - 1)"] addUTCDays_key [OF L(1), of "- trendLength"] L(2) key [of "L - (trendLength - 1)"]
      assms(2,3) by (simp add: calculateIdentityTrend_def Let_def algebra_simps)
  then show ?thesis using fetched current reference unfolding ms_def [symmetric]
    by (intro exI [of _ ms] exI [of _ ?t]) simp
qed

subsection \<open>The connections\<close>

lemma sum_set:
  "sum_list (map (f \<circ> snd) (obj_set m k v)) = sum_list (map (f \<circ> snd) m) + f v - (case obj_get m k of None \<Rightarrow> 0 | Some w \<Rightarrow> (f w :: int))"
  by (induction m k v rule: obj_set.induct) auto

lemma sum_add_connection:
  fixes f :: "int \<times> int \<Rightarrow> int"
  assumes "f (0, 0) = 0" "\<And>r a c. f (r + cm_recognized c, a + cm_anonymous c) = f (r, a) + g c"
  shows "sum_list (map (f \<circ> snd) (foldl add_connection m cs)) = sum_list (map (f \<circ> snd) m) + sum_list (map g cs)"
proof (induction cs arbitrary: m)
  case (Cons c cs)
  have "sum_list (map (f \<circ> snd) (add_connection m c)) = sum_list (map (f \<circ> snd) m) + g c"
  proof (cases "obj_get m (cm_connection c)")
    case None
    then have "add_connection m c = obj_set m (cm_connection c) (cm_recognized c, cm_anonymous c)" by (simp add: add_connection_def)
    moreover have "f (cm_recognized c, cm_anonymous c) = g c" using assms(2) [of 0 c 0] assms(1) by simp
    ultimately show ?thesis using sum_set [of f m "cm_connection c" "(cm_recognized c, cm_anonymous c)"] None by simp
  next
    case (Some t)
    obtain r a where t: "t = (r, a)" by (cases t)
    have "add_connection m c = obj_set m (cm_connection c) (r + cm_recognized c, a + cm_anonymous c)" by (simp add: add_connection_def Some t)
    then show ?thesis by (simp only: sum_set Some t assms(2) option.case)
  qed
  then show ?case using Cons by (simp add: o_def)
qed simp

lemma sum_sort_by: "sum_list (map f (sort_by le xs)) = (sum_list (map f xs) :: int)"
proof -
  have "sum_list (map f (insert_by le x ys)) = f x + sum_list (map f ys)" for x ys by (induction ys) auto
  then show ?thesis by (induction xs) (simp_all add: sort_by_def)
qed

lemma sorted_by_weak:
  assumes "\<And>x y. le x y \<Longrightarrow> R x y" "\<And>x y. \<not> le x y \<Longrightarrow> R y x" "\<And>x y z. R x y \<Longrightarrow> R y z \<Longrightarrow> R x z"
  shows "sorted_wrt R (sort_by le xs)"
proof -
  have "sorted_wrt R (insert_by le x ys)" if "sorted_wrt R ys" for x ys
    using that by (induction ys) (auto intro: assms)
  then show ?thesis by (induction xs) (simp_all add: sort_by_def)
qed

definition bars_of :: "(jsstr \<Rightarrow> jsstr \<Rightarrow> bool) \<Rightarrow> connection_metric list \<Rightarrow> jsstr obj \<Rightarrow> connection_bar list" where
  "bars_of before connections names = sort_by (bar_le before) (map (bar_of names) (foldl add_connection [] connections))"

lemma sum_bars:
  "sum_list (map cb_recognized (bars_of before cs names)) = sum_list (map cm_recognized cs)"
  "sum_list (map cb_anonymous (bars_of before cs names)) = sum_list (map cm_anonymous cs)"
  "sum_list (map cb_total (bars_of before cs names)) = sum_list (map (\<lambda>c. cm_anonymous c + cm_recognized c) cs)"
proof -
  have bar: "cb_recognized \<circ> bar_of names = fst \<circ> snd" "cb_anonymous \<circ> bar_of names = snd \<circ> snd"
    "cb_total \<circ> bar_of names = (\<lambda>(r, a). r + a) \<circ> snd"
    by (auto simp: bar_of_def)
  show "sum_list (map cb_recognized (bars_of before cs names)) = sum_list (map cm_recognized cs)"
    "sum_list (map cb_anonymous (bars_of before cs names)) = sum_list (map cm_anonymous cs)"
    "sum_list (map cb_total (bars_of before cs names)) = sum_list (map (\<lambda>c. cm_anonymous c + cm_recognized c) cs)"
    using sum_add_connection [of fst cm_recognized "[]" cs] sum_add_connection [of snd cm_anonymous "[]" cs]
      sum_add_connection [of "\<lambda>(r, a). r + a" "\<lambda>c. cm_anonymous c + cm_recognized c" "[]" cs]
    by (simp_all add: bars_of_def sum_sort_by bar)
qed

lemma bars_sorted: "sorted_wrt (\<lambda>x y. cb_total y \<le> cb_total x) (bars_of before cs names)"
  unfolding bars_of_def by (rule sorted_by_weak) (auto simp: bar_le_def)

lemma deleted_counts_sum:
  "deleted_counts cs = (sum_list (map cm_anonymous cs), sum_list (map cm_recognized cs), sum_list (map cm_withoutProfile cs))"
proof -
  have "foldl (\<lambda>(a, r, w) c. (a + cm_anonymous c, r + cm_recognized c, w + cm_withoutProfile c)) (x, y, z) cs =
      (x + sum_list (map cm_anonymous cs), y + sum_list (map cm_recognized cs), z + sum_list (map cm_withoutProfile cs))" for x y z
    by (induction cs arbitrary: x y z) (simp_all add: algebra_simps)
  then show ?thesis by (simp add: deleted_counts_def)
qed

lemma latest_metrics_sum:
  assumes "sum_list (map (\<lambda>c. cm_anonymous c + cm_recognized c) (im_connections latest)) \<le> im_anonymous latest + im_recognized latest"
  shows "sum_list (map (\<lambda>c. cm_anonymous c + cm_recognized c) (latest_connection_metrics latest)) = im_anonymous latest + im_recognized latest"
  using assms
  by (simp add: latest_connection_metrics_def buildDeletedConnectionMetric_def deleted_counts_sum sum_list_addf)

text \<open>
  C22: When the counts of the connections add up to no more than the identities of the workspace, the totals of the bars
  add up exactly to these identities, whatever is gathered under the removed connections and under Other. There is at most
  one bar more than the limit, and the bars of single connections are in decreasing order: all the bars, or all up to the
  limit, and then the last one is Other, which may be longer than those before it.
\<close>

theorem connection_bars_account_for_all:
  fixes before :: "jsstr \<Rightarrow> jsstr \<Rightarrow> bool" and names :: "jsstr obj" and limit :: nat
  assumes "sum_list (map (\<lambda>c. cm_anonymous c + cm_recognized c) (im_connections latest)) \<le> im_anonymous latest + im_recognized latest"
  defines "bars \<equiv> aggregateConnections before (latest_connection_metrics latest) names limit"
  shows "sum_list (map cb_total bars) = im_anonymous latest + im_recognized latest \<and> length bars \<le> limit + 1 \<and>
    (sorted_wrt (\<lambda>x y. cb_total y \<le> cb_total x) bars \<or>
     (\<exists>other. bars = take limit bars @ [other] \<and> cb_connection other = js ''__other__'' \<and> cb_name other = js ''Other'' \<and>
        sorted_wrt (\<lambda>x y. cb_total y \<le> cb_total x) (take limit bars)))"
proof -
  let ?all = "bars_of before (latest_connection_metrics latest) names"
  have total: "sum_list (map cb_total ?all) = im_anonymous latest + im_recognized latest"
    by (simp add: sum_bars latest_metrics_sum [OF assms(1)])
  have bars: "bars = (if list_all (\<lambda>c. cb_total c = 0) ?all then []
      else if length ?all \<le> limit + 1 then ?all
      else take limit ?all @
        [\<lparr>cb_connection = js ''__other__'', cb_name = js ''Other'', cb_recognized = sum_list (map cb_recognized (drop limit ?all)),
          cb_anonymous = sum_list (map cb_anonymous (drop limit ?all)), cb_total = sum_list (map cb_total (drop limit ?all))\<rparr>])"
    unfolding bars_def aggregateConnections_def Let_def bars_of_def ..
  have sorted: "sorted_wrt (\<lambda>x y. cb_total y \<le> cb_total x) (take limit ?all)" by (rule sorted_wrt_take [OF bars_sorted])
  consider "list_all (\<lambda>c. cb_total c = 0) ?all" | "\<not> list_all (\<lambda>c. cb_total c = 0) ?all" "length ?all \<le> limit + 1"
    | "\<not> list_all (\<lambda>c. cb_total c = 0) ?all" "\<not> length ?all \<le> limit + 1" by blast
  then show ?thesis
  proof cases
    case 1
    then have "map cb_total ?all = map (\<lambda>_. 0) ?all" by (simp add: list_all_iff)
    then have "sum_list (map cb_total ?all) = 0" by (simp only: sum_list_0)
    then show ?thesis using total 1 by (simp add: bars)
  next
    case 2
    then show ?thesis using total bars_sorted by (simp add: bars)
  next
    case 3
    have "sum_list (map cb_total (take limit ?all)) + sum_list (map cb_total (drop limit ?all)) = sum_list (map cb_total ?all)"
      by (metis append_take_drop_id map_append sum_list_append)
    then show ?thesis using total sorted 3 by (simp add: bars)
  qed
qed

subsection \<open>An example\<close>

definition example_metric :: identity_metric where
  "example_metric =
     \<lparr>im_observedAt = 19782 * 86400000 + 1, im_total = 10, im_anonymous = 4, im_recognized = 6, im_withoutProfile = 0,
      im_connections = [\<lparr>cm_connection = js ''1'', cm_anonymous = 3, cm_recognized = 2, cm_withoutProfile = 0\<rparr>]\<rparr>"

lemma example_dashboard: "im_observedAt example_metric div DAY_MS = 19782" "dashboard_days 19780 19782 19782"
  by (simp_all add: example_metric_def DAY_MS_def dashboard_days_def key_day_def DayFromYear_def)

theorem chart_shows_history_witness:
  "\<exists>days chart. fetchIdentityMetricDays (\<lambda>_ _ _. []) example_metric \<lparr>dr_start = date_key 19780, dr_end = date_key 19782\<rparr> None = Some days \<and>
    buildIdentityMetricChartDays days \<lparr>dr_start = date_key 19780, dr_end = date_key 19782\<rparr> = Some chart \<and>
    map cd_total chart = [None, None, Some 10]"
proof -
  have range: "[19780..19782] = [19780, 19781, 19782 :: int]" by (simp add: upto.simps)
  show ?thesis
    using chart_shows_history [of 19780 19782 example_metric "\<lambda>_ _ _. []" None] example_dashboard
    by (fastforce simp: range anchored_counts_def example_metric_def chart_day_of_def obj_get_entries)
qed

theorem trend_of_latest_witness:
  "\<exists>days t. calculateIdentityTrend (map trend_point_of days) (date_key 19782) 7 = Some t \<and> it_currentValue t = Some 10 \<and>
    it_referenceDay t = date_key 19775"
proof -
  have counts: "im_anonymous example_metric + im_recognized example_metric = 10" by (simp add: example_metric_def)
  show ?thesis
    using trend_of_latest [of 19780 19782 example_metric 7 "\<lambda>_ _ _. []"] example_dashboard by (auto simp: counts)
qed

theorem connection_bars_account_for_all_witness:
  "sum_list (map cb_total (aggregateConnections (<) (latest_connection_metrics example_metric) [] 7)) = 10"
proof -
  have "sum_list (map (\<lambda>c. cm_anonymous c + cm_recognized c) (im_connections example_metric)) \<le> im_anonymous example_metric + im_recognized example_metric"
    "im_anonymous example_metric + im_recognized example_metric = 10"
    by (simp_all add: example_metric_def)
  then show ?thesis using connection_bars_account_for_all [of example_metric "(<)" "[]" 7] by simp
qed

end
