(* ===== verification/Spec2Isabelle.thy ===== *)
theory Spec2Isabelle
  imports Api_Types Filter_Text Filter_Tree Filter_Dates Filter_Roundtrip Filter_Conditions Schema_Edit
    Schema_Build Mapping_State Consents Matching Combobox_Items Transformation_Code Pipeline_Load
    Pipeline_Save Saved_Schemas Path_Selection Saved_Pipeline Map_Expression Map_Cursor Property_Reordering Schema_Editor_Paths
    Schema_Editor_Saved Schema_Editor_View Limit_Checks Type_Selection Schema_Page_Invariants
    Applied_Changes Review_Invariant Url_Secrets Identity_Dashboard
begin

text \<open>
  This development models the logic of the admin console of Krenalis (\<open>src/admin/src\<close>): what its
  pages compute about schemas, filters, mappings and pipelines before anything is sent to the server.

  \<^bold>\<open>The program.\<close> A connection to a data source or destination has pipelines. A pipeline reads records with
  an input schema, keeps those that satisfy a filter, transforms them with a mapping or with a
  function, and writes records with an output schema. The page of a pipeline loads the saved pipeline
  (\<open>transformPipeline\<close>), lets the user edit it, and saves it (\<open>transformInPipelineToSet\<close>), all in
  \<open>lib/core/pipeline.ts\<close>; both work on schemas flattened into objects from dotted paths to
  properties (\<open>flattenSchema\<close>). Filters are also edited as text: \<open>utils/filters.ts\<close> prints them and
  recognises their values, \<open>utils/filters_parser.ts\<close> parses them.

  \<^bold>\<open>The model.\<close> Pure functions are functions; an object is the list of its entries in insertion order; an
  exception is the \<open>Inl\<close> of a sum, or \<open>None\<close> where the source can only fail with a \<open>TypeError\<close>; state a
  component mutates is returned; the editors are inductive step relations. A JavaScript
  string is the list of its UTF-16 code units. The theories, in the order of their dependencies:

  \<^item> \<open>Js_Prelude\<close>: strings, ordered objects (interface \<open>ordered_store\<close>), results.
  \<^item> \<open>Api_Types\<close>: the data of the HTTP interface (\<open>lib/api/types\<close>).
  \<^item> \<open>Js_Number\<close>, \<open>Js_Date\<close>: the numbers and the dates the recognisers compare, as exact rationals and
    as calendar dates with their day numbers.
  \<^item> \<open>Filter_Text\<close>, \<open>Filter_Lexical\<close>, \<open>Filter_Dates\<close> (\<open>filters.ts\<close>): the text of values, numbers, UUIDs
    and property paths, dates, times and addresses.
  \<^item> \<open>Filter_Tree\<close> (\<open>pipeline.ts\<close>): operators, limits, traversal and pruning of filters.
  \<^item> \<open>Filter_Syntax\<close>, \<open>Filter_Roundtrip\<close>: the printer, the parser, and that each undoes the other.
  \<^item> \<open>Schema_Flatten\<close>, \<open>Schema_Tree\<close>, \<open>Schema_Edit\<close>, \<open>Schema_Build\<close>: flattened schemas and their paths,
    the schema editor (\<open>SchemaEdit.helpers.ts\<close>), building the schema of a pipeline.
  \<^item> \<open>Connections\<close> (\<open>connector.ts\<close>, \<open>connection.ts\<close>), \<open>Pipeline_Types\<close>: the classes of connectors and
    connections, the steps and fields of a pipeline.
  \<^item> \<open>Required_Paths\<close>, \<open>Matching\<close>, \<open>Consents\<close>: the checks of the page. \<open>Mapping_State\<close> (with \<open>Pipeline.helpers.ts\<close>,
    \<open>PipelineMatching.tsx\<close>, \<open>PipelineTable.tsx\<close>, \<open>PipelineTransformation.tsx\<close>): the mapping editor.
  \<^item> \<open>Filter_Conditions\<close>: the operators of a property and the validation of a condition.
  \<^item> \<open>Combobox_Items\<close> (\<open>getSchemaComboboxItems.tsx\<close>): the properties the choosers offer.
  \<^item> \<open>Transformation_Code\<close>: the text of the default transformation function.
  \<^item> \<open>Pipeline_Load\<close>, \<open>Pipeline_Save\<close>: loading and saving, each block of the source a definition.
  \<^item> \<open>Saved_Schemas\<close>, \<open>Path_Selection\<close> (\<open>onChangeSelectedPath\<close> of \<open>PipelineTransformation.tsx\<close>,
    \<open>usePipeline.ts\<close>), \<open>Saved_Pipeline\<close>: what a saved pipeline satisfies.
  \<^item> \<open>Map_Expression\<close>, \<open>Map_Cursor\<close> (\<open>mapExpression.ts\<close>): the expression of a map property, built of its pairs
    and read back, and the scanner that finds the element at the cursor of an expression.
  \<^item> \<open>Stationary_Sequence\<close>, \<open>Property_Reordering\<close> (\<open>usePropertyReordering.ts\<close>): moving properties, and which of
    them are marked as moved; the dynamic program that decides it, against its specification.
  \<^item> \<open>Profile_Roles\<close> (\<open>profilePropertyRoles.ts\<close>), \<open>Type_Text\<close> (\<open>components/helpers/types.ts\<close>).
  \<^item> \<open>Schema_Editor\<close> (\<open>useSchemaEdit.tsx\<close>, names of \<open>PropertyForm.tsx\<close>): the state of the editor of the profile
    schema and its operations; \<open>Schema_Editor_Steps\<close> what each does, \<open>Schema_Editor_States\<close> the reachable
    states, \<open>Schema_Editor_Invariants\<close>, \<open>Schema_Editor_Paths\<close>, \<open>Schema_Editor_Order\<close> their invariants,
    \<open>Schema_Editor_Saved\<close> the schema that is sent; \<open>Property_Parents\<close> the list of the parents and the check of
    a name; \<open>Schema_Editor_View\<close> what is shown, and the requests of the preview and the confirmation.
  \<^item> \<open>Js_Double\<close>: the rounding of \<open>Number\<close> and \<open>Math.fround\<close>. \<open>Property_Limits\<close> (\<open>PropertyForm.tsx\<close>): the checks of
    the limits of a type, and \<open>Limit_Checks\<close> what they accept.
  \<^item> \<open>Property_Form\<close> (\<open>PropertyForm.tsx\<close>, \<open>PropertyTypeSelector.tsx\<close>): the state of the form of a property, its
    handlers and events; \<open>Type_Selection\<close> and \<open>Form_Invariant\<close> what they keep.
  \<^item> \<open>Schema_Edit_Page\<close> (\<open>SchemaEdit.tsx\<close>): the page, which composes the editor with the form;
    \<open>Schema_Page_Steps\<close> and \<open>Schema_Page_Invariants\<close> its invariant.
  \<^item> \<open>Applied_Changes\<close>: the request that applies the changes. \<open>Schema_Review\<close> (\<open>useSchemaEdit.tsx\<close>): the dialog that
    reviews and applies them, with the answers and the timers it waits for; \<open>Review_Invariant\<close> what it shows.
  \<^item> \<open>Url_Scrubbing\<close> (\<open>scrubURL.ts\<close>): what is reported of an address; \<open>Url_Secrets\<close> that it does not depend on secrets.
  \<^item> \<open>Day_Keys\<close>, \<open>Identity_Metrics\<close> (\<open>IdentityOverview.helpers.ts\<close>, \<open>IdentityOverview.tsx\<close>): the days of the dashboard
    of the identities, what it fetches and computes; \<open>Identity_Dashboard\<close> what it shows.

  \<^bold>\<open>What the theorems show.\<close> Texts: parsing a printed filter gives it back, and every parsed filter is well
  formed; the recognisers of dates, times and addresses accept the stated sets of strings.
  Schemas: a flattened schema read at a path is the schema read name by name (an equivalence with
  \<open>lookup_path\<close>), the schema editor loses nothing, adding a property changes the paths of a schema by
  that property and its ancestors only, sorting restores the order of the full schema. Editors:
  \<open>editor_reachable\<close> and \<open>selected_by_user\<close> are the states of the mapping editor and of the selection for
  a function; their invariants (\<open>editor_inv\<close>, \<open>selection_ok\<close>) are proved by rule induction. The states of the mapping
  editor include the changes of the matching, which may clear an expression and leave its ancestors disabled
  (\<open>cleared_matching_leaves_ancestor_disabled\<close>), so the invariant has two parts: the relatives of a filled property are
  disabled always, and only those until such a change. They include a new destination table and a change to mappings too; the
  answers of the validation of the expressions arrive before the expression is edited again
  (\<open>late_validation_fills_relatives\<close> otherwise). Expressions: the pairs
  of a map are read back from the expression built of them, and what the scanner reports at the
  cursor satisfies \<open>fragment_ok\<close>, by the invariant \<open>scanner_ok\<close> of its loop. Saving
  is then proved against those states: the saved mapping or function is the edited one, the saved
  schemas have exactly the paths it uses, and loading gives the edited expressions back. Schema editor:
  \<open>schema_editor_reachable\<close> is any sequence of additions, edits, removals and moves after opening; in its states
  the schema is well formed (\<open>editable_ok\<close>, \<open>order_ok\<close>), roles and sources are those of existing properties, every
  operation the forms allow completes, the schema sent is the one shown, and only moved properties
  are marked; the marks come from the best common subsequence of the two orders (\<open>better_stationary\<close>).
  The re-paths sent with the schema mean what the server needs as long as the user is \<open>careful\<close>.
  Page: \<open>page_reachable\<close> is any sequence of the events the page and its form offer; the guards of
  \<open>schema_editor_reachable\<close> are derived there from the checks of the form (\<open>form_ok\<close>, \<open>page_ok\<close>), a form that passes them
  is saved, roles stay valid and the types of the properties of the warehouse stay as they are. Limits: up to 32
  bits the checks on doubles and texts accept exactly the integers of the type. Review:
  \<open>review_reachable\<close> is any sequence of reviews, cancellations, answers and timers; the queries that are shown are those
  of the schema in the editor, every change that is sent was reviewed (\<open>review_ok\<close>), and its request can always be built.
  Telemetry: two addresses that differ in their secrets only (\<open>same_public\<close>, \<open>same_params\<close>) are reported alike.
  Dashboard: the strings that name days are compared and counted as days, the chart shows each displayed day once, with the history
  or the latest state, and the bars of the connections account for all identities.

  \<^bold>\<open>Interfaces.\<close> \<open>ordered_store\<close> states what the code relies on in objects and maps and is interpreted on
  \<open>obj_get\<close>, \<open>obj_set\<close>; \<open>equivalence_test\<close> on the comparisons of semantics and types; \<open>growing_map\<close>,
  what a filter mapped with a growing state keeps, on the conditions of a saved filter.

  \<^bold>\<open>Hypotheses.\<close> \<open>wf_properties\<close>: the names of a schema are distinct among siblings and without periods, which
  the server guarantees. \<open>names_nonempty\<close>: they are not empty. \<open>unambiguous\<close>: a saved mapping does not
  give an expression to both a property and its ancestor, as no mapping the editor saves does. \<open>prefilled_alone\<close>:
  no prefilled property has an ancestor or a descendant; \<open>flat_columns\<close>: no column of a table has an object type; both
  hold of every connector of the repository. The request
  \<open>api.expressionsProperties\<close> is a parameter of \<open>transformInPipelineToSet\<close>, about which
  nothing is assumed. \<open>numbered\<close>: two moves have different numbers, which is proved of every reachable state.
  \<open>careful\<close>: the user does not rename a new property to a name that another rename freed (there the
  code loses a re-path, \<open>careless_edits_value\<close>). Nothing is assumed of the parameters that stand for what depends
  on the locale or on printing: \<open>before\<close> (\<open>localeCompare\<close>), \<open>lower\<close>, \<open>num\<close> (\<open>String\<close>), \<open>stringify\<close>, nor of
  \<open>exp10\<close>, the value of \<open>10 ** n\<close>, which the standard leaves to the engine. The page is opened on a profile whose roles
  are valid. \<open>number_text\<close>: a number input gives a number of at most \<open>2 ^ 52\<close> characters, more than a
  string can have. \<open>faithful_key\<close>: \<open>JSON.stringify\<close> gives different texts for requests with different schemas or re-paths.
  The objects of primary sources have distinct keys. An object is read by its own keys: the names every JavaScript object
  inherits, such as \<open>constructor\<close>, are taken not to be asked for (\<open>onAddProperty\<close> would give a property of that name
  a numbered key, as it does for a key in use). \<open>key_day\<close>, \<open>dashboard_days\<close>: the dates of the dashboard are in the years 100
  to 9999, and the displayed ones from 1970 on; its counts are integers below \<open>2 ^ 53\<close>. The connections of a workspace have no more identities than it.

  \<^bold>\<open>Termination.\<close> No definition has fuel. The recursions over schemas decrease the size of the list of properties,
  the parser the length of the unread text, the scanner of \<open>Map_Cursor\<close> that length or the
  state of a path. The loop of \<open>splitMapKey\<close> can run forever: it is a \<open>partial_function (option)\<close>, and
  \<open>Map_Expression\<close> shows for which texts it returns. So are the two loops of the schema editor over links, \<open>collect_keys\<close> and
  \<open>collect_parents\<close>, and the loop of the dashboard over days (\<open>days_while\<close>), proved to return; \<open>fresh_key\<close> ends because the schema has finitely many keys.

  \<^bold>\<open>Not modelled.\<close> React components, hooks and contexts (rendering, events, requests) apart from
  the named functions and the page of the schema editor, of which search, navigation, focus and animation are left
  out; of the dashboard of the identities the metrics of the resolution runs, the domains of the charts and the
  formats; of the page of a pipeline the confirmation of queries and files, which change the input schema only; the navigation of grids by the keyboard and the completion of parentheses in expressions; the API client
  (input and output) and the parsing of addresses, which is the browser's; the utilities other than filters and
  expressions, each one call of the standard library; the server, which is written in another language; the vendored
  modules. Mutation of shared property objects is modelled by the values that result, for the reasons
  \<open>Schema_Build\<close> gives.
\<close>

end
